(* ===== verification/Cpp_Prelude.thy ===== *)
theory Cpp_Prelude
  imports Main "HOL-Library.Multiset"
begin

text \<open>
  The fragment of C++ the development rests on: results with errors, checked vector access,
  the two shapes of loops (a fold over the elements, and a search loop that leaves at the first
  success), \<open>std::sort\<close> and \<open>std::set\<close>. Nothing here is about circuits; the component theories
  take the error type, the loops and their rules from this theory.
\<close>

section \<open>Errors and results\<close>

text \<open>
  A run that does not return normally: \<open>Exit\<close> is the macro \<open>err(msg)\<close> of \<open>Netlist.h\<close>, which
  prints its message and ends the process; \<open>Bad_Index\<close> and \<open>Null_Deref\<close> are undefined behaviour
  of C++ (an index outside a vector, a null or unset pointer); \<open>Stack_Overflow\<close> is a recursion
  deeper than the fuel given; \<open>Throw\<close> is an exception nothing catches; \<open>Hang\<close> is a loop that does
  not end (within the fuel given, where the loop has fuel); \<open>Int_Overflow\<close> is a sum of \<open>int\<close>s outside 32 bits, again
  undefined behaviour.
\<close>

datatype err = Exit string | Bad_Index | Null_Deref | Stack_Overflow | Throw string | Hang | Int_Overflow

type_synonym 'a res = "err + 'a"

named_theorems res_simps "inversion of successful results"

definition rbind :: "'e + 'a \<Rightarrow> ('a \<Rightarrow> 'e + 'b) \<Rightarrow> 'e + 'b" where
  "rbind m f = (case m of Inl e \<Rightarrow> Inl e | Inr x \<Rightarrow> f x)"

lemma rbind_Inl [simp]: "rbind (Inl e) f = Inl e"
  by (simp add: rbind_def)

lemma rbind_Inr [simp]: "rbind (Inr x) f = f x"
  by (simp add: rbind_def)

lemma rbind_eq_Inr [res_simps]: "rbind m f = Inr y \<longleftrightarrow> (\<exists>x. m = Inr x \<and> f x = Inr y)"
  by (cases m) auto

lemma rbindE: "rbind m f = Inr y \<Longrightarrow> (\<And>x. m = Inr x \<Longrightarrow> f x = Inr y \<Longrightarrow> P) \<Longrightarrow> P"
  by (auto simp: rbind_eq_Inr)

lemma rbind_eq_Inl: "rbind m f = Inl e \<longleftrightarrow> m = Inl e \<or> (\<exists>x. m = Inr x \<and> f x = Inl e)"
  by (cases m) auto

lemma rbind_assoc: "rbind (rbind m f) g = rbind m (\<lambda>x. rbind (f x) g)"
  by (cases m) auto

lemma rbind_cong [fundef_cong]:
  "m = m' \<Longrightarrow> (\<And>x. m' = Inr x \<Longrightarrow> f x = f' x) \<Longrightarrow> rbind m f = rbind m' f'"
  by (cases m') auto

text \<open>Guards: the early exits of the source.\<close>

definition require :: "bool \<Rightarrow> 'e \<Rightarrow> 'e + unit" where
  "require b e = (if b then Inr () else Inl e)"

lemma require_eq_Inr [res_simps]: "require b e = Inr u \<longleftrightarrow> b"
  by (auto simp: require_def)

lemma require_True [simp]: "require True e = Inr ()"
  by (simp add: require_def)

lemma require_False [simp]: "require False e = Inl e"
  by (simp add: require_def)

section \<open>Vectors\<close>

text \<open>
  Indices are C++ integers, so they are \<open>int\<close>: the code reads with \<open>-1\<close> and \<open>-2\<close> as markers,
  and an index out of range is an error of the model.
\<close>

definition in_range :: "'a list \<Rightarrow> int \<Rightarrow> bool" where
  "in_range xs i \<longleftrightarrow> 0 \<le> i \<and> i < int (length xs)"

definition vget :: "'a list \<Rightarrow> int \<Rightarrow> 'a res" where
  "vget xs i = (if in_range xs i then Inr (xs ! nat i) else Inl Bad_Index)"

definition vset :: "'a list \<Rightarrow> int \<Rightarrow> 'a \<Rightarrow> 'a list res" where
  "vset xs i v = (if in_range xs i then Inr (xs[nat i := v]) else Inl Bad_Index)"

lemma vget_eq_Inr [res_simps]: "vget xs i = Inr v \<longleftrightarrow> in_range xs i \<and> v = xs ! nat i"
  by (auto simp: vget_def)

lemma vset_eq_Inr [res_simps]: "vset xs i v = Inr ys \<longleftrightarrow> in_range xs i \<and> ys = xs[nat i := v]"
  by (auto simp: vset_def)

lemma vget_in_range [simp]: "in_range xs i \<Longrightarrow> vget xs i = Inr (xs ! nat i)"
  by (simp add: vget_def)

lemma vset_in_range [simp]: "in_range xs i \<Longrightarrow> vset xs i v = Inr (xs[nat i := v])"
  by (simp add: vset_def)

lemma in_range_list_update [simp]: "in_range (xs[n := v]) i = in_range xs i"
  by (simp add: in_range_def)

lemma in_range_nat [simp]: "in_range xs (int n) \<longleftrightarrow> n < length xs"
  by (simp add: in_range_def)

lemma in_rangeD: "in_range xs i \<Longrightarrow> nat i < length xs"
  by (auto simp: in_range_def)

lemma nth_in_range: "in_range xs i \<Longrightarrow> xs ! nat i \<in> set xs"
  by (simp add: in_rangeD)

lemma nth_update_int:
  "in_range xs i \<Longrightarrow> in_range xs j \<Longrightarrow>
   xs[nat i := v] ! nat j = (if i = j then v else xs ! nat j)"
  by (auto simp: in_range_def nth_list_update)

section \<open>Loops\<close>

text \<open>\<open>for (auto x : xs) s = body(x, s)\<close>, where the body may fail.\<close>

fun rfold :: "('x \<Rightarrow> 's \<Rightarrow> 'e + 's) \<Rightarrow> 'x list \<Rightarrow> 's \<Rightarrow> 'e + 's" where
  "rfold f [] s = Inr s"
| "rfold f (x # xs) s = rbind (f x s) (rfold f xs)"

lemma rfold_eqI: "(\<And>x u. x \<in> set xs \<Longrightarrow> f x u = g x u) \<Longrightarrow> rfold f xs s = rfold g xs s"
proof (induction xs arbitrary: s)
  case Nil
  then show ?case by simp
next
  case (Cons x xs)
  then show ?case by (cases "g x s") simp_all
qed

lemma rfold_cong [fundef_cong]:
  "xs = ys \<Longrightarrow> s = t \<Longrightarrow> (\<And>x u. x \<in> set ys \<Longrightarrow> f x u = g x u) \<Longrightarrow> rfold f xs s = rfold g ys t"
  using rfold_eqI by metis

lemma rfold_append: "rfold f (xs @ ys) s = rbind (rfold f xs s) (rfold f ys)"
proof (induction xs arbitrary: s)
  case Nil
  then show ?case by simp
next
  case (Cons a xs)
  then show ?case by (cases "f a s") simp_all
qed

lemma rfold_inv:
  assumes "rfold f xs s = Inr t" and "P s"
    and "\<And>x u v. x \<in> set xs \<Longrightarrow> P u \<Longrightarrow> f x u = Inr v \<Longrightarrow> P v"
  shows "P t"
  using assms by (induction xs arbitrary: s) (auto simp: res_simps)

lemma rfold_total:
  assumes "P s" and "\<And>x u. x \<in> set xs \<Longrightarrow> P u \<Longrightarrow> \<exists>v. f x u = Inr v \<and> P v"
  shows "\<exists>t. rfold f xs s = Inr t \<and> P t"
  using assms
proof (induction xs arbitrary: s)
  case Nil
  then show ?case by simp
next
  case (Cons x xs)
  from Cons.prems obtain v where "f x s = Inr v" "P v" by auto
  with Cons show ?case by auto
qed

lemma rfold_pure: "rfold (\<lambda>x s. Inr (f x s)) xs s = Inr (fold f xs s)"
  by (induction xs arbitrary: s) simp_all

text \<open>
  \<open>for (auto x : xs) { ...; if (...) return true; ... } return false;\<close>: the body says whether
  the search is over, and gives the state either way.
\<close>

fun search :: "('x \<Rightarrow> 's \<Rightarrow> 'e + (bool \<times> 's)) \<Rightarrow> 'x list \<Rightarrow> 's \<Rightarrow> 'e + (bool \<times> 's)" where
  "search f [] s = Inr (False, s)"
| "search f (x # xs) s =
     rbind (f x s) (\<lambda>(b, s'). if b then Inr (True, s') else search f xs s')"

text \<open>
  The rule for backtracking searches: if every attempt started in a state with \<open>I\<close> either
  succeeds in a state with \<open>Q\<close> or fails in a state with \<open>I\<close>, so does the whole loop.
\<close>

lemma search_inv:
  assumes "search f xs s = Inr (b, t)" and "I s"
    and "\<And>x u c v. x \<in> set xs \<Longrightarrow> I u \<Longrightarrow> f x u = Inr (c, v) \<Longrightarrow> if c then Q v else I v"
  shows "if b then Q t else I t"
  using assms
proof (induction xs arbitrary: s)
  case Nil
  then show ?case by simp
next
  case (Cons x xs)
  from Cons.prems(1) obtain c v where v: "f x s = Inr (c, v)"
    and rest: "(if c then Inr (True, v) else search f xs v) = Inr (b, t)"
    by (auto simp: res_simps)
  have cv: "if c then Q v else I v"
    using Cons.prems(3) [OF _ Cons.prems(2) v] by simp
  show ?case
  proof (cases c)
    case True
    then show ?thesis using rest cv by auto
  next
    case False
    have "if b then Q t else I t"
    proof (rule Cons.IH)
      show "search f xs v = Inr (b, t)" using rest False by simp
      show "I v" using cv False by simp
      show "if c then Q w else I w" if "y \<in> set xs" "I u" "f y u = Inr (c, w)" for y u c w
        by (rule Cons.prems(3) [OF _ that(2,3)]) (simp add: that(1))
    qed
    then show ?thesis .
  qed
qed

lemma search_keeps:
  assumes "search f xs s = Inr (b, t)" and "I s"
    and "\<And>x u c v. I u \<Longrightarrow> f x u = Inr (c, v) \<Longrightarrow> I v"
  shows "I t"
proof -
  have "if b then I t else I t"
    by (rule search_inv [where I = I and Q = I, OF assms(1,2)]) (use assms(3) in simp)
  then show ?thesis by (cases b) simp_all
qed

lemma search_total:
  assumes "I s" and "\<And>x u. x \<in> set xs \<Longrightarrow> I u \<Longrightarrow> \<exists>c v. f x u = Inr (c, v) \<and> (\<not> c \<longrightarrow> I v)"
  shows "\<exists>b t. search f xs s = Inr (b, t)"
  using assms
proof (induction xs arbitrary: s)
  case Nil
  have "search f [] s = Inr (False, s)" by simp
  then show ?case by blast
next
  case (Cons x xs)
  have "\<exists>c v. f x s = Inr (c, v) \<and> (\<not> c \<longrightarrow> I v)"
    by (rule Cons.prems(2) [OF _ Cons.prems(1)]) simp
  then obtain c v where fx: "f x s = Inr (c, v)" "\<not> c \<longrightarrow> I v" by blast
  show ?case
  proof (cases c)
    case True
    with fx have "search f (x # xs) s = Inr (True, v)" by simp
    then show ?thesis by blast
  next
    case False
    with fx have "\<exists>b t. search f xs v = Inr (b, t)" using Cons by simp
    with fx False show ?thesis by simp
  qed
qed

text \<open>
  The rule for searches that undo a failed attempt: if every attempt from a state with \<open>I\<close> says
  exactly whether \<open>P\<close> holds of its element, the loop says whether some element has \<open>P\<close>.
\<close>

lemma search_exists:
  assumes "I s"
    and "\<And>x u. x \<in> set xs \<Longrightarrow> I u \<Longrightarrow> \<exists>b v. f x u = Inr (b, v) \<and> b = P x \<and> (if b then Q v else I v)"
  shows "\<exists>b v. search f xs s = Inr (b, v) \<and> b = (\<exists>x \<in> set xs. P x) \<and> (if b then Q v else I v)"
  using assms
proof (induction xs arbitrary: s)
  case Nil
  then show ?case by auto
next
  case (Cons x xs)
  have "\<exists>b v. f x s = Inr (b, v) \<and> b = P x \<and> (if b then Q v else I v)"
    by (rule Cons.prems(2) [OF _ Cons.prems(1)]) simp
  then obtain b v where fx: "f x s = Inr (b, v)" "b = P x" "if b then Q v else I v" by blast
  show ?case
  proof (cases b)
    case True
    then show ?thesis using fx by auto
  next
    case False
    then have "\<exists>b t. search f xs v = Inr (b, t) \<and> b = (\<exists>x \<in> set xs. P x) \<and> (if b then Q t else I t)"
      using Cons fx by simp
    then show ?thesis using fx False by simp
  qed
qed

text \<open>
  What the steps of a loop keep: a preorder between the states before and after, seen through \<open>view\<close>. If every step
  keeps it, the loop does.
\<close>

locale kept =
  fixes R :: "'v \<Rightarrow> 'v \<Rightarrow> bool"
  assumes kept_refl: "R v v" and kept_trans: "R u v \<Longrightarrow> R v w \<Longrightarrow> R u w"
begin

lemma rfold_kept:
  assumes "rfold f xs s = Inr t" and "\<And>x u v. x \<in> set xs \<Longrightarrow> f x u = Inr v \<Longrightarrow> R (view u) (view v)"
  shows "R (view s) (view t)"
  by (rule rfold_inv [where P = "\<lambda>t. R (view s) (view t)", OF assms(1) kept_refl]) (blast intro: kept_trans assms(2))

lemma search_kept:
  assumes "search f xs s = Inr (b, t)" and "\<And>x u c v. f x u = Inr (c, v) \<Longrightarrow> R (view u) (view v)"
  shows "R (view s) (view t)"
  by (rule search_keeps [where I = "\<lambda>t. R (view s) (view t)", OF assms(1) kept_refl]) (blast intro: kept_trans assms(2))

end

section \<open>Sorting and ordered sets\<close>

text \<open>
  \<open>std::sort\<close> and \<open>std::stable_sort\<close> with a comparator \<open>lt\<close>: an element is inserted behind the
  last element that is not greater. The order of elements that \<open>lt\<close> does not separate is the
  original one; \<open>std::sort\<close> leaves it open.
\<close>

fun ins_by :: "('a \<Rightarrow> 'a \<Rightarrow> bool) \<Rightarrow> 'a \<Rightarrow> 'a list \<Rightarrow> 'a list" where
  "ins_by lt x [] = [x]"
| "ins_by lt x (y # ys) = (if lt x y then x # y # ys else y # ins_by lt x ys)"

definition std_sort :: "('a \<Rightarrow> 'a \<Rightarrow> bool) \<Rightarrow> 'a list \<Rightarrow> 'a list" where
  "std_sort lt xs = fold (ins_by lt) xs []"

lemma mset_ins_by [simp]: "mset (ins_by lt x xs) = add_mset x (mset xs)"
  by (induction xs) auto

lemma mset_fold_ins: "mset (fold (ins_by lt) xs acc) = mset xs + mset acc"
  by (induction xs arbitrary: acc) auto

lemma mset_std_sort [simp]: "mset (std_sort lt xs) = mset xs"
  by (simp add: std_sort_def mset_fold_ins)

lemma set_std_sort [simp]: "set (std_sort lt xs) = set xs"
  by (metis mset_std_sort set_mset_mset)

lemma length_std_sort [simp]: "length (std_sort lt xs) = length xs"
  by (metis mset_std_sort size_mset)

lemma distinct_std_sort [simp]: "distinct (std_sort lt xs) = distinct xs"
  by (metis mset_std_sort mset_eq_imp_distinct_iff)

lemma sorted_ins_by_key:
  fixes k :: "'a \<Rightarrow> 'b::linorder"
  shows "sorted (map k xs) \<Longrightarrow> sorted (map k (ins_by (\<lambda>a b. k a < k b) x xs))"
proof (induction xs)
  case Nil
  then show ?case by simp
next
  case (Cons y ys)
  have "set (ins_by (\<lambda>a b. k a < k b) x ys) = insert x (set ys)"
    by (metis mset_ins_by set_mset_add_mset_insert set_mset_mset)
  with Cons show ?case by auto
qed

lemma sorted_std_sort_key:
  fixes k :: "'a \<Rightarrow> 'b::linorder"
  shows "sorted (map k (std_sort (\<lambda>a b. k a < k b) xs))"
proof -
  have "sorted (map k acc) \<Longrightarrow> sorted (map k (fold (ins_by (\<lambda>a b. k a < k b)) xs acc))" for acc
    by (induction xs arbitrary: acc) (auto intro: sorted_ins_by_key)
  from this [of "[]"] show ?thesis by (simp add: std_sort_def)
qed

text \<open>\<open>Unique\<close> of \<open>Netlist.h\<close> copies a vector through a \<open>std::set\<close> and back.\<close>

definition Unique :: "'a::linorder list \<Rightarrow> 'a list" where
  "Unique v = sort (remdups v)"

lemma set_Unique [simp]: "set (Unique v) = set v"
  by (simp add: Unique_def)

lemma distinct_Unique [simp]: "distinct (Unique v)"
  by (simp add: Unique_def)

lemma sorted_Unique [simp]: "sorted (Unique v)"
  by (simp add: Unique_def)

section \<open>Machine integers\<close>

text \<open>
  An \<open>int\<close> of C++ is an \<open>int\<close> of the model; where a value is converted to another width the
  conversion is written out: \<open>to_size_t\<close> to 64 bits unsigned, \<open>to_int32\<close> to 32 bits signed.
\<close>

definition to_size_t :: "int \<Rightarrow> int" where
  "to_size_t x = x mod 2 ^ 64"

definition to_int32 :: "int \<Rightarrow> int" where
  "to_int32 x = (x + 2 ^ 31) mod 2 ^ 32 - 2 ^ 31"

text \<open>A sum of two \<open>int\<close>s: outside 32 bits it is undefined.\<close>

definition add_int :: "int \<Rightarrow> int \<Rightarrow> int res" where
  "add_int a b = (if - (2 ^ 31) \<le> a + b \<and> a + b < 2 ^ 31 then Inr (a + b) else Inl Int_Overflow)"

lemma add_int_eq_Inr [res_simps]: "add_int a b = Inr c \<longleftrightarrow> c = a + b \<and> - (2 ^ 31) \<le> a + b \<and> a + b < 2 ^ 31"
  by (auto simp: add_int_def)

lemma add_int_nonneg: "0 \<le> a + b \<Longrightarrow> add_int a b = (if a + b < 2 ^ 31 then Inr (a + b) else Inl Int_Overflow)"
  by (simp add: add_int_def)

lemma to_int32_id: "- (2 ^ 31) \<le> x \<Longrightarrow> x < 2 ^ 31 \<Longrightarrow> to_int32 x = x"
  by (simp add: to_int32_def)

lemma to_size_t_id: "0 \<le> x \<Longrightarrow> x < 2 ^ 64 \<Longrightarrow> to_size_t x = x"
  by (simp add: to_size_t_def)

end
