(* ===== verification/Net_Types.thy ===== *)
theory Net_Types
  imports Cpp_Prelude "HOL-Library.Word"
begin

text \<open>
  The data of \<open>Netlist.h\<close>: the enumerations, the record \<open>node\<close> of class \<open>Node\<close>, the records of
  \<open>Operation::Term\<close>, \<open>Operation\<close> and \<open>Module\<close>, and the heap the \<open>Node*\<close> pointers point into.
\<close>

section \<open>Enumerations\<close>

text \<open>
  The enumerators keep their names; \<open>CONSTANT\<close> is the source's \<open>CONST\<close>, a reserved word of
  Isabelle's term syntax.
\<close>

datatype signal = ZERO | ONE | DONTCARE

datatype relation = EQ | GE | LE | GT | LT | NE | AE

datatype gtype = NONE | AND | OR | NAND | NOR | INV | BUF | XOR | FACARRY | WIRE
  | CONSTANT | INPUT | OUTPUT | ZEROBUF | ONEBUF

definition gtypes :: "gtype list" where
  "gtypes = [NONE, AND, OR, NAND, NOR, INV, BUF, XOR, FACARRY, WIRE,
             CONSTANT, INPUT, OUTPUT, ZEROBUF, ONEBUF]"

fun TypeID :: "gtype \<Rightarrow> string" where
  "TypeID NONE = ''NONE''" | "TypeID AND = ''AND''" | "TypeID OR = ''OR''"
| "TypeID NAND = ''NAND''" | "TypeID NOR = ''NOR''" | "TypeID INV = ''INV''"
| "TypeID BUF = ''BUF''" | "TypeID XOR = ''XOR''" | "TypeID FACARRY = ''FACARRY''"
| "TypeID WIRE = ''wire''" | "TypeID CONSTANT = ''const''" | "TypeID INPUT = ''input''"
| "TypeID OUTPUT = ''output''" | "TypeID ZEROBUF = ''ZEROBUF''" | "TypeID ONEBUF = ''ONEBUF''"

text \<open>
  \<open>TypeNum\<close> is a \<open>std::map\<close> filled by \<open>main\<close> with one entry per type; \<open>operator[]\<close> on a missing
  key gives the zero of the enumeration, \<open>NONE\<close>.
\<close>

definition TypeNum :: "string \<Rightarrow> gtype" where
  "TypeNum s = (case map_of (map (\<lambda>t. (TypeID t, t)) gtypes) s of None \<Rightarrow> NONE | Some t \<Rightarrow> t)"

lemma TypeNum_TypeID [simp]: "TypeNum (TypeID t) = t"
  by (cases t) (simp_all add: TypeNum_def gtypes_def)

text \<open>The value of an enumerator, and the order of the enumeration.\<close>

fun type_code :: "gtype \<Rightarrow> nat" where
  "type_code NONE = 0" | "type_code AND = 1" | "type_code OR = 2" | "type_code NAND = 3"
| "type_code NOR = 4" | "type_code INV = 5" | "type_code BUF = 6" | "type_code XOR = 7"
| "type_code FACARRY = 8" | "type_code WIRE = 9" | "type_code CONSTANT = 10"
| "type_code INPUT = 11" | "type_code OUTPUT = 12" | "type_code ZEROBUF = 13"
| "type_code ONEBUF = 14"

lemma type_code_inj [simp]: "type_code s = type_code t \<longleftrightarrow> s = t"
  by (cases s; cases t) simp_all

instantiation gtype :: linorder
begin

definition less_eq_gtype :: "gtype \<Rightarrow> gtype \<Rightarrow> bool" where
  "less_eq_gtype s t \<longleftrightarrow> type_code s \<le> type_code t"

definition less_gtype :: "gtype \<Rightarrow> gtype \<Rightarrow> bool" where
  "less_gtype s t \<longleftrightarrow> type_code s < type_code t"

instance
  by standard (auto simp: less_eq_gtype_def less_gtype_def)

end

text \<open>A \<open>Signal\<close> as the integer it converts to, and the cast \<open>(Signal)\<close> back.\<close>

fun sig_val :: "signal \<Rightarrow> nat" where
  "sig_val ZERO = 0" | "sig_val ONE = 1" | "sig_val DONTCARE = 2"

definition to_sig :: "nat \<Rightarrow> signal" where
  "to_sig n = (if n = 0 then ZERO else if n = 1 then ONE else DONTCARE)"

definition bool_sig :: "bool \<Rightarrow> signal" where
  "bool_sig b = (if b then ONE else ZERO)"

lemma to_sig_val [simp]: "to_sig (sig_val s) = s"
  by (cases s) (simp_all add: to_sig_def)

lemma bool_sig_eq [simp]:
  "bool_sig b = ONE \<longleftrightarrow> b" "bool_sig b = ZERO \<longleftrightarrow> \<not> b" "bool_sig b \<noteq> DONTCARE"
  "bool_sig b = bool_sig c \<longleftrightarrow> b = c"
  by (auto simp: bool_sig_def)

section \<open>Nodes and the heap\<close>

type_synonym addr = nat

record node =
  n_name :: string
  n_type :: gtype
  n_fi :: "addr list"
  n_fo :: "addr list"
  n_pi :: "addr list"
  n_bus :: "addr list"
  n_pi_idx :: "int list"
  n_bus_indices :: "int list"
  n_signature :: "int list"
  n_same_input_bit :: "addr list"
  n_link_left :: "addr option"
  n_link_right :: "addr option"
  n_head :: addr
  n_idx :: int
  n_bit_idx :: int
  n_bus_idx :: int
  n_bit_len :: int
  n_inv :: nat
  n_group_cnt :: int
  n_priority :: int
  n_signal :: signal
  n_isFlip :: bool
  n_supportVal :: int

text \<open>
  The constructor \<open>Node(s, t)\<close> of a node that will live at address \<open>a\<close> (\<open>_head = this\<close>).
  \<open>_supportVal\<close> is left uninitialised by the source until \<open>assignFuncSupp\<close>; the model gives it 0.
\<close>

definition mk_node :: "addr \<Rightarrow> string \<Rightarrow> gtype \<Rightarrow> node" where
  "mk_node a s t =
     \<lparr>n_name = s, n_type = t, n_fi = [], n_fo = [], n_pi = [], n_bus = [], n_pi_idx = [],
      n_bus_indices = [], n_signature = [], n_same_input_bit = [], n_link_left = None,
      n_link_right = None, n_head = a, n_idx = 0, n_bit_idx = -1, n_bus_idx = -1,
      n_bit_len = 0, n_inv = 0, n_group_cnt = 0, n_priority = 0, n_signal = DONTCARE,
      n_isFlip = False, n_supportVal = 0\<rparr>"

text \<open>
  The heap gives the node at every address; \<open>next_addr\<close> is the first address that \<open>new\<close> has
  not handed out. A pointer that may be null is an \<open>addr option\<close>.
\<close>

record store =
  heap :: "addr \<Rightarrow> node"
  next_addr :: addr

definition upd :: "addr \<Rightarrow> (node \<Rightarrow> node) \<Rightarrow> (addr \<Rightarrow> node) \<Rightarrow> (addr \<Rightarrow> node)" where
  "upd a f h = h(a := f (h a))"

lemma upd_same [simp]: "upd a f h a = f (h a)"
  by (simp add: upd_def)

lemma upd_other [simp]: "b \<noteq> a \<Longrightarrow> upd a f h b = h b"
  by (simp add: upd_def)

lemma upd_apply: "upd a f h b = (if b = a then f (h b) else h b)"
  by (simp add: upd_def)

definition new_node :: "string \<Rightarrow> gtype \<Rightarrow> store \<Rightarrow> addr \<times> store" where
  "new_node s t st =
     (next_addr st,
      st\<lparr>heap := (heap st)(next_addr st := mk_node (next_addr st) s t),
         next_addr := Suc (next_addr st)\<rparr>)"

section \<open>Operations and modules\<close>

record trm =
  t_member :: "int list"
  t_coeff :: int

record operation =
  o_input :: "trm list"
  o_output :: "addr list"
  o_real_input :: "trm list"
  o_const :: int
  o_relation :: relation

record module =
  m_moduleIndex :: int
  m_cur_bit_place :: int
  m_name :: string
  m_netlist :: "addr list"
  m_gate :: "gtype \<Rightarrow> addr list"
  m_ctrl_signal :: "addr list"
  m_bus_set :: "addr list list"
  m_name_to_node :: "string \<Rightarrow> addr option"
  m_set_to_group_idx :: "int list \<Rightarrow> int option"
  m_bus_signature :: "int list"
  m_allEquation :: "operation list"
  m_group :: "operation list"
  m_gate_path :: "int list list"
  m_path_cnt :: "int \<Rightarrow> int"
  m_first_pi :: "(string \<times> int) list list"
  m_input_sig :: "int list"

text \<open>\<open>std::bitset<8192>\<close>: one simulated value of a node under 8192 input patterns.\<close>

type_synonym bitset = "8192 word"

end
