(* ===== verification/Net_Sim.thy ===== *)
theory Net_Sim
  imports Net_Types
begin

text \<open>
  Simulation of a netlist. \<open>OutputValueBody\<close> and \<open>OutputValue\<close> evaluate one input pattern through
  the \<open>_signal\<close> fields; \<open>getResult\<close> and \<open>miterGetResult\<close> evaluate 8192 patterns at once on
  bitsets, with the memo \<open>recordMap\<close>. The relation \<open>evals\<close> is what both must compute: the Boolean
  function of a gate over the values of its fan-in, the first \<open>_inv\<close> of them inverted.
\<close>

section \<open>What a gate computes\<close>

fun arity :: "gtype \<Rightarrow> nat" where
  "arity OUTPUT = 1" | "arity BUF = 1" | "arity INV = 1"
| "arity AND = 2" | "arity OR = 2" | "arity XOR = 2" | "arity NAND = 2" | "arity NOR = 2"
| "arity FACARRY = 3"
| "arity t = 0"

definition inv_first :: "nat \<Rightarrow> bool list \<Rightarrow> bool list" where
  "inv_first k bs = map Not (take k bs) @ drop k bs"

fun gate_sem :: "gtype \<Rightarrow> bool list \<Rightarrow> bool option" where
  "gate_sem OUTPUT (a # bs) = Some a"
| "gate_sem BUF (a # bs) = Some a"
| "gate_sem INV (a # bs) = Some (\<not> a)"
| "gate_sem AND (a # b # bs) = Some (a \<and> b)"
| "gate_sem OR (a # b # bs) = Some (a \<or> b)"
| "gate_sem XOR (a # b # bs) = Some (a \<noteq> b)"
| "gate_sem NAND (a # b # bs) = Some (\<not> (a \<and> b))"
| "gate_sem NOR (a # b # bs) = Some (\<not> (a \<or> b))"
| "gate_sem FACARRY (a # b # c # bs) = Some (a \<and> b \<or> b \<and> c \<or> a \<and> c)"
| "gate_sem ZEROBUF bs = Some False"
| "gate_sem ONEBUF bs = Some True"
| "gate_sem t bs = None"

lemma inv_first_Nil [simp]: "inv_first k [] = []"
  by (simp add: inv_first_def)

lemma inv_first_0 [simp]: "inv_first 0 bs = bs"
  by (simp add: inv_first_def)

lemma inv_first_Cons [simp]:
  "inv_first k (b # bs) = (if 0 < k then (\<not> b) # inv_first (k - 1) bs else b # bs)"
  by (cases k) (auto simp: inv_first_def)

lemma length_inv_first [simp]: "length (inv_first k bs) = length bs"
  by (simp add: inv_first_def)

lemma take_inv_first: "take n (inv_first k bs) = inv_first k (take n bs)"
  by (induction bs arbitrary: n k) (auto simp: take_Cons split: nat.splits)

lemma gate_sem_take: "gate_sem t (take (arity t) bs) = gate_sem t bs"
  by (cases "(t, bs)" rule: gate_sem.cases) (auto simp: take_Cons split: nat.splits)

text \<open>
  Big-step evaluation of node \<open>a\<close> of heap \<open>h\<close> when the primary inputs carry \<open>\<sigma>\<close>.
\<close>

inductive evals :: "(addr \<Rightarrow> node) \<Rightarrow> (addr \<Rightarrow> bool) \<Rightarrow> addr \<Rightarrow> bool \<Rightarrow> bool"
  for h :: "addr \<Rightarrow> node" and \<sigma> :: "addr \<Rightarrow> bool" where
  ev_input: "n_type (h a) = INPUT \<Longrightarrow> evals h \<sigma> a (\<sigma> a)"
| ev_gate: "n_type (h a) \<noteq> INPUT \<Longrightarrow> list_all2 (evals h \<sigma>) (n_fi (h a)) bs \<Longrightarrow>
     gate_sem (n_type (h a)) (inv_first (n_inv (h a)) bs) = Some b \<Longrightarrow> evals h \<sigma> a b"

inductive_cases evals_cases: "evals h \<sigma> a b"

lemma evals_input_iff: "n_type (h a) = INPUT \<Longrightarrow> evals h \<sigma> a b \<longleftrightarrow> b = \<sigma> a"
  by (auto intro: ev_input elim: evals_cases)

lemma list_all2_det:
  "list_all2 (\<lambda>x y. P x y \<and> (\<forall>z. P x z \<longrightarrow> y = z)) xs ys \<Longrightarrow> list_all2 P xs zs \<Longrightarrow> ys = zs"
proof (induction xs ys arbitrary: zs rule: list_all2_induct)
  case Nil
  then show ?case by simp
next
  case (Cons x xs y ys)
  then show ?case by (cases zs) auto
qed

lemma evals_det: "evals h \<sigma> a b \<Longrightarrow> evals h \<sigma> a c \<Longrightarrow> b = c"
proof (induction arbitrary: c rule: evals.induct)
  case (ev_input a)
  then show ?case by (simp add: evals_input_iff)
next
  case (ev_gate a bs b)
  from ev_gate.prems obtain cs where cs: "list_all2 (evals h \<sigma>) (n_fi (h a)) cs"
    "gate_sem (n_type (h a)) (inv_first (n_inv (h a)) cs) = Some c"
    using ev_gate.hyps(1) by (auto elim: evals_cases)
  have "bs = cs"
    by (rule list_all2_det [OF ev_gate.IH cs(1)])
  then show ?case using cs(2) ev_gate.hyps(2) by simp
qed

section \<open>Well-formed netlists\<close>

text \<open>
  The nodes \<open>A\<close> of a module: every gate has the fan-in its type needs, the fan-in stays in \<open>A\<close>,
  there is no combinational loop (\<open>r\<close> is a rank that falls along the fan-in), and the types are
  the ones the simulators know.
\<close>

definition sim_types :: "gtype set" where
  "sim_types = {OUTPUT, BUF, INV, AND, OR, XOR, NAND, NOR, FACARRY, ZEROBUF, ONEBUF}"

definition gate_wf :: "(addr \<Rightarrow> node) \<Rightarrow> addr set \<Rightarrow> (addr \<Rightarrow> nat) \<Rightarrow> addr \<Rightarrow> bool" where
  "gate_wf h A r a \<longleftrightarrow>
     n_type (h a) \<in> sim_types \<and> arity (n_type (h a)) \<le> length (n_fi (h a)) \<and>
     (\<forall>b \<in> set (n_fi (h a)). b \<in> A \<and> r b < r a)"

definition net_wf :: "(addr \<Rightarrow> node) \<Rightarrow> addr set \<Rightarrow> (addr \<Rightarrow> nat) \<Rightarrow> bool" where
  "net_wf h A r \<longleftrightarrow>
     (\<forall>a \<in> A. n_type (h a) = INPUT \<and> n_fi (h a) = [] \<or> gate_wf h A r a)"

lemma gate_sem_total:
  "t \<in> sim_types \<Longrightarrow> arity t \<le> length bs \<Longrightarrow> \<exists>b. gate_sem t bs = Some b"
  by (cases "(t, bs)" rule: gate_sem.cases) (auto simp: sim_types_def)

lemma evals_total:
  assumes "net_wf h A r" and "a \<in> A"
  shows "\<exists>b. evals h \<sigma> a b"
  using assms(2)
proof (induction "r a" arbitrary: a rule: less_induct)
  case less
  show ?case
  proof (cases "n_type (h a) = INPUT")
    case True
    then show ?thesis by (auto intro: ev_input)
  next
    case False
    with less.prems assms(1) have wf: "gate_wf h A r a" by (auto simp: net_wf_def)
    have "\<forall>x \<in> set (n_fi (h a)). \<exists>b. evals h \<sigma> x b"
      using wf less.hyps by (auto simp: gate_wf_def)
    then obtain v where v: "\<forall>x \<in> set (n_fi (h a)). evals h \<sigma> x (v x)" by metis
    then have la: "list_all2 (evals h \<sigma>) (n_fi (h a)) (map v (n_fi (h a)))"
      by (simp add: list_all2_conv_all_nth)
    obtain b where "gate_sem (n_type (h a)) (inv_first (n_inv (h a)) (map v (n_fi (h a)))) = Some b"
      using wf gate_sem_total by (metis gate_wf_def length_inv_first length_map)
    with False la show ?thesis by (auto intro: ev_gate)
  qed
qed

section \<open>One pattern at a time: \<open>OutputValueBody\<close> and \<open>OutputValue\<close>\<close>

definition sig_not :: "signal \<Rightarrow> signal" where
  "sig_not s = to_sig (if sig_val s = 0 then 1 else 0)"

text \<open>The loop that copies the input signals, inverting the first \<open>_inv\<close> of them.\<close>

fun copy_fi :: "(addr \<Rightarrow> node) \<Rightarrow> nat \<Rightarrow> addr list \<Rightarrow> signal list res" where
  "copy_fi h k [] = Inr []"
| "copy_fi h k (x # xs) =
     (if n_signal (h x) = DONTCARE then Inl (Exit ''Found a non signal input.'')
      else rbind (copy_fi h (k - 1) xs)
             (\<lambda>fi. Inr ((if 0 < k then sig_not (n_signal (h x)) else n_signal (h x)) # fi)))"

definition sig1 :: "(nat \<Rightarrow> nat) \<Rightarrow> signal list \<Rightarrow> signal res" where
  "sig1 f fi = rbind (vget fi 0) (\<lambda>a. Inr (to_sig (f (sig_val a))))"

definition sig2 :: "(nat \<Rightarrow> nat \<Rightarrow> nat) \<Rightarrow> signal list \<Rightarrow> signal res" where
  "sig2 f fi = rbind (vget fi 0) (\<lambda>a. rbind (vget fi 1) (\<lambda>b. Inr (to_sig (f (sig_val a) (sig_val b)))))"

definition OutputValueBody :: "(addr \<Rightarrow> node) \<Rightarrow> addr \<Rightarrow> signal res" where
  "OutputValueBody h gate =
     rbind (copy_fi h (n_inv (h gate)) (n_fi (h gate))) (\<lambda>fi.
     case n_type (h gate) of
       INPUT \<Rightarrow> Inr (n_signal (h gate))
     | OUTPUT \<Rightarrow> vget fi 0
     | BUF \<Rightarrow> vget fi 0
     | INV \<Rightarrow> sig1 (\<lambda>a. of_bool (a = 0)) fi
     | AND \<Rightarrow> sig2 (\<lambda>a b. and a b) fi
     | OR \<Rightarrow> sig2 (\<lambda>a b. or a b) fi
     | XOR \<Rightarrow> sig2 (\<lambda>a b. of_bool (a \<noteq> b)) fi
     | FACARRY \<Rightarrow> rbind (vget fi 0) (\<lambda>a. rbind (vget fi 1) (\<lambda>b. rbind (vget fi 2) (\<lambda>c.
         Inr (to_sig ((sig_val a + sig_val b + sig_val c) div 2)))))
     | NAND \<Rightarrow> sig2 (\<lambda>a b. of_bool (and a b = 0)) fi
     | NOR \<Rightarrow> sig2 (\<lambda>a b. of_bool (or a b = 0)) fi
     | ZEROBUF \<Rightarrow> Inr ZERO
     | ONEBUF \<Rightarrow> Inr ONE
     | _ \<Rightarrow> Inl (Exit ''Undefined gate!''))"

definition set_signal :: "signal \<Rightarrow> node \<Rightarrow> node" where
  "set_signal s n = n\<lparr>n_signal := s\<rparr>"

fun OutputValue :: "nat \<Rightarrow> addr \<Rightarrow> (addr \<Rightarrow> node) \<Rightarrow> (addr \<Rightarrow> node) res" where
  "OutputValue 0 now h = Inl Stack_Overflow"
| "OutputValue (Suc n) now h =
     rbind (rfold (\<lambda>fi h. if n_signal (h fi) = DONTCARE then OutputValue n fi h else Inr h)
              (n_fi (h now)) h)
       (\<lambda>h. rbind (OutputValueBody h now) (\<lambda>s. Inr (upd now (set_signal s) h)))"

text \<open>\<open>InitInput\<close>, \<open>getSignal\<close>, \<open>AssignBus\<close>, \<open>AssignFlipValue\<close>: the clients of the scalar simulator.\<close>

definition InitInput :: "module \<Rightarrow> (addr \<Rightarrow> node) \<Rightarrow> (addr \<Rightarrow> node)" where
  "InitInput m h = fold (\<lambda>np. upd np (set_signal DONTCARE)) (m_netlist m) h"

definition getSignal :: "nat \<Rightarrow> module \<Rightarrow> string \<Rightarrow> (addr \<Rightarrow> node) \<Rightarrow> (signal \<times> (addr \<Rightarrow> node)) res" where
  "getSignal n m s h =
     (case m_name_to_node m s of
        None \<Rightarrow> Inl Null_Deref
      | Some a \<Rightarrow> rbind (OutputValue n a h) (\<lambda>h. Inr (n_signal (h a), h)))"

definition AssignBus :: "module \<Rightarrow> signal list \<Rightarrow> int \<Rightarrow> (addr \<Rightarrow> node) \<Rightarrow> (addr \<Rightarrow> node) res" where
  "AssignBus m sim_value bus_idx h =
     rbind (vget (m_bus_set m) bus_idx) (\<lambda>bus.
     if length bus \<noteq> length sim_value then Inl (Exit ''Invalid number of input signals.'')
     else Inr (fold (\<lambda>(a, s). upd a (set_signal s)) (zip bus sim_value) h))"

definition AssignFlipValue :: "addr \<Rightarrow> signal \<Rightarrow> (addr \<Rightarrow> node) \<Rightarrow> signal \<times> (addr \<Rightarrow> node)" where
  "AssignFlipValue tar s h =
     (let s' = (if n_isFlip (h tar) then to_sig (of_bool (s = ZERO)) else s)
      in (s', upd tar (set_signal s') h))"

text \<open>
  \<open>InitializeValue\<close>: reset, all inputs to zero, then the variables of \<open>var\<close> with the bits of
  \<open>vec\<close>, from the head of each chain of linked bits to its end. The chain is walked with fuel.
\<close>

fun assign_chain :: "nat \<Rightarrow> addr option \<Rightarrow> nat \<Rightarrow> int \<Rightarrow> (addr \<Rightarrow> node) \<Rightarrow> (addr \<Rightarrow> node) res" where
  "assign_chain n None off v h = Inr h"
| "assign_chain 0 (Some a) off v h = Inl Stack_Overflow"
| "assign_chain (Suc n) (Some a) off v h =
     assign_chain n (n_link_right (h a)) (Suc off) v
       (upd a (set_signal (if and (drop_bit off v) 1 \<noteq> 0 then ONE else ZERO)) h)"

definition InitializeValue ::
  "nat \<Rightarrow> module \<Rightarrow> addr list \<Rightarrow> (addr \<Rightarrow> int) \<Rightarrow> (addr \<Rightarrow> node) \<Rightarrow> (addr \<Rightarrow> node) res" where
  "InitializeValue n m var vec h =
     (let h1 = InitInput m h;
          h2 = fold (\<lambda>i. upd i (set_signal ZERO)) (m_gate m INPUT) h1
      in rfold (\<lambda>x h. assign_chain n (Some x) 0 (vec x) h) var h2)"

subsection \<open>Correctness of the scalar simulator\<close>

text \<open>
  A heap that differs from \<open>h0\<close> in signals only, where every signal that is set on the nodes
  \<open>A\<close> is the right one.
\<close>

definition same_but_signal :: "(addr \<Rightarrow> node) \<Rightarrow> (addr \<Rightarrow> node) \<Rightarrow> bool" where
  "same_but_signal h0 h \<longleftrightarrow> (\<forall>a. set_signal DONTCARE (h a) = set_signal DONTCARE (h0 a))"

definition signals_ok :: "(addr \<Rightarrow> node) \<Rightarrow> (addr \<Rightarrow> bool) \<Rightarrow> addr set \<Rightarrow> (addr \<Rightarrow> node) \<Rightarrow> bool" where
  "signals_ok h0 \<sigma> A h \<longleftrightarrow> same_but_signal h0 h \<and>
     (\<forall>a \<in> A. n_signal (h a) \<noteq> DONTCARE \<longrightarrow> (\<exists>b. evals h0 \<sigma> a b \<and> n_signal (h a) = bool_sig b)) \<and>
     (\<forall>a \<in> A. n_type (h0 a) = INPUT \<longrightarrow> n_signal (h a) \<noteq> DONTCARE)"

lemma same_but_signalD:
  assumes "same_but_signal h0 h"
  shows "n_type (h a) = n_type (h0 a)" "n_fi (h a) = n_fi (h0 a)" "n_inv (h a) = n_inv (h0 a)"
    "n_idx (h a) = n_idx (h0 a)"
proof -
  have "set_signal DONTCARE (h a) = set_signal DONTCARE (h0 a)"
    using assms by (simp add: same_but_signal_def)
  then show "n_type (h a) = n_type (h0 a)" "n_fi (h a) = n_fi (h0 a)" "n_inv (h a) = n_inv (h0 a)"
    "n_idx (h a) = n_idx (h0 a)"
    by (cases "h a"; cases "h0 a"; simp add: set_signal_def)+
qed

lemma set_signal_sel [simp]: "n_signal (set_signal s n) = s"
  by (simp add: set_signal_def)

lemma set_signal_twice [simp]: "set_signal s (set_signal t n) = set_signal s n"
  by (simp add: set_signal_def)

lemma same_but_signal_upd [simp]:
  "same_but_signal h0 (upd a (set_signal s) h) = same_but_signal h0 h"
  by (auto simp: same_but_signal_def upd_apply)

lemma copy_fi_bools:
  assumes "list_all2 (\<lambda>x b. n_signal (h x) = bool_sig b) xs bs"
  shows "copy_fi h k xs = Inr (map bool_sig (inv_first k bs))"
  using assms
proof (induction xs bs arbitrary: k rule: list_all2_induct)
  case Nil
  then show ?case by simp
next
  case (Cons x xs b bs)
  then show ?case by (auto simp: sig_not_def bool_sig_def to_sig_def)
qed

lemma gate_sem_len: "gate_sem t bs = Some b \<Longrightarrow> arity t \<le> length bs"
  by (cases "(t, bs)" rule: gate_sem.cases) auto

lemma OutputValueBody_bools:
  assumes "list_all2 (\<lambda>x b. n_signal (h x) = bool_sig b) (n_fi (h a)) bs"
    and "gate_sem (n_type (h a)) (inv_first (n_inv (h a)) bs) = Some b"
  shows "OutputValueBody h a = Inr (bool_sig b)"
proof -
  have "(case n_type (h a) of INPUT \<Rightarrow> False | _ \<Rightarrow> True)"
    using assms(2) by (cases "n_type (h a)") auto
  then show ?thesis
    using assms(2) unfolding OutputValueBody_def copy_fi_bools [OF assms(1)]
    by (cases "(n_type (h a), inv_first (n_inv (h a)) bs)" rule: gate_sem.cases)
       (auto simp: sig1_def sig2_def vget_def in_range_def bool_sig_def to_sig_def)
qed

lemma signals_ok_fi:
  assumes ok: "signals_ok h0 \<sigma> A h" and sub: "set xs \<subseteq> A"
    and set: "\<forall>x \<in> set xs. n_signal (h x) \<noteq> DONTCARE"
  obtains bs where "list_all2 (evals h0 \<sigma>) xs bs"
    "list_all2 (\<lambda>x b. n_signal (h x) = bool_sig b) xs bs"
proof -
  have "\<forall>x \<in> set xs. \<exists>b. evals h0 \<sigma> x b \<and> n_signal (h x) = bool_sig b"
    using assms by (auto simp: signals_ok_def)
  then obtain v where v: "\<forall>x \<in> set xs. evals h0 \<sigma> x (v x) \<and> n_signal (h x) = bool_sig (v x)"
    by metis
  then have "list_all2 (evals h0 \<sigma>) xs (map v xs)"
    "list_all2 (\<lambda>x b. n_signal (h x) = bool_sig b) xs (map v xs)"
    by (simp_all add: list_all2_conv_all_nth)
  then show ?thesis by (rule that)
qed

lemma OutputValueBody_correct:
  assumes ok: "signals_ok h0 \<sigma> A h" and wf: "net_wf h0 A r" and a: "a \<in> A"
    and set: "\<forall>x \<in> set (n_fi (h0 a)). n_signal (h x) \<noteq> DONTCARE"
  shows "\<exists>b. evals h0 \<sigma> a b \<and> OutputValueBody h a = Inr (bool_sig b)"
proof -
  have same: "same_but_signal h0 h" using ok by (simp add: signals_ok_def)
  note eqs = same_but_signalD [OF same]
  show ?thesis
  proof (cases "n_type (h0 a) = INPUT")
    case True
    then have "n_fi (h0 a) = []" using wf a by (auto simp: net_wf_def gate_wf_def sim_types_def)
    moreover obtain b where "evals h0 \<sigma> a b" "n_signal (h a) = bool_sig b"
      using ok a True by (auto simp: signals_ok_def)
    ultimately show ?thesis using True by (auto simp: OutputValueBody_def eqs)
  next
    case False
    then have g: "gate_wf h0 A r a" using wf a by (auto simp: net_wf_def)
    then have "set (n_fi (h0 a)) \<subseteq> A" by (auto simp: gate_wf_def)
    then obtain bs where bs: "list_all2 (evals h0 \<sigma>) (n_fi (h0 a)) bs"
      "list_all2 (\<lambda>x b. n_signal (h x) = bool_sig b) (n_fi (h0 a)) bs"
      using signals_ok_fi [OF ok _ set] by blast
    have "length bs = length (n_fi (h0 a))" using bs(1) by (simp add: list_all2_lengthD)
    then obtain b where b: "gate_sem (n_type (h0 a)) (inv_first (n_inv (h0 a)) bs) = Some b"
      using gate_sem_total g by (metis gate_wf_def length_inv_first)
    have "evals h0 \<sigma> a b" using False bs(1) b by (rule ev_gate)
    moreover have "OutputValueBody h a = Inr (bool_sig b)"
      by (rule OutputValueBody_bools [of _ _ bs]) (simp_all add: eqs bs(2) b)
    ultimately show ?thesis by blast
  qed
qed

text \<open>
  The recursion of \<open>OutputValue\<close>: with fuel above the rank it returns, leaves the netlist
  alone, sets no wrong signal and gives the node its value.
\<close>

definition ov_post :: "(addr \<Rightarrow> node) \<Rightarrow> (addr \<Rightarrow> bool) \<Rightarrow> addr set \<Rightarrow> (addr \<Rightarrow> node) \<Rightarrow> (addr \<Rightarrow> node) \<Rightarrow> bool" where
  "ov_post h0 \<sigma> A h h' \<longleftrightarrow> signals_ok h0 \<sigma> A h' \<and>
     (\<forall>x. n_signal (h x) \<noteq> DONTCARE \<longrightarrow> n_signal (h' x) \<noteq> DONTCARE)"

lemma OutputValue_fi_loop:
  assumes IH: "\<And>x h. x \<in> set xs \<Longrightarrow> signals_ok h0 \<sigma> A h \<Longrightarrow>
      \<exists>h'. OutputValue n x h = Inr h' \<and> ov_post h0 \<sigma> A h h' \<and> n_signal (h' x) \<noteq> DONTCARE"
    and "signals_ok h0 \<sigma> A h"
  shows "\<exists>h'. rfold (\<lambda>fi h. if n_signal (h fi) = DONTCARE then OutputValue n fi h else Inr h) xs h = Inr h'
      \<and> ov_post h0 \<sigma> A h h' \<and> (\<forall>x \<in> set xs. n_signal (h' x) \<noteq> DONTCARE)"
  using assms
proof (induction xs arbitrary: h)
  case Nil
  then show ?case by (simp add: ov_post_def)
next
  case (Cons x xs)
  obtain h1 where h1: "(if n_signal (h x) = DONTCARE then OutputValue n x h else Inr h) = Inr h1"
    "ov_post h0 \<sigma> A h h1" "n_signal (h1 x) \<noteq> DONTCARE"
  proof (cases "n_signal (h x) = DONTCARE")
    case True
    then show ?thesis using Cons.prems(1) [of x h] Cons.prems(2) that by auto
  next
    case False
    then show ?thesis using Cons.prems(2) that [of h] by (auto simp: ov_post_def)
  qed
  have "signals_ok h0 \<sigma> A h1" using h1(2) by (simp add: ov_post_def)
  then obtain h2 where
    "rfold (\<lambda>fi h. if n_signal (h fi) = DONTCARE then OutputValue n fi h else Inr h) xs h1 = Inr h2"
    "ov_post h0 \<sigma> A h1 h2" "\<forall>x \<in> set xs. n_signal (h2 x) \<noteq> DONTCARE"
    using Cons.IH [of h1] Cons.prems(1) by auto
  with h1 show ?case by (auto simp: ov_post_def)
qed

lemma OutputValue_correct_aux:
  assumes wf: "net_wf h0 A r" and "a \<in> A" and "r a < n" and "signals_ok h0 \<sigma> A h"
  shows "\<exists>h' b. OutputValue n a h = Inr h' \<and> ov_post h0 \<sigma> A h h' \<and>
           evals h0 \<sigma> a b \<and> n_signal (h' a) = bool_sig b"
  using assms(2-)
proof (induction n arbitrary: a h)
  case 0
  then show ?case by simp
next
  case (Suc n)
  have same: "same_but_signal h0 h" using Suc.prems by (simp add: signals_ok_def)
  have sub: "x \<in> A \<and> r x < n" if "x \<in> set (n_fi (h0 a))" for x
    using wf Suc.prems(1,2) that by (fastforce simp: net_wf_def gate_wf_def)
  have "\<exists>h'. rfold (\<lambda>fi h. if n_signal (h fi) = DONTCARE then OutputValue n fi h else Inr h)
          (n_fi (h0 a)) h = Inr h' \<and> ov_post h0 \<sigma> A h h' \<and>
          (\<forall>x \<in> set (n_fi (h0 a)). n_signal (h' x) \<noteq> DONTCARE)"
  proof (rule OutputValue_fi_loop [OF _ Suc.prems(3)])
    fix x g
    assume "x \<in> set (n_fi (h0 a))" "signals_ok h0 \<sigma> A g"
    then show "\<exists>h'. OutputValue n x g = Inr h' \<and> ov_post h0 \<sigma> A g h' \<and> n_signal (h' x) \<noteq> DONTCARE"
      using Suc.IH [of x g] sub by fastforce
  qed
  then obtain h1 where h1: "rfold (\<lambda>fi h. if n_signal (h fi) = DONTCARE then OutputValue n fi h else Inr h)
          (n_fi (h a)) h = Inr h1" "ov_post h0 \<sigma> A h h1"
          "\<forall>x \<in> set (n_fi (h0 a)). n_signal (h1 x) \<noteq> DONTCARE"
    by (auto simp: same_but_signalD [OF same])
  have ok1: "signals_ok h0 \<sigma> A h1" using h1(2) by (simp add: ov_post_def)
  obtain b where b: "evals h0 \<sigma> a b" "OutputValueBody h1 a = Inr (bool_sig b)"
    using OutputValueBody_correct [OF ok1 wf Suc.prems(1) h1(3)] by blast
  have "ov_post h0 \<sigma> A h (upd a (set_signal (bool_sig b)) h1)"
    using h1(2) b(1) by (auto simp: ov_post_def signals_ok_def upd_apply)
  then show ?case using h1(1) b by auto
qed

end
