(* ===== verification/Net_Words.thy ===== *)
theory Net_Words
  imports Net_Sim
begin

text \<open>
  The bit-parallel simulators \<open>getResult\<close> (truth tables) and \<open>miterGetResult\<close> (miter): one
  recursive descent with the memo \<open>recordMap\<close>, and one table of gate formulas each. The locale
  \<open>lane_simulator\<close> is the contract of such a table, that every one of the 8192 lanes is the
  gate's Boolean function; the descent is proved correct once from it, and both tables
  interpret it for the gates and inversion counts where the code keeps the contract.
\<close>

section \<open>The recursive descent\<close>

type_synonym memo = "addr \<Rightarrow> bitset option"

text \<open>
  \<open>op\<close> is the formula table, \<open>leaf\<close> the value of an input. A gate already in the memo is not
  evaluated again. The fan-in is evaluated from left to right, as far as the formula reads it.
\<close>

fun simGet :: "(gtype \<Rightarrow> nat \<Rightarrow> bitset list \<Rightarrow> bitset res) \<Rightarrow> (addr \<Rightarrow> bitset) \<Rightarrow> (addr \<Rightarrow> node) \<Rightarrow>
    nat \<Rightarrow> addr \<Rightarrow> memo \<Rightarrow> (bitset \<times> memo) res" where
  "simGet op leaf h 0 gate recordMap = Inl Stack_Overflow"
| "simGet op leaf h (Suc n) gate recordMap =
     (case recordMap gate of
        Some w \<Rightarrow> Inr (w, recordMap)
      | None \<Rightarrow>
          if n_type (h gate) = INPUT then Inr (leaf gate, recordMap)
          else
            rbind (rfold (\<lambda>x (ws, m). rbind (simGet op leaf h n x m) (\<lambda>(w, m). Inr (ws @ [w], m)))
                     (take (arity (n_type (h gate))) (n_fi (h gate))) ([], recordMap))
              (\<lambda>(ws, m). rbind (op (n_type (h gate)) (n_inv (h gate)) ws)
                 (\<lambda>w. Inr (w, m(gate \<mapsto> w)))))"

definition word1 :: "(bitset \<Rightarrow> bitset) \<Rightarrow> bitset list \<Rightarrow> bitset res" where
  "word1 f ws = rbind (vget ws 0) (\<lambda>a. Inr (f a))"

definition word2 :: "(bitset \<Rightarrow> bitset \<Rightarrow> bitset) \<Rightarrow> bitset list \<Rightarrow> bitset res" where
  "word2 f ws = rbind (vget ws 0) (\<lambda>a. rbind (vget ws 1) (\<lambda>b. Inr (f a b)))"

definition word3 :: "(bitset \<Rightarrow> bitset \<Rightarrow> bitset \<Rightarrow> bitset) \<Rightarrow> bitset list \<Rightarrow> bitset res" where
  "word3 f ws = rbind (vget ws 0) (\<lambda>a. rbind (vget ws 1) (\<lambda>b. rbind (vget ws 2) (\<lambda>c. Inr (f a b c))))"

section \<open>The formula tables\<close>

text \<open>\<open>FACARRY\<close> with its first \<open>inv\<close> inputs complemented, as both functions write it.\<close>

definition carry_op :: "nat \<Rightarrow> bitset \<Rightarrow> bitset \<Rightarrow> bitset \<Rightarrow> bitset" where
  "carry_op inv' a b c =
     (if inv' = 3 then or (or (and (not a) (not b)) (and (not b) (not c))) (and (not a) (not c))
      else if inv' = 2 then or (or (and (not a) (not b)) (and (not b) c)) (and (not a) c)
      else if inv' = 1 then or (or (and (not a) b) (and b c)) (and (not a) c)
      else or (or (and a b) (and b c)) (and a c))"

definition getResult_op :: "gtype \<Rightarrow> nat \<Rightarrow> bitset list \<Rightarrow> bitset res" where
  "getResult_op t inv' ws = (case t of
     BUF \<Rightarrow> word1 (\<lambda>a. if inv' = 1 then not a else a) ws
   | OUTPUT \<Rightarrow> word1 (\<lambda>a. if inv' = 1 then not a else a) ws
   | INV \<Rightarrow> word1 (\<lambda>a. if inv' = 1 then a else not a) ws
   | AND \<Rightarrow> word2 (\<lambda>a b. if inv' = 2 then and (not a) (not b)
                        else if inv' = 1 then and (not a) b else and a b) ws
   | OR \<Rightarrow> word2 (\<lambda>a b. if inv' = 2 then or (not a) (not b)
                       else if inv' = 1 then or (not a) b else or a b) ws
   | XOR \<Rightarrow> word2 (\<lambda>a b. if inv' = 2 then xor (not a) (not b)
                        else if inv' = 1 then xor (not a) b else xor a b) ws
   | NAND \<Rightarrow> word2 (\<lambda>a b. if inv' = 2 then and a (not b)
                         else if inv' = 1 then and a b else not (and a b)) ws
   | NOR \<Rightarrow> word2 (\<lambda>a b. if inv' = 2 then or a (not b)
                        else if inv' = 1 then or a b else not (or a b)) ws
   | ZEROBUF \<Rightarrow> Inr 0
   | ONEBUF \<Rightarrow> Inr 1
   | FACARRY \<Rightarrow> word3 (carry_op inv') ws
   | _ \<Rightarrow> Inl (Exit ''Undefined gate!''))"

text \<open>\<open>miterGetResult\<close> has the same formulas but no case for \<open>INV\<close>.\<close>

definition miterGetResult_op :: "gtype \<Rightarrow> nat \<Rightarrow> bitset list \<Rightarrow> bitset res" where
  "miterGetResult_op t inv' ws = (case t of
     BUF \<Rightarrow> word1 (\<lambda>a. if inv' = 1 then not a else a) ws
   | OUTPUT \<Rightarrow> word1 (\<lambda>a. if inv' = 1 then not a else a) ws
   | AND \<Rightarrow> word2 (\<lambda>a b. if inv' = 2 then and (not a) (not b)
                        else if inv' = 1 then and (not a) b else and a b) ws
   | OR \<Rightarrow> word2 (\<lambda>a b. if inv' = 2 then or (not a) (not b)
                       else if inv' = 1 then or (not a) b else or a b) ws
   | XOR \<Rightarrow> word2 (\<lambda>a b. if inv' = 2 then xor (not a) (not b)
                        else if inv' = 1 then xor (not a) b else xor a b) ws
   | NAND \<Rightarrow> word2 (\<lambda>a b. if inv' = 2 then and a (not b)
                         else if inv' = 1 then and a b else not (and a b)) ws
   | NOR \<Rightarrow> word2 (\<lambda>a b. if inv' = 2 then or a (not b)
                        else if inv' = 1 then or a b else not (or a b)) ws
   | ZEROBUF \<Rightarrow> Inr 0
   | ONEBUF \<Rightarrow> Inr 1
   | FACARRY \<Rightarrow> word3 (carry_op inv') ws
   | _ \<Rightarrow> Inl (Exit ''Undefined gate!''))"

text \<open>
  The two functions. \<open>getResult\<close> reads the value of an input through its index in
  \<open>_gate[INPUT]\<close>, \<open>miterGetResult\<close> through the node itself; \<open>piValue\<close> is an \<open>unordered_map\<close>
  whose missing entries read as 0. A \<open>gate->_idx\<close> outside \<open>_gate[INPUT]\<close> reads the node 0.
\<close>

definition getResult :: "addr list \<Rightarrow> (addr \<Rightarrow> bitset) \<Rightarrow> (addr \<Rightarrow> node) \<Rightarrow> nat \<Rightarrow> addr \<Rightarrow> memo \<Rightarrow>
    (bitset \<times> memo) res" where
  "getResult inputs piValue h n gate recordMap =
     simGet getResult_op (\<lambda>g. piValue (inputs ! nat (n_idx (h g)))) h n gate recordMap"

definition miterGetResult :: "(addr \<Rightarrow> bitset) \<Rightarrow> (addr \<Rightarrow> node) \<Rightarrow> nat \<Rightarrow> addr \<Rightarrow> memo \<Rightarrow>
    (bitset \<times> memo) res" where
  "miterGetResult piValue h n gate recordMap = simGet miterGetResult_op piValue h n gate recordMap"

text \<open>\<open>miterRandomSimulate\<close> clears the memo first.\<close>

definition miterRandomSimulate :: "(addr \<Rightarrow> bitset) \<Rightarrow> (addr \<Rightarrow> node) \<Rightarrow> nat \<Rightarrow> addr \<Rightarrow> bitset res" where
  "miterRandomSimulate piValue h n gate =
     rbind (miterGetResult piValue h n gate Map.empty) (\<lambda>(w, m). Inr w)"

section \<open>The contract of a formula table\<close>

text \<open>Lane \<open>i\<close> of a list of words, and the assignment lane \<open>i\<close> gives to the inputs.\<close>

definition lane :: "nat \<Rightarrow> bitset list \<Rightarrow> bool list" where
  "lane i ws = map (\<lambda>w. bit w i) ws"

definition lane_asg :: "nat \<Rightarrow> (addr \<Rightarrow> bitset) \<Rightarrow> addr \<Rightarrow> bool" where
  "lane_asg i pv = (\<lambda>a. bit (pv a) i)"

lemma lane_simps [simp]:
  "lane i [] = []" "lane i (w # ws) = bit w i # lane i ws" "lane i (vs @ ws) = lane i vs @ lane i ws"
  "length (lane i ws) = length ws"
  by (simp_all add: lane_def)

locale lane_simulator =
  fixes op :: "gtype \<Rightarrow> nat \<Rightarrow> bitset list \<Rightarrow> bitset res"
    and ok :: "gtype \<Rightarrow> nat \<Rightarrow> bool"
  assumes op_lanes: "ok t k \<Longrightarrow> length ws = arity t \<Longrightarrow>
    \<exists>w. op t k ws = Inr w \<and> (\<forall>i < 8192. gate_sem t (inv_first k (lane i ws)) = Some (bit w i))"
begin

text \<open>A memo is sound when each entry has the right value in every lane.\<close>

definition memo_ok :: "(addr \<Rightarrow> node) \<Rightarrow> (addr \<Rightarrow> bitset) \<Rightarrow> memo \<Rightarrow> bool" where
  "memo_ok h leaf m \<longleftrightarrow>
     (\<forall>a w. m a = Some w \<longrightarrow> (\<forall>i < 8192. evals h (lane_asg i leaf) a (bit w i)))"

lemma memo_ok_empty: "memo_ok h leaf Map.empty"
  by (simp add: memo_ok_def)

lemma simGet_args:
  assumes IH: "\<And>x m. x \<in> set xs \<Longrightarrow> memo_ok h leaf m \<Longrightarrow> \<exists>w m'. simGet op leaf h n x m = Inr (w, m') \<and>
      memo_ok h leaf m' \<and> (\<forall>i < 8192. evals h (lane_asg i leaf) x (bit w i))"
    and "memo_ok h leaf m"
  shows "\<exists>ws m'. rfold (\<lambda>x (ws, m). rbind (simGet op leaf h n x m) (\<lambda>(w, m). Inr (ws @ [w], m)))
             xs (vs, m) = Inr (vs @ ws, m') \<and> memo_ok h leaf m' \<and> length ws = length xs \<and>
           (\<forall>i < 8192. list_all2 (evals h (lane_asg i leaf)) xs (lane i ws))"
  using assms
proof (induction xs arbitrary: vs m)
  case Nil
  then show ?case by simp
next
  case (Cons x xs)
  obtain w m1 where w: "simGet op leaf h n x m = Inr (w, m1)" "memo_ok h leaf m1"
    "\<forall>i < 8192. evals h (lane_asg i leaf) x (bit w i)"
    using Cons.prems(1) [of x m] Cons.prems(2) by auto
  obtain ws m2 where ws: "rfold (\<lambda>x (ws, m). rbind (simGet op leaf h n x m) (\<lambda>(w, m). Inr (ws @ [w], m)))
             xs (vs @ [w], m1) = Inr ((vs @ [w]) @ ws, m2)" "memo_ok h leaf m2" "length ws = length xs"
           "\<forall>i < 8192. list_all2 (evals h (lane_asg i leaf)) xs (lane i ws)"
    using Cons.IH [of m1 "vs @ [w]"] Cons.prems(1) w(2) by auto
  show ?case
    using w ws by (intro exI [of _ "w # ws"] exI [of _ m2]) simp
qed

lemma list_all2_evals_take:
  assumes "net_wf h A r" and "set xs \<subseteq> A" and "list_all2 (evals h \<sigma>) (take k xs) bs"
  shows "\<exists>cs. list_all2 (evals h \<sigma>) xs cs \<and> take k cs = take k bs"
proof -
  have "\<forall>x \<in> set xs. \<exists>b. evals h \<sigma> x b" using assms(1,2) evals_total by blast
  then obtain v where v: "\<forall>x \<in> set xs. evals h \<sigma> x (v x)" by metis
  then have d: "list_all2 (evals h \<sigma>) (drop k xs) (map v (drop k xs))"
    by (auto simp: list_all2_conv_all_nth dest: in_set_dropD nth_mem)
  have "list_all2 (evals h \<sigma>) (take k xs @ drop k xs) (bs @ map v (drop k xs))"
    using assms(3) d by (rule list_all2_appendI)
  moreover have "take k (bs @ map v (drop k xs)) = take k bs"
    using list_all2_lengthD [OF assms(3)] by (cases "k \<le> length xs") auto
  ultimately show ?thesis by auto
qed

theorem simGet_correct:
  assumes wf: "net_wf h A r" and ok: "\<And>x. x \<in> A \<Longrightarrow> n_type (h x) \<noteq> INPUT \<Longrightarrow> ok (n_type (h x)) (n_inv (h x))"
    and "a \<in> A" and "r a < n" and "memo_ok h leaf m"
  shows "\<exists>w m'. simGet op leaf h n a m = Inr (w, m') \<and> memo_ok h leaf m' \<and>
           (\<forall>i < 8192. evals h (lane_asg i leaf) a (bit w i))"
  using assms(3-)
proof (induction n arbitrary: a m)
  case 0
  then show ?case by simp
next
  case (Suc n)
  show ?case
  proof (cases "m a")
    case (Some w)
    then show ?thesis using Suc.prems by (auto simp: memo_ok_def)
  next
    case None
    show ?thesis
    proof (cases "n_type (h a) = INPUT")
      case True
      then show ?thesis using None Suc.prems by (auto simp: lane_asg_def evals_input_iff)
    next
      case False
      let ?t = "n_type (h a)" and ?xs = "take (arity (n_type (h a))) (n_fi (h a))"
      have g: "gate_wf h A r a" using wf Suc.prems(1) False by (auto simp: net_wf_def)
      have len: "length ?xs = arity ?t" using g by (auto simp: gate_wf_def)
      have sub: "x \<in> A \<and> r x < n" if "x \<in> set ?xs" for x
        using g Suc.prems(2) that by (fastforce simp: gate_wf_def dest: in_set_takeD)
      obtain ws m1 where ws: "rfold (\<lambda>x (ws, m). rbind (simGet op leaf h n x m) (\<lambda>(w, m). Inr (ws @ [w], m)))
             ?xs ([], m) = Inr (ws, m1)" "memo_ok h leaf m1" "length ws = length ?xs"
           "\<forall>i < 8192. list_all2 (evals h (lane_asg i leaf)) ?xs (lane i ws)"
        using simGet_args [of ?xs h leaf n m "[]"] Suc.IH sub Suc.prems(3) by auto
      obtain w where w: "op ?t (n_inv (h a)) ws = Inr w"
        "\<forall>i < 8192. gate_sem ?t (inv_first (n_inv (h a)) (lane i ws)) = Some (bit w i)"
        using op_lanes [OF ok [OF Suc.prems(1) False], of ws] ws(3) len by auto
      have ev: "evals h (lane_asg i leaf) a (bit w i)" if i: "i < 8192" for i
      proof -
        have "set (n_fi (h a)) \<subseteq> A" using g by (auto simp: gate_wf_def)
        then obtain cs where cs: "list_all2 (evals h (lane_asg i leaf)) (n_fi (h a)) cs"
          "take (arity ?t) cs = take (arity ?t) (lane i ws)"
          using list_all2_evals_take [OF wf] ws(4) i by blast
        have "gate_sem ?t (inv_first (n_inv (h a)) cs) = gate_sem ?t (inv_first (n_inv (h a)) (lane i ws))"
          using cs(2) by (metis gate_sem_take take_inv_first)
        then show ?thesis using False cs(1) w(2) i by (intro ev_gate) auto
      qed
      then have "memo_ok h leaf (m1(a \<mapsto> w))" using ws(2) by (simp add: memo_ok_def)
      then show ?thesis using None False ws(1) w(1) ev by simp
    qed
  qed
qed

end

section \<open>Both tables keep the contract\<close>

text \<open>
  Where they do: at most as many inversions as inputs, no inverted input on \<open>NAND\<close> and \<open>NOR\<close>,
  and no \<open>ONEBUF\<close> (the code's \<open>bitset<8192> b(1)\<close> sets lane 0 only).
\<close>

definition get_ok :: "gtype \<Rightarrow> nat \<Rightarrow> bool" where
  "get_ok t k \<longleftrightarrow> t \<in> sim_types - {ONEBUF} \<and>
     (if t = NAND \<or> t = NOR then k = 0 else t = ZEROBUF \<or> k \<le> arity t)"

definition miter_ok :: "gtype \<Rightarrow> nat \<Rightarrow> bool" where
  "miter_ok t k \<longleftrightarrow> get_ok t k \<and> t \<noteq> INV"

lemma word_vget [simp]:
  "word1 f [a] = Inr (f a)" "word2 g [a, b] = Inr (g a b)" "word3 k [a, b, c] = Inr (k a b c)"
  by (simp_all add: word1_def word2_def word3_def vget_def in_range_def)

lemma length_Suc_list: "length ws = Suc n \<longleftrightarrow> (\<exists>w vs. ws = w # vs \<and> length vs = n)"
  by (cases ws) auto

lemma bitset_bit_not [simp]: "i < 8192 \<Longrightarrow> bit (not (w :: bitset)) i \<longleftrightarrow> \<not> bit w i"
  by (simp add: bit_not_iff)

lemma carry_lane:
  assumes "k \<le> 3" and "i < 8192"
  shows "gate_sem FACARRY (inv_first k [bit a i, bit b i, bit c i]) = Some (bit (carry_op k a b c) i)"
proof -
  have "k = 0 \<or> k = 1 \<or> k = 2 \<or> k = 3" using assms(1) by arith
  then show ?thesis using assms(2)
    by (elim disjE) (simp_all add: carry_op_def bit_or_iff bit_and_iff)
qed

lemma carry_op_lanes:
  "k \<le> 3 \<Longrightarrow> \<forall>i < 8192. gate_sem FACARRY (inv_first k (lane i [a, b, c])) = Some (bit (carry_op k a b c) i)"
  using carry_lane by simp

lemma get_lanes1:
  assumes "t \<in> {OUTPUT, BUF, INV}" and "k \<le> 1"
  shows "\<exists>w. getResult_op t k [a] = Inr w \<and>
           (\<forall>i < 8192. gate_sem t (inv_first k (lane i [a])) = Some (bit w i))"
proof -
  have "k = 0 \<or> k = 1" using assms(2) by arith
  then show ?thesis using assms(1) by (elim disjE insertE emptyE) (simp_all add: getResult_op_def)
qed

lemma get_lanes2:
  assumes "t \<in> {AND, OR, XOR, NAND, NOR}" and "k \<le> 2" and "t \<in> {NAND, NOR} \<longrightarrow> k = 0"
  shows "\<exists>w. getResult_op t k [a, b] = Inr w \<and>
           (\<forall>i < 8192. gate_sem t (inv_first k (lane i [a, b])) = Some (bit w i))"
proof -
  have "k = 0 \<or> k = 1 \<or> k = 2" using assms(2) by arith
  then show ?thesis using assms(1,3)
    by (elim disjE insertE emptyE)
       (simp_all add: getResult_op_def bit_or_iff bit_and_iff bit_xor_iff)
qed

lemma get_op_lanes:
  assumes ok: "get_ok t k" and len: "length ws = arity t"
  shows "\<exists>w. getResult_op t k ws = Inr w \<and>
           (\<forall>i < 8192. gate_sem t (inv_first k (lane i ws)) = Some (bit w i))"
proof -
  consider "t \<in> {OUTPUT, BUF, INV}" | "t \<in> {AND, OR, XOR, NAND, NOR}" | "t = FACARRY" | "t = ZEROBUF"
    using ok by (cases t) (auto simp: get_ok_def sim_types_def)
  then show ?thesis
  proof cases
    case 1
    then have "arity t = 1" "k \<le> 1" using ok by (auto simp: get_ok_def)
    moreover obtain a where "ws = [a]" using len \<open>arity t = 1\<close> by (auto simp: length_Suc_list)
    ultimately show ?thesis using get_lanes1 [OF 1] by blast
  next
    case 2
    then have "arity t = 2" "k \<le> 2" "t \<in> {NAND, NOR} \<longrightarrow> k = 0" using ok by (auto simp: get_ok_def)
    moreover obtain a b where "ws = [a, b]"
      using len \<open>arity t = 2\<close> by (auto simp: length_Suc_list numeral_2_eq_2)
    ultimately show ?thesis using get_lanes2 [OF 2] by blast
  next
    case 3
    then have k: "k \<le> 3" using ok by (auto simp: get_ok_def)
    obtain a b c where "ws = [a, b, c]"
      using len 3 by (auto simp: length_Suc_list numeral_3_eq_3)
    then show ?thesis using carry_op_lanes [OF k] 3
      by (intro exI [of _ "carry_op k a b c"]) (simp add: getResult_op_def del: inv_first_Cons)
  next
    case 4
    then show ?thesis using len by (simp add: getResult_op_def)
  qed
qed

interpretation get: lane_simulator getResult_op get_ok
  by unfold_locales (rule get_op_lanes)

lemma miter_op_eq: "t \<noteq> INV \<Longrightarrow> miterGetResult_op t k ws = getResult_op t k ws"
  by (cases t) (simp_all add: miterGetResult_op_def getResult_op_def)

interpretation mit: lane_simulator miterGetResult_op miter_ok
  by unfold_locales (simp add: miter_ok_def miter_op_eq get_op_lanes)

end
