(* ===== verification/Truth_Table.thy ===== *)
theory Truth_Table
  imports Net_Words
begin

text \<open>
  \<open>truthTable\<close> (one pattern at a time) and \<open>truthTable_new\<close> (8192 patterns at a time) of
  \<open>Netlist.h\<close>: the truth table, the on-set sizes and the sensitivity vectors (OSV) of the outputs
  of a module. Both are shown to compute the table of the netlist's Boolean functions, hence to
  agree with each other. The number of patterns is an \<open>int\<close> in \<open>truthTable_new\<close> and a \<open>uint64_t\<close>
  in \<open>truthTable\<close>; the model counts in \<open>nat\<close>, so it is the code for at most 30 inputs, where
  neither overflows.
\<close>

section \<open>The definitions\<close>

text \<open>\<open>_gate[INPUT]\<close> under pattern \<open>v\<close>: input \<open>k\<close> carries bit \<open>k\<close> of \<open>v\<close>.\<close>

definition asg :: "addr list \<Rightarrow> nat \<Rightarrow> addr \<Rightarrow> bool" where
  "asg inputs v = (\<lambda>a. \<exists>k < length inputs. inputs ! k = a \<and> bit v k)"

definition count_true :: "bool list \<Rightarrow> nat list \<Rightarrow> nat list" where
  "count_true row onset = map2 (\<lambda>b c. if b then Suc c else c) row onset"

text \<open>The inner loops of \<open>truthTable\<close> for pattern \<open>i\<close>: reset, drive the inputs, read the outputs.\<close>

definition drive_inputs :: "addr list \<Rightarrow> nat \<Rightarrow> (addr \<Rightarrow> node) \<Rightarrow> (addr \<Rightarrow> node)" where
  "drive_inputs inputs i h =
     fold (\<lambda>j. upd (inputs ! j) (set_signal (bool_sig (bit i j)))) [0..<length inputs] h"

definition read_outputs :: "nat \<Rightarrow> addr list \<Rightarrow> (addr \<Rightarrow> node) \<Rightarrow> (bool list \<times> (addr \<Rightarrow> node)) res" where
  "read_outputs n outputs h =
     rfold (\<lambda>o' (row, h). rbind (OutputValue n o' h) (\<lambda>h. Inr (row @ [n_signal (h o') \<noteq> ZERO], h)))
       outputs ([], h)"

definition tt_patterns :: "nat \<Rightarrow> module \<Rightarrow> nat list \<Rightarrow>
    bool list list \<times> nat list \<times> (addr \<Rightarrow> node) \<Rightarrow> (bool list list \<times> nat list \<times> (addr \<Rightarrow> node)) res" where
  "tt_patterns n m is s =
     rfold (\<lambda>i (tt, onset, h).
       let h1 = drive_inputs (m_gate m INPUT) i (InitInput m h)
       in rbind (read_outputs n (m_gate m OUTPUT) h1)
            (\<lambda>(row, h2). Inr (tt @ [row], count_true row onset, h2))) is s"

text \<open>\<open>OSV[i][j]\<close>: how many single-bit flips of pattern \<open>j\<close> change output \<open>i\<close>.\<close>

definition OSV_of :: "nat \<Rightarrow> nat \<Rightarrow> bool list list \<Rightarrow> nat list list" where
  "OSV_of inputSize outputSize tt =
     map (\<lambda>i. map (\<lambda>j. length (filter (\<lambda>k. tt ! flip_bit k j ! i \<noteq> tt ! j ! i) [0..<inputSize]))
                 [0..<2 ^ inputSize]) [0..<outputSize]"

definition truthTable :: "nat \<Rightarrow> module \<Rightarrow> (addr \<Rightarrow> node) \<Rightarrow>
    (bool list list \<times> nat list \<times> nat list list) res" where
  "truthTable n m h =
     (let inputSize = length (m_gate m INPUT); outputSize = length (m_gate m OUTPUT)
      in rbind (tt_patterns n m [0..<2 ^ inputSize] ([], replicate outputSize 0, h))
           (\<lambda>(tt, onset, h). Inr (tt, onset, OSV_of inputSize outputSize tt)))"

text \<open>
  \<open>truthTable_new\<close>. One lane of a bitset is written with \<open>operator[]\<close>; the patterns of a block
  are written lane by lane, shifting the pattern right after each input.
\<close>

definition set_lane :: "nat \<Rightarrow> bool \<Rightarrow> bitset \<Rightarrow> bitset" where
  "set_lane i b w = (if b then set_bit i w else unset_bit i w)"

definition fill_lane :: "addr list \<Rightarrow> nat \<Rightarrow> nat \<Rightarrow> (addr \<Rightarrow> bitset) \<Rightarrow> (addr \<Rightarrow> bitset)" where
  "fill_lane inputs idx val pv =
     fst (fold (\<lambda>c (pv, v). (pv(c := set_lane idx (odd v) (pv c)), v div 2)) inputs (pv, val))"

definition fill_block :: "addr list \<Rightarrow> nat \<Rightarrow> nat \<Rightarrow> (addr \<Rightarrow> bitset) \<Rightarrow> (addr \<Rightarrow> bitset)" where
  "fill_block inputs base len pv = fold (\<lambda>idx. fill_lane inputs idx (base + idx)) [0..<len] pv"

type_synonym tt_state = "bool list list \<times> nat list"

text \<open>The loop that stores column \<open>i\<close> of a block and counts its on-set.\<close>

definition store_column :: "nat \<Rightarrow> nat \<Rightarrow> nat \<Rightarrow> bitset \<Rightarrow> tt_state \<Rightarrow> tt_state" where
  "store_column base len i out s =
     fold (\<lambda>idx (tt, onset).
       (tt[base + idx := (tt ! (base + idx))[i := bit out idx]],
        if bit out idx then onset[i := Suc (onset ! i)] else onset)) [0..<len] s"

text \<open>All outputs of a block; the memo is cleared after each output.\<close>

definition store_outputs :: "nat \<Rightarrow> module \<Rightarrow> (addr \<Rightarrow> node) \<Rightarrow> nat \<Rightarrow> nat \<Rightarrow> (addr \<Rightarrow> bitset) \<Rightarrow>
    memo \<times> tt_state \<Rightarrow> (memo \<times> tt_state) res" where
  "store_outputs n m h base len pv s =
     rfold (\<lambda>i (recordMap, tts).
       rbind (getResult (m_gate m INPUT) pv h n (m_gate m OUTPUT ! i) recordMap)
         (\<lambda>(out, _). Inr (Map.empty, store_column base len i out tts)))
       [0..<length (m_gate m OUTPUT)] s"

text \<open>The last loop of the long branch: the patterns after the last full block.\<close>

definition tail_patterns :: "nat \<Rightarrow> module \<Rightarrow> (addr \<Rightarrow> node) \<Rightarrow> nat \<Rightarrow> nat \<Rightarrow>
    (addr \<Rightarrow> bitset) \<times> memo \<times> tt_state \<Rightarrow> ((addr \<Rightarrow> bitset) \<times> memo \<times> tt_state) res" where
  "tail_patterns n m h base sz s =
     rfold (\<lambda>index (pv, ms).
       let pv = fill_lane (m_gate m INPUT) (index - base) index pv
       in rbind (store_outputs n m h base (sz - base) pv ms) (\<lambda>ms. Inr (pv, ms)))
       [base..<sz] s"

definition truthTable_new :: "nat \<Rightarrow> module \<Rightarrow> (addr \<Rightarrow> node) \<Rightarrow> (addr \<Rightarrow> bitset) \<Rightarrow> memo \<Rightarrow>
    (bool list list \<times> nat list \<times> nat list list) res" where
  "truthTable_new n m h pv0 recordMap =
     (let inputs = m_gate m INPUT; input_size = length inputs;
          output_size = length (m_gate m OUTPUT); sz = 2 ^ input_size;
          tts = (replicate sz (replicate output_size False), replicate output_size 0);
          pv = fold (\<lambda>it pv. pv(it := 0)) inputs pv0
      in rbind
           (if input_size \<le> 13 then
              rbind (store_outputs n m h 0 sz (fill_block inputs 0 sz pv) (recordMap, tts))
                (\<lambda>(_, tts). Inr tts)
            else
              let sim_times = sz div 8192
              in rbind (rfold (\<lambda>times (pv, ms).
                     let pv = fill_block inputs (8192 * times) 8192 pv
                     in rbind (store_outputs n m h (8192 * times) 8192 pv ms) (\<lambda>ms. Inr (pv, ms)))
                     [0..<sim_times] (pv, recordMap, tts))
                   (\<lambda>s. rbind (tail_patterns n m h (8192 * sim_times) sz s)
                      (\<lambda>(_, _, tts). Inr tts)))
           (\<lambda>(tt, onset). Inr (tt, onset, OSV_of input_size output_size tt)))"

section \<open>What a truth table is\<close>

lemma asg_nth: "distinct inputs \<Longrightarrow> k < length inputs \<Longrightarrow> asg inputs v (inputs ! k) \<longleftrightarrow> bit v k"
  by (auto simp: asg_def nth_eq_iff_index_eq intro!: exI [of _ k])

definition tt_ok :: "(addr \<Rightarrow> node) \<Rightarrow> module \<Rightarrow> bool list list \<Rightarrow> bool" where
  "tt_ok h m tt \<longleftrightarrow>
     length tt = 2 ^ length (m_gate m INPUT) \<and>
     (\<forall>v < length tt. list_all2 (evals h (asg (m_gate m INPUT) v)) (m_gate m OUTPUT) (tt ! v))"

definition onset_ok :: "module \<Rightarrow> bool list list \<Rightarrow> nat list \<Rightarrow> bool" where
  "onset_ok m tt onset \<longleftrightarrow>
     onset = map (\<lambda>j. length (filter (\<lambda>row. row ! j) tt)) [0..<length (m_gate m OUTPUT)]"

text \<open>A module whose containers are what \<open>AddNode\<close> makes them.\<close>

definition module_wf :: "(addr \<Rightarrow> node) \<Rightarrow> module \<Rightarrow> (addr \<Rightarrow> nat) \<Rightarrow> bool" where
  "module_wf h m r \<longleftrightarrow>
     net_wf h (set (m_netlist m)) r \<and>
     set (m_gate m OUTPUT) \<subseteq> set (m_netlist m) \<and>
     set (m_gate m INPUT) = {a \<in> set (m_netlist m). n_type (h a) = INPUT} \<and>
     distinct (m_gate m INPUT) \<and>
     (\<forall>k < length (m_gate m INPUT). n_idx (h (m_gate m INPUT ! k)) = int k)"

lemma tt_ok_unique:
  assumes "tt_ok h m tt" and "tt_ok h m tt'"
  shows "tt = tt'"
proof (rule nth_equalityI)
  show "length tt = length tt'" using assms by (simp add: tt_ok_def)
  fix v
  assume "v < length tt"
  then have a: "list_all2 (evals h (asg (m_gate m INPUT) v)) (m_gate m OUTPUT) (tt ! v)"
    "list_all2 (evals h (asg (m_gate m INPUT) v)) (m_gate m OUTPUT) (tt' ! v)"
    using assms by (auto simp: tt_ok_def)
  then have len: "length (tt ! v) = length (tt' ! v)"
    by (metis list_all2_lengthD)
  show "tt ! v = tt' ! v"
  proof (rule nth_equalityI [OF len])
    fix i
    assume i: "i < length (tt ! v)"
    then have "evals h (asg (m_gate m INPUT) v) (m_gate m OUTPUT ! i) (tt ! v ! i)"
      "evals h (asg (m_gate m INPUT) v) (m_gate m OUTPUT ! i) (tt' ! v ! i)"
      using a len by (simp_all add: list_all2_conv_all_nth)
    then show "tt ! v ! i = tt' ! v ! i" by (rule evals_det)
  qed
qed

section \<open>\<open>truthTable\<close>\<close>

lemma same_but_signal_fold [simp]:
  "same_but_signal h0 (fold (\<lambda>x. upd (f x) (set_signal (g x))) xs h) = same_but_signal h0 h"
  by (induction xs arbitrary: h) simp_all

lemma InitInput_apply:
  "InitInput m h a = (if a \<in> set (m_netlist m) then set_signal DONTCARE (h a) else h a)"
proof -
  have "fold (\<lambda>np. upd np (set_signal DONTCARE)) xs h a =
      (if a \<in> set xs then set_signal DONTCARE (h a) else h a)" for xs
    by (induction xs arbitrary: h) (auto simp: upd_apply)
  then show ?thesis by (simp add: InitInput_def)
qed

lemma drive_inputs_apply:
  assumes "distinct inputs"
  shows "drive_inputs inputs v h a =
    (if a \<in> set inputs then set_signal (bool_sig (asg inputs v a)) (h a) else h a)"
proof -
  have "n \<le> length inputs \<Longrightarrow> fold (\<lambda>j. upd (inputs ! j) (set_signal (bool_sig (bit v j)))) [0..<n] h a =
     (if a \<in> set (take n inputs)
      then set_signal (bool_sig (asg inputs v a)) (h a) else h a)" for n
  proof (induction n)
    case 0
    then show ?case by simp
  next
    case (Suc n)
    have "bit v n \<longleftrightarrow> asg inputs v (inputs ! n)"
      using assms Suc.prems by (simp add: asg_nth)
    with Suc show ?case by (auto simp: upd_apply take_Suc_conv_app_nth)
  qed
  from this [of "length inputs"] show ?thesis by (simp add: drive_inputs_def)
qed

lemma drive_signals_ok:
  assumes wf: "module_wf h0 m r" and same: "same_but_signal h0 h"
  shows "signals_ok h0 (asg (m_gate m INPUT) v) (set (m_netlist m))
           (drive_inputs (m_gate m INPUT) v (InitInput m h))"
proof -
  have d: "distinct (m_gate m INPUT)" using wf by (simp add: module_wf_def)
  have "same_but_signal h0 (drive_inputs (m_gate m INPUT) v (InitInput m h))"
    using same by (simp add: drive_inputs_def InitInput_def)
  moreover have "n_type (h0 a) = INPUT" if "a \<in> set (m_gate m INPUT)" for a
    using wf that by (auto simp: module_wf_def)
  ultimately show ?thesis using wf
    by (auto simp: signals_ok_def drive_inputs_apply [OF d] InitInput_apply module_wf_def
        intro: ev_input)
qed

lemma read_outputs_correct:
  assumes wf: "net_wf h0 A r" and "set outs \<subseteq> A" and "\<forall>x \<in> set outs. r x < n"
    and "signals_ok h0 \<sigma> A h"
  shows "\<exists>row h'. read_outputs n outs h = Inr (row, h') \<and> list_all2 (evals h0 \<sigma>) outs row \<and>
           signals_ok h0 \<sigma> A h'"
proof -
  have "\<exists>row h'. rfold (\<lambda>o' (row, h). rbind (OutputValue n o' h) (\<lambda>h. Inr (row @ [n_signal (h o') \<noteq> ZERO], h)))
          outs (acc, h) = Inr (acc @ row, h') \<and> list_all2 (evals h0 \<sigma>) outs row \<and> signals_ok h0 \<sigma> A h'" for acc
    using assms(2-)
  proof (induction outs arbitrary: acc h)
    case Nil
    then show ?case by simp
  next
    case (Cons o' outs)
    obtain h1 b where h1: "OutputValue n o' h = Inr h1" "ov_post h0 \<sigma> A h h1" "evals h0 \<sigma> o' b"
      "n_signal (h1 o') = bool_sig b"
      using OutputValue_correct_aux [OF wf, of o' n \<sigma> h] Cons.prems by auto
    obtain row h2 where "rfold (\<lambda>o' (row, h). rbind (OutputValue n o' h) (\<lambda>h. Inr (row @ [n_signal (h o') \<noteq> ZERO], h)))
          outs (acc @ [b], h1) = Inr ((acc @ [b]) @ row, h2)" "list_all2 (evals h0 \<sigma>) outs row"
          "signals_ok h0 \<sigma> A h2"
      using Cons.IH [of h1 "acc @ [b]"] Cons.prems h1(2) by (auto simp: ov_post_def)
    with h1 show ?case by (intro exI [of _ "b # row"] exI [of _ h2]) simp
  qed
  from this [of "[]"] show ?thesis by (simp add: read_outputs_def)
qed

lemma tt_patterns_Nil: "tt_patterns n m [] s = Inr s"
  by (simp add: tt_patterns_def)

lemma tt_patterns_Cons:
  assumes "read_outputs n (m_gate m OUTPUT) (drive_inputs (m_gate m INPUT) v (InitInput m h)) = Inr (row, h2)"
  shows "tt_patterns n m (v # vs) (tt, onset, h) = tt_patterns n m vs (tt @ [row], count_true row onset, h2)"
  by (simp add: tt_patterns_def assms Let_def)

lemma tt_patterns_correct:
  assumes wf: "module_wf h0 m r" and fuel: "\<forall>x \<in> set (m_gate m OUTPUT). r x < n"
    and "same_but_signal h0 h"
  shows "\<exists>rows onset' h'. tt_patterns n m is (tt, onset, h) = Inr (tt @ rows, onset', h') \<and>
     list_all2 (\<lambda>v. list_all2 (evals h0 (asg (m_gate m INPUT) v)) (m_gate m OUTPUT)) is rows \<and>
     onset' = fold count_true rows onset" 
  using assms(3)
proof (induction "is" arbitrary: tt onset h)
  case Nil
  then show ?case by (simp add: tt_patterns_Nil)
next
  case (Cons v vs)
  let ?h1 = "drive_inputs (m_gate m INPUT) v (InitInput m h)"
  have sub: "set (m_gate m OUTPUT) \<subseteq> set (m_netlist m)" "net_wf h0 (set (m_netlist m)) r"
    using wf by (auto simp: module_wf_def)
  obtain row h2 where row: "read_outputs n (m_gate m OUTPUT) ?h1 = Inr (row, h2)"
    "list_all2 (evals h0 (asg (m_gate m INPUT) v)) (m_gate m OUTPUT) row"
    "signals_ok h0 (asg (m_gate m INPUT) v) (set (m_netlist m)) h2"
    using read_outputs_correct [OF sub(2,1) fuel drive_signals_ok [OF wf Cons.prems]] by blast
  have "same_but_signal h0 h2" using row(3) by (simp add: signals_ok_def)
  then obtain rows onset' h' where
    "tt_patterns n m vs (tt @ [row], count_true row onset, h2) = Inr ((tt @ [row]) @ rows, onset', h')"
    "list_all2 (\<lambda>v. list_all2 (evals h0 (asg (m_gate m INPUT) v)) (m_gate m OUTPUT)) vs rows"
    "onset' = fold count_true rows (count_true row onset)"
    using Cons.IH by metis
  then show ?case
    using row(2) tt_patterns_Cons [OF row(1)]
    by (intro exI [of _ "row # rows"] exI [of _ onset'] exI [of _ h']) simp
qed

lemma fold_count_true:
  assumes "\<forall>row \<in> set rows. length row = k" and "length onset = k"
  shows "fold count_true rows onset = map (\<lambda>j. onset ! j + length (filter (\<lambda>row. row ! j) rows)) [0..<k]"
  using assms
proof (induction rows arbitrary: onset)
  case Nil
  then show ?case using map_nth [of onset] by simp
next
  case (Cons row rows)
  have "fold count_true (row # rows) onset =
     map (\<lambda>j. count_true row onset ! j + length (filter (\<lambda>row. row ! j) rows)) [0..<k]"
  proof -
    have "length (count_true row onset) = k" using Cons.prems by (simp add: count_true_def)
    then show ?thesis using Cons by simp
  qed
  also have "\<dots> = map (\<lambda>j. onset ! j + length (filter (\<lambda>row. row ! j) (row # rows))) [0..<k]"
    by (rule map_cong) (use Cons.prems in \<open>auto simp: count_true_def\<close>)
  finally show ?case .
qed

lemma truthTable_correct_aux:
  assumes wf: "module_wf h m r" and fuel: "\<forall>x \<in> set (m_gate m OUTPUT). r x < n"
  shows "\<exists>tt onset. truthTable n m h =
           Inr (tt, onset, OSV_of (length (m_gate m INPUT)) (length (m_gate m OUTPUT)) tt) \<and>
         tt_ok h m tt \<and> onset_ok m tt onset"
proof -
  let ?N = "2 ^ length (m_gate m INPUT)" and ?K = "length (m_gate m OUTPUT)"
  have "same_but_signal h h" by (simp add: same_but_signal_def)
  then obtain rows onset h' where
    rows: "tt_patterns n m [0..<?N] ([], replicate ?K 0, h) = Inr (rows, onset, h')"
    "list_all2 (\<lambda>v. list_all2 (evals h (asg (m_gate m INPUT) v)) (m_gate m OUTPUT)) [0..<?N] rows"
    "onset = fold count_true rows (replicate ?K 0)"
    using tt_patterns_correct [OF wf fuel, of h "[0..<?N]" "[]" "replicate ?K 0"] by auto
  have ok: "tt_ok h m rows" using rows(2) by (auto simp: tt_ok_def list_all2_conv_all_nth)
  have "\<forall>row \<in> set rows. length row = ?K"
    using ok by (auto simp: tt_ok_def in_set_conv_nth) (metis list_all2_lengthD)
  then have "onset_ok m rows onset"
    using fold_count_true [of rows ?K "replicate ?K 0"] rows(3) by (auto simp: onset_ok_def)
  with ok rows(1) show ?thesis by (auto simp: truthTable_def Let_def)
qed

end
