(* ===== verification/Truth_Words.thy ===== *)
theory Truth_Words
  imports Truth_Table
begin

text \<open>
  \<open>truthTable_new\<close> fills the same table as \<open>truthTable\<close>: the lanes of a block of patterns, the
  columns it stores, and the loop over the blocks.
\<close>

section \<open>Writing the patterns of a block\<close>

lemma bit_set_lane [simp]:
  "i < 8192 \<Longrightarrow> bit (set_lane i b w) j \<longleftrightarrow> (if j = i then b else bit w j)"
  by (auto simp: set_lane_def bit_simps)

lemma fill_lane_other: "a \<notin> set inputs \<Longrightarrow> fill_lane inputs idx v pv a = pv a"
proof -
  have "a \<notin> set inputs \<Longrightarrow>
    fst (fold (\<lambda>c (pv, v). (pv(c := set_lane idx (odd v) (pv c)), v div 2)) inputs (pv, v)) a = pv a"
    by (induction inputs arbitrary: pv v) auto
  then show "a \<notin> set inputs \<Longrightarrow> fill_lane inputs idx v pv a = pv a" by (simp add: fill_lane_def)
qed

lemma fill_lane_nth:
  assumes "distinct inputs" and "k < length inputs"
  shows "fill_lane inputs idx v pv (inputs ! k) = set_lane idx (bit v k) (pv (inputs ! k))"
  using assms
proof (induction inputs arbitrary: pv v k)
  case Nil
  then show ?case by simp
next
  case (Cons c cs)
  have step: "fill_lane (c # cs) idx v pv = fill_lane cs idx (v div 2) (pv(c := set_lane idx (odd v) (pv c)))"
    by (simp add: fill_lane_def)
  show ?case
  proof (cases k)
    case 0
    then show ?thesis using Cons.prems by (simp add: step fill_lane_other bit_0)
  next
    case (Suc k')
    then have "(c # cs) ! k = cs ! k'" "cs ! k' \<noteq> c" "k' < length cs" using Cons.prems by auto
    then show ?thesis using Cons Suc by (simp add: step bit_Suc)
  qed
qed

lemma fill_block_lanes:
  assumes d: "distinct inputs" and k: "k < length inputs" and n: "n \<le> 8192"
  shows "bit (fill_block inputs base n pv (inputs ! k)) i =
    (if i < n then bit (base + i) k else bit (pv (inputs ! k)) i)"
  using n
proof (induction n)
  case 0
  then show ?case by (simp add: fill_block_def)
next
  case (Suc n)
  have "fill_block inputs base (Suc n) pv = fill_lane inputs n (base + n) (fill_block inputs base n pv)"
    by (simp add: fill_block_def)
  then show ?case using Suc by (simp add: fill_lane_nth [OF d k] less_Suc_eq)
qed

text \<open>The value of a node depends on the assignment of the input nodes only.\<close>

lemma evals_cong:
  assumes wf: "net_wf h A r" and "a \<in> A"
    and eq: "\<And>x. x \<in> A \<Longrightarrow> n_type (h x) = INPUT \<Longrightarrow> \<sigma> x = \<tau> x"
    and "evals h \<sigma> a b"
  shows "evals h \<tau> a b"
  using assms(4,2)
proof (induction rule: evals.induct)
  case (ev_input a)
  then show ?case using eq by (simp add: evals_input_iff)
next
  case (ev_gate a bs b)
  have "set (n_fi (h a)) \<subseteq> A" using wf ev_gate by (auto simp: net_wf_def gate_wf_def)
  then have "list_all2 (evals h \<tau>) (n_fi (h a)) bs"
    using ev_gate.IH by (auto simp: list_all2_conv_all_nth subset_iff)
  then show ?case using ev_gate.hyps by (auto intro: evals.ev_gate)
qed

section \<open>Storing the columns\<close>

lemma store_column_len:
  "store_column base n i out (tt, onset) = (tt', onset') \<Longrightarrow>
   length tt' = length tt \<and> (\<forall>v < length tt. length (tt' ! v) = length (tt ! v)) \<and>
   length onset' = length onset"
proof (induction n arbitrary: tt' onset')
  case 0
  then show ?case by (simp add: store_column_def)
next
  case (Suc n)
  obtain tt1 on1 where 1: "store_column base n i out (tt, onset) = (tt1, on1)"
    by (cases "store_column base n i out (tt, onset)")
  then have "(tt', onset') = (tt1[base + n := (tt1 ! (base + n))[i := bit out n]],
        if bit out n then on1[i := Suc (on1 ! i)] else on1)"
    using Suc.prems by (simp add: store_column_def)
  moreover have "length (tt1[k := (tt1 ! k)[i := b]] ! v) = length (tt1 ! v)" for k b v
    by (cases "k < length tt1") (simp_all add: nth_list_update not_less list_update_beyond)
  ultimately show ?case using Suc.IH [OF 1] by auto
qed

lemma store_column_cells:
  assumes "store_column base n i out (tt, onset) = (tt', onset')"
    and "base + n \<le> length tt" and "v < length tt" and "j < length (tt ! v)"
  shows "tt' ! v ! j = (if j = i \<and> base \<le> v \<and> v < base + n then bit out (v - base) else tt ! v ! j)"
  using assms
proof (induction n arbitrary: tt' onset')
  case 0
  then show ?case by (auto simp: store_column_def)
next
  case (Suc n)
  obtain tt1 on1 where 1: "store_column base n i out (tt, onset) = (tt1, on1)"
    by (cases "store_column base n i out (tt, onset)")
  have eq: "tt' = tt1[base + n := (tt1 ! (base + n))[i := bit out n]]"
    using 1 Suc.prems(1) by (simp add: store_column_def)
  note len = store_column_len [OF 1]
  have IH: "tt1 ! v ! j = (if j = i \<and> base \<le> v \<and> v < base + n then bit out (v - base) else tt ! v ! j)"
    using Suc.IH [OF 1] Suc.prems by simp
  show ?case
  proof (cases "v = base + n")
    case True
    then show ?thesis using IH len Suc.prems by (simp add: eq nth_list_update)
  next
    case False
    then show ?thesis using IH by (auto simp: eq)
  qed
qed

lemma store_column_onset:
  assumes "store_column base n i out (tt, onset) = (tt', onset')" and "i < length onset"
  shows "onset' = onset[i := onset ! i + length (filter (bit out) [0..<n])]"
  using assms
proof (induction n arbitrary: tt' onset')
  case 0
  then show ?case by (simp add: store_column_def)
next
  case (Suc n)
  obtain tt1 on1 where 1: "store_column base n i out (tt, onset) = (tt1, on1)"
    by (cases "store_column base n i out (tt, onset)")
  have "onset' = (if bit out n then on1[i := Suc (on1 ! i)] else on1)"
    using 1 Suc.prems(1) by (simp add: store_column_def)
  then show ?case using Suc.IH [OF 1] Suc.prems(2) by auto
qed

text \<open>
  A table filled with the values \<open>B v j\<close> for the patterns \<open>v < n\<close>, of \<open>N\<close> patterns and \<open>K\<close> outputs.
\<close>

definition filled :: "(nat \<Rightarrow> nat \<Rightarrow> bool) \<Rightarrow> nat \<Rightarrow> nat \<Rightarrow> nat \<Rightarrow> tt_state \<Rightarrow> bool" where
  "filled B n N K s \<longleftrightarrow>
     length (fst s) = N \<and> (\<forall>v < N. length (fst s ! v) = K) \<and>
     (\<forall>v < n. \<forall>j < K. fst s ! v ! j = B v j) \<and>
     snd s = map (\<lambda>j. length (filter (\<lambda>v. B v j) [0..<n])) [0..<K]"

lemma filter_block:
  "length (filter (\<lambda>v. P v) [0..<base + n]) =
   length (filter P [0..<base]) + length (filter (\<lambda>i. P (base + i)) [0..<n])"
proof -
  have "[0..<base + n] = [0..<base] @ map (\<lambda>i. base + i) [0..<n]"
    by (induction n) simp_all
  then show ?thesis by (simp add: filter_map o_def)
qed

lemma store_outputs_correct:
  assumes fil: "filled B base N K s" and base: "base + len \<le> N"
    and K: "K = length (m_gate m OUTPUT)"
    and get: "\<And>i. i < K \<Longrightarrow> \<exists>w m'. getResult (m_gate m INPUT) pv h n (m_gate m OUTPUT ! i) Map.empty
        = Inr (w, m') \<and> (\<forall>l < len. bit w l = B (base + l) i)"
  shows "\<exists>s'. store_outputs n m h base len pv (Map.empty, s) = Inr (Map.empty, s') \<and>
           filled B (base + len) N K s'"
proof -
  define P where "P k t \<longleftrightarrow> length (fst t) = N \<and> (\<forall>v < N. length (fst t ! v) = K) \<and>
     (\<forall>v < base. \<forall>j < K. fst t ! v ! j = B v j) \<and>
     (\<forall>v. base \<le> v \<longrightarrow> v < base + len \<longrightarrow> (\<forall>j < k. fst t ! v ! j = B v j)) \<and>
     snd t = map (\<lambda>j. length (filter (\<lambda>v. B v j) [0..<(if j < k then base + len else base)])) [0..<K]"
     for k :: nat and t :: tt_state
  let ?f = "\<lambda>i (recordMap, tts).
       rbind (getResult (m_gate m INPUT) pv h n (m_gate m OUTPUT ! i) recordMap)
         (\<lambda>(out, _). Inr (Map.empty, store_column base len i out tts))"
  have "\<exists>t. rfold ?f [0..<k] (Map.empty, s) = Inr (Map.empty, t) \<and> P k t" if "k \<le> K" for k
    using that
  proof (induction k)
    case 0
    then show ?case using fil by (simp add: P_def filled_def)
  next
    case (Suc k)
    then obtain tt on where t: "rfold ?f [0..<k] (Map.empty, s) = Inr (Map.empty, (tt, on))" "P k (tt, on)"
      by auto
    obtain w m' where w: "getResult (m_gate m INPUT) pv h n (m_gate m OUTPUT ! k) Map.empty = Inr (w, m')"
      "\<forall>l < len. bit w l = B (base + l) k" using get [of k] Suc.prems by auto
    obtain tt' on' where col: "store_column base len k w (tt, on) = (tt', on')"
      by (cases "store_column base len k w (tt, on)")
    have lens: "length tt = N" "\<forall>v < N. length (tt ! v) = K" "length on = K"
      using t(2) by (auto simp: P_def)
    note cells = store_column_cells [OF col] and clen = store_column_len [OF col]
    have on': "on' = on[k := on ! k + length (filter (bit w) [0..<len])]"
      using store_column_onset [OF col] lens Suc.prems by simp
    have cnt: "length (filter (bit w) [0..<len]) = length (filter (\<lambda>i. B (base + i) k) [0..<len])"
      using w(2) by (intro arg_cong [of _ _ length] filter_cong) auto
    have "P (Suc k) (tt', on')"
      unfolding P_def
    proof (intro conjI allI impI)
      show "length (fst (tt', on')) = N" using clen lens by simp
      show "length (fst (tt', on') ! v) = K" if "v < N" for v using clen lens that by simp
      show "fst (tt', on') ! v ! j = B v j" if "v < base" "j < K" for v j
        using cells [of v j] t(2) lens base that by (simp add: P_def)
      show "fst (tt', on') ! v ! j = B v j" if "base \<le> v" "v < base + len" "j < Suc k" for v j
        using cells [of v j] t(2) lens base that Suc.prems w(2) [rule_format, of "v - base"]
        by (auto simp: P_def less_Suc_eq)
      show "snd (tt', on') = map (\<lambda>j. length (filter (\<lambda>v. B v j)
          [0..<(if j < Suc k then base + len else base)])) [0..<K]"
        using t(2) Suc.prems
        by (intro nth_equalityI) (auto simp: P_def on' cnt filter_block nth_list_update lens less_Suc_eq)
    qed
    then show ?case using t(1) w(1) col by (simp add: rfold_append)
  qed
  from this [of K] obtain t where "rfold ?f [0..<K] (Map.empty, s) = Inr (Map.empty, t)" "P K t" by auto
  moreover from this(2) have "filled B (base + len) N K t"
    unfolding P_def filled_def by (auto cong: map_cong) (metis leI)+
  ultimately show ?thesis by (auto simp: store_outputs_def K)
qed

section \<open>\<open>truthTable_new\<close>\<close>

lemma getResult_pattern:
  assumes wf: "module_wf h m r" and ok: "\<forall>x \<in> set (m_netlist m). n_type (h x) \<noteq> INPUT \<longrightarrow>
      get_ok (n_type (h x)) (n_inv (h x))"
    and a: "a \<in> set (m_netlist m)" and n: "r a < n"
    and B: "\<And>v. evals h (asg (m_gate m INPUT) v) a (B v)"
    and lanes: "\<And>k i. k < length (m_gate m INPUT) \<Longrightarrow> i < len \<Longrightarrow>
        bit (pv (m_gate m INPUT ! k)) i \<longleftrightarrow> bit (base + i) k"
    and len: "len \<le> 8192"
  shows "\<exists>w m'. getResult (m_gate m INPUT) pv h n a Map.empty = Inr (w, m') \<and>
           (\<forall>l < len. bit w l = B (base + l))"
proof -
  let ?leaf = "\<lambda>g. pv (m_gate m INPUT ! nat (n_idx (h g)))"
  have net: "net_wf h (set (m_netlist m)) r" using wf by (simp add: module_wf_def)
  obtain w m' where w: "simGet getResult_op ?leaf h n a Map.empty = Inr (w, m')"
    "\<forall>i < 8192. evals h (lane_asg i ?leaf) a (bit w i)"
    using get.simGet_correct [OF net _ a n get.memo_ok_empty] ok by blast
  have "bit w l = B (base + l)" if l: "l < len" for l
  proof -
    have "lane_asg l ?leaf x = asg (m_gate m INPUT) (base + l) x"
      if x: "x \<in> set (m_netlist m)" "n_type (h x) = INPUT" for x
    proof -
      have "x \<in> set (m_gate m INPUT)" using wf x by (auto simp: module_wf_def)
      then obtain k where k: "k < length (m_gate m INPUT)" "m_gate m INPUT ! k = x"
        by (auto simp: in_set_conv_nth)
      then have "n_idx (h x) = int k" using wf by (auto simp: module_wf_def)
      moreover have "distinct (m_gate m INPUT)" using wf by (simp add: module_wf_def)
      ultimately show ?thesis using k lanes [OF k(1) l] asg_nth [of "m_gate m INPUT" k "base + l"]
        by (auto simp: lane_asg_def)
    qed
    moreover have "evals h (lane_asg l ?leaf) a (bit w l)" using w(2) l len by simp
    ultimately have "evals h (asg (m_gate m INPUT) (base + l)) a (bit w l)"
      using evals_cong [OF net a] by blast
    then show ?thesis using B evals_det by blast
  qed
  then show ?thesis using w(1) by (auto simp: getResult_def)
qed

lemma filled_tt_ok:
  assumes fil: "filled B N N (length (m_gate m OUTPUT)) (tt, onset)"
    and N: "N = 2 ^ length (m_gate m INPUT)"
    and B: "\<And>v j. j < length (m_gate m OUTPUT) \<Longrightarrow> evals h (asg (m_gate m INPUT) v) (m_gate m OUTPUT ! j) (B v j)"
  shows "tt_ok h m tt" and "onset_ok m tt onset"
proof -
  show ok: "tt_ok h m tt"
    using fil N B by (auto simp: tt_ok_def filled_def list_all2_conv_all_nth)
  have "tt = map ((!) tt) [0..<N]" using fil map_nth [of tt] by (simp add: filled_def)
  then have "length (filter (\<lambda>row. row ! j) tt) = length (filter (\<lambda>v. B v j) [0..<N])"
    if "j < length (m_gate m OUTPUT)" for j
  proof -
    have "length (filter (\<lambda>row. row ! j) tt) = length (filter (\<lambda>row. row ! j) (map ((!) tt) [0..<N]))"
      using \<open>tt = map ((!) tt) [0..<N]\<close> by simp
    also have "\<dots> = length (filter (\<lambda>v. tt ! v ! j) [0..<N])" by (simp add: filter_map o_def)
    also have "\<dots> = length (filter (\<lambda>v. B v j) [0..<N])"
      using fil that by (intro arg_cong [of _ _ length] filter_cong) (auto simp: filled_def)
    finally show ?thesis .
  qed
  then show "onset_ok m tt onset" using fil by (auto simp: onset_ok_def filled_def)
qed

lemma blocks_correct:
  assumes get: "\<And>t i pv. i < length (m_gate m OUTPUT) \<Longrightarrow> \<exists>w m'. getResult (m_gate m INPUT)
        (fill_block (m_gate m INPUT) (8192 * t) 8192 pv) h n (m_gate m OUTPUT ! i) Map.empty
        = Inr (w, m') \<and> (\<forall>l < 8192. bit w l = B (8192 * t + l) i)"
    and fil: "filled B 0 N (length (m_gate m OUTPUT)) s" and T: "8192 * T \<le> N"
  shows "\<exists>pv' s'. rfold (\<lambda>times (pv, ms).
           let pv = fill_block (m_gate m INPUT) (8192 * times) 8192 pv
           in rbind (store_outputs n m h (8192 * times) 8192 pv ms) (\<lambda>ms. Inr (pv, ms)))
         [0..<T] (pv, Map.empty, s) = Inr (pv', Map.empty, s') \<and>
         filled B (8192 * T) N (length (m_gate m OUTPUT)) s'"
  using T
proof (induction T)
  case 0
  then show ?case using fil by simp
next
  case (Suc T)
  let ?f = "\<lambda>times (pv, ms). let pv = fill_block (m_gate m INPUT) (8192 * times) 8192 pv
           in rbind (store_outputs n m h (8192 * times) 8192 pv ms) (\<lambda>ms. Inr (pv, ms))"
  obtain pv1 s1 where 1: "rfold ?f [0..<T] (pv, Map.empty, s) = Inr (pv1, Map.empty, s1)"
    "filled B (8192 * T) N (length (m_gate m OUTPUT)) s1"
    using Suc by auto
  have "\<exists>s2. store_outputs n m h (8192 * T) 8192
      (fill_block (m_gate m INPUT) (8192 * T) 8192 pv1) (Map.empty, s1) = Inr (Map.empty, s2) \<and>
    filled B (8192 * T + 8192) N (length (m_gate m OUTPUT)) s2"
    by (rule store_outputs_correct [OF 1(2) _ refl]) (use get Suc.prems in auto)
  then obtain s2 where "store_outputs n m h (8192 * T) 8192
      (fill_block (m_gate m INPUT) (8192 * T) 8192 pv1) (Map.empty, s1) = Inr (Map.empty, s2)"
    "filled B (8192 * Suc T) N (length (m_gate m OUTPUT)) s2"
    by (auto simp: add.commute simp del: split_paired_Ex)
  then show ?case using 1(1) by (auto simp: rfold_append Let_def)
qed

lemma truthTable_new_correct_aux:
  assumes wf: "module_wf h m r" and fuel: "\<forall>x \<in> set (m_gate m OUTPUT). r x < n"
    and ok: "\<forall>x \<in> set (m_netlist m). n_type (h x) \<noteq> INPUT \<longrightarrow> get_ok (n_type (h x)) (n_inv (h x))"
  shows "\<exists>tt onset. truthTable_new n m h pv0 Map.empty =
           Inr (tt, onset, OSV_of (length (m_gate m INPUT)) (length (m_gate m OUTPUT)) tt) \<and>
         tt_ok h m tt \<and> onset_ok m tt onset"
proof -
  let ?I = "m_gate m INPUT" and ?O = "m_gate m OUTPUT"
  let ?N = "2 ^ length ?I :: nat" and ?K = "length ?O"
  let ?tts = "(replicate ?N (replicate ?K False), replicate ?K 0) :: tt_state"
  have sub: "?O ! j \<in> set (m_netlist m) \<and> r (?O ! j) < n" if "j < ?K" for j
    using wf fuel nth_mem [OF that] by (auto simp: module_wf_def simp del: nth_mem)
  have d: "distinct ?I" using wf by (simp add: module_wf_def)
  have "\<forall>v j. \<exists>b. j < ?K \<longrightarrow> evals h (asg ?I v) (?O ! j) b"
    using evals_total [of h "set (m_netlist m)" r] wf sub unfolding module_wf_def by blast
  then obtain B where "\<forall>v j. j < ?K \<longrightarrow> evals h (asg ?I v) (?O ! j) (B v j)" by metis
  then have B: "\<And>v j. j < ?K \<Longrightarrow> evals h (asg ?I v) (?O ! j) (B v j)" by blast
  have get: "\<exists>w m'. getResult ?I (fill_block ?I base len pv) h n (?O ! i) Map.empty = Inr (w, m') \<and>
      (\<forall>l < len. bit w l = B (base + l) i)" if "i < ?K" "len \<le> 8192" for base len pv i
    by (rule getResult_pattern [OF wf ok]) (use sub B fill_block_lanes [OF d] that in auto)
  have fil0: "filled B 0 ?N ?K ?tts" by (simp add: filled_def map_replicate_const)
  define pv where "pv = fold (\<lambda>it pv. pv(it := 0)) ?I pv0"
  show ?thesis
  proof (cases "length ?I \<le> 13")
    case True
    then have N: "?N \<le> 8192" using power_increasing [of "length ?I" 13 "2::nat"] by simp
    have "\<exists>s'. store_outputs n m h 0 ?N (fill_block ?I 0 ?N pv) (Map.empty, ?tts)
        = Inr (Map.empty, s') \<and> filled B (0 + ?N) ?N ?K s'"
      by (rule store_outputs_correct [OF fil0 _ refl]) (use get [OF _ N, of _ 0] in auto)
    then obtain tt onset where s: "store_outputs n m h 0 ?N (fill_block ?I 0 ?N pv) (Map.empty, ?tts)
        = Inr (Map.empty, (tt, onset))" "filled B ?N ?N ?K (tt, onset)"
      by auto
    then show ?thesis using True filled_tt_ok [OF s(2) refl B]
      by (auto simp: truthTable_new_def Let_def pv_def)
  next
    case False
    then obtain e where e: "length ?I = 13 + e" by (metis le_add_diff_inverse nat_le_linear)
    then have N: "8192 * (?N div 8192) = ?N" by (simp add: power_add)
    have "\<exists>pv' s'. rfold (\<lambda>times (pv, ms).
           let pv = fill_block ?I (8192 * times) 8192 pv
           in rbind (store_outputs n m h (8192 * times) 8192 pv ms) (\<lambda>ms. Inr (pv, ms)))
         [0..<?N div 8192] (pv, Map.empty, ?tts) = Inr (pv', Map.empty, s') \<and>
         filled B (8192 * (?N div 8192)) ?N ?K s'"
      by (rule blocks_correct [OF _ fil0]) (use get N in auto)
    then obtain pv' tt onset where s: "rfold (\<lambda>times (pv, ms).
           let pv = fill_block ?I (8192 * times) 8192 pv
           in rbind (store_outputs n m h (8192 * times) 8192 pv ms) (\<lambda>ms. Inr (pv, ms)))
         [0..<?N div 8192] (pv, Map.empty, ?tts) = Inr (pv', Map.empty, (tt, onset))"
         "filled B ?N ?N ?K (tt, onset)"
      unfolding N by auto
    then show ?thesis using False N filled_tt_ok [OF s(2) refl B]
      by (auto simp: truthTable_new_def Let_def pv_def tail_patterns_def)
  qed
qed

end
