(* ===== verification/Miter_Random.thy ===== *)
theory Miter_Random
  imports Truth_Words
begin

text \<open>
  \<open>miterOneOutputRandom\<close> of \<open>miter.cpp\<close>: given a matching of the inputs of circuit 2 to inputs
  of circuit 1 (with negations) and to constants, are one output of each circuit equal (1), equal
  up to a negation (2) or neither (0)? Fewer than 18 matched inputs of circuit 1 are enumerated in
  blocks of 8192 patterns; otherwise 30 blocks of random patterns are tried.

  Two things the code uses are parameters: \<open>ord\<close>, the order in which an \<open>unordered_set\<close> of nodes
  is iterated, and \<open>rnd\<close>, the sequence \<open>rand()\<close> yields after \<open>srand(0)\<close>.
\<close>

section \<open>The definitions\<close>

type_synonym pivalue = "addr \<Rightarrow> bitset"

text \<open>A matched pair, with its nodes looked up: node of circuit 2, node of circuit 1, negated?\<close>

type_synonym wire = "addr \<times> addr \<times> bool"

definition lookup_wires :: "addr list \<Rightarrow> addr list \<Rightarrow> (int \<times> int) list \<Rightarrow> bool list \<Rightarrow> wire list res" where
  "lookup_wires input1 input2 pairs negs =
     rfold (\<lambda>i ws. rbind (vget pairs i) (\<lambda>(c2, c1).
        rbind (vget input2 c2) (\<lambda>b. rbind (vget input1 c1) (\<lambda>a. rbind (vget negs i) (\<lambda>ng.
        Inr (ws @ [(b, a, ng)])))))) (map int [0..<length pairs]) []"

text \<open>The pattern words at the start: 0 everywhere, then the constants.\<close>

definition assign_consts :: "addr list \<Rightarrow> (bool \<times> int) list \<Rightarrow> pivalue \<Rightarrow> pivalue res" where
  "assign_consts input2 const_match pv =
     rfold (\<lambda>(c, port) pv. rbind (vget input2 port) (\<lambda>b. Inr (pv(b := if c then not 0 else 0))))
       const_match pv"

text \<open>The set of circuit 1 inputs that are matched, in the order of first insertion.\<close>

definition c1_inputs :: "wire list \<Rightarrow> addr list" where
  "c1_inputs ws = fold (\<lambda>(b, a, ng) s. if a \<in> set s then s else s @ [a]) ws []"

definition copy_wires :: "wire list \<Rightarrow> pivalue \<Rightarrow> pivalue" where
  "copy_wires ws pv = fold (\<lambda>(b, a, ng) pv. pv(b := if ng then not (pv a) else pv a)) ws pv"

text \<open>
  The comparison after each block: equal, complementary or neither, against what the blocks before
  it were. \<open>None\<close> is \<open>return 0\<close>.
\<close>

definition verdict :: "nat \<Rightarrow> bitset \<Rightarrow> bitset \<Rightarrow> nat option" where
  "verdict ty c1_out c2_out =
     (if c1_out = c2_out then (if ty = 0 then Some 1 else if ty \<noteq> 1 then None else Some ty)
      else if c1_out = not c2_out then (if ty = 0 then Some 2 else if ty \<noteq> 2 then None else Some ty)
      else None)"

text \<open>The loop over blocks; \<open>prep\<close> prepares the patterns of a block.\<close>

fun blocks :: "(nat \<Rightarrow> 's \<Rightarrow> pivalue \<times> 's) \<Rightarrow> (pivalue \<Rightarrow> (bitset \<times> bitset) res) \<Rightarrow>
    nat list \<Rightarrow> 's \<Rightarrow> nat \<Rightarrow> nat res" where
  "blocks prep sim [] s ty = Inr ty"
| "blocks prep sim (t # ts) s ty =
     (let (pv, s') = prep t s
      in rbind (sim pv) (\<lambda>(c1_out, c2_out).
           case verdict ty c1_out c2_out of
             None \<Rightarrow> Inr 0
           | Some ty' \<Rightarrow> blocks prep sim ts s' ty'))"

definition prep_exhaustive :: "wire list \<Rightarrow> addr list \<Rightarrow> nat \<Rightarrow> nat \<Rightarrow> pivalue \<Rightarrow> pivalue \<times> pivalue" where
  "prep_exhaustive ws cs end_index t pv =
     (let pv' = copy_wires ws (fill_block cs (8192 * t) end_index pv) in (pv', pv'))"

text \<open>
  One block of random patterns: an input of circuit 1 gets fresh bits the first time a pair names
  it, written together with its partner; later pairs copy it.
\<close>

definition random_lane :: "(nat \<Rightarrow> nat) \<Rightarrow> addr \<Rightarrow> addr \<Rightarrow> bool \<Rightarrow> nat \<Rightarrow> pivalue \<times> nat \<Rightarrow> pivalue \<times> nat" where
  "random_lane rnd b a ng idx s =
     (let (pv, k) = s; val = odd (rnd k); pv = pv(a := set_lane idx val (pv a))
      in (pv(b := set_lane idx (if ng then \<not> val else val) (pv b)), Suc k))"

definition random_wire :: "(nat \<Rightarrow> nat) \<Rightarrow> addr \<Rightarrow> addr \<Rightarrow> bool \<Rightarrow> pivalue \<times> nat \<Rightarrow> pivalue \<times> nat" where
  "random_wire rnd b a ng s = fold (random_lane rnd b a ng) [0..<8192] s"

definition random_wires :: "(nat \<Rightarrow> nat) \<Rightarrow> wire list \<Rightarrow> pivalue \<times> nat \<Rightarrow> addr list \<times> pivalue \<times> nat" where
  "random_wires rnd ws s =
     fold (\<lambda>(b, a, ng) (seen, pv, k).
        if a \<in> set seen then (seen, pv(b := if ng then not (pv a) else pv a), k)
        else (let (pv, k) = random_wire rnd b a ng (pv, k) in (seen @ [a], pv, k))) ws ([], s)"

definition prep_random :: "(nat \<Rightarrow> nat) \<Rightarrow> wire list \<Rightarrow> nat \<Rightarrow> pivalue \<times> nat \<Rightarrow> pivalue \<times> pivalue \<times> nat" where
  "prep_random rnd ws t s = (let (seen, pv, k) = random_wires rnd ws s in (pv, pv, k))"

definition simulate_pair :: "(addr \<Rightarrow> node) \<Rightarrow> nat \<Rightarrow> addr \<Rightarrow> addr \<Rightarrow> pivalue \<Rightarrow> (bitset \<times> bitset) res" where
  "simulate_pair h n o1 o2 pv =
     rbind (miterRandomSimulate pv h n o1) (\<lambda>c1_out.
     rbind (miterRandomSimulate pv h n o2) (\<lambda>c2_out. Inr (c1_out, c2_out)))"

definition miterOneOutputRandom :: "(addr list \<Rightarrow> addr list) \<Rightarrow> (nat \<Rightarrow> nat) \<Rightarrow> (addr \<Rightarrow> node) \<Rightarrow> nat \<Rightarrow>
    addr list \<Rightarrow> addr list \<Rightarrow> addr list \<Rightarrow> addr list \<Rightarrow>
    (int \<times> int) list \<Rightarrow> bool list \<Rightarrow> int \<times> int \<Rightarrow> (bool \<times> int) list \<Rightarrow> nat res" where
  "miterOneOutputRandom ord rnd h n input1 input2 output1 output2 pairs negs out_pair const_match =
     rbind (assign_consts input2 const_match (\<lambda>_. 0)) (\<lambda>pv.
     rbind (lookup_wires input1 input2 pairs negs) (\<lambda>ws.
     rbind (vget output1 (snd out_pair)) (\<lambda>o1.
     rbind (vget output2 (fst out_pair)) (\<lambda>o2.
       let c1_set = c1_inputs ws; c1_input_size = length c1_set
       in if c1_input_size < 18 then
            let input_pattern_size = 2 ^ c1_input_size :: nat;
                end_index = (if c1_input_size \<le> 13 then 2 ^ c1_input_size else 8192)
            in blocks (prep_exhaustive ws (ord c1_set) end_index) (simulate_pair h n o1 o2)
                 [0..<Suc (drop_bit 13 input_pattern_size)] pv 0
          else blocks (prep_random rnd ws) (simulate_pair h n o1 o2) [0..<30] (pv, 0) 0))))"

section \<open>What the miter decides\<close>

definition partners :: "wire list \<Rightarrow> addr set" where
  "partners ws = {a. \<exists>b ng. (b, a, ng) \<in> set ws}"

lemma partners_simps [simp]:
  "partners [] = {}" "partners ((b, a, ng) # ws) = insert a (partners ws)"
  "partners (ws @ vs) = partners ws \<union> partners vs"
  by (auto simp: partners_def)

text \<open>
  The assignment a matching induces on all inputs when the matched inputs of circuit 1 carry \<open>\<sigma>\<close>:
  a matched input of circuit 2 follows its partner, a constant one its constant, and every other
  input is 0.
\<close>

definition consts_of :: "addr list \<Rightarrow> (bool \<times> int) list \<Rightarrow> (addr \<times> bool) list" where
  "consts_of input2 const_match = map (\<lambda>(c, port). (input2 ! nat port, c)) const_match"

definition wires_of :: "addr list \<Rightarrow> addr list \<Rightarrow> (int \<times> int) list \<Rightarrow> bool list \<Rightarrow> wire list" where
  "wires_of input1 input2 pairs negs =
     map (\<lambda>i. (input2 ! nat (fst (pairs ! i)), input1 ! nat (snd (pairs ! i)), negs ! i)) [0..<length pairs]"

definition match_asg :: "wire list \<Rightarrow> (addr \<times> bool) list \<Rightarrow> (addr \<Rightarrow> bool) \<Rightarrow> addr \<Rightarrow> bool" where
  "match_asg ws cs \<sigma> x =
     (case map_of (rev ws) x of
        Some (a, ng) \<Rightarrow> (\<sigma> a \<noteq> ng)
      | None \<Rightarrow> (case map_of (rev cs) x of
          Some c \<Rightarrow> c
        | None \<Rightarrow> x \<in> partners ws \<and> \<sigma> x))"

definition outputs_agree :: "(addr \<Rightarrow> node) \<Rightarrow> wire list \<Rightarrow> (addr \<times> bool) list \<Rightarrow> addr \<Rightarrow> addr \<Rightarrow> bool \<Rightarrow> bool" where
  "outputs_agree h ws cs o1 o2 neg \<longleftrightarrow>
     (\<forall>\<sigma> b1 b2. evals h (match_asg ws cs \<sigma>) o1 b1 \<longrightarrow> evals h (match_asg ws cs \<sigma>) o2 b2 \<longrightarrow> (b2 = (b1 \<noteq> neg)))"

text \<open>What the code relies on when it calls the miter.\<close>

definition miter_args_ok :: "addr list \<Rightarrow> addr list \<Rightarrow> addr list \<Rightarrow> addr list \<Rightarrow>
    (int \<times> int) list \<Rightarrow> bool list \<Rightarrow> int \<times> int \<Rightarrow> (bool \<times> int) list \<Rightarrow> bool" where
  "miter_args_ok input1 input2 output1 output2 pairs negs out_pair const_match \<longleftrightarrow>
     set input1 \<inter> set input2 = {} \<and> length negs = length pairs \<and>
     (\<forall>(c2, c1) \<in> set pairs. in_range input2 c2 \<and> in_range input1 c1) \<and>
     (\<forall>(c, port) \<in> set const_match. in_range input2 port) \<and>
     in_range output1 (snd out_pair) \<and> in_range output2 (fst out_pair)"

definition sim_ready :: "(addr \<Rightarrow> node) \<Rightarrow> addr set \<Rightarrow> (addr \<Rightarrow> nat) \<Rightarrow> nat \<Rightarrow> bool" where
  "sim_ready h A r n \<longleftrightarrow> net_wf h A r \<and> (\<forall>x \<in> A. r x < n) \<and>
     (\<forall>x \<in> A. n_type (h x) \<noteq> INPUT \<longrightarrow> miter_ok (n_type (h x)) (n_inv (h x)))"

text \<open>An iteration order of a set of nodes.\<close>

definition iteration_order :: "(addr list \<Rightarrow> addr list) \<Rightarrow> bool" where
  "iteration_order ord \<longleftrightarrow> (\<forall>xs. distinct xs \<longrightarrow> distinct (ord xs) \<and> set (ord xs) = set xs)"

section \<open>Setting up the words\<close>

lemma assign_consts_ok:
  assumes "\<forall>(c, port) \<in> set cm. in_range input2 port"
  shows "assign_consts input2 cm pv = Inr (fold (\<lambda>(b, c) pv. pv(b := if c then not 0 else 0)) (consts_of input2 cm) pv)"
  using assms
  by (induction cm arbitrary: pv) (auto simp: assign_consts_def consts_of_def split: prod.splits)

lemma fold_consts_apply:
  "fold (\<lambda>(b, c) pv. pv(b := f c)) cs pv x = (case map_of (rev cs) x of Some c \<Rightarrow> f c | None \<Rightarrow> pv x)"
  by (induction cs rule: rev_induct) auto

lemma lookup_wires_ok:
  assumes "\<forall>(c2, c1) \<in> set pairs. in_range input2 c2 \<and> in_range input1 c1" and "length negs = length pairs"
  shows "lookup_wires input1 input2 pairs negs = Inr (wires_of input1 input2 pairs negs)"
proof -
  have "n \<le> length pairs \<Longrightarrow> rfold (\<lambda>i ws. rbind (vget pairs i) (\<lambda>(c2, c1).
        rbind (vget input2 c2) (\<lambda>b. rbind (vget input1 c1) (\<lambda>a. rbind (vget negs i) (\<lambda>ng.
        Inr (ws @ [(b, a, ng)])))))) (map int [0..<n]) [] =
      Inr (map (\<lambda>i. (input2 ! nat (fst (pairs ! i)), input1 ! nat (snd (pairs ! i)), negs ! i)) [0..<n])" for n
  proof (induction n)
    case 0
    then show ?case by simp
  next
    case (Suc n)
    then have "pairs ! n \<in> set pairs" by simp
    with Suc assms show ?case by (cases "pairs ! n") (auto simp: rfold_append)
  qed
  then show ?thesis by (simp add: lookup_wires_def wires_of_def)
qed

lemma c1_inputs_facts: "distinct (c1_inputs ws)" "set (c1_inputs ws) = partners ws"
proof -
  have "distinct s \<Longrightarrow> distinct (fold (\<lambda>(b, a, ng) s. if a \<in> set s then s else s @ [a]) ws s) \<and>
      set (fold (\<lambda>(b, a, ng) s. if a \<in> set s then s else s @ [a]) ws s) = set s \<union> partners ws" for s
  proof (induction ws arbitrary: s)
    case Nil
    then show ?case by simp
  next
    case (Cons w ws)
    obtain b a ng where "w = (b, a, ng)" by (cases w)
    with Cons show ?case by (cases "a \<in> set s") auto
  qed
  from this [of "[]"] show "distinct (c1_inputs ws)" "set (c1_inputs ws) = partners ws"
    by (simp_all add: c1_inputs_def)
qed

text \<open>No input is on both sides of a matching.\<close>

definition two_sided :: "wire list \<Rightarrow> bool" where
  "two_sided ws \<longleftrightarrow> fst ` set ws \<inter> partners ws = {}"

lemma copy_wires_apply:
  assumes "two_sided ws"
  shows "copy_wires ws pv x =
    (case map_of (rev ws) x of Some (a, ng) \<Rightarrow> if ng then not (pv a) else pv a | None \<Rightarrow> pv x)"
  using assms
proof (induction ws arbitrary: x rule: rev_induct)
  case Nil
  then show ?case by (simp add: copy_wires_def)
next
  case (snoc w ws)
  obtain b a ng where w: "w = (b, a, ng)" by (cases w)
  have ts: "two_sided ws" using snoc.prems by (auto simp: two_sided_def)
  have "a \<notin> fst ` set ws" using snoc.prems by (auto simp: two_sided_def w)
  then have "map_of (rev ws) a = None" by (simp add: map_of_eq_None_iff)
  then have "copy_wires ws pv a = pv a" using snoc.IH [OF ts] by simp
  then show ?case using snoc.IH [OF ts] by (simp add: copy_wires_def w)
qed

end
