(* ===== verification/Miter_Correct.thy ===== *)
theory Miter_Correct
  imports Miter_Random
begin

text \<open>
  Correctness of the random/exhaustive miter: with fewer than 18 matched inputs the answer is
  exact, and in every case two outputs that agree are never rejected.
\<close>

section \<open>The loop over blocks\<close>

lemma word_eq_lanes: "(w1 :: bitset) = w2 \<longleftrightarrow> (\<forall>i < 8192. bit w1 i = bit w2 i)"
proof
  assume "\<forall>i < 8192. bit w1 i = bit w2 i"
  then show "w1 = w2" by (intro bit_word_eqI) simp
qed simp

lemma word_not_lanes: "(w1 :: bitset) = not w2 \<longleftrightarrow> (\<forall>i < 8192. bit w1 i = (\<not> bit w2 i))"
  by (simp add: word_eq_lanes)

lemma word_neq_not: "(w :: bitset) \<noteq> not w"
  unfolding word_not_lanes by (auto intro: exI [of _ "0 :: nat"])

text \<open>A simulation step whose outcome in block \<open>t\<close> is determined: equal iff \<open>E t\<close>, complementary iff \<open>N t\<close>.\<close>

lemma blocks_exact:
  assumes "I s"
    and step: "\<And>t s. t \<in> set ts \<Longrightarrow> I s \<Longrightarrow> \<exists>pv s' w1 w2. prep t s = (pv, s') \<and> I s' \<and>
       sim pv = Inr (w1, w2) \<and> (w1 = w2 \<longleftrightarrow> E t) \<and> (w1 = not w2 \<longleftrightarrow> N t)"
  shows "(ty = 0 \<longrightarrow> ts \<noteq> [] \<longrightarrow> blocks prep sim ts s ty =
             Inr (if \<forall>t \<in> set ts. E t then 1 else if \<forall>t \<in> set ts. N t then 2 else 0)) \<and>
         (ty = 1 \<longrightarrow> blocks prep sim ts s ty = Inr (if \<forall>t \<in> set ts. E t then 1 else 0)) \<and>
         (ty = 2 \<longrightarrow> blocks prep sim ts s ty = Inr (if \<forall>t \<in> set ts. N t then 2 else 0))"
  using assms
proof (induction ts arbitrary: s ty)
  case Nil
  then show ?case by simp
next
  case (Cons t ts)
  obtain pv s' w1 w2 where 1: "prep t s = (pv, s')" "I s'" "sim pv = Inr (w1, w2)"
    "w1 = w2 \<longleftrightarrow> E t" "w1 = not w2 \<longleftrightarrow> N t"
    using Cons.prems(2) [of t s] Cons.prems(1) by auto
  have ex: "\<not> (E t \<and> N t)" using 1(4,5) word_neq_not by blast
  note IH = Cons.IH [OF 1(2) Cons.prems(2)]
  have IH1: "blocks prep sim ts s' 1 = Inr (if \<forall>t \<in> set ts. E t then 1 else 0)"
    and IH2: "blocks prep sim ts s' 2 = Inr (if \<forall>t \<in> set ts. N t then 2 else 0)"
    using IH [of 1] IH [of 2] by simp_all
  consider "E t" "\<not> N t" | "\<not> E t" "N t" | "\<not> E t" "\<not> N t" using ex by blast
  then show ?case
    by cases (use 1 IH1 IH2 in \<open>simp_all add: verdict_def\<close>)
qed

lemma blocks_all:
  assumes "I s" and "ts \<noteq> []" and "ty = 0 \<or> ty = (if neg then 2 else 1)"
    and step: "\<And>t s. I s \<Longrightarrow> \<exists>pv s' w. prep t s = (pv, s') \<and> I s' \<and>
       sim pv = Inr (w, if neg then not w else w)"
  shows "blocks prep sim ts s ty = Inr (if neg then 2 else 1)"
  using assms(1-3)
proof (induction ts arbitrary: s ty)
  case Nil
  then show ?case by simp
next
  case (Cons t ts)
  obtain pv s' w where 1: "prep t s = (pv, s')" "I s'" "sim pv = Inr (w, if neg then not w else w)"
    using step [OF Cons.prems(1)] by blast
  have v: "verdict ty w (if neg then not w else w) = Some (if neg then 2 else 1)"
    using Cons.prems(3) word_neq_not [of w] by (cases neg) (auto simp: verdict_def)
  show ?case
  proof (cases "ts = []")
    case True
    then show ?thesis using 1 v by simp
  next
    case False
    then show ?thesis using Cons.IH [OF 1(2) False] 1 v by simp
  qed
qed

section \<open>Simulating both outputs\<close>

lemma miterRandomSimulate_lanes:
  assumes "sim_ready h A r n" and "a \<in> A"
  shows "\<exists>w. miterRandomSimulate pv h n a = Inr w \<and> (\<forall>i < 8192. evals h (lane_asg i pv) a (bit w i))"
proof -
  have net: "net_wf h A r" and ra: "r a < n" and ok: "\<And>x. x \<in> A \<Longrightarrow> n_type (h x) \<noteq> INPUT \<Longrightarrow>
      miter_ok (n_type (h x)) (n_inv (h x))"
    using assms by (auto simp: sim_ready_def)
  from mit.simGet_correct [OF net ok assms(2) ra mit.memo_ok_empty, of pv]
  show ?thesis by (auto simp: miterRandomSimulate_def miterGetResult_def)
qed

lemma simulate_pair_lanes:
  assumes "sim_ready h A r n" and "o1 \<in> A" and "o2 \<in> A"
  obtains w1 w2 where "simulate_pair h n o1 o2 pv = Inr (w1, w2)"
    "\<And>i. i < 8192 \<Longrightarrow> evals h (lane_asg i pv) o1 (bit w1 i)"
    "\<And>i. i < 8192 \<Longrightarrow> evals h (lane_asg i pv) o2 (bit w2 i)"
  using miterRandomSimulate_lanes [OF assms(1,2), of pv] miterRandomSimulate_lanes [OF assms(1,3), of pv]
  by (auto simp: simulate_pair_def)

text \<open>The values of both outputs under an assignment.\<close>

definition differ :: "(addr \<Rightarrow> node) \<Rightarrow> addr \<Rightarrow> addr \<Rightarrow> (addr \<Rightarrow> bool) \<Rightarrow> bool" where
  "differ h o1 o2 \<sigma> \<longleftrightarrow> (\<exists>b. evals h \<sigma> o1 b \<and> evals h \<sigma> o2 (\<not> b))"

lemma differ_iff:
  assumes "evals h \<sigma> o1 b1" and "evals h \<sigma> o2 b2"
  shows "differ h o1 o2 \<sigma> \<longleftrightarrow> b1 \<noteq> b2"
proof
  assume "differ h o1 o2 \<sigma>"
  then obtain b where "evals h \<sigma> o1 b" "evals h \<sigma> o2 (\<not> b)" by (auto simp: differ_def)
  then have "b = b1" "(\<not> b) = b2" using assms evals_det by blast+
  then show "b1 \<noteq> b2" by (cases b1) auto
next
  assume "b1 \<noteq> b2"
  then have "b2 = (\<not> b1)" by simp
  then show "differ h o1 o2 \<sigma>" using assms by (auto simp: differ_def)
qed

lemma outputs_agree_differ:
  assumes "net_wf h A r" and "o1 \<in> A" and "o2 \<in> A"
  shows "outputs_agree h ws cs o1 o2 neg \<longleftrightarrow> (\<forall>\<sigma>. differ h o1 o2 (match_asg ws cs \<sigma>) = neg)"
proof
  assume *: "outputs_agree h ws cs o1 o2 neg"
  show "\<forall>\<sigma>. differ h o1 o2 (match_asg ws cs \<sigma>) = neg"
  proof
    fix \<sigma>
    obtain b1 b2 where "evals h (match_asg ws cs \<sigma>) o1 b1" "evals h (match_asg ws cs \<sigma>) o2 b2"
      using evals_total [OF assms(1,2)] evals_total [OF assms(1,3)] by blast
    with * show "differ h o1 o2 (match_asg ws cs \<sigma>) = neg"
      by (auto simp: outputs_agree_def differ_iff)
  qed
next
  assume *: "\<forall>\<sigma>. differ h o1 o2 (match_asg ws cs \<sigma>) = neg"
  show "outputs_agree h ws cs o1 o2 neg"
    unfolding outputs_agree_def
  proof (intro allI impI)
    fix \<sigma> b1 b2
    assume "evals h (match_asg ws cs \<sigma>) o1 b1" "evals h (match_asg ws cs \<sigma>) o2 b2"
    then have "differ h o1 o2 (match_asg ws cs \<sigma>) \<longleftrightarrow> b1 \<noteq> b2" by (rule differ_iff)
    then show "b2 = (b1 \<noteq> neg)" using * by auto
  qed
qed

section \<open>The lanes of the exhaustive blocks\<close>

definition init_pv :: "(addr \<times> bool) list \<Rightarrow> pivalue" where
  "init_pv cs = (\<lambda>x. case map_of (rev cs) x of Some c \<Rightarrow> if c then not 0 else 0 | None \<Rightarrow> 0)"

text \<open>
  What stays true of the words from block to block: everything outside the matching is as it was
  set up, and lanes beyond \<open>e\<close> of the enumerated inputs are 0.
\<close>

definition exh_inv :: "wire list \<Rightarrow> (addr \<times> bool) list \<Rightarrow> nat \<Rightarrow> pivalue \<Rightarrow> bool" where
  "exh_inv ws cs e pv \<longleftrightarrow>
     (\<forall>x. x \<notin> fst ` set ws \<longrightarrow> x \<notin> partners ws \<longrightarrow> pv x = init_pv cs x) \<and>
     (\<forall>x \<in> partners ws. \<forall>i. e \<le> i \<longrightarrow> i < 8192 \<longrightarrow> \<not> bit (pv x) i)"

lemma fill_block_other: "a \<notin> set inputs \<Longrightarrow> fill_block inputs base n pv a = pv a"
  by (induction n) (simp_all add: fill_block_def fill_lane_other)

lemma map_of_rev_None: "map_of (rev xs) x = None \<longleftrightarrow> x \<notin> fst ` set xs"
  by (simp add: map_of_eq_None_iff)

lemma map_of_rev_Some: "map_of (rev xs) x = Some v \<Longrightarrow> (x, v) \<in> set xs"
  by (metis map_of_SomeD set_rev)

lemma match_asg_eq:
  assumes "two_sided ws"
    and cs: "\<forall>x \<in> partners ws. x \<notin> fst ` set cs"
    and A: "\<And>x. x \<in> partners ws \<Longrightarrow> bit (pv x) i = \<sigma> x"
    and oth: "\<And>x. x \<notin> fst ` set ws \<Longrightarrow> x \<notin> partners ws \<Longrightarrow> pv x = init_pv cs x"
    and i: "i < 8192"
  shows "lane_asg i (copy_wires ws pv) = match_asg ws cs \<sigma>"
proof
  fix x
  show "lane_asg i (copy_wires ws pv) x = match_asg ws cs \<sigma> x"
  proof (cases "map_of (rev ws) x")
    case None
    then have x: "x \<notin> fst ` set ws" by (simp add: map_of_rev_None)
    show ?thesis
    proof (cases "x \<in> partners ws")
      case True
      then have "map_of (rev cs) x = None" using cs by (simp add: map_of_rev_None)
      then show ?thesis using None True A i
        by (simp add: lane_asg_def copy_wires_apply [OF assms(1)] match_asg_def)
    next
      case False
      then show ?thesis using None x oth i
        by (auto simp: lane_asg_def copy_wires_apply [OF assms(1)] match_asg_def init_pv_def split: option.split)
    qed
  next
    case (Some w)
    obtain a ng where w: "w = (a, ng)" by (cases w)
    then have "(x, a, ng) \<in> set ws" using Some map_of_rev_Some by fastforce
    then have "a \<in> partners ws" by (auto simp: partners_def)
    then show ?thesis using Some A i
      by (simp add: lane_asg_def copy_wires_apply [OF assms(1)] match_asg_def w)
  qed
qed

section \<open>Every pattern is enumerated\<close>

definition pattern_of :: "nat \<Rightarrow> nat \<Rightarrow> nat \<Rightarrow> nat" where
  "pattern_of e t i = (if i < e then 8192 * t + i else 0)"

lemma exh_step:
  fixes t :: nat
  assumes ts: "two_sided ws" and C: "\<forall>x \<in> partners ws. x \<notin> fst ` set C"
    and cs: "distinct cs" "set cs = partners ws" and e: "e \<le> 8192" and inv: "exh_inv ws C e pv"
  defines "pv' \<equiv> copy_wires ws (fill_block cs (8192 * t) e pv)"
  shows "exh_inv ws C e pv'"
    and "i < 8192 \<Longrightarrow> lane_asg i pv' = match_asg ws C (asg cs (pattern_of e t i))"
proof -
  have lanes: "bit (fill_block cs (8192 * t) e pv x) i = asg cs (pattern_of e t i) x"
    if x: "x \<in> partners ws" and i: "i < 8192" for x i
  proof -
    obtain k where k: "k < length cs" "cs ! k = x" using x cs(2) by (metis in_set_conv_nth)
    have "asg cs (pattern_of e t i) x = bit (pattern_of e t i) k"
      using asg_nth [OF cs(1) k(1)] k(2) by simp
    then show ?thesis
      using fill_block_lanes [OF cs(1) k(1) e, of "8192 * t" pv i] k(2) inv x i
      by (auto simp: pattern_of_def exh_inv_def)
  qed
  have oth: "fill_block cs (8192 * t) e pv x = init_pv C x" if "x \<notin> fst ` set ws" "x \<notin> partners ws" for x
    using that inv cs(2) by (simp add: fill_block_other exh_inv_def)
  show "i < 8192 \<Longrightarrow> lane_asg i pv' = match_asg ws C (asg cs (pattern_of e t i))"
    unfolding pv'_def by (rule match_asg_eq [OF ts C]) (use lanes oth in auto)
  have "pv' x = fill_block cs (8192 * t) e pv x" if "x \<notin> fst ` set ws" for x
    using that by (simp add: pv'_def copy_wires_apply [OF ts] map_of_rev_None [THEN iffD2])
  moreover have "x \<notin> fst ` set ws" if "x \<in> partners ws" for x
    using ts that by (auto simp: two_sided_def)
  ultimately show "exh_inv ws C e pv'"
    using lanes oth by (auto simp: exh_inv_def pattern_of_def asg_def)
qed

lemma match_asg_cong:
  "(\<And>x. x \<in> partners ws \<Longrightarrow> \<sigma> x = \<tau> x) \<Longrightarrow> match_asg ws C \<sigma> = match_asg ws C \<tau>"
proof
  fix x
  assume eq: "\<And>x. x \<in> partners ws \<Longrightarrow> \<sigma> x = \<tau> x"
  have "\<sigma> a = \<tau> a" if "map_of (rev ws) x = Some (a, ng)" for a ng
    using map_of_rev_Some [OF that] eq by (auto simp: partners_def)
  then show "match_asg ws C \<sigma> x = match_asg ws C \<tau> x"
    using eq by (auto simp: match_asg_def split: option.splits prod.splits)
qed

lemma pattern_exists: "\<exists>v < 2 ^ n. \<forall>k < n. bit (v :: nat) k = P k"
proof -
  let ?v = "horner_sum of_bool 2 (map P [0..<n]) :: nat"
  have "?v < 2 ^ n" using horner_sum_of_bool_2_less [of "map P [0..<n]"] by simp
  moreover have "\<forall>k < n. bit ?v k = P k" by (simp add: bit_horner_sum_bit_iff)
  ultimately show ?thesis by blast
qed

lemma patterns_cover:
  assumes cs: "distinct cs" "set cs = partners ws"
    and e: "e = (if length cs \<le> 13 then 2 ^ length cs else 8192)"
  shows "\<exists>t < Suc (drop_bit 13 (2 ^ length cs)). \<exists>i < 8192.
           match_asg ws C \<sigma> = match_asg ws C (asg cs (pattern_of e t i))"
proof -
  obtain v :: nat where v: "v < 2 ^ length cs" "\<forall>k < length cs. bit v k = \<sigma> (cs ! k)"
    using pattern_exists [of "length cs" "\<lambda>k. \<sigma> (cs ! k)"] by blast
  have eq: "match_asg ws C \<sigma> = match_asg ws C (asg cs v)"
  proof (rule match_asg_cong)
    fix x
    assume "x \<in> partners ws"
    then obtain k where "k < length cs" "cs ! k = x" using cs(2) by (metis in_set_conv_nth)
    then show "\<sigma> x = asg cs v x" using v(2) asg_nth [OF cs(1), of k v] by simp
  qed
  show ?thesis
  proof (cases "length cs \<le> 13")
    case True
    then have "(2 :: nat) ^ length cs \<le> 2 ^ 13" by (intro power_increasing) auto
    then have "v < 8192" "pattern_of e 0 v = v" using v(1) True by (simp_all add: pattern_of_def e)
    then show ?thesis using eq by (intro exI [of _ 0] exI [of _ v] conjI) simp_all
  next
    case False
    have "pattern_of e (v div 8192) (v mod 8192) = v" using False by (simp add: pattern_of_def e)
    moreover have "v div 8192 \<le> drop_bit 13 (2 ^ length cs)"
      using div_le_mono [of v "2 ^ length cs" 8192] v(1) by (simp add: drop_bit_eq_div)
    ultimately show ?thesis using eq
      by (intro exI [of _ "v div 8192"] conjI exI [of _ "v mod 8192"]) simp_all
  qed
qed

lemma exhaustive_result:
  assumes ready: "sim_ready h A r n" and o: "o1 \<in> A" "o2 \<in> A"
    and ts: "two_sided ws" and C: "\<forall>x \<in> partners ws. x \<notin> fst ` set C"
    and cs: "distinct cs" "set cs = partners ws"
    and e: "e = (if length cs \<le> 13 then 2 ^ length cs else 8192)"
  shows "blocks (prep_exhaustive ws cs e) (simulate_pair h n o1 o2)
           [0..<Suc (drop_bit 13 (2 ^ length cs))] (init_pv C) 0 =
         Inr (if outputs_agree h ws C o1 o2 False then 1 else if outputs_agree h ws C o1 o2 True then 2 else 0)"
proof -
  let ?D = "\<lambda>t i. differ h o1 o2 (match_asg ws C (asg cs (pattern_of e t i)))"
  let ?ts = "[0..<Suc (drop_bit 13 (2 ^ length cs))]"
  have e8: "e \<le> 8192" using power_increasing [of "length cs" 13 "2::nat"] by (simp add: e)
  have "init_pv C x = 0" if "x \<in> partners ws" for x
    using C that by (simp add: init_pv_def map_of_rev_None [THEN iffD2])
  then have inv0: "exh_inv ws C e (init_pv C)" by (simp add: exh_inv_def)
  have step: "\<exists>pv' s' w1 w2. prep_exhaustive ws cs e t pv = (pv', s') \<and> exh_inv ws C e s' \<and>
       simulate_pair h n o1 o2 pv' = Inr (w1, w2) \<and>
       (w1 = w2 \<longleftrightarrow> (\<forall>i < 8192. \<not> ?D t i)) \<and> (w1 = not w2 \<longleftrightarrow> (\<forall>i < 8192. ?D t i))"
    if inv: "exh_inv ws C e pv" for t pv
  proof -
    let ?pv = "copy_wires ws (fill_block cs (8192 * t) e pv)"
    obtain w1 w2 where w: "simulate_pair h n o1 o2 ?pv = Inr (w1, w2)"
      "\<And>i. i < 8192 \<Longrightarrow> evals h (lane_asg i ?pv) o1 (bit w1 i)"
      "\<And>i. i < 8192 \<Longrightarrow> evals h (lane_asg i ?pv) o2 (bit w2 i)"
      using simulate_pair_lanes [OF ready o] by blast
    have D: "?D t i \<longleftrightarrow> bit w1 i \<noteq> bit w2 i" if i: "i < 8192" for i
      using differ_iff [OF w(2) [OF i] w(3) [OF i]] unfolding exh_step(2) [OF ts C cs e8 inv i] .
    have "(w1 = w2) = (\<forall>i < 8192. \<not> ?D t i)" "(w1 = not w2) = (\<forall>i < 8192. ?D t i)"
      using D by (auto simp: word_eq_lanes word_not_lanes)
    then show ?thesis
      using exh_step(1) [OF ts C cs e8 inv] w(1) by (simp add: prep_exhaustive_def Let_def)
  qed
  have net: "net_wf h A r" using ready by (simp add: sim_ready_def)
  have agree: "outputs_agree h ws C o1 o2 neg \<longleftrightarrow> (\<forall>t \<in> set ?ts. \<forall>i < 8192. ?D t i = neg)" for neg
  proof -
    have "(\<forall>\<sigma>. differ h o1 o2 (match_asg ws C \<sigma>) = neg) \<longleftrightarrow> (\<forall>t \<in> set ?ts. \<forall>i < 8192. ?D t i = neg)"
    proof
      assume *: "\<forall>t \<in> set ?ts. \<forall>i < 8192. ?D t i = neg"
      show "\<forall>\<sigma>. differ h o1 o2 (match_asg ws C \<sigma>) = neg"
      proof
        fix \<sigma>
        obtain t i where "t \<in> set ?ts" "i < 8192"
          "match_asg ws C \<sigma> = match_asg ws C (asg cs (pattern_of e t i))"
          using patterns_cover [OF cs e, of C \<sigma>] by (metis atLeastLessThan_iff atLeastLessThan_upt zero_le)
        with * show "differ h o1 o2 (match_asg ws C \<sigma>) = neg" by metis
      qed
    qed simp
    then show ?thesis by (simp add: outputs_agree_differ [OF net o])
  qed
  have "?ts \<noteq> []" by simp
  then show ?thesis
    using blocks_exact [where I = "exh_inv ws C e" and s = "init_pv C" and ts = ?ts and ty = 0
        and E = "\<lambda>t. \<forall>i < 8192. \<not> ?D t i" and N = "\<lambda>t. \<forall>i < 8192. ?D t i", OF inv0 step]
    by (simp add: agree)
qed

section \<open>Random blocks\<close>

lemma random_wire_facts:
  fixes b a :: addr
  assumes ab: "a \<noteq> b" and r: "random_wire rnd b a ng (pv, k) = (pv', k')"
  shows "x \<noteq> a \<Longrightarrow> x \<noteq> b \<Longrightarrow> pv' x = pv x" and "pv' b = (if ng then not (pv' a) else pv' a)"
proof -
  let ?f = "random_lane rnd b a ng"
  have "n \<le> 8192 \<Longrightarrow> (\<forall>x. x \<noteq> a \<longrightarrow> x \<noteq> b \<longrightarrow> fst (fold ?f [0..<n] (pv, k)) x = pv x) \<and>
      (\<forall>i < n. bit (fst (fold ?f [0..<n] (pv, k)) b) i = (bit (fst (fold ?f [0..<n] (pv, k)) a) i \<noteq> ng))" for n
  proof (induction n)
    case 0
    then show ?case by simp
  next
    case (Suc n)
    obtain p j where p: "fold ?f [0..<n] (pv, k) = (p, j)" by (cases "fold ?f [0..<n] (pv, k)")
    let ?q = "(p(a := set_lane n (odd (rnd j)) (p a)))
        (b := set_lane n (if ng then even (rnd j) else odd (rnd j)) (p b))"
    have q: "fst (fold ?f [0..<Suc n] (pv, k)) = ?q" using ab by (simp add: p random_lane_def Let_def)
    have IH: "\<forall>x. x \<noteq> a \<longrightarrow> x \<noteq> b \<longrightarrow> p x = pv x" "\<forall>i < n. bit (p b) i = (bit (p a) i \<noteq> ng)"
      using Suc.IH Suc.prems by (simp_all add: p)
    have n: "n < 8192" using Suc.prems by simp
    have "bit (?q b) i = (bit (?q a) i \<noteq> ng)" if "i < Suc n" for i
      using that IH(2) ab n by (cases "i = n") simp_all
    moreover have "?q x = pv x" if "x \<noteq> a" "x \<noteq> b" for x using that IH(1) by simp
    ultimately show ?case unfolding q by blast
  qed
  from this [of 8192, OF order_refl] have *: "\<forall>x. x \<noteq> a \<longrightarrow> x \<noteq> b \<longrightarrow> pv' x = pv x"
    "\<forall>i < 8192. bit (pv' b) i = (bit (pv' a) i \<noteq> ng)"
    unfolding r [unfolded random_wire_def] fst_conv by blast+
  show "x \<noteq> a \<Longrightarrow> x \<noteq> b \<Longrightarrow> pv' x = pv x" using *(1) by blast
  show "pv' b = (if ng then not (pv' a) else pv' a)" using *(2) by (auto simp: word_eq_lanes)
qed

text \<open>After a block of random patterns every wire carries its partner's word.\<close>

lemma random_wires_facts:
  assumes "two_sided ws" and "random_wires rnd ws (pv, k) = (seen, pv', k')"
  shows "set seen = partners ws \<and>
    (\<forall>x. x \<notin> fst ` set ws \<longrightarrow> x \<notin> partners ws \<longrightarrow> pv' x = pv x) \<and>
    (\<forall>x a ng. map_of (rev ws) x = Some (a, ng) \<longrightarrow> pv' x = (if ng then not (pv' a) else pv' a))"
  using assms
proof (induction ws arbitrary: seen pv' k' rule: rev_induct)
  case Nil
  then show ?case by (simp add: random_wires_def)
next
  case (snoc w ws)
  obtain b a ng where w: "w = (b, a, ng)" by (cases w)
  obtain seen1 pv1 k1 where 1: "random_wires rnd ws (pv, k) = (seen1, pv1, k1)"
    by (cases "random_wires rnd ws (pv, k)")
  have ts: "two_sided ws" using snoc.prems(1) by (auto simp: two_sided_def)
  note IH = snoc.IH [OF ts 1]
  have b: "b \<notin> partners ws" "a \<noteq> b" and a: "a \<notin> fst ` set ws"
    using snoc.prems(1) by (auto simp: two_sided_def w)
  have part: "c \<in> partners ws" if "map_of (rev ws) x = Some (c, g)" for x c g
    using map_of_rev_Some [OF that] by (auto simp: partners_def)
  show ?case
  proof (cases "a \<in> partners ws")
    case True
    then have "(seen, pv', k') = (seen1, pv1(b := if ng then not (pv1 a) else pv1 a), k1)"
      using snoc.prems(2) 1 IH by (simp add: random_wires_def w)
    then show ?thesis using IH True b part by (auto simp: w)
  next
    case False
    obtain pv2 k2 where 2: "random_wire rnd b a ng (pv1, k1) = (pv2, k2)"
      by (cases "random_wire rnd b a ng (pv1, k1)")
    then have eq: "seen = seen1 @ [a]" "pv' = pv2"
      using snoc.prems(2) 1 IH False by (simp_all add: random_wires_def w)
    note rw = random_wire_facts [OF b(2) 2]
    have "pv2 x = (if g then not (pv2 c) else pv2 c)"
      if x: "map_of (rev ws) x = Some (c, g)" "x \<noteq> b" for x c g
    proof -
      have "c \<noteq> a" "c \<noteq> b" using part [OF x(1)] False b(1) by auto
      moreover have "x \<noteq> a" using map_of_rev_Some [OF x(1)] a by force
      ultimately show ?thesis using IH x rw(1) by simp
    qed
    then show ?thesis using IH rw by (auto simp: eq w)
  qed
qed

definition rnd_inv :: "wire list \<Rightarrow> (addr \<times> bool) list \<Rightarrow> pivalue \<times> nat \<Rightarrow> bool" where
  "rnd_inv ws C s \<longleftrightarrow>
     (\<forall>x. x \<notin> fst ` set ws \<longrightarrow> x \<notin> partners ws \<longrightarrow> fst s x = init_pv C x)"

lemma random_step:
  assumes ts: "two_sided ws" and C: "\<forall>x \<in> partners ws. x \<notin> fst ` set C" and inv: "rnd_inv ws C s"
  obtains pv s' where "prep_random rnd ws t s = (pv, s')" "rnd_inv ws C s'"
    "\<And>i. i < 8192 \<Longrightarrow> lane_asg i pv = match_asg ws C (lane_asg i pv)"
proof -
  obtain seen pv k where r: "random_wires rnd ws (fst s, snd s) = (seen, pv, k)"
    by (cases "random_wires rnd ws (fst s, snd s)")
  note f = random_wires_facts [OF ts r]
  have oth: "pv x = init_pv C x" if "x \<notin> fst ` set ws" "x \<notin> partners ws" for x
    using f inv that by (simp add: rnd_inv_def)
  have "lane_asg i pv x = match_asg ws C (lane_asg i pv) x" if i: "i < 8192" for i x
  proof (cases "map_of (rev ws) x")
    case None
    then have x: "x \<notin> fst ` set ws" by (simp add: map_of_rev_None)
    show ?thesis
    proof (cases "x \<in> partners ws")
      case True
      then have "map_of (rev C) x = None" using C by (simp add: map_of_rev_None)
      then show ?thesis using True None by (simp add: match_asg_def)
    next
      case False
      then show ?thesis using None i oth [OF x False]
        by (auto simp: match_asg_def lane_asg_def init_pv_def split: option.split)
    qed
  next
    case (Some w)
    then show ?thesis using f i by (cases w) (simp add: match_asg_def lane_asg_def)
  qed
  then show ?thesis using that [of pv "(pv, k)"] r oth
    by (auto simp: prep_random_def rnd_inv_def Let_def)
qed

lemma random_result:
  assumes ready: "sim_ready h A r n" and o: "o1 \<in> A" "o2 \<in> A"
    and ts: "two_sided ws" and C: "\<forall>x \<in> partners ws. x \<notin> fst ` set C"
    and agree: "outputs_agree h ws C o1 o2 neg" and "tms \<noteq> []"
  shows "blocks (prep_random rnd ws) (simulate_pair h n o1 o2) tms (init_pv C, 0) 0 =
         Inr (if neg then 2 else 1)"
proof (rule blocks_all [where I = "rnd_inv ws C"])
  show "rnd_inv ws C (init_pv C, 0)" by (simp add: rnd_inv_def)
  fix t s
  assume "rnd_inv ws C s"
  then obtain pv s' where 1: "prep_random rnd ws t s = (pv, s')" "rnd_inv ws C s'"
    "\<And>i. i < 8192 \<Longrightarrow> lane_asg i pv = match_asg ws C (lane_asg i pv)"
    using random_step [OF ts C] by blast
  obtain w1 w2 where w: "simulate_pair h n o1 o2 pv = Inr (w1, w2)"
    "\<And>i. i < 8192 \<Longrightarrow> evals h (lane_asg i pv) o1 (bit w1 i)"
    "\<And>i. i < 8192 \<Longrightarrow> evals h (lane_asg i pv) o2 (bit w2 i)"
    using simulate_pair_lanes [OF ready o] by blast
  have "bit w2 i = (bit w1 i \<noteq> neg)" if i: "i < 8192" for i
    using agree w(2,3) [OF i] 1(3) [OF i] by (metis outputs_agree_def)
  then have "w2 = (if neg then not w1 else w1)" by (auto simp: word_eq_lanes)
  then show "\<exists>pv s' w. prep_random rnd ws t s = (pv, s') \<and> rnd_inv ws C s' \<and>
       simulate_pair h n o1 o2 pv = Inr (w, if neg then not w else w)"
    using 1 w(1) by auto
qed (use assms(7) in auto)

section \<open>The two results together\<close>

lemma miter_unfold:
  assumes args: "miter_args_ok input1 input2 output1 output2 pairs negs op cm"
  defines "ws \<equiv> wires_of input1 input2 pairs negs"
  shows "miterOneOutputRandom ord rnd h n input1 input2 output1 output2 pairs negs op cm =
    (let o1 = output1 ! nat (snd op); o2 = output2 ! nat (fst op); k = length (c1_inputs ws)
     in if k < 18 then
          blocks (prep_exhaustive ws (ord (c1_inputs ws)) (if k \<le> 13 then 2 ^ k else 8192))
            (simulate_pair h n o1 o2) [0..<Suc (drop_bit 13 (2 ^ k))] (init_pv (consts_of input2 cm)) 0
        else blocks (prep_random rnd ws) (simulate_pair h n o1 o2) [0..<30] (init_pv (consts_of input2 cm), 0) 0)"
    and "two_sided ws" and "\<forall>x \<in> partners ws. x \<notin> fst ` set (consts_of input2 cm)"
proof -
  have init: "fold (\<lambda>(b, c) pv. pv(b := if c then not 0 else 0)) C (\<lambda>_. 0) = init_pv C" for C
    using fold_consts_apply [of "\<lambda>c. if c then not 0 else 0" C "\<lambda>_. 0"] by (auto simp: init_pv_def)
  show "miterOneOutputRandom ord rnd h n input1 input2 output1 output2 pairs negs op cm =
    (let o1 = output1 ! nat (snd op); o2 = output2 ! nat (fst op); k = length (c1_inputs ws)
     in if k < 18 then
          blocks (prep_exhaustive ws (ord (c1_inputs ws)) (if k \<le> 13 then 2 ^ k else 8192))
            (simulate_pair h n o1 o2) [0..<Suc (drop_bit 13 (2 ^ k))] (init_pv (consts_of input2 cm)) 0
        else blocks (prep_random rnd ws) (simulate_pair h n o1 o2) [0..<30] (init_pv (consts_of input2 cm), 0) 0)"
    using args lookup_wires_ok [of pairs input2 input1 negs] assign_consts_ok [of cm input2]
    by (simp add: miterOneOutputRandom_def miter_args_ok_def ws_def Let_def init)
  have rng: "in_range input2 (fst (pairs ! i)) \<and> in_range input1 (snd (pairs ! i))" if "i < length pairs" for i
    using args nth_mem [OF that] by (auto simp: miter_args_ok_def case_prod_beta)
  then have wires: "fst ` set ws \<subseteq> set input2" "partners ws \<subseteq> set input1"
    by (auto simp: ws_def wires_of_def partners_def intro!: nth_in_range)
  show "two_sided ws" using wires args by (auto simp: two_sided_def miter_args_ok_def)
  have cst: "fst ` set (consts_of input2 cm) \<subseteq> set input2"
    using args by (auto simp: consts_of_def miter_args_ok_def intro!: nth_in_range)
  have "set input1 \<inter> set input2 = {}" using args by (simp add: miter_args_ok_def)
  with cst wires show "\<forall>x \<in> partners ws. x \<notin> fst ` set (consts_of input2 cm)" by blast
qed

text \<open>The nodes the output pair names, and the matching, as the specification sees them.\<close>

definition pair_agree :: "(addr \<Rightarrow> node) \<Rightarrow> addr list \<Rightarrow> addr list \<Rightarrow> addr list \<Rightarrow> addr list \<Rightarrow>
    (int \<times> int) list \<Rightarrow> bool list \<Rightarrow> int \<times> int \<Rightarrow> (bool \<times> int) list \<Rightarrow> bool \<Rightarrow> bool" where
  "pair_agree h input1 input2 output1 output2 pairs negs op cm neg \<longleftrightarrow>
     outputs_agree h (wires_of input1 input2 pairs negs) (consts_of input2 cm)
       (output1 ! nat (snd op)) (output2 ! nat (fst op)) neg"

lemma miter_small:
  assumes args: "miter_args_ok input1 input2 output1 output2 pairs negs op cm"
    and ready: "sim_ready h A r n" and A: "set output1 \<subseteq> A" "set output2 \<subseteq> A"
    and ord: "iteration_order ord"
    and small: "length (c1_inputs (wires_of input1 input2 pairs negs)) < 18"
  shows "miterOneOutputRandom ord rnd h n input1 input2 output1 output2 pairs negs op cm =
     Inr (if pair_agree h input1 input2 output1 output2 pairs negs op cm False then 1
          else if pair_agree h input1 input2 output1 output2 pairs negs op cm True then 2 else 0)"
proof -
  let ?ws = "wires_of input1 input2 pairs negs"
  have o: "output1 ! nat (snd op) \<in> A" "output2 ! nat (fst op) \<in> A"
    using args A by (auto simp: miter_args_ok_def dest: nth_in_range)
  have cs: "distinct (ord (c1_inputs ?ws))" "set (ord (c1_inputs ?ws)) = partners ?ws"
    using ord c1_inputs_facts [of ?ws] by (auto simp: iteration_order_def)
  have len: "length (ord (c1_inputs ?ws)) = length (c1_inputs ?ws)"
    using cs c1_inputs_facts [of ?ws] by (metis distinct_card)
  show ?thesis
    using exhaustive_result [OF ready o miter_unfold(2,3) [OF args] cs refl]
    by (simp only: miter_unfold(1) [OF args] pair_agree_def Let_def small len if_True)
qed

lemma miter_agree:
  assumes args: "miter_args_ok input1 input2 output1 output2 pairs negs op cm"
    and ready: "sim_ready h A r n" and A: "set output1 \<subseteq> A" "set output2 \<subseteq> A"
    and ord: "iteration_order ord"
    and agree: "pair_agree h input1 input2 output1 output2 pairs negs op cm neg"
  shows "miterOneOutputRandom ord rnd h n input1 input2 output1 output2 pairs negs op cm =
     Inr (if neg then 2 else 1)"
proof (cases "length (c1_inputs (wires_of input1 input2 pairs negs)) < 18")
  case True
  have o: "output1 ! nat (snd op) \<in> A" "output2 ! nat (fst op) \<in> A"
    using args A by (auto simp: miter_args_ok_def dest: nth_in_range)
  have net: "net_wf h A r" using ready by (simp add: sim_ready_def)
  have "\<not> pair_agree h input1 input2 output1 output2 pairs negs op cm False" if "neg"
    using agree that by (simp add: pair_agree_def outputs_agree_differ [OF net o])
  then show ?thesis
    using agree miter_small [OF args ready A ord True, of rnd] by (cases neg) simp_all
next
  case False
  have o: "output1 ! nat (snd op) \<in> A" "output2 ! nat (fst op) \<in> A"
    using args A by (auto simp: miter_args_ok_def dest: nth_in_range)
  show ?thesis
    using random_result [OF ready o miter_unfold(2,3) [OF args] agree [unfolded pair_agree_def], of "[0..<30]" rnd]
    by (simp only: miter_unfold(1) [OF args] pair_agree_def Let_def False if_False) simp
qed

text \<open>The miter always answers, with 0, 1 or 2.\<close>

lemma blocks_total:
  assumes "\<And>pv. \<exists>w1 w2. sim pv = Inr (w1, w2)" and "ty \<le> 2"
  shows "\<exists>r \<le> 2. blocks prep sim ts s ty = Inr r"
  using assms(2)
proof (induction ts arbitrary: s ty)
  case Nil
  then show ?case by simp
next
  case (Cons t ts)
  obtain pv s' where 1: "prep t s = (pv, s')" by (cases "prep t s")
  obtain w1 w2 where 2: "sim pv = Inr (w1, w2)" using assms(1) by blast
  have "ty' \<le> 2" if "verdict ty w1 w2 = Some ty'" for ty'
    using that Cons.prems by (auto simp: verdict_def split: if_splits)
  then show ?case using 1 2 Cons.IH by (auto split: option.split)
qed

lemma miter_total:
  assumes args: "miter_args_ok input1 input2 output1 output2 pairs negs op cm"
    and ready: "sim_ready h A r n" and A: "set output1 \<subseteq> A" "set output2 \<subseteq> A"
  shows "\<exists>res \<le> 2. miterOneOutputRandom ord rnd h n input1 input2 output1 output2 pairs negs op cm = Inr res"
proof -
  have o: "output1 ! nat (snd op) \<in> A" "output2 ! nat (fst op) \<in> A"
    using args A by (auto simp: miter_args_ok_def dest: nth_in_range)
  have sim: "\<exists>w1 w2. simulate_pair h n (output1 ! nat (snd op)) (output2 ! nat (fst op)) pv = Inr (w1, w2)" for pv
    using simulate_pair_lanes [OF ready o, of pv] by metis
  show ?thesis
  proof (cases "length (c1_inputs (wires_of input1 input2 pairs negs)) < 18")
    case True
    show ?thesis unfolding miter_unfold(1) [OF args] Let_def if_P [OF True]
      by (rule blocks_total [OF sim]) simp
  next
    case False
    show ?thesis unfolding miter_unfold(1) [OF args] Let_def if_not_P [OF False]
      by (rule blocks_total [OF sim]) simp
  qed
qed

end
