(* ===== verification/Example_Net.thy ===== *)
theory Example_Net
  imports Miter_Correct
begin

text \<open>
  Two small circuits in one heap, on which the properties are tried. Circuit 1 has the inputs 0, 1
  and the output 3 of the gate \<open>AND(0, 1)\<close>; circuit 2 has the inputs 4, 5 and the output 7 of the
  gate \<open>OR(4, 5)\<close>. By De Morgan output 7 is the complement of output 3 when both inputs of circuit 2
  are matched negated. Node 8 is the constant that ends every list of candidates.
\<close>

definition ex_node :: "addr \<Rightarrow> string \<Rightarrow> gtype \<Rightarrow> addr list \<Rightarrow> int \<Rightarrow> int \<Rightarrow> node" where
  "ex_node a s t fi i b = (mk_node a s t)\<lparr>n_fi := fi, n_idx := i, n_bus_idx := b, n_bus_indices := [b]\<rparr>"

definition ex_heap :: "addr \<Rightarrow> node" where
  "ex_heap = (\<lambda>a. mk_node a '''' WIRE)
     (0 := ex_node 0 ''a'' INPUT [] 0 0, 1 := ex_node 1 ''b'' INPUT [] 1 1,
      2 := ex_node 2 ''g'' AND [0, 1] 0 (-1), 3 := ex_node 3 ''y'' OUTPUT [2] 0 2,
      4 := ex_node 4 ''c'' INPUT [] 0 0, 5 := ex_node 5 ''d'' INPUT [] 1 1,
      6 := ex_node 6 ''k'' OR [4, 5] 0 (-1), 7 := ex_node 7 ''z'' OUTPUT [6] 0 2,
      8 := ex_node 8 ''CONST'' CONSTANT [] (-2) (-1))"

definition ex_module :: module where
  "ex_module = \<lparr>m_moduleIndex = 0, m_cur_bit_place = 0, m_name = ''top'', m_netlist = [0, 1, 2, 3],
     m_gate = (\<lambda>t. if t = INPUT then [0, 1] else if t = OUTPUT then [3] else if t = AND then [2] else []),
     m_ctrl_signal = [], m_bus_set = [], m_name_to_node = Map.empty, m_set_to_group_idx = Map.empty,
     m_bus_signature = [], m_allEquation = [], m_group = [], m_gate_path = [], m_path_cnt = (\<lambda>_. 0),
     m_first_pi = [], m_input_sig = []\<rparr>"

text \<open>The heap after the reset, with the inputs of circuit 1 driven to 1 and 0.\<close>

definition ex_driven :: "addr \<Rightarrow> node" where
  "ex_driven = upd 0 (set_signal ONE) (upd 1 (set_signal ZERO)
     (upd 4 (set_signal ZERO) (upd 5 (set_signal ZERO) ex_heap)))"

definition ex_asg :: "addr \<Rightarrow> bool" where
  "ex_asg = (\<lambda>a. a = 0)"

lemma ex_fields [simp]:
  "n_type (ex_node a s t fi i b) = t" "n_fi (ex_node a s t fi i b) = fi" "n_inv (ex_node a s t fi i b) = 0"
  "n_idx (ex_node a s t fi i b) = i" "n_signal (ex_node a s t fi i b) = DONTCARE"
  "n_bus_idx (ex_node a s t fi i b) = b" "n_bus_indices (ex_node a s t fi i b) = [b]"
  "n_name (ex_node a s t fi i b) = s"
  by (simp_all add: ex_node_def mk_node_def)

lemma ex_heap_apply [simp]:
  "ex_heap 0 = ex_node 0 ''a'' INPUT [] 0 0" "ex_heap (Suc 0) = ex_node 1 ''b'' INPUT [] 1 1"
  "ex_heap 2 = ex_node 2 ''g'' AND [0, 1] 0 (-1)" "ex_heap 3 = ex_node 3 ''y'' OUTPUT [2] 0 2"
  "ex_heap 4 = ex_node 4 ''c'' INPUT [] 0 0" "ex_heap 5 = ex_node 5 ''d'' INPUT [] 1 1"
  "ex_heap 6 = ex_node 6 ''k'' OR [4, 5] 0 (-1)" "ex_heap 7 = ex_node 7 ''z'' OUTPUT [6] 0 2"
  "ex_heap 8 = ex_node 8 ''CONST'' CONSTANT [] (-2) (-1)"
  by (simp_all add: ex_heap_def)

definition ex_nodes :: "addr set" where
  "ex_nodes = {0, 1, 2, 3, 4, 5, 6, 7}"

lemma ex_net_wf: "net_wf ex_heap ex_nodes (\<lambda>a. a)"
  by (simp add: ex_nodes_def net_wf_def gate_wf_def sim_types_def)

lemma ex_sim_ready: "sim_ready ex_heap ex_nodes (\<lambda>a. a) 8"
  using ex_net_wf by (simp add: sim_ready_def ex_nodes_def miter_ok_def get_ok_def sim_types_def)

lemma ex_get_ok:
  "\<forall>x \<in> ex_nodes. n_type (ex_heap x) \<noteq> INPUT \<longrightarrow> get_ok (n_type (ex_heap x)) (n_inv (ex_heap x))"
  by (simp add: ex_nodes_def get_ok_def sim_types_def)

lemma ex_module_wf: "module_wf ex_heap ex_module (\<lambda>a. a)"
proof -
  have "{a. (a = 0 \<or> a = Suc 0 \<or> a = 2 \<or> a = 3) \<and> n_type (ex_heap a) = INPUT} = {0, Suc 0}"
    by (auto simp: numeral_eq_Suc [symmetric])
  then show ?thesis
    by (simp add: module_wf_def ex_module_def net_wf_def gate_wf_def sim_types_def All_less_Suc)
qed

lemma ex_signals_ok: "signals_ok ex_heap ex_asg ex_nodes ex_driven"
proof -
  have other: "n_signal (ex_driven a) = DONTCARE" if "a \<in> ex_nodes - {0, 1, 4, 5}" for a
    using that by (auto simp: ex_driven_def ex_nodes_def upd_apply)
  have inp: "n_signal (ex_driven a) = bool_sig (ex_asg a) \<and> evals ex_heap ex_asg a (ex_asg a)"
    if "a \<in> {0, 1, 4, 5}" for a
    using that by (auto simp: ex_driven_def upd_apply ex_asg_def bool_sig_def evals_input_iff)
  have "same_but_signal ex_heap ex_driven"
    by (simp add: ex_driven_def) (simp add: same_but_signal_def)
  moreover have "\<exists>b. evals ex_heap ex_asg a b \<and> n_signal (ex_driven a) = bool_sig b"
    if "a \<in> ex_nodes" "n_signal (ex_driven a) \<noteq> DONTCARE" for a
    using that other inp by blast
  moreover have "n_signal (ex_driven a) \<noteq> DONTCARE" if "a \<in> ex_nodes" "n_type (ex_heap a) = INPUT" for a
  proof -
    have "a \<in> {0, 1, 4, 5}" using that by (auto simp: ex_nodes_def)
    then show ?thesis using inp by (metis bool_sig_eq(3))
  qed
  ultimately show ?thesis by (simp add: signals_ok_def)
qed

lemma ex_gates:
  assumes "evals ex_heap \<sigma> 3 b1" and "evals ex_heap \<sigma> 7 b2"
  shows "b1 = (\<sigma> 0 \<and> \<sigma> 1)" and "b2 = (\<sigma> 4 \<or> \<sigma> 5)"
proof -
  have i: "evals ex_heap \<sigma> a (\<sigma> a)" if "a \<in> {0, 1, 4, 5}" for a
    using that by (auto intro: ev_input)
  have "evals ex_heap \<sigma> 2 (\<sigma> 0 \<and> \<sigma> 1)"
    by (rule ev_gate [where bs = "[\<sigma> 0, \<sigma> 1]"]) (use i in auto)
  then have "evals ex_heap \<sigma> 3 (\<sigma> 0 \<and> \<sigma> 1)"
    by (intro ev_gate [where bs = "[\<sigma> 0 \<and> \<sigma> 1]"]) auto
  then show "b1 = (\<sigma> 0 \<and> \<sigma> 1)" using assms(1) evals_det by blast
  have "evals ex_heap \<sigma> 6 (\<sigma> 4 \<or> \<sigma> 5)"
    by (rule ev_gate [where bs = "[\<sigma> 4, \<sigma> 5]"]) (use i in auto)
  then have "evals ex_heap \<sigma> 7 (\<sigma> 4 \<or> \<sigma> 5)"
    by (intro ev_gate [where bs = "[\<sigma> 4 \<or> \<sigma> 5]"]) auto
  then show "b2 = (\<sigma> 4 \<or> \<sigma> 5)" using assms(2) evals_det by blast
qed

text \<open>The De Morgan matching: both inputs negated.\<close>

lemma ex_miter_args: "miter_args_ok [0, 1] [4, 5] [3] [7] [(0, 0), (1, 1)] [True, True] (0, 0) []"
  by (simp add: miter_args_ok_def in_range_def)

lemma ex_wires: "wires_of [0, Suc 0] [4, 5] [(0, 0), (1, 1)] [True, True] = [(4, 0, True), (5, Suc 0, True)]"
  by (simp add: wires_of_def upt_rec)

lemma ex_match_asg:
  "match_asg [(4, 0, True), (5, Suc 0, True)] [] \<sigma> 0 = \<sigma> 0" "match_asg [(4, 0, True), (5, Suc 0, True)] [] \<sigma> (Suc 0) = \<sigma> 1"
  "match_asg [(4, 0, True), (5, Suc 0, True)] [] \<sigma> 4 = (\<not> \<sigma> 0)" "match_asg [(4, 0, True), (5, Suc 0, True)] [] \<sigma> 5 = (\<not> \<sigma> 1)"
  by (simp_all add: match_asg_def)

lemma ex_agree: "outputs_agree ex_heap [(4, 0, True), (5, Suc 0, True)] [] 3 7 neg = neg"
proof
  let ?m = "match_asg [(4, 0, True), (5, Suc 0, True)] []"
  have o: "(3::nat) \<in> ex_nodes" "7 \<in> ex_nodes" by (simp_all add: ex_nodes_def)
  assume a: "outputs_agree ex_heap [(4, 0, True), (5, Suc 0, True)] [] 3 7 neg"
  obtain b1 b2 where b: "evals ex_heap (?m ex_asg) 3 b1" "evals ex_heap (?m ex_asg) 7 b2"
    using evals_total [OF ex_net_wf o(1)] evals_total [OF ex_net_wf o(2)] by blast
  then have "b2 = (b1 \<noteq> neg)" using a unfolding outputs_agree_def by blast
  then show neg using ex_gates [OF b] by (auto simp: ex_match_asg)
next
  assume neg
  then show "outputs_agree ex_heap [(4, 0, True), (5, Suc 0, True)] [] 3 7 neg"
    unfolding outputs_agree_def using ex_gates ex_match_asg by (metis One_nat_def)
qed

lemma ex_pair_agree:
  "pair_agree ex_heap [0, 1] [4, 5] [3] [7] [(0, 0), (1, 1)] [True, True] (0, 0) [] neg = neg"
  using ex_agree by (simp add: pair_agree_def ex_wires consts_of_def)

end
