(* ===== verification/Sim_Props.thy ===== *)
theory Sim_Props
  imports Example_Net
begin

text \<open>
  The properties of the simulators, the truth tables and the miter, each with the run on the
  example circuits that shows its hypotheses can hold.
\<close>

section \<open>The simulators\<close>

text \<open>C11: \<open>OutputValue\<close> terminates with enough fuel, changes nothing but signals, never sets a
  wrong one, and gives the node it is called on the value of its Boolean function.\<close>

theorem OutputValue_computes:
  assumes "net_wf h0 A r" and "a \<in> A" and "r a < n" and "signals_ok h0 \<sigma> A h"
  shows "\<exists>h' b. OutputValue n a h = Inr h' \<and> signals_ok h0 \<sigma> A h' \<and>
           evals h0 \<sigma> a b \<and> n_signal (h' a) = bool_sig b"
  using OutputValue_correct_aux [OF assms] by (auto simp: ov_post_def)

lemma OutputValue_computes_witness:
  "\<exists>h' b. OutputValue 8 3 ex_driven = Inr h' \<and> signals_ok ex_heap ex_asg ex_nodes h' \<and>
     evals ex_heap ex_asg 3 b \<and> n_signal (h' 3) = bool_sig b"
  by (rule OutputValue_computes [OF ex_net_wf _ _ ex_signals_ok]) (simp_all add: ex_nodes_def)

text \<open>C12: on every netlist whose gates have right word formulas (\<open>get_ok\<close>: no \<open>ONEBUF\<close>, no inverted \<open>NAND\<close> or \<open>NOR\<close>)
  the bit-parallel descent \<open>getResult\<close> and the scalar one \<open>OutputValue\<close> agree: lane \<open>i\<close> of
  the word is the signal the scalar simulator computes when input \<open>k\<close> carries lane \<open>i\<close> of its word.\<close>

theorem getResult_OutputValue_equiv:
  assumes wf: "net_wf h A r" and a: "a \<in> A" "r a < n" and i: "i < 8192"
    and ok: "\<forall>x \<in> A. n_type (h x) \<noteq> INPUT \<longrightarrow> get_ok (n_type (h x)) (n_inv (h x))"
    and sig: "signals_ok h (lane_asg i (\<lambda>g. pv (inputs ! nat (n_idx (h g))))) A hs"
  shows "\<exists>w m hs'. getResult inputs pv h n a Map.empty = Inr (w, m) \<and>
           OutputValue n a hs = Inr hs' \<and> n_signal (hs' a) = bool_sig (bit w i)"
proof -
  let ?leaf = "\<lambda>g. pv (inputs ! nat (n_idx (h g)))"
  obtain w m where w: "simGet getResult_op ?leaf h n a Map.empty = Inr (w, m)"
    "\<forall>i < 8192. evals h (lane_asg i ?leaf) a (bit w i)"
    using get.simGet_correct [OF wf _ a get.memo_ok_empty, of ?leaf] ok by blast
  obtain hs' b where hs': "OutputValue n a hs = Inr hs'" "evals h (lane_asg i ?leaf) a b"
    "n_signal (hs' a) = bool_sig b"
    using OutputValue_correct_aux [OF wf a sig] by blast
  have "b = bit w i" using w(2) i hs'(2) evals_det by blast
  then show ?thesis using w(1) hs' by (auto simp: getResult_def)
qed

lemma getResult_OutputValue_equiv_witness:
  "\<exists>w m hs'. getResult [0, 1] (\<lambda>a. if a = 0 then 1 else 0) ex_heap 8 3 Map.empty = Inr (w, m) \<and>
     OutputValue 8 3 ex_driven = Inr hs' \<and> n_signal (hs' 3) = bool_sig (bit w 0)"
proof (rule getResult_OutputValue_equiv [where A = "{0, 1, 2, 3}" and r = "\<lambda>a. a"])
  let ?\<sigma> = "lane_asg 0 (\<lambda>g. if [0, 1] ! nat (n_idx (ex_heap g)) = (0 :: nat) then 1 else 0)"
  have inp: "evals ex_heap ?\<sigma> a (ex_asg a)" if "a \<in> {0, 1}" for a
    using that by (auto simp: evals_input_iff lane_asg_def ex_asg_def)
  show "signals_ok ex_heap ?\<sigma> {0, 1, 2, 3} ex_driven"
    using ex_signals_ok inp [of 0] inp [of 1]
    by (auto simp: signals_ok_def ex_asg_def ex_driven_def upd_apply bool_sig_def)
  show "net_wf ex_heap {0, 1, 2, 3} (\<lambda>a. a)"
    by (simp add: net_wf_def gate_wf_def sim_types_def)
  show "\<forall>x \<in> {0, 1, 2, 3}. n_type (ex_heap x) \<noteq> INPUT \<longrightarrow> get_ok (n_type (ex_heap x)) (n_inv (ex_heap x))"
    using ex_get_ok by (simp add: ex_nodes_def)
qed simp_all

text \<open>C13: the formulas for \<open>NAND\<close> and \<open>NOR\<close> with inverted inputs, and for \<open>ONEBUF\<close>, are wrong in
  both bit-parallel simulators: each disagrees with the gate's function (which the scalar simulator
  computes) in some lane of some pattern words.\<close>

definition lane_wrong :: "(gtype \<Rightarrow> nat \<Rightarrow> bitset list \<Rightarrow> bitset res) \<Rightarrow> gtype \<Rightarrow> nat \<Rightarrow> bool" where
  "lane_wrong op t k \<longleftrightarrow> (\<exists>ws i w b. length ws = arity t \<and> i < 8192 \<and> op t k ws = Inr w \<and>
     gate_sem t (inv_first k (lane i ws)) = Some b \<and> b \<noteq> bit w i)"

lemma lane_wrongI:
  "(case op t k ws of Inl e \<Rightarrow> False | Inr w \<Rightarrow>
      length ws = arity t \<and> gate_sem t (inv_first k (lane 1 ws)) = Some (\<not> bit w 1)) \<Longrightarrow> lane_wrong op t k"
  unfolding lane_wrong_def
  by (intro exI [of _ ws] exI [of _ "1 :: nat"]) (auto split: sum.splits)

theorem word_formulas_wrong:
  "list_all (\<lambda>(t, k). lane_wrong getResult_op t k \<and> lane_wrong miterGetResult_op t k)
     [(NAND, 1), (NAND, 2), (NOR, 1), (NOR, 2), (ONEBUF, 0)]"
proof -
  have "lane_wrong op NAND 1" "lane_wrong op NOR 2" "lane_wrong op NAND 2" "lane_wrong op NOR 1"
    "lane_wrong op ONEBUF 0" if op: "op = getResult_op \<or> op = miterGetResult_op" for op
    using op
    by (auto intro: lane_wrongI [where ws = "[0, 0]"] lane_wrongI [where ws = "[0, not 0]"]
          lane_wrongI [where ws = "[]"] simp: getResult_op_def miterGetResult_op_def bit_simps)
  then show ?thesis by simp
qed

section \<open>The truth tables\<close>

text \<open>C7: with at most 30 inputs, and gates whose word formulas are right (\<open>get_ok\<close>: no \<open>ONEBUF\<close>, no inverted \<open>NAND\<close> or \<open>NOR\<close>),
  \<open>truthTable_new\<close> (8192 patterns at a time) returns exactly what the reference
  \<open>truthTable\<close> (one pattern at a time) returns, the table of the netlist's Boolean functions with
  its on-set sizes and sensitivity vectors, whatever the pattern words held before. With more than
  30 inputs the \<open>int\<close> pattern count of the code overflows; on the excluded gates the two differ.\<close>

theorem truthTable_new_equiv:
  assumes wf: "module_wf h m r" and small: "length (m_gate m INPUT) \<le> 30"
    and fuel: "\<forall>x \<in> set (m_gate m OUTPUT). r x < n"
    and ok: "\<forall>x \<in> set (m_netlist m). n_type (h x) \<noteq> INPUT \<longrightarrow> get_ok (n_type (h x)) (n_inv (h x))"
  shows "truthTable_new n m h pv0 Map.empty = truthTable n m h \<and>
     (\<exists>tt onset osv. truthTable n m h = Inr (tt, onset, osv) \<and> tt_ok h m tt \<and> onset_ok m tt onset)"
proof -
  obtain tt onset where 1: "truthTable n m h =
      Inr (tt, onset, OSV_of (length (m_gate m INPUT)) (length (m_gate m OUTPUT)) tt)"
    "tt_ok h m tt" "onset_ok m tt onset"
    using truthTable_correct_aux [OF wf fuel] by blast
  obtain tt' onset' where 2: "truthTable_new n m h pv0 Map.empty =
      Inr (tt', onset', OSV_of (length (m_gate m INPUT)) (length (m_gate m OUTPUT)) tt')"
    "tt_ok h m tt'" "onset_ok m tt' onset'"
    using truthTable_new_correct_aux [OF wf fuel ok] by blast
  have "tt' = tt" using tt_ok_unique [OF 2(2) 1(2)] .
  then show ?thesis using 1 2 by (auto simp: onset_ok_def)
qed

lemma truthTable_new_equiv_witness:
  "truthTable_new 8 ex_module ex_heap (\<lambda>_. 0) Map.empty = truthTable 8 ex_module ex_heap \<and>
   (\<exists>tt onset osv. truthTable 8 ex_module ex_heap = Inr (tt, onset, osv) \<and>
      tt_ok ex_heap ex_module tt \<and> onset_ok ex_module tt onset)"
  by (rule truthTable_new_equiv [OF ex_module_wf])
     (simp_all add: ex_module_def get_ok_def sim_types_def)

section \<open>The miter\<close>

text \<open>C5: with fewer than 18 matched inputs of circuit 1 the miter is exact on netlists whose gates have right word formulas (\<open>miter_ok\<close>:
  no \<open>ONEBUF\<close>, no \<open>INV\<close>, no inverted \<open>NAND\<close> or \<open>NOR\<close>): it answers 1 when the
  two outputs are equal on every assignment the matching induces, 2 when they are complementary on
  every one, and 0 otherwise, for every iteration order of the node set. On the gates that are excluded the formulas are wrong.\<close>

theorem miter_exhaustive_exact:
  assumes "miter_args_ok input1 input2 output1 output2 pairs negs out_pair cm"
    and "sim_ready h A r n" and "set output1 \<subseteq> A" and "set output2 \<subseteq> A"
    and "iteration_order ord"
    and "length (c1_inputs (wires_of input1 input2 pairs negs)) < 18"
  shows "miterOneOutputRandom ord rnd h n input1 input2 output1 output2 pairs negs out_pair cm =
     Inr (if pair_agree h input1 input2 output1 output2 pairs negs out_pair cm False then 1
          else if pair_agree h input1 input2 output1 output2 pairs negs out_pair cm True then 2 else 0)"
  by (rule miter_small [OF assms])

lemma miter_exhaustive_exact_witness:
  "miterOneOutputRandom id (\<lambda>k. k) ex_heap 8 [0, 1] [4, 5] [3] [7] [(0, 0), (1, 1)] [True, True] (0, 0) [] = Inr 2"
proof -
  have "miterOneOutputRandom id (\<lambda>k. k) ex_heap 8 [0, 1] [4, 5] [3] [7] [(0, 0), (1, 1)] [True, True] (0, 0) [] =
     Inr (if pair_agree ex_heap [0, 1] [4, 5] [3] [7] [(0, 0), (1, 1)] [True, True] (0, 0) [] False then 1
          else if pair_agree ex_heap [0, 1] [4, 5] [3] [7] [(0, 0), (1, 1)] [True, True] (0, 0) [] True then 2 else 0)"
    by (rule miter_exhaustive_exact [OF ex_miter_args ex_sim_ready])
       (simp_all add: ex_nodes_def iteration_order_def ex_wires c1_inputs_def)
  then show ?thesis by (simp only: ex_pair_agree if_False if_True)
qed

text \<open>C6: on netlists whose gates have right word formulas (\<open>miter_ok\<close>: no \<open>ONEBUF\<close>, no \<open>INV\<close>, no inverted \<open>NAND\<close> or \<open>NOR\<close>)
  the miter never rejects a correct pair: two outputs that agree on every assignment the
  matching induces get 1 (2 when complementary), however many inputs there are, for every random
  sequence and every iteration order; in particular the run returns. With a \<open>ONEBUF\<close>, which is the word 1, a correct pair may be rejected.\<close>

theorem miter_never_rejects:
  assumes "miter_args_ok input1 input2 output1 output2 pairs negs out_pair cm"
    and "sim_ready h A r n" and "set output1 \<subseteq> A" and "set output2 \<subseteq> A"
    and "iteration_order ord"
    and "pair_agree h input1 input2 output1 output2 pairs negs out_pair cm neg"
  shows "miterOneOutputRandom ord rnd h n input1 input2 output1 output2 pairs negs out_pair cm =
     Inr (if neg then 2 else 1)"
  by (rule miter_agree [OF assms])

lemma miter_never_rejects_witness:
  "miterOneOutputRandom rev (\<lambda>k. k) ex_heap 8 [0, 1] [4, 5] [3] [7] [(0, 0), (1, 1)] [True, True] (0, 0) [] = Inr 2"
  using miter_never_rejects [OF ex_miter_args ex_sim_ready, of rev True "\<lambda>k. k"] ex_pair_agree [of True]
  by (simp add: ex_nodes_def iteration_order_def)

end
