(* ===== verification/Output_Writer.thy ===== *)
theory Output_Writer
  imports Net_Types
begin

text \<open>
  The answer file: \<open>writeOutput\<close> of \<open>Output.h\<close> and the translation of a pair of lock vectors into
  its arguments, as \<open>Match::writePartialAns\<close> does it. The console is modelled as far as it reports
  a port that is matched twice. The lemmas show the text written for a pair of locks and that no
  port is reported.
\<close>

section \<open>The definitions\<close>

text \<open>A lock: index of the port of circuit 1 (-1 for none, -2 for a constant) and the negation.\<close>

type_synonym lock = "int \<times> bool"

definition CONST_VAL :: int where
  "CONST_VAL = -2"

text \<open>The file written so far, the set of matched ports and the ports reported as errors.\<close>

type_synonym out_state = "string \<times> int list \<times> int list"

definition write_line :: "string \<Rightarrow> string \<Rightarrow> string" where
  "write_line s ofs = ofs @ s @ [CHR 0x0A]"

definition note_port :: "int \<Rightarrow> int list \<times> int list \<Rightarrow> int list \<times> int list" where
  "note_port port s = (let (seen, errs) = s
     in if port \<in> set seen then (seen, errs @ [port]) else (seen @ [port], errs))"

definition write_member :: "(addr \<Rightarrow> node) \<Rightarrow> addr list \<Rightarrow> bool list \<Rightarrow> int \<Rightarrow> out_state \<Rightarrow> out_state res" where
  "write_member h ports2 negs port st =
     rbind (vget negs port) (\<lambda>ng. rbind (vget ports2 port) (\<lambda>a.
       let (ofs, s) = st
       in Inr (write_line (''2 '' @ (if ng then ''-'' else ''+'') @ '' '' @ n_name (h a)) ofs, note_port port s)))"

definition write_group :: "(addr \<Rightarrow> node) \<Rightarrow> string \<Rightarrow> addr list \<Rightarrow> addr list \<Rightarrow> int list list \<Rightarrow> bool list \<Rightarrow>
    nat \<Rightarrow> out_state \<Rightarrow> out_state res" where
  "write_group h keyword ports1 ports2 match_pair negs i st =
     rbind (vget ports1 (int i)) (\<lambda>a.
       let (ofs, s) = st
       in rbind (rfold (write_member h ports2 negs) (match_pair ! i)
                   (write_line (''1 + '' @ n_name (h a)) (write_line keyword ofs), s))
            (\<lambda>(ofs, s). Inr (write_line ''END'' ofs, s)))"

definition write_const :: "(addr \<Rightarrow> node) \<Rightarrow> addr list \<Rightarrow> bool \<times> int \<Rightarrow> out_state \<Rightarrow> out_state res" where
  "write_const h input2 cm st =
     rbind (vget input2 (snd cm)) (\<lambda>a.
       let (ofs, s) = st
       in Inr (write_line ((if fst cm then ''-'' else ''+'') @ '' '' @ n_name (h a)) ofs, note_port (snd cm) s))"

text \<open>
  \<open>writeOutput\<close> gives the text of the file and the ports it reported on the console. The constants
  share the set of matched ports with the inputs.
\<close>

definition writeOutput :: "(addr \<Rightarrow> node) \<Rightarrow> addr list \<Rightarrow> addr list \<Rightarrow> addr list \<Rightarrow> addr list \<Rightarrow>
    int list list \<Rightarrow> bool list \<Rightarrow> int list list \<Rightarrow> bool list \<Rightarrow> (bool \<times> int) list \<Rightarrow> (string \<times> int list) res" where
  "writeOutput h input1 input2 output1 output2 in_match_pair in_match_neg out_match_pair out_match_neg const_match =
     rbind (rfold (write_group h ''INGROUP'' input1 input2 in_match_pair in_match_neg)
              [0..<length in_match_pair] ([], [], [])) (\<lambda>(ofs, seen_in, errs).
     rbind (rfold (write_group h ''OUTGROUP'' output1 output2 out_match_pair out_match_neg)
              [0..<length out_match_pair] (ofs, [], errs)) (\<lambda>(ofs, seen_out, errs).
     if const_match = [] then Inr (ofs, errs)
     else rbind (rfold (write_const h input2) const_match (write_line ''CONSTGROUP'' ofs, seen_in, errs))
            (\<lambda>(ofs, seen, errs). Inr (write_line ''END'' ofs, errs))))"

text \<open>
  The loops of \<open>writePartialAns\<close> that turn the locks into match vectors: \<open>tables\<close> holds the
  vector of matches, the negations and the constants.
\<close>

type_synonym tables = "int list list \<times> bool list \<times> (bool \<times> int) list"

definition add_lock :: "bool \<Rightarrow> lock list \<Rightarrow> nat \<Rightarrow> tables \<Rightarrow> tables res" where
  "add_lock consts locks i t =
     (let (c1Idx, neg) = locks ! i; (mp, ne, cm) = t
      in if c1Idx = -1 then Inr t
         else if consts \<and> c1Idx = CONST_VAL then Inr (mp, ne, cm @ [(neg, int i)])
         else rbind (vget mp c1Idx) (\<lambda>xs. rbind (vset mp c1Idx (xs @ [int i])) (\<lambda>mp.
              rbind (vset ne (int i) neg) (\<lambda>ne. Inr (mp, ne, cm)))))"

definition lock_tables :: "bool \<Rightarrow> nat \<Rightarrow> nat \<Rightarrow> lock list \<Rightarrow> (bool \<times> int) list \<Rightarrow> tables res" where
  "lock_tables consts size1 size2 locks cm =
     rfold (add_lock consts locks) [0..<length locks] (replicate size1 [], replicate size2 False, cm)"

definition writePartialAns :: "(addr \<Rightarrow> node) \<Rightarrow> addr list \<Rightarrow> addr list \<Rightarrow> addr list \<Rightarrow> addr list \<Rightarrow>
    lock list \<Rightarrow> lock list \<Rightarrow> (string \<times> int list) res" where
  "writePartialAns h input1 input2 output1 output2 maxInputMatch maxOutputMatch =
     rbind (lock_tables True (length input1) (length input2) maxInputMatch []) (\<lambda>(in_match_pair, in_ne, const_match).
     rbind (lock_tables False (length output1) (length output2) maxOutputMatch []) (\<lambda>(out_match_pair, out_ne, _).
     writeOutput h input1 input2 output1 output2 in_match_pair in_ne out_match_pair out_ne const_match))"

section \<open>The tables of a lock vector\<close>

definition members :: "lock list \<Rightarrow> int \<Rightarrow> int list" where
  "members locks c = map int (filter (\<lambda>j. fst (locks ! j) = c) [0..<length locks])"

text \<open>Locks that name ports of circuit 1, constants (where allowed) or nothing.\<close>

definition locks_ok :: "bool \<Rightarrow> nat \<Rightarrow> nat \<Rightarrow> lock list \<Rightarrow> bool" where
  "locks_ok consts size1 size2 locks \<longleftrightarrow> length locks = size2 \<and>
     (\<forall>l \<in> set locks. fst l = -1 \<or> consts \<and> fst l = CONST_VAL \<or> 0 \<le> fst l \<and> fst l < int size1)"

definition tables_of :: "bool \<Rightarrow> nat \<Rightarrow> nat \<Rightarrow> lock list \<Rightarrow> tables" where
  "tables_of consts size1 size2 locks =
     (map (\<lambda>c. members locks (int c)) [0..<size1],
      map (\<lambda>j. fst (locks ! j) \<ge> 0 \<and> snd (locks ! j)) [0..<size2],
      if consts then map (\<lambda>j. (snd (locks ! nat j), j)) (members locks CONST_VAL) else [])"

lemma lock_tables_prefix:
  assumes ok: "locks_ok consts size1 size2 locks" and "n \<le> length locks"
  shows "rfold (add_lock consts locks) [0..<n] (replicate size1 [], replicate size2 False, []) =
    Inr (map (\<lambda>c. map int (filter (\<lambda>j. fst (locks ! j) = int c) [0..<n])) [0..<size1],
         map (\<lambda>j. j < n \<and> fst (locks ! j) \<ge> 0 \<and> snd (locks ! j)) [0..<size2],
         if consts then map (\<lambda>j. (snd (locks ! j), int j)) (filter (\<lambda>j. fst (locks ! j) = CONST_VAL) [0..<n]) else [])"
  using assms(2)
proof (induction n)
  case 0
  then show ?case by (simp add: map_replicate_const)
next
  case (Suc n)
  obtain c ng where l: "locks ! n = (c, ng)" by (cases "locks ! n")
  have "locks ! n \<in> set locks" using Suc.prems by simp
  then have c: "c = -1 \<or> consts \<and> c = CONST_VAL \<or> 0 \<le> c \<and> c < int size1" and len: "n < size2"
    using ok l Suc.prems by (auto simp: locks_ok_def)
  from c show ?case
  proof (elim disjE)
    assume "c = -1"
    then show ?thesis using Suc l
      by (auto simp: rfold_append add_lock_def CONST_VAL_def less_Suc_eq intro!: list.map_cong0)
  next
    assume "consts \<and> c = CONST_VAL"
    then show ?thesis using Suc l
      by (auto simp: rfold_append add_lock_def CONST_VAL_def less_Suc_eq intro!: list.map_cong0)
  next
    assume "0 \<le> c \<and> c < int size1"
    then show ?thesis using Suc l len
      by (auto simp: rfold_append add_lock_def CONST_VAL_def less_Suc_eq in_range_def vset_def vget_def
          intro!: nth_equalityI simp: nth_list_update split: if_splits)
  qed
qed

lemma lock_tables_ok:
  assumes "locks_ok consts size1 size2 locks"
  shows "lock_tables consts size1 size2 locks [] = Inr (tables_of consts size1 size2 locks)"
proof -
  have "length locks = size2" using assms by (simp add: locks_ok_def)
  then show ?thesis
    using lock_tables_prefix [OF assms order_refl]
    by (auto simp: lock_tables_def tables_of_def members_def)
qed

section \<open>The text\<close>

definition line :: "string \<Rightarrow> string" where
  "line s = s @ [CHR 0x0A]"

definition sign :: "bool \<Rightarrow> string" where
  "sign ng = (if ng then ''-'' else ''+'')"

definition member_line :: "(addr \<Rightarrow> node) \<Rightarrow> addr list \<Rightarrow> bool \<Rightarrow> nat \<Rightarrow> string" where
  "member_line h ports2 ng j = line (''2 '' @ sign ng @ '' '' @ n_name (h (ports2 ! j)))"

definition const_line :: "(addr \<Rightarrow> node) \<Rightarrow> addr list \<Rightarrow> bool \<Rightarrow> nat \<Rightarrow> string" where
  "const_line h input2 c j = line (sign c @ '' '' @ n_name (h (input2 ! j)))"

definition render_group :: "(addr \<Rightarrow> node) \<Rightarrow> string \<Rightarrow> addr list \<Rightarrow> addr list \<Rightarrow> lock list \<Rightarrow> nat \<Rightarrow> string" where
  "render_group h keyword ports1 ports2 locks i =
     line keyword @ line (''1 + '' @ n_name (h (ports1 ! i))) @
     concat (map (\<lambda>p. member_line h ports2 (snd (locks ! nat p)) (nat p)) (members locks (int i))) @ line ''END''"

definition render_consts :: "(addr \<Rightarrow> node) \<Rightarrow> addr list \<Rightarrow> lock list \<Rightarrow> string" where
  "render_consts h input2 locks =
     (let ps = members locks CONST_VAL
      in if ps = [] then []
         else line ''CONSTGROUP'' @
              concat (map (\<lambda>p. const_line h input2 (snd (locks ! nat p)) (nat p)) ps) @ line ''END'')"

definition render_answer :: "(addr \<Rightarrow> node) \<Rightarrow> addr list \<Rightarrow> addr list \<Rightarrow> addr list \<Rightarrow> addr list \<Rightarrow>
    lock list \<Rightarrow> lock list \<Rightarrow> string" where
  "render_answer h input1 input2 output1 output2 inputMatch outputMatch =
     concat (map (render_group h ''INGROUP'' input1 input2 inputMatch) [0..<length input1]) @
     concat (map (render_group h ''OUTGROUP'' output1 output2 outputMatch) [0..<length output1]) @
     render_consts h input2 inputMatch"

lemma write_line_line: "write_line s ofs = ofs @ line s"
  by (simp add: write_line_def line_def)

lemma write_member_line:
  assumes "in_range ports2 p" and "in_range negs p"
  shows "write_member h ports2 negs p (ofs, s) = Inr (ofs @ member_line h ports2 (negs ! nat p) (nat p), note_port p s)"
  using assms by (simp add: write_member_def write_line_line member_line_def sign_def)

lemma write_const_line:
  assumes "in_range input2 (snd cm)"
  shows "write_const h input2 cm (ofs, s) =
    Inr (ofs @ const_line h input2 (fst cm) (nat (snd cm)), note_port (snd cm) s)"
  using assms by (simp add: write_const_def write_line_line const_line_def sign_def)

lemma note_port_new: "p \<notin> set seen \<Longrightarrow> note_port p (seen, errs) = (seen @ [p], errs)"
  by (simp add: note_port_def)

text \<open>Ports written for the first time are not reported.\<close>

lemma write_ports:
  assumes step: "\<And>x ofs s. x \<in> set xs \<Longrightarrow> f x (ofs, s) = Inr (ofs @ txt x, note_port (port x) s)"
    and "distinct (map port xs)" and "port ` set xs \<inter> set seen = {}"
  shows "rfold f xs (ofs, seen, errs) = Inr (ofs @ concat (map txt xs), seen @ map port xs, errs)"
  using assms
proof (induction xs arbitrary: ofs seen)
  case Nil
  then show ?case by simp
next
  case (Cons x xs)
  have "f x (ofs, seen, errs) = Inr (ofs @ txt x, seen @ [port x], errs)"
    using Cons.prems by (simp add: note_port_new)
  moreover have "rfold f xs (ofs @ txt x, seen @ [port x], errs) =
      Inr ((ofs @ txt x) @ concat (map txt xs), (seen @ [port x]) @ map port xs, errs)"
    by (rule Cons.IH) (use Cons.prems in auto)
  ultimately show ?case by simp
qed

lemma members_facts:
  "distinct (members locks c)" "p \<in> set (members locks c) \<longleftrightarrow> in_range locks p \<and> fst (locks ! nat p) = c"
proof -
  show "distinct (members locks c)" by (simp add: members_def distinct_map)
  show "p \<in> set (members locks c) \<longleftrightarrow> in_range locks p \<and> fst (locks ! nat p) = c"
  proof
    assume *: "in_range locks p \<and> fst (locks ! nat p) = c"
    have "nat p \<in> set (filter (\<lambda>j. fst (locks ! j) = c) [0..<length locks])"
      using * in_rangeD [of locks p] by simp
    moreover have "int (nat p) = p" using * by (simp add: in_range_def)
    ultimately show "p \<in> set (members locks c)" unfolding members_def set_map by (metis image_eqI)
  qed (auto simp: members_def)
qed

definition lock_negs :: "lock list \<Rightarrow> nat \<Rightarrow> bool list" where
  "lock_negs locks n = map (\<lambda>j. fst (locks ! j) \<ge> 0 \<and> snd (locks ! j)) [0..<n]"

definition lock_members :: "lock list \<Rightarrow> nat \<Rightarrow> int list list" where
  "lock_members locks n = map (\<lambda>c. members locks (int c)) [0..<n]"

definition seen_below :: "lock list \<Rightarrow> nat \<Rightarrow> int list \<Rightarrow> bool" where
  "seen_below locks n seen \<longleftrightarrow>
     (\<forall>p \<in> set seen. in_range locks p \<and> 0 \<le> fst (locks ! nat p) \<and> fst (locks ! nat p) < int n)"

lemma write_group_ok:
  assumes ok: "locks_ok consts (length ports1) (length ports2) locks" and n: "n < length ports1"
    and seen: "seen_below locks n seen"
  shows "write_group h keyword ports1 ports2 (lock_members locks (length ports1)) (lock_negs locks (length ports2)) n
      (ofs, seen, errs) = Inr (ofs @ render_group h keyword ports1 ports2 locks n, seen @ members locks (int n), errs)"
    and "seen_below locks (Suc n) (seen @ members locks (int n))"
proof -
  let ?negs = "lock_negs locks (length ports2)" and ?ps = "members locks (int n)"
  have len: "length locks = length ports2" using ok by (simp add: locks_ok_def)
  have step: "write_member h ports2 ?negs p (o', s) =
      Inr (o' @ member_line h ports2 (snd (locks ! nat p)) (nat p), note_port p s)" if "p \<in> set ?ps" for p o' s
  proof -
    have "nat p < length ports2" "fst (locks ! nat p) = int n" "in_range ports2 p"
      using that len by (auto simp: members_facts in_range_def)
    then show ?thesis using write_member_line [of ports2 p ?negs h o' s] by (simp add: lock_negs_def in_range_def)
  qed
  have "set ?ps \<inter> set seen = {}" using seen by (auto simp: members_facts seen_below_def)
  then have "rfold (write_member h ports2 ?negs) ?ps (o', seen, errs) =
      Inr (o' @ concat (map (\<lambda>p. member_line h ports2 (snd (locks ! nat p)) (nat p)) ?ps), seen @ ?ps, errs)" for o'
    using write_ports [where port = "\<lambda>p. p" and xs = ?ps, OF step] by (simp add: members_facts)
  then show "write_group h keyword ports1 ports2 (lock_members locks (length ports1)) ?negs n (ofs, seen, errs) =
      Inr (ofs @ render_group h keyword ports1 ports2 locks n, seen @ ?ps, errs)"
    using n by (simp add: write_group_def write_line_line render_group_def lock_members_def)
  show "seen_below locks (Suc n) (seen @ ?ps)"
    using seen by (fastforce simp: seen_below_def members_facts)
qed

lemma write_groups_ok:
  assumes ok: "locks_ok consts (length ports1) (length ports2) locks" and "n \<le> length ports1"
  shows "\<exists>seen. rfold (write_group h keyword ports1 ports2 (lock_members locks (length ports1))
       (lock_negs locks (length ports2))) [0..<n] (ofs, [], errs) =
     Inr (ofs @ concat (map (render_group h keyword ports1 ports2 locks) [0..<n]), seen, errs) \<and>
     seen_below locks n seen"
  using assms(2)
proof (induction n)
  case 0
  then show ?case by (simp add: seen_below_def)
next
  case (Suc n)
  then obtain seen where IH: "rfold (write_group h keyword ports1 ports2 (lock_members locks (length ports1))
       (lock_negs locks (length ports2))) [0..<n] (ofs, [], errs) =
     Inr (ofs @ concat (map (render_group h keyword ports1 ports2 locks) [0..<n]), seen, errs)"
     "seen_below locks n seen"
    by auto
  then show ?case
    using write_group_ok [OF ok _ IH(2)] Suc.prems by (simp add: rfold_append)
qed

lemma write_consts_ok:
  assumes len: "length locks = length input2" and seen: "seen_below locks n seen"
  shows "\<exists>s. rfold (write_const h input2) (map (\<lambda>p. (snd (locks ! nat p), p)) (members locks CONST_VAL))
      (ofs, seen, errs) =
    Inr (ofs @ concat (map (\<lambda>p. const_line h input2 (snd (locks ! nat p)) (nat p)) (members locks CONST_VAL)), s, errs)"
proof -
  let ?ps = "members locks CONST_VAL"
  let ?xs = "map (\<lambda>p. (snd (locks ! nat p), p)) ?ps"
  have step: "write_const h input2 x (o', s) =
      Inr (o' @ const_line h input2 (fst x) (nat (snd x)), note_port (snd x) s)" if "x \<in> set ?xs" for x o' s
    using that len by (intro write_const_line) (auto simp: members_facts in_range_def)
  have "snd ` set ?xs \<inter> set seen = {}"
    using seen by (force simp: members_facts seen_below_def CONST_VAL_def)
  moreover have "distinct (map snd ?xs)" by (simp add: o_def members_facts)
  ultimately show ?thesis using write_ports [where port = snd and xs = ?xs, OF step] by (simp add: o_def)
qed

text \<open>The file of a pair of locks, and no port reported as matched twice.\<close>

lemma writePartialAns_ok:
  assumes i: "locks_ok True (length input1) (length input2) il"
    and o: "locks_ok False (length output1) (length output2) ol"
  shows "writePartialAns h input1 input2 output1 output2 il ol =
    Inr (render_answer h input1 input2 output1 output2 il ol, [])"
proof -
  let ?in = "concat (map (render_group h ''INGROUP'' input1 input2 il) [0..<length input1])"
  let ?out = "concat (map (render_group h ''OUTGROUP'' output1 output2 ol) [0..<length output1])"
  have len: "length il = length input2" using i by (simp add: locks_ok_def)
  obtain s1 where 1: "rfold (write_group h ''INGROUP'' input1 input2 (lock_members il (length input1))
       (lock_negs il (length input2))) [0..<length input1] ([], [], []) = Inr (?in, s1, [])"
    "seen_below il (length input1) s1"
    using write_groups_ok [OF i order_refl, where ofs = "[]" and errs = "[]" and keyword = "''INGROUP''"] by auto
  obtain s2 where 2: "rfold (write_group h ''OUTGROUP'' output1 output2 (lock_members ol (length output1))
       (lock_negs ol (length output2))) [0..<length output1] (?in, [], []) = Inr (?in @ ?out, s2, [])"
    using write_groups_ok [OF o order_refl, where ofs = ?in and errs = "[]" and keyword = "''OUTGROUP''"] by auto
  obtain s3 where 3: "rfold (write_const h input2) (map (\<lambda>p. (snd (il ! nat p), p)) (members il CONST_VAL))
      ((?in @ ?out) @ line ''CONSTGROUP'', s1, []) =
    Inr (((?in @ ?out) @ line ''CONSTGROUP'') @
      concat (map (\<lambda>p. const_line h input2 (snd (il ! nat p)) (nat p)) (members il CONST_VAL)), s3, [])"
    using write_consts_ok [OF len 1(2)] by blast
  have t: "lock_tables True (length input1) (length input2) il [] = Inr (lock_members il (length input1),
      lock_negs il (length input2), map (\<lambda>p. (snd (il ! nat p), p)) (members il CONST_VAL))"
    "lock_tables False (length output1) (length output2) ol [] = Inr (lock_members ol (length output1),
      lock_negs ol (length output2), [])"
    using lock_tables_ok [OF i] lock_tables_ok [OF o]
    by (simp_all add: tables_of_def lock_members_def lock_negs_def)
  have l: "length (lock_members ls n) = n" for ls n by (simp add: lock_members_def)
  show ?thesis
    unfolding writePartialAns_def t rbind_Inr prod.case writeOutput_def l 1(1) 2 write_line_line 3
    by (simp add: render_answer_def render_consts_def Let_def)
qed

end
