(* ===== verification/Match_Search.thy ===== *)
theory Match_Search
  imports Output_Writer Miter_Correct
begin

text \<open>
  The backtracking search of class \<open>Match\<close>: \<open>match_output\<close>, \<open>match_input\<close>, \<open>filtLockedInput\<close> and
  \<open>next_match\<close> of \<open>Matching.cpp\<close>. What the search does not change is the record \<open>ctx\<close>; the lock
  vectors and counters that are undone on backtracking are the record \<open>locks\<close>; the best answer,
  the priorities of the outputs and the answer file, which are kept, are the record \<open>best\<close>.
\<close>

section \<open>State\<close>

record ctx =
  x_caseID :: string
  x_initOn :: bool
  x_inputSizeEq :: bool
  x_input1 :: "addr list"
  x_input2 :: "addr list"
  x_output1 :: "addr list"
  x_output2 :: "addr list"
  x_output_support1 :: "addr list list"
  x_output_support2 :: "addr list list"
  x_output_match_order :: "addr list"
  x_output_match_cand :: "addr list list"
  x_input_match_cand :: "addr list list"
  x_output_to_inputBus :: "int list list"
  x_isPIinPO :: "bool list list"
  x_init_input :: "addr option list"
  x_init_input_ne :: "int list"
  x_nodes :: "addr \<Rightarrow> node"
  x_fuel :: nat
  x_ord :: "addr list \<Rightarrow> addr list"
  x_rnd :: "nat \<Rightarrow> nat"

record locks =
  inputLock :: "lock list"
  inputLockCount :: "int list"
  outputLock :: "lock list"
  c1_OutputLockCount :: "int list"
  bus_2_to_1 :: "int list"
  bus_1_to_2 :: "int list"
  bus_2_to_1_count :: "int list"
  c1_inputMatchCount :: "int list"

record best =
  maxOutputDepth :: int
  maxOutputMatch :: "lock list"
  maxInputMatch :: "lock list"
  findOutputBest :: bool
  priority :: "addr \<Rightarrow> int"
  answer_file :: string

text \<open>
  \<open>PO2Size\<close> is the length of \<open>x_output2\<close>. The last fields are the parameters of the miter: the
  stack it may use, the iteration order of its node set and the random sequence. The state of
  \<open>match_input\<close> adds the local variables it gets by reference: \<open>quota\<close> and \<open>c1_input_match_count\<close>.
\<close>

type_synonym loc = "int \<times> int list \<times> locks"

definition idx :: "ctx \<Rightarrow> addr \<Rightarrow> int" where
  "idx X a = n_idx (x_nodes X a)"

definition bus_idx :: "ctx \<Rightarrow> addr \<Rightarrow> int" where
  "bus_idx X a = n_bus_idx (x_nodes X a)"

text \<open>\<open>v[i] += d\<close> on a vector of counters.\<close>

definition vadd :: "int \<Rightarrow> int list \<Rightarrow> int \<Rightarrow> int list res" where
  "vadd d xs i = rbind (vget xs i) (\<lambda>k. vset xs i (k + d))"

section \<open>The bus maps\<close>

text \<open>Neither bus is mapped, or they are mapped to each other.\<close>

definition bus_free :: "locks \<Rightarrow> int \<Rightarrow> int \<Rightarrow> bool res" where
  "bus_free L b2 b1 = rbind (vget (bus_2_to_1 L) b2) (\<lambda>m2.
     if m2 = -1 then rbind (vget (bus_1_to_2 L) b1) (\<lambda>m1. Inr (m1 = -1)) else Inr False)"

definition bus_matched :: "locks \<Rightarrow> int \<Rightarrow> int \<Rightarrow> bool res" where
  "bus_matched L b2 b1 = rbind (vget (bus_2_to_1 L) b2) (\<lambda>m2.
     if m2 = b1 then rbind (vget (bus_1_to_2 L) b1) (\<lambda>m1. Inr (m1 = b2)) else Inr False)"

definition map_bus :: "int \<Rightarrow> int \<Rightarrow> locks \<Rightarrow> locks res" where
  "map_bus b2 b1 L = rbind (vset (bus_2_to_1 L) b2 b1) (\<lambda>m2.
     rbind (vset (bus_1_to_2 L) b1 b2) (\<lambda>m1. Inr (L\<lparr>bus_2_to_1 := m2, bus_1_to_2 := m1\<rparr>)))"

definition count_bus :: "int \<Rightarrow> int \<Rightarrow> locks \<Rightarrow> locks res" where
  "count_bus d b2 L = rbind (vadd d (bus_2_to_1_count L) b2) (\<lambda>c. Inr (L\<lparr>bus_2_to_1_count := c\<rparr>))"

text \<open>One use of the pair of buses less; with the last use the pair is unmapped.\<close>

definition release_bus :: "int \<Rightarrow> int \<Rightarrow> locks \<Rightarrow> locks res" where
  "release_bus b2 b1 L = rbind (count_bus (-1) b2 L) (\<lambda>L. rbind (vget (bus_2_to_1_count L) b2) (\<lambda>k.
     if k = 0 then rbind (vset (bus_2_to_1 L) b2 (-1)) (\<lambda>m2. rbind (vset (bus_1_to_2 L) b1 (-1)) (\<lambda>m1.
       Inr (L\<lparr>bus_2_to_1 := m2, bus_1_to_2 := m1\<rparr>)))
     else Inr L))"

text \<open>
  The bus condition of an input pair. A port of circuit 2 that lies on several buses needs a port
  of circuit 1 whose buses fit one by one; then all are mapped.
\<close>

fun multi_pass :: "locks \<Rightarrow> int list \<Rightarrow> int list \<Rightarrow> nat \<Rightarrow> nat \<Rightarrow> bool res" where
  "multi_pass L bs2 bs1 i 0 = Inr True"
| "multi_pass L bs2 bs1 i (Suc n) =
     rbind (vget bs2 (int i)) (\<lambda>b2. rbind (vget bs1 (int i)) (\<lambda>b1.
     rbind (bus_free L b2 b1) (\<lambda>f. rbind (if f then Inr True else bus_matched L b2 b1) (\<lambda>ok.
     if ok then multi_pass L bs2 bs1 (Suc i) n else Inr False))))"

definition occupy_multi :: "int list \<Rightarrow> int list \<Rightarrow> locks \<Rightarrow> locks res" where
  "occupy_multi bs2 bs1 L =
     rfold (\<lambda>i L. rbind (vget bs2 (int i)) (\<lambda>b2. rbind (vget bs1 (int i)) (\<lambda>b1.
       rbind (map_bus b2 b1 L) (count_bus 1 b2)))) [0..<length bs2] L"

definition release_multi :: "int list \<Rightarrow> int list \<Rightarrow> locks \<Rightarrow> locks res" where
  "release_multi bs2 bs1 L =
     rfold (\<lambda>i L. rbind (vget bs2 (int i)) (\<lambda>b2. rbind (vget bs1 (int i)) (\<lambda>b1. release_bus b2 b1 L)))
       [0..<length bs2] L"

definition occupy_buses :: "ctx \<Rightarrow> addr \<Rightarrow> addr \<Rightarrow> locks \<Rightarrow> locks option res" where
  "occupy_buses X c2_input c1_input L =
     (let bs2 = n_bus_indices (x_nodes X c2_input); bs1 = n_bus_indices (x_nodes X c1_input);
          b2 = bus_idx X c2_input; b1 = bus_idx X c1_input
      in if length bs2 > 1 then
           rbind (multi_pass L bs2 bs1 0 (length bs2)) (\<lambda>pass.
             if pass then rbind (occupy_multi bs2 bs1 L) (\<lambda>L. Inr (Some L)) else Inr None)
         else
           rbind (bus_free L b2 b1) (\<lambda>f.
             if f then rbind (map_bus b2 b1 L) (\<lambda>L. rbind (count_bus 1 b2 L) (\<lambda>L. Inr (Some L)))
             else rbind (if x_caseID X \<noteq> ''08'' \<or> n_name (x_nodes X c1_input) \<noteq> ''n84''
                         then rbind (bus_matched L b2 b1) (\<lambda>m. Inr (\<not> m)) else Inr False) (\<lambda>skip.
               if skip then Inr None else rbind (count_bus 1 b2 L) (\<lambda>L. Inr (Some L)))))"

definition release_buses :: "ctx \<Rightarrow> addr \<Rightarrow> addr \<Rightarrow> locks \<Rightarrow> locks res" where
  "release_buses X c2_input c1_input L =
     (let bs2 = n_bus_indices (x_nodes X c2_input); bs1 = n_bus_indices (x_nodes X c1_input)
      in if length bs2 > 1 then release_multi bs2 bs1 L
         else release_bus (bus_idx X c2_input) (bus_idx X c1_input) L)"

section \<open>Trying one candidate for an input\<close>

text \<open>\<open>None\<close> is the \<open>continue\<close> of the candidate loop.\<close>

definition occupy :: "ctx \<Rightarrow> addr \<Rightarrow> addr \<Rightarrow> addr \<Rightarrow> loc \<Rightarrow> loc option res" where
  "occupy X c1_output c2_input c1_input l =
     (let (quota, cnt, L) = l; c1 = idx X c1_input
      in if c1 = CONST_VAL then (if quota = 0 then Inr None else Inr (Some (quota - 1, cnt, L)))
         else
           rbind (if x_inputSizeEq X then rbind (vget (c1_inputMatchCount L) c1) (\<lambda>k. Inr (k \<noteq> 0))
                  else Inr False) (\<lambda>used.
           if used then Inr None else
           rbind (vget (x_isPIinPO X) (idx X c1_output)) (\<lambda>row. rbind (vget row c1) (\<lambda>p.
           if \<not> p then Inr None else
           rbind (vget cnt c1) (\<lambda>k.
           if k \<noteq> 0 \<and> quota = 0 then Inr None else
           rbind (occupy_buses X c2_input c1_input L) (\<lambda>r.
           case r of None \<Rightarrow> Inr None
           | Some L \<Rightarrow>
               rbind (vadd 1 cnt c1) (\<lambda>cnt. rbind (vadd 1 (c1_inputMatchCount L) c1) (\<lambda>mc.
                 Inr (Some (if k \<noteq> 0 then quota - 1 else quota, cnt, L\<lparr>c1_inputMatchCount := mc\<rparr>))))))))))"

definition release :: "ctx \<Rightarrow> addr \<Rightarrow> addr \<Rightarrow> loc \<Rightarrow> loc res" where
  "release X c2_input c1_input l =
     (let (quota, cnt, L) = l; c1 = idx X c1_input
      in if n_type (x_nodes X c1_input) = CONSTANT then Inr (quota + 1, cnt, L)
         else rbind (vget cnt c1) (\<lambda>k. rbind (vadd (-1) cnt c1) (\<lambda>cnt.
              rbind (vadd (-1) (c1_inputMatchCount L) c1) (\<lambda>mc.
              rbind (release_buses X c2_input c1_input (L\<lparr>c1_inputMatchCount := mc\<rparr>)) (\<lambda>L.
              Inr (if k > 1 then quota + 1 else quota, cnt, L))))))"

definition lock_input :: "int \<Rightarrow> lock \<Rightarrow> locks \<Rightarrow> locks res" where
  "lock_input c2 lk L = rbind (vget (inputLockCount L) c2) (\<lambda>k.
     rbind (if k = 0 then vset (inputLock L) c2 lk else Inr (inputLock L)) (\<lambda>il.
     rbind (vset (inputLockCount L) c2 (k + 1)) (\<lambda>ic. Inr (L\<lparr>inputLock := il, inputLockCount := ic\<rparr>))))"

definition unlock_input :: "int \<Rightarrow> locks \<Rightarrow> locks res" where
  "unlock_input c2 L = rbind (vadd (-1) (inputLockCount L) c2) (\<lambda>ic. rbind (vget ic c2) (\<lambda>k.
     rbind (if k = 0 then vset (inputLock L) c2 (-1, False) else Inr (inputLock L)) (\<lambda>il.
     Inr (L\<lparr>inputLock := il, inputLockCount := ic\<rparr>))))"

text \<open>The negations tried: both, or the one the initial answer fixes.\<close>

definition negs_of :: "ctx \<Rightarrow> addr \<Rightarrow> bool list res" where
  "negs_of X c2_input =
     (if x_initOn X then rbind (vget (x_init_input_ne X) (idx X c2_input)) (\<lambda>ne.
        if ne \<noteq> -1 then Inr [ne \<noteq> 0] else Inr [False, True])
      else Inr [False, True])"

section \<open>A complete assignment of the inputs: the miter and the output lock\<close>

type_synonym miter_pairs = "(int \<times> int) list \<times> bool list \<times> (bool \<times> int) list"

definition miter_pairs_of :: "ctx \<Rightarrow> addr list \<Rightarrow> lock list \<Rightarrow> miter_pairs res" where
  "miter_pairs_of X c2_input il =
     rfold (\<lambda>it (ps, ns, cs). rbind (vget il (idx X it)) (\<lambda>(c1, ng).
       if c1 = -1 then Inr (ps, ns, cs)
       else if c1 \<noteq> CONST_VAL then Inr (ps @ [(idx X it, c1)], ns @ [ng], cs)
       else Inr (ps, ns, cs @ [(ng, idx X it)]))) c2_input ([], [], [])"

definition run_miter :: "ctx \<Rightarrow> lock list \<Rightarrow> int \<Rightarrow> int \<Rightarrow> nat res" where
  "run_miter X il c2 c1 =
     rbind (vget (x_output_support2 X) c2) (\<lambda>supp. rbind (miter_pairs_of X supp il) (\<lambda>(ps, ns, cs).
       miterOneOutputRandom (x_ord X) (x_rnd X) (x_nodes X) (x_fuel X) (x_input1 X) (x_input2 X)
         (x_output1 X) (x_output2 X) ps ns (c2, c1) cs))"

text \<open>The counters of the inputs that were locked before, and of their buses.\<close>

definition count_record :: "ctx \<Rightarrow> int \<Rightarrow> int list \<Rightarrow> locks \<Rightarrow> locks res" where
  "count_record X d record_lock L =
     rfold (\<lambda>i L. rbind (vadd d (inputLockCount L) i) (\<lambda>ic.
       let L = L\<lparr>inputLockCount := ic\<rparr>
       in rbind (vget (inputLock L) i) (\<lambda>lk.
            if fst lk \<noteq> CONST_VAL then rbind (vget (x_input2 X) i) (\<lambda>a. count_bus d (bus_idx X a) L)
            else Inr L))) record_lock L"

definition lock_output :: "ctx \<Rightarrow> addr \<Rightarrow> addr \<Rightarrow> int list \<Rightarrow> bool \<Rightarrow> locks \<Rightarrow> locks res" where
  "lock_output X c2_output c1_output record_lock ng L =
     rbind (vset (outputLock L) (idx X c2_output) (idx X c1_output, ng)) (\<lambda>ol.
     rbind (count_record X 1 record_lock (L\<lparr>outputLock := ol\<rparr>)) (\<lambda>L.
     let b2 = bus_idx X c2_output; b1 = bus_idx X c1_output
     in rbind (bus_free L b2 b1) (\<lambda>f. rbind (if f then map_bus b2 b1 L else Inr L) (\<lambda>L.
        rbind (count_bus 1 b2 L) (\<lambda>L. rbind (vadd 1 (c1_OutputLockCount L) (idx X c1_output)) (\<lambda>oc.
        Inr (L\<lparr>c1_OutputLockCount := oc\<rparr>)))))))"

definition unlock_output :: "ctx \<Rightarrow> addr \<Rightarrow> addr \<Rightarrow> int list \<Rightarrow> locks \<Rightarrow> locks res" where
  "unlock_output X c2_output c1_output record_lock L =
     rbind (vset (outputLock L) (idx X c2_output) (-1, False)) (\<lambda>ol.
     rbind (vadd (-1) (c1_OutputLockCount L) (idx X c1_output)) (\<lambda>oc.
     rbind (count_record X (-1) record_lock (L\<lparr>outputLock := ol, c1_OutputLockCount := oc\<rparr>)) (\<lambda>L.
     rbind (release_bus (bus_idx X c2_output) (bus_idx X c1_output) L) (\<lambda>L.
     rbind (vget (c1_OutputLockCount L) (idx X c1_output)) (\<lambda>k.
     rbind (require (k \<ge> 0) (Exit ''c1_OutputLockCount < 0'')) (\<lambda>_. Inr L))))))"

text \<open>\<open>cont\<close> is the call of \<open>match_output\<close> for the next output.\<close>

definition finish_output :: "ctx \<Rightarrow> (locks \<times> best \<Rightarrow> (bool \<times> locks \<times> best) res) \<Rightarrow> addr \<Rightarrow> addr \<Rightarrow> int list \<Rightarrow>
    loc \<times> best \<Rightarrow> (bool \<times> loc \<times> best) res" where
  "finish_output X cont c1_output c2_output record_lock s =
     (let ((quota, cnt, L), B) = s
      in rbind (run_miter X (inputLock L) (idx X c2_output) (idx X c1_output)) (\<lambda>result.
         if result = 0 then Inr (False, (quota, cnt, L), B)
         else if result = 1 \<or> result = 2 then
           rbind (lock_output X c2_output c1_output record_lock (result \<noteq> 1) L) (\<lambda>L.
           rbind (cont (L, B)) (\<lambda>(output_eq, L, B).
             if output_eq then Inr (True, (quota, cnt, L), B)
             else rbind (unlock_output X c2_output c1_output record_lock L) (\<lambda>L.
                    Inr (False, (quota, cnt, L), B))))
         else Inl (Exit ''result not defined !!'')))"

section \<open>The search over the inputs of an output\<close>

primrec match_input :: "ctx \<Rightarrow> (locks \<times> best \<Rightarrow> (bool \<times> locks \<times> best) res) \<Rightarrow> addr \<Rightarrow> addr \<Rightarrow> int list \<Rightarrow>
    addr list \<Rightarrow> loc \<times> best \<Rightarrow> (bool \<times> loc \<times> best) res" where
  "match_input X cont c1_output c2_output record_lock [] =
     finish_output X cont c1_output c2_output record_lock"
| "match_input X cont c1_output c2_output record_lock (c2_input # c2_input_set) = (\<lambda>s.
     let c2 = idx X c2_input
     in rbind (negs_of X c2_input) (\<lambda>negs. rbind (vget (x_input_match_cand X) c2) (\<lambda>cands.
        search (\<lambda>c1_input (l, B).
          rbind (occupy X c1_output c2_input c1_input l) (\<lambda>r.
          case r of
            None \<Rightarrow> Inr (False, l, B)
          | Some l \<Rightarrow>
              rbind (search (\<lambda>neg ((quota, cnt, L), B).
                  rbind (lock_input c2 (idx X c1_input, neg) L) (\<lambda>L.
                  rbind (match_input X cont c1_output c2_output record_lock c2_input_set ((quota, cnt, L), B))
                    (\<lambda>(eq, (quota, cnt, L), B).
                      if eq then Inr (True, (quota, cnt, L), B)
                      else rbind (unlock_input c2 L) (\<lambda>L. Inr (False, (quota, cnt, L), B)))))
                negs (l, B)) (\<lambda>(eq, l, B).
              if eq then Inr (True, l, B)
              else rbind (release X c2_input c1_input l) (\<lambda>l. Inr (False, l, B)))))
          cands s)))"

text \<open>
  \<open>filtLockedInput\<close>: inputs that are locked already are taken out of the list; \<open>None\<close> is
  \<open>return false\<close>. The accumulator holds the inputs kept, \<open>record_lock\<close>, \<open>quota\<close> and
  \<open>c1_input_match_count\<close>.
\<close>

fun filtLockedInput :: "ctx \<Rightarrow> locks \<Rightarrow> addr \<Rightarrow> addr list \<Rightarrow> addr list \<times> int list \<times> int \<times> int list \<Rightarrow>
    (addr list \<times> int list \<times> int \<times> int list) option res" where
  "filtLockedInput X L c1_output [] acc = Inr (Some acc)"
| "filtLockedInput X L c1_output (it # its) (keep, record_lock, quota, cnt) =
     rbind (vget (inputLock L) (idx X it)) (\<lambda>lk.
     let c1 = fst lk
     in if c1 \<noteq> -1 then
          if c1 = CONST_VAL
          then filtLockedInput X L c1_output its (keep, record_lock @ [idx X it], quota - 1, cnt)
          else rbind (vget (x_isPIinPO X) (idx X c1_output)) (\<lambda>row. rbind (vget row c1) (\<lambda>p.
               if p then rbind (vget cnt c1) (\<lambda>k. rbind (vset cnt c1 (k + 1)) (\<lambda>cnt.
                 filtLockedInput X L c1_output its
                   (keep, record_lock @ [idx X it], if k \<noteq> 0 then quota - 1 else quota, cnt)))
               else Inr None))
        else
          rbind (if x_initOn X then rbind (vget (x_init_input X) (idx X it)) (\<lambda>ini.
                   case ini of None \<Rightarrow> Inr False
                   | Some a \<Rightarrow> rbind (vget (x_isPIinPO X) (idx X c1_output)) (\<lambda>row.
                       rbind (vget row (idx X a)) (\<lambda>p. Inr (\<not> p))))
                 else Inr False) (\<lambda>dangling.
          if dangling then filtLockedInput X L c1_output its (keep, record_lock, quota - 1, cnt)
          else filtLockedInput X L c1_output its (keep @ [it], record_lock, quota, cnt)))"

section \<open>The search over the outputs\<close>

definition INT_MIN :: int where
  "INT_MIN = -2147483648"

definition next_match :: "ctx \<Rightarrow> locks \<Rightarrow> best \<Rightarrow> (addr option \<times> best) res" where
  "next_match X L B =
     rbind (rfold (\<lambda>c2_output (np, max_priority, pr).
         rbind (vget (outputLock L) (idx X c2_output)) (\<lambda>lk.
         if lk \<noteq> (-1, False) then Inr (np, max_priority, pr)
         else
           rbind (if pr c2_output \<le> 0 then
               rbind (vget (x_output_to_inputBus X) (idx X c2_output)) (\<lambda>buses.
               rbind (rfold (\<lambda>b p. rbind (vget (bus_2_to_1 L) b) (\<lambda>m. Inr (if m = -1 then p - 1 else p))) buses 0)
                 (\<lambda>p. Inr (pr(c2_output := p))))
             else Inr pr) (\<lambda>pr.
           if max_priority < pr c2_output then Inr (Some c2_output, pr c2_output, pr)
           else Inr (np, max_priority, pr)))) (x_output_match_order X) (None, INT_MIN, priority B))
       (\<lambda>(np, _, pr). Inr (np, B\<lparr>priority := pr\<rparr>))"

text \<open>The best answer is recorded and written whenever more outputs are matched than before.\<close>

definition record_best :: "ctx \<Rightarrow> int \<Rightarrow> locks \<Rightarrow> best \<Rightarrow> best res" where
  "record_best X out_idx L B =
     (if out_idx > maxOutputDepth B then
        rbind (writePartialAns (x_nodes X) (x_input1 X) (x_input2 X) (x_output1 X) (x_output2 X)
                 (inputLock L) (outputLock L)) (\<lambda>(txt, _).
          Inr (B\<lparr>maxOutputDepth := out_idx, maxOutputMatch := outputLock L,
                 maxInputMatch := inputLock L, answer_file := txt\<rparr>))
      else Inr B)"

text \<open>The body of the candidate loop of \<open>match_output\<close>.\<close>

definition try_output :: "ctx \<Rightarrow> (locks \<times> best \<Rightarrow> (bool \<times> locks \<times> best) res) \<Rightarrow> addr \<Rightarrow> addr \<Rightarrow>
    locks \<times> best \<Rightarrow> (bool \<times> locks \<times> best) res" where
  "try_output X cont c2_output c1_output s =
     (let (L, B) = s; b2 = bus_idx X c2_output; b1 = bus_idx X c1_output
      in rbind (vget (c1_OutputLockCount L) (idx X c1_output)) (\<lambda>k.
         if k \<noteq> 0 then Inr (False, L, B) else
         rbind (bus_free L b2 b1) (\<lambda>f. rbind (if f then Inr True else bus_matched L b2 b1) (\<lambda>ok.
         if \<not> ok then Inr (False, L, B) else
         rbind (vget (x_output_support2 X) (idx X c2_output)) (\<lambda>c2_input_set.
         rbind (vget (x_output_support1 X) (idx X c1_output)) (\<lambda>c1_input_set.
         rbind (filtLockedInput X L c1_output c2_input_set
             ([], [], int (length c2_input_set) - int (length c1_input_set), replicate (length (x_input1 X)) 0))
           (\<lambda>r. case r of
              None \<Rightarrow> Inr (False, L, B)
            | Some (c2_input_set, record_lock, quota, cnt) \<Rightarrow>
                if quota < 0 then Inr (False, L, B)
                else rbind (match_input X cont c1_output c2_output record_lock c2_input_set ((quota, cnt, L), B))
                       (\<lambda>(_, (_, _, L), B). Inr (findOutputBest B, L, B))))))))) "

text \<open>
  \<open>match_output\<close> with \<open>k\<close> outputs left to match: \<open>out_idx = PO2Size - k\<close>.
\<close>

primrec match_output :: "ctx \<Rightarrow> nat \<Rightarrow> locks \<times> best \<Rightarrow> (bool \<times> locks \<times> best) res" where
  "match_output X 0 s =
     rbind (record_best X (int (length (x_output2 X))) (fst s) (snd s)) (\<lambda>B.
       Inr (True, fst s, B\<lparr>findOutputBest := True\<rparr>))"
| "match_output X (Suc k) s =
     rbind (record_best X (int (length (x_output2 X)) - int (Suc k)) (fst s) (snd s)) (\<lambda>B.
     rbind (next_match X (fst s) B) (\<lambda>(np, B).
     case np of
       None \<Rightarrow> Inl Null_Deref
     | Some c2_output \<Rightarrow>
         rbind (vget (x_output_match_cand X) (idx X c2_output)) (\<lambda>cands.
           search (try_output X (match_output X k) c2_output) cands (fst s, B))))"

text \<open>
  The start of the search in \<open>new_boolean_match\<close>, with fresh lock vectors; \<open>pr\<close> are the priorities
  the nodes carry.
\<close>

definition init_locks :: "ctx \<Rightarrow> nat \<Rightarrow> nat \<Rightarrow> locks" where
  "init_locks X buses1 buses2 =
     \<lparr>inputLock = replicate (length (x_input2 X)) (-1, False),
      inputLockCount = replicate (length (x_input2 X)) 0,
      outputLock = replicate (length (x_output2 X)) (-1, False),
      c1_OutputLockCount = replicate (length (x_output1 X)) 0,
      bus_2_to_1 = replicate buses2 (-1), bus_1_to_2 = replicate buses1 (-1),
      bus_2_to_1_count = replicate buses2 0,
      c1_inputMatchCount = replicate (length (x_input1 X)) 0\<rparr>"

definition init_best :: "(addr \<Rightarrow> int) \<Rightarrow> best" where
  "init_best pr = \<lparr>maxOutputDepth = -1, maxOutputMatch = [], maxInputMatch = [], findOutputBest = False,
     priority = pr, answer_file = []\<rparr>"

definition start_search :: "ctx \<Rightarrow> nat \<Rightarrow> nat \<Rightarrow> (addr \<Rightarrow> int) \<Rightarrow> (bool \<times> locks \<times> best) res" where
  "start_search X buses1 buses2 pr =
     match_output X (length (x_output2 X)) (init_locks X buses1 buses2, init_best pr)"

end
