(* ===== verification/Match_Gen.thy ===== *)
theory Match_Gen
  imports Match_Search
begin

text \<open>
  From the parsed circuits to the search: the candidates of every port (\<open>genOutputMatch\<close>,
  \<open>genInputMatch\<close>), the sizes of the supports (\<open>assignFuncSupp\<close>), the support matrix
  (\<open>genPIinPO\<close>), the orders (\<open>genInfo\<close>) and \<open>new_boolean_match\<close>, which runs them all and starts
  the search. The log files are not modelled.
\<close>

section \<open>The match object\<close>

text \<open>
  What the search phase gets from the phases before it. \<open>s_bus_match_idx\<close> maps the size of a bus of
  circuit 2 to the sizes of the buses of circuit 1 it may be matched to. The last field is the
  order \<open>std::sort\<close> gives a vector, which the standard leaves open for equivalent elements; the
  vectors \<open>input1\<close>, \<open>output1\<close>, ... of \<open>main\<close> are the containers of the modules.
\<close>

record match_data =
  s_caseID :: string
  s_initOn :: bool
  s_mod1 :: module
  s_mod2 :: module
  s_output_support1 :: "addr list list"
  s_output_support2 :: "addr list list"
  s_input_support1 :: "addr list list"
  s_input_support2 :: "addr list list"
  s_init_output :: "addr list list"
  s_init_input :: "addr option list"
  s_init_input_ne :: "int list"
  s_bus_size :: int
  s_bus_match_idx :: "int \<Rightarrow> int list"
  s_fuel :: nat
  s_ord :: "addr list \<Rightarrow> addr list"
  s_rnd :: "nat \<Rightarrow> nat"
  s_sort :: "(addr \<Rightarrow> addr \<Rightarrow> bool) \<Rightarrow> addr list \<Rightarrow> addr list"

abbreviation s_input1 :: "match_data \<Rightarrow> addr list" where "s_input1 S \<equiv> m_gate (s_mod1 S) INPUT"
abbreviation s_input2 :: "match_data \<Rightarrow> addr list" where "s_input2 S \<equiv> m_gate (s_mod2 S) INPUT"
abbreviation s_output1 :: "match_data \<Rightarrow> addr list" where "s_output1 S \<equiv> m_gate (s_mod1 S) OUTPUT"
abbreviation s_output2 :: "match_data \<Rightarrow> addr list" where "s_output2 S \<equiv> m_gate (s_mod2 S) OUTPUT"
abbreviation s_bus1 :: "match_data \<Rightarrow> addr list list" where "s_bus1 S \<equiv> m_bus_set (s_mod1 S)"
abbreviation s_bus2 :: "match_data \<Rightarrow> addr list list" where "s_bus2 S \<equiv> m_bus_set (s_mod2 S)"

definition inputSizeEq :: "match_data \<Rightarrow> bool" where
  "inputSizeEq S \<longleftrightarrow> length (s_input2 S) = length (s_input1 S)"

definition outputSizeEq :: "match_data \<Rightarrow> bool" where
  "outputSizeEq S \<longleftrightarrow> length (s_output2 S) = length (s_output1 S)"

definition inputDiff :: "match_data \<Rightarrow> int" where
  "inputDiff S = int (length (s_input2 S)) - int (length (s_input1 S))"

text \<open>The size of the bus \<open>bus[c][a->_bus_idx]\<close>.\<close>

definition bus_sz :: "addr list list \<Rightarrow> int \<Rightarrow> int res" where
  "bus_sz bus b = rbind (vget bus b) (\<lambda>xs. Inr (int (length xs)))"

section \<open>Supports\<close>

definition set_supportVal :: "addr list list \<Rightarrow> addr \<Rightarrow> (addr \<Rightarrow> node) \<Rightarrow> (addr \<Rightarrow> node) res" where
  "set_supportVal support port h =
     rbind (vget support (n_idx (h port))) (\<lambda>xs. Inr (upd port (\<lambda>n. n\<lparr>n_supportVal := int (length xs)\<rparr>) h))"

definition assign_bus_supp :: "addr list list \<Rightarrow> addr list list \<Rightarrow> addr list \<Rightarrow> (addr \<Rightarrow> node) \<Rightarrow> (addr \<Rightarrow> node) res" where
  "assign_bus_supp input_support output_support aBus h =
     rbind (vget aBus 0) (\<lambda>a.
       if n_type (h a) = INPUT then rfold (set_supportVal input_support) aBus h
       else if n_type (h a) = OUTPUT then rfold (set_supportVal output_support) aBus h
       else Inr h)"

definition assignFuncSupp :: "match_data \<Rightarrow> (addr \<Rightarrow> node) \<Rightarrow> (addr \<Rightarrow> node) res" where
  "assignFuncSupp S h =
     rbind (rfold (assign_bus_supp (s_input_support1 S) (s_output_support1 S)) (s_bus1 S) h)
       (rfold (assign_bus_supp (s_input_support2 S) (s_output_support2 S)) (s_bus2 S))"

definition genPIinPO :: "match_data \<Rightarrow> (addr \<Rightarrow> node) \<Rightarrow> bool list list res" where
  "genPIinPO S h =
     rfold (\<lambda>i m. rbind (vget (s_output_support1 S) (int i)) (\<lambda>supp.
         rfold (\<lambda>a m. rbind (vset (m ! i) (n_idx (h a)) True) (\<lambda>row. Inr (m[i := row]))) supp m))
       [0..<length (s_output1 S)]
       (replicate (length (s_output1 S)) (replicate (length (s_input1 S)) False))"

text \<open>A \<open>std::set\<close> of bus indices is kept as its sorted list.\<close>

definition assign_output_to_inputBus :: "match_data \<Rightarrow> (addr \<Rightarrow> node) \<Rightarrow> int list list res" where
  "assign_output_to_inputBus S h =
     rfold (\<lambda>i m. rbind (vget (s_output_support2 S) (int i)) (\<lambda>supp.
         Inr (m @ [Unique (concat (map (\<lambda>a. n_bus_indices (h a)) supp))])))
       [0..<length (s_output2 S)] []"

section \<open>Candidates\<close>

text \<open>The loop that pushes the nodes that pass a test.\<close>

definition pick_cands :: "(addr \<Rightarrow> bool res) \<Rightarrow> addr list \<Rightarrow> addr list res" where
  "pick_cands test xs = rfold (\<lambda>a cs. rbind (test a) (\<lambda>ok. Inr (if ok then cs @ [a] else cs))) xs []"

text \<open>
  \<open>stable_sort\<close> by a key that is read through vectors. With fewer than two elements the comparator
  is not called, so nothing is read.
\<close>

definition read_keys :: "(addr \<Rightarrow> int res) \<Rightarrow> addr list \<Rightarrow> (addr \<Rightarrow> int) res" where
  "read_keys key xs = rfold (\<lambda>a k. rbind (key a) (\<lambda>v. Inr (k(a := v)))) xs (\<lambda>_. 0)"

definition sort_key_res :: "(addr \<Rightarrow> int res) \<Rightarrow> addr list \<Rightarrow> addr list res" where
  "sort_key_res key xs =
     (if length xs < 2 then Inr xs
      else rbind (read_keys key xs) (\<lambda>k. Inr (std_sort (\<lambda>a b. k a < k b) xs)))"

definition output_fits :: "match_data \<Rightarrow> (addr \<Rightarrow> node) \<Rightarrow> addr \<Rightarrow> addr \<Rightarrow> bool res" where
  "output_fits S h c2_output c1_output =
     rbind (bus_sz (s_bus2 S) (n_bus_idx (h c2_output))) (\<lambda>c2_outputBusSize.
     rbind (bus_sz (s_bus1 S) (n_bus_idx (h c1_output))) (\<lambda>c1_outputBusSize.
       let s2 = n_supportVal (h c2_output); s1 = n_supportVal (h c1_output)
       in Inr (if outputSizeEq S \<and> c2_outputBusSize \<noteq> c1_outputBusSize then False
               else if inputSizeEq S \<and> s2 \<noteq> s1 then False
               else if \<not> inputSizeEq S \<and> (s2 < s1 \<or> s2 - s1 > inputDiff S \<or>
                       n_bit_idx (h c2_output) < n_bit_idx (h c1_output)) then False
               else True)))"

text \<open>
  The candidates of one output. As in the source, the first sort reads the buses of circuit 2 at
  the bus indices of outputs of circuit 1.
\<close>

definition output_cands :: "match_data \<Rightarrow> (addr \<Rightarrow> node) \<Rightarrow> addr \<Rightarrow> addr list res" where
  "output_cands S h c2_output =
     rbind (if s_initOn S then vget (s_init_output S) (n_idx (h c2_output)) else Inr []) (\<lambda>init.
     if init \<noteq> [] then Inr init
     else
       rbind (bus_sz (s_bus2 S) (n_bus_idx (h c2_output))) (\<lambda>c2_outputBusSize.
       rbind (pick_cands (output_fits S h c2_output) (s_output1 S)) (\<lambda>cs.
       rbind (sort_key_res (\<lambda>a. rbind (bus_sz (s_bus2 S) (n_bus_idx (h a))) (\<lambda>k. Inr \<bar>c2_outputBusSize - k\<bar>)) cs) (\<lambda>cs.
       Inr (std_sort (\<lambda>a b. n_supportVal (h a) > n_supportVal (h b)) cs)))))"

definition output_before :: "match_data \<Rightarrow> (addr \<Rightarrow> node) \<Rightarrow> addr list list \<Rightarrow> addr \<Rightarrow> addr \<Rightarrow> bool" where
  "output_before S h cand a b =
     (if s_initOn S then
        (let one = (\<lambda>x. length (cand ! nat (n_idx (h x))) = 1)
         in if n_priority (h a) \<noteq> n_priority (h b) then n_priority (h a) > n_priority (h b)
            else if one a \<and> one b then n_bit_idx (h a) < n_bit_idx (h b)
            else if one a then True
            else if one b then False
            else n_supportVal (h a) < n_supportVal (h b))
      else n_supportVal (h a) < n_supportVal (h b))"

text \<open>\<open>output_match_cand\<close> and \<open>output_match_order\<close>.\<close>

definition genOutputMatch :: "match_data \<Rightarrow> (addr \<Rightarrow> node) \<Rightarrow> (addr list list \<times> addr list) res" where
  "genOutputMatch S h =
     rbind (rfold (\<lambda>c2_output cand. rbind (output_cands S h c2_output) (\<lambda>cs.
              rbind (vget cand (n_idx (h c2_output))) (\<lambda>old. vset cand (n_idx (h c2_output)) (old @ cs))))
            (s_output2 S) (replicate (length (s_output2 S)) []))
       (\<lambda>cand. Inr (cand, std_sort (output_before S h cand) (s_output2 S)))"

text \<open>A port on several buses needs a port whose buses are not larger, one by one.\<close>

fun multi_fits :: "match_data \<Rightarrow> int list \<Rightarrow> int list \<Rightarrow> bool res" where
  "multi_fits S [] bs1 = Inr True"
| "multi_fits S (b2 # bs2) bs1 =
     rbind (bus_sz (s_bus2 S) b2) (\<lambda>k2. rbind (vget bs1 0) (\<lambda>b1. rbind (bus_sz (s_bus1 S) b1) (\<lambda>k1.
       if k2 < k1 then Inr False else multi_fits S bs2 (tl bs1))))"

definition input_fits :: "match_data \<Rightarrow> (addr \<Rightarrow> node) \<Rightarrow> addr \<Rightarrow> addr \<Rightarrow> bool res" where
  "input_fits S h c2_input c1_input =
     rbind (bus_sz (s_bus2 S) (n_bus_idx (h c2_input))) (\<lambda>c2_inputBusSize.
     rbind (bus_sz (s_bus1 S) (n_bus_idx (h c1_input))) (\<lambda>c1_inputBusSize.
       if inputSizeEq S \<and> c2_inputBusSize \<noteq> c1_inputBusSize then Inr False
       else
         rbind (if inputSizeEq S then Inr True
                else if length (n_bus_indices (h c2_input)) > 1 then
                  if length (n_bus_indices (h c1_input)) \<noteq> length (n_bus_indices (h c2_input)) then Inr False
                  else multi_fits S (n_bus_indices (h c2_input)) (n_bus_indices (h c1_input))
                else if c2_inputBusSize < c1_inputBusSize \<or> c2_inputBusSize - c1_inputBusSize > inputDiff S \<or>
                        n_bit_idx (h c2_input) < n_bit_idx (h c1_input) then Inr False
                else if n_bus_idx (h c2_input) < s_bus_size S \<and>
                        c1_inputBusSize \<notin> set (s_bus_match_idx S c2_inputBusSize) then Inr False
                else Inr True) (\<lambda>pass.
         Inr (pass \<and> \<not> (outputSizeEq S \<and> inputSizeEq S \<and>
                n_supportVal (h c2_input) \<noteq> n_supportVal (h c1_input))))))"

definition input_sig_diff :: "match_data \<Rightarrow> (addr \<Rightarrow> node) \<Rightarrow> addr \<Rightarrow> addr \<Rightarrow> int res" where
  "input_sig_diff S h c2_input a =
     rbind (vget (m_input_sig (s_mod2 S)) (n_idx (h c2_input))) (\<lambda>v2.
     rbind (vget (m_input_sig (s_mod1 S)) (n_idx (h a))) (\<lambda>v1. Inr \<bar>v2 - v1\<bar>))"

text \<open>The candidates of one input; a new constant node ends the list, unless the input has an initial partner.\<close>

definition const_node :: "store \<Rightarrow> addr \<times> store" where
  "const_node st = (let (a, st) = new_node ''CONST'' CONSTANT st
     in (a, st\<lparr>heap := upd a (\<lambda>n. n\<lparr>n_idx := CONST_VAL\<rparr>) (heap st)\<rparr>))"

definition input_cands :: "match_data \<Rightarrow> addr \<Rightarrow> store \<Rightarrow> (addr list \<times> store) res" where
  "input_cands S c2_input st =
     (let h = heap st
      in rbind (bus_sz (s_bus2 S) (n_bus_idx (h c2_input))) (\<lambda>c2_inputBusSize.
         rbind (if s_initOn S then vget (s_init_input S) (n_idx (h c2_input)) else Inr None) (\<lambda>init.
         case init of
           Some a \<Rightarrow> Inr ([a], st)
         | None \<Rightarrow>
             rbind (pick_cands (input_fits S h c2_input) (s_input1 S)) (\<lambda>cs.
             rbind (sort_key_res (\<lambda>a. rbind (bus_sz (s_bus1 S) (n_bus_idx (h a))) (\<lambda>k. Inr \<bar>c2_inputBusSize - k\<bar>)) cs) (\<lambda>cs.
             rbind (sort_key_res (input_sig_diff S h c2_input) cs) (\<lambda>cs.
               let cs = std_sort (\<lambda>a b. \<bar>n_supportVal (h c2_input) - n_supportVal (h a)\<bar> <
                                        \<bar>n_supportVal (h c2_input) - n_supportVal (h b)\<bar>) cs;
                   (constNode, st) = const_node st
               in Inr (cs @ [constNode], st)))))))"

definition genInputMatch :: "match_data \<Rightarrow> store \<Rightarrow> (addr list list \<times> store) res" where
  "genInputMatch S st =
     rfold (\<lambda>c2_input (cand, st). rbind (input_cands S c2_input st) (\<lambda>(cs, st).
         rbind (vget cand (n_idx (heap st c2_input))) (\<lambda>old.
         rbind (vset cand (n_idx (heap st c2_input)) (old @ cs)) (\<lambda>cand. Inr (cand, st)))))
       (s_input2 S) (replicate (length (s_input2 S)) [], st)"

section \<open>Orders, and the start of the search\<close>

text \<open>
  \<open>genInfo\<close> sorts the supports; \<open>std::sort\<close> is the parameter \<open>s_sort\<close>. The comparators read vectors
  at indices of the nodes; that these are in range is checked before the sort.
\<close>

definition support_before2 :: "match_data \<Rightarrow> (addr \<Rightarrow> node) \<Rightarrow> addr list list \<Rightarrow> addr \<Rightarrow> addr \<Rightarrow> bool" where
  "support_before2 S h cand a b =
     (let ka = length (cand ! nat (n_idx (h a))); kb = length (cand ! nat (n_idx (h b)))
      in if ka = kb then length (s_bus2 S ! nat (n_bus_idx (h a))) > length (s_bus2 S ! nat (n_bus_idx (h b)))
         else ka < kb)"

definition support_before1 :: "match_data \<Rightarrow> (addr \<Rightarrow> node) \<Rightarrow> addr \<Rightarrow> addr \<Rightarrow> bool" where
  "support_before1 S h a b \<longleftrightarrow> length (s_bus1 S ! nat (n_bus_idx (h a))) > length (s_bus1 S ! nat (n_bus_idx (h b)))"

definition sort_supports :: "((addr \<Rightarrow> addr \<Rightarrow> bool) \<Rightarrow> addr list \<Rightarrow> addr list) \<Rightarrow> (addr \<Rightarrow> addr \<Rightarrow> bool) \<Rightarrow>
    (addr \<Rightarrow> bool) \<Rightarrow> (addr \<Rightarrow> node) \<Rightarrow> addr list \<Rightarrow> addr list list \<Rightarrow> addr list list res" where
  "sort_supports srt lt readable h outs supp =
     rfold (\<lambda>out supp. rbind (vget supp (n_idx (h out))) (\<lambda>xs.
       rbind (require (length xs < 2 \<or> list_all readable xs) Bad_Index) (\<lambda>_.
         vset supp (n_idx (h out)) (srt lt xs)))) outs supp"

definition genInfo :: "match_data \<Rightarrow> (addr \<Rightarrow> node) \<Rightarrow> addr list list \<Rightarrow> match_data res" where
  "genInfo S h cand =
     rbind (sort_supports (s_sort S) (support_before2 S h cand)
              (\<lambda>a. in_range cand (n_idx (h a)) \<and> in_range (s_bus2 S) (n_bus_idx (h a))) h (s_output2 S) (s_output_support2 S)) (\<lambda>supp2.
     rbind (sort_supports (s_sort S) (support_before1 S h)
              (\<lambda>a. in_range (s_bus1 S) (n_bus_idx (h a))) h (s_output1 S) (s_output_support1 S)) (\<lambda>supp1.
       Inr (S\<lparr>s_output_support1 := supp1, s_output_support2 := supp2\<rparr>)))"

text \<open>The context of the search, after all candidates are known.\<close>

definition search_ctx :: "match_data \<Rightarrow> (addr \<Rightarrow> node) \<Rightarrow> addr list \<Rightarrow> addr list list \<Rightarrow> addr list list \<Rightarrow>
    int list list \<Rightarrow> bool list list \<Rightarrow> ctx" where
  "search_ctx S h order ocand icand buses rows =
     \<lparr>x_caseID = s_caseID S, x_initOn = s_initOn S, x_inputSizeEq = inputSizeEq S,
      x_input1 = s_input1 S, x_input2 = s_input2 S, x_output1 = s_output1 S, x_output2 = s_output2 S,
      x_output_support1 = s_output_support1 S, x_output_support2 = s_output_support2 S,
      x_output_match_order = order, x_output_match_cand = ocand, x_input_match_cand = icand,
      x_output_to_inputBus = buses, x_isPIinPO = rows, x_init_input = s_init_input S,
      x_init_input_ne = s_init_input_ne S, x_nodes = h, x_fuel = s_fuel S, x_ord = s_ord S, x_rnd = s_rnd S\<rparr>"

definition prepare_match :: "match_data \<Rightarrow> store \<Rightarrow> ctx res" where
  "prepare_match S st =
     rbind (assignFuncSupp S (heap st)) (\<lambda>h.
     rbind (genPIinPO S h) (\<lambda>rows.
     rbind (genOutputMatch S h) (\<lambda>(ocand, order).
     rbind (genInputMatch S (st\<lparr>heap := h\<rparr>)) (\<lambda>(icand, st).
     rbind (genInfo S (heap st) icand) (\<lambda>S.
     rbind (assign_output_to_inputBus S (heap st)) (\<lambda>buses.
       Inr (search_ctx S (heap st) order ocand icand buses rows)))))))"

definition new_boolean_match :: "match_data \<Rightarrow> store \<Rightarrow> (ctx \<times> bool \<times> locks \<times> best) res" where
  "new_boolean_match S st =
     rbind (prepare_match S st) (\<lambda>X.
     rbind (start_search X (length (s_bus1 S)) (length (s_bus2 S)) (\<lambda>a. n_priority (x_nodes X a))) (\<lambda>r.
       Inr (X, r)))"

end
