(* ===== verification/Match_Inv.thy ===== *)
theory Match_Inv
  imports Match_Search
begin

text \<open>
  The state of the search and its undo: what the search context must satisfy, the invariant of the
  lock vectors, and, for each step of the search, that it keeps the invariant and that its undo
  gives back exactly the state before it.
\<close>

section \<open>The context\<close>

text \<open>The pairs of buses a pair of inputs uses.\<close>

definition c2_buses :: "ctx \<Rightarrow> addr \<Rightarrow> int list" where
  "c2_buses X a2 = (let bs = n_bus_indices (x_nodes X a2) in if length bs > 1 then bs else [bus_idx X a2])"

definition c1_buses :: "ctx \<Rightarrow> addr \<Rightarrow> addr \<Rightarrow> int list" where
  "c1_buses X a2 a1 = (let n = length (n_bus_indices (x_nodes X a2))
     in if n > 1 then take n (n_bus_indices (x_nodes X a1)) else [bus_idx X a1])"

definition bus_pairs :: "ctx \<Rightarrow> addr \<Rightarrow> addr \<Rightarrow> (int \<times> int) list" where
  "bus_pairs X a2 a1 = zip (c2_buses X a2) (c1_buses X a2 a1)"

definition below :: "int \<Rightarrow> nat \<Rightarrow> bool" where
  "below b n \<longleftrightarrow> 0 \<le> b \<and> b < int n"

definition input_ok :: "ctx \<Rightarrow> nat \<Rightarrow> addr \<Rightarrow> bool" where
  "input_ok X nb2 a \<longleftrightarrow> in_range (x_input2 X) (idx X a) \<and> x_input2 X ! nat (idx X a) = a \<and>
     distinct (c2_buses X a) \<and> bus_idx X a \<in> set (c2_buses X a) \<and> (\<forall>b \<in> set (c2_buses X a). below b nb2)"

definition const_cand :: "ctx \<Rightarrow> addr \<Rightarrow> bool" where
  "const_cand X a \<longleftrightarrow> idx X a = CONST_VAL \<and> n_type (x_nodes X a) = CONSTANT"

definition port_cand :: "ctx \<Rightarrow> nat \<Rightarrow> addr \<Rightarrow> addr \<Rightarrow> bool" where
  "port_cand X nb1 a2 a1 \<longleftrightarrow> n_type (x_nodes X a1) \<noteq> CONSTANT \<and> in_range (x_input1 X) (idx X a1) \<and>
     length (c1_buses X a2 a1) = length (c2_buses X a2) \<and> distinct (c1_buses X a2 a1) \<and>
     (\<forall>b \<in> set (c1_buses X a2 a1). below b nb1)"

text \<open>The bus of an output is not the bus of an input.\<close>

definition output_ok :: "ctx \<Rightarrow> nat \<Rightarrow> addr \<Rightarrow> bool" where
  "output_ok X nb2 a \<longleftrightarrow> below (bus_idx X a) nb2 \<and> (\<forall>i \<in> set (x_input2 X). bus_idx X a \<notin> set (c2_buses X i))"

definition out_cand :: "ctx \<Rightarrow> nat \<Rightarrow> addr \<Rightarrow> bool" where
  "out_cand X nb1 a \<longleftrightarrow> in_range (x_output1 X) (idx X a) \<and> below (bus_idx X a) nb1 \<and>
     (\<forall>i < length (x_input2 X). \<forall>a1 \<in> set (x_input_match_cand X ! i).
        \<not> const_cand X a1 \<longrightarrow> bus_idx X a \<notin> set (c1_buses X (x_input2 X ! i) a1))"

definition sizes_ok :: "ctx \<Rightarrow> nat \<Rightarrow> bool" where
  "sizes_ok X nb2 \<longleftrightarrow>
     length (x_output_support1 X) = length (x_output1 X) \<and> length (x_output_support2 X) = length (x_output2 X) \<and>
     length (x_output_match_cand X) = length (x_output2 X) \<and> length (x_input_match_cand X) = length (x_input2 X) \<and>
     length (x_output_to_inputBus X) = length (x_output2 X) \<and> length (x_isPIinPO X) = length (x_output1 X) \<and>
     length (x_init_input X) = length (x_input2 X) \<and> length (x_init_input_ne X) = length (x_input2 X) \<and>
     (\<forall>row \<in> set (x_isPIinPO X). length row = length (x_input1 X)) \<and>
     (\<forall>bs \<in> set (x_output_to_inputBus X). int (length bs) < - INT_MIN \<and> (\<forall>b \<in> set bs. below b nb2)) \<and>
     (\<forall>a. Some a \<in> set (x_init_input X) \<longrightarrow> in_range (x_input1 X) (idx X a))"

definition outputs_indexed :: "ctx \<Rightarrow> bool" where
  "outputs_indexed X \<longleftrightarrow> (\<forall>j < length (x_output2 X). idx X (x_output2 X ! j) = int j) \<and>
     set (x_output_match_order X) = set (x_output2 X)"

text \<open>The part of the context the miter needs.\<close>

definition miter_ready :: "ctx \<Rightarrow> bool" where
  "miter_ready X \<longleftrightarrow> set (x_input1 X) \<inter> set (x_input2 X) = {} \<and> iteration_order (x_ord X) \<and>
     (\<exists>A r. sim_ready (x_nodes X) A r (x_fuel X) \<and> set (x_output1 X) \<subseteq> A \<and> set (x_output2 X) \<subseteq> A)"

text \<open>\<open>isPIinPO\<close> marks only inputs the output depends on.\<close>

definition rows_ok :: "ctx \<Rightarrow> bool" where
  "rows_ok X \<longleftrightarrow> (\<forall>o1 < length (x_output1 X). \<forall>c < length (x_input1 X). x_isPIinPO X ! o1 ! c \<longrightarrow>
     (\<exists>a \<in> set (x_output_support1 X ! o1). idx X a = int c))"

definition search_ok :: "ctx \<Rightarrow> nat \<Rightarrow> nat \<Rightarrow> bool" where
  "search_ok X nb1 nb2 \<longleftrightarrow> x_caseID X \<noteq> ''08'' \<and> sizes_ok X nb2 \<and> outputs_indexed X \<and> miter_ready X \<and>
     rows_ok X \<and>
     (\<forall>supp \<in> set (x_output_support2 X). distinct supp \<and> (\<forall>a \<in> set supp. input_ok X nb2 a)) \<and>
     (\<forall>i < length (x_input2 X). \<forall>a1 \<in> set (x_input_match_cand X ! i).
        const_cand X a1 \<or> port_cand X nb1 (x_input2 X ! i) a1) \<and>
     (\<forall>o2 \<in> set (x_output2 X). output_ok X nb2 o2) \<and>
     (\<forall>cands \<in> set (x_output_match_cand X). \<forall>o1 \<in> set cands. out_cand X nb1 o1)"

text \<open>No initial answer is used, so no input can be left dangling.\<close>

definition no_dangling :: "ctx \<Rightarrow> bool" where
  "no_dangling X \<longleftrightarrow> x_initOn X \<longrightarrow> set (x_init_input X) \<subseteq> {None}"

section \<open>Answers\<close>

text \<open>
  An answer: lock vectors of the right sizes, no output of circuit 1 used twice, and every matched
  output confirmed by the miter under the input locks, all the inputs it depends on being locked.
\<close>

definition verified :: "ctx \<Rightarrow> lock list \<Rightarrow> nat \<Rightarrow> lock \<Rightarrow> bool" where
  "verified X il j lk \<longleftrightarrow> run_miter X il (int j) (fst lk) = Inr (if snd lk then 2 else 1) \<and>
     (\<forall>a \<in> set (x_output_support2 X ! j). fst (il ! nat (idx X a)) \<noteq> -1) \<and>
     (\<forall>a \<in> set (x_output_support1 X ! nat (fst lk)). \<exists>b \<in> set (x_output_support2 X ! j).
        fst (il ! nat (idx X b)) = idx X a)"

definition once_each :: "lock list \<Rightarrow> bool" where
  "once_each ol \<longleftrightarrow> (\<forall>i < length ol. \<forall>j < length ol.
     fst (ol ! i) = fst (ol ! j) \<longrightarrow> fst (ol ! i) \<noteq> -1 \<longrightarrow> i = j)"

definition answer :: "ctx \<Rightarrow> lock list \<Rightarrow> lock list \<Rightarrow> bool" where
  "answer X il ol \<longleftrightarrow>
     locks_ok True (length (x_input1 X)) (length (x_input2 X)) il \<and>
     locks_ok False (length (x_output1 X)) (length (x_output2 X)) ol \<and> once_each ol \<and>
     (no_dangling X \<longrightarrow> (\<forall>j < length ol. fst (ol ! j) \<noteq> -1 \<longrightarrow> verified X il j (ol ! j)))"

definition matched :: "lock list \<Rightarrow> nat" where
  "matched ol = length (filter (\<lambda>lk. fst lk \<noteq> -1) ol)"

section \<open>The invariant of the lock vectors\<close>

definition bus_inv :: "nat \<Rightarrow> nat \<Rightarrow> locks \<Rightarrow> bool" where
  "bus_inv nb1 nb2 L \<longleftrightarrow>
     length (bus_2_to_1 L) = nb2 \<and> length (bus_1_to_2 L) = nb1 \<and> length (bus_2_to_1_count L) = nb2 \<and>
     (\<forall>b < nb2. bus_2_to_1_count L ! b \<ge> 0 \<and> (bus_2_to_1_count L ! b = 0 \<longleftrightarrow> bus_2_to_1 L ! b = -1))"

definition input_inv :: "ctx \<Rightarrow> locks \<Rightarrow> bool" where
  "input_inv X L \<longleftrightarrow> length (inputLockCount L) = length (x_input2 X) \<and>
     (\<forall>i < length (x_input2 X). inputLockCount L ! i \<ge> 0 \<and>
        (inputLockCount L ! i = 0 \<longleftrightarrow> fst (inputLock L ! i) = -1) \<and>
        (inputLockCount L ! i = 0 \<longrightarrow> inputLock L ! i = (-1, False)) \<and>
        (fst (inputLock L ! i) \<ge> 0 \<longrightarrow> input_ok X (length (bus_2_to_1 L)) (x_input2 X ! i) \<longrightarrow>
           bus_2_to_1 L ! nat (bus_idx X (x_input2 X ! i)) \<noteq> -1))"

definition output_inv :: "ctx \<Rightarrow> locks \<Rightarrow> bool" where
  "output_inv X L \<longleftrightarrow> length (c1_OutputLockCount L) = length (x_output1 X) \<and>
     (\<forall>lk \<in> set (outputLock L). fst lk = -1 \<longrightarrow> snd lk = False) \<and>
     (\<forall>c < length (x_output1 X). c1_OutputLockCount L ! c \<ge> 0 \<and>
        (c1_OutputLockCount L ! c = 0 \<longrightarrow> (\<forall>lk \<in> set (outputLock L). fst lk \<noteq> int c)))"

definition dyn :: "ctx \<Rightarrow> nat \<Rightarrow> nat \<Rightarrow> locks \<Rightarrow> bool" where
  "dyn X nb1 nb2 L \<longleftrightarrow> bus_inv nb1 nb2 L \<and> input_inv X L \<and> output_inv X L \<and>
     answer X (inputLock L) (outputLock L) \<and> length (c1_inputMatchCount L) = length (x_input1 X)"

section \<open>The bus maps as pure functions\<close>

definition fits :: "locks \<Rightarrow> int \<times> int \<Rightarrow> bool" where
  "fits L p \<longleftrightarrow> (let (b2, b1) = p; m2 = bus_2_to_1 L ! nat b2; m1 = bus_1_to_2 L ! nat b1
     in m2 = -1 \<and> m1 = -1 \<or> m2 = b1 \<and> m1 = b2)"

definition occ :: "int \<times> int \<Rightarrow> locks \<Rightarrow> locks" where
  "occ p L = (let (b2, b1) = p in
     L\<lparr>bus_2_to_1 := (bus_2_to_1 L)[nat b2 := b1], bus_1_to_2 := (bus_1_to_2 L)[nat b1 := b2],
       bus_2_to_1_count := (bus_2_to_1_count L)[nat b2 := bus_2_to_1_count L ! nat b2 + 1]\<rparr>)"

definition rel :: "int \<times> int \<Rightarrow> locks \<Rightarrow> locks" where
  "rel p L = (let (b2, b1) = p; k = bus_2_to_1_count L ! nat b2 - 1;
      L = L\<lparr>bus_2_to_1_count := (bus_2_to_1_count L)[nat b2 := k]\<rparr>
     in if k = 0 then L\<lparr>bus_2_to_1 := (bus_2_to_1 L)[nat b2 := -1], bus_1_to_2 := (bus_1_to_2 L)[nat b1 := -1]\<rparr>
        else L)"

definition pair_below :: "nat \<Rightarrow> nat \<Rightarrow> int \<times> int \<Rightarrow> bool" where
  "pair_below nb1 nb2 p \<longleftrightarrow> below (fst p) nb2 \<and> below (snd p) nb1"

lemma below_in_range: "length xs = n \<Longrightarrow> below b n \<Longrightarrow> in_range xs b"
  by (simp add: below_def in_range_def)

lemma below_nat: "below b n \<Longrightarrow> nat b < n"
  by (auto simp: below_def)

lemma below_eq: "below b n \<Longrightarrow> below c n \<Longrightarrow> nat b = nat c \<longleftrightarrow> b = c"
  by (auto simp: below_def)

lemma bus_inv_lengths:
  "bus_inv nb1 nb2 L \<Longrightarrow> length (bus_2_to_1 L) = nb2 \<and> length (bus_1_to_2 L) = nb1 \<and>
     length (bus_2_to_1_count L) = nb2"
  by (simp add: bus_inv_def)

lemma bus_guard_eq:
  assumes "bus_inv nb1 nb2 L" and "pair_below nb1 nb2 (b2, b1)"
  shows "bus_free L b2 b1 = Inr (bus_2_to_1 L ! nat b2 = -1 \<and> bus_1_to_2 L ! nat b1 = -1)"
    and "bus_matched L b2 b1 = Inr (bus_2_to_1 L ! nat b2 = b1 \<and> bus_1_to_2 L ! nat b1 = b2)"
  using assms by (auto simp: bus_free_def bus_matched_def pair_below_def bus_inv_def below_in_range)

lemma occ_steps_eq:
  assumes "bus_inv nb1 nb2 L" and "pair_below nb1 nb2 (b2, b1)"
  shows "rbind (map_bus b2 b1 L) (count_bus 1 b2) = Inr (occ (b2, b1) L)"
  using assms by (simp add: map_bus_def count_bus_def vadd_def occ_def pair_below_def bus_inv_def below_in_range)

text \<open>Where the pair is mapped already, counting it is all \<open>occ\<close> does.\<close>

lemma count_bus_matched:
  assumes "bus_inv nb1 nb2 L" and "pair_below nb1 nb2 (b2, b1)"
    and "bus_2_to_1 L ! nat b2 = b1" and "bus_1_to_2 L ! nat b1 = b2"
  shows "count_bus 1 b2 L = Inr (occ (b2, b1) L)"
proof -
  have "(bus_2_to_1 L)[nat b2 := b1] = bus_2_to_1 L" "(bus_1_to_2 L)[nat b1 := b2] = bus_1_to_2 L"
    using assms(3,4) by (metis list_update_id)+
  then show ?thesis
    using assms(1,2) by (simp add: count_bus_def vadd_def occ_def pair_below_def bus_inv_def below_in_range)
qed

lemma release_bus_eq:
  assumes "length (bus_2_to_1 L) = nb2" "length (bus_1_to_2 L) = nb1" "length (bus_2_to_1_count L) = nb2"
    and "pair_below nb1 nb2 (b2, b1)"
  shows "release_bus b2 b1 L = Inr (rel (b2, b1) L)"
  using assms
  by (simp add: release_bus_def count_bus_def vadd_def rel_def pair_below_def below_in_range below_nat Let_def)

lemma rel_occ:
  assumes "bus_inv nb1 nb2 L" and "pair_below nb1 nb2 p" and "fits L p"
  shows "rel p (occ p L) = L"
proof -
  obtain b2 b1 where p: "p = (b2, b1)" by (cases p)
  have b: "nat b2 < nb2" "nat b1 < nb1" using assms(2) by (auto simp: p pair_below_def below_nat)
  have c: "bus_2_to_1_count L ! nat b2 = 0 \<longleftrightarrow> bus_2_to_1 L ! nat b2 = -1" "b1 \<noteq> -1"
    using assms(1,2) b by (auto simp: bus_inv_def p pair_below_def below_def)
  show ?thesis
  proof (cases "bus_2_to_1 L ! nat b2 = -1")
    case True
    then have "bus_1_to_2 L ! nat b1 = -1" using assms(3) c(2) by (auto simp: fits_def p)
    then have "(bus_1_to_2 L)[nat b1 := -1] = bus_1_to_2 L" "(bus_2_to_1 L)[nat b2 := -1] = bus_2_to_1 L"
      using True by (metis list_update_id)+
    then show ?thesis using True c b assms(1)
      by (simp add: rel_def occ_def p bus_inv_def)
  next
    case False
    then have "bus_2_to_1 L ! nat b2 = b1" "bus_1_to_2 L ! nat b1 = b2" using assms(3) by (auto simp: fits_def p)
    then have "(bus_2_to_1 L)[nat b2 := b1] = bus_2_to_1 L" "(bus_1_to_2 L)[nat b1 := b2] = bus_1_to_2 L"
      by (metis list_update_id)+
    then show ?thesis using False c b assms(1) by (simp add: rel_def occ_def p bus_inv_def)
  qed
qed

text \<open>Two pairs of buses that share no bus do not interfere.\<close>

definition apart :: "nat \<Rightarrow> nat \<Rightarrow> int \<times> int \<Rightarrow> int \<times> int \<Rightarrow> bool" where
  "apart nb1 nb2 p q \<longleftrightarrow> pair_below nb1 nb2 p \<and> pair_below nb1 nb2 q \<and> fst p \<noteq> fst q \<and> snd p \<noteq> snd q"

lemma apart_nat: "apart nb1 nb2 p q \<Longrightarrow> nat (fst p) \<noteq> nat (fst q) \<and> nat (snd p) \<noteq> nat (snd q)"
  by (auto simp: apart_def pair_below_def below_def)

lemma apart_sym: "apart nb1 nb2 p q \<Longrightarrow> apart nb1 nb2 q p"
  by (auto simp: apart_def)

lemma occ_fields [simp]:
  "inputLock (occ p L) = inputLock L" "inputLockCount (occ p L) = inputLockCount L"
  "outputLock (occ p L) = outputLock L" "c1_OutputLockCount (occ p L) = c1_OutputLockCount L"
  "c1_inputMatchCount (occ p L) = c1_inputMatchCount L"
  "length (bus_2_to_1 (occ p L)) = length (bus_2_to_1 L)"
  "length (bus_1_to_2 (occ p L)) = length (bus_1_to_2 L)"
  "length (bus_2_to_1_count (occ p L)) = length (bus_2_to_1_count L)"
  by (simp_all add: occ_def split: prod.splits)

lemma occ_fits: "apart nb1 nb2 p q \<Longrightarrow> fits (occ p L) q = fits L q"
  using apart_nat [of nb1 nb2 p q] by (cases p; cases q) (auto simp: fits_def occ_def)

lemma rel_occ_comm:
  assumes "apart nb1 nb2 p q"
  shows "rel q (occ p L) = occ p (rel q L)"
proof -
  obtain b2 b1 c2 c1 where pq: "p = (b2, b1)" "q = (c2, c1)" by (cases p; cases q)
  have n: "nat b2 \<noteq> nat c2" "nat b1 \<noteq> nat c1" using apart_nat [OF assms] by (simp_all add: pq)
  have sw: "xs[nat b2 := u, nat c2 := v] = xs[nat c2 := v, nat b2 := u]"
    "xs[nat b1 := u, nat c1 := v] = xs[nat c1 := v, nat b1 := u]" for xs :: "int list" and u v
    using n by (simp_all add: list_update_swap)
  show ?thesis using n n [symmetric] by (simp add: pq rel_def occ_def Let_def sw)
qed

lemma occ_bus_inv:
  assumes "bus_inv nb1 nb2 L" and "pair_below nb1 nb2 p" and "fits L p"
  shows "bus_inv nb1 nb2 (occ p L)"
proof -
  obtain b2 b1 where p: "p = (b2, b1)" by (cases p)
  have "bus_2_to_1_count L ! nat b2 \<ge> 0" "b1 \<noteq> -1" "nat b2 < nb2"
    using assms(1,2) by (auto simp: p bus_inv_def pair_below_def below_def below_nat)
  then show ?thesis using assms by (auto simp: bus_inv_def occ_def p nth_list_update)
qed

definition pairs_ok :: "nat \<Rightarrow> nat \<Rightarrow> (int \<times> int) list \<Rightarrow> bool" where
  "pairs_ok nb1 nb2 ps \<longleftrightarrow> (\<forall>p \<in> set ps. pair_below nb1 nb2 p) \<and> distinct (map fst ps) \<and> distinct (map snd ps)"

lemma pairs_ok_Cons:
  "pairs_ok nb1 nb2 (p # ps) \<longleftrightarrow>
     pair_below nb1 nb2 p \<and> pairs_ok nb1 nb2 ps \<and> (\<forall>q \<in> set ps. apart nb1 nb2 p q)"
  by (auto simp: pairs_ok_def apart_def image_iff)

lemma fold_occ_inv:
  assumes "pairs_ok nb1 nb2 ps" and "bus_inv nb1 nb2 L" and "\<forall>p \<in> set ps. fits L p"
  shows "bus_inv nb1 nb2 (fold occ ps L)"
  using assms
proof (induction ps arbitrary: L)
  case Nil
  then show ?case by simp
next
  case (Cons p ps)
  then have "bus_inv nb1 nb2 (occ p L)" by (auto intro: occ_bus_inv simp: pairs_ok_Cons)
  moreover have "\<forall>q \<in> set ps. fits (occ p L) q"
    using Cons.prems by (simp add: pairs_ok_Cons occ_fits [of nb1 nb2])
  ultimately show ?case using Cons by (simp add: pairs_ok_Cons)
qed

lemma rel_fold_occ:
  "\<forall>q \<in> set ps. apart nb1 nb2 p q \<Longrightarrow> rel p (fold occ ps L) = fold occ ps (rel p L)"
proof (induction ps arbitrary: L)
  case Nil
  then show ?case by simp
next
  case (Cons q ps)
  have "rel p (occ q L) = occ q (rel p L)"
    by (rule rel_occ_comm [OF apart_sym, of nb1 nb2]) (use Cons.prems in simp)
  then show ?case using Cons by simp
qed

text \<open>Releasing all pairs undoes occupying them.\<close>

lemma fold_rel_occ:
  assumes "pairs_ok nb1 nb2 ps" and "bus_inv nb1 nb2 L" and "\<forall>p \<in> set ps. fits L p"
  shows "fold rel ps (fold occ ps L) = L"
  using assms
proof (induction ps arbitrary: L)
  case Nil
  then show ?case by simp
next
  case (Cons p ps)
  have "rel p (fold occ ps (occ p L)) = fold occ ps (rel p (occ p L))"
    by (rule rel_fold_occ [of _ nb1 nb2]) (use Cons.prems in \<open>auto simp: pairs_ok_Cons\<close>)
  also have "rel p (occ p L) = L"
    by (rule rel_occ) (use Cons.prems in \<open>auto simp: pairs_ok_Cons\<close>)
  finally show ?case using Cons by (simp add: pairs_ok_Cons)
qed

lemma fold_occ_fields [simp]:
  "inputLock (fold occ ps L) = inputLock L" "inputLockCount (fold occ ps L) = inputLockCount L"
  "outputLock (fold occ ps L) = outputLock L" "c1_OutputLockCount (fold occ ps L) = c1_OutputLockCount L"
  "c1_inputMatchCount (fold occ ps L) = c1_inputMatchCount L"
  "length (bus_2_to_1 (fold occ ps L)) = length (bus_2_to_1 L)"
  by (induction ps arbitrary: L) simp_all

text \<open>After occupying, the buses of circuit 2 are mapped, and buses that were mapped still are.\<close>

lemma occ_mapped:
  assumes "pair_below nb1 nb2 p" and "length (bus_2_to_1 L) = nb2"
  shows "bus_2_to_1 (occ p L) ! nat (fst p) \<noteq> -1"
    and "bus_2_to_1 L ! i \<noteq> -1 \<Longrightarrow> bus_2_to_1 (occ p L) ! i \<noteq> -1"
proof -
  obtain b2 b1 where p: "p = (b2, b1)" by (cases p)
  have b: "nat b2 < length (bus_2_to_1 L)" "b1 \<noteq> -1"
    using assms by (auto simp: p pair_below_def below_def)
  show "bus_2_to_1 (occ p L) ! nat (fst p) \<noteq> -1" using b by (simp add: p occ_def)
  assume m: "bus_2_to_1 L ! i \<noteq> -1"
  show "bus_2_to_1 (occ p L) ! i \<noteq> -1" using b m by (cases "i = nat b2") (simp_all add: p occ_def)
qed

lemma fold_occ_keeps:
  assumes "\<forall>p \<in> set ps. pair_below nb1 nb2 p" and "length (bus_2_to_1 L) = nb2" and "bus_2_to_1 L ! i \<noteq> -1"
  shows "bus_2_to_1 (fold occ ps L) ! i \<noteq> -1"
  using assms
proof (induction ps arbitrary: L)
  case Nil
  then show ?case by simp
next
  case (Cons q ps)
  have "bus_2_to_1 (occ q L) ! i \<noteq> -1"
    by (rule occ_mapped(2) [of nb1 nb2]) (use Cons.prems in auto)
  then show ?case using Cons by simp
qed

lemma fold_occ_mapped:
  assumes "\<forall>p \<in> set ps. pair_below nb1 nb2 p" and "length (bus_2_to_1 L) = nb2" and "p \<in> set ps"
  shows "bus_2_to_1 (fold occ ps L) ! nat (fst p) \<noteq> -1"
  using assms
proof (induction ps arbitrary: L)
  case Nil
  then show ?case by simp
next
  case (Cons q ps)
  show ?case
  proof (cases "p = q")
    case True
    have "bus_2_to_1 (occ q L) ! nat (fst q) \<noteq> -1"
      by (rule occ_mapped(1) [of nb1 nb2]) (use Cons.prems in auto)
    then show ?thesis using Cons.prems fold_occ_keeps [of ps nb1 nb2 "occ q L"] True by simp
  next
    case False
    then show ?thesis using Cons by simp
  qed
qed

lemma fold_occ_fits:
  "\<forall>p \<in> set ps. apart nb1 nb2 p q \<Longrightarrow> fits (fold occ ps L) q = fits L q"
  by (induction ps arbitrary: L) (simp_all add: occ_fits [of nb1 nb2])

section \<open>\<open>occupy_buses\<close> and \<open>release_buses\<close>\<close>

lemma multi_pass_eq:
  assumes "bus_inv nb1 nb2 L" and "i + n = length bs2" and "length bs2 \<le> length bs1"
    and "\<forall>p \<in> set (zip bs2 bs1). pair_below nb1 nb2 p"
  shows "multi_pass L bs2 bs1 i n = Inr (\<forall>p \<in> set (drop i (zip bs2 bs1)). fits L p)"
  using assms(2)
proof (induction n arbitrary: i)
  case 0
  then show ?case using assms(3) by simp
next
  case (Suc n)
  have i: "i < length (zip bs2 bs1)" using Suc.prems assms(3) by simp
  then have z: "drop i (zip bs2 bs1) = (bs2 ! i, bs1 ! i) # drop (Suc i) (zip bs2 bs1)"
    by (simp add: Cons_nth_drop_Suc [symmetric])
  have "(bs2 ! i, bs1 ! i) \<in> set (zip bs2 bs1)" using i by (auto simp: set_zip)
  then have pb: "pair_below nb1 nb2 (bs2 ! i, bs1 ! i)" using assms(4) by blast
  show ?case using Suc z i
    by (auto simp: bus_guard_eq [OF assms(1) pb] fits_def Let_def)
qed

lemma occupy_multi_eq:
  assumes "pairs_ok nb1 nb2 (zip bs2 bs1)" and "length bs2 \<le> length bs1" and "bus_inv nb1 nb2 L"
    and "\<forall>p \<in> set (zip bs2 bs1). fits L p"
  shows "occupy_multi bs2 bs1 L = Inr (fold occ (zip bs2 bs1) L)"
proof -
  have "n \<le> length bs2 \<Longrightarrow> rfold (\<lambda>i L. rbind (vget bs2 (int i)) (\<lambda>b2. rbind (vget bs1 (int i)) (\<lambda>b1.
       rbind (map_bus b2 b1 L) (count_bus 1 b2)))) [0..<n] L = Inr (fold occ (take n (zip bs2 bs1)) L)" for n
  proof (induction n)
    case 0
    then show ?case by simp
  next
    case (Suc n)
    then have n: "n < length bs2" "n < length bs1" using assms(2) by simp_all
    let ?ps = "take n (zip bs2 bs1)"
    have pb: "pair_below nb1 nb2 (bs2 ! n, bs1 ! n)"
      using assms(1) n by (auto simp: pairs_ok_def set_zip)
    have "pairs_ok nb1 nb2 ?ps" using assms(1)
      by (auto simp: pairs_ok_def take_map [symmetric] dest: in_set_takeD)
    then have "bus_inv nb1 nb2 (fold occ ?ps L)"
      using assms(3,4) by (intro fold_occ_inv) (auto dest: in_set_takeD)
    then show ?case using Suc n by (simp add: rfold_append occ_steps_eq [OF _ pb] take_Suc_conv_app_nth)
  qed
  from this [of "length bs2"] show ?thesis using assms(2) by (simp add: occupy_multi_def)
qed

lemma rel_lengths [simp]:
  "length (bus_2_to_1 (rel p L)) = length (bus_2_to_1 L)"
  "length (bus_1_to_2 (rel p L)) = length (bus_1_to_2 L)"
  "length (bus_2_to_1_count (rel p L)) = length (bus_2_to_1_count L)"
  by (simp_all add: rel_def Let_def split: prod.splits)

lemma fold_rel_lengths:
  "length (bus_2_to_1 (fold rel ps L)) = length (bus_2_to_1 L) \<and>
   length (bus_1_to_2 (fold rel ps L)) = length (bus_1_to_2 L) \<and>
   length (bus_2_to_1_count (fold rel ps L)) = length (bus_2_to_1_count L)"
  by (induction ps arbitrary: L) simp_all

lemma release_multi_eq:
  assumes "pairs_ok nb1 nb2 (zip bs2 bs1)" and "length bs2 \<le> length bs1"
    and "length (bus_2_to_1 L) = nb2" "length (bus_1_to_2 L) = nb1" "length (bus_2_to_1_count L) = nb2"
  shows "release_multi bs2 bs1 L = Inr (fold rel (zip bs2 bs1) L)"
proof -
  have "n \<le> length bs2 \<Longrightarrow> rfold (\<lambda>i L. rbind (vget bs2 (int i)) (\<lambda>b2. rbind (vget bs1 (int i)) (\<lambda>b1.
       release_bus b2 b1 L))) [0..<n] L = Inr (fold rel (take n (zip bs2 bs1)) L)" for n
  proof (induction n)
    case 0
    then show ?case by simp
  next
    case (Suc n)
    then have n: "n < length bs2" "n < length bs1" using assms(2) by simp_all
    have pb: "pair_below nb1 nb2 (bs2 ! n, bs1 ! n)"
      using assms(1) n by (auto simp: pairs_ok_def set_zip)
    show ?case
      using Suc n assms(3-5) fold_rel_lengths [of "take n (zip bs2 bs1)" L]
      by (simp add: rfold_append release_bus_eq [OF _ _ _ pb] take_Suc_conv_app_nth)
  qed
  from this [of "length bs2"] show ?thesis using assms(2) by (simp add: release_multi_def)
qed

lemma zip_take_len: "zip xs (take (length xs) ys) = zip xs ys"
  by (simp add: take_zip [of "length xs" xs ys, simplified])

end
