(* ===== verification/Match_Steps.thy ===== *)
theory Match_Steps
  imports Match_Inv
begin

text \<open>
  Each step of the search under the invariant of \<open>Match_Inv\<close>: it runs without an error, keeps the
  invariant, and its undo restores the state exactly.
\<close>

section \<open>A candidate for an input\<close>

lemma bus_pairs_ok:
  assumes "input_ok X nb2 a2" and "port_cand X nb1 a2 a1"
  shows "pairs_ok nb1 nb2 (bus_pairs X a2 a1)"
proof -
  have len: "length (c1_buses X a2 a1) = length (c2_buses X a2)" using assms(2) by (simp add: port_cand_def)
  then have "map fst (bus_pairs X a2 a1) = c2_buses X a2" "map snd (bus_pairs X a2 a1) = c1_buses X a2 a1"
    by (simp_all add: bus_pairs_def)
  moreover have "pair_below nb1 nb2 p" if "p \<in> set (bus_pairs X a2 a1)" for p
  proof -
    have "fst p \<in> set (c2_buses X a2)" "snd p \<in> set (c1_buses X a2 a1)"
      using that unfolding bus_pairs_def by (metis prod.collapse set_zip_leftD set_zip_rightD)+
    then show ?thesis using assms by (simp add: pair_below_def input_ok_def port_cand_def)
  qed
  ultimately show ?thesis using assms by (simp add: pairs_ok_def input_ok_def port_cand_def)
qed

lemma bus_pairs_multi:
  assumes "length (n_bus_indices (x_nodes X a2)) > 1" and "port_cand X nb1 a2 a1"
  shows "bus_pairs X a2 a1 = zip (n_bus_indices (x_nodes X a2)) (n_bus_indices (x_nodes X a1))"
    and "length (n_bus_indices (x_nodes X a2)) \<le> length (n_bus_indices (x_nodes X a1))"
  using assms by (auto simp: bus_pairs_def c2_buses_def c1_buses_def port_cand_def zip_take_len Let_def)

lemma bus_pairs_single:
  "\<not> length (n_bus_indices (x_nodes X a2)) > 1 \<Longrightarrow> bus_pairs X a2 a1 = [(bus_idx X a2, bus_idx X a1)]"
  by (simp add: bus_pairs_def c2_buses_def c1_buses_def Let_def)

lemma occupy_buses_eq:
  assumes X: "x_caseID X \<noteq> ''08''" and inp: "input_ok X nb2 a2" and cand: "port_cand X nb1 a2 a1"
    and inv: "bus_inv nb1 nb2 L"
  shows "occupy_buses X a2 a1 L =
     Inr (if \<forall>p \<in> set (bus_pairs X a2 a1). fits L p then Some (fold occ (bus_pairs X a2 a1) L) else None)"
proof (cases "length (n_bus_indices (x_nodes X a2)) > 1")
  case True
  note bp = bus_pairs_multi [OF True cand]
  have ok: "pairs_ok nb1 nb2 (zip (n_bus_indices (x_nodes X a2)) (n_bus_indices (x_nodes X a1)))"
    using bus_pairs_ok [OF inp cand] by (simp add: bp(1))
  have "multi_pass L (n_bus_indices (x_nodes X a2)) (n_bus_indices (x_nodes X a1)) 0
      (length (n_bus_indices (x_nodes X a2))) = Inr (\<forall>p \<in> set (bus_pairs X a2 a1). fits L p)"
    using multi_pass_eq [OF inv _ bp(2), of 0] ok by (simp add: bp(1) pairs_ok_def)
  then show ?thesis using True occupy_multi_eq [OF ok bp(2) inv]
    by (simp add: occupy_buses_def Let_def bp(1))
next
  case False
  note bp = bus_pairs_single [OF False, of a1]
  have pb: "pair_below nb1 nb2 (bus_idx X a2, bus_idx X a1)"
    using bus_pairs_ok [OF inp cand] by (simp add: bp pairs_ok_def)
  note guard = bus_guard_eq [OF inv pb]
  let ?m2 = "bus_2_to_1 L ! nat (bus_idx X a2)" and ?m1 = "bus_1_to_2 L ! nat (bus_idx X a1)"
  consider "?m2 = -1 \<and> ?m1 = -1" | "\<not> (?m2 = -1 \<and> ?m1 = -1)" "?m2 = bus_idx X a1 \<and> ?m1 = bus_idx X a2"
    | "\<not> (?m2 = -1 \<and> ?m1 = -1)" "\<not> (?m2 = bus_idx X a1 \<and> ?m1 = bus_idx X a2)" by blast
  then show ?thesis
  proof cases
    case 1
    then show ?thesis using False occ_steps_eq [OF inv pb]
      by (simp add: occupy_buses_def Let_def guard bp fits_def rbind_assoc [symmetric])
  next
    case 2
    then have g: "bus_free L (bus_idx X a2) (bus_idx X a1) = Inr False"
      "bus_matched L (bus_idx X a2) (bus_idx X a1) = Inr True" by (simp_all add: guard)
    have "fits L (bus_idx X a2, bus_idx X a1)" using 2 by (simp add: fits_def)
    then show ?thesis using False X count_bus_matched [OF inv pb] 2(2)
      by (simp add: occupy_buses_def Let_def g bp)
  next
    case 3
    then have g: "bus_free L (bus_idx X a2) (bus_idx X a1) = Inr False"
      "bus_matched L (bus_idx X a2) (bus_idx X a1) = Inr False" unfolding guard by auto
    have "\<not> fits L (bus_idx X a2, bus_idx X a1)" using 3 by (simp add: fits_def Let_def)
    then show ?thesis using False X by (simp add: occupy_buses_def Let_def g bp)
  qed
qed

lemma release_buses_eq:
  assumes inp: "input_ok X nb2 a2" and cand: "port_cand X nb1 a2 a1"
    and "length (bus_2_to_1 L) = nb2" "length (bus_1_to_2 L) = nb1" "length (bus_2_to_1_count L) = nb2"
  shows "release_buses X a2 a1 L = Inr (fold rel (bus_pairs X a2 a1) L)"
proof (cases "length (n_bus_indices (x_nodes X a2)) > 1")
  case True
  note bp = bus_pairs_multi [OF True cand]
  show ?thesis using True release_multi_eq [OF _ bp(2) assms(3-5)] bus_pairs_ok [OF inp cand]
    by (simp add: release_buses_def Let_def bp(1))
next
  case False
  note bp = bus_pairs_single [OF False, of a1]
  have "pair_below nb1 nb2 (bus_idx X a2, bus_idx X a1)"
    using bus_pairs_ok [OF inp cand] by (simp add: bp pairs_ok_def)
  then show ?thesis using False release_bus_eq [OF assms(3-5)]
    by (simp add: release_buses_def Let_def bp)
qed

text \<open>What occupying a candidate may change, and what it gives.\<close>

definition counts_ok :: "ctx \<Rightarrow> int list \<Rightarrow> bool" where
  "counts_ok X cnt \<longleftrightarrow> length cnt = length (x_input1 X) \<and> (\<forall>k \<in> set cnt. k \<ge> 0)"

definition occupied :: "ctx \<Rightarrow> nat \<Rightarrow> nat \<Rightarrow> addr \<Rightarrow> addr \<Rightarrow> locks \<Rightarrow> locks \<Rightarrow> bool" where
  "occupied X nb1 nb2 a2 a1 L L1 \<longleftrightarrow> dyn X nb1 nb2 L1 \<and>
     inputLock L1 = inputLock L \<and> inputLockCount L1 = inputLockCount L \<and> outputLock L1 = outputLock L \<and>
     c1_OutputLockCount L1 = c1_OutputLockCount L \<and>
     (const_cand X a1 \<or> bus_2_to_1 L1 ! nat (bus_idx X a2) \<noteq> -1) \<and>
     (\<forall>q. pair_below nb1 nb2 q \<longrightarrow> fst q \<notin> set (c2_buses X a2) \<longrightarrow>
        (\<not> const_cand X a1 \<longrightarrow> snd q \<notin> set (c1_buses X a2 a1)) \<longrightarrow> fits L1 q = fits L q)"

text \<open>What it costs.\<close>

definition charged :: "ctx \<Rightarrow> addr \<Rightarrow> addr \<Rightarrow> int \<times> int list \<Rightarrow> int \<times> int list \<Rightarrow> bool" where
  "charged X o1 a1 s s1 \<longleftrightarrow> (let (quota, cnt) = s; c = nat (idx X a1)
     in if const_cand X a1 then quota \<noteq> 0 \<and> s1 = (quota - 1, cnt)
        else x_isPIinPO X ! nat (idx X o1) ! c \<and> \<not> (cnt ! c \<noteq> 0 \<and> quota = 0) \<and>
             s1 = (if cnt ! c \<noteq> 0 then quota - 1 else quota, cnt[c := cnt ! c + 1]))"

lemma dyn_occ:
  assumes dyn: "dyn X nb1 nb2 L" and ok: "pairs_ok nb1 nb2 ps" and fits: "\<forall>p \<in> set ps. fits L p"
    and len: "length mc = length (x_input1 X)"
  shows "dyn X nb1 nb2 ((fold occ ps L)\<lparr>c1_inputMatchCount := mc\<rparr>)"
proof -
  let ?L1 = "fold occ ps L"
  have inv: "bus_inv nb1 nb2 L" using dyn by (simp add: dyn_def)
  have "bus_inv nb1 nb2 ?L1" using fold_occ_inv [OF ok inv fits] .
  then have "bus_inv nb1 nb2 (?L1\<lparr>c1_inputMatchCount := mc\<rparr>)" by (simp add: bus_inv_def)
  moreover have "bus_2_to_1 ?L1 ! i \<noteq> -1" if "bus_2_to_1 L ! i \<noteq> -1" for i
    using fold_occ_keeps [of ps nb1 nb2 L i] ok inv that by (simp add: pairs_ok_def bus_inv_def)
  moreover have "output_inv X (?L1\<lparr>c1_inputMatchCount := mc\<rparr>)"
    using dyn by (simp add: dyn_def output_inv_def)
  moreover have "answer X (inputLock ?L1) (outputLock ?L1)" using dyn by (simp add: dyn_def)
  moreover have "input_inv X (?L1\<lparr>c1_inputMatchCount := mc\<rparr>)"
    using dyn calculation(2) by (simp add: dyn_def input_inv_def)
  ultimately show ?thesis using len by (simp add: dyn_def)
qed

lemma mem_nth_ge: "\<forall>k \<in> set cnt. (k :: int) \<ge> 0 \<Longrightarrow> i < length cnt \<Longrightarrow> cnt ! i \<ge> 0"
  by (metis nth_mem)

lemma occupy_const:
  assumes "const_cand X a1" and "dyn X nb1 nb2 L"
  shows "occupy X c1_output a2 a1 (quota, cnt, L) =
      Inr (if quota = 0 then None else Some (quota - 1, cnt, L))"
    and "release X a2 a1 (quota - 1, cnt, L) = Inr (quota, cnt, L)"
    and "occupied X nb1 nb2 a2 a1 L L"
    and "quota \<noteq> 0 \<Longrightarrow> charged X c1_output a1 (quota, cnt) (quota - 1, cnt)"
  using assms by (simp_all add: occupy_def release_def const_cand_def occupied_def charged_def)

lemma occupy_port:
  assumes X: "search_ok X nb1 nb2" and inp: "input_ok X nb2 a2" and cand: "port_cand X nb1 a2 a1"
    and o1: "in_range (x_output1 X) (idx X c1_output)"
    and dyn: "dyn X nb1 nb2 L" and cnt: "counts_ok X cnt"
  shows "\<exists>r. occupy X c1_output a2 a1 (quota, cnt, L) = Inr r \<and>
     (\<forall>q1 cnt1 L1. r = Some (q1, cnt1, L1) \<longrightarrow> counts_ok X cnt1 \<and> occupied X nb1 nb2 a2 a1 L L1 \<and>
        charged X c1_output a1 (quota, cnt) (q1, cnt1) \<and>
        release X a2 a1 (q1, cnt1, L1) = Inr (quota, cnt, L))"
proof -
  let ?c = "idx X a1" and ?ps = "bus_pairs X a2 a1"
  have c: "in_range (x_input1 X) ?c" "?c \<noteq> CONST_VAL" "n_type (x_nodes X a1) \<noteq> CONSTANT" "\<not> const_cand X a1"
    using cand by (auto simp: port_cand_def in_range_def CONST_VAL_def const_cand_def)
  have sz: "sizes_ok X nb2" "x_caseID X \<noteq> ''08''" using X by (simp_all add: search_ok_def)
  have inv: "bus_inv nb1 nb2 L" using dyn by (simp add: dyn_def)
  have rows: "in_range (x_isPIinPO X) (idx X c1_output)"
    "in_range (x_isPIinPO X ! nat (idx X c1_output)) ?c"
  proof -
    show "in_range (x_isPIinPO X) (idx X c1_output)" using o1 sz(1) by (simp add: sizes_ok_def in_range_def)
    then have "x_isPIinPO X ! nat (idx X c1_output) \<in> set (x_isPIinPO X)" by (rule nth_in_range)
    then have "length (x_isPIinPO X ! nat (idx X c1_output)) = length (x_input1 X)"
      using sz(1) by (simp add: sizes_ok_def)
    then show "in_range (x_isPIinPO X ! nat (idx X c1_output)) ?c" using c(1) by (simp add: in_range_def)
  qed
  have rng: "in_range cnt ?c" "in_range (c1_inputMatchCount L) ?c"
    using c(1) cnt dyn by (simp_all add: counts_ok_def dyn_def in_range_def)
  let ?k = "cnt ! nat ?c" and ?mc = "c1_inputMatchCount L"
  let ?cnt1 = "cnt[nat ?c := ?k + 1]"
  let ?L1 = "(fold occ ?ps L)\<lparr>c1_inputMatchCount := ?mc[nat ?c := ?mc ! nat ?c + 1]\<rparr>"
  define skip where "skip \<longleftrightarrow> x_inputSizeEq X \<and> ?mc ! nat ?c \<noteq> 0 \<or>
      \<not> x_isPIinPO X ! nat (idx X c1_output) ! nat ?c \<or> ?k \<noteq> 0 \<and> quota = 0 \<or> \<not> (\<forall>p \<in> set ?ps. fits L p)"
  let ?q1 = "if ?k \<noteq> 0 then quota - 1 else quota"
  have occ: "occupy X c1_output a2 a1 (quota, cnt, L) = Inr (if skip then None else Some (?q1, ?cnt1, ?L1))"
    using c(1,2) rows rng occupy_buses_eq [OF sz(2) inp cand inv]
    by (auto simp: occupy_def skip_def vadd_def Let_def)
  have ok: "pairs_ok nb1 nb2 ?ps" using bus_pairs_ok [OF inp cand] .
  have "counts_ok X ?cnt1"
    using cnt by (auto simp: counts_ok_def dest!: set_update_subset_insert [THEN subsetD] intro: mem_nth_ge)
      (metis in_rangeD mem_nth_ge rng(1) add_nonneg_nonneg zero_le_one)
  moreover have "occupied X nb1 nb2 a2 a1 L ?L1" if fits: "\<forall>p \<in> set ?ps. fits L p"
  proof -
    have "dyn X nb1 nb2 ?L1" by (rule dyn_occ [OF dyn ok fits]) (use dyn in \<open>simp add: dyn_def\<close>)
    moreover have "length (c2_buses X a2) = length (c1_buses X a2 a1)" "bus_idx X a2 \<in> set (c2_buses X a2)"
      using inp cand by (simp_all add: input_ok_def port_cand_def)
    then obtain b1 where "(bus_idx X a2, b1) \<in> set ?ps"
      unfolding bus_pairs_def by (rule in_set_impl_in_set_zip1)
    then have "bus_2_to_1 ?L1 ! nat (bus_idx X a2) \<noteq> -1"
      using fold_occ_mapped [of ?ps nb1 nb2 L] ok inv by (auto simp: pairs_ok_def bus_inv_def)
    moreover have "fits ?L1 q = fits L q" if "pair_below nb1 nb2 q" "fst q \<notin> set (c2_buses X a2)"
        "snd q \<notin> set (c1_buses X a2 a1)" for q
    proof -
      have "\<forall>p \<in> set ?ps. apart nb1 nb2 p q"
        using that ok by (auto simp: apart_def pairs_ok_def bus_pairs_def dest: set_zip_leftD set_zip_rightD)
      then show ?thesis using fold_occ_fits [of ?ps nb1 nb2 q L] by (simp add: fits_def split: prod.splits)
    qed
    ultimately show ?thesis using c(4) by (simp add: occupied_def)
  qed
  moreover have "release X a2 a1 (?q1, ?cnt1, ?L1) = Inr (quota, cnt, L)" if fits: "\<forall>p \<in> set ?ps. fits L p"
  proof -
    have lens: "length (bus_2_to_1 (fold occ ?ps L)) = nb2" "length (bus_1_to_2 (fold occ ?ps L)) = nb1"
      "length (bus_2_to_1_count (fold occ ?ps L)) = nb2"
      using fold_occ_inv [OF ok inv fits] by (simp_all add: bus_inv_def)
    have same: "(fold occ ?ps L)\<lparr>c1_inputMatchCount := ?mc\<rparr> = fold occ ?ps L"
      by (metis fold_occ_fields(5) locks.surjective locks.update_convs(8))
    have "?k \<ge> 0" using cnt rng(1) in_rangeD by (fastforce simp: counts_ok_def)
    then show ?thesis
      using c(3) rng fold_rel_occ [OF ok inv fits] release_buses_eq [OF inp cand lens]
        in_rangeD [OF rng(1)] in_rangeD [OF rng(2)]
      by (simp add: release_def vadd_def Let_def same)
  qed
  moreover have "charged X c1_output a1 (quota, cnt) (?q1, ?cnt1)" if "\<not> skip"
    using that c(4) by (auto simp: charged_def skip_def Let_def)
  ultimately show ?thesis by (auto simp: occ skip_def)
qed

section \<open>Locking an input\<close>

lemma miter_pairs_cong:
  assumes "length il = length il'" and "\<forall>a \<in> set supp. il ! nat (idx X a) = il' ! nat (idx X a)"
  shows "miter_pairs_of X supp il = miter_pairs_of X supp il'"
proof -
  have "vget il (idx X a) = vget il' (idx X a)" if "a \<in> set supp" for a
    using assms that by (auto simp: vget_def in_range_def)
  then show ?thesis unfolding miter_pairs_of_def by (intro rfold_cong) auto
qed

lemma run_miter_cong:
  assumes "length il = length il'" and "\<forall>a \<in> set (x_output_support2 X ! j). il ! nat (idx X a) = il' ! nat (idx X a)"
  shows "run_miter X il (int j) c1 = run_miter X il' (int j) c1"
  using miter_pairs_cong [OF assms] by (cases "j < length (x_output_support2 X)") (auto simp: run_miter_def vget_def)

lemma verified_update:
  assumes "verified X il j lk" and "fst (il ! i) = -1"
  shows "verified X (il[i := v]) j lk"
proof -
  have "\<forall>a \<in> set (x_output_support2 X ! j). il[i := v] ! nat (idx X a) = il ! nat (idx X a)"
    using assms by (metis nth_list_update_neq verified_def)
  moreover from this have "run_miter X (il[i := v]) (int j) (fst lk) = run_miter X il (int j) (fst lk)"
    by (intro run_miter_cong) simp_all
  ultimately show ?thesis using assms(1) unfolding verified_def by metis
qed

lemma locks_ok_update:
  assumes "locks_ok consts n1 n2 ls" and "fst v = -1 \<or> consts \<and> fst v = CONST_VAL \<or> 0 \<le> fst v \<and> fst v < int n1"
  shows "locks_ok consts n1 n2 (ls[i := v])"
  using assms by (auto simp: locks_ok_def dest!: set_update_subset_insert [THEN subsetD])

lemma answer_lock_input:
  assumes "answer X il ol" and "fst (il ! i) = -1"
    and "fst v = CONST_VAL \<or> 0 \<le> fst v \<and> fst v < int (length (x_input1 X))"
  shows "answer X (il[i := v]) ol"
  using assms by (auto simp: answer_def locks_ok_update verified_update)

definition locked_state :: "addr \<Rightarrow> ctx \<Rightarrow> lock \<Rightarrow> locks \<Rightarrow> locks" where
  "locked_state a2 X lk L =
     L\<lparr>inputLock := (inputLock L)[nat (idx X a2) := lk], inputLockCount := (inputLockCount L)[nat (idx X a2) := 1]\<rparr>"

lemma lock_input_ok:
  assumes dyn: "dyn X nb1 nb2 L" and inp: "input_ok X nb2 a2"
    and free: "inputLockCount L ! nat (idx X a2) = 0"
    and cand: "const_cand X a1 \<or> port_cand X nb1 a2 a1 \<and> bus_2_to_1 L ! nat (bus_idx X a2) \<noteq> -1"
  shows "lock_input (idx X a2) (idx X a1, ng) L = Inr (locked_state a2 X (idx X a1, ng) L)"
    and "unlock_input (idx X a2) (locked_state a2 X (idx X a1, ng) L) = Inr L"
    and "dyn X nb1 nb2 (locked_state a2 X (idx X a1, ng) L)"
proof -
  let ?i = "nat (idx X a2)"
  have i: "in_range (x_input2 X) (idx X a2)" "?i < length (x_input2 X)" "x_input2 X ! ?i = a2"
    using inp by (auto simp: input_ok_def in_rangeD)
  have len: "length (inputLockCount L) = length (x_input2 X)" "length (inputLock L) = length (x_input2 X)"
    using dyn by (simp_all add: dyn_def input_inv_def answer_def locks_ok_def)
  then have rng: "in_range (inputLockCount L) (idx X a2)" "in_range (inputLock L) (idx X a2)"
    using i(1) by (simp_all add: in_range_def)
  have l0: "inputLock L ! ?i = (-1, False)"
    using dyn i free by (auto simp: dyn_def input_inv_def)
  show "lock_input (idx X a2) (idx X a1, ng) L = Inr (locked_state a2 X (idx X a1, ng) L)"
    using rng free by (simp add: lock_input_def locked_state_def)
  have "(inputLock L)[?i := (-1, False)] = inputLock L" "(inputLockCount L)[?i := 0] = inputLockCount L"
    using l0 free by (metis list_update_id)+
  then show "unlock_input (idx X a2) (locked_state a2 X (idx X a1, ng) L) = Inr L"
    using rng i(2) len free by (simp add: unlock_input_def locked_state_def vadd_def)
  have c: "idx X a1 = CONST_VAL \<or> 0 \<le> idx X a1 \<and> idx X a1 < int (length (x_input1 X))"
    using cand by (auto simp: const_cand_def port_cand_def in_range_def)
  then have "answer X ((inputLock L)[?i := (idx X a1, ng)]) (outputLock L)"
    using dyn l0 by (intro answer_lock_input) (simp_all add: dyn_def)
  moreover have "input_inv X (locked_state a2 X (idx X a1, ng) L)"
  proof -
    let ?L = "locked_state a2 X (idx X a1, ng) L"
    have inv: "input_inv X L" using dyn by (simp add: dyn_def)
    have "inputLockCount ?L ! j \<ge> 0 \<and> (inputLockCount ?L ! j = 0 \<longleftrightarrow> fst (inputLock ?L ! j) = -1) \<and>
        (inputLockCount ?L ! j = 0 \<longrightarrow> inputLock ?L ! j = (-1, False)) \<and>
        (fst (inputLock ?L ! j) \<ge> 0 \<longrightarrow> input_ok X (length (bus_2_to_1 ?L)) (x_input2 X ! j) \<longrightarrow>
           bus_2_to_1 ?L ! nat (bus_idx X (x_input2 X ! j)) \<noteq> -1)" if j: "j < length (x_input2 X)" for j
    proof (cases "j = ?i")
      case True
      have "idx X a1 \<noteq> -1" using c by (auto simp: CONST_VAL_def)
      moreover have "idx X a1 < 0" if "const_cand X a1" using that by (simp add: const_cand_def CONST_VAL_def)
      ultimately show ?thesis using True i len cand by (auto simp: locked_state_def)
    next
      case False
      then show ?thesis using inv j by (simp add: locked_state_def input_inv_def)
    qed
    then show ?thesis using len(1) by (simp add: input_inv_def locked_state_def)
  qed
  ultimately show "dyn X nb1 nb2 (locked_state a2 X (idx X a1, ng) L)"
    using dyn by (simp add: dyn_def locked_state_def bus_inv_def output_inv_def)
qed

section \<open>The counters of the inputs locked before\<close>

definition addall :: "int \<Rightarrow> int list \<Rightarrow> int list \<Rightarrow> int list" where
  "addall d is xs = fold (\<lambda>i xs. xs[nat i := xs ! nat i + d]) is xs"

lemma length_addall [simp]: "length (addall d is xs) = length xs"
proof -
  have "length (fold (\<lambda>i xs. xs[nat i := xs ! nat i + d]) is xs) = length xs" for xs
    by (induction "is" arbitrary: xs) simp_all
  then show ?thesis by (simp add: addall_def)
qed

lemma addall_nth:
  assumes "\<forall>i \<in> set is. below i (length xs)" and "j < length xs"
  shows "addall d is xs ! j = xs ! j + d * int (count_list is (int j))"
  using assms
proof (induction "is" arbitrary: xs)
  case Nil
  then show ?case by (simp add: addall_def)
next
  case (Cons i "is")
  have "addall d (i # is) xs = addall d is (xs[nat i := xs ! nat i + d])" by (simp add: addall_def)
  then show ?case using Cons by (auto simp: below_def nth_list_update algebra_simps)
qed

lemma addall_inverse:
  assumes "\<forall>i \<in> set is. below i (length xs)"
  shows "addall (-1) is (addall 1 is xs) = xs"
  using assms by (intro nth_equalityI) (simp_all add: addall_nth)

lemma addall_update_comm:
  assumes "\<forall>i \<in> set is. below i (length xs)" and "b < length xs"
  shows "addall d is (xs[b := xs ! b + 1]) = (addall d is xs)[b := addall d is xs ! b + 1]"
  using assms by (intro nth_equalityI) (auto simp: addall_nth nth_list_update)

text \<open>The buses of the recorded inputs that are not locked to a constant.\<close>

definition record_buses :: "ctx \<Rightarrow> lock list \<Rightarrow> int list \<Rightarrow> int list" where
  "record_buses X il rl = map (\<lambda>i. bus_idx X (x_input2 X ! nat i)) (filter (\<lambda>i. fst (il ! nat i) \<noteq> CONST_VAL) rl)"

definition counted :: "ctx \<Rightarrow> int \<Rightarrow> int list \<Rightarrow> locks \<Rightarrow> locks" where
  "counted X d rl L = L\<lparr>inputLockCount := addall d rl (inputLockCount L),
     bus_2_to_1_count := addall d (record_buses X (inputLock L) rl) (bus_2_to_1_count L)\<rparr>"

text \<open>The inputs a call of \<open>match_input\<close> finds locked.\<close>

definition record_ok :: "ctx \<Rightarrow> nat \<Rightarrow> lock list \<Rightarrow> int list \<Rightarrow> bool" where
  "record_ok X nb2 il rl \<longleftrightarrow> (\<forall>i \<in> set rl. below i (length (x_input2 X)) \<and> input_ok X nb2 (x_input2 X ! nat i) \<and>
     fst (il ! nat i) \<noteq> -1)"

lemma record_buses_below:
  "record_ok X nb2 il rl \<Longrightarrow> b \<in> set (record_buses X il rl) \<Longrightarrow> below b nb2"
  by (auto simp: record_ok_def record_buses_def input_ok_def)

lemma count_record_eq:
  assumes "record_ok X nb2 (inputLock L) rl" and "length (inputLockCount L) = length (x_input2 X)"
    and "length (inputLock L) = length (x_input2 X)" and "length (bus_2_to_1_count L) = nb2"
  shows "count_record X d rl L = Inr (counted X d rl L)"
  using assms
proof (induction rl arbitrary: L)
  case Nil
  then show ?case by (simp add: count_record_def counted_def addall_def record_buses_def)
next
  case (Cons i rl)
  have i: "below i (length (x_input2 X))" "below (bus_idx X (x_input2 X ! nat i)) nb2"
    using Cons.prems(1) by (auto simp: record_ok_def input_ok_def)
  let ?L1 = "L\<lparr>inputLockCount := (inputLockCount L)[nat i := inputLockCount L ! nat i + d]\<rparr>"
  let ?L = "if fst (inputLock L ! nat i) \<noteq> CONST_VAL
     then ?L1\<lparr>bus_2_to_1_count := (bus_2_to_1_count L)[nat (bus_idx X (x_input2 X ! nat i)) :=
        bus_2_to_1_count L ! nat (bus_idx X (x_input2 X ! nat i)) + d]\<rparr> else ?L1"
  have "count_record X d rl ?L = Inr (counted X d rl ?L)"
    by (rule Cons.IH) (use Cons.prems in \<open>auto simp: record_ok_def\<close>)
  moreover have "count_record X d (i # rl) L = count_record X d rl ?L"
    using i Cons.prems by (simp add: count_record_def vadd_def count_bus_def below_in_range)
  moreover have "counted X d rl ?L = counted X d (i # rl) L"
    by (simp add: counted_def addall_def record_buses_def)
  ultimately show ?case by simp
qed

section \<open>Locking an output\<close>

lemma counted_fields [simp]:
  "inputLock (counted X d rl L) = inputLock L" "outputLock (counted X d rl L) = outputLock L"
  "c1_OutputLockCount (counted X d rl L) = c1_OutputLockCount L" "bus_2_to_1 (counted X d rl L) = bus_2_to_1 L"
  "bus_1_to_2 (counted X d rl L) = bus_1_to_2 L" "c1_inputMatchCount (counted X d rl L) = c1_inputMatchCount L"
  "length (bus_2_to_1_count (counted X d rl L)) = length (bus_2_to_1_count L)"
  "length (inputLockCount (counted X d rl L)) = length (inputLockCount L)"
  by (simp_all add: counted_def)

lemma counted_inputs:
  assumes "length (inputLockCount L) = length (x_input2 X)" and "record_ok X nb2 (inputLock L) rl"
    and "i < length (x_input2 X)"
  shows "inputLockCount (counted X 1 rl L) ! i = inputLockCount L ! i + int (count_list rl (int i))"
  using assms by (simp add: counted_def addall_nth record_ok_def)

lemma counted_buses:
  assumes "length (bus_2_to_1_count L) = nb2" and "record_ok X nb2 (inputLock L) rl" and "b < nb2"
  shows "bus_2_to_1_count (counted X 1 rl L) ! b =
     bus_2_to_1_count L ! b + int (count_list (record_buses X (inputLock L) rl) (int b))"
  using assms record_buses_below [OF assms(2)] by (simp add: counted_def addall_nth)

lemma record_bus_mapped:
  assumes dyn: "dyn X nb1 nb2 L" and rl: "record_ok X nb2 (inputLock L) rl"
    and b: "b \<in> set (record_buses X (inputLock L) rl)"
  shows "bus_2_to_1 L ! nat b \<noteq> -1"
proof -
  obtain i where i: "i \<in> set rl" "fst (inputLock L ! nat i) \<noteq> CONST_VAL" "b = bus_idx X (x_input2 X ! nat i)"
    using b by (auto simp: record_buses_def)
  then have r: "nat i < length (x_input2 X)" "input_ok X nb2 (x_input2 X ! nat i)" "fst (inputLock L ! nat i) \<noteq> -1"
    using rl by (auto simp: record_ok_def below_nat)
  have len: "length (inputLock L) = length (x_input2 X)" "length (bus_2_to_1 L) = nb2"
    using dyn by (simp_all add: dyn_def answer_def locks_ok_def bus_inv_def)
  then have "inputLock L ! nat i \<in> set (inputLock L)" using r(1) by simp
  then have "fst (inputLock L ! nat i) \<ge> 0"
    using dyn r(3) i(2) by (auto simp: dyn_def answer_def locks_ok_def)
  then show ?thesis using dyn r(1,2) len(2) i(3) by (simp add: dyn_def input_inv_def)
qed

lemma counted_dyn:
  assumes dyn: "dyn X nb1 nb2 L" and rl: "record_ok X nb2 (inputLock L) rl"
  shows "bus_inv nb1 nb2 (counted X 1 rl L)" and "input_inv X (counted X 1 rl L)"
proof -
  have len: "length (inputLockCount L) = length (x_input2 X)" "length (bus_2_to_1_count L) = nb2"
    using dyn by (simp_all add: dyn_def input_inv_def bus_inv_def)
  have z: "count_list (record_buses X (inputLock L) rl) (int b) = 0" if "bus_2_to_1 L ! b = -1" for b
    using record_bus_mapped [OF dyn rl, of "int b"] that by (auto simp: count_list_0_iff)
  have "bus_2_to_1_count (counted X 1 rl L) ! b \<ge> 0 \<and>
      (bus_2_to_1_count (counted X 1 rl L) ! b = 0 \<longleftrightarrow> bus_2_to_1 L ! b = -1)" if b: "b < nb2" for b
  proof -
    have *: "bus_2_to_1_count L ! b \<ge> 0" "bus_2_to_1_count L ! b = 0 \<longleftrightarrow> bus_2_to_1 L ! b = -1"
      using dyn b by (simp_all add: dyn_def bus_inv_def)
    then show ?thesis using z [of b] counted_buses [OF len(2) rl b]
      by (cases "bus_2_to_1 L ! b = -1") simp_all
  qed
  then show "bus_inv nb1 nb2 (counted X 1 rl L)" using dyn by (simp add: dyn_def bus_inv_def)
  have y: "count_list rl (int i) = 0" if "fst (inputLock L ! i) = -1" for i
    using rl that by (auto simp: record_ok_def count_list_0_iff)
  have "inputLockCount (counted X 1 rl L) ! i \<ge> 0 \<and>
      (inputLockCount (counted X 1 rl L) ! i = 0 \<longleftrightarrow> fst (inputLock L ! i) = -1)" if i: "i < length (x_input2 X)" for i
  proof -
    have *: "inputLockCount L ! i \<ge> 0" "inputLockCount L ! i = 0 \<longleftrightarrow> fst (inputLock L ! i) = -1"
      using dyn i by (simp_all add: dyn_def input_inv_def)
    then show ?thesis using y [of i] counted_inputs [OF len(1) rl i]
      by (cases "fst (inputLock L ! i) = -1") simp_all
  qed
  then show "input_inv X (counted X 1 rl L)" using dyn by (simp add: dyn_def input_inv_def)
qed

lemma counted_occ:
  assumes "record_ok X nb2 (inputLock L) rl" and "length (inputLockCount L) = length (x_input2 X)"
    and "length (bus_2_to_1_count L) = nb2" and "below (fst p) nb2"
  shows "counted X (-1) rl (occ p (counted X 1 rl L)) = occ p L"
proof -
  have b: "\<forall>b \<in> set (record_buses X (inputLock L) rl). below b (length (bus_2_to_1_count L))"
    using record_buses_below [OF assms(1)] assms(3) by simp
  have i: "\<forall>i \<in> set rl. below i (length (inputLockCount L))"
    using assms(1,2) by (simp add: record_ok_def)
  obtain b2 b1 where p: "p = (b2, b1)" by (cases p)
  let ?bs = "record_buses X (inputLock L) rl" and ?c = "bus_2_to_1_count L"
  have "nat b2 < length (addall 1 ?bs ?c)" using assms(3,4) by (simp add: p below_nat)
  then have "addall (-1) ?bs ((addall 1 ?bs ?c)[nat b2 := addall 1 ?bs ?c ! nat b2 + 1]) =
      ?c[nat b2 := ?c ! nat b2 + 1]"
    using addall_update_comm [of ?bs "addall 1 ?bs ?c" "nat b2" "-1"] addall_inverse [OF b] b by simp
  then show ?thesis by (simp add: p counted_def occ_def addall_inverse [OF i])
qed

definition output_locked :: "ctx \<Rightarrow> addr \<Rightarrow> addr \<Rightarrow> int list \<Rightarrow> bool \<Rightarrow> locks \<Rightarrow> locks" where
  "output_locked X a2 a1 rl ng L =
     (occ (bus_idx X a2, bus_idx X a1) (counted X 1 rl L))
       \<lparr>outputLock := (outputLock L)[nat (idx X a2) := (idx X a1, ng)],
        c1_OutputLockCount := (c1_OutputLockCount L)[nat (idx X a1) := c1_OutputLockCount L ! nat (idx X a1) + 1]\<rparr>"

lemma counted_outputLock [simp]:
  "counted X d rl (L\<lparr>outputLock := v\<rparr>) = (counted X d rl L)\<lparr>outputLock := v\<rparr>"
  "counted X d rl (L\<lparr>c1_OutputLockCount := w\<rparr>) = (counted X d rl L)\<lparr>c1_OutputLockCount := w\<rparr>"
  "occ p (L\<lparr>outputLock := v\<rparr>) = (occ p L)\<lparr>outputLock := v\<rparr>"
  "occ p (L\<lparr>c1_OutputLockCount := w\<rparr>) = (occ p L)\<lparr>c1_OutputLockCount := w\<rparr>"
  "fits (L\<lparr>outputLock := v\<rparr>) p = fits L p" "fits (counted X d rl L) p = fits L p"
  by (simp_all add: counted_def occ_def fits_def split: prod.splits)

lemma bus_inv_out [simp]:
  "bus_inv nb1 nb2 (L\<lparr>outputLock := v\<rparr>) = bus_inv nb1 nb2 L"
  "bus_inv nb1 nb2 (L\<lparr>c1_OutputLockCount := w\<rparr>) = bus_inv nb1 nb2 L"
  "input_inv X (L\<lparr>outputLock := v\<rparr>) = input_inv X L"
  "input_inv X (L\<lparr>c1_OutputLockCount := w\<rparr>) = input_inv X L"
  by (simp_all add: bus_inv_def input_inv_def)

text \<open>The bus part of \<open>lock_output\<close>.\<close>

lemma out_bus_eq:
  assumes "bus_inv nb1 nb2 L" and "pair_below nb1 nb2 (b2, b1)" and "fits L (b2, b1)"
  shows "rbind (bus_free L b2 b1) (\<lambda>f. rbind (if f then map_bus b2 b1 L else Inr L) (count_bus 1 b2)) =
    Inr (occ (b2, b1) L)"
proof (cases "bus_2_to_1 L ! nat b2 = -1 \<and> bus_1_to_2 L ! nat b1 = -1")
  case True
  then show ?thesis by (simp add: bus_guard_eq [OF assms(1,2)] occ_steps_eq [OF assms(1,2)])
next
  case False
  then have "bus_2_to_1 L ! nat b2 = b1 \<and> bus_1_to_2 L ! nat b1 = b2" using assms(3) by (auto simp: fits_def)
  then show ?thesis using False count_bus_matched [OF assms(1,2)]
    by (auto simp: bus_guard_eq [OF assms(1,2)])
qed

lemma locks_ok_unset: "locks_ok False n1 n2 ol \<Longrightarrow> i < n2 \<Longrightarrow> fst (ol ! i) \<noteq> -1 \<Longrightarrow> 0 \<le> fst (ol ! i) \<and> fst (ol ! i) < int n1"
  by (metis locks_ok_def nth_mem)

lemma matched_update:
  assumes "j < length ol" and "fst (ol ! j) = -1" and "fst v \<noteq> -1"
  shows "matched (ol[j := v]) = Suc (matched ol)"
proof -
  let ?P = "\<lambda>lk :: lock. fst lk \<noteq> -1"
  have "filter ?P ol = filter ?P (take j ol @ ol ! j # drop (Suc j) ol)"
    by (rule arg_cong [OF id_take_nth_drop [OF assms(1)]])
  also have "\<dots> = filter ?P (take j ol) @ filter ?P (drop (Suc j) ol)"
    using assms(2) by simp
  finally have "length (filter ?P ol) = length (filter ?P (take j ol)) + length (filter ?P (drop (Suc j) ol))"
    by (simp only: length_append)
  moreover have "length (filter ?P (ol[j := v])) = Suc (length (filter ?P (take j ol)) + length (filter ?P (drop (Suc j) ol)))"
    using assms(1,3) by (simp add: upd_conv_take_nth_drop)
  ultimately show ?thesis unfolding matched_def by (simp only:)
qed

lemma answer_lock_output:
  assumes ans: "answer X il ol" and j: "j < length ol" and c: "0 \<le> c" "c < int (length (x_output1 X))"
    and free: "\<forall>lk \<in> set ol. fst lk \<noteq> c" and ver: "no_dangling X \<longrightarrow> verified X il j (c, ng)"
  shows "answer X il (ol[j := (c, ng)])"
proof -
  have "once_each (ol[j := (c, ng)])"
  proof -
    have "i = k" if "i < length ol" "k < length ol" "fst (ol[j := (c, ng)] ! i) = fst (ol[j := (c, ng)] ! k)"
        "fst (ol[j := (c, ng)] ! i) \<noteq> -1" for i k
      using that ans free nth_mem [of i ol] nth_mem [of k ol] j
      by (cases "i = j"; cases "k = j") (auto simp: answer_def once_each_def)
    then show ?thesis by (simp add: once_each_def)
  qed
  moreover have "locks_ok False (length (x_output1 X)) (length (x_output2 X)) (ol[j := (c, ng)])"
    using ans c by (intro locks_ok_update) (simp_all add: answer_def)
  ultimately show ?thesis using ans ver j by (simp add: answer_def nth_list_update)
qed

lemma lock_output_ok:
  assumes dyn: "dyn X nb1 nb2 L" and a2: "in_range (x_output2 X) (idx X a2)" and a1: "in_range (x_output1 X) (idx X a1)"
    and pb: "pair_below nb1 nb2 (bus_idx X a2, bus_idx X a1)" and fit: "fits L (bus_idx X a2, bus_idx X a1)"
    and rl: "record_ok X nb2 (inputLock L) rl"
    and free: "c1_OutputLockCount L ! nat (idx X a1) = 0" "outputLock L ! nat (idx X a2) = (-1, False)"
    and ver: "no_dangling X \<longrightarrow> verified X (inputLock L) (nat (idx X a2)) (idx X a1, ng)"
  shows "lock_output X a2 a1 rl ng L = Inr (output_locked X a2 a1 rl ng L)"
    and "unlock_output X a2 a1 rl (output_locked X a2 a1 rl ng L) = Inr L"
    and "dyn X nb1 nb2 (output_locked X a2 a1 rl ng L)"
    and "matched (outputLock (output_locked X a2 a1 rl ng L)) = Suc (matched (outputLock L))"
proof -
  let ?j = "nat (idx X a2)" and ?c = "nat (idx X a1)" and ?b2 = "bus_idx X a2" and ?b1 = "bus_idx X a1"
  let ?p = "(?b2, ?b1)" and ?oc = "c1_OutputLockCount L" and ?ol = "outputLock L"
  have len: "length ?ol = length (x_output2 X)" "length ?oc = length (x_output1 X)"
    "length (inputLockCount L) = length (x_input2 X)" "length (inputLock L) = length (x_input2 X)"
    "length (bus_2_to_1_count L) = nb2" "length (bus_2_to_1 L) = nb2" "length (bus_1_to_2 L) = nb1"
    using dyn by (simp_all add: dyn_def answer_def locks_ok_def output_inv_def input_inv_def bus_inv_def)
  have rng: "in_range ?ol (idx X a2)" "in_range ?oc (idx X a1)"
    using a1 a2 len by (simp_all add: in_range_def)
  have lt: "?j < length (x_output2 X)" "?c < length (x_output1 X)" using a1 a2 in_rangeD by blast+
  have inv1: "bus_inv nb1 nb2 (counted X 1 rl L)" "input_inv X (counted X 1 rl L)"
    using counted_dyn [OF dyn rl] .
  have cr: "count_record X 1 rl (L\<lparr>outputLock := v\<rparr>) = Inr ((counted X 1 rl L)\<lparr>outputLock := v\<rparr>)" for v
    using count_record_eq [of X nb2 "L\<lparr>outputLock := v\<rparr>" rl 1] rl len by simp
  have ob: "rbind (bus_free ((counted X 1 rl L)\<lparr>outputLock := v\<rparr>) ?b2 ?b1)
      (\<lambda>f. rbind (if f then map_bus ?b2 ?b1 ((counted X 1 rl L)\<lparr>outputLock := v\<rparr>)
                  else Inr ((counted X 1 rl L)\<lparr>outputLock := v\<rparr>)) (\<lambda>L. rbind (count_bus 1 ?b2 L) K)) =
      K ((occ ?p (counted X 1 rl L))\<lparr>outputLock := v\<rparr>)" for v K
  proof -
    have "rbind (bus_free M ?b2 ?b1) (\<lambda>f. rbind (if f then map_bus ?b2 ?b1 M else Inr M) (\<lambda>L. rbind (count_bus 1 ?b2 L) K)) =
        rbind (rbind (bus_free M ?b2 ?b1) (\<lambda>f. rbind (if f then map_bus ?b2 ?b1 M else Inr M) (count_bus 1 ?b2))) K" for M
      by (simp add: rbind_assoc)
    then show ?thesis using inv1(1) fit by (simp add: out_bus_eq [OF _ pb])
  qed
  show lock: "lock_output X a2 a1 rl ng L = Inr (output_locked X a2 a1 rl ng L)"
    unfolding lock_output_def Let_def vset_in_range [OF rng(1)] rbind_Inr cr ob
    using rng(2) by (simp add: vadd_def output_locked_def)
  have undone: "?ol[?j := (-1, False)] = ?ol" "?oc[?c := 0] = ?oc" using free by (metis list_update_id)+
  have inv2: "bus_inv nb1 nb2 (occ ?p (counted X 1 rl L))"
    by (rule occ_bus_inv [OF inv1(1) pb]) (simp add: fit)
  have cr': "count_record X (-1) rl (occ ?p (counted X 1 rl L)) = Inr (occ ?p L)"
    using count_record_eq [of X nb2 "occ ?p (counted X 1 rl L)" rl "-1"] rl len inv2
      counted_occ [OF rl len(3,5), of ?p] pb by (simp add: bus_inv_def pair_below_def)
  have rel: "release_bus ?b2 ?b1 (occ ?p L) = Inr L"
    using release_bus_eq [OF _ _ _ pb, of "occ ?p L"] rel_occ [OF _ pb fit] len dyn by (simp add: dyn_def)
  have undo: "(output_locked X a2 a1 rl ng L)\<lparr>outputLock := ?ol, c1_OutputLockCount := ?oc\<rparr> = occ ?p (counted X 1 rl L)"
  proof -
    have "M\<lparr>outputLock := v, c1_OutputLockCount := w, outputLock := outputLock M, c1_OutputLockCount := c1_OutputLockCount M\<rparr> = M"
      for M :: locks and v w by simp
    from this [of "occ ?p (counted X 1 rl L)"] show ?thesis by (simp add: output_locked_def)
  qed
  have "in_range (?ol[?j := v]) (idx X a2)" "in_range (?oc[?c := w]) (idx X a1)" for v w using rng by simp_all
  then have "unlock_output X a2 a1 rl (output_locked X a2 a1 rl ng L) =
      rbind (count_record X (-1) rl ((output_locked X a2 a1 rl ng L)\<lparr>outputLock := ?ol, c1_OutputLockCount := ?oc\<rparr>))
        (\<lambda>L. rbind (release_bus ?b2 ?b1 L) (\<lambda>L. rbind (vget (c1_OutputLockCount L) (idx X a1)) (\<lambda>k.
           rbind (require (k \<ge> 0) (Exit ''c1_OutputLockCount < 0'')) (\<lambda>_. Inr L))))"
    using lt len free undone by (simp add: unlock_output_def vadd_def output_locked_def)
  then show "unlock_output X a2 a1 rl (output_locked X a2 a1 rl ng L) = Inr L"
    using rng(2) free(1) by (simp add: undo cr' rel)
  show "matched (outputLock (output_locked X a2 a1 rl ng L)) = Suc (matched ?ol)"
    using matched_update [of ?j ?ol "(idx X a1, ng)"] free(2) lt(1) len(1) a1
    by (simp add: output_locked_def in_range_def)
  have unused: "\<forall>lk \<in> set ?ol. fst lk \<noteq> idx X a1"
  proof -
    have "\<forall>lk \<in> set ?ol. fst lk \<noteq> int ?c"
      using dyn free(1) lt(2) unfolding dyn_def output_inv_def by blast
    moreover have "int ?c = idx X a1" using a1 by (simp add: in_range_def)
    ultimately show ?thesis by simp
  qed
  have "answer X (inputLock L) (?ol[?j := (idx X a1, ng)])"
    by (rule answer_lock_output) (use dyn lt(1) len(1) a1 unused ver in \<open>simp_all add: dyn_def in_range_def\<close>)
  moreover have "output_inv X (output_locked X a2 a1 rl ng L)"
    using dyn lt len free(1) a1
    by (auto simp: dyn_def output_inv_def output_locked_def nth_list_update in_range_def
        dest!: set_update_subset_insert [THEN subsetD])
  moreover have "input_inv X (occ ?p (counted X 1 rl L))"
    using inv1(2) occ_mapped(2) [OF pb, of "counted X 1 rl L"] len by (simp add: input_inv_def)
  ultimately show "dyn X nb1 nb2 (output_locked X a2 a1 rl ng L)"
    using inv2 dyn by (simp add: dyn_def output_locked_def)
qed

end
