(* ===== verification/Match_Quota.thy ===== *)
theory Match_Quota
  imports Match_Steps
begin

text \<open>
  The quota of a pair of outputs. It starts as the number of inputs the output of circuit 2 has
  more than the output of circuit 1, and every constant and every second use of an input of
  circuit 1 costs one. Since it never falls below zero, a complete assignment uses every input of
  the output of circuit 1.
\<close>

definition uses :: "ctx \<Rightarrow> lock list \<Rightarrow> addr set \<Rightarrow> int \<Rightarrow> nat" where
  "uses X il S c = card {b \<in> S. fst (il ! nat (idx X b)) = c}"

text \<open>How often inputs of circuit 1 are used again.\<close>

definition reuse :: "ctx \<Rightarrow> int list \<Rightarrow> int" where
  "reuse X cnt = (\<Sum>c < length (x_input1 X). max 0 (cnt ! c - 1))"

text \<open>The account after the inputs \<open>S\<close> have been assigned.\<close>

definition acct :: "ctx \<Rightarrow> addr \<Rightarrow> addr \<Rightarrow> addr set \<Rightarrow> int \<Rightarrow> int list \<Rightarrow> lock list \<Rightarrow> bool" where
  "acct X o2 o1 S quota cnt il \<longleftrightarrow>
     (\<forall>c < length (x_input1 X). cnt ! c = int (uses X il S (int c)) \<and>
        (cnt ! c > 0 \<longrightarrow> x_isPIinPO X ! nat (idx X o1) ! c)) \<and>
     quota + int (uses X il S CONST_VAL) + reuse X cnt =
       int (length (x_output_support2 X ! nat (idx X o2))) - int (length (x_output_support1 X ! nat (idx X o1)))"

lemma uses_insert:
  assumes "finite S" and "a \<notin> S" and "\<forall>b \<in> S. il' ! nat (idx X b) = il ! nat (idx X b)"
  shows "uses X il' (insert a S) c = uses X il S c + (if fst (il' ! nat (idx X a)) = c then 1 else 0)"
proof -
  have "{b \<in> insert a S. fst (il' ! nat (idx X b)) = c} =
      (if fst (il' ! nat (idx X a)) = c then insert a {b \<in> S. fst (il ! nat (idx X b)) = c}
       else {b \<in> S. fst (il ! nat (idx X b)) = c})"
    using assms(3) by auto
  then show ?thesis using assms(1,2) by (simp add: uses_def)
qed

lemma sum_nth_update:
  fixes g :: "int \<Rightarrow> int"
  assumes "c < n" and "n \<le> length xs"
  shows "(\<Sum>i < n. g (xs[c := v] ! i)) = (\<Sum>i < n. g (xs ! i)) + g v - g (xs ! c)"
proof -
  have "(\<Sum>i < n. g (ys ! i)) = g (ys ! c) + (\<Sum>i \<in> {..<n} - {c}. g (ys ! i))" for ys
    using assms(1) by (simp add: sum.remove)
  moreover have "(\<Sum>i \<in> {..<n} - {c}. g (xs[c := v] ! i)) = (\<Sum>i \<in> {..<n} - {c}. g (xs ! i))"
    by (rule sum.cong) auto
  ultimately show ?thesis using assms by simp
qed

lemma acct_const:
  assumes "acct X o2 o1 S quota cnt il" and "finite S" and "a \<notin> S"
    and "\<forall>b \<in> S. il' ! nat (idx X b) = il ! nat (idx X b)" and "fst (il' ! nat (idx X a)) = CONST_VAL"
  shows "acct X o2 o1 (insert a S) (quota - 1) cnt il'"
  using assms(1,5) by (simp add: acct_def uses_insert [OF assms(2-4)] CONST_VAL_def)

lemma acct_port:
  assumes acct: "acct X o2 o1 S quota cnt il" and "finite S" and "a \<notin> S"
    and "\<forall>b \<in> S. il' ! nat (idx X b) = il ! nat (idx X b)"
    and c: "fst (il' ! nat (idx X a)) = c" "in_range (x_input1 X) c"
    and row: "x_isPIinPO X ! nat (idx X o1) ! nat c" and cnt: "counts_ok X cnt"
  shows "acct X o2 o1 (insert a S) (if cnt ! nat c \<noteq> 0 then quota - 1 else quota) (cnt[nat c := cnt ! nat c + 1]) il'"
proof -
  note ui = uses_insert [OF assms(2-4)]
  let ?n = "length (x_input1 X)" and ?k = "nat c"
  have k: "?k < ?n" "c = int ?k" using c(2) by (auto simp: in_range_def)
  have len: "length cnt = ?n" and nn: "cnt ! ?k \<ge> 0" using cnt k(1) mem_nth_ge by (auto simp: counts_ok_def)
  have "reuse X (cnt[?k := cnt ! ?k + 1]) = reuse X cnt + max 0 (cnt ! ?k) - max 0 (cnt ! ?k - 1)"
    using sum_nth_update [OF k(1), of cnt "\<lambda>x. max 0 (x - 1)" "cnt ! ?k + 1"] len by (simp add: reuse_def)
  moreover have "uses X il' (insert a S) CONST_VAL = uses X il S CONST_VAL"
    using ui [of CONST_VAL] c k(2) by (simp add: CONST_VAL_def)
  moreover have "cnt[?k := cnt ! ?k + 1] ! i = int (uses X il' (insert a S) (int i)) \<and>
      (cnt[?k := cnt ! ?k + 1] ! i > 0 \<longrightarrow> x_isPIinPO X ! nat (idx X o1) ! i)" if "i < ?n" for i
    using acct that ui [of "int i"] c(1) k len row
    by (cases "i = ?k") (auto simp: acct_def)
  ultimately show ?thesis using acct nn by (auto simp: acct_def max_def split: if_splits)
qed

text \<open>The account once every input is assigned.\<close>

lemma card_fibers:
  fixes f :: "addr \<Rightarrow> int"
  assumes "finite S" and "\<forall>b \<in> S. f b = v \<or> 0 \<le> f b \<and> f b < int n" and "v < 0"
  shows "card S = card {b \<in> S. f b = v} + (\<Sum>c < n. card {b \<in> S. f b = int c})"
proof -
  let ?T = "insert v (int ` {..<n})"
  have sub: "f ` S \<subseteq> ?T"
  proof
    fix y
    assume "y \<in> f ` S"
    then have "y = v \<or> 0 \<le> y \<and> y < int n" using assms(2) by auto
    then show "y \<in> ?T" by (auto simp: image_iff intro: bexI [of _ "nat y"])
  qed
  have "(\<Sum>y \<in> ?T. \<Sum>x \<in> {x \<in> S. f x = y}. (1 :: nat)) = (\<Sum>x \<in> S. 1)"
    by (rule sum.group) (use assms(1) sub in auto)
  moreover have "(\<Sum>y \<in> ?T. card {x \<in> S. f x = y}) =
      card {b \<in> S. f b = v} + (\<Sum>y \<in> int ` {..<n}. card {x \<in> S. f x = y})"
    using assms(3) by (subst sum.insert) auto
  moreover have "(\<Sum>y \<in> int ` {..<n}. card {x \<in> S. f x = y}) = (\<Sum>c < n. card {b \<in> S. f b = int c})"
    by (subst sum.reindex) (simp_all add: inj_on_def)
  ultimately show ?thesis by simp
qed

lemma acct_covers:
  assumes acct: "acct X o2 o1 (set s2) quota cnt il" and q: "quota \<ge> 0"
    and s2: "s2 = x_output_support2 X ! nat (idx X o2)" "distinct s2"
    and locks: "\<forall>b \<in> set s2. fst (il ! nat (idx X b)) = CONST_VAL \<or>
       0 \<le> fst (il ! nat (idx X b)) \<and> fst (il ! nat (idx X b)) < int (length (x_input1 X))"
    and row: "\<forall>c < length (x_input1 X). x_isPIinPO X ! nat (idx X o1) ! c \<longrightarrow>
       (\<exists>a \<in> set (x_output_support1 X ! nat (idx X o1)). idx X a = int c)"
    and a: "a \<in> set (x_output_support1 X ! nat (idx X o1))"
  shows "\<exists>b \<in> set s2. fst (il ! nat (idx X b)) = idx X a"
proof -
  let ?n = "length (x_input1 X)" and ?s1 = "x_output_support1 X ! nat (idx X o1)"
  let ?D = "{c. c < ?n \<and> cnt ! c > 0}"
  have cnt: "cnt ! c = int (uses X il (set s2) (int c))" if "c < ?n" for c using acct that by (simp add: acct_def)
  have "card (set s2) = uses X il (set s2) CONST_VAL + (\<Sum>c < ?n. uses X il (set s2) (int c))"
    unfolding uses_def by (rule card_fibers) (use locks in \<open>auto simp: CONST_VAL_def\<close>)
  then have "int (length s2) = int (uses X il (set s2) CONST_VAL) + (\<Sum>c < ?n. cnt ! c)"
    using distinct_card [OF s2(2)] cnt by simp
  moreover have "(\<Sum>c < ?n. cnt ! c) = reuse X cnt + int (card ?D)"
  proof -
    have "(\<Sum>c < ?n. cnt ! c) = (\<Sum>c < ?n. max 0 (cnt ! c - 1) + (if cnt ! c > 0 then 1 else 0))"
      by (rule sum.cong) (auto simp: cnt)
    also have "\<dots> = (\<Sum>c < ?n. max 0 (cnt ! c - 1)) + (\<Sum>c < ?n. if cnt ! c > 0 then 1 else 0)"
      by (rule sum.distrib)
    also have "(\<Sum>c < ?n. if cnt ! c > 0 then 1 else 0) = int (card ({..<?n} \<inter> {c. cnt ! c > 0}))"
      by (simp add: sum.If_cases)
    also have "{..<?n} \<inter> {c. cnt ! c > 0} = ?D" by auto
    finally show ?thesis by (simp add: reuse_def)
  qed
  ultimately have ge: "length ?s1 \<le> card ?D" using acct q s2(1) by (simp add: acct_def)
  have "int ` ?D \<subseteq> idx X ` set ?s1"
  proof
    fix y
    assume "y \<in> int ` ?D"
    then obtain c where c: "c < ?n" "cnt ! c > 0" "y = int c" by blast
    then have "x_isPIinPO X ! nat (idx X o1) ! c" using acct by (simp add: acct_def)
    then obtain b where "b \<in> set ?s1" "idx X b = int c" using row c(1) by blast
    then show "y \<in> idx X ` set ?s1" using c(3) by force
  qed
  moreover have "card (idx X ` set ?s1) \<le> length ?s1"
    using card_image_le [of "set ?s1" "idx X"] card_length [of ?s1] by simp
  moreover have "card (int ` ?D) = card ?D" by (simp add: card_image inj_on_def)
  ultimately have eq: "int ` ?D = idx X ` set ?s1" using ge by (intro card_seteq) simp_all
  have "idx X a \<in> idx X ` set ?s1" using a by (rule imageI)
  then have "idx X a \<in> int ` ?D" unfolding eq .
  then obtain c where c: "c < ?n" "cnt ! c > 0" "idx X a = int c" by blast
  then have "uses X il (set s2) (int c) > 0" using cnt [OF c(1)] by simp
  then have "{b \<in> set s2. fst (il ! nat (idx X b)) = int c} \<noteq> {}" unfolding uses_def by (metis card.empty less_irrefl)
  then show ?thesis using c(3) by auto
qed

text \<open>The filter for locked inputs keeps the account.\<close>

lemma filt_acct:
  assumes "filtLockedInput X L o1 its (keep, rl, quota, cnt) = Inr (Some (keep', rl', q', cnt'))"
    and nd: "no_dangling X" and il: "locks_ok True (length (x_input1 X)) (length (x_input2 X)) (inputLock L)"
    and "acct X o2 o1 S quota cnt (inputLock L)" and "counts_ok X cnt" and "finite S"
    and "distinct its" and "set its \<inter> S = {}"
  shows "acct X o2 o1 (S \<union> {a \<in> set its. fst (inputLock L ! nat (idx X a)) \<noteq> -1}) q' cnt' (inputLock L)"
  using assms(1,4-)
proof (induction its arbitrary: keep rl quota cnt S)
  case Nil
  then show ?case by simp
next
  case (Cons a its)
  let ?il = "inputLock L" and ?c = "fst (inputLock L ! nat (idx X a))"
  have r: "in_range ?il (idx X a)" using Cons.prems(1) by (auto simp: res_simps Let_def)
  then have "?il ! nat (idx X a) \<in> set ?il" by (rule nth_in_range)
  then have c: "?c = -1 \<or> ?c = CONST_VAL \<or> in_range (x_input1 X) ?c"
    using il by (auto simp: locks_ok_def in_range_def)
  have a: "a \<notin> S" "distinct its" "set its \<inter> insert a S = {}" "set its \<inter> S = {}"
    using Cons.prems by auto
  have eq: "S \<union> {b \<in> set (a # its). fst (?il ! nat (idx X b)) \<noteq> -1} =
      (if ?c = -1 then S else insert a S) \<union> {b \<in> set its. fst (?il ! nat (idx X b)) \<noteq> -1}" by auto
  have ini: "(if x_initOn X then rbind (vget (x_init_input X) (idx X a)) (\<lambda>ini.
                   case ini of None \<Rightarrow> Inr False
                   | Some a \<Rightarrow> rbind (vget (x_isPIinPO X) (idx X o1)) (\<lambda>row.
                       rbind (vget row (idx X a)) (\<lambda>p. Inr (\<not> p))))
                 else Inr False) = Inr d \<Longrightarrow> \<not> d" for d
    using nd nth_in_range [of "x_init_input X" "idx X a"]
    by (auto simp: no_dangling_def res_simps split: if_splits)
  show ?case
  proof (cases "?c = -1")
    case True
    then have "filtLockedInput X L o1 its (keep @ [a], rl, quota, cnt) = Inr (Some (keep', rl', q', cnt'))"
      using Cons.prems(1) r ini by (auto simp: rbind_eq_Inr [where m = "if x_initOn X then _ else _"] Let_def split: if_splits)
    then show ?thesis using Cons.IH [OF _ Cons.prems(2-4) a(2,4)] True unfolding eq by simp
  next
    case False
    show ?thesis
    proof (cases "?c = CONST_VAL")
      case True
      then have "filtLockedInput X L o1 its (keep, rl @ [idx X a], quota - 1, cnt) = Inr (Some (keep', rl', q', cnt'))"
        using Cons.prems(1) r by (simp add: Let_def CONST_VAL_def)
      then show ?thesis
        using Cons.IH [OF _ acct_const [OF Cons.prems(2,4) a(1) _ True] Cons.prems(3) _ a(2,3)] False Cons.prems(4)
        unfolding eq by simp
    next
      case port: False
      then have ir: "in_range (x_input1 X) ?c" using c False by blast
      let ?cnt = "cnt[nat ?c := cnt ! nat ?c + 1]"
      have "filtLockedInput X L o1 its (keep, rl @ [idx X a], if cnt ! nat ?c \<noteq> 0 then quota - 1 else quota, ?cnt) =
          Inr (Some (keep', rl', q', cnt'))" and row: "x_isPIinPO X ! nat (idx X o1) ! nat ?c"
        using Cons.prems(1) r False port by (auto simp: Let_def res_simps split: if_splits)
      moreover have "counts_ok X ?cnt"
      proof -
        have "cnt ! nat ?c \<ge> 0" using Cons.prems(3) ir in_rangeD mem_nth_ge by (fastforce simp: counts_ok_def)
        then show ?thesis using Cons.prems(3)
          by (auto simp: counts_ok_def dest!: set_update_subset_insert [THEN subsetD])
      qed
      ultimately show ?thesis
        using Cons.IH [OF _ acct_port [OF Cons.prems(2,4) a(1) _ refl ir row Cons.prems(3)] _ _ a(2,3)] False Cons.prems(4)
        unfolding eq by simp
    qed
  qed
qed

end
