(* ===== verification/Match_Moves.thy ===== *)
theory Match_Moves
  imports Match_Quota
begin

text \<open>
  The remaining steps of the search: the call of the miter, the filter for inputs locked before,
  the choice of the next output and the record of the best answer.
\<close>

section \<open>The miter on the locks\<close>

definition supports_ok :: "ctx \<Rightarrow> nat \<Rightarrow> addr list \<Rightarrow> bool" where
  "supports_ok X nb2 supp \<longleftrightarrow> distinct supp \<and> (\<forall>a \<in> set supp. input_ok X nb2 a)"

definition pairs_inv :: "ctx \<Rightarrow> miter_pairs \<Rightarrow> bool" where
  "pairs_inv X t \<longleftrightarrow> (let (ps, ns, cs) = t in length ns = length ps \<and>
     (\<forall>(c2, c1) \<in> set ps. in_range (x_input2 X) c2 \<and> in_range (x_input1 X) c1) \<and>
     (\<forall>(c, port) \<in> set cs. in_range (x_input2 X) port))"

lemma lock_range:
  assumes "locks_ok consts n1 n2 ls" and "i < n2"
  shows "fst (ls ! i) = -1 \<or> consts \<and> fst (ls ! i) = CONST_VAL \<or> 0 \<le> fst (ls ! i) \<and> fst (ls ! i) < int n1"
  using assms by (metis locks_ok_def nth_mem)

lemma miter_pairs_total:
  assumes supp: "\<forall>a \<in> set supp. input_ok X nb2 a"
    and il: "locks_ok True (length (x_input1 X)) (length (x_input2 X)) il"
  shows "\<exists>t. miter_pairs_of X supp il = Inr t \<and> pairs_inv X t"
  unfolding miter_pairs_of_def
proof (rule rfold_total)
  show "pairs_inv X ([], [], [])" by (simp add: pairs_inv_def)
  fix a t
  assume a: "a \<in> set supp" and inv: "pairs_inv X t"
  obtain ps ns cs where t: "t = (ps, ns, cs)" by (cases t)
  have r: "in_range (x_input2 X) (idx X a)" "in_range il (idx X a)"
    using supp a il by (auto simp: input_ok_def locks_ok_def in_range_def)
  obtain c1 ng where lk: "il ! nat (idx X a) = (c1, ng)" by (cases "il ! nat (idx X a)")
  have "c1 = -1 \<or> c1 = CONST_VAL \<or> in_range (x_input1 X) c1"
    using lock_range [OF il, of "nat (idx X a)"] r(1) in_rangeD lk by (auto simp: in_range_def)
  then show "\<exists>v. (\<lambda>(ps, ns, cs). rbind (vget il (idx X a)) (\<lambda>(c1, ng).
       if c1 = -1 then Inr (ps, ns, cs)
       else if c1 \<noteq> CONST_VAL then Inr (ps @ [(idx X a, c1)], ns @ [ng], cs)
       else Inr (ps, ns, cs @ [(ng, idx X a)]))) t = Inr v \<and> pairs_inv X v"
    using r inv lk by (auto simp: t pairs_inv_def CONST_VAL_def)
qed

lemma run_miter_total:
  assumes X: "search_ok X nb1 nb2" and il: "locks_ok True (length (x_input1 X)) (length (x_input2 X)) il"
    and c2: "in_range (x_output2 X) c2" and c1: "in_range (x_output1 X) c1"
  shows "\<exists>r \<le> 2. run_miter X il c2 c1 = Inr r"
proof -
  have r: "in_range (x_output_support2 X) c2" using X c2 by (simp add: search_ok_def sizes_ok_def in_range_def)
  then have "\<forall>a \<in> set (x_output_support2 X ! nat c2). input_ok X nb2 a"
    using X nth_in_range by (auto simp: search_ok_def)
  then obtain ps ns cs where t: "miter_pairs_of X (x_output_support2 X ! nat c2) il = Inr (ps, ns, cs)"
    "pairs_inv X (ps, ns, cs)"
    using miter_pairs_total [OF _ il] by (metis prod_cases3)
  obtain A r' where A: "sim_ready (x_nodes X) A r' (x_fuel X)" "set (x_output1 X) \<subseteq> A" "set (x_output2 X) \<subseteq> A"
    using X by (auto simp: search_ok_def miter_ready_def)
  have "miter_args_ok (x_input1 X) (x_input2 X) (x_output1 X) (x_output2 X) ps ns (c2, c1) cs"
    using t(2) c1 c2 X by (auto simp: miter_args_ok_def pairs_inv_def search_ok_def miter_ready_def)
  from miter_total [OF this A] show ?thesis using r t(1) by (simp add: run_miter_def)
qed

section \<open>Inputs locked before\<close>

lemma filt_ok:
  assumes X: "search_ok X nb1 nb2" and dyn: "dyn X nb1 nb2 L" and o1: "in_range (x_output1 X) (idx X c1_output)"
    and "supports_ok X nb2 its" and "counts_ok X cnt" and "record_ok X nb2 (inputLock L) rl"
  shows "\<exists>r. filtLockedInput X L c1_output its (keep, rl, quota, cnt) = Inr r \<and>
     (\<forall>keep' rl' q' cnt'. r = Some (keep', rl', q', cnt') \<longrightarrow> counts_ok X cnt' \<and> record_ok X nb2 (inputLock L) rl' \<and>
        (\<exists>sub. keep' = keep @ sub \<and> distinct sub \<and> set sub \<subseteq> set its \<and>
           (\<forall>a \<in> set sub. fst (inputLock L ! nat (idx X a)) = -1) \<and>
           (no_dangling X \<longrightarrow> (\<forall>a \<in> set its. fst (inputLock L ! nat (idx X a)) = -1 \<longrightarrow> a \<in> set sub))))"
  using assms(4-)
proof (induction its arbitrary: keep rl quota cnt)
  case Nil
  then show ?case by simp
next
  case (Cons a its)
  let ?c = "fst (inputLock L ! nat (idx X a))"
  have a: "input_ok X nb2 a" and sup: "supports_ok X nb2 its" and na: "a \<notin> set its"
    using Cons.prems(1) by (simp_all add: supports_ok_def)
  have il: "locks_ok True (length (x_input1 X)) (length (x_input2 X)) (inputLock L)"
    using dyn by (simp add: dyn_def answer_def)
  have r: "in_range (inputLock L) (idx X a)" "nat (idx X a) < length (x_input2 X)" "idx X a \<ge> 0"
    using a il in_rangeD by (auto simp: input_ok_def locks_ok_def in_range_def)
  have row: "in_range (x_isPIinPO X) (idx X c1_output)"
    using X o1 by (simp add: search_ok_def sizes_ok_def in_range_def)
  then have "x_isPIinPO X ! nat (idx X c1_output) \<in> set (x_isPIinPO X)" by (rule nth_in_range)
  then have rowlen: "length (x_isPIinPO X ! nat (idx X c1_output)) = length (x_input1 X)"
    using X by (simp add: search_ok_def sizes_ok_def)
  have rec: "record_ok X nb2 (inputLock L) (rl @ [idx X a])" if "?c \<noteq> -1"
    using Cons.prems(3) a r that by (auto simp: record_ok_def below_def input_ok_def)
  consider (const) "?c = CONST_VAL" | (port) "?c \<noteq> -1" "?c \<noteq> CONST_VAL" "0 \<le> ?c" "?c < int (length (x_input1 X))"
    | (free) "?c = -1" using lock_range [OF il r(2)] by blast
  then show ?case
  proof cases
    case const
    then have "?c \<noteq> -1" by (simp add: CONST_VAL_def)
    then show ?thesis
      using Cons.IH [OF sup Cons.prems(2) rec, of keep "quota - 1"] const r(1)
      by (fastforce simp: Let_def CONST_VAL_def)
  next
    case port
    let ?cnt = "cnt[nat ?c := cnt ! nat ?c + 1]"
    have cr: "in_range cnt ?c" "in_range (x_isPIinPO X ! nat (idx X c1_output)) ?c"
      using Cons.prems(2) port rowlen by (simp_all add: counts_ok_def in_range_def)
    have "cnt ! nat ?c \<ge> 0" using Cons.prems(2) cr(1) in_rangeD mem_nth_ge by (fastforce simp: counts_ok_def)
    then have "counts_ok X ?cnt"
      using Cons.prems(2) by (auto simp: counts_ok_def dest!: set_update_subset_insert [THEN subsetD])
    then show ?thesis
      using Cons.IH [OF sup _ rec, of ?cnt keep "if cnt ! nat ?c \<noteq> 0 then quota - 1 else quota"] port r(1) cr row
      by (fastforce simp: Let_def)
  next
    case free
    have ini: "\<exists>d. (if x_initOn X then rbind (vget (x_init_input X) (idx X a)) (\<lambda>ini.
                   case ini of None \<Rightarrow> Inr False
                   | Some a \<Rightarrow> rbind (vget (x_isPIinPO X) (idx X c1_output)) (\<lambda>row.
                       rbind (vget row (idx X a)) (\<lambda>p. Inr (\<not> p))))
                 else Inr False) = Inr d \<and> (no_dangling X \<longrightarrow> \<not> d)"
    proof (cases "x_initOn X")
      case True
      have ir: "in_range (x_init_input X) (idx X a)"
        using r(2,3) X by (simp add: search_ok_def sizes_ok_def in_range_def)
      then have mem: "x_init_input X ! nat (idx X a) \<in> set (x_init_input X)" by (rule nth_in_range)
      show ?thesis
      proof (cases "x_init_input X ! nat (idx X a)")
        case None
        then show ?thesis using True ir by auto
      next
        case (Some b)
        then have "in_range (x_input1 X) (idx X b)" using mem X by (auto simp: search_ok_def sizes_ok_def)
        then have "in_range (x_isPIinPO X ! nat (idx X c1_output)) (idx X b)" using rowlen by (simp add: in_range_def)
        moreover have "\<not> no_dangling X" using True Some mem by (auto simp: no_dangling_def)
        ultimately show ?thesis using True Some ir row by simp
      qed
    qed auto
    then obtain d where d: "(if x_initOn X then rbind (vget (x_init_input X) (idx X a)) (\<lambda>ini.
                   case ini of None \<Rightarrow> Inr False
                   | Some a \<Rightarrow> rbind (vget (x_isPIinPO X) (idx X c1_output)) (\<lambda>row.
                       rbind (vget row (idx X a)) (\<lambda>p. Inr (\<not> p))))
                 else Inr False) = Inr d" "no_dangling X \<longrightarrow> \<not> d" by blast
    show ?thesis
    proof (cases d)
      case True
      then show ?thesis using Cons.IH [OF sup Cons.prems(2,3), of keep "quota - 1"] r(1) free d
        by (fastforce simp: Let_def)
    next
      case False
      obtain r' where IH: "filtLockedInput X L c1_output its (keep @ [a], rl, quota, cnt) = Inr r'"
        "\<And>keep' rl' q' cnt'. r' = Some (keep', rl', q', cnt') \<Longrightarrow> counts_ok X cnt' \<and> record_ok X nb2 (inputLock L) rl' \<and>
        (\<exists>sub. keep' = (keep @ [a]) @ sub \<and> distinct sub \<and> set sub \<subseteq> set its \<and>
           (\<forall>a \<in> set sub. fst (inputLock L ! nat (idx X a)) = -1) \<and>
           (no_dangling X \<longrightarrow> (\<forall>a \<in> set its. fst (inputLock L ! nat (idx X a)) = -1 \<longrightarrow> a \<in> set sub)))"
        using Cons.IH [OF sup Cons.prems(2,3), of "keep @ [a]" quota] by blast
      have "\<exists>sub. keep' = keep @ sub \<and> distinct sub \<and> set sub \<subseteq> set (a # its) \<and>
           (\<forall>a \<in> set sub. fst (inputLock L ! nat (idx X a)) = -1) \<and>
           (no_dangling X \<longrightarrow> (\<forall>b \<in> set (a # its). fst (inputLock L ! nat (idx X b)) = -1 \<longrightarrow> b \<in> set sub))"
        if "r' = Some (keep', rl', q', cnt')" for keep' rl' q' cnt'
      proof -
        note IHs = IH(2) [OF that]
        obtain sub where "keep' = (keep @ [a]) @ sub" "distinct sub" "set sub \<subseteq> set its"
           "\<forall>a \<in> set sub. fst (inputLock L ! nat (idx X a)) = -1"
           "no_dangling X \<longrightarrow> (\<forall>a \<in> set its. fst (inputLock L ! nat (idx X a)) = -1 \<longrightarrow> a \<in> set sub)"
          using IHs by blast
        then show ?thesis using na free by (intro exI [of _ "a # sub"]) auto
      qed
      then show ?thesis using IH r(1) free d False by (simp add: Let_def)
    qed
  qed
qed

section \<open>The next output\<close>

text \<open>
  The choice depends on the locks and on the priorities the nodes start with (\<open>pr\<close>), not on the
  priorities an earlier part of the search left behind.
\<close>

definition unmapped :: "ctx \<Rightarrow> locks \<Rightarrow> addr \<Rightarrow> int" where
  "unmapped X L o2 =
     int (length (filter (\<lambda>b. bus_2_to_1 L ! nat b = -1) (x_output_to_inputBus X ! nat (idx X o2))))"

definition rank_of :: "ctx \<Rightarrow> (addr \<Rightarrow> int) \<Rightarrow> locks \<Rightarrow> addr \<Rightarrow> int" where
  "rank_of X pr L o2 = (if pr o2 \<le> 0 then - unmapped X L o2 else pr o2)"

definition pick :: "ctx \<Rightarrow> (addr \<Rightarrow> int) \<Rightarrow> locks \<Rightarrow> addr \<Rightarrow> addr option \<times> int \<Rightarrow> addr option \<times> int" where
  "pick X pr L o2 s =
     (if outputLock L ! nat (idx X o2) = (-1, False) \<and> snd s < rank_of X pr L o2
      then (Some o2, rank_of X pr L o2) else s)"

definition next_of :: "ctx \<Rightarrow> (addr \<Rightarrow> int) \<Rightarrow> locks \<Rightarrow> addr option" where
  "next_of X pr L = fst (fold (pick X pr L) (x_output_match_order X) (None, INT_MIN))"

definition compat :: "(addr \<Rightarrow> int) \<Rightarrow> (addr \<Rightarrow> int) \<Rightarrow> bool" where
  "compat pr p \<longleftrightarrow> (\<forall>a. pr a > 0 \<or> p a > 0 \<longrightarrow> p a = pr a)"

lemma count_unmapped:
  assumes "\<forall>b \<in> set bs. in_range m b"
  shows "rfold (\<lambda>b p. rbind (vget m b) (\<lambda>x. Inr (if x = -1 then p - 1 else p))) bs p =
     Inr (p - int (length (filter (\<lambda>b. m ! nat b = -1) bs)))"
  using assms by (induction bs arbitrary: p) simp_all

lemma output_range:
  assumes "search_ok X nb1 nb2" and "o2 \<in> set (x_output_match_order X)"
  shows "in_range (x_output2 X) (idx X o2)" and "x_output2 X ! nat (idx X o2) = o2"
proof -
  have "o2 \<in> set (x_output2 X)" using assms by (simp add: search_ok_def outputs_indexed_def)
  then obtain j where j: "j < length (x_output2 X)" "x_output2 X ! j = o2" by (auto simp: in_set_conv_nth)
  then have "idx X o2 = int j" using assms by (auto simp: search_ok_def outputs_indexed_def)
  then show "in_range (x_output2 X) (idx X o2)" "x_output2 X ! nat (idx X o2) = o2"
    using j by (simp_all add: in_range_def)
qed

lemma next_match_eq:
  assumes X: "search_ok X nb1 nb2" and dyn: "dyn X nb1 nb2 L" and comp: "compat pr (priority B)"
  shows "\<exists>p. next_match X L B = Inr (next_of X pr L, B\<lparr>priority := p\<rparr>) \<and> compat pr p"
proof -
  let ?F = "\<lambda>c2_output (np, max_priority, pr).
         rbind (vget (outputLock L) (idx X c2_output)) (\<lambda>lk.
         if lk \<noteq> (-1, False) then Inr (np, max_priority, pr)
         else
           rbind (if pr c2_output \<le> 0 then
               rbind (vget (x_output_to_inputBus X) (idx X c2_output)) (\<lambda>buses.
               rbind (rfold (\<lambda>b p. rbind (vget (bus_2_to_1 L) b) (\<lambda>m. Inr (if m = -1 then p - 1 else p))) buses 0)
                 (\<lambda>p. Inr (pr(c2_output := p))))
             else Inr pr) (\<lambda>pr.
           if max_priority < pr c2_output then Inr (Some c2_output, pr c2_output, pr)
           else Inr (np, max_priority, pr)))"
  have "set os \<subseteq> set (x_output_match_order X) \<Longrightarrow> compat pr p \<Longrightarrow>
     \<exists>p'. rfold ?F os (np, mx, p) = Inr (fst (fold (pick X pr L) os (np, mx)), snd (fold (pick X pr L) os (np, mx)), p') \<and>
        compat pr p'" for os np mx p
  proof (induction os arbitrary: np mx p)
    case Nil
    then show ?case by auto
  next
    case (Cons o2 os)
    have o2: "in_range (x_output2 X) (idx X o2)" using output_range [OF X] Cons.prems(1) by simp
    then have r: "in_range (outputLock L) (idx X o2)" "in_range (x_output_to_inputBus X) (idx X o2)"
      using dyn X by (simp_all add: dyn_def answer_def locks_ok_def search_ok_def sizes_ok_def in_range_def)
    have "x_output_to_inputBus X ! nat (idx X o2) \<in> set (x_output_to_inputBus X)" using r(2) by (rule nth_in_range)
    then have bs: "\<forall>b \<in> set (x_output_to_inputBus X ! nat (idx X o2)). in_range (bus_2_to_1 L) b"
      using X dyn below_in_range [of "bus_2_to_1 L" nb2]
      by (simp add: search_ok_def sizes_ok_def dyn_def bus_inv_def)
    show ?case
    proof (cases "outputLock L ! nat (idx X o2) = (-1, False)")
      case False
      then show ?thesis using Cons r by (simp add: pick_def)
    next
      case True
      define p1 where "p1 = (if p o2 \<le> 0 then p(o2 := - unmapped X L o2) else p)"
      have "compat pr p1"
        unfolding compat_def
      proof (intro allI impI)
        fix a
        assume a: "pr a > 0 \<or> p1 a > 0"
        have u: "- unmapped X L o2 \<le> 0" by (simp add: unmapped_def)
        have c: "pr a > 0 \<or> p a > 0 \<Longrightarrow> p a = pr a" using Cons.prems(2) unfolding compat_def by blast
        show "p1 a = pr a"
        proof (cases "a = o2 \<and> p o2 \<le> 0")
          case True
          then have "p1 a \<le> 0" using u by (simp add: p1_def)
          then show ?thesis using a c True by auto
        next
          case False
          then have "p1 a = p a" by (auto simp: p1_def)
          then show ?thesis using a c by auto
        qed
      qed
      moreover have "p1 o2 = rank_of X pr L o2"
      proof (cases "p o2 \<le> 0")
        case True
        then have "pr o2 \<le> 0" using Cons.prems(2) by (metis compat_def not_le)
        then show ?thesis using True by (simp add: p1_def rank_of_def)
      next
        case False
        then have "p o2 = pr o2" "\<not> pr o2 \<le> 0" using Cons.prems(2) by (metis compat_def not_le)+
        then show ?thesis by (simp add: p1_def rank_of_def)
      qed
      moreover have "?F o2 (np, mx, p) =
          (if mx < p1 o2 then Inr (Some o2, p1 o2, p1) else Inr (np, mx, p1))"
        using True r by (simp add: count_unmapped [OF bs] p1_def unmapped_def)
      moreover have "pick X pr L o2 (np, mx) = (if mx < p1 o2 then (Some o2, p1 o2) else (np, mx))"
        using True calculation(2) by (simp add: pick_def)
      moreover have "set os \<subseteq> set (x_output_match_order X)" using Cons.prems(1) by simp
      ultimately show ?thesis using Cons.IH [of p1 "Some o2" "p1 o2"] Cons.IH [of p1 np mx]
        by (cases "mx < p1 o2") (simp_all only: rfold.simps fold_simps rbind_Inr if_True if_False)
    qed
  qed
  from this [OF order_refl comp, of None INT_MIN] obtain p' where
    p': "rfold ?F (x_output_match_order X) (None, INT_MIN, priority B) =
       Inr (next_of X pr L, snd (fold (pick X pr L) (x_output_match_order X) (None, INT_MIN)), p')" "compat pr p'"
    unfolding next_of_def by blast
  show ?thesis using p'(2) unfolding next_match_def p'(1) by auto
qed

text \<open>While an output is not matched there is a next one, and it is not matched.\<close>

lemma rank_above:
  assumes "search_ok X nb1 nb2" and "o2 \<in> set (x_output_match_order X)"
  shows "INT_MIN < rank_of X pr L o2"
proof -
  have "in_range (x_output_to_inputBus X) (idx X o2)"
    using output_range(1) [OF assms] assms(1) by (simp add: search_ok_def sizes_ok_def in_range_def)
  then have "x_output_to_inputBus X ! nat (idx X o2) \<in> set (x_output_to_inputBus X)" by (rule nth_in_range)
  then have "int (length (x_output_to_inputBus X ! nat (idx X o2))) < - INT_MIN"
    using assms(1) by (simp add: search_ok_def sizes_ok_def)
  moreover have "unmapped X L o2 \<le> int (length (x_output_to_inputBus X ! nat (idx X o2)))"
    by (simp add: unmapped_def)
  ultimately show ?thesis by (simp add: rank_of_def INT_MIN_def)
qed

lemma fold_pick:
  "fst (fold (pick X pr L) os s) = Some o2 \<Longrightarrow>
   fst s = Some o2 \<or> o2 \<in> set os \<and> outputLock L ! nat (idx X o2) = (-1, False)"
proof (induction os arbitrary: s)
  case Nil
  then show ?case by simp
next
  case (Cons p os)
  then have "fst (pick X pr L p s) = Some o2 \<or> o2 \<in> set os \<and> outputLock L ! nat (idx X o2) = (-1, False)"
    using Cons.IH [of "pick X pr L p s"] by simp
  then show ?case by (auto simp: pick_def split: if_splits)
qed

lemma pick_some: "fst s \<noteq> None \<Longrightarrow> fst (fold (pick X pr L) os s) \<noteq> None"
  by (induction os arbitrary: s) (simp_all add: pick_def)

lemma fold_pick_some:
  assumes "o2 \<in> set os" and "outputLock L ! nat (idx X o2) = (-1, False)"
    and "\<forall>p \<in> set os. snd s < rank_of X pr L p"
  shows "fst (fold (pick X pr L) os s) \<noteq> None"
  using assms
proof (induction os arbitrary: s)
  case Nil
  then show ?case by simp
next
  case (Cons p os)
  show ?case
  proof (cases "outputLock L ! nat (idx X p) = (-1, False)")
    case True
    then have "fst (pick X pr L p s) \<noteq> None" using Cons.prems(3) by (simp add: pick_def)
    then show ?thesis using pick_some by simp
  next
    case False
    then have "o2 \<in> set os" using Cons.prems by auto
    then show ?thesis using Cons False by (simp add: pick_def)
  qed
qed

lemma next_of_facts:
  assumes X: "search_ok X nb1 nb2" and dyn: "dyn X nb1 nb2 L" and "matched (outputLock L) < length (x_output2 X)"
  obtains o2 where "next_of X pr L = Some o2" "o2 \<in> set (x_output_match_order X)"
    "outputLock L ! nat (idx X o2) = (-1, False)"
proof -
  have len: "length (outputLock L) = length (x_output2 X)" using dyn by (simp add: dyn_def answer_def locks_ok_def)
  have "\<exists>lk \<in> set (outputLock L). fst lk = -1"
  proof (rule ccontr)
    assume "\<not> ?thesis"
    then have "filter (\<lambda>lk. fst lk \<noteq> -1) (outputLock L) = outputLock L" by (simp add: filter_id_conv)
    then show False using assms(3) len by (simp add: matched_def)
  qed
  then obtain j where j: "j < length (x_output2 X)" "fst (outputLock L ! j) = -1"
    using len by (auto simp: in_set_conv_nth)
  then have "snd (outputLock L ! j) = False" using dyn len nth_mem by (fastforce simp: dyn_def output_inv_def)
  then have lk: "outputLock L ! j = (-1, False)" using j(2) by (simp add: prod_eq_iff)
  let ?o = "x_output2 X ! j"
  have o: "?o \<in> set (x_output_match_order X)" "idx X ?o = int j"
    using X j(1) by (simp_all add: search_ok_def outputs_indexed_def)
  have "next_of X pr L \<noteq> None"
    unfolding next_of_def using o lk rank_above [OF X]
    by (intro fold_pick_some [of ?o]) simp_all
  then obtain o2 where o2: "next_of X pr L = Some o2" by blast
  then show ?thesis using fold_pick [of X pr L "x_output_match_order X" "(None, INT_MIN)" o2] that
    by (simp add: next_of_def)
qed

section \<open>The best answer\<close>

definition best_ok :: "ctx \<Rightarrow> (addr \<Rightarrow> int) \<Rightarrow> best \<Rightarrow> bool" where
  "best_ok X pr B \<longleftrightarrow> compat pr (priority B) \<and>
     (maxOutputDepth B = -1 \<or>
      answer X (maxInputMatch B) (maxOutputMatch B) \<and> maxOutputDepth B = int (matched (maxOutputMatch B)) \<and>
      answer_file B = render_answer (x_nodes X) (x_input1 X) (x_input2 X) (x_output1 X) (x_output2 X)
        (maxInputMatch B) (maxOutputMatch B))"

lemma record_best_ok:
  assumes dyn: "dyn X nb1 nb2 L" and B: "best_ok X pr B" and out: "out_idx = int (matched (outputLock L))"
  shows "\<exists>B'. record_best X out_idx L B = Inr B' \<and> best_ok X pr B' \<and> maxOutputDepth B' \<ge> out_idx \<and>
     maxOutputDepth B' \<ge> maxOutputDepth B \<and> findOutputBest B' = findOutputBest B"
proof (cases "out_idx > maxOutputDepth B")
  case False
  then show ?thesis using B by (simp add: record_best_def)
next
  case True
  have ans: "answer X (inputLock L) (outputLock L)" using dyn by (simp add: dyn_def)
  then have "writePartialAns (x_nodes X) (x_input1 X) (x_input2 X) (x_output1 X) (x_output2 X)
      (inputLock L) (outputLock L) = Inr (render_answer (x_nodes X) (x_input1 X) (x_input2 X)
      (x_output1 X) (x_output2 X) (inputLock L) (outputLock L), [])"
    by (intro writePartialAns_ok) (simp_all add: answer_def)
  then show ?thesis using True B ans out by (simp add: record_best_def best_ok_def)
qed

end
