(* ===== verification/Match_Correct.thy ===== *)
theory Match_Correct
  imports Match_Moves
begin

text \<open>
  Correctness of the search. \<open>out_step\<close> is the specification: one output of circuit 2 is locked by
  some choice of an output of circuit 1 and of candidates and negations for the inputs it needs.
  The search returns without an error, answers true exactly when choices for all outputs exist,
  gives back its state when it fails, and every answer it records is confirmed by the miter.
  The recursion of \<open>match_output\<close> through \<open>match_input\<close> is cut by the locale \<open>output_search\<close>, the
  contract of the continuation that \<open>match_input\<close> calls.
\<close>

section \<open>The specification\<close>

inductive in_path :: "ctx \<Rightarrow> addr \<Rightarrow> addr list \<Rightarrow> loc \<Rightarrow> loc \<Rightarrow> bool" for X :: ctx and o1 :: addr where
  in_done: "in_path X o1 [] l l"
| in_step: "c1_input \<in> set (x_input_match_cand X ! nat (idx X a)) \<Longrightarrow>
     occupy X o1 a c1_input l = Inr (Some (quota, cnt, L)) \<Longrightarrow>
     negs_of X a = Inr negs \<Longrightarrow> ng \<in> set negs \<Longrightarrow>
     lock_input (idx X a) (idx X c1_input, ng) L = Inr L1 \<Longrightarrow>
     in_path X o1 its (quota, cnt, L1) l' \<Longrightarrow> in_path X o1 (a # its) l l'"

inductive_simps in_path_Nil [simp]: "in_path X o1 [] l l'"
inductive_simps in_path_Cons: "in_path X o1 (a # its) l l'"

text \<open>The miter accepts the pair of outputs and the rest of the search (\<open>good\<close>) can go on.\<close>

definition accepted :: "ctx \<Rightarrow> (locks \<Rightarrow> bool) \<Rightarrow> addr \<Rightarrow> addr \<Rightarrow> int list \<Rightarrow> locks \<Rightarrow> bool" where
  "accepted X good o1 o2 rl L \<longleftrightarrow> (\<exists>r L'. run_miter X (inputLock L) (idx X o2) (idx X o1) = Inr r \<and> r \<noteq> 0 \<and>
     lock_output X o2 o1 rl (r \<noteq> 1) L = Inr L' \<and> good L')"

text \<open>The output \<open>o1\<close> may be tried for \<open>o2\<close>, leaving the inputs \<open>its\<close> to be assigned.\<close>

definition tryable :: "ctx \<Rightarrow> locks \<Rightarrow> addr \<Rightarrow> addr \<Rightarrow> addr list \<times> int list \<times> int \<times> int list \<Rightarrow> bool" where
  "tryable X L o2 o1 t \<longleftrightarrow> c1_OutputLockCount L ! nat (idx X o1) = 0 \<and> fits L (bus_idx X o2, bus_idx X o1) \<and>
     (let s2 = x_output_support2 X ! nat (idx X o2); s1 = x_output_support1 X ! nat (idx X o1)
      in filtLockedInput X L o1 s2 ([], [], int (length s2) - int (length s1), replicate (length (x_input1 X)) 0) =
           Inr (Some t)) \<and> fst (snd (snd t)) \<ge> 0"

definition out_step :: "ctx \<Rightarrow> (addr \<Rightarrow> int) \<Rightarrow> locks \<Rightarrow> (locks \<Rightarrow> bool) \<Rightarrow> bool" where
  "out_step X pr L good \<longleftrightarrow> (\<exists>o2. next_of X pr L = Some o2 \<and>
     (\<exists>o1 \<in> set (x_output_match_cand X ! nat (idx X o2)). \<exists>its rl quota cnt l'.
        tryable X L o2 o1 (its, rl, quota, cnt) \<and> in_path X o1 its (quota, cnt, L) l' \<and>
        accepted X good o1 o2 rl (snd (snd l'))))"

text \<open>There are choices that lock \<open>k\<close> more outputs.\<close>

primrec solvable :: "ctx \<Rightarrow> (addr \<Rightarrow> int) \<Rightarrow> nat \<Rightarrow> locks \<Rightarrow> bool" where
  "solvable X pr 0 L = True"
| "solvable X pr (Suc k) L = out_step X pr L (solvable X pr k)"

section \<open>The contract of the continuation\<close>

definition found :: "ctx \<Rightarrow> (addr \<Rightarrow> int) \<Rightarrow> best \<Rightarrow> bool" where
  "found X pr B \<longleftrightarrow> best_ok X pr B \<and> findOutputBest B \<and> maxOutputDepth B = int (length (x_output2 X))"

definition searching :: "ctx \<Rightarrow> (addr \<Rightarrow> int) \<Rightarrow> best \<Rightarrow> bool" where
  "searching X pr B \<longleftrightarrow> best_ok X pr B \<and> \<not> findOutputBest B"

definition search_post :: "ctx \<Rightarrow> (addr \<Rightarrow> int) \<Rightarrow> 's \<Rightarrow> bool \<Rightarrow> 's \<times> best \<Rightarrow> bool" where
  "search_post X pr s b r \<longleftrightarrow> (if b then found X pr (snd r) else fst r = s \<and> searching X pr (snd r))"

lemma search_postI: "(if b then found X pr B else s' = s \<and> searching X pr B) \<Longrightarrow> search_post X pr s b (s', B)"
  by (simp add: search_post_def)

lemma search_post_False [simp]:
  "search_post X pr s False r \<longleftrightarrow> fst r = s \<and> searching X pr (snd r)"
  "search_post X pr s True r \<longleftrightarrow> found X pr (snd r)"
  by (simp_all add: search_post_def)

lemma search_post_best: "search_post X pr s b (s', B) \<Longrightarrow> findOutputBest B = b"
  by (cases b) (simp_all add: found_def searching_def)

lemma search_post_locks: "search_post X pr (q, c, L) b ((q', c', L'), B) \<Longrightarrow> search_post X pr L b (L', B)"
  by (cases b) simp_all

text \<open>What a call of \<open>match_input\<close> finds.\<close>

definition frame :: "ctx \<Rightarrow> nat \<Rightarrow> nat \<Rightarrow> nat \<Rightarrow> addr \<Rightarrow> addr \<Rightarrow> int list \<Rightarrow> addr list \<Rightarrow> loc \<Rightarrow> bool" where
  "frame X nb1 nb2 m o2 o1 rl its l \<longleftrightarrow> (let (quota, cnt, L) = l in
     dyn X nb1 nb2 L \<and> counts_ok X cnt \<and> Suc (matched (outputLock L)) = m \<and>
     fits L (bus_idx X o2, bus_idx X o1) \<and> record_ok X nb2 (inputLock L) rl \<and>
     c1_OutputLockCount L ! nat (idx X o1) = 0 \<and> outputLock L ! nat (idx X o2) = (-1, False) \<and>
     distinct its \<and> (\<forall>a \<in> set its. input_ok X nb2 a \<and> inputLockCount L ! nat (idx X a) = 0) \<and>
     (no_dangling X \<longrightarrow>
        (\<forall>a \<in> set (x_output_support2 X ! nat (idx X o2)).
           a \<in> set its \<or> fst (inputLock L ! nat (idx X a)) \<noteq> -1) \<and>
        set its \<subseteq> set (x_output_support2 X ! nat (idx X o2)) \<and> quota \<ge> 0 \<and>
        acct X o2 o1 (set (x_output_support2 X ! nat (idx X o2)) - set its) quota cnt (inputLock L)))"

definition out_pair :: "ctx \<Rightarrow> nat \<Rightarrow> addr \<Rightarrow> addr \<Rightarrow> bool" where
  "out_pair X nb1 o2 o1 \<longleftrightarrow> o2 \<in> set (x_output_match_order X) \<and> out_cand X nb1 o1"

lemma out_pair_facts:
  assumes X: "search_ok X nb1 nb2" and p: "out_pair X nb1 o2 o1"
  shows "in_range (x_output2 X) (idx X o2)" "in_range (x_output1 X) (idx X o1)"
    "pair_below nb1 nb2 (bus_idx X o2, bus_idx X o1)" "output_ok X nb2 o2"
proof -
  have "o2 \<in> set (x_output2 X)" using X p by (simp add: search_ok_def outputs_indexed_def out_pair_def)
  then show "output_ok X nb2 o2" using X by (simp add: search_ok_def)
  then show "in_range (x_output2 X) (idx X o2)" "in_range (x_output1 X) (idx X o1)"
    "pair_below nb1 nb2 (bus_idx X o2, bus_idx X o1)"
    using p output_range(1) [OF X] by (simp_all add: out_pair_def out_cand_def output_ok_def pair_below_def)
qed

lemma input_idx_inj:
  "input_ok X nb2 a \<Longrightarrow> input_ok X nb2 b \<Longrightarrow> nat (idx X a) = nat (idx X b) \<Longrightarrow> a = b"
  by (metis input_ok_def)

text \<open>Locking the next input keeps the frame, for the inputs that are left.\<close>

lemma frame_step:
  assumes X: "search_ok X nb1 nb2" and p: "out_pair X nb1 o2 o1"
    and fr: "frame X nb1 nb2 m o2 o1 rl (a # its) (quota, cnt, L)"
    and c1: "c1_input \<in> set (x_input_match_cand X ! nat (idx X a))"
    and cnt1: "counts_ok X cnt1" and occ: "occupied X nb1 nb2 a c1_input L L1"
    and ch: "charged X o1 c1_input (quota, cnt) (q1, cnt1)"
  shows "lock_input (idx X a) (idx X c1_input, ng) L1 = Inr (locked_state a X (idx X c1_input, ng) L1)"
    and "unlock_input (idx X a) (locked_state a X (idx X c1_input, ng) L1) = Inr L1"
    and "frame X nb1 nb2 m o2 o1 rl its (q1, cnt1, locked_state a X (idx X c1_input, ng) L1)"
proof -
  let ?i = "nat (idx X a)" and ?lk = "(idx X c1_input, ng)"
  let ?s2 = "x_output_support2 X ! nat (idx X o2)"
  have a: "input_ok X nb2 a" "inputLockCount L1 ! ?i = 0"
    using fr occ by (simp_all add: frame_def occupied_def)
  have i: "?i < length (x_input2 X)" "x_input2 X ! ?i = a" using a(1) in_rangeD by (auto simp: input_ok_def)
  have cand: "const_cand X c1_input \<or> port_cand X nb1 a c1_input"
    using X c1 i unfolding search_ok_def by metis
  have dyn1: "dyn X nb1 nb2 L1" using occ by (simp add: occupied_def)
  have "const_cand X c1_input \<or> port_cand X nb1 a c1_input \<and> bus_2_to_1 L1 ! nat (bus_idx X a) \<noteq> -1"
    using cand occ by (auto simp: occupied_def)
  note lock = lock_input_ok [OF dyn1 a this, of ng]
  show "lock_input (idx X a) ?lk L1 = Inr (locked_state a X ?lk L1)" by (rule lock(1))
  show "unlock_input (idx X a) (locked_state a X ?lk L1) = Inr L1" by (rule lock(2))
  have len: "length (inputLock L1) = length (x_input2 X)" "length (inputLockCount L1) = length (x_input2 X)"
    using dyn1 by (simp_all add: dyn_def answer_def locks_ok_def input_inv_def)
  have nm1: "idx X c1_input \<noteq> -1"
    using cand by (auto simp: const_cand_def port_cand_def CONST_VAL_def in_range_def)
  have pb: "pair_below nb1 nb2 (bus_idx X o2, bus_idx X o1)" using out_pair_facts [OF X p] by simp
  have "output_ok X nb2 o2" using out_pair_facts [OF X p] by simp
  moreover have "a \<in> set (x_input2 X)" using i by (metis nth_mem)
  ultimately have "bus_idx X o2 \<notin> set (c2_buses X a)" by (simp add: output_ok_def)
  moreover have "\<not> const_cand X c1_input \<longrightarrow> bus_idx X o1 \<notin> set (c1_buses X a c1_input)"
    using p c1 i by (auto simp: out_pair_def out_cand_def)
  ultimately have "fits L1 (bus_idx X o2, bus_idx X o1)" using occ pb fr by (simp add: occupied_def frame_def)
  then have "fits (locked_state a X ?lk L1) (bus_idx X o2, bus_idx X o1)" by (simp add: fits_def locked_state_def)
  moreover have "record_ok X nb2 (inputLock (locked_state a X ?lk L1)) rl"
    using fr occ nm1 len i
    by (auto simp: frame_def occupied_def record_ok_def locked_state_def nth_list_update)
  moreover have "inputLockCount (locked_state a X ?lk L1) ! nat (idx X b) = 0" if "b \<in> set its" for b
  proof -
    have "b \<noteq> a" "input_ok X nb2 b" "inputLockCount L1 ! nat (idx X b) = 0"
      using that fr occ by (auto simp: frame_def occupied_def)
    moreover from this have "?i \<noteq> nat (idx X b)" using input_idx_inj [OF a(1), of b] by metis
    ultimately show ?thesis by (simp add: locked_state_def)
  qed
  moreover have "b \<in> set its \<or> fst (inputLock (locked_state a X ?lk L1) ! nat (idx X b)) \<noteq> -1"
    if "no_dangling X" "b \<in> set (x_output_support2 X ! nat (idx X o2))" for b
    using that fr occ nm1 len i
    by (cases "nat (idx X b) = ?i") (auto simp: frame_def occupied_def locked_state_def)
  moreover have "set its \<subseteq> set ?s2 \<and> q1 \<ge> 0 \<and>
      acct X o2 o1 (set ?s2 - set its) q1 cnt1 (inputLock (locked_state a X ?lk L1))" if nd: "no_dangling X"
  proof -
    let ?S = "set ?s2 - set (a # its)"
    have f: "set (a # its) \<subseteq> set ?s2" "quota \<ge> 0" "acct X o2 o1 ?S quota cnt (inputLock L)" "a \<notin> set its"
      "counts_ok X cnt" using fr nd by (simp_all add: frame_def)
    have S: "set ?s2 - set its = insert a ?S" using f by auto
    have "in_range (x_output_support2 X) (idx X o2)"
      using out_pair_facts(1) [OF X p] X by (simp add: search_ok_def sizes_ok_def in_range_def)
    then have "?s2 \<in> set (x_output_support2 X)" by (rule nth_in_range)
    then have ok: "input_ok X nb2 b" if "b \<in> set ?s2" for b using that X by (simp add: search_ok_def)
    have "inputLock (locked_state a X ?lk L1) ! nat (idx X b) = inputLock L ! nat (idx X b)" if "b \<in> ?S" for b
    proof -
      have "b \<noteq> a" "input_ok X nb2 b" using that ok by auto
      then have "?i \<noteq> nat (idx X b)" using input_idx_inj [OF a(1), of b] by metis
      then show ?thesis using occ by (simp add: occupied_def locked_state_def)
    qed
    moreover have "fst (inputLock (locked_state a X ?lk L1) ! ?i) = idx X c1_input"
      using i len by (simp add: locked_state_def)
    ultimately have "acct X o2 o1 (insert a ?S) q1 cnt1 (inputLock (locked_state a X ?lk L1))"
    proof (cases "const_cand X c1_input")
      case True
      then show ?thesis using acct_const [OF f(3), of a] ch \<open>fst _ = idx X c1_input\<close>
          \<open>\<And>b. b \<in> ?S \<Longrightarrow> _\<close> by (simp add: charged_def const_cand_def)
    next
      case False
      then have "in_range (x_input1 X) (idx X c1_input)" using cand by (simp add: port_cand_def)
      then show ?thesis using acct_port [OF f(3), of a _ "idx X c1_input"] ch f(5) False
          \<open>fst _ = idx X c1_input\<close> \<open>\<And>b. b \<in> ?S \<Longrightarrow> _\<close> by (simp add: charged_def Let_def)
    qed
    moreover have "q1 \<ge> 0" using ch f(2) by (auto simp: charged_def Let_def split: if_splits)
    ultimately show ?thesis using f(1) unfolding S by simp
  qed
  ultimately show "frame X nb1 nb2 m o2 o1 rl its (q1, cnt1, locked_state a X ?lk L1)"
    using lock(3) cnt1 fr occ by (simp add: frame_def occupied_def locked_state_def)
qed

text \<open>A complete assignment uses every input of the output of circuit 1.\<close>

lemma complete_covers:
  assumes X: "search_ok X nb1 nb2" and p: "out_pair X nb1 o2 o1"
    and fr: "frame X nb1 nb2 m o2 o1 rl [] (quota, cnt, L)" and nd: "no_dangling X"
    and a: "a \<in> set (x_output_support1 X ! nat (idx X o1))"
  shows "\<exists>b \<in> set (x_output_support2 X ! nat (idx X o2)). fst (inputLock L ! nat (idx X b)) = idx X a"
proof (rule acct_covers)
  let ?s2 = "x_output_support2 X ! nat (idx X o2)"
  note of = out_pair_facts [OF X p]
  have "in_range (x_output_support2 X) (idx X o2)"
    using of(1) X by (simp add: search_ok_def sizes_ok_def in_range_def)
  then have s2: "?s2 \<in> set (x_output_support2 X)" by (rule nth_in_range)
  show "acct X o2 o1 (set ?s2) quota cnt (inputLock L)" "quota \<ge> 0" using fr nd by (simp_all add: frame_def)
  show "distinct ?s2" using s2 X by (simp add: search_ok_def)
  show "\<forall>b \<in> set ?s2. fst (inputLock L ! nat (idx X b)) = CONST_VAL \<or>
       0 \<le> fst (inputLock L ! nat (idx X b)) \<and> fst (inputLock L ! nat (idx X b)) < int (length (x_input1 X))"
  proof
    fix b
    assume b: "b \<in> set ?s2"
    then have "input_ok X nb2 b" using s2 X by (simp add: search_ok_def)
    then have "nat (idx X b) < length (x_input2 X)" using in_rangeD by (auto simp: input_ok_def)
    moreover have "fst (inputLock L ! nat (idx X b)) \<noteq> -1" using fr nd b by (simp add: frame_def)
    moreover have "locks_ok True (length (x_input1 X)) (length (x_input2 X)) (inputLock L)"
      using fr by (simp add: frame_def dyn_def answer_def)
    ultimately show "fst (inputLock L ! nat (idx X b)) = CONST_VAL \<or>
       0 \<le> fst (inputLock L ! nat (idx X b)) \<and> fst (inputLock L ! nat (idx X b)) < int (length (x_input1 X))"
      using lock_range by blast
  qed
  show "\<forall>c < length (x_input1 X). x_isPIinPO X ! nat (idx X o1) ! c \<longrightarrow>
       (\<exists>a \<in> set (x_output_support1 X ! nat (idx X o1)). idx X a = int c)"
    using X in_rangeD [OF of(2)] by (simp add: search_ok_def rows_ok_def)
qed (use a in simp_all)

locale output_search =
  fixes X :: ctx and nb1 nb2 :: nat and pr :: "addr \<Rightarrow> int" and m :: nat
    and cont :: "locks \<times> best \<Rightarrow> (bool \<times> locks \<times> best) res" and good :: "locks \<Rightarrow> bool"
  assumes cont_law: "search_ok X nb1 nb2 \<Longrightarrow> dyn X nb1 nb2 L \<Longrightarrow> matched (outputLock L) = m \<Longrightarrow>
    searching X pr B \<Longrightarrow> \<exists>s. cont (L, B) = Inr (good L, s) \<and> search_post X pr L (good L) s"
begin

lemma finish_output_ok:
  assumes X: "search_ok X nb1 nb2" and p: "out_pair X nb1 o2 o1"
    and fr: "frame X nb1 nb2 m o2 o1 rl [] (quota, cnt, L)" and B: "searching X pr B"
  shows "\<exists>s. finish_output X cont o1 o2 rl ((quota, cnt, L), B) = Inr (accepted X good o1 o2 rl L, s) \<and>
     search_post X pr (quota, cnt, L) (accepted X good o1 o2 rl L) s"
proof -
  note of = out_pair_facts [OF X p]
  have dyn: "dyn X nb1 nb2 L" using fr by (simp add: frame_def)
  have o2: "int (nat (idx X o2)) = idx X o2" using of(1) by (simp add: in_range_def)
  obtain r where r: "run_miter X (inputLock L) (idx X o2) (idx X o1) = Inr r" "r \<le> 2"
    using run_miter_total [OF X _ of(1,2), of "inputLock L"] dyn by (auto simp: dyn_def answer_def)
  show ?thesis
  proof (cases "r = 0")
    case True
    then show ?thesis using r(1) B by (auto simp: finish_output_def accepted_def)
  next
    case False
    then have r12: "r = 1 \<or> r = 2" using r(2) by auto
    have cov: "\<forall>a \<in> set (x_output_support1 X ! nat (idx X o1)). \<exists>b \<in> set (x_output_support2 X ! nat (idx X o2)).
        fst (inputLock L ! nat (idx X b)) = idx X a" if "no_dangling X"
      using complete_covers [OF X p fr that] by blast
    have ver: "no_dangling X \<longrightarrow> verified X (inputLock L) (nat (idx X o2)) (idx X o1, r \<noteq> 1)"
      using fr r(1) r12 o2 cov by (auto simp: frame_def verified_def)
    have "lock_output X o2 o1 rl (r \<noteq> 1) L = Inr (output_locked X o2 o1 rl (r \<noteq> 1) L)"
      "unlock_output X o2 o1 rl (output_locked X o2 o1 rl (r \<noteq> 1) L) = Inr L"
      "dyn X nb1 nb2 (output_locked X o2 o1 rl (r \<noteq> 1) L)"
      "matched (outputLock (output_locked X o2 o1 rl (r \<noteq> 1) L)) = m"
      using lock_output_ok [OF dyn of(1-3) _ _ _ _ ver] fr by (auto simp: frame_def)
    note lock = this
    let ?L = "output_locked X o2 o1 rl (r \<noteq> 1) L"
    obtain L' B' where c: "cont (?L, B) = Inr (good ?L, L', B')" "search_post X pr ?L (good ?L) (L', B')"
      using cont_law [OF X lock(3,4) B] by force
    have acc: "accepted X good o1 o2 rl L = good ?L" using r(1) False lock(1) by (simp add: accepted_def)
    show ?thesis
    proof (cases "good ?L")
      case True
      then show ?thesis using r(1) r12 lock(1) c acc by (auto simp: finish_output_def)
    next
      case False
      then have "L' = ?L" using c(2) by simp
      then show ?thesis using False r(1) r12 lock c acc by (auto simp: finish_output_def)
    qed
  qed
qed

text \<open>One candidate with one negation, and all negations of a candidate.\<close>

definition goes_on :: "addr \<Rightarrow> addr \<Rightarrow> int list \<Rightarrow> addr list \<Rightarrow> addr \<Rightarrow> addr \<Rightarrow> loc \<Rightarrow> bool \<Rightarrow> bool" where
  "goes_on o1 o2 rl its a c1_input l ng \<longleftrightarrow> (\<exists>l'. in_path X o1 its
     (fst l, fst (snd l), locked_state a X (idx X c1_input, ng) (snd (snd l))) l' \<and> accepted X good o1 o2 rl (snd (snd l')))"

lemma neg_loop_ok:
  assumes X: "search_ok X nb1 nb2" and p: "out_pair X nb1 o2 o1"
    and IH: "\<And>l B. frame X nb1 nb2 m o2 o1 rl its l \<Longrightarrow> searching X pr B \<Longrightarrow> \<exists>s.
       match_input X cont o1 o2 rl its (l, B) = Inr (\<exists>l'. in_path X o1 its l l' \<and> accepted X good o1 o2 rl (snd (snd l')), s) \<and>
       search_post X pr l (\<exists>l'. in_path X o1 its l l' \<and> accepted X good o1 o2 rl (snd (snd l'))) s"
    and lock: "\<And>ng. lock_input (idx X a) (idx X c1_input, ng) L1 = Inr (locked_state a X (idx X c1_input, ng) L1)"
      "\<And>ng. unlock_input (idx X a) (locked_state a X (idx X c1_input, ng) L1) = Inr L1"
      "\<And>ng. frame X nb1 nb2 m o2 o1 rl its (q1, cnt1, locked_state a X (idx X c1_input, ng) L1)"
    and B: "searching X pr B"
  shows "\<exists>b s. search (\<lambda>neg ((quota, cnt, L), B).
        rbind (lock_input (idx X a) (idx X c1_input, neg) L) (\<lambda>L.
        rbind (match_input X cont o1 o2 rl its ((quota, cnt, L), B)) (\<lambda>(eq, (quota, cnt, L), B).
          if eq then Inr (True, (quota, cnt, L), B)
          else rbind (unlock_input (idx X a) L) (\<lambda>L. Inr (False, (quota, cnt, L), B)))))
      negs ((q1, cnt1, L1), B) = Inr (b, s) \<and>
      b = (\<exists>ng \<in> set negs. goes_on o1 o2 rl its a c1_input (q1, cnt1, L1) ng) \<and>
      (if b then found X pr (snd s) else fst s = (q1, cnt1, L1) \<and> searching X pr (snd s))"
proof (rule search_exists [where I = "\<lambda>s. fst s = (q1, cnt1, L1) \<and> searching X pr (snd s)" and Q = "\<lambda>s. found X pr (snd s)"])
  show "fst ((q1, cnt1, L1), B) = (q1, cnt1, L1) \<and> searching X pr (snd ((q1, cnt1, L1), B))" using B by simp
  fix ng u
  assume "fst u = (q1, cnt1, L1) \<and> searching X pr (snd u)"
  then obtain B1 where u: "u = ((q1, cnt1, L1), B1)" "searching X pr B1" by (cases u) auto
  let ?l = "(q1, cnt1, locked_state a X (idx X c1_input, ng) L1)"
  let ?b = "goes_on o1 o2 rl its a c1_input (q1, cnt1, L1) ng"
  obtain q' c' L' B' where s: "match_input X cont o1 o2 rl its (?l, B1) = Inr (?b, (q', c', L'), B')"
    "search_post X pr ?l ?b ((q', c', L'), B')"
    using IH [OF lock(3) u(2), of ng] by (auto simp: goes_on_def)
  show "\<exists>b v. (\<lambda>((quota, cnt, L), B).
        rbind (lock_input (idx X a) (idx X c1_input, ng) L) (\<lambda>L.
        rbind (match_input X cont o1 o2 rl its ((quota, cnt, L), B)) (\<lambda>(eq, (quota, cnt, L), B).
          if eq then Inr (True, (quota, cnt, L), B)
          else rbind (unlock_input (idx X a) L) (\<lambda>L. Inr (False, (quota, cnt, L), B))))) u = Inr (b, v) \<and>
      b = ?b \<and> (if b then found X pr (snd v) else fst v = (q1, cnt1, L1) \<and> searching X pr (snd v))"
  proof (cases ?b)
    case True
    then show ?thesis using s by (auto simp: u lock(1))
  next
    case False
    then show ?thesis using s by (auto simp: u lock(1,2))
  qed
qed

lemma match_input_ok:
  assumes X: "search_ok X nb1 nb2" and p: "out_pair X nb1 o2 o1"
    and "frame X nb1 nb2 m o2 o1 rl its l" and "searching X pr B"
  shows "\<exists>s. match_input X cont o1 o2 rl its (l, B) =
      Inr (\<exists>l'. in_path X o1 its l l' \<and> accepted X good o1 o2 rl (snd (snd l')), s) \<and>
    search_post X pr l (\<exists>l'. in_path X o1 its l l' \<and> accepted X good o1 o2 rl (snd (snd l'))) s"
  using assms(3,4)
proof (induction its arbitrary: l B)
  case Nil
  obtain quota cnt L where "l = (quota, cnt, L)" by (cases l)
  then show ?case using finish_output_ok [OF X p] Nil by auto
next
  case (Cons a its)
  obtain quota cnt L where l: "l = (quota, cnt, L)" by (cases l)
  have fr: "frame X nb1 nb2 m o2 o1 rl (a # its) (quota, cnt, L)" using Cons.prems(1) by (simp add: l)
  have dyn: "dyn X nb1 nb2 L" and cnt: "counts_ok X cnt" and a: "input_ok X nb2 a"
    using fr by (simp_all add: frame_def)
  have r: "in_range (x_init_input_ne X) (idx X a)" "in_range (x_input_match_cand X) (idx X a)"
    using X a by (simp_all add: search_ok_def sizes_ok_def input_ok_def in_range_def)
  have "\<exists>negs. negs_of X a = Inr negs" using r(1) by (simp add: negs_of_def)
  then obtain negs where negs: "negs_of X a = Inr negs" by blast
  let ?cands = "x_input_match_cand X ! nat (idx X a)"
  let ?P = "\<lambda>c1_input. \<exists>q1 cnt1 L1. occupy X o1 a c1_input (quota, cnt, L) = Inr (Some (q1, cnt1, L1)) \<and>
     (\<exists>ng \<in> set negs. goes_on o1 o2 rl its a c1_input (q1, cnt1, L1) ng)"
  let ?body = "\<lambda>c1_input (l, B).
          rbind (occupy X o1 a c1_input l) (\<lambda>r.
          case r of
            None \<Rightarrow> Inr (False, l, B)
          | Some l \<Rightarrow>
              rbind (search (\<lambda>neg ((quota, cnt, L), B).
                  rbind (lock_input (idx X a) (idx X c1_input, neg) L) (\<lambda>L.
                  rbind (match_input X cont o1 o2 rl its ((quota, cnt, L), B))
                    (\<lambda>(eq, (quota, cnt, L), B).
                      if eq then Inr (True, (quota, cnt, L), B)
                      else rbind (unlock_input (idx X a) L) (\<lambda>L. Inr (False, (quota, cnt, L), B)))))
                negs (l, B)) (\<lambda>(eq, l, B).
              if eq then Inr (True, l, B)
              else rbind (release X a c1_input l) (\<lambda>l. Inr (False, l, B))))"
  have loop: "\<exists>b s. search ?body ?cands (l, B) = Inr (b, s) \<and> b = (\<exists>c1_input \<in> set ?cands. ?P c1_input) \<and>
      (if b then found X pr (snd s) else fst s = l \<and> searching X pr (snd s))"
  proof (rule search_exists [where I = "\<lambda>s. fst s = l \<and> searching X pr (snd s)" and Q = "\<lambda>s. found X pr (snd s)"])
    show "fst (l, B) = l \<and> searching X pr (snd (l, B))" using Cons.prems(2) by simp
    fix c1_input u
    assume c1: "c1_input \<in> set ?cands" and "fst u = l \<and> searching X pr (snd u)"
    then obtain B1 where u: "u = ((quota, cnt, L), B1)" "searching X pr B1" by (cases u) (auto simp: l)
    have i: "nat (idx X a) < length (x_input2 X)" "x_input2 X ! nat (idx X a) = a"
      using a in_rangeD by (auto simp: input_ok_def)
    have cand: "const_cand X c1_input \<or> port_cand X nb1 a c1_input"
      using X c1 i unfolding search_ok_def by metis
    have "\<exists>r. occupy X o1 a c1_input (quota, cnt, L) = Inr r \<and>
     (\<forall>q1 cnt1 L1. r = Some (q1, cnt1, L1) \<longrightarrow> counts_ok X cnt1 \<and> occupied X nb1 nb2 a c1_input L L1 \<and>
        charged X o1 c1_input (quota, cnt) (q1, cnt1) \<and> release X a c1_input (q1, cnt1, L1) = Inr (quota, cnt, L))"
      using cand occupy_const [OF _ dyn] occupy_port [OF X a _ out_pair_facts(2) [OF X p] dyn cnt] cnt by auto
    then obtain rr where rr: "occupy X o1 a c1_input (quota, cnt, L) = Inr rr"
      "\<And>q1 cnt1 L1. rr = Some (q1, cnt1, L1) \<Longrightarrow> counts_ok X cnt1 \<and> occupied X nb1 nb2 a c1_input L L1 \<and>
        charged X o1 c1_input (quota, cnt) (q1, cnt1) \<and> release X a c1_input (q1, cnt1, L1) = Inr (quota, cnt, L)"
      by blast
    show "\<exists>b v. ?body c1_input u = Inr (b, v) \<and> b = ?P c1_input \<and>
        (if b then found X pr (snd v) else fst v = l \<and> searching X pr (snd v))"
    proof (cases rr)
      case None
      then show ?thesis using u rr(1) by (auto simp: l)
    next
      case (Some t)
      then obtain q1 cnt1 L1 where t: "rr = Some (q1, cnt1, L1)" by (cases t) auto
      note fs = frame_step [OF X p fr c1]
      have o: "counts_ok X cnt1" "occupied X nb1 nb2 a c1_input L L1" "charged X o1 c1_input (quota, cnt) (q1, cnt1)"
        "release X a c1_input (q1, cnt1, L1) = Inr (quota, cnt, L)"
        using rr(2) [OF t] by blast+
      obtain b s where s0: "search (\<lambda>neg ((quota, cnt, L), B).
                  rbind (lock_input (idx X a) (idx X c1_input, neg) L) (\<lambda>L.
                  rbind (match_input X cont o1 o2 rl its ((quota, cnt, L), B))
                    (\<lambda>(eq, (quota, cnt, L), B).
                      if eq then Inr (True, (quota, cnt, L), B)
                      else rbind (unlock_input (idx X a) L) (\<lambda>L. Inr (False, (quota, cnt, L), B)))))
                negs ((q1, cnt1, L1), B1) = Inr (b, s)"
        "b = (\<exists>ng \<in> set negs. goes_on o1 o2 rl its a c1_input (q1, cnt1, L1) ng)"
        "if b then found X pr (snd s) else fst s = (q1, cnt1, L1) \<and> searching X pr (snd s)"
        using neg_loop_ok [OF X p Cons.IH fs(1) [OF o(1-3)] fs(2) [OF o(1-3)] fs(3) [OF o(1-3)] u(2)] by blast
      obtain q2 cnt2 L2 B2 where s1: "s = ((q2, cnt2, L2), B2)" by (cases s) auto
      note s = s0(1) [unfolded s1] s0(2) s0(3) [unfolded s1 fst_conv snd_conv]
      have P: "?P c1_input = b" using rr(1) t s(2) by auto
      show ?thesis
      proof (cases b)
        case True
        then show ?thesis using u rr(1) t s P by (auto simp: l)
      next
        case False
        then show ?thesis using u rr(1) t s P o(4) by (auto simp: l)
      qed
    qed
  qed
  have path: "(\<exists>l'. in_path X o1 (a # its) l l' \<and> accepted X good o1 o2 rl (snd (snd l'))) =
      (\<exists>c1_input \<in> set ?cands. ?P c1_input)" (is "?A = ?C")
  proof -
    have lk: "lock_input (idx X a) (idx X c1_input, ng) L1 = Inr (locked_state a X (idx X c1_input, ng) L1)"
      if "c1_input \<in> set ?cands" "occupy X o1 a c1_input (quota, cnt, L) = Inr (Some (q1, cnt1, L1))" for c1_input q1 cnt1 L1 ng
    proof -
      have i: "nat (idx X a) < length (x_input2 X)" "x_input2 X ! nat (idx X a) = a"
        using a in_rangeD by (auto simp: input_ok_def)
      have cand: "const_cand X c1_input \<or> port_cand X nb1 a c1_input"
        using X that(1) i unfolding search_ok_def by metis
      have "counts_ok X cnt1 \<and> occupied X nb1 nb2 a c1_input L L1 \<and> charged X o1 c1_input (quota, cnt) (q1, cnt1)"
        using cand that(2) occupy_const(1) [OF _ dyn, of c1_input o1 a quota cnt]
          occupy_const(3) [OF _ dyn, of c1_input a] occupy_const(4) [OF _ dyn, of c1_input quota o1 cnt] cnt
          occupy_port [OF X a _ out_pair_facts(2) [OF X p] dyn cnt, of c1_input quota]
        by (auto split: if_splits)
      then show ?thesis using frame_step(1) [OF X p fr that(1)] by blast
    qed
    show ?thesis
      using lk by (fastforce simp: in_path_Cons negs goes_on_def l)
  qed
  show ?case
    using loop r(2) negs unfolding path by (fastforce simp: search_post_def)
qed

text \<open>One candidate of the next output.\<close>

definition step_with :: "locks \<Rightarrow> addr \<Rightarrow> addr \<Rightarrow> bool" where
  "step_with L o2 o1 \<longleftrightarrow> (\<exists>its rl quota cnt l'. tryable X L o2 o1 (its, rl, quota, cnt) \<and>
     in_path X o1 its (quota, cnt, L) l' \<and> accepted X good o1 o2 rl (snd (snd l')))"

lemma try_output_ok:
  assumes X: "search_ok X nb1 nb2" and p: "out_pair X nb1 o2 o1" and dyn: "dyn X nb1 nb2 L"
    and m: "Suc (matched (outputLock L)) = m" and free: "outputLock L ! nat (idx X o2) = (-1, False)"
    and B: "searching X pr B"
  shows "\<exists>s. try_output X cont o2 o1 (L, B) = Inr (step_with L o2 o1, s) \<and> search_post X pr L (step_with L o2 o1) s"
proof -
  note of = out_pair_facts [OF X p]
  let ?b2 = "bus_idx X o2" and ?b1 = "bus_idx X o1"
  let ?s2 = "x_output_support2 X ! nat (idx X o2)" and ?s1 = "x_output_support1 X ! nat (idx X o1)"
  have inv: "bus_inv nb1 nb2 L" using dyn by (simp add: dyn_def)
  have r: "in_range (c1_OutputLockCount L) (idx X o1)" "in_range (x_output_support2 X) (idx X o2)"
    "in_range (x_output_support1 X) (idx X o1)"
    using of dyn X by (simp_all add: dyn_def output_inv_def search_ok_def sizes_ok_def in_range_def)
  have sup: "supports_ok X nb2 ?s2"
    using X nth_in_range [OF r(2)] by (simp add: search_ok_def supports_ok_def)
  have guard: "rbind (bus_free L ?b2 ?b1) (\<lambda>f. rbind (if f then Inr True else bus_matched L ?b2 ?b1) K) =
      K (fits L (?b2, ?b1))" for K :: "bool \<Rightarrow> 'z res"
    by (auto simp: bus_guard_eq [OF inv of(3)] fits_def)
  let ?filt = "filtLockedInput X L o1 ?s2 ([], [], int (length ?s2) - int (length ?s1), replicate (length (x_input1 X)) 0)"
  have "counts_ok X (replicate (length (x_input1 X)) 0)" "record_ok X nb2 (inputLock L) []"
    by (simp_all add: counts_ok_def record_ok_def)
  from filt_ok [OF X dyn of(2) sup this] obtain fr where fr: "?filt = Inr fr"
    "\<And>its rl q c. fr = Some (its, rl, q, c) \<Longrightarrow> counts_ok X c \<and> record_ok X nb2 (inputLock L) rl \<and>
        distinct its \<and> set its \<subseteq> set ?s2 \<and> (\<forall>a \<in> set its. fst (inputLock L ! nat (idx X a)) = -1) \<and>
        (no_dangling X \<longrightarrow> (\<forall>a \<in> set ?s2. fst (inputLock L ! nat (idx X a)) = -1 \<longrightarrow> a \<in> set its))"
    by fastforce
  show ?thesis
  proof (cases "c1_OutputLockCount L ! nat (idx X o1) = 0 \<and> fits L (?b2, ?b1)")
    case False
    then have "\<not> step_with L o2 o1" by (auto simp: step_with_def tryable_def)
    moreover have "try_output X cont o2 o1 (L, B) = Inr (False, L, B)"
      using False r by (auto simp: try_output_def Let_def guard)
    ultimately show ?thesis using B by simp
  next
    case True
    show ?thesis
    proof (cases "\<exists>its rl q c. fr = Some (its, rl, q, c) \<and> q \<ge> 0")
      case False
      then have "\<not> step_with L o2 o1" using fr(1) by (auto simp: step_with_def tryable_def)
      moreover have "try_output X cont o2 o1 (L, B) = Inr (False, L, B)"
        using True False r fr(1) by (auto simp: try_output_def Let_def guard split: option.split)
      ultimately show ?thesis using B by simp
    next
      case ex: True
      then obtain its rl q c where t: "fr = Some (its, rl, q, c)" "q \<ge> 0" by blast
      note f = fr(2) [OF t(1)]
      have in0: "input_ok X nb2 a \<and> inputLockCount L ! nat (idx X a) = 0" if "a \<in> set its" for a
      proof -
        have "input_ok X nb2 a" using sup f that by (auto simp: supports_ok_def)
        moreover from this have "nat (idx X a) < length (x_input2 X)" using in_rangeD by (auto simp: input_ok_def)
        ultimately show ?thesis using dyn f that by (simp add: dyn_def input_inv_def)
      qed
      have ac: "acct X o2 o1 (set ?s2 - set its) q c (inputLock L)" if nd: "no_dangling X"
      proof -
        have "acct X o2 o1 {} (int (length ?s2) - int (length ?s1)) (replicate (length (x_input1 X)) 0) (inputLock L)"
          by (simp add: acct_def uses_def reuse_def)
        from filt_acct [OF fr(1) [unfolded t(1)] nd _ this] sup dyn
        have "acct X o2 o1 {a \<in> set ?s2. fst (inputLock L ! nat (idx X a)) \<noteq> -1} q c (inputLock L)"
          by (simp add: counts_ok_def supports_ok_def dyn_def answer_def)
        moreover have "{a \<in> set ?s2. fst (inputLock L ! nat (idx X a)) \<noteq> -1} = set ?s2 - set its"
          using f nd by auto
        ultimately show ?thesis by simp
      qed
      have frm: "frame X nb1 nb2 m o2 o1 rl its (q, c, L)"
        using dyn f in0 m True free ac t(2) by (auto simp: frame_def)
      let ?b = "\<exists>l'. in_path X o1 its (q, c, L) l' \<and> accepted X good o1 o2 rl (snd (snd l'))"
      have sw: "step_with L o2 o1 = ?b" using True fr(1) t by (auto simp: step_with_def tryable_def)
      obtain q' c' L' B' where s: "match_input X cont o1 o2 rl its ((q, c, L), B) = Inr (?b, (q', c', L'), B')"
        "search_post X pr (q, c, L) ?b ((q', c', L'), B')"
        using match_input_ok [OF X p frm B] by auto
      have "findOutputBest B' = ?b" by (rule search_post_best [OF s(2)])
      then have "try_output X cont o2 o1 (L, B) = Inr (?b, L', B')"
        using True r fr(1) t s(1) by (simp add: try_output_def Let_def guard)
      then show ?thesis using search_post_locks [OF s(2)] unfolding sw by blast
    qed
  qed
qed

end

section \<open>The whole search\<close>

lemma match_output_contract:
  assumes X: "search_ok X nb1 nb2" and "dyn X nb1 nb2 L" and "matched (outputLock L) + k = length (x_output2 X)"
    and "searching X pr B"
  shows "\<exists>s. match_output X k (L, B) = Inr (solvable X pr k L, s) \<and> search_post X pr L (solvable X pr k L) s"
  using assms(2-)
proof (induction k arbitrary: L B)
  case 0
  then have "best_ok X pr B" by (simp add: searching_def)
  then obtain B' where B': "record_best X (int (length (x_output2 X))) L B = Inr B'" "best_ok X pr B'"
    "maxOutputDepth B' \<ge> int (length (x_output2 X))"
    using record_best_ok [OF 0(1), of pr B] 0(2) by auto
  have "maxOutputDepth B' \<le> int (length (x_output2 X))"
  proof -
    have "matched (maxOutputMatch B') \<le> length (maxOutputMatch B')" by (simp add: matched_def)
    then show ?thesis using B'(2) by (auto simp: best_ok_def answer_def locks_ok_def)
  qed
  then show ?case using B' by (simp add: found_def best_ok_def)
next
  case (Suc k)
  let ?m = "length (x_output2 X) - k"
  have os: "output_search X nb1 nb2 pr ?m (match_output X k) (solvable X pr k)"
    by unfold_locales (use Suc.IH Suc.prems(2) in simp)
  have m: "Suc (matched (outputLock L)) = ?m" "matched (outputLock L) < length (x_output2 X)"
    using Suc.prems(2) by simp_all
  have depth: "int (length (x_output2 X)) - int (Suc k) = int (matched (outputLock L))" using Suc.prems(2) by simp
  obtain B1 where B1: "record_best X (int (matched (outputLock L))) L B = Inr B1" "searching X pr B1"
    using record_best_ok [OF Suc.prems(1) _ refl, of pr B] Suc.prems(3) by (auto simp: searching_def)
  have comp: "compat pr (priority B1)" using B1(2) by (simp add: searching_def best_ok_def)
  obtain q where next': "next_match X L B1 = Inr (next_of X pr L, B1\<lparr>priority := q\<rparr>)" "compat pr q"
    using next_match_eq [OF X Suc.prems(1) comp] by blast
  let ?B = "B1\<lparr>priority := q\<rparr>"
  have B: "searching X pr ?B" using B1(2) next'(2) by (simp add: searching_def best_ok_def)
  obtain o2 where o2: "next_of X pr L = Some o2" "o2 \<in> set (x_output_match_order X)"
    "outputLock L ! nat (idx X o2) = (-1, False)"
    using next_of_facts [OF X Suc.prems(1) m(2)] by blast
  have r: "in_range (x_output_match_cand X) (idx X o2)"
    using output_range(1) [OF X o2(2)] X by (simp add: search_ok_def sizes_ok_def in_range_def)
  let ?cands = "x_output_match_cand X ! nat (idx X o2)"
  have p: "out_pair X nb1 o2 o1" if "o1 \<in> set ?cands" for o1
    using X o2(2) nth_in_range [OF r] that by (simp add: search_ok_def out_pair_def)
  let ?P = "output_search.step_with X (solvable X pr k) L o2"
  have "\<exists>b s. search (try_output X (match_output X k) o2) ?cands (L, ?B) = Inr (b, s) \<and> b = (\<exists>o1 \<in> set ?cands. ?P o1) \<and>
      (if b then found X pr (snd s) else fst s = L \<and> searching X pr (snd s))"
  proof (rule search_exists [where I = "\<lambda>s. fst s = L \<and> searching X pr (snd s)" and Q = "\<lambda>s. found X pr (snd s)"])
    show "fst (L, ?B) = L \<and> searching X pr (snd (L, ?B))" using B by simp
    fix o1 u
    assume o1: "o1 \<in> set ?cands" and "fst u = L \<and> searching X pr (snd u)"
    then obtain B2 where u: "u = (L, B2)" "searching X pr B2" by (cases u) auto
    show "\<exists>b v. try_output X (match_output X k) o2 o1 u = Inr (b, v) \<and> b = ?P o1 \<and>
        (if b then found X pr (snd v) else fst v = L \<and> searching X pr (snd v))"
      using output_search.try_output_ok [OF os X p [OF o1] Suc.prems(1) m(1) o2(3) u(2)]
      by (auto simp: u search_post_def)
  qed
  then obtain b s where s: "search (try_output X (match_output X k) o2) ?cands (L, ?B) = Inr (b, s)"
    "b = (\<exists>o1 \<in> set ?cands. ?P o1)" "if b then found X pr (snd s) else fst s = L \<and> searching X pr (snd s)"
    by blast
  have "solvable X pr (Suc k) L = b"
    using o2(1) s(2) by (auto simp: out_step_def output_search.step_with_def [OF os])
  then show ?case using s(1,3) B1(1) next'(1) o2(1) r depth
    by (simp add: search_post_def)
qed

text \<open>The recursion of the program is an instance of the contract.\<close>

interpretation mo: output_search X nb1 nb2 pr m "match_output X (length (x_output2 X) - m)"
    "solvable X pr (length (x_output2 X) - m)"
  for X nb1 nb2 pr m
proof
  fix L B
  assume X: "search_ok X nb1 nb2" and dyn: "dyn X nb1 nb2 L" and m: "matched (outputLock L) = m"
    and B: "searching X pr B"
  have "matched (outputLock L) \<le> length (outputLock L)" by (simp add: matched_def)
  also have "length (outputLock L) = length (x_output2 X)" using dyn by (simp add: dyn_def answer_def locks_ok_def)
  finally have "matched (outputLock L) + (length (x_output2 X) - m) = length (x_output2 X)" using m by simp
  from match_output_contract [OF X dyn this B]
  show "\<exists>s. match_output X (length (x_output2 X) - m) (L, B) = Inr (solvable X pr (length (x_output2 X) - m) L, s) \<and>
      search_post X pr L (solvable X pr (length (x_output2 X) - m) L) s" .
qed

text \<open>The start: nothing is locked, and nothing is mapped.\<close>

lemma init_dyn: "search_ok X nb1 nb2 \<Longrightarrow> dyn X nb1 nb2 (init_locks X nb1 nb2)"
  by (simp add: dyn_def init_locks_def bus_inv_def input_inv_def output_inv_def answer_def locks_ok_def once_each_def)

lemma init_best_ok: "searching X pr (init_best pr)"
  by (simp add: searching_def best_ok_def init_best_def compat_def)

lemma start_search_ok:
  assumes X: "search_ok X nb1 nb2"
  shows "\<exists>s. start_search X nb1 nb2 pr = Inr (solvable X pr (length (x_output2 X)) (init_locks X nb1 nb2), s) \<and>
    search_post X pr (init_locks X nb1 nb2) (solvable X pr (length (x_output2 X)) (init_locks X nb1 nb2)) s"
proof -
  have "matched (outputLock (init_locks X nb1 nb2)) = 0" by (simp add: init_locks_def matched_def)
  from mo.cont_law [OF X init_dyn [OF X] this init_best_ok] show ?thesis
    by (simp add: start_search_def)
qed

section \<open>The best answer only grows\<close>

text \<open>The number of matched outputs of the best answer never falls, whatever the state.\<close>

lemma finish_output_mono:
  assumes "finish_output X cont o1 o2 rl (l, B) = Inr (b, l', B')"
    and "\<And>L B b L' B'. cont (L, B) = Inr (b, L', B') \<Longrightarrow> maxOutputDepth B \<le> maxOutputDepth B'"
  shows "maxOutputDepth B \<le> maxOutputDepth B'"
  using assms by (cases l) (fastforce simp: finish_output_def res_simps split: if_splits)

lemma match_input_mono:
  assumes "match_input X cont o1 o2 rl its (l, B) = Inr (b, l', B')"
    and cont: "\<And>L B b L' B'. cont (L, B) = Inr (b, L', B') \<Longrightarrow> maxOutputDepth B \<le> maxOutputDepth B'"
  shows "maxOutputDepth B \<le> maxOutputDepth B'"
  using assms(1)
proof (induction its arbitrary: l B b l' B')
  case Nil
  then show ?case using finish_output_mono [OF _ cont] by simp
next
  case (Cons a its)
  let ?I = "\<lambda>d s. d \<le> maxOutputDepth (snd s)"
  let ?neg = "\<lambda>c1_input neg ((quota, cnt, L), B).
      rbind (lock_input (idx X a) (idx X c1_input, neg) L) (\<lambda>L.
      rbind (match_input X cont o1 o2 rl its ((quota, cnt, L), B)) (\<lambda>(eq, (quota, cnt, L), B).
        if eq then Inr (True, (quota, cnt, L), B)
        else rbind (unlock_input (idx X a) L) (\<lambda>L. Inr (False, (quota, cnt, L), B))))"
  have neg: "?I d v" if "search (?neg c1_input) negs u = Inr (c, v)" "?I d u" for c1_input negs u c v d
  proof -
    have step: "?I d v" if "?I d u" "?neg c1_input ng u = Inr (c, v)" for ng u c v
      using that Cons.IH by (cases u) (fastforce simp: res_simps split: if_splits)
    show ?thesis by (rule search_keeps [where I = "?I d", OF that]) (rule step)
  qed
  obtain negs cands where s: "search (\<lambda>c1_input (l, B).
          rbind (occupy X o1 a c1_input l) (\<lambda>r.
          case r of
            None \<Rightarrow> Inr (False, l, B)
          | Some l \<Rightarrow> rbind (search (?neg c1_input) negs (l, B)) (\<lambda>(eq, l, B).
              if eq then Inr (True, l, B)
              else rbind (release X a c1_input l) (\<lambda>l. Inr (False, l, B))))) cands (l, B) = Inr (b, l', B')"
    using Cons.prems by (auto simp: res_simps Let_def)
  have "?I (maxOutputDepth B) (l', B')"
  proof (rule search_keeps [where I = "?I (maxOutputDepth B)", OF s])
    fix c1_input u c v
    assume u: "?I (maxOutputDepth B) u" and "(\<lambda>(l, B).
          rbind (occupy X o1 a c1_input l) (\<lambda>r.
          case r of
            None \<Rightarrow> Inr (False, l, B)
          | Some l \<Rightarrow> rbind (search (?neg c1_input) negs (l, B)) (\<lambda>(eq, l, B).
              if eq then Inr (True, l, B)
              else rbind (release X a c1_input l) (\<lambda>l. Inr (False, l, B))))) u = Inr (c, v)"
    then show "?I (maxOutputDepth B) v"
      using neg by (cases u) (fastforce simp: res_simps split: option.splits if_splits)
  qed simp
  then show ?case by simp
qed

lemma record_best_mono:
  "record_best X out_idx L B = Inr B' \<Longrightarrow> maxOutputDepth B \<le> maxOutputDepth B' \<and> out_idx \<le> maxOutputDepth B'"
  by (auto simp: record_best_def res_simps split: if_splits)

lemma next_match_depth: "next_match X L B = Inr (np, B') \<Longrightarrow> maxOutputDepth B' = maxOutputDepth B"
  by (auto simp: next_match_def res_simps)

lemma try_output_mono:
  assumes run: "try_output X cont o2 o1 (L, B) = Inr (b, L', B')"
    and cont: "\<And>L B b L' B'. cont (L, B) = Inr (b, L', B') \<Longrightarrow> maxOutputDepth B \<le> maxOutputDepth B'"
  shows "maxOutputDepth B \<le> maxOutputDepth B'"
proof -
  have mi: "maxOutputDepth C \<le> maxOutputDepth C'"
    if "match_input X cont o1 o2 rl its (l, C) = Inr (c, l', C')" for rl its l C c l' C'
    by (rule match_input_mono [OF that]) (rule cont)
  show ?thesis
    using run
    by (auto simp: try_output_def Let_def elim!: rbindE split: if_split_asm option.split_asm)
       (erule mi)+
qed

lemma match_output_mono:
  "match_output X k (L, B) = Inr (b, L', B') \<Longrightarrow>
   maxOutputDepth B \<le> maxOutputDepth B' \<and> int (length (x_output2 X)) - int k \<le> maxOutputDepth B'"
proof (induction k arbitrary: L B b L' B')
  case 0
  then show ?case by (auto simp: res_simps dest: record_best_mono)
next
  case (Suc k)
  obtain B1 B2 o2 cands where 1: "record_best X (int (length (x_output2 X)) - int (Suc k)) L B = Inr B1"
    "next_match X L B1 = Inr (Some o2, B2)"
    "search (try_output X (match_output X k) o2) cands (L, B2) = Inr (b, L', B')"
    using Suc.prems by (auto simp: res_simps split: option.splits)
  have "maxOutputDepth B2 \<le> maxOutputDepth (snd (L', B'))"
  proof (rule search_keeps [where I = "\<lambda>s. maxOutputDepth B2 \<le> maxOutputDepth (snd s)", OF 1(3)])
    fix o1 u c v
    assume u: "maxOutputDepth B2 \<le> maxOutputDepth (snd u)" "try_output X (match_output X k) o2 o1 u = Inr (c, v)"
    obtain M C M' C' where uv: "u = (M, C)" "v = (M', C')" by (cases u; cases v)
    have "maxOutputDepth C \<le> maxOutputDepth C'"
      using try_output_mono [OF u(2) [unfolded uv]] Suc.IH by blast
    then show "maxOutputDepth B2 \<le> maxOutputDepth (snd v)" using u(1) by (simp add: uv)
  qed simp
  then show ?case using record_best_mono [OF 1(1)] next_match_depth [OF 1(2)] by simp
qed

end
