(* ===== verification/Match_Sound.thy ===== *)
theory Match_Sound
  imports Match_Correct
begin

text \<open>
  What a recorded answer means: an output of circuit 2 computes the same Boolean function as the
  output of circuit 1 it is matched to (up to the recorded negation) when the inputs of circuit 2
  are driven as the input locks say.
\<close>

section \<open>The pairs the miter is called with\<close>

definition ports_of :: "ctx \<Rightarrow> lock list \<Rightarrow> addr list \<Rightarrow> addr list" where
  "ports_of X il supp = filter (\<lambda>a. fst (il ! nat (idx X a)) \<noteq> -1 \<and> fst (il ! nat (idx X a)) \<noteq> CONST_VAL) supp"

definition consts_in :: "ctx \<Rightarrow> lock list \<Rightarrow> addr list \<Rightarrow> addr list" where
  "consts_in X il supp = filter (\<lambda>a. fst (il ! nat (idx X a)) = CONST_VAL) supp"

lemma miter_pairs_eq:
  assumes "\<forall>a \<in> set supp. in_range il (idx X a)"
  shows "miter_pairs_of X supp il =
    Inr (map (\<lambda>a. (idx X a, fst (il ! nat (idx X a)))) (ports_of X il supp),
         map (\<lambda>a. snd (il ! nat (idx X a))) (ports_of X il supp),
         map (\<lambda>a. (snd (il ! nat (idx X a)), idx X a)) (consts_in X il supp))"
proof -
  let ?F = "\<lambda>it (ps, ns, cs). rbind (vget il (idx X it)) (\<lambda>(c1, ng).
       if c1 = -1 then Inr (ps, ns, cs)
       else if c1 \<noteq> CONST_VAL then Inr (ps @ [(idx X it, c1)], ns @ [ng], cs)
       else Inr (ps, ns, cs @ [(ng, idx X it)]))"
  have "rfold ?F supp (ps, ns, cs) =
    Inr (ps @ map (\<lambda>a. (idx X a, fst (il ! nat (idx X a)))) (ports_of X il supp),
         ns @ map (\<lambda>a. snd (il ! nat (idx X a))) (ports_of X il supp),
         cs @ map (\<lambda>a. (snd (il ! nat (idx X a)), idx X a)) (consts_in X il supp))" for ps ns cs
    using assms
  proof (induction supp arbitrary: ps ns cs)
    case Nil
    then show ?case by (simp add: ports_of_def consts_in_def)
  next
    case (Cons a supp)
    then show ?case
      by (cases "il ! nat (idx X a)") (auto simp: ports_of_def consts_in_def CONST_VAL_def)
  qed
  then show ?thesis by (simp add: miter_pairs_of_def)
qed

definition lock_wires :: "ctx \<Rightarrow> lock list \<Rightarrow> addr list \<Rightarrow> wire list" where
  "lock_wires X il supp =
     map (\<lambda>a. (a, x_input1 X ! nat (fst (il ! nat (idx X a))), snd (il ! nat (idx X a)))) (ports_of X il supp)"

definition lock_consts :: "ctx \<Rightarrow> lock list \<Rightarrow> addr list \<Rightarrow> (addr \<times> bool) list" where
  "lock_consts X il supp = map (\<lambda>a. (a, snd (il ! nat (idx X a)))) (consts_in X il supp)"

lemma wires_of_locks:
  assumes "\<forall>a \<in> set supp. x_input2 X ! nat (idx X a) = a"
  shows "wires_of (x_input1 X) (x_input2 X) (map (\<lambda>a. (idx X a, fst (il ! nat (idx X a)))) (ports_of X il supp))
      (map (\<lambda>a. snd (il ! nat (idx X a))) (ports_of X il supp)) = lock_wires X il supp"
proof -
  have "x_input2 X ! nat (idx X (ports_of X il supp ! i)) = ports_of X il supp ! i"
    if "i < length (ports_of X il supp)" for i
    using assms nth_mem [OF that] by (auto simp: ports_of_def)
  then show ?thesis by (auto simp: wires_of_def lock_wires_def intro!: nth_equalityI)
qed

lemma consts_of_locks:
  assumes "\<forall>a \<in> set supp. x_input2 X ! nat (idx X a) = a"
  shows "consts_of (x_input2 X) (map (\<lambda>a. (snd (il ! nat (idx X a)), idx X a)) (consts_in X il supp)) = lock_consts X il supp"
  using assms by (auto simp: consts_of_def lock_consts_def consts_in_def)

text \<open>The number of words the miter enumerates is at most the number of inputs of the output.\<close>

lemma lock_wires_small: "length (c1_inputs (lock_wires X il supp)) \<le> length supp"
proof -
  have "length (c1_inputs ws) \<le> length ws" for ws
  proof -
    have "partners ws = (fst \<circ> snd) ` set ws" by (force simp: partners_def)
    then have "card (partners ws) \<le> card (set ws)" by (simp add: card_image_le)
    then have "card (partners ws) \<le> length ws" using card_length [of ws] by simp
    then show ?thesis using c1_inputs_facts [of ws] by (metis distinct_card)
  qed
  from this [of "lock_wires X il supp"] show ?thesis
    using length_filter_le [of "\<lambda>a. fst (il ! nat (idx X a)) \<noteq> -1 \<and> fst (il ! nat (idx X a)) \<noteq> CONST_VAL" supp]
    unfolding lock_wires_def ports_of_def length_map by (rule order_trans)
qed

section \<open>Driving circuit 2 from circuit 1\<close>

definition driven :: "ctx \<Rightarrow> lock list \<Rightarrow> (addr \<Rightarrow> bool) \<Rightarrow> addr \<Rightarrow> bool" where
  "driven X il \<sigma> a =
     (if a \<in> set (x_input2 X) then
        (let (c, ng) = il ! nat (idx X a)
         in if c = -1 then False else if c = CONST_VAL then ng else \<sigma> (x_input1 X ! nat c) \<noteq> ng)
      else \<sigma> a)"

definition matches_function :: "ctx \<Rightarrow> lock list \<Rightarrow> nat \<Rightarrow> lock \<Rightarrow> bool" where
  "matches_function X il j lk \<longleftrightarrow> (\<forall>\<sigma> b1 b2.
     evals (x_nodes X) (driven X il \<sigma>) (x_output1 X ! nat (fst lk)) b1 \<longrightarrow>
     evals (x_nodes X) (driven X il \<sigma>) (x_output2 X ! j) b2 \<longrightarrow> b2 = (b1 \<noteq> snd lk))"

text \<open>
  The supports read from the files of the repository: an output depends on no other input. The
  inputs of circuit 1 stand at the index they carry.
\<close>

definition depends_on :: "(addr \<Rightarrow> node) \<Rightarrow> addr \<Rightarrow> addr set \<Rightarrow> bool" where
  "depends_on h out S \<longleftrightarrow> (\<forall>\<sigma> \<tau> b. (\<forall>a \<in> S. \<sigma> a = \<tau> a) \<longrightarrow> evals h \<sigma> out b \<longrightarrow> evals h \<tau> out b)"

lemma depends_onD:
  "depends_on h out S \<Longrightarrow> (\<And>a. a \<in> S \<Longrightarrow> \<sigma> a = \<tau> a) \<Longrightarrow> evals h \<sigma> out b \<Longrightarrow> evals h \<tau> out b"
  unfolding depends_on_def by blast

definition supports_sound :: "ctx \<Rightarrow> bool" where
  "supports_sound X \<longleftrightarrow>
     (\<forall>j < length (x_output1 X). depends_on (x_nodes X) (x_output1 X ! j) (set (x_output_support1 X ! j)) \<and>
        (\<forall>a \<in> set (x_output_support1 X ! j). in_range (x_input1 X) (idx X a) \<and> x_input1 X ! nat (idx X a) = a)) \<and>
     (\<forall>j < length (x_output2 X). depends_on (x_nodes X) (x_output2 X ! j) (set (x_output_support2 X ! j)))"

lemma map_of_rev_graph:
  "map_of (rev (map (\<lambda>a. (a, f a)) as)) x = (if x \<in> set as then Some (f x) else None)"
  by (induction as) (auto simp: map_add_def)

text \<open>The assignment the miter enumerates is the driven one, on the inputs that matter.\<close>

lemma match_asg_driven:
  assumes ports: "\<forall>a \<in> set supp. input_ok X nb2 a" and disj: "set (x_input1 X) \<inter> set (x_input2 X) = {}"
    and locked: "\<forall>a \<in> set supp. fst (il ! nat (idx X a)) = CONST_VAL \<or> in_range (x_input1 X) (fst (il ! nat (idx X a)))"
  shows "a \<in> set supp \<Longrightarrow> match_asg (lock_wires X il supp) (lock_consts X il supp) \<sigma> a = driven X il \<sigma> a"
    and "b \<in> set supp \<Longrightarrow> fst (il ! nat (idx X b)) = c \<Longrightarrow> in_range (x_input1 X) c \<Longrightarrow>
      match_asg (lock_wires X il supp) (lock_consts X il supp) \<sigma> (x_input1 X ! nat c) = driven X il \<sigma> (x_input1 X ! nat c)"
proof -
  let ?ws = "lock_wires X il supp" and ?cs = "lock_consts X il supp"
  have in2: "a \<in> set (x_input2 X)" if "a \<in> set supp" for a
    using ports that nth_in_range by (fastforce simp: input_ok_def)
  {
    assume a: "a \<in> set supp"
    obtain c ng where lk: "il ! nat (idx X a) = (c, ng)" by (cases "il ! nat (idx X a)")
    show "match_asg ?ws ?cs \<sigma> a = driven X il \<sigma> a"
    proof (cases "c = CONST_VAL")
      case True
      then have "map_of (rev ?ws) a = None" using lk
        by (auto simp: map_of_rev_None lock_wires_def ports_of_def)
      moreover have "a \<in> set (consts_in X il supp)" using a True lk by (simp add: consts_in_def)
      then have "map_of (rev ?cs) a = Some ng" using lk
        by (simp add: lock_consts_def map_of_rev_graph)
      ultimately show ?thesis using in2 [OF a] lk True by (simp add: match_asg_def driven_def CONST_VAL_def)
    next
      case False
      then have c: "in_range (x_input1 X) c" using locked a lk by auto
      then have "a \<in> set (ports_of X il supp)" using a False lk by (auto simp: ports_of_def in_range_def)
      then have "map_of (rev ?ws) a = Some (x_input1 X ! nat c, ng)" using lk
        by (simp add: lock_wires_def map_of_rev_graph)
      then show ?thesis using in2 [OF a] lk False c by (auto simp: match_asg_def driven_def in_range_def)
    qed
  }
  assume b: "b \<in> set supp" "fst (il ! nat (idx X b)) = c" "in_range (x_input1 X) c"
  have mem: "x_input1 X ! nat c \<in> set (x_input1 X)" using b(3) by (rule nth_in_range)
  then have n2: "x_input1 X ! nat c \<notin> set (x_input2 X)" using disj by blast
  have "fst ` set ?ws \<subseteq> set (x_input2 X)" "fst ` set ?cs \<subseteq> set (x_input2 X)"
    using in2 by (auto simp: lock_wires_def lock_consts_def ports_of_def consts_in_def)
  then have "map_of (rev ?ws) (x_input1 X ! nat c) = None" "map_of (rev ?cs) (x_input1 X ! nat c) = None"
    using n2 by (auto simp: map_of_rev_None)
  moreover have "b \<in> set (ports_of X il supp)" using b by (auto simp: ports_of_def in_range_def CONST_VAL_def)
  then have "(b, x_input1 X ! nat c, snd (il ! nat (idx X b))) \<in> set ?ws"
    using b(2) by (auto simp: lock_wires_def image_iff)
  then have "x_input1 X ! nat c \<in> partners ?ws" unfolding partners_def by blast
  ultimately show "match_asg ?ws ?cs \<sigma> (x_input1 X ! nat c) = driven X il \<sigma> (x_input1 X ! nat c)"
    using n2 by (simp add: match_asg_def driven_def)
qed

section \<open>Verified outputs are equal\<close>

lemma verified_equal:
  assumes X: "search_ok X nb1 nb2" and sup: "supports_sound X"
    and il: "locks_ok True (length (x_input1 X)) (length (x_input2 X)) il"
    and j: "j < length (x_output2 X)" and c: "in_range (x_output1 X) (fst lk)"
    and ver: "verified X il j lk" and small: "length (x_output_support2 X ! j) < 18"
  shows "matches_function X il j lk"
  unfolding matches_function_def
proof (intro allI impI)
  let ?s2 = "x_output_support2 X ! j" and ?s1 = "x_output_support1 X ! nat (fst lk)"
  let ?o1 = "x_output1 X ! nat (fst lk)" and ?o2 = "x_output2 X ! j" and ?h = "x_nodes X"
  let ?ws = "lock_wires X il ?s2" and ?cs = "lock_consts X il ?s2"
  fix \<sigma> b1 b2
  assume ev: "evals ?h (driven X il \<sigma>) ?o1 b1" "evals ?h (driven X il \<sigma>) ?o2 b2"
  have r: "in_range (x_output_support2 X) (int j)" using X j by (simp add: search_ok_def sizes_ok_def)
  then have "?s2 \<in> set (x_output_support2 X)" by simp
  then have ok: "\<forall>a \<in> set ?s2. input_ok X nb2 a" using X by (simp add: search_ok_def)
  then have ok': "\<forall>a \<in> set ?s2. x_input2 X ! nat (idx X a) = a" "\<forall>a \<in> set ?s2. in_range il (idx X a)"
    using il by (auto simp: input_ok_def locks_ok_def in_range_def)
  have locked: "\<forall>a \<in> set ?s2. fst (il ! nat (idx X a)) = CONST_VAL \<or> in_range (x_input1 X) (fst (il ! nat (idx X a)))"
  proof
    fix a
    assume a: "a \<in> set ?s2"
    then have "nat (idx X a) < length (x_input2 X)" using ok in_rangeD by (auto simp: input_ok_def)
    from lock_range [OF il this] show "fst (il ! nat (idx X a)) = CONST_VAL \<or> in_range (x_input1 X) (fst (il ! nat (idx X a)))"
      using ver a by (auto simp: verified_def in_range_def)
  qed
  have disj: "set (x_input1 X) \<inter> set (x_input2 X) = {}" using X by (simp add: search_ok_def miter_ready_def)
  obtain ps ns cs where t: "miter_pairs_of X ?s2 il = Inr (ps, ns, cs)" "pairs_inv X (ps, ns, cs)"
    "wires_of (x_input1 X) (x_input2 X) ps ns = ?ws" "consts_of (x_input2 X) cs = ?cs"
    using miter_pairs_total [OF ok il] miter_pairs_eq [OF ok'(2)] wires_of_locks [OF ok'(1)] consts_of_locks [OF ok'(1)]
    by auto
  obtain A r' where A: "sim_ready ?h A r' (x_fuel X)" "set (x_output1 X) \<subseteq> A" "set (x_output2 X) \<subseteq> A"
    and ord: "iteration_order (x_ord X)"
    using X by (auto simp: search_ok_def miter_ready_def)
  have args: "miter_args_ok (x_input1 X) (x_input2 X) (x_output1 X) (x_output2 X) ps ns (int j, fst lk) cs"
    using t(2) c j disj by (auto simp: miter_args_ok_def pairs_inv_def)
  have "length (c1_inputs (wires_of (x_input1 X) (x_input2 X) ps ns)) < 18"
    using lock_wires_small [of X il ?s2] small by (simp add: t(3))
  note m = miter_small [OF args A ord this, of "x_rnd X"]
  have "miterOneOutputRandom (x_ord X) (x_rnd X) ?h (x_fuel X) (x_input1 X) (x_input2 X) (x_output1 X)
      (x_output2 X) ps ns (int j, fst lk) cs = Inr (if snd lk then 2 else 1)"
    using ver r t(1) by (simp add: verified_def run_miter_def)
  then have "pair_agree ?h (x_input1 X) (x_input2 X) (x_output1 X) (x_output2 X) ps ns (int j, fst lk) cs (snd lk)"
    unfolding m by (cases "snd lk") (simp_all split: if_splits)
  then have agree: "outputs_agree ?h ?ws ?cs ?o1 ?o2 (snd lk)" by (simp add: pair_agree_def t(3,4))
  note drv = match_asg_driven [OF ok disj locked]
  have s2: "\<forall>a \<in> set ?s2. driven X il \<sigma> a = match_asg ?ws ?cs \<sigma> a" using drv(1) by simp
  have s1: "driven X il \<sigma> a = match_asg ?ws ?cs \<sigma> a" if "a \<in> set ?s1" for a
  proof -
    obtain b where b: "b \<in> set ?s2" "fst (il ! nat (idx X b)) = idx X a" using ver \<open>a \<in> set ?s1\<close> by (auto simp: verified_def)
    have "in_range (x_input1 X) (idx X a) \<and> x_input1 X ! nat (idx X a) = a"
      using sup in_rangeD [OF c] \<open>a \<in> set ?s1\<close> unfolding supports_sound_def by blast
    then show ?thesis using drv(2) [OF b, of \<sigma>] by simp
  qed
  have "depends_on ?h ?o2 (set ?s2)" "depends_on ?h ?o1 (set ?s1)"
    using sup j in_rangeD [OF c] unfolding supports_sound_def by simp_all
  then have "evals ?h (match_asg ?ws ?cs \<sigma>) ?o2 b2" "evals ?h (match_asg ?ws ?cs \<sigma>) ?o1 b1"
    using depends_onD [OF _ _ ev(2)] depends_onD [OF _ _ ev(1)] s2 s1 by simp_all
  then show "b2 = (b1 \<noteq> snd lk)" using agree unfolding outputs_agree_def by blast
qed

section \<open>The recorded answer\<close>

lemma all_matched_length: "matched ol = length ol \<longleftrightarrow> (\<forall>lk \<in> set ol. fst lk \<noteq> -1)"
proof
  assume "matched ol = length ol"
  then show "\<forall>lk \<in> set ol. fst lk \<noteq> -1"
    using length_filter_less [of _ ol "\<lambda>lk. fst lk \<noteq> -1"] unfolding matched_def by fastforce
qed (simp add: matched_def)

lemma start_search_answer:
  assumes X: "search_ok X nb1 nb2" and nd: "no_dangling X" and sup: "supports_sound X"
  shows "\<exists>b L B. start_search X nb1 nb2 pr = Inr (b, L, B) \<and> maxOutputDepth B \<ge> 0 \<and>
     locks_ok False (length (x_output1 X)) (length (x_output2 X)) (maxOutputMatch B) \<and>
     (\<forall>j lk. j < length (x_output2 X) \<longrightarrow> maxOutputMatch B ! j = lk \<longrightarrow> fst lk \<noteq> -1 \<longrightarrow>
        length (x_output_support2 X ! j) < 18 \<longrightarrow> matches_function X (maxInputMatch B) j lk) \<and>
     (\<forall>j < length (x_output2 X). fst (maxOutputMatch B ! j) \<noteq> -1 \<longrightarrow>
        (\<forall>a \<in> set (x_output_support2 X ! j). fst (maxInputMatch B ! nat (idx X a)) \<noteq> -1)) \<and>
     (b \<longrightarrow> (\<forall>lk \<in> set (maxOutputMatch B). fst lk \<noteq> -1))"
proof -
  obtain b L B where run: "start_search X nb1 nb2 pr = Inr (b, L, B)" and
    post: "search_post X pr (init_locks X nb1 nb2) b (L, B)"
    using start_search_ok [OF X, of pr] by auto
  have d: "maxOutputDepth B \<ge> 0"
    using match_output_mono run unfolding start_search_def by fastforce
  have "best_ok X pr B" using post by (cases b) (simp_all add: found_def searching_def)
  then have ans: "answer X (maxInputMatch B) (maxOutputMatch B)" using d by (auto simp: best_ok_def)
  then have len: "length (maxOutputMatch B) = length (x_output2 X)" by (simp add: answer_def locks_ok_def)
  have "matches_function X (maxInputMatch B) j (maxOutputMatch B ! j)"
    if j: "j < length (x_output2 X)" "fst (maxOutputMatch B ! j) \<noteq> -1" "length (x_output_support2 X ! j) < 18" for j
  proof (rule verified_equal [OF X sup _ j(1) _ _ j(3)])
    show "locks_ok True (length (x_input1 X)) (length (x_input2 X)) (maxInputMatch B)"
      "verified X (maxInputMatch B) j (maxOutputMatch B ! j)"
      using ans nd j(1,2) len by (simp_all add: answer_def)
    show "in_range (x_output1 X) (fst (maxOutputMatch B ! j))"
      using ans j(1,2) lock_range [of False "length (x_output1 X)" "length (x_output2 X)" "maxOutputMatch B" j]
      by (simp add: answer_def in_range_def)
  qed
  moreover have "locks_ok False (length (x_output1 X)) (length (x_output2 X)) (maxOutputMatch B)"
    using ans by (simp add: answer_def)
  moreover have "fst (maxInputMatch B ! nat (idx X a)) \<noteq> -1"
    if "j < length (x_output2 X)" "fst (maxOutputMatch B ! j) \<noteq> -1" "a \<in> set (x_output_support2 X ! j)" for j a
    using ans nd that len by (simp add: answer_def verified_def)
  moreover have "\<forall>lk \<in> set (maxOutputMatch B). fst lk \<noteq> -1" if b
  proof -
    have "matched (maxOutputMatch B) = length (maxOutputMatch B)"
      using post that d len by (auto simp: found_def best_ok_def)
    then show ?thesis by (simp add: all_matched_length)
  qed
  ultimately show ?thesis using run d by blast
qed

end
