(* ===== verification/Match_Ready.thy ===== *)
theory Match_Ready
  imports Match_Gen Match_Sound
begin

text \<open>
  The phase before the search does what the search needs: for parsed modules whose containers,
  buses and supports fit together, \<open>prepare_match\<close> returns, its candidates are ports with buses in
  range or constants, and the context it builds satisfies \<open>search_ok\<close>.
\<close>

section \<open>What the phases before guarantee\<close>

definition ports_ok :: "(addr \<Rightarrow> node) \<Rightarrow> gtype \<Rightarrow> addr list \<Rightarrow> addr list list \<Rightarrow> bool" where
  "ports_ok h t ports bus \<longleftrightarrow>
     (\<forall>k < length ports. n_idx (h (ports ! k)) = int k \<and> n_type (h (ports ! k)) = t) \<and>
     (\<forall>a \<in> set ports. n_bus_idx (h a) \<in> set (n_bus_indices (h a)) \<and> distinct (n_bus_indices (h a)) \<and>
        (\<forall>b \<in> set (n_bus_indices (h a)). in_range bus b \<and> n_type (h (hd (bus ! nat b))) = t))"

definition buses_ok :: "addr list \<Rightarrow> addr list \<Rightarrow> addr list list \<Rightarrow> bool" where
  "buses_ok inputs outputs bus \<longleftrightarrow>
     (\<forall>xs \<in> set bus. xs \<noteq> [] \<and> (set xs \<subseteq> set inputs \<or> set xs \<subseteq> set outputs))"

text \<open>The buses of a candidate reach as far as those of the port it is tried for.\<close>

definition partner_ok :: "(addr \<Rightarrow> node) \<Rightarrow> addr \<Rightarrow> addr \<Rightarrow> bool" where
  "partner_ok h a2 a1 \<longleftrightarrow>
     (length (n_bus_indices (h a2)) > 1 \<longrightarrow> length (n_bus_indices (h a2)) \<le> length (n_bus_indices (h a1)))"

definition modules_ok :: "match_data \<Rightarrow> (addr \<Rightarrow> node) \<Rightarrow> bool" where
  "modules_ok S h \<longleftrightarrow>
     ports_ok h INPUT (s_input1 S) (s_bus1 S) \<and> ports_ok h INPUT (s_input2 S) (s_bus2 S) \<and>
     ports_ok h OUTPUT (s_output1 S) (s_bus1 S) \<and> ports_ok h OUTPUT (s_output2 S) (s_bus2 S) \<and>
     buses_ok (s_input1 S) (s_output1 S) (s_bus1 S) \<and> buses_ok (s_input2 S) (s_output2 S) (s_bus2 S) \<and>
     set (s_input1 S) \<inter> set (s_input2 S) = {} \<and> int (length (s_bus2 S)) < 2 ^ 31 \<and>
     length (m_input_sig (s_mod1 S)) = length (s_input1 S) \<and> length (m_input_sig (s_mod2 S)) = length (s_input2 S)"

definition supports_fit :: "match_data \<Rightarrow> bool" where
  "supports_fit S \<longleftrightarrow>
     length (s_output_support1 S) = length (s_output1 S) \<and> length (s_output_support2 S) = length (s_output2 S) \<and>
     length (s_input_support1 S) = length (s_input1 S) \<and> length (s_input_support2 S) = length (s_input2 S) \<and>
     (\<forall>supp \<in> set (s_output_support1 S). set supp \<subseteq> set (s_input1 S)) \<and>
     (\<forall>supp \<in> set (s_output_support2 S). distinct supp \<and> set supp \<subseteq> set (s_input2 S))"

definition init_fits :: "match_data \<Rightarrow> (addr \<Rightarrow> node) \<Rightarrow> bool" where
  "init_fits S h \<longleftrightarrow>
     length (s_init_output S) = length (s_output2 S) \<and> length (s_init_input S) = length (s_input2 S) \<and>
     length (s_init_input_ne S) = length (s_input2 S) \<and>
     (\<forall>cs \<in> set (s_init_output S). set cs \<subseteq> set (s_output1 S)) \<and>
     (\<forall>i < length (s_input2 S). \<forall>a1. s_init_input S ! i = Some a1 \<longrightarrow>
        a1 \<in> set (s_input1 S) \<and> partner_ok h (s_input2 S ! i) a1)"

text \<open>
  Two conditions the code relies on without checking them: with as many inputs in both circuits
  the multi-bus test is skipped, and the buses of circuit 2 are read at bus indices of circuit 1.
\<close>

definition unchecked_ok :: "match_data \<Rightarrow> (addr \<Rightarrow> node) \<Rightarrow> bool" where
  "unchecked_ok S h \<longleftrightarrow>
     (inputSizeEq S \<longrightarrow> (\<forall>a2 \<in> set (s_input2 S). \<forall>a1 \<in> set (s_input1 S). partner_ok h a2 a1)) \<and>
     length (s_bus1 S) \<le> length (s_bus2 S)"

definition circuits_ok :: "match_data \<Rightarrow> store \<Rightarrow> bool" where
  "circuits_ok S st \<longleftrightarrow> iteration_order (s_ord S) \<and> (\<forall>lt xs. mset (s_sort S lt xs) = mset xs) \<and>
     (\<exists>A r. sim_ready (heap st) A r (s_fuel S) \<and> (\<forall>a \<in> A. a < next_addr st) \<and>
        set (s_input1 S) \<subseteq> A \<and> set (s_input2 S) \<subseteq> A \<and> set (s_output1 S) \<subseteq> A \<and> set (s_output2 S) \<subseteq> A)"

definition data_ok :: "match_data \<Rightarrow> store \<Rightarrow> bool" where
  "data_ok S st \<longleftrightarrow> s_caseID S \<noteq> ''08'' \<and> modules_ok S (heap st) \<and> supports_fit S \<and>
     init_fits S (heap st) \<and> unchecked_ok S (heap st) \<and> circuits_ok S st"

section \<open>Heaps that differ in support sizes and new nodes\<close>

definition same_supp :: "addr \<Rightarrow> (addr \<Rightarrow> node) \<Rightarrow> (addr \<Rightarrow> node) \<Rightarrow> bool" where
  "same_supp N h h' \<longleftrightarrow> (\<forall>a < N. \<exists>v. h' a = (h a)\<lparr>n_supportVal := v\<rparr>)"

lemma same_supp_refl [simp]: "same_supp N h h"
proof -
  have "h a = (h a)\<lparr>n_supportVal := n_supportVal (h a)\<rparr>" for a by simp
  then show ?thesis unfolding same_supp_def by blast
qed

lemma same_supp_trans:
  assumes "same_supp N h h'" and "same_supp M h' h''" and "N \<le> M"
  shows "same_supp N h h''"
  unfolding same_supp_def
proof (intro allI impI)
  fix a assume "a < N"
  then have "\<exists>v. h' a = (h a)\<lparr>n_supportVal := v\<rparr>" "\<exists>w. h'' a = (h' a)\<lparr>n_supportVal := w\<rparr>"
    using assms by (simp_all add: same_supp_def)
  then show "\<exists>v. h'' a = (h a)\<lparr>n_supportVal := v\<rparr>" by auto
qed

lemma same_supp_fields:
  assumes "same_supp N h h'" and "a < N"
  shows "n_type (h' a) = n_type (h a)" "n_idx (h' a) = n_idx (h a)" "n_bus_idx (h' a) = n_bus_idx (h a)"
    "n_bus_indices (h' a) = n_bus_indices (h a)" "n_fi (h' a) = n_fi (h a)" "n_inv (h' a) = n_inv (h a)"
    "n_priority (h' a) = n_priority (h a)" "n_name (h' a) = n_name (h a)" "n_bit_idx (h' a) = n_bit_idx (h a)"
  using assms by (auto simp: same_supp_def)

lemma evals_same_supp:
  assumes "evals h \<sigma> a b" and "net_wf h A r" and "a \<in> A" and "\<forall>x \<in> A. x < N" and "same_supp N h h'"
  shows "evals h' \<sigma> a b"
  using assms(1,3)
proof (induction rule: evals.induct)
  case (ev_input a)
  then show ?case using assms(4,5) same_supp_fields(1) by (auto intro: evals.ev_input)
next
  case (ev_gate a bs b)
  have f: "n_type (h' a) = n_type (h a)" "n_fi (h' a) = n_fi (h a)" "n_inv (h' a) = n_inv (h a)"
    using ev_gate.prems assms(4) by (simp_all add: same_supp_fields [OF assms(5)])
  have "gate_wf h A r a" using assms(2) ev_gate.prems ev_gate.hyps(1) by (auto simp: net_wf_def)
  then have "\<forall>x \<in> set (n_fi (h a)). x \<in> A" by (simp add: gate_wf_def)
  then have "list_all2 (evals h' \<sigma>) (n_fi (h a)) bs"
    using ev_gate.IH by (auto simp: list_all2_conv_all_nth)
  then show ?case using ev_gate.hyps f by (intro evals.ev_gate) simp_all
qed

lemma sim_ready_same_supp:
  assumes "sim_ready h A r n" and "\<forall>x \<in> A. x < N" and "same_supp N h h'"
  shows "sim_ready h' A r n"
proof -
  have f: "n_type (h' a) = n_type (h a)" "n_fi (h' a) = n_fi (h a)" "n_inv (h' a) = n_inv (h a)" if "a \<in> A" for a
    using that assms(2) by (simp_all add: same_supp_fields [OF assms(3)])
  show ?thesis
    using assms(1) f by (simp add: sim_ready_def net_wf_def gate_wf_def)
qed

lemma ports_ok_same_supp:
  assumes "ports_ok h t ports bus" and "same_supp N h h'" and "\<forall>a \<in> set ports. a < N" and "\<forall>xs \<in> set bus. hd xs < N"
  shows "ports_ok h' t ports bus"
proof -
  have f: "n_type (h' a) = n_type (h a)" "n_idx (h' a) = n_idx (h a)" "n_bus_idx (h' a) = n_bus_idx (h a)"
    "n_bus_indices (h' a) = n_bus_indices (h a)" if "a < N" for a
    using that by (simp_all add: same_supp_fields [OF assms(2)])
  have "n_type (h' (hd (bus ! nat b))) = n_type (h (hd (bus ! nat b)))" if "in_range bus b" for b
    using f assms(4) nth_in_range [OF that] by blast
  then show ?thesis using assms(1,3) f by (simp add: ports_ok_def)
qed

section \<open>The phases\<close>

text \<open>Supports: every port of a bus gets the size of its support.\<close>

definition sizes_set :: "(addr \<Rightarrow> node) \<Rightarrow> addr list list \<Rightarrow> addr list \<Rightarrow> bool" where
  "sizes_set h support ports \<longleftrightarrow> (\<forall>a \<in> set ports. n_supportVal (h a) = int (length (support ! nat (n_idx (h a)))))"

lemma set_supportVal_loop:
  assumes "\<forall>a \<in> set ports. in_range support (n_idx (h a))"
  shows "\<exists>h'. rfold (set_supportVal support) ports h = Inr h' \<and> same_supp N h h' \<and> sizes_set h' support ports \<and>
    (\<forall>a. a \<notin> set ports \<longrightarrow> h' a = h a)"
proof -
  let ?v = "\<lambda>a. int (length (support ! nat (n_idx (h a))))"
  have "rfold (set_supportVal support) ports g =
      Inr (\<lambda>a. if a \<in> set ports then (h a)\<lparr>n_supportVal := ?v a\<rparr> else g a)"
    if "\<forall>a. \<exists>w. g a = (h a)\<lparr>n_supportVal := w\<rparr>" for g
    using assms that
  proof (induction ports arbitrary: g)
    case Nil
    then show ?case by simp
  next
    case (Cons p ports)
    obtain w where w: "g p = (h p)\<lparr>n_supportVal := w\<rparr>" using Cons.prems(2) by blast
    let ?g = "upd p (\<lambda>n. n\<lparr>n_supportVal := ?v p\<rparr>) g"
    have "set_supportVal support p g = Inr ?g"
      using Cons.prems(1) by (simp add: set_supportVal_def w)
    moreover have "\<exists>w. ?g a = (h a)\<lparr>n_supportVal := w\<rparr>" for a
      using Cons.prems(2) w by (auto simp: upd_apply)
    then have "rfold (set_supportVal support) ports ?g =
        Inr (\<lambda>a. if a \<in> set ports then (h a)\<lparr>n_supportVal := ?v a\<rparr> else ?g a)"
      by (intro Cons.IH) (use Cons.prems(1) in auto)
    ultimately show ?case using w by (auto simp: fun_eq_iff upd_apply)
  qed
  moreover have self: "\<exists>w. h a = (h a)\<lparr>n_supportVal := w\<rparr>" for a
    by (rule exI [of _ "n_supportVal (h a)"]) simp
  ultimately have run: "rfold (set_supportVal support) ports h =
      Inr (\<lambda>a. if a \<in> set ports then (h a)\<lparr>n_supportVal := ?v a\<rparr> else h a)"
    by blast
  with self show ?thesis by (auto simp: same_supp_def sizes_set_def)
qed

lemma bus_loop:
  assumes "\<forall>xs \<in> set bus. \<forall>g. same_supp N h g \<longrightarrow> (\<exists>g'. f xs g = Inr g' \<and> same_supp N g g')"
  shows "\<exists>g'. rfold f bus h = Inr g' \<and> same_supp N h g'"
proof (rule rfold_total)
  fix xs u assume "xs \<in> set bus" "same_supp N h u"
  then show "\<exists>v. f xs u = Inr v \<and> same_supp N h v"
    using assms same_supp_trans by blast
qed simp

lemma assign_bus_supp_ok:
  assumes ok: "buses_ok inputs outputs bus" and xs: "xs \<in> set bus"
    and i: "ports_ok h INPUT inputs bus" and o': "ports_ok h OUTPUT outputs bus"
    and len: "length isupp = length inputs" "length osupp = length outputs"
  shows "\<exists>g'. assign_bus_supp isupp osupp xs h = Inr g' \<and> same_supp N h g'"
proof -
  have ne: "xs \<noteq> []" using ok xs by (simp add: buses_ok_def)
  have range: "in_range supp (n_idx (h a)) \<and> n_type (h a) = t"
    if p: "ports_ok h t ports bus" "a \<in> set ports" "length supp = length ports" for supp :: "addr list list" and a t ports
  proof -
    obtain k where k: "k < length ports" "ports ! k = a" using p(2) by (auto simp: in_set_conv_nth)
    then show ?thesis using p(1,3) by (auto simp: ports_ok_def)
  qed
  have hd: "vget xs 0 = Inr (hd xs)" "hd xs \<in> set xs"
    using ne by (simp_all add: vget_def in_range_def hd_conv_nth)
  from ok xs consider "set xs \<subseteq> set inputs" | "set xs \<subseteq> set outputs" by (auto simp: buses_ok_def)
  then show ?thesis
  proof cases
    case 1
    then have "\<forall>a \<in> set xs. in_range isupp (n_idx (h a)) \<and> n_type (h a) = INPUT"
      using range [OF i _ len(1)] by blast
    then show ?thesis
      using hd set_supportVal_loop [of xs isupp h N] by (auto simp: assign_bus_supp_def)
  next
    case 2
    then have "\<forall>a \<in> set xs. in_range osupp (n_idx (h a)) \<and> n_type (h a) = OUTPUT"
      using range [OF o' _ len(2)] by blast
    then show ?thesis
      using hd set_supportVal_loop [of xs osupp h N] by (auto simp: assign_bus_supp_def)
  qed
qed

lemma modules_ok_same_supp:
  assumes "modules_ok S h" and "same_supp N h h'"
    and "\<forall>a \<in> set (s_input1 S) \<union> set (s_input2 S) \<union> set (s_output1 S) \<union> set (s_output2 S). a < N"
  shows "modules_ok S h'"
proof -
  have hd: "\<forall>xs \<in> set bus. hd xs < N" if "buses_ok inputs outputs bus" "\<forall>a \<in> set inputs \<union> set outputs. a < N"
    for inputs outputs :: "addr list" and bus
    using that hd_in_set unfolding buses_ok_def by blast
  have "\<forall>xs \<in> set (s_bus1 S). hd xs < N"
    by (rule hd [of "s_input1 S" "s_output1 S"]) (use assms(1,3) in \<open>auto simp: modules_ok_def\<close>)
  moreover have "\<forall>xs \<in> set (s_bus2 S). hd xs < N"
    by (rule hd [of "s_input2 S" "s_output2 S"]) (use assms(1,3) in \<open>auto simp: modules_ok_def\<close>)
  ultimately show ?thesis
    using assms(1,3) unfolding modules_ok_def
    by (auto intro: ports_ok_same_supp [OF _ assms(2)])
qed

lemma assignFuncSupp_ok:
  assumes m: "modules_ok S h" and f: "supports_fit S"
    and N: "\<forall>a \<in> set (s_input1 S) \<union> set (s_input2 S) \<union> set (s_output1 S) \<union> set (s_output2 S). a < N"
  shows "\<exists>h'. assignFuncSupp S h = Inr h' \<and> same_supp N h h'"
proof -
  have "\<exists>g'. rfold (assign_bus_supp (s_input_support1 S) (s_output_support1 S)) (s_bus1 S) h = Inr g' \<and> same_supp N h g'"
  proof (rule bus_loop, intro ballI allI impI)
    fix xs g assume "xs \<in> set (s_bus1 S)" "same_supp N h g"
    then show "\<exists>g'. assign_bus_supp (s_input_support1 S) (s_output_support1 S) xs g = Inr g' \<and> same_supp N g g'"
      using modules_ok_same_supp [OF m _ N] f
      by (intro assign_bus_supp_ok [of "s_input1 S" "s_output1 S" "s_bus1 S"]) (auto simp: modules_ok_def supports_fit_def)
  qed
  then obtain g where g: "rfold (assign_bus_supp (s_input_support1 S) (s_output_support1 S)) (s_bus1 S) h = Inr g"
    "same_supp N h g" by blast
  have "\<exists>g'. rfold (assign_bus_supp (s_input_support2 S) (s_output_support2 S)) (s_bus2 S) g = Inr g' \<and> same_supp N g g'"
  proof (rule bus_loop, intro ballI allI impI)
    fix xs g' assume "xs \<in> set (s_bus2 S)" "same_supp N g g'"
    then show "\<exists>g''. assign_bus_supp (s_input_support2 S) (s_output_support2 S) xs g' = Inr g'' \<and> same_supp N g' g''"
      using modules_ok_same_supp [OF m same_supp_trans [OF g(2)] N] f
      by (intro assign_bus_supp_ok [of "s_input2 S" "s_output2 S" "s_bus2 S"]) (auto simp: modules_ok_def supports_fit_def)
  qed
  then show ?thesis using g same_supp_trans [OF g(2)] by (auto simp: assignFuncSupp_def)
qed

text \<open>The support matrix.\<close>

definition support_row :: "(addr \<Rightarrow> node) \<Rightarrow> nat \<Rightarrow> addr list \<Rightarrow> bool list" where
  "support_row h n supp = map (\<lambda>j. \<exists>a \<in> set supp. n_idx (h a) = int j) [0..<n]"

lemma mark_row:
  assumes "\<forall>a \<in> set supp. 0 \<le> n_idx (h a) \<and> n_idx (h a) < int n" and "i < length m" and "length (m ! i) = n"
  shows "rfold (\<lambda>a m. rbind (vset (m ! i) (n_idx (h a)) True) (\<lambda>row. Inr (m[i := row]))) supp m =
    Inr (m[i := map (\<lambda>j. m ! i ! j \<or> (\<exists>a \<in> set supp. n_idx (h a) = int j)) [0..<n]])"
  using assms
proof (induction supp arbitrary: m)
  case Nil
  then have "map (\<lambda>j. m ! i ! j) [0..<n] = m ! i" by (auto intro: nth_equalityI)
  then show ?case by simp
next
  case (Cons a supp)
  let ?k = "nat (n_idx (h a))"
  have r: "in_range (m ! i) (n_idx (h a))" using Cons.prems by (simp add: in_range_def)
  have "(m ! i)[?k := True] ! j \<longleftrightarrow> m ! i ! j \<or> n_idx (h a) = int j" if "j < n" for j
    using that Cons.prems by (auto simp: nth_list_update)
  then show ?case
    using r Cons.prems Cons.IH [of "m[i := (m ! i)[?k := True]]"]
    by (auto intro!: arg_cong [where f = "list_update m i"])
qed

lemma genPIinPO_ok:
  assumes len: "length (s_output_support1 S) = length (s_output1 S)"
    and idx: "\<forall>supp \<in> set (s_output_support1 S). \<forall>a \<in> set supp.
      0 \<le> n_idx (h a) \<and> n_idx (h a) < int (length (s_input1 S))"
  shows "genPIinPO S h = Inr (map (support_row h (length (s_input1 S))) (s_output_support1 S))"
proof -
  let ?n = "length (s_input1 S)" and ?m = "length (s_output1 S)" and ?supp = "s_output_support1 S"
  let ?f = "\<lambda>i m. rbind (vget ?supp (int i)) (\<lambda>supp.
         rfold (\<lambda>a m. rbind (vset (m ! i) (n_idx (h a)) True) (\<lambda>row. Inr (m[i := row]))) supp m)"
  have "rfold ?f [0..<k] (replicate ?m (replicate ?n False)) =
      Inr (map (\<lambda>i. if i < k then support_row h ?n (?supp ! i) else replicate ?n False) [0..<?m])" if "k \<le> ?m" for k
    using that
  proof (induction k)
    case 0
    then show ?case by (simp add: map_replicate_const)
  next
    case (Suc k)
    let ?M = "map (\<lambda>i. if i < k then support_row h ?n (?supp ! i) else replicate ?n False) [0..<?m]"
    have "?f k ?M = Inr (?M[k := map (\<lambda>j. ?M ! k ! j \<or> (\<exists>a \<in> set (?supp ! k). n_idx (h a) = int j)) [0..<?n]])"
    proof -
      have "?supp ! k \<in> set ?supp" using Suc.prems len by simp
      with idx have "\<forall>a \<in> set (?supp ! k). 0 \<le> n_idx (h a) \<and> n_idx (h a) < int ?n" by blast
      moreover have "length (?M ! k) = ?n" using Suc.prems by simp
      ultimately show ?thesis using Suc.prems len mark_row [of "?supp ! k" h ?n k ?M] by simp
    qed
    also have "map (\<lambda>j. ?M ! k ! j \<or> (\<exists>a \<in> set (?supp ! k). n_idx (h a) = int j)) [0..<?n] = support_row h ?n (?supp ! k)"
      using Suc.prems by (simp add: support_row_def)
    also have "?M[k := support_row h ?n (?supp ! k)] =
        map (\<lambda>i. if i < Suc k then support_row h ?n (?supp ! i) else replicate ?n False) [0..<?m]"
      using Suc.prems by (auto intro!: nth_equalityI simp: nth_list_update less_Suc_eq)
    finally show ?case using Suc by (simp add: rfold_append)
  qed
  from this [of ?m] show ?thesis
    by (simp add: genPIinPO_def) (auto intro!: nth_equalityI simp: len)
qed

text \<open>Candidates of the outputs.\<close>

lemma pick_cands_ok:
  assumes "\<forall>a \<in> set xs. test a = Inr (P a)"
  shows "pick_cands test xs = Inr (filter P xs)"
proof -
  have "rfold (\<lambda>a cs. rbind (test a) (\<lambda>ok. Inr (if ok then cs @ [a] else cs))) xs cs = Inr (cs @ filter P xs)" for cs
    using assms by (induction xs arbitrary: cs) auto
  then show ?thesis by (simp add: pick_cands_def)
qed

lemma read_keys_ok:
  assumes "\<forall>a \<in> set xs. key a = Inr (k a)"
  shows "\<exists>k'. read_keys key xs = Inr k' \<and> (\<forall>a \<in> set xs. k' a = k a)"
proof -
  have "\<exists>k'. rfold (\<lambda>a k. rbind (key a) (\<lambda>v. Inr (k(a := v)))) xs k0 = Inr k' \<and>
      (\<forall>a. k' a = (if a \<in> set xs then k a else k0 a))" for k0
    using assms
  proof (induction xs arbitrary: k0)
    case Nil
    then show ?case by simp
  next
    case (Cons a xs)
    have "\<forall>a \<in> set xs. key a = Inr (k a)" using Cons.prems by simp
    from Cons.IH [OF this, of "k0(a := k a)"]
    obtain k' where k': "rfold (\<lambda>a k. rbind (key a) (\<lambda>v. Inr (k(a := v)))) xs (k0(a := k a)) = Inr k'"
      "\<forall>x. k' x = (if x \<in> set xs then k x else (k0(a := k a)) x)"
      by blast
    show ?case
    proof (intro exI conjI)
      show "rfold (\<lambda>a k. rbind (key a) (\<lambda>v. Inr (k(a := v)))) (a # xs) k0 = Inr k'"
        using k'(1) Cons.prems by simp
      show "\<forall>x. k' x = (if x \<in> set (a # xs) then k x else k0 x)"
        using k'(2) by simp
    qed
  qed
  then show ?thesis unfolding read_keys_def by (metis (no_types, lifting))
qed

lemma ins_by_cong:
  "(\<And>y. y \<in> set ys \<Longrightarrow> lt x y = lt' x y) \<Longrightarrow> ins_by lt x ys = ins_by lt' x ys"
  by (induction ys) auto

lemma std_sort_cong:
  assumes "\<And>x y. x \<in> set xs \<Longrightarrow> y \<in> set xs \<Longrightarrow> lt x y = lt' x y"
  shows "std_sort lt xs = std_sort lt' xs"
proof -
  have "fold (ins_by lt) ys acc = fold (ins_by lt') ys acc" if "set ys \<subseteq> set xs" "set acc \<subseteq> set xs" for ys acc
    using that
  proof (induction ys arbitrary: acc)
    case Nil
    then show ?case by simp
  next
    case (Cons y ys)
    have "ins_by lt y acc = ins_by lt' y acc"
      using Cons.prems assms by (intro ins_by_cong) auto
    moreover have "set (ins_by lt' y acc) = insert y (set acc)"
      by (metis mset_ins_by set_mset_add_mset_insert set_mset_mset)
    ultimately show ?case using Cons by simp
  qed
  then show ?thesis by (simp add: std_sort_def)
qed

lemma sort_key_res_ok:
  assumes "\<forall>a \<in> set xs. key a = Inr (k a)"
  shows "sort_key_res key xs = Inr (std_sort (\<lambda>a b. k a < k b) xs)"
proof (cases "length xs < 2")
  case True
  then have "std_sort (\<lambda>a b. k a < k b) xs = xs"
    by (cases xs; cases "tl xs") (auto simp: std_sort_def)
  with True show ?thesis by (simp add: sort_key_res_def)
next
  case False
  obtain k' where k': "read_keys key xs = Inr k'" "\<forall>a \<in> set xs. k' a = k a"
    using read_keys_ok [OF assms] by blast
  then have "std_sort (\<lambda>a b. k' a < k' b) xs = std_sort (\<lambda>a b. k a < k b) xs"
    by (intro std_sort_cong) simp
  with False k' show ?thesis by (simp add: sort_key_res_def)
qed

definition bsz :: "addr list list \<Rightarrow> int \<Rightarrow> int" where
  "bsz bus b = int (length (bus ! nat b))"

lemma bus_sz_ok [simp]: "in_range bus b \<Longrightarrow> bus_sz bus b = Inr (bsz bus b)"
  by (simp add: bus_sz_def bsz_def)

text \<open>What makes an output of circuit 1 a candidate.\<close>

definition output_fit :: "match_data \<Rightarrow> (addr \<Rightarrow> node) \<Rightarrow> addr \<Rightarrow> addr \<Rightarrow> bool" where
  "output_fit S h o2 o1 \<longleftrightarrow>
     (outputSizeEq S \<longrightarrow> bsz (s_bus2 S) (n_bus_idx (h o2)) = bsz (s_bus1 S) (n_bus_idx (h o1))) \<and>
     (if inputSizeEq S then n_supportVal (h o2) = n_supportVal (h o1)
      else n_supportVal (h o1) \<le> n_supportVal (h o2) \<and> n_supportVal (h o2) - n_supportVal (h o1) \<le> inputDiff S \<and>
           n_bit_idx (h o1) \<le> n_bit_idx (h o2))"

lemma output_fits_ok:
  "in_range (s_bus2 S) (n_bus_idx (h o2)) \<Longrightarrow> in_range (s_bus1 S) (n_bus_idx (h o1)) \<Longrightarrow>
   output_fits S h o2 o1 = Inr (output_fit S h o2 o1)"
  by (auto simp: output_fits_def output_fit_def Let_def)

definition rank_outputs :: "match_data \<Rightarrow> (addr \<Rightarrow> node) \<Rightarrow> addr \<Rightarrow> addr list \<Rightarrow> addr list" where
  "rank_outputs S h o2 cs =
     std_sort (\<lambda>a b. n_supportVal (h a) > n_supportVal (h b))
       (std_sort (\<lambda>a b. \<bar>bsz (s_bus2 S) (n_bus_idx (h o2)) - bsz (s_bus2 S) (n_bus_idx (h a))\<bar> <
                       \<bar>bsz (s_bus2 S) (n_bus_idx (h o2)) - bsz (s_bus2 S) (n_bus_idx (h b))\<bar>) cs)"

definition output_cand_list :: "match_data \<Rightarrow> (addr \<Rightarrow> node) \<Rightarrow> addr \<Rightarrow> addr list" where
  "output_cand_list S h o2 =
     (if s_initOn S \<and> s_init_output S ! nat (n_idx (h o2)) \<noteq> [] then s_init_output S ! nat (n_idx (h o2))
      else rank_outputs S h o2 (filter (output_fit S h o2) (s_output1 S)))"

lemma port_bus_range:
  "ports_ok h t ports bus \<Longrightarrow> a \<in> set ports \<Longrightarrow> in_range bus (n_bus_idx (h a))"
  by (auto simp: ports_ok_def)

lemma port_idx:
  assumes "ports_ok h t ports bus" and "a \<in> set ports"
  shows "in_range ports (n_idx (h a))" "ports ! nat (n_idx (h a)) = a" "n_type (h a) = t"
proof -
  obtain k where "k < length ports" "ports ! k = a" using assms(2) by (auto simp: in_set_conv_nth)
  then show "in_range ports (n_idx (h a))" "ports ! nat (n_idx (h a)) = a" "n_type (h a) = t"
    using assms(1) by (auto simp: ports_ok_def)
qed

lemma output_cands_ok:
  assumes m: "modules_ok S h" and u: "length (s_bus1 S) \<le> length (s_bus2 S)"
    and i: "length (s_init_output S) = length (s_output2 S)" and o2: "o2 \<in> set (s_output2 S)"
  shows "output_cands S h o2 = Inr (output_cand_list S h o2)"
proof -
  have r2: "in_range (s_bus2 S) (n_bus_idx (h o2))" and r1: "\<forall>a \<in> set (s_output1 S). in_range (s_bus1 S) (n_bus_idx (h a))"
    using m o2 port_bus_range by (auto simp: modules_ok_def)
  have r12: "\<forall>a \<in> set (s_output1 S). in_range (s_bus2 S) (n_bus_idx (h a))"
    using r1 u by (auto simp: in_range_def)
  have "in_range (s_init_output S) (n_idx (h o2))"
    using m o2 i port_idx(1) by (auto simp: modules_ok_def in_range_def)
  moreover have "pick_cands (output_fits S h o2) (s_output1 S) = Inr (filter (output_fit S h o2) (s_output1 S))"
    using r1 r2 by (intro pick_cands_ok) (simp add: output_fits_ok)
  moreover have "sort_key_res (\<lambda>a. rbind (bus_sz (s_bus2 S) (n_bus_idx (h a))) (\<lambda>k. Inr \<bar>c - k\<bar>)) xs =
      Inr (std_sort (\<lambda>a b. \<bar>c - bsz (s_bus2 S) (n_bus_idx (h a))\<bar> < \<bar>c - bsz (s_bus2 S) (n_bus_idx (h b))\<bar>) xs)"
    if "set xs \<subseteq> set (s_output1 S)" for c xs
    using r12 that by (intro sort_key_res_ok) auto
  ultimately show ?thesis
    using r2 by (auto simp: output_cands_def output_cand_list_def rank_outputs_def)
qed

lemma output_cand_list_sub:
  assumes m: "modules_ok S h" and i: "init_fits S h'" and o2: "o2 \<in> set (s_output2 S)"
  shows "set (output_cand_list S h o2) \<subseteq> set (s_output1 S)"
proof -
  have "in_range (s_init_output S) (n_idx (h o2))"
    using m o2 i port_idx(1) by (auto simp: modules_ok_def in_range_def init_fits_def)
  then have "s_init_output S ! nat (n_idx (h o2)) \<in> set (s_init_output S)" by (rule nth_in_range)
  then show ?thesis
    using i by (auto simp: output_cand_list_def rank_outputs_def init_fits_def)
qed

text \<open>The loop that appends candidates at the index of the port.\<close>

lemma indexed_loop:
  assumes "\<forall>k < length ports. n_idx (h (ports ! k)) = int k" and "\<forall>a \<in> set ports. f a = Inr (g a)"
  shows "rfold (\<lambda>a cand. rbind (f a) (\<lambda>cs. rbind (vget cand (n_idx (h a))) (\<lambda>old. vset cand (n_idx (h a)) (old @ cs))))
     ports (replicate (length ports) []) = Inr (map g ports)"
proof -
  let ?f = "\<lambda>a cand. rbind (f a) (\<lambda>cs. rbind (vget cand (n_idx (h a))) (\<lambda>old. vset cand (n_idx (h a)) (old @ cs)))"
  have "rfold ?f (take k ports) (replicate (length ports) []) =
      Inr (map g (take k ports) @ replicate (length ports - k) [])" if "k \<le> length ports" for k
    using that
  proof (induction k)
    case 0
    then show ?case by simp
  next
    case (Suc k)
    then have k: "k < length ports" by simp
    have rep: "replicate (length ports - k) [] = [] # replicate (length ports - Suc k) []"
      using k by (simp add: Suc_diff_Suc [symmetric])
    have "?f (ports ! k) (map g (take k ports) @ [] # replicate (length ports - Suc k) []) =
        Inr (map g (take k ports) @ g (ports ! k) # replicate (length ports - Suc k) [])"
      using assms k by (simp add: in_range_def nth_append list_update_append)
    then show ?case
      using Suc k unfolding rep by (simp add: take_Suc_conv_app_nth rfold_append)
  qed
  from this [of "length ports"] show ?thesis by simp
qed

lemma genOutputMatch_ok:
  assumes m: "modules_ok S h" and u: "length (s_bus1 S) \<le> length (s_bus2 S)"
    and i: "length (s_init_output S) = length (s_output2 S)"
  shows "genOutputMatch S h = Inr (map (output_cand_list S h) (s_output2 S),
     std_sort (output_before S h (map (output_cand_list S h) (s_output2 S))) (s_output2 S))"
proof -
  have "\<forall>k < length (s_output2 S). n_idx (h (s_output2 S ! k)) = int k"
    using m by (simp add: modules_ok_def ports_ok_def)
  then show ?thesis
    using output_cands_ok [OF m u i]
    by (simp add: genOutputMatch_def indexed_loop [where f = "output_cands S h" and g = "output_cand_list S h"])
qed

text \<open>Candidates of the inputs.\<close>

definition input_fit :: "match_data \<Rightarrow> (addr \<Rightarrow> node) \<Rightarrow> addr \<Rightarrow> addr \<Rightarrow> bool" where
  "input_fit S h i2 i1 \<longleftrightarrow>
     (let k2 = bsz (s_bus2 S) (n_bus_idx (h i2)); k1 = bsz (s_bus1 S) (n_bus_idx (h i1));
          bs2 = n_bus_indices (h i2); bs1 = n_bus_indices (h i1)
      in if inputSizeEq S then k2 = k1 \<and> (outputSizeEq S \<longrightarrow> n_supportVal (h i2) = n_supportVal (h i1))
         else if length bs2 > 1 then
           length bs1 = length bs2 \<and> (\<forall>k < length bs2. bsz (s_bus1 S) (bs1 ! k) \<le> bsz (s_bus2 S) (bs2 ! k))
         else k1 \<le> k2 \<and> k2 - k1 \<le> inputDiff S \<and> n_bit_idx (h i1) \<le> n_bit_idx (h i2) \<and>
           (n_bus_idx (h i2) < s_bus_size S \<longrightarrow> k1 \<in> set (s_bus_match_idx S k2)))"

lemma multi_fits_ok:
  assumes "length bs1 = length bs2" and "\<forall>b \<in> set bs2. in_range (s_bus2 S) b" and "\<forall>b \<in> set bs1. in_range (s_bus1 S) b"
  shows "multi_fits S bs2 bs1 = Inr (\<forall>k < length bs2. bsz (s_bus1 S) (bs1 ! k) \<le> bsz (s_bus2 S) (bs2 ! k))"
  using assms
proof (induction bs2 arbitrary: bs1)
  case Nil
  then show ?case by simp
next
  case (Cons b2 bs2)
  then obtain b1 bs where b: "bs1 = b1 # bs" by (cases bs1) auto
  have "vget (b1 # bs) 0 = Inr b1" by (simp add: vget_def in_range_def)
  then show ?case
    using Cons b by (auto simp: All_less_Suc2)
qed

lemma input_fits_ok:
  assumes m: "modules_ok S h" and i2: "i2 \<in> set (s_input2 S)" and i1: "i1 \<in> set (s_input1 S)"
  shows "input_fits S h i2 i1 = Inr (input_fit S h i2 i1)"
proof -
  have r: "in_range (s_bus2 S) (n_bus_idx (h i2))" "in_range (s_bus1 S) (n_bus_idx (h i1))"
    using m i1 i2 port_bus_range by (auto simp: modules_ok_def)
  have "\<forall>b \<in> set (n_bus_indices (h i2)). in_range (s_bus2 S) b" "\<forall>b \<in> set (n_bus_indices (h i1)). in_range (s_bus1 S) b"
    using m i1 i2 by (auto simp: modules_ok_def ports_ok_def)
  then have "length (n_bus_indices (h i1)) = length (n_bus_indices (h i2)) \<Longrightarrow>
      multi_fits S (n_bus_indices (h i2)) (n_bus_indices (h i1)) =
      Inr (\<forall>k < length (n_bus_indices (h i2)).
        bsz (s_bus1 S) (n_bus_indices (h i1) ! k) \<le> bsz (s_bus2 S) (n_bus_indices (h i2) ! k))"
    by (intro multi_fits_ok) simp_all
  with r show ?thesis by (simp add: input_fits_def input_fit_def Let_def)
qed

definition rank_inputs :: "match_data \<Rightarrow> (addr \<Rightarrow> node) \<Rightarrow> addr \<Rightarrow> addr list \<Rightarrow> addr list" where
  "rank_inputs S h i2 cs =
     (let busd = (\<lambda>a. \<bar>bsz (s_bus2 S) (n_bus_idx (h i2)) - bsz (s_bus1 S) (n_bus_idx (h a))\<bar>);
          sigd = (\<lambda>a. \<bar>m_input_sig (s_mod2 S) ! nat (n_idx (h i2)) - m_input_sig (s_mod1 S) ! nat (n_idx (h a))\<bar>);
          suppd = (\<lambda>a. \<bar>n_supportVal (h i2) - n_supportVal (h a)\<bar>)
      in std_sort (\<lambda>a b. suppd a < suppd b) (std_sort (\<lambda>a b. sigd a < sigd b) (std_sort (\<lambda>a b. busd a < busd b) cs)))"

definition input_cand_list :: "match_data \<Rightarrow> (addr \<Rightarrow> node) \<Rightarrow> addr \<Rightarrow> addr list" where
  "input_cand_list S h i2 = rank_inputs S h i2 (filter (input_fit S h i2) (s_input1 S))"

definition initial_partner :: "match_data \<Rightarrow> (addr \<Rightarrow> node) \<Rightarrow> addr \<Rightarrow> addr option" where
  "initial_partner S h i2 = (if s_initOn S then s_init_input S ! nat (n_idx (h i2)) else None)"

lemma set_input_cand_list [simp]:
  "set (input_cand_list S h i2) = {i1 \<in> set (s_input1 S). input_fit S h i2 i1}"
  by (auto simp: input_cand_list_def rank_inputs_def Let_def)

lemma input_cands_ok:
  assumes m: "modules_ok S (heap st)" and i: "length (s_init_input S) = length (s_input2 S)" and i2: "i2 \<in> set (s_input2 S)"
  shows "input_cands S i2 st = Inr (case initial_partner S (heap st) i2 of
      Some a \<Rightarrow> ([a], st)
    | None \<Rightarrow> (input_cand_list S (heap st) i2 @ [fst (const_node st)], snd (const_node st)))"
proof -
  let ?h = "heap st"
  have r2: "in_range (s_bus2 S) (n_bus_idx (?h i2))" "in_range (s_init_input S) (n_idx (?h i2))"
    "in_range (m_input_sig (s_mod2 S)) (n_idx (?h i2))"
    using m i i2 port_bus_range port_idx(1) by (auto simp: modules_ok_def in_range_def)
  have r1: "in_range (s_bus1 S) (n_bus_idx (?h a))" "in_range (m_input_sig (s_mod1 S)) (n_idx (?h a))"
    if "a \<in> set (s_input1 S)" for a
    using m that port_bus_range port_idx(1) by (auto simp: modules_ok_def in_range_def)
  have "pick_cands (input_fits S ?h i2) (s_input1 S) = Inr (filter (input_fit S ?h i2) (s_input1 S))"
    using input_fits_ok [OF m i2] by (intro pick_cands_ok) simp
  moreover have "sort_key_res (\<lambda>a. rbind (bus_sz (s_bus1 S) (n_bus_idx (?h a))) (\<lambda>k. Inr \<bar>c - k\<bar>)) xs =
      Inr (std_sort (\<lambda>a b. \<bar>c - bsz (s_bus1 S) (n_bus_idx (?h a))\<bar> < \<bar>c - bsz (s_bus1 S) (n_bus_idx (?h b))\<bar>) xs)"
    if "set xs \<subseteq> set (s_input1 S)" for c xs
    using r1 that by (intro sort_key_res_ok) auto
  moreover have "sort_key_res (input_sig_diff S ?h i2) xs = Inr (std_sort (\<lambda>a b.
      \<bar>m_input_sig (s_mod2 S) ! nat (n_idx (?h i2)) - m_input_sig (s_mod1 S) ! nat (n_idx (?h a))\<bar> <
      \<bar>m_input_sig (s_mod2 S) ! nat (n_idx (?h i2)) - m_input_sig (s_mod1 S) ! nat (n_idx (?h b))\<bar>) xs)"
    if "set xs \<subseteq> set (s_input1 S)" for xs
    using r1 r2 that by (intro sort_key_res_ok) (auto simp: input_sig_diff_def)
  ultimately show ?thesis
    using r2 by (auto simp: input_cands_def initial_partner_def input_cand_list_def rank_inputs_def Let_def
        split: option.splits prod.splits)
qed

text \<open>New nodes are put behind the old ones.\<close>

definition grown :: "store \<Rightarrow> store \<Rightarrow> bool" where
  "grown st st' \<longleftrightarrow> next_addr st \<le> next_addr st' \<and> (\<forall>a < next_addr st. heap st' a = heap st a)"

lemma grown_refl [simp]: "grown st st"
  by (simp add: grown_def)

lemma grown_trans: "grown s t \<Longrightarrow> grown t u \<Longrightarrow> grown s u"
  by (auto simp: grown_def)

lemma const_node_grown: "grown st (snd (const_node st))"
  by (simp add: const_node_def new_node_def grown_def upd_apply)

lemma const_node_fields:
  "fst (const_node st) = next_addr st" "next_addr (snd (const_node st)) = Suc (next_addr st)"
  "n_type (heap (snd (const_node st)) (next_addr st)) = CONSTANT"
  "n_idx (heap (snd (const_node st)) (next_addr st)) = CONST_VAL"
  by (simp_all add: const_node_def new_node_def mk_node_def)

text \<open>A candidate of input \<open>i2\<close>, seen from the final heap.\<close>

definition cand_ok :: "match_data \<Rightarrow> store \<Rightarrow> addr \<Rightarrow> addr \<Rightarrow> bool" where
  "cand_ok S st i2 a \<longleftrightarrow> a \<in> set (s_input1 S) \<and> partner_ok (heap st) i2 a \<or>
     a < next_addr st \<and> n_type (heap st a) = CONSTANT \<and> n_idx (heap st a) = CONST_VAL"

lemma cand_ok_grown:
  assumes "cand_ok S st i2 a" and "grown st st'" and "\<forall>x \<in> set (s_input1 S) \<union> {i2}. x < next_addr st"
  shows "cand_ok S st' i2 a"
  using assms by (auto simp: cand_ok_def grown_def partner_ok_def)

lemma modules_ok_grown:
  assumes "modules_ok S (heap st)" and "grown st st'"
    and "\<forall>a \<in> set (s_input1 S) \<union> set (s_input2 S) \<union> set (s_output1 S) \<union> set (s_output2 S). a < next_addr st"
  shows "modules_ok S (heap st')"
proof (rule modules_ok_same_supp [OF assms(1) _ assms(3)])
  have "\<exists>v. heap st' a = (heap st a)\<lparr>n_supportVal := v\<rparr>" if "a < next_addr st" for a
    using that assms(2) by (intro exI [of _ "n_supportVal (heap st a)"]) (simp add: grown_def)
  then show "same_supp (next_addr st) (heap st) (heap st')" by (simp add: same_supp_def)
qed

text \<open>The candidates of one input are good, and nodes are only added.\<close>

lemma input_cands_good:
  assumes m: "modules_ok S (heap st)" and i: "init_fits S (heap st)" and u: "unchecked_ok S (heap st)"
    and i2: "i2 \<in> set (s_input2 S)" and N: "\<forall>a \<in> set (s_input1 S) \<union> {i2}. a < next_addr st"
  shows "\<exists>cs st'. input_cands S i2 st = Inr (cs, st') \<and> grown st st' \<and> (\<forall>a \<in> set cs. cand_ok S st' i2 a)"
proof (cases "initial_partner S (heap st) i2")
  case None
  let ?cs = "input_cand_list S (heap st) i2" and ?st = "snd (const_node st)"
  have "cand_ok S ?st i2 a" if "a \<in> set ?cs" for a
  proof -
    have a: "a \<in> set (s_input1 S)" "input_fit S (heap st) i2 a" using that by simp_all
    have "partner_ok (heap st) i2 a"
    proof (cases "inputSizeEq S")
      case True
      then show ?thesis using u i2 a(1) by (simp add: unchecked_ok_def)
    next
      case False
      then show ?thesis using a(2) by (auto simp: input_fit_def partner_ok_def Let_def)
    qed
    with a(1) have "cand_ok S st i2 a" by (simp add: cand_ok_def)
    then show ?thesis using const_node_grown N by (rule cand_ok_grown)
  qed
  moreover have "cand_ok S ?st i2 (fst (const_node st))"
    by (simp add: cand_ok_def const_node_fields)
  ultimately show ?thesis
    using input_cands_ok [OF m _ i2] i None const_node_grown by (auto simp: init_fits_def)
next
  case (Some a)
  then have init: "s_init_input S ! nat (n_idx (heap st i2)) = Some a"
    by (simp add: initial_partner_def split: if_splits)
  have "in_range (s_input2 S) (n_idx (heap st i2))" "s_input2 S ! nat (n_idx (heap st i2)) = i2"
    using m i2 port_idx by (auto simp: modules_ok_def)
  then have "a \<in> set (s_input1 S) \<and> partner_ok (heap st) i2 a"
    using i init in_rangeD unfolding init_fits_def by metis
  then show ?thesis
    using input_cands_ok [OF m _ i2] i Some by (auto simp: init_fits_def cand_ok_def)
qed

definition icand_inv :: "match_data \<Rightarrow> store \<Rightarrow> addr list list \<times> store \<Rightarrow> bool" where
  "icand_inv S st0 = (\<lambda>(cand, st). grown st0 st \<and> length cand = length (s_input2 S) \<and>
     (\<forall>k < length cand. \<forall>a \<in> set (cand ! k). cand_ok S st (s_input2 S ! k) a))"

lemma init_fits_grown:
  assumes "init_fits S (heap st)" and "grown st st'"
    and "\<forall>a \<in> set (s_input1 S) \<union> set (s_input2 S). a < next_addr st"
  shows "init_fits S (heap st')"
  using assms by (simp add: init_fits_def grown_def partner_ok_def)

lemma unchecked_ok_grown:
  assumes "unchecked_ok S (heap st)" and "grown st st'"
    and "\<forall>a \<in> set (s_input1 S) \<union> set (s_input2 S). a < next_addr st"
  shows "unchecked_ok S (heap st')"
  using assms by (simp add: unchecked_ok_def grown_def partner_ok_def)

lemma genInputMatch_ok:
  assumes m: "modules_ok S (heap st)" and i: "init_fits S (heap st)" and u: "unchecked_ok S (heap st)"
    and N: "\<forall>a \<in> set (s_input1 S) \<union> set (s_input2 S) \<union> set (s_output1 S) \<union> set (s_output2 S). a < next_addr st"
  shows "\<exists>cand st'. genInputMatch S st = Inr (cand, st') \<and> icand_inv S st (cand, st')"
proof -
  let ?f = "\<lambda>c2_input (cand, st). rbind (input_cands S c2_input st) (\<lambda>(cs, st).
         rbind (vget cand (n_idx (heap st c2_input))) (\<lambda>old.
         rbind (vset cand (n_idx (heap st c2_input)) (old @ cs)) (\<lambda>cand. Inr (cand, st))))"
  have N': "\<forall>a \<in> set (s_input1 S) \<union> set (s_input2 S). a < next_addr st" using N by blast
  have "\<exists>t. rfold ?f (s_input2 S) (replicate (length (s_input2 S)) [], st) = Inr t \<and> icand_inv S st t"
  proof (rule rfold_total)
    show "icand_inv S st (replicate (length (s_input2 S)) [], st)" by (simp add: icand_inv_def)
  next
    fix i2 c assume i2: "i2 \<in> set (s_input2 S)" and inv: "icand_inv S st c"
    obtain cand s where c: "c = (cand, s)" by (cases c)
    with inv have g: "grown st s" and len: "length cand = length (s_input2 S)"
      and good: "\<forall>k < length cand. \<forall>a \<in> set (cand ! k). cand_ok S s (s_input2 S ! k) a"
      by (simp_all add: icand_inv_def)
    have Ns: "a < next_addr s" if "a \<in> set (s_input1 S) \<union> set (s_input2 S)" for a
      using N' that g less_le_trans unfolding grown_def by blast
    have ms: "modules_ok S (heap s)" by (rule modules_ok_grown [OF m g N])
    obtain cs s' where cs: "input_cands S i2 s = Inr (cs, s')" "grown s s'" "\<forall>a \<in> set cs. cand_ok S s' i2 a"
      using input_cands_good [OF ms init_fits_grown [OF i g N'] unchecked_ok_grown [OF u g N'] i2] Ns i2 by auto
    have k: "in_range cand (n_idx (heap s' i2))" "s_input2 S ! nat (n_idx (heap s' i2)) = i2"
      using port_idx [of "heap s" INPUT "s_input2 S" "s_bus2 S" i2] ms i2 cs(2) Ns [of i2] len
      by (auto simp: modules_ok_def grown_def in_range_def)
    let ?k = "nat (n_idx (heap s' i2))"
    have "cand_ok S s' (s_input2 S ! j) a" if "j < length cand" "a \<in> set (cand[?k := cand ! ?k @ cs] ! j)" for j a
    proof -
      have old: "cand_ok S s' (s_input2 S ! j) a" if "a \<in> set (cand ! j)"
        using good that \<open>j < length cand\<close> len Ns by (intro cand_ok_grown [OF _ cs(2)]) auto
      show ?thesis
      proof (cases "j = ?k")
        case True
        then have "a \<in> set (cand ! j) \<or> a \<in> set cs" using that k(1) by (auto simp: in_range_def)
        then show ?thesis using old cs(3) k(2) True by auto
      next
        case False
        then show ?thesis using old that by simp
      qed
    qed
    then have "icand_inv S st (cand[?k := cand ! ?k @ cs], s')"
      using grown_trans [OF g cs(2)] len by (simp add: icand_inv_def)
    then show "\<exists>v. ?f i2 c = Inr v \<and> icand_inv S st v" using c cs(1) k(1) by simp
  qed
  then show ?thesis by (auto simp: genInputMatch_def)
qed

end
