(* ===== verification/Match_Start.thy ===== *)
theory Match_Start
  imports Match_Ready
begin

text \<open>
  \<open>prepare_match\<close> as a whole: the phases compose, and the context they build is one the search is
  proved correct for. Hence \<open>new_boolean_match\<close> returns a right answer on parsed circuits.
\<close>

section \<open>Orders and bus sets\<close>

lemma sort_supports_ok:
  assumes idx: "\<forall>k < length outs. n_idx (h (outs ! k)) = int k" and len: "length supp = length outs"
    and r: "\<forall>xs \<in> set supp. list_all readable xs"
  shows "sort_supports srt lt readable h outs supp = Inr (map (srt lt) supp)"
proof -
  let ?f = "\<lambda>out supp. rbind (vget supp (n_idx (h out))) (\<lambda>xs.
       rbind (require (length xs < 2 \<or> list_all readable xs) Bad_Index) (\<lambda>_. vset supp (n_idx (h out)) (srt lt xs)))"
  have "rfold ?f (take k outs) supp = Inr (map (srt lt) (take k supp) @ drop k supp)" if "k \<le> length outs" for k
    using that
  proof (induction k)
    case 0
    then show ?case by simp
  next
    case (Suc k)
    then have k: "k < length outs" by simp
    have d: "drop k supp = supp ! k # drop (Suc k) supp" using k len by (simp add: Cons_nth_drop_Suc)
    have "list_all readable (supp ! k)" using r k len by simp
    then have "?f (outs ! k) (map (srt lt) (take k supp) @ supp ! k # drop (Suc k) supp) =
        Inr (map (srt lt) (take k supp) @ srt lt (supp ! k) # drop (Suc k) supp)"
      using idx k len by (simp add: in_range_def nth_append list_update_append min_def)
    then show ?case
      using Suc k len unfolding d by (simp add: take_Suc_conv_app_nth rfold_append)
  qed
  from this [of "length outs"] show ?thesis by (simp add: sort_supports_def len)
qed

lemma assign_output_to_inputBus_ok:
  assumes "length (s_output_support2 S) = length (s_output2 S)"
  shows "assign_output_to_inputBus S h =
    Inr (map (\<lambda>supp. Unique (concat (map (\<lambda>a. n_bus_indices (h a)) supp))) (s_output_support2 S))"
proof -
  let ?g = "\<lambda>supp. Unique (concat (map (\<lambda>a. n_bus_indices (h a)) supp))"
  have "rfold (\<lambda>i m. rbind (vget (s_output_support2 S) (int i)) (\<lambda>supp. Inr (m @ [?g supp]))) [0..<k] [] =
      Inr (map ?g (take k (s_output_support2 S)))" if "k \<le> length (s_output2 S)" for k
    using that assms by (induction k) (simp_all add: rfold_append take_Suc_conv_app_nth)
  from this [of "length (s_output2 S)"] show ?thesis
    using assms by (simp add: assign_output_to_inputBus_def)
qed

section \<open>The context\<close>

text \<open>The context \<open>prepare_match\<close> builds from heap \<open>h\<close>, with the supports in the order of \<open>genInfo\<close>.\<close>

definition ready_ctx :: "match_data \<Rightarrow> (addr \<Rightarrow> node) \<Rightarrow> (addr \<Rightarrow> node) \<Rightarrow> addr list list \<Rightarrow> ctx" where
  "ready_ctx S h1 h icand =
     (let ocand = map (output_cand_list S h1) (s_output2 S);
          S' = S\<lparr>s_output_support1 := map (s_sort S (support_before1 S h)) (s_output_support1 S),
                 s_output_support2 := map (s_sort S (support_before2 S h icand)) (s_output_support2 S)\<rparr>
      in search_ctx S' h (std_sort (output_before S h1 ocand) (s_output2 S)) ocand icand
           (map (\<lambda>supp. Unique (concat (map (\<lambda>a. n_bus_indices (h a)) supp))) (s_output_support2 S'))
           (map (support_row h1 (length (s_input1 S))) (s_output_support1 S)))"

lemma genInfo_ok:
  assumes m: "modules_ok S h" and f: "supports_fit S" and len: "length icand = length (s_input2 S)"
  shows "genInfo S h icand = Inr (S\<lparr>s_output_support1 := map (s_sort S (support_before1 S h)) (s_output_support1 S),
     s_output_support2 := map (s_sort S (support_before2 S h icand)) (s_output_support2 S)\<rparr>)"
proof -
  have r2: "list_all (\<lambda>a. in_range icand (n_idx (h a)) \<and> in_range (s_bus2 S) (n_bus_idx (h a))) xs"
    if "xs \<in> set (s_output_support2 S)" for xs
    using that f m len port_idx(1) [of h INPUT "s_input2 S" "s_bus2 S"] port_bus_range [of h INPUT "s_input2 S" "s_bus2 S"]
    by (fastforce simp: supports_fit_def modules_ok_def list_all_iff in_range_def)
  have r1: "list_all (\<lambda>a. in_range (s_bus1 S) (n_bus_idx (h a))) xs" if "xs \<in> set (s_output_support1 S)" for xs
    using that f m port_bus_range [of h INPUT "s_input1 S" "s_bus1 S"]
    by (fastforce simp: supports_fit_def modules_ok_def list_all_iff)
  have i: "\<forall>k < length (s_output1 S). n_idx (h (s_output1 S ! k)) = int k"
    "\<forall>k < length (s_output2 S). n_idx (h (s_output2 S ! k)) = int k"
    using m by (simp_all add: modules_ok_def ports_ok_def)
  show ?thesis
    using f r1 r2 by (simp add: genInfo_def sort_supports_ok [OF i(1)] sort_supports_ok [OF i(2)] supports_fit_def)
qed

lemma prepare_match_runs:
  assumes ok: "data_ok S st"
  shows "\<exists>h1 icand st2. prepare_match S st = Inr (ready_ctx S h1 (heap st2) icand) \<and>
    same_supp (next_addr st) (heap st) h1 \<and> grown (st\<lparr>heap := h1\<rparr>) st2 \<and> icand_inv S (st\<lparr>heap := h1\<rparr>) (icand, st2)"
proof -
  have m: "modules_ok S (heap st)" and f: "supports_fit S" and i: "init_fits S (heap st)" and u: "unchecked_ok S (heap st)"
    using ok by (simp_all add: data_ok_def)
  have N: "\<forall>a \<in> set (s_input1 S) \<union> set (s_input2 S) \<union> set (s_output1 S) \<union> set (s_output2 S). a < next_addr st"
    using ok by (auto simp: data_ok_def circuits_ok_def)
  obtain h1 where h1: "assignFuncSupp S (heap st) = Inr h1" "same_supp (next_addr st) (heap st) h1"
    using assignFuncSupp_ok [OF m f N] by blast
  let ?st = "st\<lparr>heap := h1\<rparr>"
  have m1: "modules_ok S (heap ?st)" using modules_ok_same_supp [OF m h1(2) N] by simp
  have N1: "\<forall>a \<in> set (s_input1 S) \<union> set (s_input2 S) \<union> set (s_output1 S) \<union> set (s_output2 S). a < next_addr ?st"
    using N by simp
  have eq: "n_bus_indices (h1 a) = n_bus_indices (heap st a)" if "a < next_addr st" for a
    using same_supp_fields(4) [OF h1(2) that] .
  have i1: "init_fits S (heap ?st)" and u1: "unchecked_ok S (heap ?st)"
    using i u N eq by (simp_all add: init_fits_def unchecked_ok_def partner_ok_def)
  obtain icand st2 where g: "genInputMatch S ?st = Inr (icand, st2)" "icand_inv S ?st (icand, st2)"
    using genInputMatch_ok [OF m1 i1 u1 N1] by blast
  then have gr: "grown ?st st2" and len: "length icand = length (s_input2 S)" by (simp_all add: icand_inv_def)
  have m2: "modules_ok S (heap st2)" by (rule modules_ok_grown [OF m1 gr N1])
  have "\<forall>supp \<in> set (s_output_support1 S). \<forall>a \<in> set supp. 0 \<le> n_idx (h1 a) \<and> n_idx (h1 a) < int (length (s_input1 S))"
    using f m1 port_idx(1) [of h1 INPUT "s_input1 S" "s_bus1 S"]
    by (fastforce simp: supports_fit_def modules_ok_def in_range_def)
  then have rows: "genPIinPO S h1 = Inr (map (support_row h1 (length (s_input1 S))) (s_output_support1 S))"
    using f by (intro genPIinPO_ok) (simp_all add: supports_fit_def)
  have "prepare_match S st = Inr (ready_ctx S h1 (heap st2) icand)"
    using h1(1) rows g(1) genOutputMatch_ok [of S h1] m1 u i genInfo_ok [OF m2 f len] f
    by (simp add: prepare_match_def ready_ctx_def Let_def unchecked_ok_def init_fits_def
        assign_output_to_inputBus_ok supports_fit_def)
  with h1(2) gr g(2) show ?thesis by blast
qed

text \<open>The fields of the context.\<close>

lemma ready_ctx_fields [simp]:
  "x_caseID (ready_ctx S h1 h ic) = s_caseID S" "x_initOn (ready_ctx S h1 h ic) = s_initOn S"
  "x_input1 (ready_ctx S h1 h ic) = s_input1 S" "x_input2 (ready_ctx S h1 h ic) = s_input2 S"
  "x_output1 (ready_ctx S h1 h ic) = s_output1 S" "x_output2 (ready_ctx S h1 h ic) = s_output2 S"
  "x_output_support1 (ready_ctx S h1 h ic) = map (s_sort S (support_before1 S h)) (s_output_support1 S)"
  "x_output_support2 (ready_ctx S h1 h ic) = map (s_sort S (support_before2 S h ic)) (s_output_support2 S)"
  "x_output_match_cand (ready_ctx S h1 h ic) = map (output_cand_list S h1) (s_output2 S)"
  "x_input_match_cand (ready_ctx S h1 h ic) = ic"
  "x_isPIinPO (ready_ctx S h1 h ic) = map (support_row h1 (length (s_input1 S))) (s_output_support1 S)"
  "x_init_input (ready_ctx S h1 h ic) = s_init_input S" "x_init_input_ne (ready_ctx S h1 h ic) = s_init_input_ne S"
  "x_nodes (ready_ctx S h1 h ic) = h" "x_fuel (ready_ctx S h1 h ic) = s_fuel S" "x_ord (ready_ctx S h1 h ic) = s_ord S"
  "set (x_output_match_order (ready_ctx S h1 h ic)) = set (s_output2 S)"
  "x_output_to_inputBus (ready_ctx S h1 h ic) =
     map (\<lambda>supp. Unique (concat (map (\<lambda>a. n_bus_indices (h a)) supp))) (x_output_support2 (ready_ctx S h1 h ic))"
  by (simp_all add: ready_ctx_def search_ctx_def Let_def)

lemma s_sort_set:
  assumes "circuits_ok S st"
  shows "set (s_sort S lt xs) = set xs" "distinct (s_sort S lt xs) = distinct xs"
    "length (s_sort S lt xs) = length xs"
proof -
  have "mset (s_sort S lt xs) = mset xs" using assms by (simp add: circuits_ok_def)
  then show "set (s_sort S lt xs) = set xs" "distinct (s_sort S lt xs) = distinct xs"
    "length (s_sort S lt xs) = length xs"
    by (metis set_mset_mset, metis mset_eq_imp_distinct_iff, metis size_mset)
qed

text \<open>The buses of a port are in range and of the kind of the port.\<close>

lemma port_bus_kind:
  assumes "ports_ok h t ports bus" and "a \<in> set ports" and "b \<in> set (n_bus_indices (h a)) \<or> b = n_bus_idx (h a)"
  shows "below b (length bus)" "n_type (h (hd (bus ! nat b))) = t"
proof -
  have "b \<in> set (n_bus_indices (h a))" using assms by (auto simp: ports_ok_def)
  then show "below b (length bus)" "n_type (h (hd (bus ! nat b))) = t"
    using assms(1,2) by (auto simp: ports_ok_def below_def in_range_def)
qed

text \<open>The final heap, seen from the heap of the parsers: \<open>N\<close> old nodes, then the constants.\<close>

definition ready_state :: "match_data \<Rightarrow> store \<Rightarrow> (addr \<Rightarrow> node) \<Rightarrow> store \<Rightarrow> addr list list \<Rightarrow> bool" where
  "ready_state S st h1 st2 icand \<longleftrightarrow> data_ok S st \<and> same_supp (next_addr st) (heap st) h1 \<and>
     grown (st\<lparr>heap := h1\<rparr>) st2 \<and> icand_inv S (st\<lparr>heap := h1\<rparr>) (icand, st2)"

lemma old_addr:
  "data_ok S st \<Longrightarrow> a \<in> set (s_input1 S) \<union> set (s_input2 S) \<union> set (s_output1 S) \<union> set (s_output2 S) \<Longrightarrow> a < next_addr st"
  by (auto simp: data_ok_def circuits_ok_def)

lemma ready_heap:
  assumes "ready_state S st h1 st2 icand"
  shows "same_supp (next_addr st) (heap st) (heap st2)" "a < next_addr st \<Longrightarrow> heap st2 a = h1 a"
  using assms by (auto simp: ready_state_def same_supp_def grown_def)

lemma ready_mods:
  assumes "ready_state S st h1 st2 icand"
  shows "modules_ok S (heap st2)" "modules_ok S h1"
proof -
  have ok: "data_ok S st" and h1: "same_supp (next_addr st) (heap st) h1"
    using assms by (simp_all add: ready_state_def)
  then have m: "modules_ok S (heap st)" by (simp add: data_ok_def)
  show "modules_ok S (heap st2)" "modules_ok S h1"
    using modules_ok_same_supp [OF m ready_heap(1) [OF assms]] modules_ok_same_supp [OF m h1] old_addr [OF ok] by blast+
qed

lemma ready_ports:
  assumes "ready_state S st h1 st2 icand"
  shows "ports_ok (heap st2) INPUT (s_input1 S) (s_bus1 S)" "ports_ok (heap st2) INPUT (s_input2 S) (s_bus2 S)"
    "ports_ok (heap st2) OUTPUT (s_output1 S) (s_bus1 S)" "ports_ok (heap st2) OUTPUT (s_output2 S) (s_bus2 S)"
  using ready_mods(1) [OF assms] by (simp_all add: modules_ok_def)

lemma ready_fits:
  assumes "ready_state S st h1 st2 icand"
  shows "supports_fit S" "init_fits S (heap st)" "circuits_ok S st"
  using assms by (simp_all add: ready_state_def data_ok_def)

lemma ready_idx [simp]:
  "idx (ready_ctx S h1 h ic) a = n_idx (h a)" "bus_idx (ready_ctx S h1 h ic) a = n_bus_idx (h a)"
  by (simp_all add: idx_def bus_idx_def)

lemma c2_buses_sub: "b \<in> set (c2_buses (ready_ctx S h1 h ic) a) \<Longrightarrow> b \<in> set (n_bus_indices (h a)) \<or> b = n_bus_idx (h a)"
  by (auto simp: c2_buses_def Let_def split: if_splits)

lemma c1_buses_sub: "b \<in> set (c1_buses (ready_ctx S h1 h ic) a2 a) \<Longrightarrow> b \<in> set (n_bus_indices (h a)) \<or> b = n_bus_idx (h a)"
  by (auto simp: c1_buses_def Let_def split: if_splits dest: in_set_takeD)

lemma ready_input2:
  assumes R: "ready_state S st h1 st2 icand" and "a \<in> set (s_input2 S)"
  shows "input_ok (ready_ctx S h1 (heap st2) icand) (length (s_bus2 S)) a"
  using assms(2) port_idx [OF ready_ports(2) [OF R]] ready_ports(2) [OF R] port_bus_kind(1) [OF ready_ports(2) [OF R]]
    c2_buses_sub
  by (auto simp: input_ok_def) (auto simp: c2_buses_def ports_ok_def Let_def)

lemma ready_input_cands:
  assumes R: "ready_state S st h1 st2 icand" and k: "k < length (s_input2 S)" "a \<in> set (icand ! k)"
  shows "const_cand (ready_ctx S h1 (heap st2) icand) a \<or>
    port_cand (ready_ctx S h1 (heap st2) icand) (length (s_bus1 S)) (s_input2 S ! k) a \<and> a \<in> set (s_input1 S)"
proof -
  let ?X = "ready_ctx S h1 (heap st2) icand" and ?i = "s_input2 S ! k"
  note p = ready_ports(1) [OF R]
  have "cand_ok S st2 ?i a" using R k by (simp add: ready_state_def icand_inv_def)
  then show ?thesis unfolding cand_ok_def
  proof
    assume a: "a \<in> set (s_input1 S) \<and> partner_ok (heap st2) ?i a"
    then have "length (c1_buses ?X ?i a) = length (c2_buses ?X ?i)"
      by (auto simp: c1_buses_def c2_buses_def partner_ok_def Let_def)
    moreover have "distinct (c1_buses ?X ?i a)"
      using p a by (auto simp: c1_buses_def ports_ok_def Let_def)
    ultimately show ?thesis
      using a port_idx [OF p] port_bus_kind(1) [OF p] c1_buses_sub by (auto simp: port_cand_def)
  next
    assume "a < next_addr st2 \<and> n_type (heap st2 a) = CONSTANT \<and> n_idx (heap st2 a) = CONST_VAL"
    then show ?thesis by (simp add: const_cand_def)
  qed
qed

lemma ready_output2:
  assumes R: "ready_state S st h1 st2 icand" and a: "a \<in> set (s_output2 S)"
  shows "output_ok (ready_ctx S h1 (heap st2) icand) (length (s_bus2 S)) a"
proof -
  let ?X = "ready_ctx S h1 (heap st2) icand"
  have "n_bus_idx (heap st2 a) \<notin> set (c2_buses ?X i)" if "i \<in> set (s_input2 S)" for i
    using port_bus_kind(2) [OF ready_ports(4) [OF R] a] port_bus_kind(2) [OF ready_ports(2) [OF R] that] c2_buses_sub
    by fastforce
  then show ?thesis
    using port_bus_kind(1) [OF ready_ports(4) [OF R] a] by (simp add: output_ok_def)
qed

lemma ready_output1:
  assumes R: "ready_state S st h1 st2 icand" and a: "a \<in> set (s_output1 S)"
  shows "out_cand (ready_ctx S h1 (heap st2) icand) (length (s_bus1 S)) a"
proof -
  let ?X = "ready_ctx S h1 (heap st2) icand"
  have "n_bus_idx (heap st2 a) \<notin> set (c1_buses ?X a2 i)" if "i \<in> set (s_input1 S)" for i a2
    using port_bus_kind(2) [OF ready_ports(3) [OF R] a] port_bus_kind(2) [OF ready_ports(1) [OF R] that] c1_buses_sub
    by fastforce
  then show ?thesis
    using port_bus_kind(1) [OF ready_ports(3) [OF R] a] port_idx(1) [OF ready_ports(3) [OF R] a] ready_input_cands [OF R]
    by (fastforce simp: out_cand_def)
qed

lemma ready_output_cands:
  assumes R: "ready_state S st h1 st2 icand" and "a \<in> set (s_output2 S)"
  shows "set (output_cand_list S h1 a) \<subseteq> set (s_output1 S)"
  using assms output_cand_list_sub [OF ready_mods(2) [OF R] ready_fits(2) [OF R]] by blast

lemma ready_buses_small:
  assumes R: "ready_state S st h1 st2 icand" and "supp \<in> set (s_output_support2 S)"
  shows "\<forall>b \<in> set (concat (map (\<lambda>a. n_bus_indices (heap st2 a)) (s_sort S lt supp))). below b (length (s_bus2 S))"
    and "int (length (Unique (concat (map (\<lambda>a. n_bus_indices (heap st2 a)) (s_sort S lt supp))))) < - INT_MIN"
proof -
  let ?bs = "concat (map (\<lambda>a. n_bus_indices (heap st2 a)) (s_sort S lt supp))"
  have "set (s_sort S lt supp) \<subseteq> set (s_input2 S)"
    using assms(2) ready_fits(1) [OF R] s_sort_set(1) [OF ready_fits(3) [OF R]] by (auto simp: supports_fit_def)
  then show b: "\<forall>b \<in> set ?bs. below b (length (s_bus2 S))"
    using port_bus_kind(1) [OF ready_ports(2) [OF R]] by auto
  then have "set (Unique ?bs) \<subseteq> {0..<int (length (s_bus2 S))}"
    by (auto simp: below_def)
  then have "card (set (Unique ?bs)) \<le> card {0..<int (length (s_bus2 S))}"
    by (intro card_mono) simp_all
  then have "length (Unique ?bs) \<le> length (s_bus2 S)" by (simp add: distinct_card del: set_Unique)
  then show "int (length (Unique ?bs)) < - INT_MIN"
    using ready_mods(1) [OF R] by (simp add: modules_ok_def INT_MIN_def)
qed

lemma ready_sizes:
  assumes R: "ready_state S st h1 st2 icand"
  shows "sizes_ok (ready_ctx S h1 (heap st2) icand) (length (s_bus2 S))"
proof -
  have len: "length icand = length (s_input2 S)" using R by (simp add: ready_state_def icand_inv_def)
  have "\<forall>bs \<in> set (x_output_to_inputBus (ready_ctx S h1 (heap st2) icand)).
      int (length bs) < - INT_MIN \<and> (\<forall>b \<in> set bs. below b (length (s_bus2 S)))"
    using ready_buses_small [OF R] by auto
  moreover have "in_range (s_input1 S) (n_idx (heap st2 a))" if i: "Some a \<in> set (s_init_input S)" for a
  proof -
    obtain k where "k < length (s_init_input S)" "s_init_input S ! k = Some a" using i by (auto simp: in_set_conv_nth)
    then have "a \<in> set (s_input1 S)" using ready_fits(2) [OF R] by (auto simp: init_fits_def)
    then show ?thesis by (rule port_idx(1) [OF ready_ports(1) [OF R]])
  qed
  ultimately show ?thesis
    using ready_fits [OF R] len by (auto simp: sizes_ok_def supports_fit_def init_fits_def support_row_def)
qed

lemma ready_rows:
  assumes R: "ready_state S st h1 st2 icand"
  shows "rows_ok (ready_ctx S h1 (heap st2) icand)"
  unfolding rows_ok_def
proof (intro allI impI)
  let ?X = "ready_ctx S h1 (heap st2) icand"
  fix o1 c assume o1: "o1 < length (x_output1 ?X)" and c: "c < length (x_input1 ?X)" and mark: "x_isPIinPO ?X ! o1 ! c"
  have len: "o1 < length (s_output_support1 S)" using o1 ready_fits(1) [OF R] by (simp add: supports_fit_def)
  then obtain a where a: "a \<in> set (s_output_support1 S ! o1)" "n_idx (h1 a) = int c"
    using mark c by (auto simp: support_row_def)
  have "a \<in> set (s_input1 S)" using a(1) len ready_fits(1) [OF R] by (auto simp: supports_fit_def)
  then have "a < next_addr st" using R by (auto simp: ready_state_def intro!: old_addr)
  then have "n_idx (heap st2 a) = int c"
    using a(2) ready_heap(2) [OF R] by simp
  then show "\<exists>a \<in> set (x_output_support1 ?X ! o1). idx ?X a = int c"
    using a(1) len s_sort_set(1) [OF ready_fits(3) [OF R]] by auto
qed

lemma ready_miter:
  assumes R: "ready_state S st h1 st2 icand"
  shows "miter_ready (ready_ctx S h1 (heap st2) icand)"
proof -
  obtain A r where A: "sim_ready (heap st) A r (s_fuel S)" "\<forall>a \<in> A. a < next_addr st"
    "set (s_output1 S) \<subseteq> A" "set (s_output2 S) \<subseteq> A" "iteration_order (s_ord S)"
    using ready_fits(3) [OF R] by (auto simp: circuits_ok_def)
  have "sim_ready (heap st2) A r (s_fuel S)" by (rule sim_ready_same_supp [OF A(1,2) ready_heap(1) [OF R]])
  then show ?thesis
    using A ready_mods(1) [OF R] by (auto simp: miter_ready_def modules_ok_def)
qed

theorem ready_search_ok:
  assumes R: "ready_state S st h1 st2 icand"
  shows "search_ok (ready_ctx S h1 (heap st2) icand) (length (s_bus1 S)) (length (s_bus2 S))"
proof -
  let ?X = "ready_ctx S h1 (heap st2) icand"
  have "outputs_indexed ?X"
    using ready_ports(4) [OF R] by (simp add: outputs_indexed_def ports_ok_def)
  moreover have "distinct supp \<and> (\<forall>a \<in> set supp. input_ok ?X (length (s_bus2 S)) a)" if sp: "supp \<in> set (x_output_support2 ?X)" for supp
  proof -
    obtain supp' where s: "supp' \<in> set (s_output_support2 S)" "set supp = set supp'" "distinct supp = distinct supp'"
      using sp s_sort_set [OF ready_fits(3) [OF R]] by auto
    then have "distinct supp \<and> set supp \<subseteq> set (s_input2 S)" using ready_fits(1) [OF R] by (simp add: supports_fit_def)
    then show ?thesis using ready_input2 [OF R] by blast
  qed
  moreover have "\<forall>o1 \<in> set cs. out_cand ?X (length (s_bus1 S)) o1" if "cs \<in> set (x_output_match_cand ?X)" for cs
    using that ready_output1 [OF R] ready_output_cands [OF R] by auto
  moreover have "s_caseID S \<noteq> ''08''" using R by (simp add: ready_state_def data_ok_def)
  moreover have "\<forall>i < length (x_input2 ?X). \<forall>a1 \<in> set (x_input_match_cand ?X ! i).
      const_cand ?X a1 \<or> port_cand ?X (length (s_bus1 S)) (x_input2 ?X ! i) a1"
    using ready_input_cands [OF R] by (simp only: ready_ctx_fields) blast
  moreover have "\<forall>o2 \<in> set (x_output2 ?X). output_ok ?X (length (s_bus2 S)) o2"
    using ready_output2 [OF R] by simp
  ultimately show ?thesis
    using ready_sizes [OF R] ready_miter [OF R] ready_rows [OF R] by (simp add: search_ok_def)
qed

section \<open>The supports are those of the circuits\<close>

text \<open>The supports read from the files: no output depends on an input outside its support.\<close>

definition true_supports :: "match_data \<Rightarrow> (addr \<Rightarrow> node) \<Rightarrow> bool" where
  "true_supports S h \<longleftrightarrow>
     (\<forall>j < length (s_output1 S). depends_on h (s_output1 S ! j) (set (s_output_support1 S ! j))) \<and>
     (\<forall>j < length (s_output2 S). depends_on h (s_output2 S ! j) (set (s_output_support2 S ! j)))"

lemma same_supp_sym: "same_supp N h h' \<Longrightarrow> same_supp N h' h"
  unfolding same_supp_def
proof (intro allI impI)
  fix a assume "\<forall>a < N. \<exists>v. h' a = (h a)\<lparr>n_supportVal := v\<rparr>" "a < N"
  then obtain v where "h' a = (h a)\<lparr>n_supportVal := v\<rparr>" by blast
  then show "\<exists>v. h a = (h' a)\<lparr>n_supportVal := v\<rparr>"
    by (intro exI [of _ "n_supportVal (h a)"]) simp
qed

lemma net_wf_same_supp:
  "sim_ready h A r n \<Longrightarrow> \<forall>x \<in> A. x < N \<Longrightarrow> same_supp N h h' \<Longrightarrow> net_wf h' A r"
  using sim_ready_same_supp [of h A r n N h'] by (simp add: sim_ready_def)

lemma evals_heap_iff:
  assumes "sim_ready h A r n" and "\<forall>x \<in> A. x < N" and "same_supp N h h'" and "a \<in> A"
  shows "evals h' \<sigma> a b \<longleftrightarrow> evals h \<sigma> a b"
  using evals_same_supp [OF _ _ assms(4,2,3)] evals_same_supp [OF _ net_wf_same_supp [OF assms(1-3)] assms(4,2) same_supp_sym [OF assms(3)]]
    assms(1) by (auto simp: sim_ready_def)

lemma ready_supports:
  assumes R: "ready_state S st h1 st2 icand" and t: "true_supports S (heap st)"
  shows "supports_sound (ready_ctx S h1 (heap st2) icand)"
proof -
  let ?X = "ready_ctx S h1 (heap st2) icand"
  obtain A r where A: "sim_ready (heap st) A r (s_fuel S)" "\<forall>a \<in> A. a < next_addr st"
    "set (s_output1 S) \<subseteq> A" "set (s_output2 S) \<subseteq> A"
    using ready_fits(3) [OF R] by (auto simp: circuits_ok_def)
  have e: "evals (heap st2) \<sigma> a b \<longleftrightarrow> evals (heap st) \<sigma> a b" if "a \<in> A" for a \<sigma> b
    by (rule evals_heap_iff [OF A(1,2) ready_heap(1) [OF R] that])
  have d: "depends_on (heap st2) a P" if "a \<in> A" "depends_on (heap st) a P" for a P
    using that by (simp add: depends_on_def e)
  have len: "length (s_output_support1 S) = length (s_output1 S)" "length (s_output_support2 S) = length (s_output2 S)"
    and sub: "\<forall>supp \<in> set (s_output_support1 S). set supp \<subseteq> set (s_input1 S)"
    using ready_fits(1) [OF R] by (simp_all add: supports_fit_def)
  have p: "in_range (s_input1 S) (n_idx (heap st2 a)) \<and> s_input1 S ! nat (n_idx (heap st2 a)) = a"
    if "j < length (s_output1 S)" "a \<in> set (s_output_support1 S ! j)" for a j
  proof -
    have "a \<in> set (s_input1 S)" using that len sub by auto
    then show ?thesis using port_idx [OF ready_ports(1) [OF R]] by blast
  qed
  have "s_output1 S ! j \<in> A" if "j < length (s_output1 S)" for j using A(3) that by auto
  moreover have "s_output2 S ! j \<in> A" if "j < length (s_output2 S)" for j using A(4) that by auto
  ultimately show ?thesis
    using t d p len unfolding supports_sound_def true_supports_def
    by (simp add: s_sort_set(1) [OF ready_fits(3) [OF R]])
qed

end
