(* ===== verification/Match_Props.thy ===== *)
theory Match_Props
  imports Match_Sound Example_Net
begin

text \<open>
  The properties of the search, and a run on the two example circuits, where output 7 is matched
  to output 3.
\<close>

section \<open>The example\<close>

definition ex_ctx :: ctx where
  "ex_ctx = \<lparr>x_caseID = ''00'', x_initOn = True, x_inputSizeEq = True, x_input1 = [0, 1], x_input2 = [4, 5],
     x_output1 = [3], x_output2 = [7], x_output_support1 = [[0, 1]], x_output_support2 = [[4, 5]],
     x_output_match_order = [7], x_output_match_cand = [[3]], x_input_match_cand = [[0, 1, 8], [0, 1, 8]],
     x_output_to_inputBus = [[0, 1]], x_isPIinPO = [[True, True]], x_init_input = [None, None],
     x_init_input_ne = [-1, -1], x_nodes = ex_heap, x_fuel = 8, x_ord = id, x_rnd = (\<lambda>k. k)\<rparr>"

lemma ex_search_ok: "search_ok ex_ctx 3 3"
proof -
  have "sizes_ok ex_ctx 3"
    by (simp add: sizes_ok_def ex_ctx_def below_def INT_MIN_def)
  moreover have "outputs_indexed ex_ctx" by (simp add: outputs_indexed_def ex_ctx_def idx_def)
  moreover have "miter_ready ex_ctx"
    unfolding miter_ready_def using ex_sim_ready
    by (intro conjI exI [of _ ex_nodes] exI [of _ "\<lambda>a. a"])
       (simp_all add: ex_ctx_def iteration_order_def ex_nodes_def)
  moreover have "rows_ok ex_ctx" by (simp add: rows_ok_def ex_ctx_def idx_def All_less_Suc)
  ultimately show ?thesis
    by (simp add: search_ok_def ex_ctx_def input_ok_def idx_def bus_idx_def c2_buses_def c1_buses_def Let_def
        below_def in_range_def All_less_Suc const_cand_def port_cand_def output_ok_def out_cand_def CONST_VAL_def)
qed

lemma ex_no_dangling: "no_dangling ex_ctx"
  by (simp add: no_dangling_def ex_ctx_def)

lemma ex_values: "evals ex_heap \<sigma> 3 (\<sigma> 0 \<and> \<sigma> 1)" "evals ex_heap \<sigma> 7 (\<sigma> 4 \<or> \<sigma> 5)"
proof -
  have o: "(3::nat) \<in> ex_nodes" "7 \<in> ex_nodes" by (simp_all add: ex_nodes_def)
  obtain b1 b2 where b: "evals ex_heap \<sigma> 3 b1" "evals ex_heap \<sigma> 7 b2"
    using evals_total [OF ex_net_wf o(1)] evals_total [OF ex_net_wf o(2)] by blast
  show "evals ex_heap \<sigma> 3 (\<sigma> 0 \<and> \<sigma> 1)" using b(1) unfolding ex_gates(1) [OF b] .
  show "evals ex_heap \<sigma> 7 (\<sigma> 4 \<or> \<sigma> 5)" using b(2) unfolding ex_gates(2) [OF b] .
qed

lemma ex_supports: "supports_sound ex_ctx"
proof -
  have "depends_on ex_heap 3 {0, Suc 0}"
    unfolding depends_on_def
  proof (intro allI impI)
    fix \<sigma> \<tau> :: "addr \<Rightarrow> bool" and b
    assume "\<forall>a \<in> {0, Suc 0}. \<sigma> a = \<tau> a" "evals ex_heap \<sigma> 3 b"
    then have "b = (\<tau> 0 \<and> \<tau> 1)" using evals_det [OF _ ex_values(1)] by auto
    then show "evals ex_heap \<tau> 3 b" using ex_values(1) [of \<tau>] by simp
  qed
  moreover have "depends_on ex_heap 7 {4, 5}"
    unfolding depends_on_def
  proof (intro allI impI)
    fix \<sigma> \<tau> :: "addr \<Rightarrow> bool" and b
    assume "\<forall>a \<in> {4, 5}. \<sigma> a = \<tau> a" "evals ex_heap \<sigma> 7 b"
    then have "b = (\<tau> 4 \<or> \<tau> 5)" using evals_det [OF _ ex_values(2)] by auto
    then show "evals ex_heap \<tau> 7 b" using ex_values(2) [of \<tau>] by simp
  qed
  ultimately show ?thesis by (simp add: supports_sound_def ex_ctx_def idx_def in_range_def)
qed

section \<open>Properties\<close>

text \<open>C2: every output pair with few inputs that the search records is right. In a context that satisfies the invariant of the search (its gates
  have word formulas that are right: no \<open>ONEBUF\<close>, no inverted \<open>NAND\<close> or \<open>NOR\<close>), with sound supports and no initial input partners,
  the run returns whatever it finds or fails to find, and each output of circuit 2 in the recorded answer that has fewer than 18 inputs in its
  support, where the miter is exhaustive, computes the function of the output of circuit 1 it is matched to, up to the
  recorded negation, when its inputs are driven as the recorded input locks say.\<close>

theorem search_answer_correct:
  assumes X: "search_ok X nb1 nb2" and nd: "no_dangling X" and sup: "supports_sound X"
  shows "\<exists>b L B. start_search X nb1 nb2 pr = Inr (b, L, B) \<and> maxOutputDepth B \<ge> 0 \<and>
     length (maxOutputMatch B) = length (x_output2 X) \<and>
     (\<forall>j lk. j < length (x_output2 X) \<longrightarrow> maxOutputMatch B ! j = lk \<longrightarrow> fst lk \<noteq> -1 \<longrightarrow>
        length (x_output_support2 X ! j) < 18 \<longrightarrow> matches_function X (maxInputMatch B) j lk)"
  using start_search_answer [OF assms, of pr] unfolding locks_ok_def by blast

lemma search_answer_correct_witness:
  "\<exists>b L B. start_search ex_ctx 3 3 (\<lambda>_. 0) = Inr (b, L, B) \<and> maxOutputDepth B \<ge> 0 \<and>
     length (maxOutputMatch B) = length (x_output2 ex_ctx) \<and>
     (\<forall>j lk. j < length (x_output2 ex_ctx) \<longrightarrow> maxOutputMatch B ! j = lk \<longrightarrow> fst lk \<noteq> -1 \<longrightarrow>
        length (x_output_support2 ex_ctx ! j) < 18 \<longrightarrow> matches_function ex_ctx (maxInputMatch B) j lk)"
  by (rule search_answer_correct [OF ex_search_ok ex_no_dangling ex_supports])





text \<open>C14: the answer file written during the search is the rendering of the recorded answer, in which
  no output of circuit 1 is used for two outputs of circuit 2.\<close>

theorem search_writes_best:
  assumes X: "search_ok X nb1 nb2"
  shows "\<exists>b L B. start_search X nb1 nb2 pr = Inr (b, L, B) \<and> once_each (maxOutputMatch B) \<and>
     maxOutputDepth B = int (matched (maxOutputMatch B)) \<and>
     answer_file B = render_answer (x_nodes X) (x_input1 X) (x_input2 X) (x_output1 X) (x_output2 X)
       (maxInputMatch B) (maxOutputMatch B)"
proof -
  obtain b L B where run: "start_search X nb1 nb2 pr = Inr (b, L, B)" and
    post: "search_post X pr (init_locks X nb1 nb2) b (L, B)"
    using start_search_ok [OF X, of pr] by auto
  have "maxOutputDepth B \<ge> 0"
    using match_output_mono run unfolding start_search_def by fastforce
  moreover have "best_ok X pr B" using post by (cases b) (simp_all add: found_def searching_def)
  ultimately show ?thesis using run by (auto simp: best_ok_def answer_def)
qed

lemma search_writes_best_witness:
  "\<exists>b L B. start_search ex_ctx 3 3 (\<lambda>_. 0) = Inr (b, L, B) \<and> once_each (maxOutputMatch B) \<and>
     maxOutputDepth B = int (matched (maxOutputMatch B)) \<and>
     answer_file B = render_answer ex_heap [0, 1] [4, 5] [3] [7] (maxInputMatch B) (maxOutputMatch B)"
  using search_writes_best [OF ex_search_ok, of "\<lambda>_. 0"] by (simp add: ex_ctx_def)

text \<open>\<open>writePartialAns\<close> turns lock vectors into the answer file without loss: each group lists the
  locked ports of circuit 2 of one port of circuit 1 in index order with the recorded sign, the constants
  follow, and no port is reported as matched twice.\<close>

theorem writePartialAns_text:
  assumes "locks_ok True (length input1) (length input2) il" and "locks_ok False (length output1) (length output2) ol"
  shows "writePartialAns h input1 input2 output1 output2 il ol =
    Inr (concat (map (render_group h ''INGROUP'' input1 input2 il) [0..<length input1]) @
         concat (map (render_group h ''OUTGROUP'' output1 output2 ol) [0..<length output1]) @
         render_consts h input2 il, [])"
  using writePartialAns_ok [OF assms, of h] by (simp add: render_answer_def)

lemma writePartialAns_text_witness:
  "writePartialAns ex_heap [0, 1] [4, 5] [3] [7] [(0, True), (-2, False)] [(0, True)] =
    Inr (concat (map (render_group ex_heap ''INGROUP'' [0, 1] [4, 5] [(0, True), (-2, False)]) [0..<length [0::nat, 1]]) @
         concat (map (render_group ex_heap ''OUTGROUP'' [3] [7] [(0, True)]) [0..<length [3::nat]]) @
         render_consts ex_heap [4, 5] [(0, True), (-2, False)], [])"
  by (rule writePartialAns_text) (simp_all add: locks_ok_def CONST_VAL_def)

end
