(* ===== verification/Start_Props.thy ===== *)
theory Start_Props
  imports Match_Start Match_Props
begin

text \<open>
  The properties of the phase before the search and of \<open>new_boolean_match\<close> as a whole, on the heap
  the parsers leave, with the runs on the two example circuits.
\<close>

section \<open>The example\<close>

definition ex_mod1 :: module where
  "ex_mod1 = ex_module\<lparr>m_bus_set := [[0], [1], [3]], m_input_sig := [0, 0]\<rparr>"

definition ex_mod2 :: module where
  "ex_mod2 = ex_module\<lparr>m_moduleIndex := 1, m_netlist := [4, 5, 6, 7],
     m_gate := (\<lambda>t. if t = INPUT then [4, 5] else if t = OUTPUT then [7] else if t = OR then [6] else []),
     m_bus_set := [[4], [5], [7]], m_input_sig := [0, 0]\<rparr>"

definition ex_data :: match_data where
  "ex_data = \<lparr>s_caseID = ''00'', s_initOn = True, s_mod1 = ex_mod1, s_mod2 = ex_mod2,
     s_output_support1 = [[0, 1]], s_output_support2 = [[4, 5]],
     s_input_support1 = [[3], [3]], s_input_support2 = [[7], [7]], s_init_output = [[]],
     s_init_input = [None, None], s_init_input_ne = [-1, -1], s_bus_size = 0, s_bus_match_idx = (\<lambda>_. []),
     s_fuel = 8, s_ord = id, s_rnd = (\<lambda>k. k), s_sort = std_sort\<rparr>"

definition ex_store :: store where
  "ex_store = \<lparr>heap = ex_heap, next_addr = 8\<rparr>"

lemma ex_gates_of [simp]:
  "m_gate ex_mod1 INPUT = [0, 1]" "m_gate ex_mod1 OUTPUT = [3]" "m_bus_set ex_mod1 = [[0], [1], [3]]"
  "m_gate ex_mod2 INPUT = [4, 5]" "m_gate ex_mod2 OUTPUT = [7]" "m_bus_set ex_mod2 = [[4], [5], [7]]"
  "m_input_sig ex_mod1 = [0, 0]" "m_input_sig ex_mod2 = [0, 0]"
  by (simp_all add: ex_mod1_def ex_mod2_def ex_module_def)

lemma ex_data_fields [simp]:
  "s_caseID ex_data = ''00''" "s_mod1 ex_data = ex_mod1" "s_mod2 ex_data = ex_mod2" "s_initOn ex_data = True"
  "s_output_support1 ex_data = [[0, 1]]" "s_output_support2 ex_data = [[4, 5]]"
  "s_input_support1 ex_data = [[3], [3]]" "s_input_support2 ex_data = [[7], [7]]"
  "s_init_output ex_data = [[]]" "s_init_input ex_data = [None, None]" "s_init_input_ne ex_data = [-1, -1]"
  "s_fuel ex_data = 8" "s_ord ex_data = id" "s_sort ex_data = std_sort"
  by (simp_all add: ex_data_def)

lemma ex_store_fields [simp]: "heap ex_store = ex_heap" "next_addr ex_store = 8"
  by (simp_all add: ex_store_def)

lemma ex_modules_ok: "modules_ok ex_data ex_heap"
  by (simp add: modules_ok_def ports_ok_def buses_ok_def in_range_def All_less_Suc)

lemma ex_data_ok: "data_ok ex_data ex_store"
proof -
  have "circuits_ok ex_data ex_store"
    unfolding circuits_ok_def using ex_sim_ready
    by (intro conjI exI [of _ ex_nodes] exI [of _ "\<lambda>a. a"]) (simp_all add: iteration_order_def ex_nodes_def)
  then show ?thesis
    using ex_modules_ok
    by (simp add: data_ok_def supports_fit_def init_fits_def unchecked_ok_def partner_ok_def inputSizeEq_def All_less_Suc)
qed

lemma ex_depends: "depends_on ex_heap 3 {0, Suc 0}" "depends_on ex_heap 7 {4, 5}"
  using ex_supports by (simp_all add: supports_sound_def ex_ctx_def)

lemma ex_true_supports: "true_supports ex_data ex_heap"
  using ex_depends by (simp add: true_supports_def)

section \<open>Properties\<close>

text \<open>
  The inputs of circuit 2 driven from those of circuit 1 as the locks say, and what a matched pair
  of outputs must satisfy, both on the heap of the parsers.
\<close>

definition drive :: "match_data \<Rightarrow> (addr \<Rightarrow> node) \<Rightarrow> lock list \<Rightarrow> (addr \<Rightarrow> bool) \<Rightarrow> addr \<Rightarrow> bool" where
  "drive S h il \<sigma> a =
     (if a \<in> set (s_input2 S) then
        (let (c, ng) = il ! nat (n_idx (h a))
         in if c = -1 then False else if c = CONST_VAL then ng else \<sigma> (s_input1 S ! nat c) \<noteq> ng)
      else \<sigma> a)"

definition same_function :: "match_data \<Rightarrow> (addr \<Rightarrow> node) \<Rightarrow> lock list \<Rightarrow> nat \<Rightarrow> lock \<Rightarrow> bool" where
  "same_function S h il j lk \<longleftrightarrow> (\<forall>\<sigma> b1 b2.
     evals h (drive S h il \<sigma>) (s_output1 S ! nat (fst lk)) b1 \<longrightarrow>
     evals h (drive S h il \<sigma>) (s_output2 S ! j) b2 \<longrightarrow> b2 = (b1 \<noteq> snd lk))"

lemma driven_drive:
  assumes R: "ready_state S st h1 st2 icand"
  shows "driven (ready_ctx S h1 (heap st2) icand) il \<sigma> = drive S (heap st) il \<sigma>"
proof
  fix a
  have "n_idx (heap st2 a) = n_idx (heap st a)" if "a \<in> set (s_input2 S)"
    using that same_supp_fields(2) [OF ready_heap(1) [OF R]] R by (auto simp: ready_state_def intro!: old_addr)
  then show "driven (ready_ctx S h1 (heap st2) icand) il \<sigma> a = drive S (heap st) il \<sigma> a"
    by (auto simp: driven_def drive_def)
qed

lemma matches_same_function:
  assumes R: "ready_state S st h1 st2 icand" and j: "j < length (s_output2 S)" "in_range (s_output1 S) (fst lk)"
  shows "matches_function (ready_ctx S h1 (heap st2) icand) il j lk \<longleftrightarrow> same_function S (heap st) il j lk"
proof -
  obtain A r where A: "sim_ready (heap st) A r (s_fuel S)" "\<forall>a \<in> A. a < next_addr st"
    "set (s_output1 S) \<subseteq> A" "set (s_output2 S) \<subseteq> A"
    using ready_fits(3) [OF R] by (auto simp: circuits_ok_def)
  have e: "evals (heap st2) \<sigma> a b \<longleftrightarrow> evals (heap st) \<sigma> a b" if "a \<in> A" for a \<sigma> b
    by (rule evals_heap_iff [OF A(1,2) ready_heap(1) [OF R] that])
  have "s_output1 S ! nat (fst lk) \<in> A" "s_output2 S ! j \<in> A"
    using A(3,4) j nth_in_range [OF j(2)] by auto
  then show ?thesis by (simp add: matches_function_def same_function_def driven_drive [OF R] e)
qed

lemma new_boolean_match_answer:
  assumes "data_ok S st" and "true_supports S (heap st)" and "s_initOn S \<longrightarrow> set (s_init_input S) \<subseteq> {None}"
  shows "\<exists>X b L B. new_boolean_match S st = Inr (X, b, L, B) \<and> length (maxOutputMatch B) = length (s_output2 S) \<and>
     same_supp (next_addr st) (heap st) (x_nodes X) \<and>
     (\<forall>j lk. j < length (s_output2 S) \<longrightarrow> maxOutputMatch B ! j = lk \<longrightarrow> fst lk \<noteq> -1 \<longrightarrow>
        length (s_output_support2 S ! j) < 18 \<longrightarrow> same_function S (heap st) (maxInputMatch B) j lk) \<and>
     (\<forall>j < length (s_output2 S). fst (maxOutputMatch B ! j) \<noteq> -1 \<longrightarrow>
        (\<forall>k < length (s_input2 S). s_input2 S ! k \<in> set (s_output_support2 S ! j) \<longrightarrow> fst (maxInputMatch B ! k) \<noteq> -1)) \<and>
     (b \<longrightarrow> (\<forall>lk \<in> set (maxOutputMatch B). fst lk \<noteq> -1))"
proof -
  obtain h1 icand st2 where p: "prepare_match S st = Inr (ready_ctx S h1 (heap st2) icand)"
    and R: "ready_state S st h1 st2 icand"
    using prepare_match_runs [OF assms(1)] assms(1) by (auto simp: ready_state_def)
  let ?X = "ready_ctx S h1 (heap st2) icand"
  have nd: "no_dangling ?X" using assms(3) by (simp add: no_dangling_def)
  have X: "search_ok ?X (length (s_bus1 S)) (length (s_bus2 S))" by (rule ready_search_ok [OF R])
  obtain b L B where run: "start_search ?X (length (s_bus1 S)) (length (s_bus2 S)) (\<lambda>a. n_priority (x_nodes ?X a)) = Inr (b, L, B)"
    and ans: "\<forall>j lk. j < length (s_output2 S) \<longrightarrow> maxOutputMatch B ! j = lk \<longrightarrow> fst lk \<noteq> -1 \<longrightarrow>
        length (x_output_support2 ?X ! j) < 18 \<longrightarrow> matches_function ?X (maxInputMatch B) j lk"
    and range: "locks_ok False (length (s_output1 S)) (length (s_output2 S)) (maxOutputMatch B)"
    and used: "\<forall>j < length (s_output2 S). fst (maxOutputMatch B ! j) \<noteq> -1 \<longrightarrow>
        (\<forall>a \<in> set (x_output_support2 ?X ! j). fst (maxInputMatch B ! nat (idx ?X a)) \<noteq> -1)"
    and every: "b \<longrightarrow> (\<forall>lk \<in> set (maxOutputMatch B). fst lk \<noteq> -1)"
    using start_search_answer [OF X nd ready_supports [OF R assms(2)]] by (simp only: ready_ctx_fields) blast
  have len: "length (maxOutputMatch B) = length (s_output2 S)" using range by (simp add: locks_ok_def)
  have "same_function S (heap st) (maxInputMatch B) j lk"
    if j: "j < length (s_output2 S)" "maxOutputMatch B ! j = lk" "fst lk \<noteq> -1" "length (s_output_support2 S ! j) < 18" for j lk
  proof -
    have "length (x_output_support2 ?X ! j) < 18"
      using j ready_fits(1) [OF R] s_sort_set(3) [OF ready_fits(3) [OF R]] by (simp add: supports_fit_def)
    then have "matches_function ?X (maxInputMatch B) j lk" using ans j by blast
    moreover have "in_range (s_output1 S) (fst lk)"
      using range j lock_range [of False "length (s_output1 S)" "length (s_output2 S)" "maxOutputMatch B" j]
      by (auto simp: in_range_def)
    ultimately show ?thesis using matches_same_function [OF R j(1)] by blast
  qed
  moreover have "fst (maxInputMatch B ! k) \<noteq> -1"
    if j: "j < length (s_output2 S)" "fst (maxOutputMatch B ! j) \<noteq> -1"
      and k: "k < length (s_input2 S)" "s_input2 S ! k \<in> set (s_output_support2 S ! j)" for j k
  proof -
    have "x_output_support2 ?X ! j = s_sort S (support_before2 S (heap st2) icand) (s_output_support2 S ! j)"
      using j(1) ready_fits(1) [OF R] by (simp add: supports_fit_def)
    then have "s_input2 S ! k \<in> set (x_output_support2 ?X ! j)" using k(2) s_sort_set(1) [OF ready_fits(3) [OF R]] by simp
    moreover have "idx ?X (s_input2 S ! k) = int k"
      using k(1) ready_mods(1) [OF R] by (simp add: idx_def modules_ok_def ports_ok_def)
    ultimately show ?thesis using used j by fastforce
  qed
  ultimately show ?thesis using p run len ready_heap(1) [OF R] every by (auto simp: new_boolean_match_def)
qed

text \<open>C1: \<open>new_boolean_match\<close> is right on parsed circuits, for outputs with few inputs. For modules, buses and supports that fit
  together (\<open>data_ok\<close>: the gates have word formulas that are right, so no \<open>ONEBUF\<close> and no inverted \<open>NAND\<close> or \<open>NOR\<close>, the unchecked reads are
  in range, the benchmark is not 8), with true supports and no initial input partners, it returns, and every output of circuit 2 in the recorded
  answer that has fewer than 18 inputs in its support computes on the parsed netlist the
  function of the output of circuit 1 it is matched to, up to the recorded negation, when its inputs are
  driven as the recorded locks say. Nothing is claimed of outputs with 18 and more inputs, which the miter only simulates on random
  patterns.\<close>

theorem new_boolean_match_correct:
  assumes "data_ok S st" and "true_supports S (heap st)" and "s_initOn S \<longrightarrow> set (s_init_input S) \<subseteq> {None}"
  shows "\<exists>X b L B. new_boolean_match S st = Inr (X, b, L, B) \<and> length (maxOutputMatch B) = length (s_output2 S) \<and>
     (\<forall>j lk. j < length (s_output2 S) \<longrightarrow> maxOutputMatch B ! j = lk \<longrightarrow> fst lk \<noteq> -1 \<longrightarrow>
        length (s_output_support2 S ! j) < 18 \<longrightarrow> same_function S (heap st) (maxInputMatch B) j lk)"
  using new_boolean_match_answer [OF assms] by metis

lemma new_boolean_match_correct_witness:
  "\<exists>X b L B. new_boolean_match ex_data ex_store = Inr (X, b, L, B) \<and> length (maxOutputMatch B) = 1 \<and>
     (\<forall>j lk. j < 1 \<longrightarrow> maxOutputMatch B ! j = lk \<longrightarrow> fst lk \<noteq> -1 \<longrightarrow>
        length (s_output_support2 ex_data ! j) < 18 \<longrightarrow> same_function ex_data ex_heap (maxInputMatch B) j lk)"
  using new_boolean_match_correct [OF ex_data_ok] ex_true_supports by simp

text \<open>C15: \<open>prepare_match\<close> makes what the search relies on: on parsed modules, buses and supports that
  fit together (no \<open>ONEBUF\<close> and no inverted \<open>NAND\<close> or \<open>NOR\<close>, the benchmark is not 8) it returns a context that satisfies the invariant \<open>search_ok\<close> of the search. The data are assumed to keep the
  ranges of the two reads the code makes without a test (\<open>unchecked_ok\<close>: the buses of a partner reach as far as those of the port, and circuit 2
  has at least as many buses as circuit 1); every other vector access is shown to be in range.\<close>

theorem prepare_match_ready:
  assumes "data_ok S st"
  shows "\<exists>X. prepare_match S st = Inr X \<and> search_ok X (length (s_bus1 S)) (length (s_bus2 S))"
proof -
  obtain h1 icand st2 where p: "prepare_match S st = Inr (ready_ctx S h1 (heap st2) icand)"
    and R: "ready_state S st h1 st2 icand"
    using prepare_match_runs [OF assms] assms by (auto simp: ready_state_def)
  show ?thesis using p ready_search_ok [OF R] by blast
qed

lemma prepare_match_ready_witness:
  "\<exists>X. prepare_match ex_data ex_store = Inr X \<and> search_ok X 3 3"
  using prepare_match_ready [OF ex_data_ok] by (simp add: numeral_3_eq_3)

text \<open>the support matrix is exact: \<open>isPIinPO[i][j]\<close> holds when, and only when, the functional support
  of output \<open>i\<close> of circuit 1 holds the input with index \<open>j\<close>.\<close>

theorem genPIinPO_exact:
  assumes "length (s_output_support1 S) = length (s_output1 S)"
    and "\<forall>supp \<in> set (s_output_support1 S). \<forall>a \<in> set supp.
      0 \<le> n_idx (h a) \<and> n_idx (h a) < int (length (s_input1 S))"
  shows "\<exists>m. genPIinPO S h = Inr m \<and> length m = length (s_output1 S) \<and>
     (\<forall>i < length (s_output1 S). length (m ! i) = length (s_input1 S) \<and>
        (\<forall>j < length (s_input1 S). m ! i ! j \<longleftrightarrow> (\<exists>a \<in> set (s_output_support1 S ! i). n_idx (h a) = int j)))"
  using genPIinPO_ok [OF assms] assms(1) by (simp add: support_row_def)

lemma genPIinPO_exact_witness:
  "\<exists>m. genPIinPO ex_data ex_heap = Inr m \<and> length m = length (s_output1 ex_data) \<and>
     (\<forall>i < length (s_output1 ex_data). length (m ! i) = length (s_input1 ex_data) \<and>
        (\<forall>j < length (s_input1 ex_data). m ! i ! j \<longleftrightarrow>
           (\<exists>a \<in> set (s_output_support1 ex_data ! i). n_idx (ex_heap a) = int j)))"
  by (rule genPIinPO_exact) simp_all

text \<open>C16: the candidates of an output without an initial partner are exactly the outputs of circuit 1
  that fit (equal bus and support sizes when the circuits have as many ports, otherwise a support that
  is not larger, within the difference of the input counts, and a bit place that is not higher), without
  repetition and in decreasing order of support size.\<close>

theorem genOutputMatch_exact:
  assumes "modules_ok S h" and "length (s_bus1 S) \<le> length (s_bus2 S)"
    and "length (s_init_output S) = length (s_output2 S)"
  shows "\<exists>cand order. genOutputMatch S h = Inr (cand, order) \<and> mset order = mset (s_output2 S) \<and>
     (\<forall>k < length (s_output2 S). s_initOn S \<longrightarrow> s_init_output S ! k = [] \<longrightarrow>
        set (cand ! k) = {a \<in> set (s_output1 S). output_fit S h (s_output2 S ! k) a} \<and> distinct (cand ! k) \<and>
        sorted (map (\<lambda>a. - n_supportVal (h a)) (cand ! k)))"
proof -
  have p: "ports_ok h OUTPUT (s_output1 S) (s_bus1 S)" "ports_ok h OUTPUT (s_output2 S) (s_bus2 S)"
    using assms(1) by (simp_all add: modules_ok_def)
  have "distinct (s_output1 S)"
    using p(1) by (auto simp: ports_ok_def distinct_conv_nth) (metis of_nat_eq_iff)
  moreover have "sorted (map (\<lambda>a. - n_supportVal (h a)) (rank_outputs S h o2 cs))" for o2 cs
    using sorted_std_sort_key [of "\<lambda>a. - n_supportVal (h a)"] by (simp add: rank_outputs_def)
  ultimately have "set (output_cand_list S h (s_output2 S ! k)) = {a \<in> set (s_output1 S). output_fit S h (s_output2 S ! k) a} \<and>
      distinct (output_cand_list S h (s_output2 S ! k)) \<and>
      sorted (map (\<lambda>a. - n_supportVal (h a)) (output_cand_list S h (s_output2 S ! k)))"
    if "k < length (s_output2 S)" "s_init_output S ! k = []" for k
    using that p(2) by (auto simp: output_cand_list_def ports_ok_def rank_outputs_def)
  then show ?thesis
    using genOutputMatch_ok [OF assms] by simp
qed

lemma genOutputMatch_exact_witness:
  "\<exists>cand order. genOutputMatch ex_data ex_heap = Inr (cand, order) \<and> mset order = mset [7] \<and>
     (\<forall>k < 1. set (cand ! k) = {a \<in> set [3]. output_fit ex_data ex_heap ([7] ! k) a} \<and> distinct (cand ! k) \<and>
        sorted (map (\<lambda>a. - n_supportVal (ex_heap a)) (cand ! k)))"
  using genOutputMatch_exact [OF ex_modules_ok] by simp

text \<open>C17: the candidates of an input without an initial partner are exactly the inputs of circuit 1 that
  fit, in increasing order of the difference of the support sizes, followed by one fresh constant node;
  the nodes of the circuits are not touched.\<close>

theorem input_cands_exact:
  assumes "modules_ok S (heap st)" and "length (s_init_input S) = length (s_input2 S)"
    and "i2 \<in> set (s_input2 S)" and "initial_partner S (heap st) i2 = None"
  shows "\<exists>cs st'. input_cands S i2 st = Inr (cs @ [next_addr st], st') \<and> grown st st' \<and>
     set cs = {i1 \<in> set (s_input1 S). input_fit S (heap st) i2 i1} \<and>
     sorted (map (\<lambda>a. \<bar>n_supportVal (heap st i2) - n_supportVal (heap st a)\<bar>) cs) \<and>
     n_type (heap st' (next_addr st)) = CONSTANT \<and> n_idx (heap st' (next_addr st)) = CONST_VAL"
proof -
  have "sorted (map (\<lambda>a. \<bar>n_supportVal (heap st i2) - n_supportVal (heap st a)\<bar>) (input_cand_list S (heap st) i2))"
    using sorted_std_sort_key [of "\<lambda>a. \<bar>n_supportVal (heap st i2) - n_supportVal (heap st a)\<bar>"]
    by (simp add: input_cand_list_def rank_inputs_def Let_def)
  then show ?thesis
    using input_cands_ok [OF assms(1-3)] assms(4) const_node_grown const_node_fields
    by (intro exI [of _ "input_cand_list S (heap st) i2"] exI [of _ "snd (const_node st)"]) simp
qed

lemma input_cands_exact_witness:
  "\<exists>cs st'. input_cands ex_data 4 ex_store = Inr (cs @ [8], st') \<and> grown ex_store st' \<and>
     set cs = {i1 \<in> set [0, 1]. input_fit ex_data ex_heap 4 i1} \<and>
     sorted (map (\<lambda>a. \<bar>n_supportVal (ex_heap 4) - n_supportVal (ex_heap a)\<bar>) cs) \<and>
     n_type (heap st' 8) = CONSTANT \<and> n_idx (heap st' 8) = CONST_VAL"
  using input_cands_exact [of ex_data ex_store 4] ex_modules_ok by (simp add: initial_partner_def)

text \<open>
  Two small circuits on which the conditions of \<open>unchecked_ok\<close> fail: circuit 1 has the input 0 on bus 0
  and the outputs 1, 2 on buses 1, 2; circuit 2 has the input 3 on buses 0 and 1 and the output 4.
\<close>

definition odd_heap :: "addr \<Rightarrow> node" where
  "odd_heap = (\<lambda>a. mk_node a '''' WIRE)
     (0 := ex_node 0 ''a'' INPUT [] 0 0, 1 := ex_node 1 ''x'' OUTPUT [0] 0 1, 2 := ex_node 2 ''y'' OUTPUT [0] 1 2,
      3 := (ex_node 3 ''b'' INPUT [] 0 0)\<lparr>n_bus_indices := [0, 1]\<rparr>, 4 := ex_node 4 ''z'' OUTPUT [3] 0 1)"

definition odd_data :: match_data where
  "odd_data = ex_data\<lparr>
     s_mod1 := ex_mod1\<lparr>m_gate := (\<lambda>t. if t = INPUT then [0] else if t = OUTPUT then [1, 2] else []),
                       m_bus_set := [[0], [1], [2]], m_input_sig := [0]\<rparr>,
     s_mod2 := ex_mod2\<lparr>m_gate := (\<lambda>t. if t = INPUT then [3] else if t = OUTPUT then [4] else []),
                       m_bus_set := [[3], [4]], m_input_sig := [0]\<rparr>\<rparr>"

definition odd_ctx :: ctx where
  "odd_ctx = ex_ctx\<lparr>x_nodes := odd_heap\<rparr>"

lemma odd_heap_apply [simp]:
  "odd_heap 0 = ex_node 0 ''a'' INPUT [] 0 0" "odd_heap (Suc 0) = ex_node 1 ''x'' OUTPUT [0] 0 1"
  "odd_heap 2 = ex_node 2 ''y'' OUTPUT [0] 1 2"
  "odd_heap 3 = (ex_node 3 ''b'' INPUT [] 0 0)\<lparr>n_bus_indices := [0, 1]\<rparr>" "odd_heap 4 = ex_node 4 ''z'' OUTPUT [3] 0 1"
  by (simp_all add: odd_heap_def)

lemma odd_data_fields [simp]:
  "s_input1 odd_data = [0]" "s_output1 odd_data = [1, 2]" "s_bus1 odd_data = [[0], [1], [2]]"
  "s_input2 odd_data = [3]" "s_output2 odd_data = [4]" "s_bus2 odd_data = [[3], [4]]"
  "s_initOn odd_data = True" "s_init_output odd_data = [[]]"
  by (simp_all add: odd_data_def)

lemma ex_node_supp [simp]: "n_supportVal (ex_node a s t fi i b) = 0" "n_bit_idx (ex_node a s t fi i b) = -1"
  by (simp_all add: ex_node_def mk_node_def)

text \<open>two reads of the code are out of range on circuits it accepts. \<open>genOutputMatch\<close> sorts the
  candidates of an output by the buses of circuit 2 at bus indices of circuit 1, and runs off the bus
  vector when circuit 1 has more buses. \<open>genInputMatch\<close> skips the test of the number of buses when both
  circuits have as many inputs, and \<open>match_input\<close> then runs off the bus indices of the candidate.\<close>

theorem unchecked_reads:
  "ports_ok odd_heap OUTPUT (s_output1 odd_data) (s_bus1 odd_data) \<and>
   ports_ok odd_heap OUTPUT (s_output2 odd_data) (s_bus2 odd_data) \<and>
   genOutputMatch odd_data odd_heap = Inl Bad_Index \<and>
   input_fits odd_data odd_heap 3 0 = Inr True \<and>
   occupy_buses odd_ctx 3 0 (init_locks odd_ctx 3 2) = Inl Bad_Index"
proof (intro conjI)
  show "ports_ok odd_heap OUTPUT (s_output1 odd_data) (s_bus1 odd_data)"
    "ports_ok odd_heap OUTPUT (s_output2 odd_data) (s_bus2 odd_data)"
    by (simp_all add: ports_ok_def in_range_def All_less_Suc)
  show "genOutputMatch odd_data odd_heap = Inl Bad_Index"
    by (simp add: genOutputMatch_def output_cands_def pick_cands_def output_fits_def bus_sz_def vget_def in_range_def
        inputSizeEq_def outputSizeEq_def sort_key_res_def read_keys_def)
  show "input_fits odd_data odd_heap 3 0 = Inr True"
    by (simp add: input_fits_def bus_sz_def vget_def in_range_def inputSizeEq_def outputSizeEq_def)
  show "occupy_buses odd_ctx 3 0 (init_locks odd_ctx 3 2) = Inl Bad_Index"
  proof -
    have "n_bus_indices (x_nodes odd_ctx 3) = [0, 1]" "n_bus_indices (x_nodes odd_ctx 0) = [0]"
      by (simp_all add: odd_ctx_def)
    moreover have "vget (bus_2_to_1 (init_locks odd_ctx 3 2)) 0 = Inr (-1)" "vget (bus_1_to_2 (init_locks odd_ctx 3 2)) 0 = Inr (-1)"
      by (simp_all add: init_locks_def vget_def in_range_def)
    ultimately show ?thesis
      by (simp add: occupy_buses_def bus_free_def Let_def vget_def [of "[0]"] vget_def [of "[0, 1]"] in_range_def)
  qed
qed

end
