(* ===== verification/Match_Bus.thy ===== *)
theory Match_Bus
  imports Match_Gen
begin

text \<open>
  \<open>match_bus\<close> and \<open>recur_match_bus\<close> of \<open>Matching.cpp\<close>: which sizes of buses of circuit 1 a bus of
  circuit 2 may be matched to. The recursion assigns the buses of circuit 2 one by one to free buses
  of circuit 1 and records the pairs of sizes of every complete assignment; \<open>new_match\<close> cuts off
  branches that start with a recorded pair.
\<close>

section \<open>The recursion\<close>

record bus_state =
  quota :: int
  c1_bus_occupied :: "bool list"
  one_bus_match :: "(nat \<times> nat) list"
  new_match :: bool
  bus_match_idx :: "int \<Rightarrow> int list"

text \<open>\<open>bus_match_idx[k2].insert(k1)\<close>, a set kept without repetition.\<close>

definition add_match :: "int \<Rightarrow> int \<Rightarrow> (int \<Rightarrow> int list) \<Rightarrow> (int \<Rightarrow> int list)" where
  "add_match k2 k1 t = t(k2 := List.insert k1 (t k2))"

definition record_match :: "int list \<Rightarrow> int list \<Rightarrow> bus_state \<Rightarrow> bus_state res" where
  "record_match ks2 ks1 s =
     rbind (rfold (\<lambda>i t. rbind (vget (one_bus_match s) (int i)) (\<lambda>(d, j).
              rbind (vget ks2 (int d)) (\<lambda>k2. rbind (vget ks1 (int j)) (\<lambda>k1. Inr (add_match k2 k1 t)))))
            [0..<length ks1] (bus_match_idx s))
       (\<lambda>t. Inr (s\<lparr>bus_match_idx := t, new_match := False\<rparr>))"

text \<open>
  One pass of the loop: \<open>ks2\<close> and \<open>ks1\<close> are the sizes \<open>bus[1][bus_idx_2[d]].size()\<close> and
  \<open>bus[0][bus_idx_1[i]].size()\<close>. The comparison with \<open>quota\<close> is one of \<open>size_t\<close>, and the comparison
  of the \<open>size_t\<close> difference with 0 is always true.
\<close>

definition try_bus :: "(bus_state \<Rightarrow> bus_state res) \<Rightarrow> int list \<Rightarrow> int list \<Rightarrow> nat \<Rightarrow> nat \<Rightarrow> bus_state \<Rightarrow> bus_state res" where
  "try_bus rec ks2 ks1 depth i s =
     rbind (vget (c1_bus_occupied s) (int i)) (\<lambda>occ.
     if occ then Inr s else
     rbind (vget ks2 (int depth)) (\<lambda>k2. rbind (vget ks1 (int i)) (\<lambda>k1.
     if to_size_t (k2 - k1) \<le> to_size_t (quota s) then
       if \<not> new_match s \<and> k1 \<in> set (bus_match_idx s k2) then Inr s
       else
         rbind (rec (s\<lparr>new_match := True, one_bus_match := one_bus_match s @ [(depth, i)],
                       quota := to_int32 (quota s - to_size_t (k2 - k1)),
                       c1_bus_occupied := (c1_bus_occupied s)[i := True]\<rparr>)) (\<lambda>s.
         Inr (s\<lparr>one_bus_match := butlast (one_bus_match s), quota := to_int32 (quota s + to_size_t (k2 - k1)),
                c1_bus_occupied := (c1_bus_occupied s)[i := False]\<rparr>))
     else Inr s)))"

text \<open>\<open>recur_match_bus\<close> with \<open>n\<close> buses left: \<open>depth = bus_size - n\<close>.\<close>

primrec recur_match_bus :: "int list \<Rightarrow> int list \<Rightarrow> nat \<Rightarrow> bus_state \<Rightarrow> bus_state res" where
  "recur_match_bus ks2 ks1 0 s = record_match ks2 ks1 s"
| "recur_match_bus ks2 ks1 (Suc n) s =
     rfold (try_bus (recur_match_bus ks2 ks1 n) ks2 ks1 (length ks1 - Suc n)) [0..<length ks1] s"

text \<open>Buses of more than one port.\<close>

definition getBusSet :: "module \<Rightarrow> addr list list" where
  "getBusSet m = filter (\<lambda>xs. length xs > 1) (m_bus_set m)"

text \<open>The sum of the extra buses of the inputs that lie on several.\<close>

definition extra_buses :: "(addr \<Rightarrow> node) \<Rightarrow> module \<Rightarrow> int" where
  "extra_buses h m = sum_list (map (\<lambda>a. let k = int (length (n_bus_indices (h a))) in if k > 1 then k - 1 else 0) (m_gate m INPUT))"

definition bus_sizes :: "addr list list \<Rightarrow> nat \<Rightarrow> int list res" where
  "bus_sizes bus n = rfold (\<lambda>i ks. rbind (vget bus (int i)) (\<lambda>xs. Inr (ks @ [int (length xs)]))) [0..<n] []"

text \<open>
  \<open>match_bus\<close> gives \<open>bus_size\<close> and the table. Both index vectors have the length of circuit 1's
  bus vector; sorting the indices by size descending gives the sizes in descending order.
\<close>

definition match_bus :: "(addr \<Rightarrow> node) \<Rightarrow> module \<Rightarrow> module \<Rightarrow> (nat \<times> (int \<Rightarrow> int list)) res" where
  "match_bus h m1 m2 =
     (let bus0 = getBusSet m1; bus1 = getBusSet m2; bus_size = length bus0
      in rbind (bus_sizes bus0 bus_size) (\<lambda>ks1. rbind (bus_sizes bus1 bus_size) (\<lambda>ks2.
         let ks1 = std_sort (\<lambda>a b. a > b) ks1; ks2 = std_sort (\<lambda>a b. a > b) ks2;
             quota = to_int32 (int (length (m_gate m2 INPUT)) - int (length (m_gate m1 INPUT)) + extra_buses h m2 - extra_buses h m1)
         in rbind (recur_match_bus ks2 ks1 bus_size
               \<lparr>quota = quota, c1_bus_occupied = replicate bus_size False, one_bus_match = [],
                new_match = True, bus_match_idx = (\<lambda>_. [])\<rparr>) (\<lambda>s. Inr (bus_size, bus_match_idx s)))))"

section \<open>Soundness\<close>

text \<open>
  A feasible assignment of buses: no bus of circuit 2 is smaller than its partner, and the
  differences add up to at most the quota.
\<close>

definition slack :: "int list \<Rightarrow> int list \<Rightarrow> (nat \<times> nat) list \<Rightarrow> int" where
  "slack ks2 ks1 ps = sum_list (map (\<lambda>(d, i). ks2 ! d - ks1 ! i) ps)"

definition partial_assignment :: "int list \<Rightarrow> int list \<Rightarrow> int \<Rightarrow> (nat \<times> nat) list \<Rightarrow> bool" where
  "partial_assignment ks2 ks1 q ps \<longleftrightarrow> map fst ps = [0..<length ps] \<and> distinct (map snd ps) \<and>
     (\<forall>(d, i) \<in> set ps. i < length ks1 \<and> ks1 ! i \<le> ks2 ! d) \<and> slack ks2 ks1 ps \<le> q"

definition feasible :: "int list \<Rightarrow> int list \<Rightarrow> int \<Rightarrow> int \<Rightarrow> int \<Rightarrow> bool" where
  "feasible ks2 ks1 q k2 k1 \<longleftrightarrow> (\<exists>ps. partial_assignment ks2 ks1 q ps \<and> length ps = length ks1 \<and>
     (\<exists>(d, i) \<in> set ps. ks2 ! d = k2 \<and> ks1 ! i = k1))"

definition bus_search_inv :: "int list \<Rightarrow> int list \<Rightarrow> int \<Rightarrow> (nat \<times> nat) list \<Rightarrow> bus_state \<Rightarrow> bool" where
  "bus_search_inv ks2 ks1 q ps s \<longleftrightarrow> one_bus_match s = ps \<and> quota s = q - slack ks2 ks1 ps \<and>
     c1_bus_occupied s = map (\<lambda>i. i \<in> snd ` set ps) [0..<length ks1] \<and>
     (\<forall>k2 k1. k1 \<in> set (bus_match_idx s k2) \<longrightarrow> feasible ks2 ks1 q k2 k1)"

lemma record_match_sound:
  assumes inv: "bus_search_inv ks2 ks1 q ps s" and ps: "partial_assignment ks2 ks1 q ps" "length ps = length ks1"
    and len: "length ks2 = length ks1"
  shows "\<exists>s'. record_match ks2 ks1 s = Inr s' \<and> bus_search_inv ks2 ks1 q ps s'"
proof -
  let ?f = "\<lambda>i t. rbind (vget (one_bus_match s) (int i)) (\<lambda>(d, j).
              rbind (vget ks2 (int d)) (\<lambda>k2. rbind (vget ks1 (int j)) (\<lambda>k1. Inr (add_match k2 k1 t))))"
  let ?P = "\<lambda>t. \<forall>k2 k1. k1 \<in> set (t k2) \<longrightarrow> feasible ks2 ks1 q k2 k1"
  have "\<exists>t. rfold ?f [0..<length ks1] (bus_match_idx s) = Inr t \<and> ?P t"
  proof (rule rfold_total)
    show "?P (bus_match_idx s)" using inv by (simp add: bus_search_inv_def)
  next
    fix i t assume i: "i \<in> set [0..<length ks1]" and t: "?P t"
    obtain d j where dj: "ps ! i = (d, j)" by (cases "ps ! i")
    have in_ps: "(d, j) \<in> set ps" using i ps(2) dj by (metis atLeastLessThan_iff nth_mem set_upt)
    have "map fst ps ! i = [0..<length ks1] ! i" using ps by (simp add: partial_assignment_def)
    then have "d < length ks1" using i ps(2) dj by simp
    moreover have "j < length ks1" using in_ps ps(1) by (auto simp: partial_assignment_def)
    moreover have "feasible ks2 ks1 q (ks2 ! d) (ks1 ! j)" using in_ps ps by (auto simp: feasible_def)
    ultimately show "\<exists>v. ?f i t = Inr v \<and> ?P v"
      using inv i ps(2) dj t len by (auto simp: bus_search_inv_def add_match_def)
  qed
  then obtain t where "rfold ?f [0..<length ks1] (bus_match_idx s) = Inr t" "?P t" by blast
  then show ?thesis using inv by (simp add: record_match_def bus_search_inv_def)
qed

lemma slack_snoc [simp]: "slack ks2 ks1 (ps @ [(d, i)]) = slack ks2 ks1 ps + (ks2 ! d - ks1 ! i)"
  by (simp add: slack_def)

lemma slack_nonneg: "partial_assignment ks2 ks1 q ps \<Longrightarrow> 0 \<le> slack ks2 ks1 ps"
  unfolding partial_assignment_def slack_def by (intro sum_list_nonneg) fastforce

text \<open>An unsigned difference within the quota is the signed one.\<close>

lemma to_size_t_le:
  assumes "0 \<le> x" "x < 2 ^ 31" and "0 \<le> y" "y < 2 ^ 31" and "0 \<le> q" "q < 2 ^ 31"
  shows "to_size_t (x - y) \<le> to_size_t q \<longleftrightarrow> y \<le> x \<and> x - y \<le> q"
proof (cases "y \<le> x")
  case True
  then show ?thesis using assms by (simp add: to_size_t_id)
next
  case False
  have "(x - y) mod 2 ^ 64 = (x - y + 2 ^ 64) mod 2 ^ 64" by simp
  also have "\<dots> = x - y + 2 ^ 64" using False assms by (intro mod_pos_pos_trivial) simp_all
  finally show ?thesis using False assms by (simp add: to_size_t_def)
qed

text \<open>Taking bus \<open>i\<close> of circuit 1 for the next bus of circuit 2, and giving it back.\<close>

definition sizes_ok :: "int list \<Rightarrow> bool" where
  "sizes_ok ks \<longleftrightarrow> (\<forall>k \<in> set ks. 0 \<le> k \<and> k < 2 ^ 31)"

lemma sizes_okD: "sizes_ok ks \<Longrightarrow> i < length ks \<Longrightarrow> 0 \<le> ks ! i \<and> ks ! i < 2 ^ 31"
  by (simp add: sizes_ok_def)

lemma try_bus_sound:
  assumes inv: "bus_search_inv ks2 ks1 q ps s" and ps: "partial_assignment ks2 ks1 q ps" "length ps < length ks1"
    and i: "i < length ks1" and len: "length ks2 = length ks1"
    and ok: "sizes_ok ks2" "sizes_ok ks1" and q: "q < 2 ^ 31"
    and rec: "\<And>ps' s'. length ps' = Suc (length ps) \<Longrightarrow> partial_assignment ks2 ks1 q ps' \<Longrightarrow> bus_search_inv ks2 ks1 q ps' s' \<Longrightarrow>
           \<exists>s''. rec s' = Inr s'' \<and> bus_search_inv ks2 ks1 q ps' s''"
  shows "\<exists>s'. try_bus rec ks2 ks1 (length ps) i s = Inr s' \<and> bus_search_inv ks2 ks1 q ps s'"
proof -
  define k2 k1 where "k2 = ks2 ! length ps" and "k1 = ks1 ! i"
  have k2: "vget ks2 (int (length ps)) = Inr k2" "0 \<le> k2" "k2 < 2 ^ 31"
    using ps(2) len sizes_okD [OF ok(1)] by (simp_all add: k2_def)
  have k1: "vget ks1 (int i) = Inr k1" "0 \<le> k1" "k1 < 2 ^ 31"
    using i sizes_okD [OF ok(2)] by (simp_all add: k1_def)
  have q_now: "0 \<le> quota s" "quota s < 2 ^ 31" "quota s = q - slack ks2 ks1 ps"
    using slack_nonneg [OF ps(1)] ps(1) inv q by (simp_all add: partial_assignment_def bus_search_inv_def)
  have occ: "vget (c1_bus_occupied s) (int i) = Inr (i \<in> snd ` set ps)"
    using inv i by (simp add: bus_search_inv_def)
  show ?thesis
  proof (cases "i \<notin> snd ` set ps \<and> k1 \<le> k2 \<and> k2 - k1 \<le> quota s \<and> \<not> (\<not> new_match s \<and> k1 \<in> set (bus_match_idx s k2))")
    case False
    then show ?thesis using occ k2 k1 inv to_size_t_le [OF k2(2,3) k1(2,3) q_now(1,2)]
      by (simp add: try_bus_def) blast
  next
    case True
    define s1 where "s1 = s\<lparr>new_match := True, one_bus_match := one_bus_match s @ [(length ps, i)],
      quota := to_int32 (quota s - to_size_t (k2 - k1)), c1_bus_occupied := (c1_bus_occupied s)[i := True]\<rparr>"
    let ?ps = "ps @ [(length ps, i)]"
    have diff: "to_size_t (k2 - k1) = k2 - k1" using True k2 k1 by (simp add: to_size_t_id)
    have pa: "partial_assignment ks2 ks1 q ?ps"
      using ps True i q_now by (auto simp: partial_assignment_def k2_def k1_def)
    have inv1: "bus_search_inv ks2 ks1 q ?ps s1"
      using inv True q_now k2 k1 i diff
      by (auto simp: bus_search_inv_def s1_def to_int32_id k2_def k1_def nth_list_update intro!: nth_equalityI)
    obtain s2 where s2: "rec s1 = Inr s2" "bus_search_inv ks2 ks1 q ?ps s2"
      using rec [OF _ pa inv1] by auto
    have back_q: "to_int32 (quota s2 + (k2 - k1)) = q - slack ks2 ks1 ps"
      using s2(2) q_now by (simp add: bus_search_inv_def to_int32_id k2_def k1_def)
    have "bus_search_inv ks2 ks1 q ps (s2\<lparr>one_bus_match := butlast (one_bus_match s2),
        quota := to_int32 (quota s2 + (k2 - k1)), c1_bus_occupied := (c1_bus_occupied s2)[i := False]\<rparr>)"
      using s2(2) True i unfolding back_q
      by (auto simp: bus_search_inv_def nth_list_update split: if_splits intro!: nth_equalityI)
    then show ?thesis using occ k2 k1 True to_size_t_le [OF k2(2,3) k1(2,3) q_now(1,2)] s2(1) diff
      by (auto simp: try_bus_def s1_def)
  qed
qed

lemma recur_match_bus_sound:
  assumes "bus_search_inv ks2 ks1 q ps s" and "partial_assignment ks2 ks1 q ps" and "length ps + n = length ks1"
    and len: "length ks2 = length ks1" and ok: "sizes_ok ks2" "sizes_ok ks1" and q: "q < 2 ^ 31"
  shows "\<exists>s'. recur_match_bus ks2 ks1 n s = Inr s' \<and> bus_search_inv ks2 ks1 q ps s'"
  using assms(1-3)
proof (induction n arbitrary: ps s)
  case 0
  then show ?case using record_match_sound [OF 0(1,2) _ len] by simp
next
  case (Suc n)
  have d: "length ks1 - Suc n = length ps" using Suc(4) by simp
  show ?case unfolding recur_match_bus.simps d
  proof (rule rfold_total)
    show "bus_search_inv ks2 ks1 q ps s" by (rule Suc(2))
  next
    fix i u assume i: "i \<in> set [0..<length ks1]" and u: "bus_search_inv ks2 ks1 q ps u"
    show "\<exists>v. try_bus (recur_match_bus ks2 ks1 n) ks2 ks1 (length ps) i u = Inr v \<and> bus_search_inv ks2 ks1 q ps v"
    proof (rule try_bus_sound [OF u Suc(3) _ _ len ok q])
      show "length ps < length ks1" using Suc(4) by simp
      show "i < length ks1" using i by simp
    qed (use Suc(1,4) in auto)
  qed
qed

section \<open>The whole run\<close>

text \<open>What the run works on: the sizes in descending order, and the quota.\<close>

definition desc_sizes :: "addr list list \<Rightarrow> int list" where
  "desc_sizes bus = std_sort (\<lambda>a b. a > b) (map (\<lambda>xs. int (length xs)) bus)"

definition bus_quota :: "(addr \<Rightarrow> node) \<Rightarrow> module \<Rightarrow> module \<Rightarrow> int" where
  "bus_quota h m1 m2 = int (length (m_gate m2 INPUT)) - int (length (m_gate m1 INPUT)) + extra_buses h m2 - extra_buses h m1"

lemma bus_sizes_map:
  assumes "n \<le> length bus"
  shows "bus_sizes bus n = Inr (map (\<lambda>xs. int (length xs)) (take n bus))"
  unfolding bus_sizes_def using assms
  by (induction n) (simp_all add: rfold_append take_Suc_conv_app_nth)

lemma bus_sizes_short:
  assumes "length bus < n"
  shows "bus_sizes bus n = Inl Bad_Index"
proof -
  have "[0..<n] = [0..<length bus] @ [length bus..<n]" using assms upt_add_eq_append [of 0 "length bus" "n - length bus"] by simp
  moreover have "[length bus..<n] = length bus # [Suc (length bus)..<n]" using assms by (simp add: upt_rec)
  ultimately show ?thesis using bus_sizes_map [of "length bus" bus] unfolding bus_sizes_def
    by (simp add: rfold_append vget_def in_range_def)
qed

lemma match_bus_sound_raw:
  assumes "length (getBusSet m2) = length (getBusSet m1)"
    and ok: "sizes_ok (desc_sizes (getBusSet m1))" "sizes_ok (desc_sizes (getBusSet m2))"
    and q: "0 \<le> bus_quota h m1 m2" "bus_quota h m1 m2 < 2 ^ 31"
  shows "\<exists>t. match_bus h m1 m2 = Inr (length (getBusSet m1), t) \<and>
     (\<forall>k2 k1. k1 \<in> set (t k2) \<longrightarrow> feasible (desc_sizes (getBusSet m2)) (desc_sizes (getBusSet m1)) (bus_quota h m1 m2) k2 k1)"
proof -
  let ?ks1 = "desc_sizes (getBusSet m1)" and ?ks2 = "desc_sizes (getBusSet m2)"
  let ?n = "length (getBusSet m1)" and ?q = "bus_quota h m1 m2"
  let ?s = "\<lparr>quota = ?q, c1_bus_occupied = replicate ?n False, one_bus_match = [], new_match = True, bus_match_idx = (\<lambda>_. [])\<rparr>"
  have inv: "bus_search_inv ?ks2 ?ks1 ?q [] ?s"
    by (simp add: bus_search_inv_def slack_def desc_sizes_def map_replicate_const)
  have start: "partial_assignment ?ks2 ?ks1 ?q []" using q by (simp add: partial_assignment_def slack_def)
  obtain s where s: "recur_match_bus ?ks2 ?ks1 ?n ?s = Inr s" "bus_search_inv ?ks2 ?ks1 ?q [] s"
    using recur_match_bus_sound [OF inv start _ _ ok(2,1) q(2), of ?n] assms(1) by (auto simp: desc_sizes_def)
  have qn: "to_int32 ?q = ?q" using q by (simp add: to_int32_id)
  have "match_bus h m1 m2 = Inr (?n, bus_match_idx s)"
    using s(1) assms(1) qn by (simp add: match_bus_def Let_def bus_sizes_map desc_sizes_def bus_quota_def)
  then show ?thesis using s(2) by (auto simp: bus_search_inv_def)
qed

end
