(* ===== verification/Bus_Props.thy ===== *)
theory Bus_Props
  imports Match_Bus Example_Net
begin

text \<open>The properties of the matching of bus sizes, with their concrete inputs.\<close>

section \<open>Concrete circuits\<close>

text \<open>Buses of 4, 2, 2 inputs in circuit 1 and of 5, 5, 4 inputs in circuit 2.\<close>

definition bus_mod1 :: module where
  "bus_mod1 = ex_module\<lparr>m_bus_set := [[0, 1, 2, 3], [4, 5], [6, 7]],
     m_gate := (\<lambda>t. if t = INPUT then [0, 1, 2, 3, 4, 5, 6, 7] else [])\<rparr>"

definition bus_mod2 :: module where
  "bus_mod2 = ex_module\<lparr>m_bus_set := [[8, 9, 10, 11, 12], [13, 14, 15, 16, 17], [18, 19, 20, 21]],
     m_gate := (\<lambda>t. if t = INPUT then [8, 9, 10, 11, 12, 13, 14, 15, 16, 17, 18, 19, 20, 21] else [])\<rparr>"

definition bus_heap :: "addr \<Rightarrow> node" where
  "bus_heap a = mk_node 0 ''p'' INPUT"

lemma bus_mods [simp]:
  "getBusSet bus_mod1 = [[0, 1, 2, 3], [4, 5], [6, 7]]"
  "getBusSet bus_mod2 = [[8, 9, 10, 11, 12], [13, 14, 15, 16, 17], [18, 19, 20, 21]]"
  "desc_sizes [[0, 1, 2, 3], [4, 5], [6, 7::addr]] = [4, 2, 2]"
  "desc_sizes [[8, 9, 10, 11, 12], [13, 14, 15, 16, 17], [18, 19, 20, 21::addr]] = [5, 5, 4]"
  "bus_quota bus_heap bus_mod1 bus_mod2 = 6"
  by (code_simp | simp add: getBusSet_def bus_mod1_def bus_mod2_def)+

lemma bus_ok [simp]: "sizes_ok [4, 2, 2]" "sizes_ok [5, 5, 4]"
  by (simp_all add: sizes_ok_def)

lemma no_buses [simp]: "getBusSet ex_module = []"
  by (simp add: getBusSet_def ex_module_def)

section \<open>What is recorded\<close>

text \<open>C18: Matching of buses. When both circuits have the same number of buses of more than one input
  and the quota of extra inputs is not negative, \<open>match_bus\<close> returns, and every pair of sizes it
  records occurs in a complete assignment: a one-to-one pairing of all buses in which no bus of
  circuit 2 is smaller than its partner and the differences add up to at most the quota.\<close>

theorem match_bus_sound:
  assumes "length (getBusSet m2) = length (getBusSet m1)"
    and "sizes_ok (desc_sizes (getBusSet m1))" "sizes_ok (desc_sizes (getBusSet m2))"
    and "0 \<le> bus_quota h m1 m2" "bus_quota h m1 m2 < 2 ^ 31"
  shows "\<exists>t. match_bus h m1 m2 = Inr (length (getBusSet m1), t) \<and>
     (\<forall>k2 k1. k1 \<in> set (t k2) \<longrightarrow> feasible (desc_sizes (getBusSet m2)) (desc_sizes (getBusSet m1)) (bus_quota h m1 m2) k2 k1)"
  using assms by (rule match_bus_sound_raw)

theorem match_bus_sound_witness:
  "\<exists>t. match_bus bus_heap bus_mod1 bus_mod2 = Inr (3, t) \<and>
     (\<forall>k2 k1. k1 \<in> set (t k2) \<longrightarrow> feasible [5, 5, 4] [4, 2, 2] 6 k2 k1)"
  using match_bus_sound [of bus_mod2 bus_mod1 bus_heap] by (simp only: bus_mods bus_ok) (simp add: numeral_3_eq_3)

section \<open>What is missed\<close>

lemma feasible_4_4: "feasible [5, 5, 4] [4, 2, 2] 6 4 4"
  unfolding feasible_def by (rule exI [of _ "[(0, 1), (1, 2), (2, 0)]"]) (simp add: partial_assignment_def slack_def)

lemma bus_run:
  "(case match_bus bus_heap bus_mod1 bus_mod2 of Inl e \<Rightarrow> False | Inr (n, t) \<Rightarrow> n = 3 \<and> t 4 = [2])"
  by code_simp

text \<open>C19: The search for the sizes of buses misses assignments: after a complete assignment has been
  recorded, a branch that starts with a recorded pair is cut off, although only its later pairs are
  new. With buses of 5, 5, 4 inputs against 4, 2, 2 the pairing of the two buses of 4 inputs is
  feasible and is not recorded, so no input of the one is ever tried for the other.\<close>

theorem match_bus_incomplete:
  "\<exists>t. match_bus bus_heap bus_mod1 bus_mod2 = Inr (3, t) \<and> feasible [5, 5, 4] [4, 2, 2] 6 4 4 \<and> 4 \<notin> set (t 4)"
  using bus_run feasible_4_4 by (auto split: sum.splits)

text \<open>The search takes the number of buses from circuit 1. When circuit 2 has fewer buses of more
  than one input, \<open>match_bus\<close> indexes its bus vector out of range.\<close>

theorem match_bus_fewer_buses:
  assumes "length (getBusSet m2) < length (getBusSet m1)"
  shows "match_bus h m1 m2 = Inl Bad_Index"
  using assms by (simp add: match_bus_def Let_def bus_sizes_map bus_sizes_short)

theorem match_bus_fewer_buses_witness: "match_bus bus_heap bus_mod1 ex_module = Inl Bad_Index"
  using match_bus_fewer_buses [of ex_module bus_mod1 bus_heap] by (simp only: bus_mods no_buses) simp

end
