(* ===== verification/Cpp_Text.thy ===== *)
theory Cpp_Text
  imports Cpp_Prelude
begin

text \<open>
  The strings and streams of C++ the program uses: \<open>getline\<close> with a delimiter on a stream with its
  state bits, \<open>find\<close>, \<open>erase\<close>, \<open>stoi\<close>, \<open>to_string\<close>, extraction of words with \<open>>>\<close>.
\<close>

section \<open>Characters\<close>

abbreviation newline :: char where
  "newline \<equiv> CHR 0x0A"

definition is_space :: "char \<Rightarrow> bool" where
  "is_space c \<longleftrightarrow> c \<in> set [CHR '' '', CHR 0x09, CHR 0x0A, CHR 0x0B, CHR 0x0C, CHR 0x0D]"

definition digits :: string where
  "digits = ''0123456789''"

definition is_digit :: "char \<Rightarrow> bool" where
  "is_digit c \<longleftrightarrow> c \<in> set digits"

definition digit_val :: "char \<Rightarrow> nat" where
  "digit_val c = length (takeWhile (\<lambda>d. d \<noteq> c) digits)"

section \<open>Numbers\<close>

definition digits_val :: "string \<Rightarrow> nat" where
  "digits_val s = fold (\<lambda>c n. 10 * n + digit_val c) s 0"

fun nat_digits :: "nat \<Rightarrow> string" where
  "nat_digits n = (if n < 10 then [digits ! n] else nat_digits (n div 10) @ [digits ! (n mod 10)])"

declare nat_digits.simps [simp del]

definition to_string :: "int \<Rightarrow> string" where
  "to_string i = (if i < 0 then CHR ''-'' # nat_digits (nat (- i)) else nat_digits (nat i))"

text \<open>\<open>stoi\<close> reads the longest number at the start, after white space.\<close>

definition stoi :: "string \<Rightarrow> int res" where
  "stoi s =
     (let s = dropWhile is_space s;
          neg = (s \<noteq> [] \<and> hd s = CHR ''-'');
          s = (if s \<noteq> [] \<and> (hd s = CHR ''-'' \<or> hd s = CHR ''+'') then tl s else s);
          ds = takeWhile is_digit s;
          v = (if neg then - int (digits_val ds) else int (digits_val ds))
      in if ds = [] then Inl (Throw ''invalid_argument'')
         else if - (2 ^ 31) \<le> v \<and> v < 2 ^ 31 then Inr v else Inl (Throw ''out_of_range''))"

lemma length_digits [simp]: "length digits = 10"
  by (simp add: digits_def)

lemma digit_val_nth: "n < 10 \<Longrightarrow> digit_val (digits ! n) = n"
proof -
  assume "n < 10"
  then have "n \<in> {0, 1, 2, 3, 4, 5, 6, 7, 8, 9}" by auto
  then show ?thesis by (auto simp: digit_val_def digits_def)
qed

lemma is_digit_nth: "n < 10 \<Longrightarrow> is_digit (digits ! n)"
  by (simp add: is_digit_def)

lemma nat_digits_all: "c \<in> set (nat_digits n) \<Longrightarrow> is_digit c"
proof (induction n arbitrary: c rule: nat_digits.induct)
  case (1 n)
  show ?case
  proof (cases "n < 10")
    case True
    then show ?thesis using 1(2) is_digit_nth [of n] by (simp add: nat_digits.simps [of n])
  next
    case False
    then show ?thesis using 1 is_digit_nth [of "n mod 10"] by (auto simp: nat_digits.simps [of n])
  qed
qed

lemma nat_digits_not_empty [simp]: "nat_digits n \<noteq> []"
  by (simp add: nat_digits.simps [of n])

lemma digits_val_nat_digits [simp]: "digits_val (nat_digits n) = n"
proof (induction n rule: nat_digits.induct)
  case (1 n)
  show ?case
  proof (cases "n < 10")
    case True
    then show ?thesis by (simp add: nat_digits.simps [of n] digits_val_def digit_val_nth)
  next
    case False
    have "digits_val (nat_digits n) = 10 * digits_val (nat_digits (n div 10)) + digit_val (digits ! (n mod 10))"
      using False by (simp add: nat_digits.simps [of n] digits_val_def)
    then show ?thesis using 1 False by (simp add: digit_val_nth)
  qed
qed

lemma digit_chars: "is_digit c \<Longrightarrow> \<not> is_space c \<and> c \<noteq> CHR ''-'' \<and> c \<noteq> CHR ''+''"
  by (auto simp: is_digit_def digits_def is_space_def)

text \<open>Printing a number and reading it back, with something that is no digit behind it.\<close>

lemma stoi_to_string:
  assumes "- (2 ^ 31) \<le> i" "i < 2 ^ 31" and t: "t = [] \<or> \<not> is_digit (hd t)"
  shows "stoi (to_string i @ t) = Inr i"
proof -
  have take: "takeWhile is_digit (nat_digits n @ t) = nat_digits n" for n
    using t nat_digits_all by (cases t) (auto simp: takeWhile_append2)
  obtain c cs where first: "nat_digits n = c # cs \<Longrightarrow> True" for n :: nat by blast
  have hd: "\<not> is_space (hd (nat_digits n @ t)) \<and> hd (nat_digits n @ t) \<noteq> CHR ''-'' \<and> hd (nat_digits n @ t) \<noteq> CHR ''+''" for n
    using digit_chars [OF nat_digits_all [of "hd (nat_digits n)" n]] by simp
  have drop: "dropWhile is_space (nat_digits n @ t) = nat_digits n @ t" for n
    using hd [of n] by (cases "nat_digits n @ t") auto
  have minus: "\<not> is_space (CHR ''-'')" by (simp add: is_space_def)
  show ?thesis
  proof (cases "i < 0")
    case True
    then show ?thesis using assms(1,2) take [of "nat (- i)"] minus by (simp add: stoi_def to_string_def Let_def)
  next
    case False
    then show ?thesis using assms(1,2) take [of "nat i"] drop [of "nat i"] hd [of "nat i"] by (simp add: stoi_def to_string_def Let_def)
  qed
qed

lemma to_string_chars: "c \<in> set (to_string i) \<Longrightarrow> is_digit c \<or> c = CHR ''-''"
  by (auto simp: to_string_def nat_digits_all split: if_splits)

lemma to_string_not_empty [simp]: "to_string i \<noteq> []"
  by (simp add: to_string_def)

section \<open>Streams\<close>

text \<open>What is left to read, and whether the stream has not met its end yet.\<close>

record stream =
  rest :: string
  good :: bool

definition stream_of :: "string \<Rightarrow> stream" where
  "stream_of s = \<lparr>rest = s, good = True\<rparr>"

text \<open>
  \<open>getline(s, item, d)\<close>: whether it succeeds, the new value of \<open>item\<close>, the stream. On a stream that
  is not good \<open>item\<close> keeps its value; at the end of a good one it becomes empty.
\<close>

definition getline :: "char \<Rightarrow> string \<Rightarrow> stream \<Rightarrow> bool \<times> string \<times> stream" where
  "getline d item s =
     (if \<not> good s then (False, item, s)
      else if rest s = [] then (False, [], s\<lparr>good := False\<rparr>)
      else if d \<in> set (rest s) then (True, takeWhile (\<lambda>c. c \<noteq> d) (rest s), s\<lparr>rest := tl (dropWhile (\<lambda>c. c \<noteq> d) (rest s))\<rparr>)
      else (True, rest s, \<lparr>rest = [], good = False\<rparr>))"

lemma dropWhile_hd: "d \<in> set xs \<Longrightarrow> dropWhile (\<lambda>c. c \<noteq> d) xs = d # tl (dropWhile (\<lambda>c. c \<noteq> d) xs)"
  by (induction xs) auto

lemma length_after: "d \<in> set xs \<Longrightarrow> length (tl (dropWhile (\<lambda>c. c \<noteq> d) xs)) < length xs"
  using dropWhile_hd [of d xs] length_dropWhile_le [of "\<lambda>c. c \<noteq> d" xs] by (metis length_Cons not_less_eq less_Suc_eq_le)

lemma getline_ok_shorter: "getline d item s = (True, item', s') \<Longrightarrow> length (rest s') < length (rest s)"
  by (auto simp: getline_def length_after simp del: length_tl split: if_splits)

lemma getline_good_shorter: "getline d item s = (b, item', s') \<Longrightarrow> good s' \<Longrightarrow> length (rest s') < length (rest s)"
  by (auto simp: getline_def length_after simp del: length_tl split: if_splits)

lemma getline_le: "getline d item s = (b, item', s') \<Longrightarrow> length (rest s') \<le> length (rest s)"
  by (auto simp: getline_def less_imp_le_nat [OF length_after] simp del: length_tl split: if_splits)

lemma takeWhile_until: "d \<notin> set xs \<Longrightarrow> takeWhile (\<lambda>c. c \<noteq> d) (xs @ d # ys) = xs"
  by (induction xs) auto

lemma dropWhile_until: "d \<notin> set xs \<Longrightarrow> dropWhile (\<lambda>c. c \<noteq> d) (xs @ d # ys) = d # ys"
  by (induction xs) auto

lemma getline_split:
  "d \<notin> set xs \<Longrightarrow> getline d item (stream_of (xs @ d # ys)) = (True, xs, stream_of ys)"
  by (simp add: getline_def stream_of_def takeWhile_until dropWhile_until)

lemma getline_last:
  "d \<notin> set xs \<Longrightarrow> xs \<noteq> [] \<Longrightarrow> getline d item (stream_of xs) = (True, xs, \<lparr>rest = [], good = False\<rparr>)"
  by (simp add: getline_def stream_of_def)

lemma getline_empty: "getline d item (stream_of []) = (False, [], \<lparr>rest = [], good = False\<rparr>)"
  by (simp add: getline_def stream_of_def)

lemma getline_bad: "\<not> good s \<Longrightarrow> getline d item s = (False, item, s)"
  by (simp add: getline_def)

text \<open>\<open>s >> word\<close>: the next word, or nothing at the end.\<close>

definition get_word :: "stream \<Rightarrow> (string \<times> stream) option" where
  "get_word s =
     (let t = dropWhile is_space (rest s)
      in if \<not> good s \<or> t = [] then None
         else let w = takeWhile (\<lambda>c. \<not> is_space c) t; u = dropWhile (\<lambda>c. \<not> is_space c) t
              in Some (w, \<lparr>rest = u, good = (u \<noteq> [])\<rparr>))"

section \<open>Strings\<close>

text \<open>\<open>s.find(c)\<close>: the position, or the length of the string for \<open>npos\<close>.\<close>

definition find_char :: "char \<Rightarrow> string \<Rightarrow> nat option" where
  "find_char c s = (if c \<in> set s then Some (length (takeWhile (\<lambda>d. d \<noteq> c) s)) else None)"

text \<open>\<open>RemoveSpace\<close> of \<open>Parser.cpp\<close>: no spaces, and no backslash in front.\<close>

definition RemoveSpace :: "string \<Rightarrow> string" where
  "RemoveSpace s = (let t = filter (\<lambda>c. c \<noteq> CHR '' '') s in if t \<noteq> [] \<and> hd t = CHR 0x5C then tl t else t)"

lemma RemoveSpace_id: "CHR '' '' \<notin> set s \<Longrightarrow> s = [] \<or> hd s \<noteq> CHR 0x5C \<Longrightarrow> RemoveSpace s = s"
proof -
  assume s: "CHR '' '' \<notin> set s" "s = [] \<or> hd s \<noteq> CHR 0x5C"
  then have "filter (\<lambda>c. c \<noteq> CHR '' '') s = s" by (auto simp: filter_id_conv)
  then show ?thesis using s(2) by (auto simp: RemoveSpace_def Let_def)
qed

text \<open>\<open>s.back()\<close>, \<open>s.pop_back()\<close> and \<open>s.erase(s.end() - 2, s.end())\<close>: undefined on shorter strings.\<close>

definition str_back :: "string \<Rightarrow> char res" where
  "str_back s = (if s = [] then Inl Bad_Index else Inr (last s))"

definition erase_two :: "string \<Rightarrow> string res" where
  "erase_two s = (if length s < 2 then Inl Bad_Index else Inr (take (length s - 2) s))"

lemma str_back_snoc [simp]: "str_back (s @ [c]) = Inr c"
  by (simp add: str_back_def)

lemma erase_two_snoc [simp]: "erase_two (s @ [c, d]) = Inr s"
  by (simp add: erase_two_def)

end
