(* ===== verification/Net_Build.thy ===== *)
theory Net_Build
  imports Net_Types
begin

text \<open>
  How a \<open>Module\<close> is built: its constructor, \<open>AddNode\<close>, \<open>Connect\<close>, \<open>setBus\<close>, \<open>Link\<close> and
  \<open>Simplification\<close> of \<open>Netlist.h\<close>. The operations change the record of the module and the heap of
  its nodes. The console output is not modelled.
\<close>

type_synonym net = "module \<times> (addr \<Rightarrow> node)"

section \<open>Adding and connecting nodes\<close>

text \<open>The constructor of \<open>Module\<close>: the nodes of the two constants.\<close>

definition new_module :: "string \<Rightarrow> int \<Rightarrow> int \<Rightarrow> store \<Rightarrow> module \<times> store" where
  "new_module s idx bp st =
     (let (np0, st) = new_node ''1'b0'' CONSTANT st;
          (np1, st) = new_node ''1'b1'' CONSTANT st;
          h = upd np0 (n_signal_update (\<lambda>_. ZERO)) (heap st);
          h = upd np1 (n_signal_update (\<lambda>_. ONE)) h;
          h = upd np1 (n_idx_update (\<lambda>_. 0)) h;
          h = upd np0 (n_idx_update (\<lambda>_. 0)) h
      in (\<lparr>m_moduleIndex = idx, m_cur_bit_place = bp, m_name = s, m_netlist = [], m_gate = (\<lambda>_. []),
            m_ctrl_signal = [], m_bus_set = [],
            m_name_to_node = Map.empty(''1'b0'' \<mapsto> np0, ''1'b1'' \<mapsto> np1),
            m_set_to_group_idx = Map.empty, m_bus_signature = [], m_allEquation = [], m_group = [],
            m_gate_path = [], m_path_cnt = (\<lambda>_. 0), m_first_pi = [], m_input_sig = []\<rparr>,
          st\<lparr>heap := h\<rparr>))"

definition AddNode :: "addr \<Rightarrow> net \<Rightarrow> net" where
  "AddNode np = (\<lambda>(m, h).
     let m = m\<lparr>m_netlist := m_netlist m @ [np], m_name_to_node := (m_name_to_node m)(n_name (h np) \<mapsto> np)\<rparr>;
         t = n_type (h np)
     in if t = WIRE then (m, h)
        else (m\<lparr>m_gate := (m_gate m)(t := m_gate m t @ [np])\<rparr>,
              upd np (n_idx_update (\<lambda>_. int (length (m_gate m t)))) h))"

text \<open>\<open>_name_to_node[s]\<close>: \<open>operator[]\<close> of a missing name gives a null pointer.\<close>

definition NameToNode :: "module \<Rightarrow> string \<Rightarrow> addr option" where
  "NameToNode m s = m_name_to_node m s"

definition connect_error :: err where
  "connect_error = Exit ''Connecting Fail!''"

definition connect_out :: "addr \<Rightarrow> addr \<Rightarrow> (addr \<Rightarrow> node) \<Rightarrow> (addr \<Rightarrow> node)" where
  "connect_out gate np h =
     upd np (\<lambda>n. n\<lparr>n_fi := n_fi n @ [gate]\<rparr>) (upd gate (\<lambda>n. n\<lparr>n_fo := n_fo n @ [np]\<rparr>) h)"

definition connect_in :: "addr \<Rightarrow> addr \<Rightarrow> (addr \<Rightarrow> node) \<Rightarrow> (addr \<Rightarrow> node)" where
  "connect_in gate np h =
     upd np (\<lambda>n. n\<lparr>n_fo := n_fo n @ [gate]\<rparr>) (upd gate (\<lambda>n. n\<lparr>n_fi := n_fi n @ [np]\<rparr>) h)"

definition Connect :: "addr \<Rightarrow> string list \<Rightarrow> net \<Rightarrow> net res" where
  "Connect gate vs = (\<lambda>(m, h).
     let h = upd gate (n_idx_update (\<lambda>_. -1)) h
     in case vs of
          [] \<Rightarrow> Inl Bad_Index
        | out # ins \<Rightarrow>
            (case m_name_to_node m out of
               None \<Rightarrow> Inl connect_error
             | Some np \<Rightarrow>
                 rbind (rfold (\<lambda>s h. case m_name_to_node m s of
                                None \<Rightarrow> Inl connect_error
                              | Some np \<Rightarrow> Inr (connect_in gate np h))
                          ins (connect_out gate np h))
                   (\<lambda>h. Inr (m, h))))"

section \<open>Buses\<close>

definition bus_member :: "int \<Rightarrow> module \<Rightarrow> string \<Rightarrow> addr list \<times> (addr \<Rightarrow> node) \<Rightarrow> (addr list \<times> (addr \<Rightarrow> node)) res" where
  "bus_member k m s = (\<lambda>(tmp, h).
     case m_name_to_node m s of
       None \<Rightarrow> Inl Null_Deref
     | Some np \<Rightarrow> Inr (tmp @ [np], upd np (\<lambda>n. n\<lparr>n_bus_idx := k, n_bus_indices := n_bus_indices n @ [k]\<rparr>) h))"

text \<open>The exception the code makes for one of the benchmarks.\<close>

definition n84_case :: "module \<Rightarrow> string list \<Rightarrow> addr list \<Rightarrow> addr list res" where
  "n84_case m bus tmp =
     (if m_moduleIndex m = 0 then
        (case bus of
           [] \<Rightarrow> Inl Bad_Index
         | s # _ \<Rightarrow> (case m_name_to_node m ''n84'' of
                       Some np \<Rightarrow> Inr (if s = ''n38'' \<and> length tmp = 7 then tmp @ [np] else tmp)
                     | None \<Rightarrow> Inr tmp))
      else Inr tmp)"

definition add_bus :: "string list \<Rightarrow> net \<Rightarrow> net res" where
  "add_bus bus = (\<lambda>(m, h).
     let k = int (length (m_bus_set m)) in
     rbind (rfold (bus_member k m) bus ([], h)) (\<lambda>(tmp, h).
     rbind (n84_case m bus tmp) (\<lambda>tmp.
     Inr (m\<lparr>m_bus_set := m_bus_set m @ [tmp]\<rparr>, h))))"

text \<open>Sorting reads the sizes of the buses only when there are two indices to compare.\<close>

definition bus_lt :: "addr list list \<Rightarrow> int \<Rightarrow> int \<Rightarrow> bool" where
  "bus_lt bs a b \<longleftrightarrow> length (bs ! nat a) < length (bs ! nat b)"

definition sort_indices :: "addr list list \<Rightarrow> int list \<Rightarrow> int list res" where
  "sort_indices bs ks =
     (if length ks < 2 \<or> list_all (in_range bs) ks then Inr (std_sort (bus_lt bs) ks) else Inl Bad_Index)"

definition bus_of_port :: "addr \<Rightarrow> net \<Rightarrow> net res" where
  "bus_of_port x = (\<lambda>(m, h).
     if n_bus_idx (h x) = -1 then
       let k = int (length (m_bus_set m))
       in Inr (m\<lparr>m_bus_set := m_bus_set m @ [[x]]\<rparr>,
           upd x (\<lambda>n. n\<lparr>n_bus_idx := k, n_bus_indices := n_bus_indices n @ [k]\<rparr>) h)
     else rbind (sort_indices (m_bus_set m) (n_bus_indices (h x))) (\<lambda>ks.
            Inr (m, upd x (n_bus_indices_update (\<lambda>_. ks)) h)))"

text \<open>The four counters: buses and buses of one member, of inputs and of the others.\<close>

type_synonym bus_counts = "(nat \<times> nat) \<times> (nat \<times> nat)"

definition count_buses :: "(addr \<Rightarrow> node) \<Rightarrow> addr list list \<Rightarrow> bus_counts res" where
  "count_buses h bs = rfold (\<lambda>bus ((in_cnt, single_in), (out_cnt, single_out)).
     case bus of
       [] \<Rightarrow> Inl Bad_Index
     | b # _ \<Rightarrow>
         let one = (if length bus = 1 then 1 else 0)
         in Inr (if n_type (h b) = INPUT then ((in_cnt + 1, single_in + one), (out_cnt, single_out))
                 else ((in_cnt, single_in), (out_cnt + 1, single_out + one)))) bs ((0, 0), (0, 0))"

definition setBus :: "string list list \<Rightarrow> net \<Rightarrow> (bus_counts \<times> net) res" where
  "setBus bus_set mh =
     rbind (rfold add_bus bus_set mh) (\<lambda>(m, h).
     rbind (rfold bus_of_port (m_gate m INPUT @ m_gate m OUTPUT) (m, h)) (\<lambda>(m, h).
     rbind (count_buses h (m_bus_set m)) (\<lambda>cnt.
     Inr (cnt, m\<lparr>m_bus_signature := replicate (length (m_bus_set m)) 0\<rparr>, h))))"

section \<open>\<open>Simplification\<close>\<close>

text \<open>The list of nodes of one name is linked from bit 0 on.\<close>

fun link_pairs :: "addr list \<Rightarrow> (addr \<Rightarrow> node) \<Rightarrow> (addr \<Rightarrow> node)" where
  "link_pairs (x # y # xs) h =
     link_pairs (y # xs) (upd y (n_link_left_update (\<lambda>_. Some x)) (upd x (n_link_right_update (\<lambda>_. Some y)) h))"
| "link_pairs _ h = h"

definition Link :: "addr list \<Rightarrow> (addr \<Rightarrow> node) \<Rightarrow> (addr \<Rightarrow> node) res" where
  "Link linker h =
     (case linker of
        [] \<Rightarrow> Inl Bad_Index
      | head # _ \<Rightarrow>
          Inr (fold (\<lambda>x. upd x (\<lambda>n. n\<lparr>n_head := head, n_bit_len := int (length linker)\<rparr>)) linker
                 (link_pairs linker h)))"

text \<open>\<open>_name.substr(0, _name.find('['))\<close>, when there is a bracket.\<close>

definition base_name :: "string \<Rightarrow> string option" where
  "base_name s = (if CHR ''['' \<in> set s then Some (takeWhile (\<lambda>c. c \<noteq> CHR ''['') s) else None)"

definition link_port :: "addr \<Rightarrow> string \<times> addr list \<times> (addr \<Rightarrow> node) \<Rightarrow> (string \<times> addr list \<times> (addr \<Rightarrow> node)) res" where
  "link_port np = (\<lambda>(prevName, linker, h).
     case base_name (n_name (h np)) of
       None \<Rightarrow> Inr (prevName, linker, upd np (n_bit_len_update (\<lambda>_. 1)) h)
     | Some nowName \<Rightarrow>
         let h = upd np (n_name_update (\<lambda>_. nowName)) h in
         if prevName = nowName then Inr (nowName, linker @ [np], h)
         else rbind (if linker \<noteq> [] then Link linker h else Inr h) (\<lambda>h. Inr (nowName, [np], h)))"

definition link_ports :: "module \<Rightarrow> (addr \<Rightarrow> node) \<Rightarrow> (addr \<Rightarrow> node) res" where
  "link_ports m h =
     rbind (rfold link_port (m_gate m INPUT @ m_gate m OUTPUT) ('''', [], h)) (\<lambda>(prevName, linker, h).
     if linker \<noteq> [] then Link linker h else Inr h)"

text \<open>
  The loop over the fan-in of \<open>out\<close> that erases \<open>np\<close>, counts it, and puts \<open>prevgate\<close> in: in front
  and inverted when \<open>np\<close> is an inverter, at the back otherwise.
\<close>

definition reroute :: "addr \<Rightarrow> addr \<Rightarrow> bool \<Rightarrow> addr \<Rightarrow> (addr \<Rightarrow> node) \<Rightarrow> (addr \<Rightarrow> node)" where
  "reroute np prevgate neg out h =
     (let repeat = length (filter (\<lambda>a. a = np) (n_fi (h out)));
          rest = filter (\<lambda>a. a \<noteq> np) (n_fi (h out))
      in if neg then upd out (\<lambda>n. n\<lparr>n_inv := n_inv n + repeat, n_fi := replicate repeat prevgate @ rest\<rparr>) h
         else upd out (\<lambda>n. n\<lparr>n_fi := rest @ replicate repeat prevgate\<rparr>) h)"

definition no_fanin :: err where
  "no_fanin = Exit ''This node is no fan-in!''"

text \<open>
  An output that is read by gates: its readers are connected to its driver. A node that is its own
  driver makes the code insert a vector into itself.
\<close>

definition free_output :: "addr \<Rightarrow> (addr \<Rightarrow> node) \<Rightarrow> (addr \<Rightarrow> node) res" where
  "free_output x h =
     (case n_fi (h x) of
        [] \<Rightarrow> Inl no_fanin
      | prevgate # _ \<Rightarrow>
          if prevgate = x then Inl Bad_Index
          else
            let h = upd prevgate (\<lambda>n. n\<lparr>n_fo := n_fo n @ n_fo (h x)\<rparr>) h;
                h = fold (reroute x prevgate False) (n_fo (h x)) h
            in Inr (upd x (n_fo_update (\<lambda>_. [])) h))"

text \<open>A wire, buffer or inverter is bypassed; the node is taken off the netlist by the caller.\<close>

definition bypass :: "addr \<Rightarrow> (addr \<Rightarrow> node) \<Rightarrow> (addr \<Rightarrow> node) res" where
  "bypass np h =
     (case n_fi (h np) of
        [] \<Rightarrow> Inl no_fanin
      | prevgate # _ \<Rightarrow>
          if prevgate = np then Inl Bad_Index
          else
            let h = upd prevgate (\<lambda>n. n\<lparr>n_fo := remove1 np (n_fo n) @ n_fo (h np)\<rparr>) h
            in Inr (fold (reroute np prevgate (n_type (h np) = INV)) (n_fo (h np)) h))"

definition soft :: "gtype \<Rightarrow> bool" where
  "soft t \<longleftrightarrow> t = WIRE \<or> t = BUF \<or> t = INV"

text \<open>The state is the module with the part of the netlist that stays, and the heap.\<close>

definition simplify_node :: "addr \<Rightarrow> net \<Rightarrow> net res" where
  "simplify_node np = (\<lambda>(m, h).
     if soft (n_type (h np)) then
       rbind (bypass np h) (\<lambda>h'. Inr (m\<lparr>m_name_to_node := (m_name_to_node m)(n_name (h np) := None)\<rparr>, h'))
     else Inr (m\<lparr>m_netlist := m_netlist m @ [np]\<rparr>, h))"

definition Simplification :: "net \<Rightarrow> net res" where
  "Simplification = (\<lambda>(m, h).
     rbind (link_ports m h) (\<lambda>h.
     rbind (rfold free_output (m_gate m OUTPUT) h) (\<lambda>h.
     rfold simplify_node (m_netlist m) (m\<lparr>m_netlist := []\<rparr>, h))))"

end
