(* ===== verification/Net_Trace.thy ===== *)
theory Net_Trace
  imports Net_Build
begin

text \<open>
  Traversals of the fan-in: \<open>CollectPI\<close> and \<open>TraceInputs\<close> (the primary inputs of each output),
  \<open>CountGate\<close> (gates on the paths from outputs to inputs, and the signatures), the XOR trees of
  \<open>countInvForXORTree\<close> and \<open>findXORTreeRoot\<close>.
\<close>

section \<open>\<open>CollectPI\<close> and \<open>TraceInputs\<close>\<close>

fun CollectPI :: "nat \<Rightarrow> addr \<Rightarrow> addr \<Rightarrow> (addr \<Rightarrow> node) \<Rightarrow> (addr \<Rightarrow> node) res" where
  "CollectPI 0 out now h = Inl Stack_Overflow"
| "CollectPI (Suc k) out now h =
     (if n_type (h now) = INPUT then Inr (upd out (\<lambda>n. n\<lparr>n_pi_idx := n_pi_idx n @ [n_idx (h now)]\<rparr>) h)
      else rfold (CollectPI k out) (n_fi (h now)) h)"

definition trace_output :: "nat \<Rightarrow> addr \<Rightarrow> (addr \<Rightarrow> node) \<Rightarrow> (addr \<Rightarrow> node) res" where
  "trace_output k out h =
     rbind (CollectPI k out out h) (\<lambda>h.
     Inr (upd out (\<lambda>n. n\<lparr>n_pi_idx := sort (Unique (n_pi_idx n))\<rparr>) h))"

definition TraceInputs :: "nat \<Rightarrow> net \<Rightarrow> net res" where
  "TraceInputs k = (\<lambda>(m, h). rbind (rfold (trace_output k) (m_gate m OUTPUT) h) (\<lambda>h. Inr (m, h)))"

section \<open>\<open>CountGate\<close>\<close>

text \<open>The loop over the fan-in of one node taken from the queue. The counters are \<open>int\<close>s: an overflow is an error.\<close>

definition count_in :: "(addr \<Rightarrow> node) \<Rightarrow> addr \<Rightarrow> int \<Rightarrow> addr \<Rightarrow> int list \<times> (addr \<times> int) list \<Rightarrow> (int list \<times> (addr \<times> int) list) res" where
  "count_in h now cnt inp = (\<lambda>(row, Q).
     if n_type (h inp) = INPUT then
       rbind (vget row (n_idx (h inp))) (\<lambda>v. rbind (add_int v cnt) (\<lambda>v. rbind (vset row (n_idx (h inp)) v) (\<lambda>row. Inr (row, Q))))
     else rbind (if n_type (h now) = n_type (h inp) then Inr cnt else add_int cnt 1) (\<lambda>c. Inr (row, Q @ [(inp, c)])))"

text \<open>The queue \<open>Q\<close>, with fuel for the number of nodes taken from it.\<close>

fun count_bfs :: "nat \<Rightarrow> (addr \<Rightarrow> node) \<Rightarrow> (addr \<times> int) list \<Rightarrow> int list \<Rightarrow> int list res" where
  "count_bfs n h [] row = Inr row"
| "count_bfs 0 h ((now, cnt) # Q) row = Inl Hang"
| "count_bfs (Suc n) h ((now, cnt) # Q) row =
     rbind (rfold (count_in h now cnt) (n_fi (h now)) (row, Q)) (\<lambda>(row, Q). count_bfs n h Q row)"

type_synonym count_state = "int list list \<times> (int \<Rightarrow> int) \<times> (addr \<Rightarrow> node)"

definition sign_input :: "addr list \<Rightarrow> addr \<Rightarrow> int list \<Rightarrow> int \<Rightarrow> (int \<Rightarrow> int) \<times> (addr \<Rightarrow> node) \<Rightarrow> ((int \<Rightarrow> int) \<times> (addr \<Rightarrow> node)) res" where
  "sign_input inputs out row j = (\<lambda>(path_cnt, h).
     rbind (vget row j) (\<lambda>v. rbind (vget inputs j) (\<lambda>a. rbind (add_int (path_cnt v) 1) (\<lambda>c.
     Inr (path_cnt(v := c),
          upd a (\<lambda>n. n\<lparr>n_signature := n_signature n @ [v]\<rparr>) (upd out (\<lambda>n. n\<lparr>n_signature := n_signature n @ [v]\<rparr>) h))))))"

definition count_output :: "nat \<Rightarrow> addr list \<Rightarrow> addr \<Rightarrow> count_state \<Rightarrow> count_state res" where
  "count_output k inputs out = (\<lambda>(path, path_cnt, h).
     rbind (vget path (n_idx (h out))) (\<lambda>row.
     rbind (count_bfs k h [(out, 0)] row) (\<lambda>row.
     rbind (vset path (n_idx (h out)) row) (\<lambda>path.
     rbind (rfold (sign_input inputs out row) (n_pi_idx (h out)) (path_cnt, h)) (\<lambda>(path_cnt, h).
     Inr (path, path_cnt, upd out (\<lambda>n. n\<lparr>n_signature := std_sort (\<lambda>a b. a > b) (n_signature n)\<rparr>) h))))))"

text \<open>
  The most frequent value of a signature. \<open>ord\<close> gives the iteration order of the
  \<open>unordered_map\<close>, which the standard leaves open.
\<close>

definition mode_step :: "int list \<Rightarrow> int \<Rightarrow> int \<times> int \<Rightarrow> int \<times> int" where
  "mode_step sig key = (\<lambda>(max_count, mode).
     let c = int (count_list sig key)
     in if c > max_count then (c, key) else if c = max_count then (max_count, max key mode) else (max_count, mode))"

definition sig_mode :: "(int list \<Rightarrow> int list) \<Rightarrow> int list \<Rightarrow> int" where
  "sig_mode ord sig = (if sig = [] then -1 else snd (fold (mode_step sig) (ord (remdups sig)) (0, -1)))"

definition CountGate :: "nat \<Rightarrow> (int list \<Rightarrow> int list) \<Rightarrow> net \<Rightarrow> net res" where
  "CountGate k ord = (\<lambda>(m, h).
     rbind (rfold (count_output k (m_gate m INPUT)) (m_gate m OUTPUT)
              (replicate (length (m_gate m OUTPUT)) (replicate (length (m_gate m INPUT)) 0), m_path_cnt m, h))
       (\<lambda>(path, path_cnt, h).
     Inr (m\<lparr>m_gate_path := path, m_path_cnt := path_cnt,
            m_input_sig := map (\<lambda>a. sig_mode ord (n_signature (h a))) (m_gate m INPUT)\<rparr>, h)))"

section \<open>XOR trees\<close>

fun countInvForXORTree :: "nat \<Rightarrow> (addr \<Rightarrow> node) \<Rightarrow> addr \<Rightarrow> nat res" where
  "countInvForXORTree 0 h gate = Inl Stack_Overflow"
| "countInvForXORTree (Suc k) h gate =
     (if n_type (h gate) = XOR then
        rbind (vget (n_fi (h gate)) 0) (\<lambda>a. rbind (countInvForXORTree k h a) (\<lambda>x.
        rbind (vget (n_fi (h gate)) 1) (\<lambda>b. rbind (countInvForXORTree k h b) (\<lambda>y.
        Inr (n_inv (h gate) + x + y)))))
      else Inr 0)"

fun findXORTreeRoot :: "nat \<Rightarrow> (addr \<Rightarrow> node) \<Rightarrow> addr \<Rightarrow> (addr \<times> int) list \<Rightarrow> (addr \<times> int) list res" where
  "findXORTreeRoot 0 h now xor_root = Inl Stack_Overflow"
| "findXORTreeRoot (Suc k) h now xor_root =
     rfold (\<lambda>(idx, inp) xor_root.
       rbind (if n_type (h now) \<noteq> OUTPUT \<and> n_type (h now) \<noteq> XOR \<and> n_type (h inp) = XOR then
                rbind (countInvForXORTree k h inp) (\<lambda>cnt.
                Inr (xor_root @ [(inp, int (((if idx < n_inv (h now) then 1 else 0) + cnt) mod 2))]))
              else Inr xor_root)
         (findXORTreeRoot k h inp))
       (zip [0..<length (n_fi (h now))] (n_fi (h now))) xor_root"

end
