(* ===== verification/Net_Parser.thy ===== *)
theory Net_Parser
  imports Cpp_Text Net_Trace
begin

text \<open>
  \<open>Parser\<close>, \<open>MakeLine\<close> and \<open>DeleteGateName\<close> of \<open>Parser.cpp\<close>: the text of a gate-level netlist is
  read statement by statement, and the module is built on the way. The file that \<open>printBT\<close> writes
  and the console output are not modelled.
\<close>

section \<open>Statements\<close>

text \<open>
  The loop of \<open>MakeLine\<close>: lines are joined until there is a semicolon. At the end of the file
  \<open>getline\<close> fails and the loop goes on for ever.
\<close>

function more_lines :: "string \<Rightarrow> string \<Rightarrow> stream \<Rightarrow> (string \<times> stream) res" where
  "more_lines line item ifs =
     (if CHR '';'' \<in> set line then Inr (line, ifs)
      else case getline newline item ifs of
             (ok, item, ifs') \<Rightarrow> if good ifs then more_lines (line @ item) item ifs' else Inl Hang)"
  by pat_completeness auto
termination
proof (relation "measure (\<lambda>(line, item, s). length (rest s) + (if good s then 1 else 0))", goal_cases)
  case (2 line item ifs ok y item' ifs')
  then have g: "getline newline item ifs = (ok, item', ifs')" by simp
  show ?case using getline_good_shorter [OF g] getline_le [OF g] 2 by (cases "good ifs'") auto
qed simp

definition MakeLine :: "string \<Rightarrow> stream \<Rightarrow> (string \<times> stream) res" where
  "MakeLine line ifs = (if line = ''endmodule'' then Inr (line, ifs) else more_lines line '''' ifs)"

text \<open>\<open>while(item == "") getline(ss, item, ' ')\<close>.\<close>

function next_item :: "stream \<Rightarrow> (string \<times> stream) res" where
  "next_item ss =
     (case getline CHR '' '' '''' ss of
        (ok, item, ss') \<Rightarrow> if item \<noteq> '''' then Inr (item, ss') else if good ss' then next_item ss' else Inl Hang)"
  by pat_completeness auto
termination
  by (relation "measure (\<lambda>s. length (rest s))") (auto dest: getline_good_shorter [OF sym])

declare more_lines.simps [simp del] next_item.simps [simp del]

lemma more_lines_le: "more_lines line item ifs = Inr (l, ifs') \<Longrightarrow> length (rest ifs') \<le> length (rest ifs)"
proof (induction line item ifs rule: more_lines.induct)
  case (1 line item ifs)
  obtain ok item1 ifs1 where g: "getline newline item ifs = (ok, item1, ifs1)" by (metis prod_cases3)
  show ?case
  proof (cases "CHR '';'' \<in> set line")
    case True
    then show ?thesis using 1(2) by (simp add: more_lines.simps [of line])
  next
    case False
    then have "good ifs" "more_lines (line @ item1) item1 ifs1 = Inr (l, ifs')"
      using 1(2) g by (auto simp: more_lines.simps [of line] split: if_splits)
    then show ?thesis using 1(1) [OF False g [symmetric] refl] getline_le [OF g] by simp
  qed
qed

lemma MakeLine_le: "MakeLine line ifs = Inr (l, ifs') \<Longrightarrow> length (rest ifs') \<le> length (rest ifs)"
  by (auto simp: MakeLine_def dest: more_lines_le split: if_splits)

section \<open>The state of the parser\<close>

record parse_state =
  ps_modules :: "module list"
  ps_store :: store
  ps_gate_index :: int
  ps_wires :: int

definition on_net :: "nat \<Rightarrow> (net \<Rightarrow> net res) \<Rightarrow> parse_state \<Rightarrow> parse_state res" where
  "on_net i f s =
     rbind (vget (ps_modules s) (int i)) (\<lambda>m. rbind (f (m, heap (ps_store s))) (\<lambda>(m, h).
     Inr (s\<lparr>ps_modules := (ps_modules s)[i := m], ps_store := (ps_store s)\<lparr>heap := h\<rparr>\<rparr>)))"

text \<open>\<open>Node* np = new Node(name, t); myModule[i]->AddNode(np)\<close>.\<close>

definition new_and_add :: "nat \<Rightarrow> string \<Rightarrow> gtype \<Rightarrow> parse_state \<Rightarrow> (addr \<times> parse_state) res" where
  "new_and_add i name t s =
     (let (np, st) = new_node name t (ps_store s)
      in rbind (on_net i (\<lambda>mh. Inr (AddNode np mh)) (s\<lparr>ps_store := st\<rparr>)) (\<lambda>s. Inr (np, s)))"

section \<open>Declarations\<close>

text \<open>The range of a bus: \<open>[n:m]\<close> in front of the names.\<close>

definition parse_range :: "string \<Rightarrow> (int \<times> int \<times> string) res" where
  "parse_range item =
     (if item \<noteq> [] \<and> hd item = CHR ''['' then
        (let found = (case find_char CHR '':'' item of None \<Rightarrow> 0 | Some k \<Rightarrow> Suc k);
             close = (case find_char CHR '']'' item of None \<Rightarrow> 0 | Some k \<Rightarrow> Suc k)
         in rbind (stoi (drop 1 item)) (\<lambda>n. rbind (stoi (drop found item)) (\<lambda>m. Inr (n, m, drop close item))))
      else Inr (0, 0, item))"

definition count_wire :: "gtype \<Rightarrow> parse_state \<Rightarrow> parse_state" where
  "count_wire t s = (if t = WIRE then s\<lparr>ps_wires := ps_wires s + 1\<rparr> else s)"

text \<open>Whether the name was there already, and the state with the node added if it was not.\<close>

definition declare_name :: "nat \<Rightarrow> gtype \<Rightarrow> string \<Rightarrow> parse_state \<Rightarrow> (bool \<times> parse_state) res" where
  "declare_name i t name s =
     rbind (vget (ps_modules s) (int i)) (\<lambda>m.
     if NameToNode m name \<noteq> None then Inr (True, s)
     else rbind (new_and_add i name t s) (\<lambda>(np, s). Inr (False, count_wire t s)))"

definition bit_name :: "string \<Rightarrow> int \<Rightarrow> string" where
  "bit_name item k = item @ ''['' @ to_string k @ '']''"

definition declare_item :: "nat \<Rightarrow> gtype \<Rightarrow> int \<Rightarrow> int \<Rightarrow> string \<Rightarrow> parse_state \<Rightarrow> parse_state res" where
  "declare_item i t n m item s =
     rbind (str_back item) (\<lambda>c.
     let item = RemoveSpace (if c = CHR '';'' then butlast item else item)
     in if n = 0 \<and> m = 0 then rbind (declare_name i t item s) (\<lambda>(b, s). Inr s)
        else let (n, m) = (if n > m then (m, n) else (n, m))
             in rbind (search (\<lambda>k. declare_name i t (bit_name item k)) [n..m] s) (\<lambda>(b, s). Inr s))"

function declare_items :: "nat \<Rightarrow> gtype \<Rightarrow> int \<Rightarrow> int \<Rightarrow> string \<Rightarrow> stream \<Rightarrow> parse_state \<Rightarrow> parse_state res" where
  "declare_items i t n m item ss s =
     rbind (declare_item i t n m item s) (\<lambda>s.
     case getline CHR '','' item ss of
       (ok, item, ss') \<Rightarrow> if ok then declare_items i t n m item ss' s else Inr s)"
  by pat_completeness auto
termination
  by (relation "measure (\<lambda>(i, t, n, m, item, ss, s). length (rest ss))") (auto dest: getline_ok_shorter [OF sym])

declare declare_items.simps [simp del]

definition parse_declaration :: "nat \<Rightarrow> string \<Rightarrow> stream \<Rightarrow> parse_state \<Rightarrow> parse_state res" where
  "parse_declaration i op ss s =
     (case getline CHR '','' op ss of
        (ok, item, ss) \<Rightarrow>
          rbind (parse_range (RemoveSpace item)) (\<lambda>(n, m, item).
          declare_items i (TypeNum op) n m item ss s))"

section \<open>Gates\<close>

function parameter_names :: "string \<Rightarrow> stream \<Rightarrow> string list \<Rightarrow> string list res" where
  "parameter_names item ss names =
     (case getline CHR '','' item ss of
        (ok, item, ss') \<Rightarrow>
          if ok then
            rbind (str_back item) (\<lambda>c.
            rbind (if c = CHR '';'' then erase_two item else Inr item) (\<lambda>item.
            let item = RemoveSpace item in parameter_names item ss' (names @ [item])))
          else Inr names)"
  by pat_completeness auto
termination
  by (relation "measure (\<lambda>(item, ss, names). length (rest ss))") (auto dest: getline_ok_shorter [OF sym])

declare parameter_names.simps [simp del]

definition syntax_error :: err where
  "syntax_error = Exit ''Syntax error!''"

definition add_gate :: "nat \<Rightarrow> gtype \<Rightarrow> string \<Rightarrow> string list res \<Rightarrow> parse_state \<Rightarrow> parse_state res" where
  "add_gate i t name names s =
     (let (name, s) = (if name = '''' then (''g'' @ to_string (ps_gate_index s), s\<lparr>ps_gate_index := ps_gate_index s + 1\<rparr>) else (name, s))
      in rbind (new_and_add i name t s) (\<lambda>(gate, s).
         rbind names (\<lambda>vs. on_net i (Connect gate vs) s)))"

definition parse_gate :: "nat \<Rightarrow> string \<Rightarrow> stream \<Rightarrow> parse_state \<Rightarrow> parse_state res" where
  "parse_gate i op ss s =
     (let t = TypeNum op in
      if t = NONE then Inl syntax_error
      else case getline CHR ''('' op ss of
             (ok, item, ss) \<Rightarrow> let item = RemoveSpace item in add_gate i t item (parameter_names item ss []) s)"

section \<open>The loop\<close>

text \<open>One statement; the Boolean says whether it was the last.\<close>

definition parse_statement :: "nat \<Rightarrow> int \<Rightarrow> string \<Rightarrow> parse_state \<Rightarrow> (bool \<times> parse_state) res" where
  "parse_statement i bp line s =
     rbind (next_item (stream_of line)) (\<lambda>(item, ss).
     if item = ''module'' then
       (case getline CHR ''('' item ss of
          (ok, item, ss) \<Rightarrow>
            let (m, st) = new_module item (int i) bp (ps_store s)
            in Inr (False, s\<lparr>ps_modules := ps_modules s @ [m], ps_store := st\<rparr>))
     else if item = ''wire'' \<or> item = ''input'' \<or> item = ''output'' then
       rbind (parse_declaration i item ss s) (\<lambda>s. Inr (False, s))
     else if item = ''endmodule'' then
       rbind (on_net i Simplification s) (\<lambda>s. Inr (True, s))
     else rbind (parse_gate i item ss s) (\<lambda>s. Inr (False, s)))"

function parse_loop :: "nat \<Rightarrow> int \<Rightarrow> string \<Rightarrow> stream \<Rightarrow> parse_state \<Rightarrow> parse_state res" where
  "parse_loop i bp line ifs s =
     (case getline newline line ifs of
        (ok, line, ifs1) \<Rightarrow>
          if \<not> ok then Inr s
          else rbind (MakeLine line ifs1) (\<lambda>(line, ifs2).
               rbind (parse_statement i bp line s) (\<lambda>(fin, s).
               if fin then Inr s else parse_loop i bp line ifs2 s)))"
  by pat_completeness auto
termination
  by (relation "measure (\<lambda>(i, bp, line, ifs, s). length (rest ifs))")
    (auto dest!: getline_ok_shorter [OF sym] MakeLine_le)

declare parse_loop.simps [simp del]

text \<open>
  \<open>Parser\<close> returns the number of wires. \<open>k\<close> is the fuel of \<open>CollectPI\<close>.
\<close>

definition Parser :: "nat \<Rightarrow> string \<Rightarrow> nat \<Rightarrow> int \<Rightarrow> module list \<Rightarrow> store \<Rightarrow> (int \<times> module list \<times> store) res" where
  "Parser k text i bp ms st =
     rbind (parse_loop i bp '''' (stream_of text) \<lparr>ps_modules = ms, ps_store = st, ps_gate_index = 0, ps_wires = 0\<rparr>) (\<lambda>s.
     rbind (on_net i (TraceInputs k) s) (\<lambda>s.
     Inr (ps_wires s, ps_modules s, ps_store s)))"

end
