(* ===== verification/Parse_Correct.thy ===== *)
theory Parse_Correct
  imports Net_Parser
begin

text \<open>
  The parser reads back what is printed: on the text of a list of declarations and gates it does
  exactly the additions and connections the statements stand for.
\<close>

section \<open>Printing\<close>

datatype stmt = Decl gtype "string list" | Gate gtype string "string list"

fun join :: "string list \<Rightarrow> string" where
  "join [] = ''''"
| "join (x # xs) = x @ (if xs = [] then '''' else '', '' @ join xs)"

fun print_stmt :: "stmt \<Rightarrow> string" where
  "print_stmt (Decl t names) = ''  '' @ TypeID t @ '' '' @ join names @ '';''"
| "print_stmt (Gate t g names) = ''  '' @ TypeID t @ '' '' @ g @ ''('' @ join names @ '');''"

definition print_circuit :: "string \<Rightarrow> string \<Rightarrow> stmt list \<Rightarrow> string" where
  "print_circuit name ports sts =
     ''module '' @ name @ ''('' @ ports @ '');'' @ newline #
     concat (map (\<lambda>s. print_stmt s @ [newline]) sts) @ ''endmodule'' @ [newline]"

section \<open>Names\<close>

definition plain_char :: "char \<Rightarrow> bool" where
  "plain_char c \<longleftrightarrow> c \<notin> set [CHR '' '', CHR '','', CHR '';'', CHR ''('', newline, CHR 0x5C]"

definition plain :: "string \<Rightarrow> bool" where
  "plain s \<longleftrightarrow> s \<noteq> [] \<and> list_all plain_char s \<and> hd s \<noteq> CHR ''[''"

lemma plainD:
  assumes "plain s"
  shows "s \<noteq> []" "CHR '' '' \<notin> set s" "CHR '','' \<notin> set s" "CHR '';'' \<notin> set s" "CHR ''('' \<notin> set s" "newline \<notin> set s"
    "hd s \<noteq> CHR 0x5C" "hd s \<noteq> CHR ''[''" "last s \<noteq> CHR '';''"
  using assms by (auto simp: plain_def plain_char_def list_all_iff)

lemma plain_RemoveSpace: "plain s \<Longrightarrow> RemoveSpace s = s" "plain s \<Longrightarrow> RemoveSpace (CHR '' '' # s) = s"
  using RemoveSpace_id [of s] by (auto simp: plainD) (simp add: RemoveSpace_def)

lemma plain_RemoveSpace_semi: "plain s \<Longrightarrow> RemoveSpace (s @ '';'') = s @ '';''"
  by (rule RemoveSpace_id) (auto simp: plainD)

fun stmt_ok :: "stmt \<Rightarrow> bool" where
  "stmt_ok (Decl t names) \<longleftrightarrow> t \<in> {WIRE, INPUT, OUTPUT} \<and> names \<noteq> [] \<and> list_all plain names"
| "stmt_ok (Gate t g names) \<longleftrightarrow> t \<notin> {NONE, WIRE, INPUT, OUTPUT} \<and> (g = [] \<or> plain g) \<and> names \<noteq> [] \<and> list_all plain names"

lemma rbind_Inr_right [simp]: "rbind m Inr = m"
  by (cases m) simp_all

lemma rfold_Nil [simp]: "rfold f [] = Inr"
  by (simp add: fun_eq_iff)

section \<open>What the statements stand for\<close>

definition declare_names :: "nat \<Rightarrow> gtype \<Rightarrow> string list \<Rightarrow> parse_state \<Rightarrow> parse_state res" where
  "declare_names i t = rfold (\<lambda>name s. rbind (declare_name i t name s) (\<lambda>(b, s). Inr s))"

fun build_stmt :: "nat \<Rightarrow> stmt \<Rightarrow> parse_state \<Rightarrow> parse_state res" where
  "build_stmt i (Decl t names) s = declare_names i t names s"
| "build_stmt i (Gate t g names) s = add_gate i t g (Inr names) s"

definition build_circuit :: "nat \<Rightarrow> nat \<Rightarrow> int \<Rightarrow> string \<Rightarrow> stmt list \<Rightarrow> module list \<Rightarrow> store \<Rightarrow> (int \<times> module list \<times> store) res" where
  "build_circuit k i bp name sts ms st =
     (let (m, st) = new_module name (int i) bp st
      in rbind (rfold (build_stmt i) sts \<lparr>ps_modules = ms @ [m], ps_store = st, ps_gate_index = 0, ps_wires = 0\<rparr>) (\<lambda>s.
         rbind (on_net i Simplification s) (\<lambda>s. rbind (on_net i (TraceInputs k) s) (\<lambda>s.
         Inr (ps_wires s, ps_modules s, ps_store s)))))"

lemma declare_names_simps:
  "declare_names i t [] = Inr"
  "declare_names i t (x # xs) s = rbind (rbind (declare_name i t x s) (\<lambda>(b, s). Inr s)) (declare_names i t xs)"
  by (simp_all add: declare_names_def)

section \<open>Items\<close>

definition ended :: stream where
  "ended = \<lparr>rest = [], good = False\<rparr>"

lemma getline_ended [simp]: "getline d item ended = (False, item, ended)"
  by (simp add: getline_def ended_def)

lemma next_item_word:
  assumes "w \<noteq> []" "CHR '' '' \<notin> set w"
  shows "next_item (stream_of (''  '' @ w @ '' '' @ t)) = Inr (w, stream_of t)"
    "next_item (stream_of (w @ '' '' @ t)) = Inr (w, stream_of t)" "next_item (stream_of w) = Inr (w, ended)"
proof -
  have w: "next_item (stream_of (w @ '' '' @ t)) = Inr (w, stream_of t)" for t
    using getline_split [of "CHR '' ''" w "''''" t] assms by (subst next_item.simps) simp
  have skip: "next_item (stream_of (CHR '' '' # u)) = next_item (stream_of u)" for u
    using getline_split [of "CHR '' ''" "[]" "''''" u] by (subst next_item.simps) (simp add: stream_of_def)
  show "next_item (stream_of (''  '' @ w @ '' '' @ t)) = Inr (w, stream_of t)" using w [of t] skip by simp
  show "next_item (stream_of (w @ '' '' @ t)) = Inr (w, stream_of t)" by (rule w)
  show "next_item (stream_of w) = Inr (w, ended)"
    using getline_last [of "CHR '' ''" w "''''"] assms by (subst next_item.simps) (simp add: ended_def)
qed

text \<open>The items of a list of names that ends in \<open>fin\<close>.\<close>

lemma getline_items:
  assumes "list_all plain (y # ys)" and "CHR '','' \<notin> set fin"
  shows "getline CHR '','' item (stream_of (pre @ join (y # ys) @ fin)) =
     (if CHR '','' \<in> set pre then (True, takeWhile (\<lambda>c. c \<noteq> CHR '','') (pre @ join (y # ys) @ fin),
           stream_of (tl (dropWhile (\<lambda>c. c \<noteq> CHR '','') (pre @ join (y # ys) @ fin))))
      else if ys = [] then (True, pre @ y @ fin, ended) else (True, pre @ y, stream_of ('' '' @ join ys @ fin)))"
proof (cases "CHR '','' \<in> set pre")
  case True
  then show ?thesis using plainD(1) [of y] assms(1) by (auto simp: getline_def stream_of_def)
next
  case False
  then have pre: "CHR '','' \<notin> set (pre @ y)" using assms(1) plainD(3) [of y] by simp
  show ?thesis
  proof (cases "ys = []")
    case True
    then show ?thesis using False assms plainD(1,3) [of y] getline_last [of "CHR '',''" "pre @ y @ fin" item] by (simp add: ended_def)
  next
    case nonempty: False
    then show ?thesis using False getline_split [OF pre, of item "'' '' @ join ys @ fin"] by simp
  qed
qed

lemma declare_item_plain:
  assumes "plain x" and "item \<in> {x, CHR '' '' # x, x @ '';'', CHR '' '' # x @ '';''}"
  shows "declare_item i t 0 0 item s = rbind (declare_name i t x s) (\<lambda>(b, s). Inr s)"
proof -
  have last: "last (CHR '' '' # x) \<noteq> CHR '';''" using plainD(1,9) [OF assms(1)] by simp
  have "declare_item i t 0 0 (y @ '';'') s = rbind (declare_name i t x s) (\<lambda>(b, s). Inr s)" if "RemoveSpace y = x" for y
    using that by (simp add: declare_item_def)
  moreover have "declare_item i t 0 0 y s = rbind (declare_name i t x s) (\<lambda>(b, s). Inr s)"
    if "RemoveSpace y = x" "y \<noteq> []" "last y \<noteq> CHR '';''" for y
    using that by (simp add: declare_item_def str_back_def)
  moreover have "CHR '' '' # x @ '';'' = (CHR '' '' # x) @ '';''" by simp
  ultimately show ?thesis using assms(2) plain_RemoveSpace [OF assms(1)] plainD(1,9) [OF assms(1)] last by (metis empty_iff insert_iff list.distinct(1))
qed

definition first_item :: "string \<Rightarrow> string list \<Rightarrow> string \<Rightarrow> string" where
  "first_item x xs fin = x @ (if xs = [] then fin else '''')"

definition later_items :: "string list \<Rightarrow> string \<Rightarrow> stream" where
  "later_items xs fin = (if xs = [] then ended else stream_of ('' '' @ join xs @ fin))"

lemma getline_later:
  assumes "list_all plain (y # ys)" and "CHR '','' \<notin> set fin"
  shows "getline CHR '','' item (later_items (y # ys) fin) = (True, CHR '' '' # first_item y ys fin, later_items ys fin)"
  using getline_items [OF assms, of item "'' ''"] by (simp add: later_items_def first_item_def)

lemma declare_items_plain:
  assumes "list_all plain (x # xs)" and "item = first_item x xs '';'' \<or> item = CHR '' '' # first_item x xs '';''"
  shows "declare_items i t 0 0 item (later_items xs '';'') s = declare_names i t (x # xs) s"
  using assms
proof (induction xs arbitrary: x item s)
  case Nil
  then have "declare_item i t 0 0 item s = rbind (declare_name i t x s) (\<lambda>(b, s). Inr s)" for s
    by (intro declare_item_plain) (auto simp: first_item_def)
  then show ?case by (subst declare_items.simps) (simp add: later_items_def declare_names_simps)
next
  case (Cons y ys)
  have one: "declare_item i t 0 0 item s = rbind (declare_name i t x s) (\<lambda>(b, s). Inr s)" for s
    using Cons.prems by (intro declare_item_plain) (auto simp: first_item_def)
  have next_one: "getline CHR '','' item (later_items (y # ys) '';'') = (True, CHR '' '' # first_item y ys '';'', later_items ys '';'')"
    using Cons.prems(1) by (intro getline_later) auto
  have rest: "declare_items i t 0 0 (CHR '' '' # first_item y ys '';'') (later_items ys '';'') s = declare_names i t (y # ys) s" for s
    using Cons.IH [of y] Cons.prems(1) by simp
  have fold: "declare_names i t (x # y # ys) s = rbind (rbind (declare_name i t x s) (\<lambda>(b, s). Inr s)) (declare_names i t (y # ys))"
    by (rule declare_names_simps(2))
  show ?case unfolding fold by (subst declare_items.simps) (simp add: one next_one rest)
qed

lemma parameter_names_plain:
  assumes "list_all plain (x # xs)" and "getline CHR '','' item ss = (True, it, later_items xs '');'')"
    and "it = first_item x xs '');'' \<or> it = CHR '' '' # first_item x xs '');''"
  shows "parameter_names item ss acc = Inr (acc @ x # xs)"
  using assms
proof (induction xs arbitrary: x item it ss acc)
  case Nil
  have "rbind (str_back it) (\<lambda>c. rbind (if c = CHR '';'' then erase_two it else Inr it) (\<lambda>it. Inr (RemoveSpace it))) = Inr x"
  proof -
    have "it = x @ '');'' \<or> it = (CHR '' '' # x) @ '');''" using Nil.prems(3) by (auto simp: first_item_def)
    then obtain y where it: "it = y @ '');''" "RemoveSpace y = x" using plain_RemoveSpace [of x] Nil.prems(1) by auto
    have "erase_two (y @ '');'') = Inr y" and "str_back (y @ '');'') = Inr CHR '';''" for y
      using str_back_snoc [of "y @ '')''"] by simp_all
    then show ?thesis using it by simp
  qed
  then obtain c it' where "str_back it = Inr c" "(if c = CHR '';'' then erase_two it else Inr it) = Inr it'" "RemoveSpace it' = x"
    by (auto simp: rbind_eq_Inr)
  then show ?case using Nil.prems(2) by (subst parameter_names.simps) (simp add: later_items_def, subst parameter_names.simps, simp)
next
  case (Cons y ys)
  have x: "plain x" "plain y" using Cons.prems(1) by simp_all
  have it: "it = x \<or> it = CHR '' '' # x" using Cons.prems(3) by (simp add: first_item_def)
  have last_it: "str_back it = Inr (last x)" "RemoveSpace it = x" using it plainD(1) [OF x(1)] plain_RemoveSpace [OF x(1)] by (auto simp: str_back_def)
  have nxt: "getline CHR '','' x (later_items (y # ys) '');'') = (True, CHR '' '' # first_item y ys '');'', later_items ys '');'')"
    using Cons.prems(1) by (intro getline_later) auto
  have "parameter_names x (later_items (y # ys) '');'') (acc @ [x]) = Inr ((acc @ [x]) @ y # ys)"
    by (rule Cons.IH [OF _ nxt]) (use Cons.prems(1) in simp_all)
  then show ?case using Cons.prems(2) last_it plainD(9) [OF x(1)] by (subst parameter_names.simps) simp
qed

section \<open>Statements\<close>

lemma TypeID_word [simp]: "TypeID t \<noteq> []" "CHR '' '' \<notin> set (TypeID t)" "newline \<notin> set (TypeID t)"
  by (cases t; simp)+

lemma TypeID_keyword:
  "t \<in> {WIRE, INPUT, OUTPUT} \<Longrightarrow> TypeID t = ''wire'' \<or> TypeID t = ''input'' \<or> TypeID t = ''output''"
  "t \<notin> {WIRE, INPUT, OUTPUT} \<Longrightarrow> TypeID t \<noteq> ''wire'' \<and> TypeID t \<noteq> ''input'' \<and> TypeID t \<noteq> ''output''"
  "TypeID t \<noteq> ''module''" "TypeID t \<noteq> ''endmodule''"
  by (cases t; simp)+

lemma join_split: "join (x # xs) @ fin = first_item x xs fin @ (if xs = [] then '''' else '', '' @ join xs @ fin)"
  by (simp add: first_item_def)

lemma getline_first:
  assumes "list_all plain (x # xs)" and "CHR '','' \<notin> set fin"
  shows "getline CHR '','' item (stream_of (join (x # xs) @ fin)) = (True, first_item x xs fin, later_items xs fin)"
  using getline_items [OF assms, of item "''''"] by (simp add: later_items_def first_item_def)

lemma parse_stmt:
  assumes "stmt_ok st"
  shows "parse_statement i bp (print_stmt st) s = rbind (build_stmt i st s) (\<lambda>s. Inr (False, s))"
proof (cases st)
  case (Decl t names)
  then obtain x xs where xs: "names = x # xs" "list_all plain (x # xs)" and t: "t \<in> {WIRE, INPUT, OUTPUT}"
    using assms by (cases names) auto
  have item: "next_item (stream_of (print_stmt st)) = Inr (TypeID t, stream_of (join names @ '';''))"
    using next_item_word(1) [of "TypeID t" "join names @ '';''"] by (simp add: Decl)
  have first: "getline CHR '','' (TypeID t) (stream_of (join names @ '';'')) = (True, first_item x xs '';'', later_items xs '';'')"
    unfolding xs(1) by (rule getline_first [OF xs(2)]) simp
  have range: "parse_range (RemoveSpace (first_item x xs '';'')) = Inr (0, 0, first_item x xs '';'')"
    using xs(2) plain_RemoveSpace [of x] plain_RemoveSpace_semi [of x] plainD(1,8) [of x]
    by (auto simp: first_item_def parse_range_def)
  have "parse_declaration i (TypeID t) (stream_of (join names @ '';'')) s = declare_names i t names s"
    using declare_items_plain [OF xs(2), of "first_item x xs '';''" i t s, folded xs(1)] by (simp add: parse_declaration_def first range)
  then show ?thesis using item TypeID_keyword(1) [OF t] TypeID_keyword(3) [of t]
    by (simp add: parse_statement_def Decl)
next
  case (Gate t g names)
  then obtain x xs where xs: "names = x # xs" "list_all plain (x # xs)" and t: "t \<notin> {NONE, WIRE, INPUT, OUTPUT}" and g: "g = [] \<or> plain g"
    using assms by (cases names) auto
  have item: "next_item (stream_of (print_stmt st)) = Inr (TypeID t, stream_of (g @ ''('' @ join names @ '');''))"
    using next_item_word(1) [of "TypeID t" "g @ ''('' @ join names @ '');''"] by (simp add: Gate)
  have name: "getline CHR ''('' (TypeID t) (stream_of (g @ ''('' @ join names @ '');'')) = (True, g, stream_of (join names @ '');''))"
    using g plainD(5) [of g] getline_split [of "CHR ''(''" g "TypeID t" "join names @ '');''"] by auto
  have rs: "RemoveSpace g = g" using g plain_RemoveSpace [of g] by (auto simp: RemoveSpace_def)
  have names: "parameter_names g (stream_of (join names @ '');'')) [] = Inr names"
  proof -
    have "getline CHR '','' g (stream_of (join (x # xs) @ '');'')) = (True, first_item x xs '');'', later_items xs '');'')"
      by (rule getline_first [OF xs(2)]) simp
    then show ?thesis using parameter_names_plain [OF xs(2), of g _ _ "[]"] by (simp add: xs(1))
  qed
  have "parse_gate i (TypeID t) (stream_of (g @ ''('' @ join names @ '');'')) s = add_gate i t g (Inr names) s"
    using t by (simp add: parse_gate_def name [simplified] rs names Let_def)
  then show ?thesis using item t TypeID_keyword(2) [of t] TypeID_keyword(3,4) [of t]
    by (simp add: parse_statement_def Gate)
qed

section \<open>The whole text\<close>

lemma MakeLine_done: "CHR '';'' \<in> set line \<Longrightarrow> MakeLine line ifs = Inr (line, ifs)"
  by (auto simp: MakeLine_def more_lines.simps [of line])

lemma join_no_newline: "list_all plain xs \<Longrightarrow> newline \<notin> set (join xs)"
  by (induction xs) (auto dest: plainD(6))

lemma print_stmt_line: "stmt_ok st \<Longrightarrow> newline \<notin> set (print_stmt st) \<and> CHR '';'' \<in> set (print_stmt st)"
  by (cases st) (auto dest: plainD(6) simp: join_no_newline)

lemma parse_loop_line:
  assumes "newline \<notin> set l" and "CHR '';'' \<in> set l"
  shows "parse_loop i bp line (stream_of (l @ newline # t)) s =
     rbind (parse_statement i bp l s) (\<lambda>(fin, s). if fin then Inr s else parse_loop i bp l (stream_of t) s)"
  using getline_split [OF assms(1)] MakeLine_done [OF assms(2)] by (subst parse_loop.simps) simp

lemma parse_loop_end:
  "parse_loop i bp line (stream_of (''endmodule'' @ newline # t)) s = on_net i Simplification s"
proof -
  have "next_item (stream_of ''endmodule'') = Inr (''endmodule'', ended)" by (rule next_item_word(3)) simp_all
  then have "parse_statement i bp ''endmodule'' s = rbind (on_net i Simplification s) (\<lambda>s. Inr (True, s))" by (simp add: parse_statement_def)
  moreover have "getline newline line (stream_of (''endmodule'' @ newline # t)) = (True, ''endmodule'', stream_of t)"
    by (rule getline_split) simp
  ultimately show ?thesis by (subst parse_loop.simps) (simp add: MakeLine_def rbind_assoc)
qed

lemma parse_loop_stmts:
  assumes "list_all stmt_ok sts"
  shows "parse_loop i bp line (stream_of (concat (map (\<lambda>s. print_stmt s @ [newline]) sts) @ ''endmodule'' @ newline # t)) s =
     rbind (rfold (build_stmt i) sts s) (on_net i Simplification)"
  using assms
proof (induction sts arbitrary: line s)
  case Nil
  then show ?case using parse_loop_end [of i bp line t s] by simp
next
  case (Cons st sts)
  have "parse_loop i bp line (stream_of (print_stmt st @ newline # concat (map (\<lambda>s. print_stmt s @ [newline]) sts) @ ''endmodule'' @ newline # t)) s =
     rbind (parse_statement i bp (print_stmt st) s) (\<lambda>(fin, s). if fin then Inr s else
        parse_loop i bp (print_stmt st) (stream_of (concat (map (\<lambda>s. print_stmt s @ [newline]) sts) @ ''endmodule'' @ newline # t)) s)"
    using Cons.prems print_stmt_line [of st] by (intro parse_loop_line) simp_all
  then show ?case using Cons.IH Cons.prems parse_stmt [of st i bp s] by (simp add: rbind_assoc)
qed

lemma Parser_build:
  assumes name: "CHR ''('' \<notin> set name" "newline \<notin> set name" and ports: "newline \<notin> set ports" and sts: "list_all stmt_ok sts"
  shows "Parser k (print_circuit name ports sts) i bp ms st = build_circuit k i bp name sts ms st"
proof -
  let ?l = "''module '' @ name @ ''('' @ ports @ '');''"
  let ?s = "\<lparr>ps_modules = ms, ps_store = st, ps_gate_index = 0, ps_wires = 0\<rparr>"
  obtain m st1 where m: "new_module name (int i) bp st = (m, st1)" by fastforce
  have "next_item (stream_of ?l) = Inr (''module'', stream_of (name @ ''('' @ ports @ '');''))"
    using next_item_word(2) [of "''module''" "name @ ''('' @ ports @ '');''"] by simp
  moreover have "getline CHR ''('' ''module'' (stream_of (name @ ''('' @ ports @ '');'')) = (True, name, stream_of (ports @ '');''))"
    using getline_split [OF name(1), of "''module''" "ports @ '');''"] by simp
  ultimately have head: "parse_statement i bp ?l ?s = Inr (False, ?s\<lparr>ps_modules := ms @ [m], ps_store := st1\<rparr>)"
    using m by (simp add: parse_statement_def)
  have "parse_loop i bp '''' (stream_of (print_circuit name ports sts)) ?s =
     rbind (rfold (build_stmt i) sts (?s\<lparr>ps_modules := ms @ [m], ps_store := st1\<rparr>)) (on_net i Simplification)"
    using parse_loop_line [of ?l i bp "''''" "concat (map (\<lambda>s. print_stmt s @ [newline]) sts) @ ''endmodule'' @ [newline]" ?s]
      head name(2) ports parse_loop_stmts [OF sts, of i bp ?l "[]"] by (simp add: print_circuit_def)
  then show ?thesis using m by (simp add: Parser_def build_circuit_def rbind_assoc)
qed

end
