(* ===== verification/Net_Simplify.thy ===== *)
theory Net_Simplify
  imports Net_Build Net_Sim
begin

text \<open>
  \<open>Simplification\<close> keeps the Boolean function of every node that stays. Wires count as buffers in
  the netlist it starts from. The proof follows the three loops: bypassing a node keeps the value of
  all others when no reader has it among its inverted inputs, and wired netlists in which no
  inverter or buffer is driven by another stay so.
\<close>

section \<open>Values of nodes\<close>

definition buffered :: "(addr \<Rightarrow> node) \<Rightarrow> (addr \<Rightarrow> node)" where
  "buffered h a = (if n_type (h a) = WIRE then (h a)\<lparr>n_type := BUF\<rparr> else h a)"

lemma buffered_fields [simp]:
  "n_fi (buffered h a) = n_fi (h a)" "n_inv (buffered h a) = n_inv (h a)"
  "n_type (buffered h a) = (if n_type (h a) = WIRE then BUF else n_type (h a))"
  by (simp_all add: buffered_def)

text \<open>The value of a node as a partial function, and its recursion along the fan-in.\<close>

definition val_of :: "(addr \<Rightarrow> node) \<Rightarrow> (addr \<Rightarrow> bool) \<Rightarrow> addr \<Rightarrow> bool option" where
  "val_of h \<sigma> a = (if evals h \<sigma> a True then Some True else if evals h \<sigma> a False then Some False else None)"

lemma val_of_iff: "val_of h \<sigma> a = Some b \<longleftrightarrow> evals h \<sigma> a b"
proof (cases b)
  case True
  then show ?thesis by (simp add: val_of_def)
next
  case False
  then show ?thesis using evals_det [of h \<sigma> a True False] by (auto simp: val_of_def)
qed

lemma val_of_input [simp]: "n_type (h a) = INPUT \<Longrightarrow> val_of h \<sigma> a = Some (\<sigma> a)"
  by (simp add: val_of_iff evals_input_iff)

lemma those_Some_iff: "those xs = Some ys \<longleftrightarrow> xs = map Some ys"
proof (induction xs arbitrary: ys)
  case Nil
  then show ?case by auto
next
  case (Cons x xs)
  then show ?case by (cases x) (auto simp: Cons_eq_map_conv)
qed

lemma those_None_iff: "those xs = None \<longleftrightarrow> None \<in> set xs"
proof (induction xs)
  case Nil
  then show ?case by simp
next
  case (Cons x xs)
  then show ?case by (cases x) auto
qed

lemma val_of_gate:
  assumes "n_type (h a) \<noteq> INPUT"
  shows "val_of h \<sigma> a = Option.bind (those (map (val_of h \<sigma>) (n_fi (h a))))
           (\<lambda>bs. gate_sem (n_type (h a)) (inv_first (n_inv (h a)) bs))"
proof -
  have "val_of h \<sigma> a = Some b \<longleftrightarrow> Option.bind (those (map (val_of h \<sigma>) (n_fi (h a))))
           (\<lambda>bs. gate_sem (n_type (h a)) (inv_first (n_inv (h a)) bs)) = Some b" for b
  proof -
    have "map (val_of h \<sigma>) xs = map Some bs \<longleftrightarrow> list_all2 (evals h \<sigma>) xs bs" for xs bs
      by (induction xs arbitrary: bs) (auto simp: Cons_eq_map_conv list_all2_Cons1 val_of_iff map_eq_Cons_conv)
    then show ?thesis unfolding val_of_iff using assms
      by (auto simp: bind_eq_Some_conv those_Some_iff intro: ev_gate elim!: evals_cases)
  qed
  then show ?thesis by (metis not_Some_eq)
qed

section \<open>Gates do not depend on the order of their inputs\<close>

lemma length2: "length xs = 2 \<longleftrightarrow> (\<exists>a b. xs = [a, b])"
  by (auto simp: numeral_2_eq_2 length_Suc_conv)

lemma length3: "length xs = 3 \<longleftrightarrow> (\<exists>a b c. xs = [a, b, c])"
  by (auto simp: numeral_3_eq_3 length_Suc_conv)

lemma gate_sem_perm:
  assumes perm: "mset xs = mset ys" and len: "length xs = arity t"
  shows "gate_sem t xs = gate_sem t ys"
proof -
  have len': "length ys = arity t" using assms by (metis size_mset)
  consider "arity t = 0" | "arity t = 1" | "arity t = 2" | "arity t = 3" by (cases t) auto
  then show ?thesis
  proof cases
    case 1
    then show ?thesis using len len' by simp
  next
    case 2
    then show ?thesis using len len' perm by (auto simp: length_Suc_conv)
  next
    case 3
    then obtain a b c d where "xs = [a, b]" "ys = [c, d]" using len len' by (auto simp: length2)
    moreover have "count (mset xs) True = count (mset ys) True" using perm by simp
    ultimately show ?thesis using 3 by (cases t; cases a; cases b; cases c; cases d) auto
  next
    case 4
    then obtain a b c d e f where "xs = [a, b, c]" "ys = [d, e, f]" using len len' by (auto simp: length3)
    moreover have "count (mset xs) True = count (mset ys) True" using perm by simp
    moreover have "t = FACARRY" using 4 by (cases t) auto
    ultimately show ?thesis by (cases a; cases b; cases c; cases d; cases e; cases f) simp_all
  qed
qed

section \<open>Rerouting\<close>

definition new_fi :: "addr \<Rightarrow> addr \<Rightarrow> bool \<Rightarrow> addr list \<Rightarrow> addr list" where
  "new_fi np p neg xs =
     (let k = length (filter (\<lambda>a. a = np) xs); rest = filter (\<lambda>a. a \<noteq> np) xs
      in if neg then replicate k p @ rest else rest @ replicate k p)"

definition new_inv :: "addr \<Rightarrow> bool \<Rightarrow> addr list \<Rightarrow> nat \<Rightarrow> nat" where
  "new_inv np neg xs i = (if neg then i + length (filter (\<lambda>a. a = np) xs) else i)"

lemma filter_absent [simp]:
  "np \<notin> set xs \<Longrightarrow> filter (\<lambda>a. a = np) xs = []" "np \<notin> set xs \<Longrightarrow> filter (\<lambda>a. a \<noteq> np) xs = xs"
  by (auto simp: filter_empty_conv filter_id_conv)

lemma new_fi_id [simp]: "np \<notin> set xs \<Longrightarrow> new_fi np p neg xs = xs"
  by (simp add: new_fi_def)

lemma new_inv_id [simp]: "np \<notin> set xs \<Longrightarrow> new_inv np neg xs i = i"
  by (simp add: new_inv_def)

lemma set_new_fi: "set (new_fi np p neg xs) = set xs - {np} \<union> (if np \<in> set xs then {p} else {})"
proof -
  have "length (filter (\<lambda>a. a = np) xs) = 0 \<longleftrightarrow> np \<notin> set xs" by (auto simp: filter_empty_conv)
  then show ?thesis by (auto simp: new_fi_def Let_def set_replicate_conv_if)
qed

lemma length_new_fi [simp]: "length (new_fi np p neg xs) = length xs"
  by (simp add: new_fi_def Let_def add.commute sum_length_filter_compl)

definition reroute_node :: "addr \<Rightarrow> addr \<Rightarrow> bool \<Rightarrow> node \<Rightarrow> node" where
  "reroute_node np p neg n = n\<lparr>n_inv := new_inv np neg (n_fi n) (n_inv n), n_fi := new_fi np p neg (n_fi n)\<rparr>"

lemma reroute_upd: "reroute np p neg out h = upd out (reroute_node np p neg) h"
  by (simp add: reroute_def reroute_node_def new_fi_def new_inv_def upd_def Let_def)

lemma reroute_node_twice: "p \<noteq> np \<Longrightarrow> reroute_node np p neg (reroute_node np p neg n) = reroute_node np p neg n"
  by (simp add: reroute_node_def set_new_fi)

lemma fold_reroute:
  assumes "p \<noteq> np"
  shows "fold (reroute np p neg) bs h b = (if b \<in> set bs then reroute_node np p neg (h b) else h b)"
proof (induction bs arbitrary: h)
  case Nil
  then show ?case by simp
next
  case (Cons c bs)
  then show ?case using assms by (auto simp: reroute_upd upd_apply reroute_node_twice)
qed

text \<open>The inputs of a reader after inversion are the same, up to their order.\<close>

lemma mset_new_inputs:
  assumes np: "np \<notin> set (take i xs)" and f: "f np = (if neg then \<not> f p else f p)"
  shows "mset (inv_first (new_inv np neg xs i) (map f (new_fi np p neg xs))) = mset (inv_first i (map f xs))"
proof (cases "length xs < i")
  case True
  then have "np \<notin> set xs" using np by simp
  then show ?thesis by simp
next
  case False
  let ?us = "take i xs" and ?vs = "drop i xs"
  have us: "filter (\<lambda>a. a \<noteq> np) ?us = ?us" "filter (\<lambda>a. a = np) ?us = []"
    using np by (auto simp: filter_id_conv filter_empty_conv)
  have split: "filter P xs = filter P ?us @ filter P ?vs" for P by (metis append_take_drop_id filter_append)
  have drop_part: "mset (replicate (length (filter (\<lambda>a. a = np) ys)) (f np)) + mset (map f (filter (\<lambda>a. a \<noteq> np) ys)) = mset (map f ys)" for ys
    by (induction ys) auto
  have len: "length ?us = i" using False by simp
  have old: "inv_first i (map f xs) = map Not (map f ?us) @ map f ?vs"
    by (simp add: inv_first_def take_map drop_map)
  have new: "inv_first (new_inv np neg xs i) (map f (new_fi np p neg xs)) =
     (if neg then replicate (length (filter (\<lambda>a. a = np) ?vs)) (f np) @ map Not (map f ?us) @ map f (filter (\<lambda>a. a \<noteq> np) ?vs)
      else map Not (map f ?us) @ map f (filter (\<lambda>a. a \<noteq> np) ?vs) @ replicate (length (filter (\<lambda>a. a = np) ?vs)) (f np))"
    using len f by (simp add: inv_first_def new_inv_def new_fi_def split us Let_def map_replicate)
  show ?thesis unfolding old new using drop_part [of ?vs] by (auto simp: ac_simps)
qed

section \<open>Bypassing one node\<close>

definition fan_in :: "gtype \<Rightarrow> nat" where
  "fan_in t = (if t = WIRE then 1 else arity t)"

text \<open>
  The nodes \<open>L\<close> of a netlist: the fan-in of each is as long as its type wants, stays in \<open>L\<close>, is
  acyclic with rank \<open>r\<close>, and every reader is in the fan-out of what it reads.
\<close>

definition wired :: "(addr \<Rightarrow> node) \<Rightarrow> addr set \<Rightarrow> (addr \<Rightarrow> nat) \<Rightarrow> bool" where
  "wired h L r \<longleftrightarrow> (\<forall>b \<in> L. length (n_fi (h b)) = fan_in (n_type (h b)) \<and>
     (\<forall>a \<in> set (n_fi (h b)). a \<in> L \<and> b \<in> set (n_fo (h a)) \<and> r a < r b))"

definition rerouted :: "addr \<Rightarrow> addr \<Rightarrow> addr set \<Rightarrow> (addr \<Rightarrow> node) \<Rightarrow> (addr \<Rightarrow> node) \<Rightarrow> bool" where
  "rerouted np p L h h' \<longleftrightarrow> (\<forall>b \<in> L. n_type (h' b) = n_type (h b) \<and>
     n_fi (h' b) = new_fi np p (n_type (h np) = INV) (n_fi (h b)) \<and>
     n_inv (h' b) = new_inv np (n_type (h np) = INV) (n_fi (h b)) (n_inv (h b)))"

lemma those_map_None: "those (map f xs) = None \<longleftrightarrow> (\<exists>x \<in> set xs. f x = None)"
  unfolding those_None_iff by force

lemma rerouted_val:
  assumes w: "wired h L r" and re: "rerouted np p L h h'"
    and np: "np \<in> L" "n_fi (h np) = [p]" "n_inv (h np) = 0" "n_type (h np) \<in> {WIRE, OUTPUT, BUF, INV}"
    and safe: "\<forall>b \<in> L. np \<notin> set (take (n_inv (h b)) (n_fi (h b)))"
    and a: "a \<in> L"
  shows "val_of (buffered h') \<sigma> a = val_of (buffered h) \<sigma> a"
  using a
proof (induction "r a" arbitrary: a rule: less_induct)
  case less
  let ?v = "val_of (buffered h) \<sigma>" and ?v' = "val_of (buffered h') \<sigma>" and ?neg = "n_type (h np) = INV"
  have ty: "n_type (h' a) = n_type (h a)" using re less.prems by (simp add: rerouted_def)
  show ?case
  proof (cases "n_type (h a) = INPUT")
    case True
    then show ?thesis using ty by simp
  next
    case False
    let ?xs = "n_fi (h a)" and ?i = "n_inv (h a)"
    have fi': "n_fi (h' a) = new_fi np p ?neg ?xs" and inv': "n_inv (h' a) = new_inv np ?neg ?xs ?i"
      using re less.prems by (auto simp: rerouted_def)
    have v_np: "?v np = map_option (if ?neg then Not else id) (?v p)"
      using np by (cases "?v p") (auto simp: val_of_gate inv_first_def)
    have p_L: "p \<in> L" "r p < r np" using w np by (auto simp: wired_def)
    have fi_L: "\<forall>c \<in> set ?xs. c \<in> L \<and> r c < r a" using w less.prems by (auto simp: wired_def)
    have "\<forall>c \<in> set (new_fi np p ?neg ?xs). ?v' c = ?v c"
      using fi_L p_L less.hyps by (fastforce simp: set_new_fi split: if_splits)
    then have maps: "map ?v' (new_fi np p ?neg ?xs) = map ?v (new_fi np p ?neg ?xs)" by simp
    have none: "those (map ?v (new_fi np p ?neg ?xs)) = None \<longleftrightarrow> those (map ?v ?xs) = None"
      using v_np unfolding those_map_None set_new_fi by (auto split: if_splits)
    have new: "?v' a = Option.bind (those (map ?v (new_fi np p ?neg ?xs)))
         (\<lambda>bs. gate_sem (n_type (buffered h a)) (inv_first (new_inv np ?neg ?xs ?i) bs))"
      unfolding maps [symmetric] using False ty fi' inv' by (simp add: val_of_gate)
    have old: "?v a = Option.bind (those (map ?v ?xs)) (\<lambda>bs. gate_sem (n_type (buffered h a)) (inv_first ?i bs))"
      using False by (simp add: val_of_gate)
    show ?thesis
    proof (cases "those (map ?v ?xs)")
      case None
      then show ?thesis using none by (simp add: new old)
    next
      case (Some bs)
      then obtain cs where cs: "those (map ?v (new_fi np p ?neg ?xs)) = Some cs" using none by fastforce
      define f where "f = (\<lambda>c. the (?v c))"
      have read: "those (map ?v ys) = Some ds \<Longrightarrow> ds = map f ys" for ys ds
        by (drule those_Some_iff [THEN iffD1], drule arg_cong [of _ _ "map the"]) (auto simp: f_def o_def)
      have bs: "bs = map f ?xs" and cs': "cs = map f (new_fi np p ?neg ?xs)"
        using read [OF Some] read [OF cs] .
      have "mset (inv_first (new_inv np ?neg ?xs ?i) cs) = mset (inv_first ?i bs)"
      proof (cases "np \<in> set ?xs")
        case True
        then have "?v np \<noteq> None" using Some those_map_None [of ?v ?xs] by auto
        then have "f np = (if ?neg then \<not> f p else f p)" using v_np by (auto simp: f_def)
        then show ?thesis using mset_new_inputs [of np ?i ?xs f ?neg p] safe less.prems by (simp add: bs cs')
      next
        case False
        then show ?thesis by (simp add: bs cs')
      qed
      moreover have "length bs = fan_in (n_type (h a))" using w less.prems by (simp add: bs wired_def)
      ultimately have "gate_sem (n_type (buffered h a)) (inv_first (new_inv np ?neg ?xs ?i) cs) =
          gate_sem (n_type (buffered h a)) (inv_first ?i bs)"
        by (intro gate_sem_perm) (auto simp: cs' bs fan_in_def)
      then show ?thesis using Some cs by (simp add: new old)
    qed
  qed
qed

text \<open>What \<open>free_output\<close> and \<open>bypass\<close> do to the wires.\<close>

definition refanned :: "addr \<Rightarrow> addr \<Rightarrow> addr set \<Rightarrow> (addr \<Rightarrow> node) \<Rightarrow> (addr \<Rightarrow> node) \<Rightarrow> bool" where
  "refanned x p L h h' \<longleftrightarrow> (\<forall>a b. a \<noteq> x \<longrightarrow> b \<in> L \<longrightarrow>
     b \<in> set (n_fo (h a)) \<or> a = p \<and> b \<in> set (n_fo (h x)) \<longrightarrow> b \<in> set (n_fo (h' a)))"

lemma wired_fan_in: "wired h L r \<Longrightarrow> x \<in> L \<Longrightarrow> fan_in (n_type (h x)) = 1 \<Longrightarrow> \<exists>p. n_fi (h x) = [p] \<and> p \<in> L \<and> r p < r x"
  by (fastforce simp: wired_def length_Suc_conv)

lemma reroute_n_fo [simp]: "n_fo (reroute_node np p neg n) = n_fo n" "n_type (reroute_node np p neg n) = n_type n"
  by (simp_all add: reroute_node_def)

lemma not_read: "wired h L r \<Longrightarrow> b \<in> L \<Longrightarrow> b \<notin> set (n_fo (h x)) \<Longrightarrow> x \<notin> set (n_fi (h b))"
  by (auto simp: wired_def)

lemma free_output_ok:
  assumes w: "wired h L r" and x: "x \<in> L" "n_type (h x) = OUTPUT" and p: "n_fi (h x) = [p]"
  shows "\<exists>h'. free_output x h = Inr h' \<and> rerouted x p L h h' \<and> refanned x p L h h' \<and> n_fo (h' x) = []"
proof -
  have px: "p \<noteq> x" using wired_fan_in [OF w x(1)] x p by (auto simp: fan_in_def)
  define h1 where "h1 = upd p (\<lambda>n. n\<lparr>n_fo := n_fo n @ n_fo (h x)\<rparr>) h"
  define h' where "h' = upd x (n_fo_update (\<lambda>_. [])) (fold (reroute x p False) (n_fo (h1 x)) h1)"
  have "free_output x h = Inr h'" using p px by (simp add: free_output_def h1_def h'_def Let_def)
  moreover have "rerouted x p L h h'"
    unfolding rerouted_def using px x not_read [OF w, of _ x]
    by (auto simp: h'_def h1_def upd_apply fold_reroute reroute_node_def)
  moreover have "refanned x p L h h'" "n_fo (h' x) = []"
    using px by (auto simp: refanned_def h'_def h1_def upd_apply fold_reroute)
  ultimately show ?thesis by blast
qed

lemma in_remove1: "b \<noteq> x \<Longrightarrow> b \<in> set (remove1 x xs) \<longleftrightarrow> b \<in> set xs"
  by (induction xs) auto

lemma bypass_ok:
  assumes w: "wired h L r" and x: "x \<in> L" and p: "n_fi (h x) = [p]"
  shows "\<exists>h'. bypass x h = Inr h' \<and> rerouted x p L h h' \<and> refanned x p (L - {x}) h h'"
proof -
  have px: "p \<noteq> x" using w x p by (fastforce simp: wired_def)
  define h1 where "h1 = upd p (\<lambda>n. n\<lparr>n_fo := remove1 x (n_fo n) @ n_fo (h x)\<rparr>) h"
  define h' where "h' = fold (reroute x p (n_type (h x) = INV)) (n_fo (h1 x)) h1"
  have "bypass x h = Inr h'" using p px by (simp add: bypass_def h1_def h'_def Let_def)
  moreover have "rerouted x p L h h'"
    unfolding rerouted_def using px x not_read [OF w, of _ x]
    by (auto simp: h'_def h1_def upd_apply fold_reroute reroute_node_def)
  moreover have "refanned x p (L - {x}) h h'"
    using px by (auto simp: refanned_def h'_def h1_def upd_apply fold_reroute in_remove1)
  ultimately show ?thesis by blast
qed

lemma wired_step:
  assumes w: "wired h L r" and x: "x \<in> L" "n_fi (h x) = [p]" and re: "rerouted x p L h h'"
    and fan: "refanned x p L' h h'" and L': "L - {x} \<subseteq> L'" "L' \<subseteq> L"
  shows "wired h' L' r"
  unfolding wired_def
proof (intro ballI conjI)
  fix b assume b: "b \<in> L'"
  have new: "n_fi (h' b) = new_fi x p (n_type (h x) = INV) (n_fi (h b))" "n_type (h' b) = n_type (h b)"
    using re b L' by (auto simp: rerouted_def)
  show "length (n_fi (h' b)) = fan_in (n_type (h' b))" using w b L' new by (auto simp: wired_def)
  have px: "p \<in> L" "p \<noteq> x" "r p < r x" using w x by (fastforce simp: wired_def)+
  fix a assume "a \<in> set (n_fi (h' b))"
  then consider (old) "a \<in> set (n_fi (h b))" "a \<noteq> x" | (via) "a = p" "x \<in> set (n_fi (h b))"
    by (auto simp: new set_new_fi split: if_splits)
  then have "a \<in> L \<and> a \<noteq> x \<and> (b \<in> set (n_fo (h a)) \<or> a = p \<and> b \<in> set (n_fo (h x))) \<and> r a < r b"
    using w b L' px by cases (fastforce simp: wired_def)+
  then show "a \<in> L'" "b \<in> set (n_fo (h' a))" "r a < r b" using fan b L' by (auto simp: refanned_def)
qed

section \<open>Outputs and wires\<close>

text \<open>A node whose value comes from a gate or input through wires and outputs only.\<close>

inductive rooted :: "(addr \<Rightarrow> node) \<Rightarrow> addr \<Rightarrow> bool" for h :: "addr \<Rightarrow> node" where
  rooted_gate: "\<not> soft (n_type (h a)) \<Longrightarrow> n_type (h a) \<noteq> OUTPUT \<Longrightarrow> rooted h a"
| rooted_wire: "n_type (h a) = WIRE \<or> n_type (h a) = OUTPUT \<Longrightarrow> n_fi (h a) = [p] \<Longrightarrow> rooted h p \<Longrightarrow> rooted h a"

inductive_cases rooted_cases: "rooted h a"

text \<open>No gate inverts yet, and no inverter or buffer is driven by another.\<close>

definition quiet :: "(addr \<Rightarrow> node) \<Rightarrow> addr set \<Rightarrow> (addr \<Rightarrow> nat) \<Rightarrow> bool" where
  "quiet h L r \<longleftrightarrow> wired h L r \<and> (\<forall>b \<in> L. n_inv (h b) = 0) \<and>
     (\<forall>b \<in> L. n_type (h b) \<in> {BUF, INV} \<longrightarrow> (\<forall>q \<in> set (n_fi (h b)). rooted h q))"

lemma rooted_step:
  assumes w: "wired h L r" and x: "x \<in> L" "n_fi (h x) = [p]" "n_type (h x) \<in> {WIRE, OUTPUT}"
    and re: "rerouted x p L h h'"
  shows "rooted h c \<Longrightarrow> c \<in> L \<Longrightarrow> if c = x then rooted h' p else rooted h' c"
proof (induction rule: rooted.induct)
  case (rooted_gate a)
  then show ?case using x re by (auto simp: rerouted_def soft_def intro: rooted.rooted_gate)
next
  case (rooted_wire a q)
  have q: "q \<in> L" using rooted_wire w by (auto simp: wired_def)
  have px: "p \<noteq> x" using w x by (fastforce simp: wired_def)
  show ?case
  proof (cases "a = x")
    case True
    then show ?thesis using rooted_wire.IH q rooted_wire.hyps x px by simp
  next
    case False
    have "n_fi (h' a) = [if q = x then p else q]" "n_type (h' a) = n_type (h a)"
      using re rooted_wire x px by (auto simp: rerouted_def new_fi_def)
    then show ?thesis using False rooted_wire q by (auto intro: rooted.rooted_wire split: if_splits)
  qed
qed

lemma quiet_step:
  assumes q: "quiet h L r" and x: "x \<in> L" "n_fi (h x) = [p]" "n_type (h x) \<in> {WIRE, OUTPUT}"
    and re: "rerouted x p L h h'" and fan: "refanned x p L' h h'" and L': "L - {x} \<subseteq> L'" "L' \<subseteq> L"
  shows "quiet h' L' r" "a \<in> L \<Longrightarrow> val_of (buffered h') \<sigma> a = val_of (buffered h) \<sigma> a"
proof -
  have w: "wired h L r" using q by (simp add: quiet_def)
  show "a \<in> L \<Longrightarrow> val_of (buffered h') \<sigma> a = val_of (buffered h) \<sigma> a"
    by (rule rerouted_val [OF w re x(1,2)]) (use q x in \<open>auto simp: quiet_def\<close>)
  have root: "rooted h c \<Longrightarrow> c \<in> L \<Longrightarrow> if c = x then rooted h' p else rooted h' c" for c
    by (rule rooted_step [OF w x re])
  have "wired h' L' r" by (rule wired_step [OF w x(1,2) re fan L'])
  moreover have "n_inv (h' b) = 0" if "b \<in> L'" for b
    using q re x L' that by (auto simp: quiet_def rerouted_def new_inv_def)
  moreover have "rooted h' c" if b: "b \<in> L'" "n_type (h' b) \<in> {BUF, INV}" "c \<in> set (n_fi (h' b))" for b c
  proof -
    have old: "n_type (h b) \<in> {BUF, INV}" and fi: "c \<in> set (new_fi x p (n_type (h x) = INV) (n_fi (h b)))"
      using re b L' by (auto simp: rerouted_def)
    have "\<forall>d \<in> set (n_fi (h b)). d \<in> L \<and> rooted h d"
      using q old w b L' by (auto simp: quiet_def wired_def)
    then show ?thesis using fi root by (fastforce simp: set_new_fi split: if_splits)
  qed
  ultimately show "quiet h' L' r" by (auto simp: quiet_def)
qed

section \<open>Inverters and buffers\<close>

text \<open>
  Once the wires are gone: inverters and buffers are driven by gates and inputs, and so are the
  inverted inputs of every gate.
\<close>

definition settled :: "(addr \<Rightarrow> node) \<Rightarrow> addr set \<Rightarrow> (addr \<Rightarrow> nat) \<Rightarrow> bool" where
  "settled h L r \<longleftrightarrow> wired h L r \<and> (\<forall>b \<in> L. n_type (h b) \<noteq> WIRE) \<and>
     (\<forall>b \<in> L. soft (n_type (h b)) \<longrightarrow> n_inv (h b) = 0 \<and> (\<forall>q \<in> set (n_fi (h b)). \<not> soft (n_type (h q)))) \<and>
     (\<forall>b \<in> L. \<forall>q \<in> set (take (n_inv (h b)) (n_fi (h b))). \<not> soft (n_type (h q)))"

lemma settledD:
  assumes "settled h L r" and "b \<in> L"
  shows "wired h L r" "n_type (h b) \<noteq> WIRE"
    "soft (n_type (h b)) \<Longrightarrow> n_inv (h b) = 0" "soft (n_type (h b)) \<Longrightarrow> c \<in> set (n_fi (h b)) \<Longrightarrow> \<not> soft (n_type (h c))"
    "c \<in> set (take (n_inv (h b)) (n_fi (h b))) \<Longrightarrow> \<not> soft (n_type (h c))"
  using assms unfolding settled_def by blast+

lemma wiredD:
  assumes "wired h L r" and "b \<in> L"
  shows "length (n_fi (h b)) = fan_in (n_type (h b))"
    "c \<in> set (n_fi (h b)) \<Longrightarrow> c \<in> L" "c \<in> set (n_fi (h b)) \<Longrightarrow> b \<in> set (n_fo (h c))" "c \<in> set (n_fi (h b)) \<Longrightarrow> r c < r b"
  using assms unfolding wired_def by blast+

lemma rooted_solid: "rooted h q \<Longrightarrow> n_type (h q) \<noteq> WIRE \<Longrightarrow> n_type (h q) \<noteq> OUTPUT \<Longrightarrow> \<not> soft (n_type (h q))"
  by (auto elim: rooted_cases)

lemma quiet_settled:
  assumes q: "quiet h L r" and nw: "\<forall>b \<in> L. n_type (h b) \<noteq> WIRE"
    and no: "\<forall>b \<in> L. \<forall>a \<in> set (n_fi (h b)). n_type (h a) \<noteq> OUTPUT"
  shows "settled h L r"
proof -
  have "\<not> soft (n_type (h c))" if "b \<in> L" "soft (n_type (h b))" "c \<in> set (n_fi (h b))" for b c
  proof (rule rooted_solid)
    have "n_type (h b) \<in> {BUF, INV}" using that nw by (auto simp: soft_def)
    then show "rooted h c" using q that by (auto simp: quiet_def)
    show "n_type (h c) \<noteq> WIRE" using q that nw by (auto simp: quiet_def wired_def)
    show "n_type (h c) \<noteq> OUTPUT" using no that by simp
  qed
  then show ?thesis using q nw by (auto simp: settled_def quiet_def)
qed

lemma take_new_fi:
  assumes "x \<notin> set (take i xs)" and "i \<le> length xs"
  shows "set (take (new_inv x neg xs i) (new_fi x p neg xs)) \<subseteq> insert p (set (take i xs))"
proof -
  have us: "filter (\<lambda>a. a \<noteq> x) (take i xs) = take i xs" "filter (\<lambda>a. a = x) (take i xs) = []"
    using assms by (auto simp: filter_id_conv filter_empty_conv)
  have split: "filter P xs = filter P (take i xs) @ filter P (drop i xs)" for P by (metis append_take_drop_id filter_append)
  have "length (take i xs) = i" using assms by simp
  then show ?thesis by (auto simp: new_inv_def new_fi_def split us Let_def)
qed

lemma settled_step:
  assumes q: "settled h L r" and x: "x \<in> L" "n_fi (h x) = [p]" "soft (n_type (h x))"
    and re: "rerouted x p L h h'" and fan: "refanned x p (L - {x}) h h'"
  shows "settled h' (L - {x}) r" "a \<in> L \<Longrightarrow> val_of (buffered h') \<sigma> a = val_of (buffered h) \<sigma> a"
proof -
  note w = settledD(1) [OF q x(1)] and inv = settledD(3) [OF q x(1,3)]
  have p: "\<not> soft (n_type (h p))" using settledD(4) [OF q x(1,3), of p] x(2) by simp
  have safe: "x \<notin> set (take (n_inv (h b)) (n_fi (h b)))" if "b \<in> L" for b
    using settledD(5) [OF q that, of x] x(3) by blast
  show "a \<in> L \<Longrightarrow> val_of (buffered h') \<sigma> a = val_of (buffered h) \<sigma> a"
    by (rule rerouted_val [OF w re x(1,2) inv]) (use safe x(3) in \<open>auto simp: soft_def\<close>)
  have types: "n_type (h' b) = n_type (h b)" if "b \<in> L" for b using re that by (simp add: rerouted_def)
  have pL: "p \<in> L" using wiredD(2) [OF w x(1), of p] x(2) by simp
  show "settled h' (L - {x}) r" unfolding settled_def
  proof (intro conjI ballI impI)
    show "wired h' (L - {x}) r" by (rule wired_step [OF w x(1,2) re fan]) auto
  next
    fix b assume "b \<in> L - {x}"
    then show "n_type (h' b) \<noteq> WIRE" using settledD(2) [OF q, of b] types by simp
  next
    fix b assume b: "b \<in> L - {x}" "soft (n_type (h' b))"
    then have bL: "b \<in> L" "soft (n_type (h b))" using types by simp_all
    have "x \<notin> set (n_fi (h b))" using settledD(4) [OF q bL, of x] x(3) by blast
    then have same: "n_fi (h' b) = n_fi (h b)" "n_inv (h' b) = n_inv (h b)" using re bL by (simp_all add: rerouted_def)
    show "n_inv (h' b) = 0" using settledD(3) [OF q bL] same by simp
    fix c assume "c \<in> set (n_fi (h' b))"
    then show "\<not> soft (n_type (h' c))" using settledD(4) [OF q bL, of c] wiredD(2) [OF w bL(1), of c] types same by simp
  next
    fix b c assume b: "b \<in> L - {x}" "c \<in> set (take (n_inv (h' b)) (n_fi (h' b)))"
    let ?xs = "n_fi (h b)" and ?i = "n_inv (h b)" and ?neg = "n_type (h x) = INV"
    have bL: "b \<in> L" using b by simp
    have new: "n_fi (h' b) = new_fi x p ?neg ?xs" "n_inv (h' b) = new_inv x ?neg ?xs ?i"
      using re bL by (simp_all add: rerouted_def)
    have "c = p \<or> c \<in> set (take ?i ?xs)"
    proof (cases "?i \<le> length ?xs")
      case True
      then show ?thesis using take_new_fi [of x ?i ?xs ?neg p] safe [OF bL] b(2) new by auto
    next
      case False
      then show ?thesis using safe [OF bL] b(2) new by (auto dest: in_set_takeD)
    qed
    moreover have "c \<in> set (take ?i ?xs) \<Longrightarrow> \<not> soft (n_type (h c)) \<and> c \<in> L"
      using settledD(5) [OF q bL, of c] wiredD(2) [OF w bL, of c] by (auto dest: in_set_takeD)
    ultimately show "\<not> soft (n_type (h' c))" using p pL types by auto
  qed
qed

section \<open>The loops\<close>

text \<open>The rule for the loop over the netlist, for an invariant \<open>J\<close> of the heap and the nodes left.\<close>

lemma simplify_loop:
  assumes step: "\<And>h L x. J h L \<Longrightarrow> x \<in> L \<Longrightarrow> P x \<Longrightarrow> soft (T x) \<Longrightarrow>
      \<exists>h'. bypass x h = Inr h' \<and> J h' (L - {x}) \<and> (\<forall>a \<in> L. \<forall>\<sigma>. val_of (buffered h') \<sigma> a = val_of (buffered h) \<sigma> a)"
    and types: "\<And>h L a. J h L \<Longrightarrow> a \<in> L \<Longrightarrow> n_type (h a) = T a"
    and "J h L" "distinct xs" "set xs \<subseteq> L" "list_all P xs"
  shows "\<exists>f h'. rfold simplify_node xs (m, h) = Inr (m\<lparr>m_netlist := m_netlist m @ filter (\<lambda>a. \<not> soft (T a)) xs, m_name_to_node := f\<rparr>, h') \<and>
      J h' (L - {a \<in> set xs. soft (T a)}) \<and>
      (\<forall>a \<in> L - {a \<in> set xs. soft (T a)}. \<forall>\<sigma>. val_of (buffered h') \<sigma> a = val_of (buffered h) \<sigma> a)"
  using assms(3-)
proof (induction xs arbitrary: m h L)
  case Nil
  show ?case by (rule exI [of _ "m_name_to_node m"], rule exI [of _ h]) (use Nil in simp)
next
  case (Cons x xs)
  have x: "x \<in> L" "x \<notin> set xs" and T: "n_type (h x) = T x" using Cons.prems types by auto
  show ?case
  proof (cases "soft (T x)")
    case True
    obtain h1 where h1: "bypass x h = Inr h1" "J h1 (L - {x})"
      "\<forall>a \<in> L. \<forall>\<sigma>. val_of (buffered h1) \<sigma> a = val_of (buffered h) \<sigma> a"
      using step [OF Cons.prems(1) x(1) _ True] Cons.prems(4) by auto
    let ?m = "m\<lparr>m_name_to_node := (m_name_to_node m)(n_name (h x) := None)\<rparr>"
    obtain f h' where *: "rfold simplify_node xs (?m, h1) = Inr (?m\<lparr>m_netlist := m_netlist ?m @ filter (\<lambda>a. \<not> soft (T a)) xs, m_name_to_node := f\<rparr>, h')"
      "J h' (L - {x} - {a \<in> set xs. soft (T a)})"
      "\<forall>a \<in> L - {x} - {a \<in> set xs. soft (T a)}. \<forall>\<sigma>. val_of (buffered h') \<sigma> a = val_of (buffered h1) \<sigma> a"
      using Cons.IH [OF h1(2), of ?m] Cons.prems x by auto
    have "L - {x} - {a \<in> set xs. soft (T a)} = L - {a \<in> set (x # xs). soft (T a)}" using True by auto
    moreover have "simplify_node x (m, h) = Inr (?m, h1)" using h1 True T by (simp add: simplify_node_def)
    ultimately show ?thesis using * h1(3) True by auto
  next
    case False
    let ?m = "m\<lparr>m_netlist := m_netlist m @ [x]\<rparr>"
    obtain f h' where *: "rfold simplify_node xs (?m, h) = Inr (?m\<lparr>m_netlist := m_netlist ?m @ filter (\<lambda>a. \<not> soft (T a)) xs, m_name_to_node := f\<rparr>, h')"
      "J h' (L - {a \<in> set xs. soft (T a)})"
      "\<forall>a \<in> L - {a \<in> set xs. soft (T a)}. \<forall>\<sigma>. val_of (buffered h') \<sigma> a = val_of (buffered h) \<sigma> a"
      using Cons.IH [OF Cons.prems(1), of ?m] Cons.prems by auto
    have "L - {a \<in> set xs. soft (T a)} = L - {a \<in> set (x # xs). soft (T a)}" using False by auto
    moreover have "simplify_node x (m, h) = Inr (?m, h)" using False T by (simp add: simplify_node_def)
    ultimately show ?thesis using * False by auto
  qed
qed

lemma wires_loop:
  assumes q: "quiet h L r" and xs: "distinct xs" "set xs \<subseteq> L" "\<forall>a \<in> set xs. n_type (h a) \<notin> {BUF, INV}"
    and no: "\<forall>b \<in> L. \<forall>a \<in> set (n_fi (h b)). n_type (h a) \<noteq> OUTPUT"
  defines "L' \<equiv> L - {a \<in> set xs. n_type (h a) = WIRE}"
  shows "\<exists>f h'. rfold simplify_node xs (m, h) = Inr (m\<lparr>m_netlist := m_netlist m @ filter (\<lambda>a. \<not> soft (n_type (h a))) xs, m_name_to_node := f\<rparr>, h') \<and>
      quiet h' L' r \<and> (\<forall>a \<in> L'. n_type (h' a) = n_type (h a)) \<and> (\<forall>b \<in> L'. \<forall>a \<in> set (n_fi (h' b)). n_type (h' a) \<noteq> OUTPUT) \<and>
      (\<forall>a \<in> L'. \<forall>\<sigma>. val_of (buffered h') \<sigma> a = val_of (buffered h) \<sigma> a)"
proof -
  define J where "J h' M \<longleftrightarrow> quiet h' M r \<and> M \<subseteq> L \<and> (\<forall>a \<in> M. n_type (h' a) = n_type (h a)) \<and>
     (\<forall>b \<in> M. \<forall>a \<in> set (n_fi (h' b)). n_type (h' a) \<noteq> OUTPUT)" for h' M
  have step: "\<exists>h2. bypass x h1 = Inr h2 \<and> J h2 (M - {x}) \<and> (\<forall>a \<in> M. \<forall>\<sigma>. val_of (buffered h2) \<sigma> a = val_of (buffered h1) \<sigma> a)"
    if J: "J h1 M" and x: "x \<in> M" "n_type (h x) \<notin> {BUF, INV}" "soft (n_type (h x))" for h1 M x
  proof -
    have w: "wired h1 M r" and q1: "quiet h1 M r" and tx: "n_type (h1 x) = WIRE"
      using J x by (auto simp: J_def quiet_def soft_def)
    obtain p where p: "n_fi (h1 x) = [p]" "p \<in> M" "r p < r x" using wired_fan_in [OF w x(1)] tx by (auto simp: fan_in_def)
    obtain h2 where h2: "bypass x h1 = Inr h2" "rerouted x p M h1 h2" "refanned x p (M - {x}) h1 h2"
      using bypass_ok [of h1 M r x p] w x p by auto
    have "quiet h2 (M - {x}) r" by (rule quiet_step(1) [OF q1 x(1) p(1) _ h2(2,3)]) (auto simp: tx)
    moreover have "\<forall>a \<in> M. \<forall>\<sigma>. val_of (buffered h2) \<sigma> a = val_of (buffered h1) \<sigma> a"
      using quiet_step(2) [OF q1 x(1) p(1) _ h2(2,3)] tx by auto
    moreover have "n_type (h2 a) \<noteq> OUTPUT" if b: "b \<in> M - {x}" "a \<in> set (n_fi (h2 b))" for a b
    proof -
      have "a \<in> set (n_fi (h1 b)) \<or> a = p" using h2(2) b by (auto simp: rerouted_def set_new_fi split: if_splits)
      moreover have ok: "n_type (h1 c) \<noteq> OUTPUT \<and> c \<in> M" if "c \<in> set (n_fi (h1 d))" "d \<in> M" for c d
        using J wiredD(2) [OF w] that unfolding J_def by blast
      ultimately have "n_type (h1 a) \<noteq> OUTPUT" "a \<in> M" using b(1) x(1) ok [of a b] ok [of p x] p(1) by auto
      then show ?thesis using h2(2) by (simp add: rerouted_def)
    qed
    ultimately show ?thesis using J h2(1,2) by (auto simp: J_def rerouted_def)
  qed
  have types: "J h1 M \<Longrightarrow> a \<in> M \<Longrightarrow> n_type (h1 a) = n_type (h a)" for h1 M a by (simp add: J_def)
  have P: "list_all (\<lambda>x. n_type (h x) \<notin> {BUF, INV}) xs" using xs(3) by (simp add: list_all_iff)
  have J: "J h L" using q no by (simp add: J_def)
  have L': "L - {a \<in> set xs. soft (n_type (h a))} = L'" using xs(3) by (auto simp: L'_def soft_def)
  have "\<exists>f h'. rfold simplify_node xs (m, h) = Inr (m\<lparr>m_netlist := m_netlist m @ filter (\<lambda>a. \<not> soft (n_type (h a))) xs, m_name_to_node := f\<rparr>, h') \<and>
     J h' (L - {a \<in> set xs. soft (n_type (h a))}) \<and>
     (\<forall>a \<in> L - {a \<in> set xs. soft (n_type (h a))}. \<forall>\<sigma>. val_of (buffered h') \<sigma> a = val_of (buffered h) \<sigma> a)"
    by (rule simplify_loop [where J = J and P = "\<lambda>x. n_type (h x) \<notin> {BUF, INV}" and T = "\<lambda>x. n_type (h x)"])
      (fact step types J xs(1) xs(2) P)+
  then show ?thesis unfolding L' unfolding J_def by blast
qed

lemma gates_loop:
  assumes q: "settled h L r" and xs: "distinct xs" "set xs \<subseteq> L"
  defines "L' \<equiv> L - {a \<in> set xs. soft (n_type (h a))}"
  shows "\<exists>f h'. rfold simplify_node xs (m, h) = Inr (m\<lparr>m_netlist := m_netlist m @ filter (\<lambda>a. \<not> soft (n_type (h a))) xs, m_name_to_node := f\<rparr>, h') \<and>
      settled h' L' r \<and> (\<forall>a \<in> L'. n_type (h' a) = n_type (h a)) \<and>
      (\<forall>a \<in> L'. \<forall>\<sigma>. val_of (buffered h') \<sigma> a = val_of (buffered h) \<sigma> a)"
proof -
  define J where "J h' M \<longleftrightarrow> settled h' M r \<and> M \<subseteq> L \<and> (\<forall>a \<in> M. n_type (h' a) = n_type (h a))" for h' M
  have step: "\<exists>h2. bypass x h1 = Inr h2 \<and> J h2 (M - {x}) \<and> (\<forall>a \<in> M. \<forall>\<sigma>. val_of (buffered h2) \<sigma> a = val_of (buffered h1) \<sigma> a)"
    if J: "J h1 M" and x: "x \<in> M" True "soft (n_type (h x))" for h1 M x
  proof -
    have q1: "settled h1 M r" and tx: "soft (n_type (h1 x))" using J x by (auto simp: J_def)
    have w: "wired h1 M r" using q1 by (simp add: settled_def)
    obtain p where p: "n_fi (h1 x) = [p]" "p \<in> M" "r p < r x"
      using wired_fan_in [OF w x(1)] tx by (auto simp: fan_in_def soft_def)
    obtain h2 where h2: "bypass x h1 = Inr h2" "rerouted x p M h1 h2" "refanned x p (M - {x}) h1 h2"
      using bypass_ok [of h1 M r x p] w x p by auto
    have "settled h2 (M - {x}) r" by (rule settled_step(1) [OF q1 x(1) p(1) tx h2(2,3)])
    moreover have "\<forall>a \<in> M. \<forall>\<sigma>. val_of (buffered h2) \<sigma> a = val_of (buffered h1) \<sigma> a"
      using settled_step(2) [OF q1 x(1) p(1) tx h2(2,3)] by simp
    ultimately show ?thesis using J h2(1,2) by (auto simp: J_def rerouted_def)
  qed
  have types: "J h1 M \<Longrightarrow> a \<in> M \<Longrightarrow> n_type (h1 a) = n_type (h a)" for h1 M a by (simp add: J_def)
  have P: "list_all (\<lambda>x. True) xs" by (simp add: list_all_iff)
  have J: "J h L" using q by (simp add: J_def)
  have "\<exists>f h'. rfold simplify_node xs (m, h) = Inr (m\<lparr>m_netlist := m_netlist m @ filter (\<lambda>a. \<not> soft (n_type (h a))) xs, m_name_to_node := f\<rparr>, h') \<and>
     J h' (L - {a \<in> set xs. soft (n_type (h a))}) \<and>
     (\<forall>a \<in> L - {a \<in> set xs. soft (n_type (h a))}. \<forall>\<sigma>. val_of (buffered h') \<sigma> a = val_of (buffered h) \<sigma> a)"
    by (rule simplify_loop [where J = J and P = "\<lambda>x. True" and T = "\<lambda>x. n_type (h x)"])
      (fact step types J xs(1) xs(2) P)+
  then show ?thesis unfolding L'_def J_def by blast
qed

lemma outputs_loop:
  assumes "quiet h A r" and "set xs \<subseteq> A" and "\<forall>x \<in> set xs. n_type (h x) = OUTPUT"
    and "\<forall>b \<in> A. set (n_fi (h b)) \<inter> D = {}"
  shows "\<exists>h'. rfold free_output xs h = Inr h' \<and> quiet h' A r \<and> (\<forall>a \<in> A. n_type (h' a) = n_type (h a)) \<and>
      (\<forall>b \<in> A. set (n_fi (h' b)) \<inter> (D \<union> set xs) = {}) \<and> (\<forall>a \<in> A. \<forall>\<sigma>. val_of (buffered h') \<sigma> a = val_of (buffered h) \<sigma> a)"
  using assms
proof (induction xs arbitrary: h D)
  case Nil
  then show ?case by simp
next
  case (Cons x xs)
  have w: "wired h A r" and x: "x \<in> A" "n_type (h x) = OUTPUT" using Cons.prems by (auto simp: quiet_def)
  obtain p where p: "n_fi (h x) = [p]" "p \<in> A" "r p < r x" using wired_fan_in [OF w x(1)] x(2) by (auto simp: fan_in_def)
  obtain h1 where h1: "free_output x h = Inr h1" "rerouted x p A h h1" "refanned x p A h h1"
    using free_output_ok [OF w x p(1)] by blast
  have q1: "quiet h1 A r" by (rule quiet_step(1) [OF Cons.prems(1) x(1) p(1) _ h1(2,3)]) (auto simp: x)
  have v1: "\<forall>a \<in> A. \<forall>\<sigma>. val_of (buffered h1) \<sigma> a = val_of (buffered h) \<sigma> a"
    using quiet_step(2) [OF Cons.prems(1) x(1) p(1) _ h1(2,3)] x by auto
  have t1: "\<forall>a \<in> A. n_type (h1 a) = n_type (h a)" using h1(2) by (simp add: rerouted_def)
  have "p \<noteq> x" using p by auto
  moreover have "p \<notin> D" using Cons.prems(4) x(1) p(1) by auto
  ultimately have "\<forall>b \<in> A. set (n_fi (h1 b)) \<inter> insert x D = {}"
    using Cons.prems(4) h1(2) by (fastforce simp: rerouted_def set_new_fi split: if_splits)
  then have unread: "\<forall>b \<in> A. set (n_fi (h1 b)) \<inter> insert x D = {}" .
  have outs: "set xs \<subseteq> A" "\<forall>x \<in> set xs. n_type (h1 x) = OUTPUT" using Cons.prems(2,3) t1 by auto
  obtain h' where "rfold free_output xs h1 = Inr h'" "quiet h' A r" "\<forall>a \<in> A. n_type (h' a) = n_type (h1 a)"
      "\<forall>b \<in> A. set (n_fi (h' b)) \<inter> (insert x D \<union> set xs) = {}" "\<forall>a \<in> A. \<forall>\<sigma>. val_of (buffered h') \<sigma> a = val_of (buffered h1) \<sigma> a"
    using Cons.IH [OF q1 outs unread] by blast
  then show ?case using h1(1) v1 t1 by auto
qed

section \<open>The whole of \<open>Simplification\<close>\<close>

text \<open>Linking the ports changes names, links and bit lengths only.\<close>

definition same_wires :: "(addr \<Rightarrow> node) \<Rightarrow> (addr \<Rightarrow> node) \<Rightarrow> bool" where
  "same_wires h h' \<longleftrightarrow> (\<forall>a. n_fi (h' a) = n_fi (h a) \<and> n_fo (h' a) = n_fo (h a) \<and> n_inv (h' a) = n_inv (h a) \<and>
     n_type (h' a) = n_type (h a) \<and> n_idx (h' a) = n_idx (h a))"

lemma same_wires_trans: "same_wires h h' \<Longrightarrow> same_wires h' h'' \<Longrightarrow> same_wires h h''"
  by (simp add: same_wires_def)

lemma same_wires_upd:
  assumes "\<And>n. n_fi (f n) = n_fi n \<and> n_fo (f n) = n_fo n \<and> n_inv (f n) = n_inv n \<and> n_type (f n) = n_type n \<and> n_idx (f n) = n_idx n"
  shows "same_wires h (upd a f h)"
  using assms by (simp add: same_wires_def upd_apply)

lemma same_wires_refl [simp]: "same_wires h h"
  by (simp add: same_wires_def)

lemma link_pairs_wires: "same_wires h (link_pairs xs h)"
proof (induction xs h rule: link_pairs.induct)
  case (1 x y xs h)
  have "same_wires h (upd y (n_link_left_update (\<lambda>_. Some x)) (upd x (n_link_right_update (\<lambda>_. Some y)) h))"
    by (rule same_wires_trans [OF same_wires_upd same_wires_upd]) simp_all
  then show ?case using same_wires_trans [OF _ 1] by simp
qed simp_all

lemma fold_upd_wires:
  assumes "\<And>n. n_fi (f n) = n_fi n \<and> n_fo (f n) = n_fo n \<and> n_inv (f n) = n_inv n \<and> n_type (f n) = n_type n \<and> n_idx (f n) = n_idx n"
  shows "same_wires h (fold (\<lambda>x. upd x f) xs h)"
proof (induction xs arbitrary: h)
  case Nil
  then show ?case by simp
next
  case (Cons x xs)
  show ?case using same_wires_trans [OF same_wires_upd [OF assms] Cons] by simp
qed

lemma Link_wires: "xs \<noteq> [] \<Longrightarrow> \<exists>h'. Link xs h = Inr h' \<and> same_wires h h'"
proof (cases xs)
  case (Cons a ys)
  have "same_wires h (fold (\<lambda>x. upd x (\<lambda>n. n\<lparr>n_head := a, n_bit_len := int (length xs)\<rparr>)) xs (link_pairs xs h))"
    by (rule same_wires_trans [OF link_pairs_wires fold_upd_wires]) simp
  then show ?thesis using Cons by (simp add: Link_def)
qed simp

lemma link_ports_wires: "\<exists>h'. link_ports m h = Inr h' \<and> same_wires h h'"
proof -
  have "\<exists>t. rfold link_port xs ('''', [], h) = Inr t \<and> same_wires h (snd (snd t))" for xs
  proof (rule rfold_total)
    fix x and u :: "string \<times> addr list \<times> (addr \<Rightarrow> node)" assume "same_wires h (snd (snd u))"
    moreover obtain prev linker g where u: "u = (prev, linker, g)" by (metis prod_cases3)
    ultimately have g: "same_wires h g" by simp
    have name: "same_wires h (upd x (n_name_update (\<lambda>_. s)) g)" for s
      by (rule same_wires_trans [OF g same_wires_upd]) simp
    have len: "same_wires h (upd x (n_bit_len_update (\<lambda>_. 1)) g)"
      by (rule same_wires_trans [OF g same_wires_upd]) simp
    show "\<exists>v. link_port x u = Inr v \<and> same_wires h (snd (snd v))"
    proof (cases "base_name (n_name (g x))")
      case None
      then show ?thesis using len by (simp add: u link_port_def)
    next
      case (Some s)
      show ?thesis
      proof (cases "prev = s \<or> linker = []")
        case True
        then show ?thesis using Some name [of s] by (auto simp: u link_port_def Let_def)
      next
        case False
        then obtain h' where "Link linker (upd x (n_name_update (\<lambda>_. s)) g) = Inr h'" "same_wires (upd x (n_name_update (\<lambda>_. s)) g) h'"
          using Link_wires by blast
        then show ?thesis using Some False same_wires_trans [OF name] by (auto simp: u link_port_def Let_def)
      qed
    qed
  qed simp
  then obtain prev linker g where g: "rfold link_port (m_gate m INPUT @ m_gate m OUTPUT) ('''', [], h) = Inr (prev, linker, g)"
    "same_wires h g" by (metis prod.collapse snd_conv)
  then show ?thesis using Link_wires [of linker g] by (auto simp: link_ports_def intro: same_wires_trans)
qed

text \<open>What \<open>Simplification\<close> relies on: the wires come before the buffers and inverters.\<close>

definition wires_first :: "(addr \<Rightarrow> node) \<Rightarrow> addr list \<Rightarrow> bool" where
  "wires_first h ns \<longleftrightarrow> (\<forall>a \<in> set (dropWhile (\<lambda>a. n_type (h a) \<notin> {BUF, INV}) ns). n_type (h a) \<noteq> WIRE)"

definition simplifiable :: "module \<Rightarrow> (addr \<Rightarrow> node) \<Rightarrow> addr set \<Rightarrow> (addr \<Rightarrow> nat) \<Rightarrow> bool" where
  "simplifiable m h A r \<longleftrightarrow> quiet h A r \<and> distinct (m_netlist m) \<and> set (m_netlist m) \<subseteq> A \<and> wires_first h (m_netlist m) \<and>
     (\<forall>a \<in> A. soft (n_type (h a)) \<longrightarrow> a \<in> set (m_netlist m)) \<and>
     set (m_gate m OUTPUT) = {a \<in> A. n_type (h a) = OUTPUT}"

lemma same_wires_evals:
  assumes "same_wires h h'" and "evals (buffered h) \<sigma> a b"
  shows "evals (buffered h') \<sigma> a b"
  using assms(2)
proof induction
  case (ev_input a)
  then show ?case using assms(1) by (auto simp: same_wires_def intro!: evals.ev_input split: if_splits)
next
  case (ev_gate a bs b)
  have "list_all2 (evals (buffered h') \<sigma>) (n_fi (h' a)) bs"
    using ev_gate.IH assms(1) by (auto simp: same_wires_def elim: list_all2_mono)
  then show ?case using ev_gate.hyps assms(1) by (intro evals.ev_gate) (auto simp: same_wires_def split: if_splits)
qed

lemma same_wires_sym: "same_wires h h' \<Longrightarrow> same_wires h' h"
  by (simp add: same_wires_def)

lemma same_wires_val: "same_wires h h' \<Longrightarrow> val_of (buffered h') \<sigma> a = val_of (buffered h) \<sigma> a"
  using same_wires_evals [of h h' \<sigma> a] same_wires_evals [of h' h \<sigma> a] same_wires_sym [of h h'] by (auto simp: val_of_def)

lemma same_wires_rooted: "rooted h a \<Longrightarrow> same_wires h h' \<Longrightarrow> rooted h' a"
proof (induction rule: rooted.induct)
  case (rooted_gate a)
  then show ?case by (auto simp: same_wires_def intro: rooted.rooted_gate)
next
  case (rooted_wire a p)
  then show ?case by (auto simp: same_wires_def intro: rooted.rooted_wire)
qed

lemma same_wires_quiet: "same_wires h h' \<Longrightarrow> quiet h A r \<Longrightarrow> quiet h' A r"
  using same_wires_rooted [of h _ h'] by (auto simp: quiet_def wired_def same_wires_def)

lemma buffered_id: "wired h L r \<Longrightarrow> \<forall>b \<in> L. n_type (h b) \<noteq> WIRE \<Longrightarrow> a \<in> L \<Longrightarrow> evals (buffered h) \<sigma> a b \<longleftrightarrow> evals h \<sigma> a b"
proof (induction "r a" arbitrary: a b rule: less_induct)
  case less
  have fi: "\<forall>c \<in> set (n_fi (h a)). \<forall>b. evals (buffered h) \<sigma> c b \<longleftrightarrow> evals h \<sigma> c b"
    using less wiredD [OF less.prems(1,3)] by blast
  then have "list_all2 (evals (buffered h) \<sigma>) (n_fi (h a)) bs \<longleftrightarrow> list_all2 (evals h \<sigma>) (n_fi (h a)) bs" for bs
    by (intro list.rel_cong) auto
  moreover have "buffered h a = h a" using less.prems by (simp add: buffered_def)
  ultimately show ?case by (auto intro: ev_input ev_gate elim!: evals_cases)
qed

lemma Simplification_ok:
  assumes s: "simplifiable m h A r"
  defines "L \<equiv> {a \<in> A. \<not> soft (n_type (h a))}"
  shows "\<exists>f h'. Simplification (m, h) = Inr (m\<lparr>m_netlist := filter (\<lambda>a. \<not> soft (n_type (h a))) (m_netlist m), m_name_to_node := f\<rparr>, h') \<and>
     wired h' L r \<and> (\<forall>a \<in> L. n_type (h' a) = n_type (h a)) \<and>
     (\<forall>a \<in> L. \<forall>\<sigma> b. evals h' \<sigma> a b \<longleftrightarrow> evals (buffered h) \<sigma> a b)"
proof -
  have q: "quiet h A r" and dist: "distinct (m_netlist m)" and sub: "set (m_netlist m) \<subseteq> A"
    and first: "wires_first h (m_netlist m)" and outs: "set (m_gate m OUTPUT) = {a \<in> A. n_type (h a) = OUTPUT}"
    and all: "\<forall>a \<in> A. soft (n_type (h a)) \<longrightarrow> a \<in> set (m_netlist m)"
    using s by (auto simp: simplifiable_def)
  let ?P = "\<lambda>a. n_type (h a) \<notin> {BUF, INV}"
  define ws gs where "ws = takeWhile ?P (m_netlist m)" and "gs = dropWhile ?P (m_netlist m)"
  have split: "m_netlist m = ws @ gs" by (simp add: ws_def gs_def)
  obtain h1 where h1: "link_ports m h = Inr h1" "same_wires h h1" using link_ports_wires by blast
  have t1: "n_type (h1 a) = n_type (h a)" for a using h1(2) by (simp add: same_wires_def)
  obtain h2 where h2: "rfold free_output (m_gate m OUTPUT) h1 = Inr h2" "quiet h2 A r" "\<forall>a \<in> A. n_type (h2 a) = n_type (h1 a)"
      "\<forall>b \<in> A. set (n_fi (h2 b)) \<inter> set (m_gate m OUTPUT) = {}" "\<forall>a \<in> A. \<forall>\<sigma>. val_of (buffered h2) \<sigma> a = val_of (buffered h1) \<sigma> a"
    using outputs_loop [OF same_wires_quiet [OF h1(2) q], of "m_gate m OUTPUT" "{}"] outs t1 by auto
  have t2: "n_type (h2 a) = n_type (h a)" if "a \<in> A" for a using h2(3) t1 that by simp
  have w2: "wired h2 A r" using h2(2) by (simp add: quiet_def)
  have no_out: "\<forall>b \<in> A. \<forall>a \<in> set (n_fi (h2 b)). n_type (h2 a) \<noteq> OUTPUT"
    using h2(4) outs t2 wiredD(2) [OF w2] by (auto simp: disjoint_iff)
  let ?m = "m\<lparr>m_netlist := []\<rparr>"
  define L1 where "L1 = A - {a \<in> set ws. n_type (h2 a) = WIRE}"
  have wsA: "distinct ws" "set ws \<subseteq> A" using dist sub unfolding split by simp_all
  have "\<forall>a \<in> set ws. n_type (h a) \<notin> {BUF, INV}" unfolding ws_def by (auto dest: set_takeWhileD)
  then have ws: "distinct ws" "set ws \<subseteq> A" "\<forall>a \<in> set ws. n_type (h2 a) \<notin> {BUF, INV}" using wsA t2 by auto
  obtain f1 h3 where h3: "rfold simplify_node ws (?m, h2) = Inr (?m\<lparr>m_netlist := m_netlist ?m @ filter (\<lambda>a. \<not> soft (n_type (h2 a))) ws, m_name_to_node := f1\<rparr>, h3)"
      "quiet h3 L1 r" "\<forall>a \<in> L1. n_type (h3 a) = n_type (h2 a)" "\<forall>b \<in> L1. \<forall>a \<in> set (n_fi (h3 b)). n_type (h3 a) \<noteq> OUTPUT"
      "\<forall>a \<in> L1. \<forall>\<sigma>. val_of (buffered h3) \<sigma> a = val_of (buffered h2) \<sigma> a"
    using wires_loop [OF h2(2) ws no_out, of ?m] unfolding L1_def by blast
  have t3: "n_type (h3 a) = n_type (h a)" if "a \<in> L1" for a
  proof -
    have "a \<in> A" using that by (simp add: L1_def)
    then show ?thesis using h3(3) t2 that by simp
  qed
  have no_wire: "\<forall>b \<in> L1. n_type (h3 b) \<noteq> WIRE"
  proof
    fix b assume b: "b \<in> L1"
    show "n_type (h3 b) \<noteq> WIRE"
    proof
      assume "n_type (h3 b) = WIRE"
      then have "n_type (h b) = WIRE" using t3 b by simp
      moreover have "b \<in> A" using b by (simp add: L1_def)
      ultimately have "b \<in> set (m_netlist m)" using all by (simp add: soft_def)
      moreover have "b \<notin> set gs" using first \<open>n_type (h b) = WIRE\<close> unfolding wires_first_def gs_def by blast
      ultimately have "b \<in> set ws" unfolding split by simp
      then show False using b t2 \<open>b \<in> A\<close> \<open>n_type (h b) = WIRE\<close> by (simp add: L1_def)
    qed
  qed
  have gsA: "distinct gs" "set gs \<subseteq> A" "set ws \<inter> set gs = {}" using dist sub unfolding split by simp_all
  then have gs: "distinct gs" "set gs \<subseteq> L1" by (auto simp: L1_def)
  let ?m1 = "?m\<lparr>m_netlist := m_netlist ?m @ filter (\<lambda>a. \<not> soft (n_type (h2 a))) ws, m_name_to_node := f1\<rparr>"
  obtain f h' where h': "rfold simplify_node gs (?m1, h3) = Inr (?m1\<lparr>m_netlist := m_netlist ?m1 @ filter (\<lambda>a. \<not> soft (n_type (h3 a))) gs, m_name_to_node := f\<rparr>, h')"
      "settled h' (L1 - {a \<in> set gs. soft (n_type (h3 a))}) r" "\<forall>a \<in> L1 - {a \<in> set gs. soft (n_type (h3 a))}. n_type (h' a) = n_type (h3 a)"
      "\<forall>a \<in> L1 - {a \<in> set gs. soft (n_type (h3 a))}. \<forall>\<sigma>. val_of (buffered h') \<sigma> a = val_of (buffered h3) \<sigma> a"
    using gates_loop [OF quiet_settled [OF h3(2) no_wire h3(4)] gs, of ?m1] by blast
  have L: "L1 - {a \<in> set gs. soft (n_type (h3 a))} = L"
  proof (intro set_eqI iffI)
    fix a assume a: "a \<in> L1 - {a \<in> set gs. soft (n_type (h3 a))}"
    then have aL: "a \<in> L1" "a \<in> A" "a \<in> set ws \<Longrightarrow> n_type (h2 a) \<noteq> WIRE" by (auto simp: L1_def)
    have "\<not> soft (n_type (h a))"
    proof
      assume so: "soft (n_type (h a))"
      then have "a \<in> set ws \<or> a \<in> set gs" using all aL(2) unfolding split by simp
      then show False using a so aL t2 t3 ws(3) by (auto simp: soft_def)
    qed
    then show "a \<in> L" using aL by (simp add: L_def)
  next
    fix a assume "a \<in> L"
    then have a: "a \<in> A" "\<not> soft (n_type (h a))" by (simp_all add: L_def)
    then have "a \<in> L1" using t2 by (auto simp: L1_def soft_def)
    then show "a \<in> L1 - {a \<in> set gs. soft (n_type (h3 a))}" using a t3 by simp
  qed
  have LA: "L \<subseteq> L1" "L1 \<subseteq> A" by (auto simp: L [symmetric] L1_def)
  have "filter (\<lambda>a. \<not> soft (n_type (h2 a))) ws @ filter (\<lambda>a. \<not> soft (n_type (h3 a))) gs = filter (\<lambda>a. \<not> soft (n_type (h a))) (m_netlist m)"
    unfolding split using ws(2) gs(2) t2 t3 by (auto intro!: arg_cong2 [where f = append] filter_cong)
  then have "Simplification (m, h) = Inr (m\<lparr>m_netlist := filter (\<lambda>a. \<not> soft (n_type (h a))) (m_netlist m), m_name_to_node := f\<rparr>, h')"
    using h1(1) h2(1) h3(1) h'(1) by (simp add: Simplification_def split rfold_append)
  moreover have w': "wired h' L r" and nw': "\<forall>b \<in> L. n_type (h' b) \<noteq> WIRE" using h'(2) by (simp_all add: settled_def L)
  moreover have "\<forall>a \<in> L. n_type (h' a) = n_type (h a)" using h'(3) t3 LA by (auto simp: L)
  moreover have "\<forall>a \<in> L. \<forall>\<sigma> b. evals h' \<sigma> a b \<longleftrightarrow> evals (buffered h) \<sigma> a b"
  proof (intro ballI allI)
    fix a \<sigma> b assume a: "a \<in> L"
    have "val_of (buffered h') \<sigma> a = val_of (buffered h) \<sigma> a"
      using h'(4) h3(5) h2(5) same_wires_val [OF h1(2)] a LA by (auto simp: L subset_iff)
    then have "evals (buffered h') \<sigma> a b \<longleftrightarrow> evals (buffered h) \<sigma> a b" by (simp add: val_of_iff [symmetric])
    then show "evals h' \<sigma> a b \<longleftrightarrow> evals (buffered h) \<sigma> a b" using buffered_id [OF w' nw' a] by simp
  qed
  ultimately show ?thesis by blast
qed

end
