(* ===== verification/Build_Inv.thy ===== *)
theory Build_Inv
  imports Net_Build Match_Ready
begin

text \<open>
  Invariants of the construction of a module: the parser creates nodes, adds them and connects
  gates; whatever it does, fan-in and fan-out agree and the ports know their positions. \<open>setBus\<close>
  then establishes what the matching assumes of ports and buses.
\<close>

section \<open>Fan-in and fan-out agree\<close>

definition edges_ok :: "store \<Rightarrow> bool" where
  "edges_ok st \<longleftrightarrow> (\<forall>a < next_addr st. \<forall>c \<in> set (n_fi (heap st a)) \<union> set (n_fo (heap st a)). c < next_addr st) \<and>
     (\<forall>a < next_addr st. \<forall>b < next_addr st. count_list (n_fi (heap st b)) a = count_list (n_fo (heap st a)) b)"

lemma edges_okD:
  assumes "edges_ok st" and "a < next_addr st"
  shows "c \<in> set (n_fi (heap st a)) \<Longrightarrow> c < next_addr st" "c \<in> set (n_fo (heap st a)) \<Longrightarrow> c < next_addr st"
    "b < next_addr st \<Longrightarrow> count_list (n_fi (heap st b)) a = count_list (n_fo (heap st a)) b"
  using assms by (auto simp: edges_ok_def)

lemma count_list_zero: "count_list xs x = 0 \<longleftrightarrow> x \<notin> set xs"
  by (induction xs) auto

lemma edges_ok_mem:
  assumes "edges_ok st" and "a < next_addr st" and "b < next_addr st"
  shows "a \<in> set (n_fi (heap st b)) \<longleftrightarrow> b \<in> set (n_fo (heap st a))"
  using edges_okD(3) [OF assms] by (metis count_list_zero)

lemma edges_ok_new: "edges_ok st \<Longrightarrow> edges_ok (snd (new_node s t st))"
  by (auto simp: edges_ok_def new_node_def mk_node_def less_Suc_eq count_list_zero)

lemma edges_ok_same:
  assumes "edges_ok st" and "\<And>a. n_fi (h a) = n_fi (heap st a) \<and> n_fo (h a) = n_fo (heap st a)"
  shows "edges_ok (st\<lparr>heap := h\<rparr>)"
  using assms by (simp add: edges_ok_def)

lemma connect_out_edges:
  assumes "edges_ok st" and "g < next_addr st" and "np < next_addr st"
  shows "edges_ok (st\<lparr>heap := connect_out g np (heap st)\<rparr>)"
  using assms by (auto simp: edges_ok_def connect_out_def upd_apply)

lemma connect_in_edges:
  assumes "edges_ok st" and "g < next_addr st" and "np < next_addr st"
  shows "edges_ok (st\<lparr>heap := connect_in g np (heap st)\<rparr>)"
  using assms by (auto simp: edges_ok_def connect_in_def upd_apply)

section \<open>The module\<close>

definition is_port :: "gtype \<Rightarrow> bool" where
  "is_port t \<longleftrightarrow> t = INPUT \<or> t = OUTPUT"

definition ports_placed :: "module \<Rightarrow> (addr \<Rightarrow> node) \<Rightarrow> bool" where
  "ports_placed m h \<longleftrightarrow> (\<forall>t. is_port t \<longrightarrow> (\<forall>k < length (m_gate m t). n_idx (h (m_gate m t ! k)) = int k))"

definition module_inv :: "module \<Rightarrow> store \<Rightarrow> bool" where
  "module_inv m st \<longleftrightarrow> edges_ok st \<and> distinct (m_netlist m) \<and> set (m_netlist m) \<subseteq> {..<next_addr st} \<and>
     (\<forall>s a. m_name_to_node m s = Some a \<longrightarrow> a < next_addr st) \<and>
     (\<forall>t. t \<noteq> WIRE \<longrightarrow> m_gate m t = filter (\<lambda>a. n_type (heap st a) = t) (m_netlist m)) \<and> ports_placed m (heap st)"

text \<open>
  The modules the parser can build: it starts from the constructor, creates nodes and adds them,
  and connects nodes that are not ports.
\<close>

inductive built :: "module \<Rightarrow> store \<Rightarrow> bool" where
  built_start: "edges_ok st \<Longrightarrow> new_module s k bp st = (m, st') \<Longrightarrow> built m st'"
| built_add: "built m st \<Longrightarrow> new_node s t st = (a, st') \<Longrightarrow> AddNode a (m, heap st') = (m', h) \<Longrightarrow> built m' (st'\<lparr>heap := h\<rparr>)"
| built_connect: "built m st \<Longrightarrow> g < next_addr st \<Longrightarrow> \<not> is_port (n_type (heap st g)) \<Longrightarrow> Connect g vs (m, heap st) = Inr (m', h) \<Longrightarrow>
    built m' (st\<lparr>heap := h\<rparr>)"

lemma module_inv_start:
  assumes "edges_ok st" and "new_module s k bp st = (m, st')"
  shows "module_inv m st'"
proof -
  let ?st1 = "snd (new_node ''1'b0'' CONSTANT st)"
  let ?st2 = "snd (new_node ''1'b1'' CONSTANT ?st1)"
  have "edges_ok ?st2" using edges_ok_new [OF edges_ok_new [OF assms(1)]] by simp
  moreover have "next_addr st' = next_addr ?st2"
    and "n_fi (heap st' a) = n_fi (heap ?st2 a) \<and> n_fo (heap st' a) = n_fo (heap ?st2 a)" for a
    using assms(2) by (auto simp: new_module_def new_node_def Let_def upd_apply)
  ultimately have "edges_ok st'" by (simp add: edges_ok_def)
  moreover have "m_netlist m = []" "m_gate m = (\<lambda>_. [])" "\<forall>s a. m_name_to_node m s = Some a \<longrightarrow> a < next_addr st'"
    using assms(2) by (auto simp: new_module_def new_node_def Let_def split: if_splits)
  ultimately show ?thesis by (simp add: module_inv_def ports_placed_def)
qed

lemma module_inv_add:
  assumes inv: "module_inv m st" and new: "new_node s t st = (a, st')" and add: "AddNode a (m, heap st') = (m', h)"
  shows "module_inv m' (st'\<lparr>heap := h\<rparr>)"
proof -
  let ?N = "next_addr st"
  have a: "a = ?N" "next_addr st' = Suc ?N" "heap st' = (heap st)(?N := mk_node ?N s t)"
    using new by (auto simp: new_node_def)
  have "edges_ok st'" using edges_ok_new [of st s t] inv new by (simp add: module_inv_def)
  moreover have same: "n_fi (h b) = n_fi (heap st' b) \<and> n_fo (h b) = n_fo (heap st' b) \<and> n_type (h b) = n_type (heap st' b)" for b
    using add by (auto simp: AddNode_def Let_def upd_apply split: if_splits)
  ultimately have "edges_ok (st'\<lparr>heap := h\<rparr>)" by (intro edges_ok_same) simp_all
  moreover have old: "b \<noteq> ?N \<Longrightarrow> heap st' b = heap st b" "n_type (heap st' ?N) = t" "n_name (heap st' ?N) = s" for b
    by (simp_all add: a mk_node_def)
  have m': "m_netlist m' = m_netlist m @ [?N]" "m_name_to_node m' = (m_name_to_node m)(s \<mapsto> ?N)"
    "m_gate m' = (if t = WIRE then m_gate m else (m_gate m)(t := m_gate m t @ [?N]))"
    using add old(2,3) by (auto simp: AddNode_def Let_def a(1) split: if_splits)
  moreover have below: "\<forall>b \<in> set (m_netlist m). b < ?N" using inv by (auto simp: module_inv_def)
  have types: "n_type (h b) = n_type (heap st b)" if "b < ?N" for b using same old(1) that by simp
  have "m_gate m' u = filter (\<lambda>b. n_type (h b) = u) (m_netlist m')" if u: "u \<noteq> WIRE" for u
  proof -
    have "filter (\<lambda>b. n_type (h b) = u) (m_netlist m) = filter (\<lambda>b. n_type (heap st b) = u) (m_netlist m)"
      by (rule filter_cong) (use below types in auto)
    then show ?thesis using inv u same [of ?N] old(2) by (simp add: module_inv_def m')
  qed
  moreover have gt: "m_gate m u ! k < ?N" if "is_port u" "k < length (m_gate m u)" for u k
  proof -
    have "set (m_gate m u) \<subseteq> set (m_netlist m)" using inv that(1) by (auto simp: module_inv_def is_port_def)
    then show ?thesis using below nth_mem [OF that(2)] by blast
  qed
  moreover have "ports_placed m' h"
  proof (cases "t = WIRE")
    case True
    then have "h = heap st'" using add old(2) by (simp add: AddNode_def a(1))
    then show ?thesis using inv gt True old(1) by (simp add: ports_placed_def module_inv_def m'(3) less_imp_neq)
  next
    case False
    have hh: "h = upd ?N (n_idx_update (\<lambda>_. int (length (m_gate m t)))) (heap st')"
      using add old(2) False by (simp add: AddNode_def Let_def a(1))
    have "n_idx (h (m_gate m' u ! k)) = int k" if u: "is_port u" "k < length (m_gate m' u)" for u k
    proof (cases "k < length (m_gate m u)")
      case True
      from True have "m_gate m' u ! k = m_gate m u ! k" by (auto simp: m'(3) nth_append)
      moreover have "m_gate m u ! k < ?N" using gt [OF u(1)] True .
      ultimately show ?thesis using inv u(1) True old(1) by (simp add: hh module_inv_def ports_placed_def)
    next
      case outside: False
      then have "u = t" "k = length (m_gate m t)" using u(2) False by (auto simp: m'(3) split: if_splits)
      then show ?thesis using False by (simp add: m'(3) hh)
    qed
    then show ?thesis by (simp add: ports_placed_def)
  qed
  ultimately show ?thesis using inv below by (auto simp: module_inv_def a(2) less_Suc_eq)
qed

lemma module_inv_connect:
  assumes inv: "module_inv m st" and g: "g < next_addr st" "\<not> is_port (n_type (heap st g))" and con: "Connect g vs (m, heap st) = Inr (m', h)"
  shows "module_inv m' (st\<lparr>heap := h\<rparr>)"
proof -
  have names: "\<And>s a. m_name_to_node m s = Some a \<Longrightarrow> a < next_addr st" using inv by (auto simp: module_inv_def)
  let ?h0 = "upd g (n_idx_update (\<lambda>_. -1)) (heap st)"
  let ?I = "\<lambda>h'. edges_ok (st\<lparr>heap := h'\<rparr>) \<and> (\<forall>a. n_type (h' a) = n_type (heap st a) \<and> (a \<noteq> g \<longrightarrow> n_idx (h' a) = n_idx (heap st a)))"
  obtain out ins where out: "vs = out # ins" using con by (cases vs) (simp_all add: Connect_def)
  obtain np where vs: "vs = out # ins" "m_name_to_node m out = Some np"
    using con out by (cases "m_name_to_node m out") (simp_all add: Connect_def Let_def)
  let ?f = "\<lambda>s h. case m_name_to_node m s of None \<Rightarrow> Inl connect_error | Some np \<Rightarrow> Inr (connect_in g np h)"
  have "rbind (rfold ?f ins (connect_out g np ?h0)) (\<lambda>h. Inr (m, h)) = Inr (m', h)" using con vs by (simp add: Connect_def Let_def)
  then have m': "m' = m" and fold: "rfold ?f ins (connect_out g np ?h0) = Inr h" unfolding rbind_eq_Inr by auto
  have "edges_ok (st\<lparr>heap := ?h0\<rparr>)" by (rule edges_ok_same) (use inv in \<open>auto simp: module_inv_def upd_apply\<close>)
  then have "?I (connect_out g np ?h0)"
    using connect_out_edges [of "st\<lparr>heap := ?h0\<rparr>" g np] g names [OF vs(2)] by (auto simp: connect_out_def upd_apply)
  then have I: "?I h"
  proof (rule rfold_inv [OF fold])
    fix s u v assume u: "?I u" and step: "(case m_name_to_node m s of None \<Rightarrow> Inl connect_error | Some np \<Rightarrow> Inr (connect_in g np u)) = Inr v"
    obtain np where np: "m_name_to_node m s = Some np" "v = connect_in g np u" using step by (auto split: option.splits)
    then show "?I v" using connect_in_edges [of "st\<lparr>heap := u\<rparr>" g np] u g names [OF np(1)] by (auto simp: connect_in_def upd_apply)
  qed
  have "g \<notin> set (m_gate m t)" if "is_port t" for t using inv g that by (auto simp: module_inv_def is_port_def)
  then have "ports_placed m h" using inv I unfolding module_inv_def ports_placed_def by (metis nth_mem)
  then show ?thesis using inv I unfolding m' by (auto simp: module_inv_def)
qed

lemma built_module_inv: "built m st \<Longrightarrow> module_inv m st"
proof (induction rule: built.induct)
  case (built_start st s k bp m st')
  then show ?case using module_inv_start by blast
next
  case (built_add m st s t a st' m' h)
  then show ?case using module_inv_add by blast
next
  case (built_connect m st g vs m' h)
  then show ?case using module_inv_connect by blast
qed

section \<open>Buses\<close>

text \<open>A bus of the input file that \<open>setBus\<close> accepts: distinct ports, all inputs or all outputs.\<close>

definition bus_names_ok :: "module \<Rightarrow> string list \<Rightarrow> bool" where
  "bus_names_ok m bus \<longleftrightarrow> bus \<noteq> [] \<and> (\<exists>as t. map (m_name_to_node m) bus = map Some as \<and> distinct as \<and>
     is_port t \<and> set as \<subseteq> set (m_gate m t))"

definition add_index :: "int \<Rightarrow> node \<Rightarrow> node" where
  "add_index k n = n\<lparr>n_bus_idx := k, n_bus_indices := n_bus_indices n @ [k]\<rparr>"

lemma bus_member_loop:
  assumes "map (m_name_to_node m) bus = map Some as" and "distinct as"
  shows "rfold (bus_member k m) bus (tmp, h) = Inr (tmp @ as, \<lambda>a. if a \<in> set as then add_index k (h a) else h a)"
  using assms
proof (induction bus arbitrary: as tmp h)
  case Nil
  then show ?case by simp
next
  case (Cons s bus)
  then obtain a bs where as: "as = a # bs" "m_name_to_node m s = Some a" "map (m_name_to_node m) bus = map Some bs" "distinct bs" "a \<notin> set bs"
    by (cases as) auto
  have "bus_member k m s (tmp, h) = Inr (tmp @ [a], upd a (add_index k) h)"
    using as(2) by (simp add: bus_member_def add_index_def [abs_def])
  moreover have "(\<lambda>b. if b \<in> set bs then add_index k (upd a (add_index k) h b) else upd a (add_index k) h b) =
      (\<lambda>b. if b \<in> set as then add_index k (h b) else h b)"
    using as(1,5) by (auto simp: upd_apply)
  ultimately show ?case using Cons.IH [OF as(3,4), of "tmp @ [a]" "upd a (add_index k) h"] as(1) by simp
qed

text \<open>What holds of the ports while buses are added.\<close>

definition port_indices_ok :: "addr list list \<Rightarrow> (addr \<Rightarrow> node) \<Rightarrow> addr \<Rightarrow> bool" where
  "port_indices_ok bs h a \<longleftrightarrow> (n_bus_idx (h a) = -1 \<and> n_bus_indices (h a) = [] \<or> n_bus_idx (h a) \<in> set (n_bus_indices (h a))) \<and>
     distinct (n_bus_indices (h a)) \<and>
     (\<forall>k \<in> set (n_bus_indices (h a)). in_range bs k \<and> n_type (h (hd (bs ! nat k))) = n_type (h a))"

definition bus_frame :: "(addr \<Rightarrow> node) \<Rightarrow> (addr \<Rightarrow> node) \<Rightarrow> bool" where
  "bus_frame h h' \<longleftrightarrow> (\<forall>a. \<exists>k ks. h' a = (h a)\<lparr>n_bus_idx := k, n_bus_indices := ks\<rparr>)"

lemma bus_frameD: "bus_frame h h' \<Longrightarrow> n_type (h' a) = n_type (h a) \<and> n_idx (h' a) = n_idx (h a)"
  unfolding bus_frame_def by (metis node.select_convs(2,14) node.surjective node.update_convs(8,16))

definition bus_inv :: "module \<Rightarrow> (addr \<Rightarrow> node) \<Rightarrow> net \<Rightarrow> bool" where
  "bus_inv m0 h0 = (\<lambda>(m, h). (\<exists>bs. m = m0\<lparr>m_bus_set := bs\<rparr>) \<and> bus_frame h0 h \<and>
     buses_ok (m_gate m0 INPUT) (m_gate m0 OUTPUT) (m_bus_set m) \<and>
     (\<forall>a \<in> set (m_gate m0 INPUT) \<union> set (m_gate m0 OUTPUT). port_indices_ok (m_bus_set m) h a))"

lemma buses_ok_snoc: "buses_ok is os (bs @ [xs]) \<longleftrightarrow> buses_ok is os bs \<and> xs \<noteq> [] \<and> (set xs \<subseteq> set is \<or> set xs \<subseteq> set os)"
  by (auto simp: buses_ok_def)

lemma in_range_snoc [simp]: "in_range (bs @ [xs]) k \<longleftrightarrow> in_range bs k \<or> k = int (length bs)"
  by (auto simp: in_range_def)

lemma nth_snoc_range: "in_range bs k \<Longrightarrow> (bs @ [xs]) ! nat k = bs ! nat k"
  by (simp add: nth_append in_rangeD)

text \<open>A bus \<open>xs\<close> of ports of one type is added, and its number to the ports on it.\<close>

lemma bus_inv_snoc:
  assumes inv: "bus_inv m0 h0 (m, h)" and xs: "xs \<noteq> []" "is_port t" "set xs \<subseteq> set (m_gate m0 t)"
    and types: "\<And>u a. is_port u \<Longrightarrow> a \<in> set (m_gate m0 u) \<Longrightarrow> n_type (h0 a) = u"
    and h': "h' = (\<lambda>a. if a \<in> set xs then add_index (int (length (m_bus_set m))) (h a) else h a)"
  shows "bus_inv m0 h0 (m\<lparr>m_bus_set := m_bus_set m @ [xs]\<rparr>, h')"
proof -
  let ?k = "int (length (m_bus_set m))"
  have frame: "bus_frame h0 h" and m: "\<exists>bs. m = m0\<lparr>m_bus_set := bs\<rparr>"
    and ok: "buses_ok (m_gate m0 INPUT) (m_gate m0 OUTPUT) (m_bus_set m)"
    and ports: "\<And>a. a \<in> set (m_gate m0 INPUT) \<union> set (m_gate m0 OUTPUT) \<Longrightarrow> port_indices_ok (m_bus_set m) h a"
    using inv by (auto simp: bus_inv_def)
  have "\<exists>i is. h' a = (h0 a)\<lparr>n_bus_idx := i, n_bus_indices := is\<rparr>" for a
  proof -
    obtain i "is" where "h a = (h0 a)\<lparr>n_bus_idx := i, n_bus_indices := is\<rparr>" using frame by (metis bus_frame_def)
    then have "h' a = (h0 a)\<lparr>n_bus_idx := if a \<in> set xs then ?k else i, n_bus_indices := if a \<in> set xs then is @ [?k] else is\<rparr>"
      by (simp add: h' add_index_def)
    then show ?thesis by blast
  qed
  then have frame': "bus_frame h0 h'" by (simp add: bus_frame_def)
  have same: "n_type (h' a) = n_type (h a)" for a using bus_frameD [OF frame] bus_frameD [OF frame'] by simp
  have ty: "n_type (h' a) = t" if "a \<in> set xs" for a using types [OF xs(2)] xs(3) that bus_frameD [OF frame'] by auto
  have "port_indices_ok (m_bus_set m @ [xs]) h' a" if "a \<in> set (m_gate m0 INPUT) \<union> set (m_gate m0 OUTPUT)" for a
  proof -
    have old: "port_indices_ok (m_bus_set m) h a" by (rule ports [OF that])
    have rng: "in_range (m_bus_set m) i \<and> n_type (h (hd (m_bus_set m ! nat i))) = n_type (h a)" if "i \<in> set (n_bus_indices (h a))" for i
      using old that by (simp add: port_indices_ok_def)
    then have new: "i \<noteq> ?k \<and> in_range (m_bus_set m) i \<and> n_type (h' (hd ((m_bus_set m @ [xs]) ! nat i))) = n_type (h' a)"
      if "i \<in> set (n_bus_indices (h a))" for i
      using that same by (auto simp: nth_snoc_range in_range_def)
    show ?thesis
    proof (cases "a \<in> set xs")
      case True
      have "n_type (h' (hd xs)) = n_type (h' a)" using ty [OF True] ty [of "hd xs"] xs(1) by simp
      moreover have "n_bus_idx (h' a) = ?k" "n_bus_indices (h' a) = n_bus_indices (h a) @ [?k]"
        using True by (simp_all add: h' add_index_def)
      ultimately show ?thesis using old new by (auto simp: port_indices_ok_def)
    next
      case False
      then have "n_bus_idx (h' a) = n_bus_idx (h a)" "n_bus_indices (h' a) = n_bus_indices (h a)" by (simp_all add: h')
      then show ?thesis using old new by (auto simp: port_indices_ok_def)
    qed
  qed
  moreover have "set xs \<subseteq> set (m_gate m0 INPUT) \<or> set xs \<subseteq> set (m_gate m0 OUTPUT)" using xs(2,3) by (auto simp: is_port_def)
  ultimately show ?thesis using m frame' ok xs(1) by (auto simp: bus_inv_def buses_ok_snoc)
qed

lemma bus_inv_ports:
  assumes "bus_inv m0 h0 (m, h)"
  shows "m_gate m = m_gate m0" "m_name_to_node m = m_name_to_node m0" "m_moduleIndex m = m_moduleIndex m0" "m_bus_signature m = m_bus_signature m0"
proof -
  obtain bs where "m = m0\<lparr>m_bus_set := bs\<rparr>" using assms unfolding bus_inv_def by blast
  then show "m_gate m = m_gate m0" "m_name_to_node m = m_name_to_node m0" "m_moduleIndex m = m_moduleIndex m0"
    "m_bus_signature m = m_bus_signature m0" by simp_all
qed

lemma add_bus_ok:
  assumes inv: "bus_inv m0 h0 (m, h)" and bus: "bus_names_ok m0 bus" and n84: "m_moduleIndex m0 \<noteq> 0 \<or> m_name_to_node m0 ''n84'' = None"
    and types: "\<And>u a. is_port u \<Longrightarrow> a \<in> set (m_gate m0 u) \<Longrightarrow> n_type (h0 a) = u"
  shows "\<exists>mh. add_bus bus (m, h) = Inr mh \<and> bus_inv m0 h0 mh"
proof -
  obtain as t where as: "map (m_name_to_node m0) bus = map Some as" "distinct as" "is_port t" "set as \<subseteq> set (m_gate m0 t)" "bus \<noteq> []"
    using bus by (auto simp: bus_names_ok_def)
  let ?k = "int (length (m_bus_set m))"
  let ?h = "\<lambda>a. if a \<in> set as then add_index ?k (h a) else h a"
  have "n84_case m bus as = Inr as" using n84 as(5) by (cases bus) (auto simp: n84_case_def bus_inv_ports [OF inv])
  then have "add_bus bus (m, h) = Inr (m\<lparr>m_bus_set := m_bus_set m @ [as]\<rparr>, ?h)"
    using bus_member_loop [of m bus as ?k "[]" h] as(1,2) by (simp add: add_bus_def bus_inv_ports [OF inv] Let_def)
  moreover have "as \<noteq> []" using as(1,5) by auto
  ultimately show ?thesis using bus_inv_snoc [OF inv _ as(3,4) types refl] by blast
qed

lemma sort_indices_ok: "list_all (in_range bs) ks \<Longrightarrow> \<exists>js. sort_indices bs ks = Inr js \<and> mset js = mset ks"
  by (simp add: sort_indices_def)

lemma bus_of_port_ok:
  assumes inv: "bus_inv m0 h0 (m, h)" and x: "is_port t" "x \<in> set (m_gate m0 t)"
    and types: "\<And>u a. is_port u \<Longrightarrow> a \<in> set (m_gate m0 u) \<Longrightarrow> n_type (h0 a) = u"
  shows "\<exists>m' h'. bus_of_port x (m, h) = Inr (m', h') \<and> bus_inv m0 h0 (m', h') \<and> n_bus_indices (h' x) \<noteq> [] \<and>
     (\<forall>a. n_bus_indices (h a) \<noteq> [] \<longrightarrow> n_bus_indices (h' a) \<noteq> [])"
proof -
  have px: "x \<in> set (m_gate m0 INPUT) \<union> set (m_gate m0 OUTPUT)" using x by (auto simp: is_port_def)
  then have old: "port_indices_ok (m_bus_set m) h x" using inv by (auto simp: bus_inv_def)
  show ?thesis
  proof (cases "n_bus_idx (h x) = -1")
    case True
    let ?k = "int (length (m_bus_set m))"
    let ?h = "\<lambda>a. if a \<in> set [x] then add_index ?k (h a) else h a"
    have "bus_inv m0 h0 (m\<lparr>m_bus_set := m_bus_set m @ [[x]]\<rparr>, ?h)"
      by (rule bus_inv_snoc [OF inv _ x(1) _ types refl]) (use x(2) in simp_all)
    moreover have "bus_of_port x (m, h) = Inr (m\<lparr>m_bus_set := m_bus_set m @ [[x]]\<rparr>, ?h)"
      using True by (auto simp: bus_of_port_def Let_def upd_apply add_index_def fun_eq_iff)
    ultimately show ?thesis by (auto simp: add_index_def)
  next
    case False
    then have idx: "n_bus_idx (h x) \<in> set (n_bus_indices (h x))" using old by (simp add: port_indices_ok_def)
    have "list_all (in_range (m_bus_set m)) (n_bus_indices (h x))" using old by (simp add: port_indices_ok_def list_all_iff)
    then obtain js where js: "sort_indices (m_bus_set m) (n_bus_indices (h x)) = Inr js" "mset js = mset (n_bus_indices (h x))"
      using sort_indices_ok by blast
    let ?h = "upd x (n_bus_indices_update (\<lambda>_. js)) h"
    have set_js: "set js = set (n_bus_indices (h x))" "distinct js \<longleftrightarrow> distinct (n_bus_indices (h x))"
      using js(2) by (auto dest: mset_eq_setD mset_eq_imp_distinct_iff)
    have ty: "n_type (?h a) = n_type (h a)" for a by (simp add: upd_apply)
    have "port_indices_ok (m_bus_set m) ?h a" if "port_indices_ok (m_bus_set m) h a" for a
    proof (cases "a = x")
      case True
      then show ?thesis using that idx set_js unfolding port_indices_ok_def ty by simp
    next
      case False
      then show ?thesis using that unfolding port_indices_ok_def ty by simp
    qed
    moreover have "bus_frame h0 ?h" unfolding bus_frame_def
    proof
      fix a
      obtain i "is" where "h a = (h0 a)\<lparr>n_bus_idx := i, n_bus_indices := is\<rparr>" using inv unfolding bus_inv_def bus_frame_def by blast
      then have "?h a = (h0 a)\<lparr>n_bus_idx := i, n_bus_indices := if a = x then js else is\<rparr>" by (cases "a = x") auto
      then show "\<exists>i is. ?h a = (h0 a)\<lparr>n_bus_idx := i, n_bus_indices := is\<rparr>" by blast
    qed
    ultimately have "bus_inv m0 h0 (m, ?h)" using inv by (simp add: bus_inv_def)
    moreover have "bus_of_port x (m, h) = Inr (m, ?h)" using False js(1) by (simp add: bus_of_port_def)
    moreover have "js \<noteq> []" using idx set_js by auto
    ultimately show ?thesis by (auto simp: upd_apply)
  qed
qed

lemma count_buses_ok: "\<forall>xs \<in> set bs. xs \<noteq> [] \<Longrightarrow> \<exists>c. count_buses h bs = Inr c"
proof -
  assume "\<forall>xs \<in> set bs. xs \<noteq> []"
  then have "\<exists>c. count_buses h bs = Inr c \<and> True"
    unfolding count_buses_def by (intro rfold_total) (auto simp: Let_def split: list.splits prod.splits)
  then show ?thesis by simp
qed

lemma setBus_ok:
  assumes types: "\<And>u a. is_port u \<Longrightarrow> a \<in> set (m_gate m u) \<Longrightarrow> n_type (h a) = u" and placed: "ports_placed m h"
    and fresh: "m_bus_set m = []" "\<And>a. a \<in> set (m_gate m INPUT) \<union> set (m_gate m OUTPUT) \<Longrightarrow> n_bus_idx (h a) = -1 \<and> n_bus_indices (h a) = []"
    and buses: "\<forall>bus \<in> set bus_set. bus_names_ok m bus" and n84: "m_moduleIndex m \<noteq> 0 \<or> m_name_to_node m ''n84'' = None"
  shows "\<exists>cnt m' h'. setBus bus_set (m, h) = Inr (cnt, m', h') \<and> bus_frame h h' \<and> m_gate m' = m_gate m \<and>
     ports_ok h' INPUT (m_gate m INPUT) (m_bus_set m') \<and> ports_ok h' OUTPUT (m_gate m OUTPUT) (m_bus_set m') \<and>
     buses_ok (m_gate m INPUT) (m_gate m OUTPUT) (m_bus_set m') \<and> m_bus_signature m' = replicate (length (m_bus_set m')) 0"
proof -
  have "h a = (h a)\<lparr>n_bus_idx := n_bus_idx (h a), n_bus_indices := n_bus_indices (h a)\<rparr>" for a by simp
  then have "bus_frame h h" unfolding bus_frame_def by blast
  moreover have "m = m\<lparr>m_bus_set := m_bus_set m\<rparr>" by simp
  then have "\<exists>bs. m = m\<lparr>m_bus_set := bs\<rparr>" ..
  ultimately have start: "bus_inv m h (m, h)" using fresh by (auto simp: bus_inv_def buses_ok_def port_indices_ok_def)
  have "\<exists>mh. rfold add_bus bus_set (m, h) = Inr mh \<and> bus_inv m h mh"
  proof (rule rfold_total [where P = "bus_inv m h", OF start])
    fix bus mh assume "bus \<in> set bus_set" "bus_inv m h mh"
    then show "\<exists>v. add_bus bus mh = Inr v \<and> bus_inv m h v"
      using add_bus_ok [of m h "fst mh" "snd mh" bus] buses n84 types by auto
  qed
  then obtain m1 h1 where l1: "rfold add_bus bus_set (m, h) = Inr (m1, h1)" "bus_inv m h (m1, h1)" by fastforce
  let ?ports = "m_gate m INPUT @ m_gate m OUTPUT"
  have "\<exists>mh. rfold bus_of_port xs (m1, h1) = Inr mh \<and> bus_inv m h mh \<and> (\<forall>a \<in> set xs. n_bus_indices (snd mh a) \<noteq> [])"
    if "set xs \<subseteq> set ?ports" for xs
    using that
  proof (induction xs rule: rev_induct)
    case Nil
    then show ?case using l1 by simp
  next
    case (snoc x xs)
    then obtain m2 h2 where l2: "rfold bus_of_port xs (m1, h1) = Inr (m2, h2)" "bus_inv m h (m2, h2)" "\<forall>a \<in> set xs. n_bus_indices (h2 a) \<noteq> []"
      by fastforce
    obtain t where t: "is_port t" "x \<in> set (m_gate m t)" using snoc.prems by (auto simp: is_port_def)
    show ?case using bus_of_port_ok [OF l2(2) t types] l2(1,3) by (auto simp: rfold_append)
  qed
  then obtain m2 h2 where l2: "rfold bus_of_port ?ports (m1, h1) = Inr (m2, h2)" "bus_inv m h (m2, h2)" "\<forall>a \<in> set ?ports. n_bus_indices (h2 a) \<noteq> []"
    by fastforce
  have ok: "buses_ok (m_gate m INPUT) (m_gate m OUTPUT) (m_bus_set m2)" and frame: "bus_frame h h2"
    and ports: "\<And>a. a \<in> set ?ports \<Longrightarrow> port_indices_ok (m_bus_set m2) h2 a" using l2(2) by (auto simp: bus_inv_def)
  obtain cnt where cnt: "count_buses h2 (m_bus_set m2) = Inr cnt" using count_buses_ok ok by (metis buses_ok_def)
  have "ports_ok h2 t (m_gate m t) (m_bus_set m2)" if t: "is_port t" for t
    unfolding ports_ok_def
  proof (intro conjI allI impI ballI)
    fix k assume k: "k < length (m_gate m t)"
    show "n_idx (h2 (m_gate m t ! k)) = int k" using placed t k bus_frameD [OF frame] by (simp add: ports_placed_def)
    show "n_type (h2 (m_gate m t ! k)) = t" using types [OF t] k bus_frameD [OF frame] by simp
  next
    fix a assume a: "a \<in> set (m_gate m t)"
    then have pa: "a \<in> set ?ports" using t by (auto simp: is_port_def)
    have ta: "n_type (h2 a) = t" using types [OF t a] bus_frameD [OF frame] by simp
    show "n_bus_idx (h2 a) \<in> set (n_bus_indices (h2 a))" "distinct (n_bus_indices (h2 a))"
      using ports [OF pa] l2(3) pa by (auto simp: port_indices_ok_def)
    fix b assume b: "b \<in> set (n_bus_indices (h2 a))"
    then show "in_range (m_bus_set m2) b" "n_type (h2 (hd (m_bus_set m2 ! nat b))) = t"
      using ports [OF pa] ta by (auto simp: port_indices_ok_def)
  qed
  moreover have "setBus bus_set (m, h) = Inr (cnt, m2\<lparr>m_bus_signature := replicate (length (m_bus_set m2)) 0\<rparr>, h2)"
    using l1(1) l2(1) cnt by (simp add: setBus_def bus_inv_ports [OF l1(2)])
  ultimately show ?thesis
    by (intro exI [of _ cnt] exI [of _ "m2\<lparr>m_bus_signature := replicate (length (m_bus_set m2)) 0\<rparr>"] exI [of _ h2])
      (use frame ok bus_inv_ports [OF l2(2)] in \<open>simp add: is_port_def\<close>)
qed

end
