(* ===== verification/Build_Props.thy ===== *)
theory Build_Props
  imports Parse_Correct Net_Simplify Build_Inv
begin

text \<open>
  The properties of the parser, of the construction of a module, of \<open>Simplification\<close> and \<open>setBus\<close>,
  with their concrete inputs.
\<close>

section \<open>A netlist with a wire and an inverter\<close>

text \<open>\<open>z = \<not> x \<and> y\<close>: inputs 0 and 1, output 2, wire 3 behind the inverter 4, gate 5.\<close>

definition wn_nodes :: "node list" where
  "wn_nodes =
     [(mk_node 0 ''x'' INPUT)\<lparr>n_fo := [4]\<rparr>, (mk_node 1 ''y'' INPUT)\<lparr>n_fo := [5], n_idx := 1\<rparr>,
      (mk_node 2 ''z'' OUTPUT)\<lparr>n_fi := [5]\<rparr>, (mk_node 3 ''w'' WIRE)\<lparr>n_fi := [4], n_fo := [5]\<rparr>,
      (mk_node 4 ''g0'' INV)\<lparr>n_fi := [0], n_fo := [3], n_idx := -1\<rparr>,
      (mk_node 5 ''g1'' AND)\<lparr>n_fi := [3, 1], n_fo := [2], n_idx := -1\<rparr>]"

definition wn_heap :: "addr \<Rightarrow> node" where
  "wn_heap a = wn_nodes ! a"

definition wn_module :: module where
  "wn_module = \<lparr>m_moduleIndex = 1, m_cur_bit_place = 0, m_name = ''top'', m_netlist = [0, 1, 2, 3, 4, 5],
     m_gate = (\<lambda>t. if t = INPUT then [0, 1] else if t = OUTPUT then [2] else if t = INV then [4] else if t = AND then [5] else []),
     m_ctrl_signal = [], m_bus_set = [],
     m_name_to_node = Map.empty(''x'' \<mapsto> 0, ''y'' \<mapsto> 1, ''z'' \<mapsto> 2, ''w'' \<mapsto> 3, ''g0'' \<mapsto> 4, ''g1'' \<mapsto> 5),
     m_set_to_group_idx = Map.empty, m_bus_signature = [], m_allEquation = [], m_group = [],
     m_gate_path = [], m_path_cnt = (\<lambda>_. 0), m_first_pi = [], m_input_sig = []\<rparr>"

definition wn_rank :: "addr \<Rightarrow> nat" where
  "wn_rank a = [0, 0, 4, 2, 1, 3] ! a"

abbreviation wn_all :: "addr set" where
  "wn_all \<equiv> {0, 1, 2, 3, 4, 5}"

lemma wn_heap_simps [simp]:
  "wn_heap 0 = (mk_node 0 ''x'' INPUT)\<lparr>n_fo := [4]\<rparr>" "wn_heap (Suc 0) = (mk_node 1 ''y'' INPUT)\<lparr>n_fo := [5], n_idx := 1\<rparr>"
  "wn_heap 2 = (mk_node 2 ''z'' OUTPUT)\<lparr>n_fi := [5]\<rparr>" "wn_heap 3 = (mk_node 3 ''w'' WIRE)\<lparr>n_fi := [4], n_fo := [5]\<rparr>"
  "wn_heap 4 = (mk_node 4 ''g0'' INV)\<lparr>n_fi := [0], n_fo := [3], n_idx := -1\<rparr>"
  "wn_heap 5 = (mk_node 5 ''g1'' AND)\<lparr>n_fi := [3, 1], n_fo := [2], n_idx := -1\<rparr>"
  by (simp_all add: wn_heap_def wn_nodes_def eval_nat_numeral)

lemma wn_rank_simps [simp]:
  "wn_rank 0 = 0" "wn_rank (Suc 0) = 0" "wn_rank 2 = 4" "wn_rank 3 = 2" "wn_rank 4 = 1" "wn_rank 5 = 3"
  by (simp_all add: wn_rank_def eval_nat_numeral)

lemma mk_node_fields [simp]:
  "n_type (mk_node a s t) = t" "n_fi (mk_node a s t) = []" "n_fo (mk_node a s t) = []" "n_inv (mk_node a s t) = 0"
  "n_idx (mk_node a s t) = 0" "n_bus_idx (mk_node a s t) = -1" "n_bus_indices (mk_node a s t) = []" "n_name (mk_node a s t) = s"
  "n_pi_idx (mk_node a s t) = []" "n_signature (mk_node a s t) = []"
  by (simp_all add: mk_node_def)

lemma wn_module_fields [simp]:
  "m_netlist wn_module = [0, 1, 2, 3, 4, 5]" "m_gate wn_module INPUT = [0, 1]" "m_gate wn_module OUTPUT = [2]"
  "m_bus_set wn_module = []" "m_moduleIndex wn_module = 1"
  "m_name_to_node wn_module = Map.empty(''x'' \<mapsto> 0, ''y'' \<mapsto> 1, ''z'' \<mapsto> 2, ''w'' \<mapsto> 3, ''g0'' \<mapsto> 4, ''g1'' \<mapsto> 5)"
  by (simp_all add: wn_module_def)

section \<open>Reading a netlist\<close>

text \<open>C20: The parser reads back what is printed. On the text of a module with declarations of inputs,
  outputs and wires and with gates, \<open>Parser\<close> does exactly what the statements stand for: it creates,
  adds and connects their nodes in the order of the text, simplifies the netlist and traces its inputs.\<close>

theorem Parser_roundtrip:
  assumes "CHR ''('' \<notin> set name" "newline \<notin> set name" and "newline \<notin> set ports" and "list_all stmt_ok sts"
  shows "Parser k (print_circuit name ports sts) i bp ms st = build_circuit k i bp name sts ms st"
  using assms by (rule Parser_build)

definition empty_store :: store where
  "empty_store = \<lparr>heap = (\<lambda>a. mk_node a '''' NONE), next_addr = 0\<rparr>"

definition ex_stmts :: "stmt list" where
  "ex_stmts = [Decl INPUT [''x''], Decl OUTPUT [''z''], Gate BUF '''' [''z'', ''x'']]"

lemma ex_stmts_ok: "list_all stmt_ok ex_stmts"
  by code_simp

theorem Parser_roundtrip_witness:
  "Parser 9 (print_circuit ''top'' ''x, z'' ex_stmts) 0 0 [] empty_store = build_circuit 9 0 0 ''top'' ex_stmts [] empty_store"
  by (rule Parser_roundtrip [OF _ _ _ ex_stmts_ok]) simp_all

text \<open>The statements only create, add and connect nodes, so the invariant of a module holds.\<close>

definition built_at :: "nat \<Rightarrow> parse_state \<Rightarrow> bool" where
  "built_at i s \<longleftrightarrow> i < length (ps_modules s) \<and> built (ps_modules s ! i) (ps_store s)"

lemma built_at_add:
  assumes "built_at i s" and "new_and_add i name t s = Inr (np, s')"
  shows "built_at i s' \<and> np < next_addr (ps_store s') \<and> n_type (heap (ps_store s') np) = t"
proof -
  let ?m = "ps_modules s ! i"
  obtain st where st: "new_node name t (ps_store s) = (np, st)"
    using assms(2) by (auto simp: new_and_add_def res_simps split: prod.splits)
  obtain m' h' where add: "AddNode np (?m, heap st) = (m', h')" by fastforce
  have s': "s' = s\<lparr>ps_store := st\<lparr>heap := h'\<rparr>, ps_modules := (ps_modules s)[i := m']\<rparr>"
    using assms st add by (auto simp: new_and_add_def on_net_def built_at_def)
  have "built m' (st\<lparr>heap := h'\<rparr>)" using assms(1) by (intro built_add [OF _ st add]) (simp add: built_at_def)
  moreover have "np < next_addr st" using st by (auto simp: new_node_def)
  moreover have "n_type (h' np) = t" using st add by (auto simp: new_node_def AddNode_def mk_node_def Let_def split: if_splits)
  ultimately show ?thesis using assms(1) by (simp add: s' built_at_def)
qed

lemma built_at_connect:
  assumes "built_at i s" and "g < next_addr (ps_store s)" and "\<not> is_port (n_type (heap (ps_store s) g))"
    and "on_net i (Connect g vs) s = Inr s'"
  shows "built_at i s'"
proof -
  obtain m' h' where c: "Connect g vs (ps_modules s ! i, heap (ps_store s)) = Inr (m', h')"
    and s': "s' = s\<lparr>ps_modules := (ps_modules s)[i := m'], ps_store := (ps_store s)\<lparr>heap := h'\<rparr>\<rparr>"
    using assms(4) by (auto simp: on_net_def res_simps)
  show ?thesis using assms(1) built_connect [OF _ assms(2,3) c] by (simp add: s' built_at_def)
qed

lemma built_at_fields: "built_at i (s\<lparr>ps_gate_index := n\<rparr>) = built_at i s" "built_at i (s\<lparr>ps_wires := n\<rparr>) = built_at i s"
  by (simp_all add: built_at_def)

lemma built_at_stmt:
  assumes "built_at i s" and "stmt_ok st" and "build_stmt i st s = Inr s'"
  shows "built_at i s'"
proof (cases st)
  case (Decl t names)
  have step: "built_at i u \<Longrightarrow> rbind (declare_name i t name u) (\<lambda>(b, s). Inr s) = Inr v \<Longrightarrow> built_at i v" for name u v
  proof -
    assume u: "built_at i u" and run: "rbind (declare_name i t name u) (\<lambda>(b, s). Inr s) = Inr v"
    obtain b where b: "declare_name i t name u = Inr (b, v)" using run by (auto simp: rbind_eq_Inr)
    show "built_at i v"
    proof (cases "NameToNode (ps_modules u ! i) name = None")
      case True
      then obtain np s1 where "new_and_add i name t u = Inr (np, s1)" "v = count_wire t s1"
        using b u by (auto simp: declare_name_def built_at_def rbind_eq_Inr)
      then show ?thesis using built_at_add [OF u] by (simp add: count_wire_def built_at_fields)
    next
      case False
      then have "v = u" using b u by (simp add: declare_name_def built_at_def)
      then show ?thesis using u by simp
    qed
  qed
  have run: "rfold (\<lambda>name s. rbind (declare_name i t name s) (\<lambda>(b, s). Inr s)) names s = Inr s'"
    using assms(3) by (simp add: Decl declare_names_def)
  show ?thesis by (rule rfold_inv [where P = "built_at i", OF run assms(1)]) (rule step)
next
  case (Gate t g names)
  have t: "\<not> is_port t" using assms(2) by (auto simp: Gate is_port_def)
  have add: "built_at i u \<Longrightarrow> rbind (new_and_add i name t u) (\<lambda>(gate, s). on_net i (Connect gate names) s) = Inr v \<Longrightarrow> built_at i v" for name u v
  proof -
    assume u: "built_at i u" and run: "rbind (new_and_add i name t u) (\<lambda>(gate, s). on_net i (Connect gate names) s) = Inr v"
    obtain np s1 where np: "new_and_add i name t u = Inr (np, s1)" "on_net i (Connect np names) s1 = Inr v"
      using run by (auto simp: rbind_eq_Inr)
    show "built_at i v" using built_at_connect [OF _ _ _ np(2)] built_at_add [OF u np(1)] t by simp
  qed
  show ?thesis
  proof (cases "g = ''''")
    case True
    then show ?thesis using assms(1,3) add [of "s\<lparr>ps_gate_index := ps_gate_index s + 1\<rparr>"] by (simp add: Gate add_gate_def built_at_fields)
  next
    case False
    then show ?thesis using assms(1,3) add [of s] by (simp add: Gate add_gate_def)
  qed
qed

text \<open>C23: Every module the parser builds satisfies the invariant of modules before it is simplified:
  fan-in and fan-out of all nodes agree in number, the netlist has no repetition, each gate vector holds
  the nodes of its type in netlist order, inputs and outputs know their positions, and names refer to nodes.\<close>

theorem parsed_module_inv:
  assumes "edges_ok st" and "new_module name (int (length ms)) bp st = (m, st1)" and "list_all stmt_ok sts"
    and "rfold (build_stmt (length ms)) sts \<lparr>ps_modules = ms @ [m], ps_store = st1, ps_gate_index = 0, ps_wires = 0\<rparr> = Inr s"
  shows "module_inv (ps_modules s ! length ms) (ps_store s)"
proof -
  let ?s = "\<lparr>ps_modules = ms @ [m], ps_store = st1, ps_gate_index = 0, ps_wires = 0\<rparr>"
  have "built_at (length ms) ?s" using built_start [OF assms(1,2)] by (simp add: built_at_def)
  then have "built_at (length ms) s"
    by (rule rfold_inv [where P = "built_at (length ms)", OF assms(4)]) (use built_at_stmt assms(3) in \<open>auto simp: list_all_iff\<close>)
  then show ?thesis using built_module_inv by (simp add: built_at_def)
qed

definition ex_start :: parse_state where
  "ex_start = \<lparr>ps_modules = [fst (new_module ''top'' 0 0 empty_store)], ps_store = snd (new_module ''top'' 0 0 empty_store),
     ps_gate_index = 0, ps_wires = 0\<rparr>"

lemma ex_run: "isl (rfold (build_stmt 0) ex_stmts ex_start) = False"
  by code_simp

theorem parsed_module_inv_witness:
  "\<exists>s. rfold (build_stmt 0) ex_stmts ex_start = Inr s \<and> module_inv (ps_modules s ! 0) (ps_store s)"
proof -
  obtain s where s: "rfold (build_stmt 0) ex_stmts ex_start = Inr s" using ex_run by (cases "rfold (build_stmt 0) ex_stmts ex_start") auto
  have "edges_ok empty_store" by (simp add: edges_ok_def empty_store_def)
  then show ?thesis
    using parsed_module_inv [OF _ _ ex_stmts_ok, of empty_store "''top''" "[]" 0 "fst (new_module ''top'' 0 0 empty_store)"
        "snd (new_module ''top'' 0 0 empty_store)" s] s by (simp add: ex_start_def)
qed

section \<open>Files without a semicolon\<close>

lemma getline_semi:
  assumes "getline newline item ifs = (ok, item', ifs')" and "good ifs"
  shows "CHR '';'' \<in> set (rest ifs) \<longleftrightarrow> CHR '';'' \<in> set item' \<or> CHR '';'' \<in> set (rest ifs')"
    and "\<not> good ifs' \<Longrightarrow> rest ifs' = []"
proof -
  have split: "rest ifs = takeWhile (\<lambda>c. c \<noteq> newline) (rest ifs) @ newline # tl (dropWhile (\<lambda>c. c \<noteq> newline) (rest ifs))"
    if "newline \<in> set (rest ifs)" using dropWhile_hd [OF that] by (metis takeWhile_dropWhile_id)
  show "CHR '';'' \<in> set (rest ifs) \<longleftrightarrow> CHR '';'' \<in> set item' \<or> CHR '';'' \<in> set (rest ifs')"
  proof (cases "newline \<in> set (rest ifs)")
    case True
    have res: "item' = takeWhile (\<lambda>c. c \<noteq> newline) (rest ifs)" "rest ifs' = tl (dropWhile (\<lambda>c. c \<noteq> newline) (rest ifs))"
      using True assms by (auto simp: getline_def split: if_splits)
    have "set (rest ifs) = set item' \<union> {newline} \<union> set (rest ifs')"
      using arg_cong [OF split [OF True], of set] unfolding res [symmetric] by simp
    then show ?thesis by simp
  next
    case False
    then show ?thesis using assms by (auto simp: getline_def split: if_splits)
  qed
  show "\<not> good ifs' \<Longrightarrow> rest ifs' = []" using assms by (auto simp: getline_def split: if_splits)
qed

lemma more_lines_hang:
  "good ifs \<or> rest ifs = [] \<Longrightarrow> more_lines l item ifs = Inl Hang \<longleftrightarrow> CHR '';'' \<notin> set l \<and> CHR '';'' \<notin> set (rest ifs)"
proof (induction l item ifs rule: more_lines.induct)
  case (1 l item ifs)
  obtain ok item1 ifs1 where g: "getline newline item ifs = (ok, item1, ifs1)" by (metis prod_cases3)
  show ?case
  proof (cases "CHR '';'' \<in> set l \<or> \<not> good ifs")
    case True
    then show ?thesis using 1(2) g by (auto simp: more_lines.simps [of l])
  next
    case False
    then have "more_lines (l @ item1) item1 ifs1 = Inl Hang \<longleftrightarrow> CHR '';'' \<notin> set (l @ item1) \<and> CHR '';'' \<notin> set (rest ifs1)"
      using 1(1) [OF _ g [symmetric] refl] getline_semi(2) [OF g] by auto
    moreover have "more_lines l item ifs = more_lines (l @ item1) item1 ifs1" using False g by (simp add: more_lines.simps [of l])
    ultimately show ?thesis using False getline_semi(1) [OF g] by auto
  qed
qed

text \<open>C25: \<open>MakeLine\<close> joins lines until there is a semicolon. It returns with the joined line exactly
  when the line is \<open>endmodule\<close>, or a semicolon is in it or follows in the file; otherwise its loop
  reads past the end of the file for ever.\<close>

theorem MakeLine_hangs_iff:
  "MakeLine l (stream_of text) = Inl Hang \<longleftrightarrow> l \<noteq> ''endmodule'' \<and> CHR '';'' \<notin> set l \<and> CHR '';'' \<notin> set text"
  using more_lines_hang [of "stream_of text" l "''''"] by (auto simp: MakeLine_def stream_of_def)

section \<open>\<open>Simplification\<close>\<close>

text \<open>C22: \<open>Simplification\<close> is correct on netlists in which no inverter or buffer is driven, through wires
  and outputs, by another inverter or buffer, and the wires come before them: it returns, exactly
  the wires, buffers and inverters are taken off the netlist, every fan-in stays inside it and acyclic,
  and every node that stays computes the Boolean function it computed before.\<close>

theorem Simplification_preserves:
  assumes "simplifiable m h A r"
  shows "\<exists>f h'. Simplification (m, h) = Inr (m\<lparr>m_netlist := filter (\<lambda>a. \<not> soft (n_type (h a))) (m_netlist m), m_name_to_node := f\<rparr>, h') \<and>
     wired h' {a \<in> A. \<not> soft (n_type (h a))} r \<and>
     (\<forall>a \<in> A. \<not> soft (n_type (h a)) \<longrightarrow> (\<forall>\<sigma> b. evals h' \<sigma> a b \<longleftrightarrow> evals (buffered h) \<sigma> a b))"
proof -
  let ?L = "{a \<in> A. \<not> soft (n_type (h a))}"
  obtain f h' where "Simplification (m, h) = Inr (m\<lparr>m_netlist := filter (\<lambda>a. \<not> soft (n_type (h a))) (m_netlist m), m_name_to_node := f\<rparr>, h')"
    "wired h' ?L r" "\<forall>a \<in> ?L. \<forall>\<sigma> b. evals h' \<sigma> a b \<longleftrightarrow> evals (buffered h) \<sigma> a b"
    using Simplification_ok [OF assms] by blast
  then show ?thesis by (intro exI [of _ f] exI [of _ h']) simp
qed

lemma wn_simplifiable: "simplifiable wn_module wn_heap wn_all wn_rank"
proof -
  have "rooted wn_heap 0" by (rule rooted_gate) (simp_all add: soft_def)
  then have "quiet wn_heap wn_all wn_rank" by (simp add: quiet_def wired_def fan_in_def)
  moreover have "wires_first wn_heap (m_netlist wn_module)" by (simp add: wires_first_def)
  moreover have "set (m_gate wn_module OUTPUT) = {a \<in> wn_all. n_type (wn_heap a) = OUTPUT}" by auto
  ultimately show ?thesis by (simp add: simplifiable_def soft_def)
qed

theorem Simplification_preserves_witness:
  "\<exists>m' h'. Simplification (wn_module, wn_heap) = Inr (m', h') \<and> m_netlist m' = [0, 1, 2, 5] \<and>
     (\<forall>\<sigma> b. evals h' \<sigma> 2 b \<longleftrightarrow> evals (buffered wn_heap) \<sigma> 2 b)"
  using Simplification_preserves [OF wn_simplifiable] by (auto simp: soft_def)

text \<open>Two inverters in a row: \<open>z = \<not> \<not> x \<and> y\<close>.\<close>

definition di_heap :: "addr \<Rightarrow> node" where
  "di_heap = wn_heap(3 := (mk_node 3 ''g2'' INV)\<lparr>n_fi := [4], n_fo := [5], n_idx := -1\<rparr>)"

definition di_module :: module where
  "di_module = wn_module\<lparr>m_netlist := [0, 1, 2, 4, 3, 5]\<rparr>"

lemma di_run:
  "case Simplification (di_module, di_heap) of Inl e \<Rightarrow> False
   | Inr (m', h') \<Rightarrow> m_netlist m' = [0, 1, 2, 5] \<and> n_type (h' 2) = OUTPUT \<and> n_fi (h' 2) = [5] \<and> n_inv (h' 2) = 0 \<and>
       n_type (h' 5) = AND \<and> n_fi (h' 5) = [0, 1] \<and> n_inv (h' 5) = 1 \<and> n_type (h' 0) = INPUT \<and> n_type (h' 1) = INPUT"
  by code_simp

lemma evals_output: "n_type (h a) = OUTPUT \<Longrightarrow> n_fi (h a) = [b] \<Longrightarrow> n_inv (h a) = 0 \<Longrightarrow> evals h \<sigma> b v \<Longrightarrow> evals h \<sigma> a v"
  by (rule ev_gate [where bs = "[v]"]) simp_all

lemma evals_inverter: "n_type (h a) = INV \<Longrightarrow> n_fi (h a) = [b] \<Longrightarrow> n_inv (h a) = 0 \<Longrightarrow> evals h \<sigma> b v \<Longrightarrow> evals h \<sigma> a (\<not> v)"
  by (rule ev_gate [where bs = "[v]"]) simp_all

lemma evals_and: "n_type (h a) = AND \<Longrightarrow> n_fi (h a) = [b, c] \<Longrightarrow> evals h \<sigma> b v \<Longrightarrow> evals h \<sigma> c w \<Longrightarrow>
    n_inv (h a) = (if neg then 1 else 0) \<Longrightarrow> evals h \<sigma> a ((v \<noteq> neg) \<and> w)"
  by (rule ev_gate [where bs = "[v, w]"]) simp_all

text \<open>\<open>Simplification\<close> loses an inversion when an inverter drives another. The inversions of a node
  that is taken off the netlist are dropped, so the output that computed \<open>x \<and> y\<close> through two inverters
  computes \<open>\<not> x \<and> y\<close> afterwards.\<close>

theorem Simplification_double_inverter:
  "\<exists>m' h'. Simplification (di_module, di_heap) = Inr (m', h') \<and>
     (\<forall>\<sigma>. evals (buffered di_heap) \<sigma> 2 (\<sigma> 0 \<and> \<sigma> 1) \<and> evals h' \<sigma> 2 (\<not> \<sigma> 0 \<and> \<sigma> 1))"
proof -
  obtain m' h' where run: "Simplification (di_module, di_heap) = Inr (m', h')"
    and h': "n_type (h' 2) = OUTPUT" "n_fi (h' 2) = [5]" "n_inv (h' 2) = 0" "n_type (h' 5) = AND" "n_fi (h' 5) = [0, 1]" "n_inv (h' 5) = 1"
      "n_type (h' 0) = INPUT" "n_type (h' 1) = INPUT"
    using di_run by (auto split: sum.splits)
  have old: "evals (buffered di_heap) \<sigma> 2 (\<sigma> 0 \<and> \<sigma> 1)" for \<sigma>
  proof -
    have x: "evals (buffered di_heap) \<sigma> 0 (\<sigma> 0)" and y: "evals (buffered di_heap) \<sigma> 1 (\<sigma> 1)"
      by (simp_all add: evals_input_iff di_heap_def)
    have "evals (buffered di_heap) \<sigma> 4 (\<not> \<sigma> 0)" by (rule evals_inverter [OF _ _ _ x]) (simp_all add: di_heap_def)
    from evals_inverter [OF _ _ _ this, of 3] have z: "evals (buffered di_heap) \<sigma> 3 (\<not> \<not> \<sigma> 0)" by (simp add: di_heap_def)
    from evals_and [OF _ _ z y, of 5 False] have "evals (buffered di_heap) \<sigma> 5 (\<sigma> 0 \<and> \<sigma> 1)" by (simp add: di_heap_def)
    from evals_output [OF _ _ _ this, of 2] show ?thesis by (simp add: di_heap_def)
  qed
  have "evals h' \<sigma> 2 (\<not> \<sigma> 0 \<and> \<sigma> 1)" for \<sigma>
  proof -
    have x: "evals h' \<sigma> 0 (\<sigma> 0)" and y: "evals h' \<sigma> 1 (\<sigma> 1)" using h'(7,8) by (simp_all add: evals_input_iff)
    from evals_and [OF h'(4,5) x y, of True] have "evals h' \<sigma> 5 (\<not> \<sigma> 0 \<and> \<sigma> 1)" by (simp add: h'(6))
    from evals_output [OF h'(1,2,3) this] show ?thesis .
  qed
  then show ?thesis using run old by blast
qed

section \<open>\<open>setBus\<close>\<close>

text \<open>C24: \<open>setBus\<close> establishes what the matching relies on. When every bus of the input file is a list
  of distinct ports, all inputs or all outputs, of a module whose ports are placed, it returns, and
  afterwards every port knows its position, lies on the buses it lists, which are numbered in range and hold ports
  of its kind only, and no bus is empty.\<close>

theorem setBus_establishes:
  assumes "module_inv m st" and "m_bus_set m = []"
    and "\<forall>a \<in> set (m_gate m INPUT) \<union> set (m_gate m OUTPUT). n_bus_idx (heap st a) = -1 \<and> n_bus_indices (heap st a) = []"
    and "\<forall>bus \<in> set bus_set. bus_names_ok m bus" and "m_moduleIndex m \<noteq> 0 \<or> m_name_to_node m ''n84'' = None"
  shows "\<exists>cnt m' h'. setBus bus_set (m, heap st) = Inr (cnt, m', h') \<and> m_gate m' = m_gate m \<and>
     ports_ok h' INPUT (m_gate m INPUT) (m_bus_set m') \<and> ports_ok h' OUTPUT (m_gate m OUTPUT) (m_bus_set m') \<and>
     buses_ok (m_gate m INPUT) (m_gate m OUTPUT) (m_bus_set m')"
proof -
  have types: "n_type (heap st a) = u" if "is_port u" "a \<in> set (m_gate m u)" for u a
    using assms(1) that by (auto simp: module_inv_def is_port_def)
  have placed: "ports_placed m (heap st)" using assms(1) by (simp add: module_inv_def)
  show ?thesis using setBus_ok [OF types placed assms(2) _ assms(4,5)] assms(3) by blast
qed

lemma wn_inv: "module_inv wn_module \<lparr>heap = wn_heap, next_addr = 6\<rparr>"
proof -
  have six: "a < 6 \<longleftrightarrow> a \<in> wn_all" for a :: nat by auto
  have "edges_ok \<lparr>heap = wn_heap, next_addr = 6\<rparr>" by (simp add: edges_ok_def six Ball_def [symmetric])
  moreover have "m_gate wn_module t = filter (\<lambda>a. n_type (wn_heap a) = t) [0, 1, 2, 3, 4, 5]" if "t \<noteq> WIRE" for t
    using that by (auto simp: wn_module_def)
  moreover have "ports_placed wn_module wn_heap" by (auto simp: ports_placed_def is_port_def less_Suc_eq)
  ultimately show ?thesis by (auto simp: module_inv_def split: if_splits)
qed

theorem setBus_establishes_witness:
  "\<exists>cnt m' h'. setBus [[''x'', ''y'']] (wn_module, wn_heap) = Inr (cnt, m', h') \<and> ports_ok h' INPUT [0, 1] (m_bus_set m')"
proof -
  have "bus_names_ok wn_module [''x'', ''y'']"
    unfolding bus_names_ok_def by (intro conjI exI [of _ "[0, 1]"] exI [of _ INPUT]) (simp_all add: is_port_def)
  then show ?thesis using setBus_establishes [OF wn_inv, of "[[''x'', ''y'']]"] by auto
qed

end
