(* ===== verification/Operation_Model.thy ===== *)
theory Operation_Model
  imports Net_Trace
begin

text \<open>
  Class \<open>Operation\<close> of \<open>Netlist.h\<close> and the partition of the outputs into groups:
  \<open>Insert\<close>, \<open>CompareInput\<close>, the comparators and sorts of terms, \<open>ComputeNOTEncode\<close> and
  \<open>PartitionGroup\<close>.
\<close>

section \<open>Terms\<close>

definition new_operation :: "addr list \<Rightarrow> operation" where
  "new_operation out = \<lparr>o_input = [], o_output = out, o_real_input = [], o_const = 0, o_relation = EQ\<rparr>"

text \<open>\<open>Term::operator!=\<close>: the loop over both member lists, then the lengths and coefficients.\<close>

fun members_differ :: "int list \<Rightarrow> int list \<Rightarrow> bool" where
  "members_differ (x # xs) (y # ys) = (if x \<noteq> y then True else members_differ xs ys)"
| "members_differ [] [] = False"
| "members_differ _ _ = True"

definition term_neq :: "trm \<Rightarrow> trm \<Rightarrow> bool" where
  "term_neq a b = (if members_differ (t_member a) (t_member b) then True else t_coeff a \<noteq> t_coeff b)"

fun compare_terms :: "trm list \<Rightarrow> trm list \<Rightarrow> bool" where
  "compare_terms (a # as) (b # bs) = (if term_neq a b then False else compare_terms as bs)"
| "compare_terms [] [] = True"
| "compare_terms _ _ = False"

definition CompareInput :: "operation \<Rightarrow> operation \<Rightarrow> bool" where
  "CompareInput p q = compare_terms (o_real_input p) (o_real_input q)"

definition operation_eq :: "operation \<Rightarrow> operation \<Rightarrow> bool" where
  "operation_eq p q = (if \<not> CompareInput p q then False else o_const p = o_const q)"

definition isZERO :: "operation \<Rightarrow> bool" where
  "isZERO p \<longleftrightarrow> o_real_input p = []"

text \<open>
  \<open>TermCompare\<close>. The loop declares its own iterator of \<open>a\<close>, so behind it only the iterator of \<open>b\<close>
  says where it ended; the outer one of \<open>a\<close> is still at the start.
\<close>

fun compare_members :: "int list \<Rightarrow> int list \<Rightarrow> bool option \<times> int list" where
  "compare_members (x # xs) (y # ys) = (if x \<noteq> y then (Some (x < y), y # ys) else compare_members xs ys)"
| "compare_members _ ys = (None, ys)"

definition TermCompare :: "trm \<Rightarrow> trm \<Rightarrow> bool" where
  "TermCompare aa bb =
     (case compare_members (t_member aa) (t_member bb) of
        (Some r, _) \<Rightarrow> r
      | (None, left) \<Rightarrow> if left \<noteq> [] then True else if t_member aa \<noteq> [] then False else False)"

text \<open>\<open>std::set::find\<close>: an element that the comparator does not separate from the key.\<close>

definition set_find :: "trm list \<Rightarrow> trm \<Rightarrow> bool" where
  "set_find ts t \<longleftrightarrow> list_ex (\<lambda>s. \<not> TermCompare s t \<and> \<not> TermCompare t s) ts"

definition Insert :: "int list \<Rightarrow> int \<Rightarrow> operation \<Rightarrow> operation" where
  "Insert ins c p =
     (let tmp = \<lparr>t_member = sort ins, t_coeff = c\<rparr>
      in if \<not> set_find (o_input p) tmp then p\<lparr>o_input := o_input p @ [tmp], o_real_input := o_real_input p @ [tmp]\<rparr>
         else p)"

section \<open>Sorting terms\<close>

text \<open>Sorting reads the keys when there are two elements to compare.\<close>

definition sort_member :: "int list \<Rightarrow> trm \<Rightarrow> trm res" where
  "sort_member bs t =
     (if length (t_member t) < 2 \<or> list_all (in_range bs) (t_member t)
      then Inr (t\<lparr>t_member := std_sort (\<lambda>a b. bs ! nat a > bs ! nat b) (t_member t)\<rparr>) else Inl Bad_Index)"

definition bs_at :: "int list \<Rightarrow> int \<Rightarrow> int" where
  "bs_at bs a = bs ! nat a"

fun members_before :: "int list \<Rightarrow> int list \<Rightarrow> int list \<Rightarrow> bool option" where
  "members_before bs (a # as) (b # bs') =
     (if bs_at bs a \<noteq> bs_at bs b then Some (bs_at bs a > bs_at bs b) else members_before bs as bs')"
| "members_before bs _ _ = None"

definition term_before :: "int list \<Rightarrow> trm \<Rightarrow> trm \<Rightarrow> bool" where
  "term_before bs a b =
     (if length (t_member a) \<noteq> length (t_member b) then length (t_member a) > length (t_member b)
      else case members_before bs (t_member a) (t_member b) of
             Some r \<Rightarrow> r
           | None \<Rightarrow> hd (t_member a) < hd (t_member b))"

definition SortTerm :: "int list \<Rightarrow> operation \<Rightarrow> operation res" where
  "SortTerm bs p =
     rbind (rfold (\<lambda>t ts. rbind (sort_member bs t) (\<lambda>t. Inr (ts @ [t]))) (o_real_input p) []) (\<lambda>ts.
     if length ts < 2 \<or> list_all (\<lambda>t. t_member t \<noteq> [] \<and> list_all (in_range bs) (t_member t)) ts
     then Inr (p\<lparr>o_real_input := std_sort (term_before bs) ts\<rparr>) else Inl Bad_Index)"

text \<open>\<open>SwapGroup\<close>: \<open>iter_swap\<close> of two positions.\<close>

definition SwapGroup :: "int \<Rightarrow> int \<Rightarrow> operation \<Rightarrow> operation res" where
  "SwapGroup idx1 idx2 p =
     rbind (vget (o_real_input p) idx1) (\<lambda>s. rbind (vget (o_real_input p) idx2) (\<lambda>t.
     rbind (vset (o_real_input p) idx1 t) (\<lambda>ts. rbind (vset ts idx2 s) (\<lambda>ts.
     Inr (p\<lparr>o_real_input := ts\<rparr>)))))"

text \<open>The group number of a set of inputs; \<open>operator[]\<close> of a missing key gives 0.\<close>

definition group_idx :: "(int list \<Rightarrow> int option) \<Rightarrow> trm \<Rightarrow> int" where
  "group_idx idx t = (case idx (t_member t) of None \<Rightarrow> 0 | Some i \<Rightarrow> i)"

text \<open>The order of the inputs of a group: by bus size, by the gates on the path, by index.\<close>

definition input_before :: "(int \<Rightarrow> int) \<Rightarrow> int list \<Rightarrow> int \<Rightarrow> int \<Rightarrow> bool" where
  "input_before bsize gate_path a b =
     (if bsize a \<noteq> bsize b then bsize a < bsize b
      else if gate_path ! nat a \<noteq> gate_path ! nat b then gate_path ! nat a > gate_path ! nat b
      else a < b)"

definition input_bus_size :: "(addr \<Rightarrow> node) \<Rightarrow> addr list \<Rightarrow> addr list list \<Rightarrow> int \<Rightarrow> int res" where
  "input_bus_size h in_node bus_set a =
     rbind (vget in_node a) (\<lambda>x. rbind (vget bus_set (n_bus_idx (h x))) (\<lambda>bus. Inr (int (length bus))))"

definition sort_group_member :: "(addr \<Rightarrow> node) \<Rightarrow> addr list \<Rightarrow> addr list list \<Rightarrow> int list \<Rightarrow> trm \<Rightarrow> trm res" where
  "sort_group_member h in_node bus_set gate_path t =
     (if length (t_member t) < 2 then Inr t
      else rbind (rfold (\<lambda>a f. rbind (input_bus_size h in_node bus_set a) (\<lambda>k.
                    rbind (vget gate_path a) (\<lambda>_. Inr (f(a := k))))) (t_member t) (\<lambda>_. 0)) (\<lambda>bsize.
           Inr (t\<lparr>t_member := std_sort (input_before bsize gate_path) (t_member t)\<rparr>)))"

definition SortGroup :: "(int list \<Rightarrow> int option) \<Rightarrow> (addr \<Rightarrow> node) \<Rightarrow> addr list \<Rightarrow> addr list list \<Rightarrow> int list \<Rightarrow> operation \<Rightarrow> operation res" where
  "SortGroup idx h in_node bus_set gate_path p =
     rbind (rfold (\<lambda>t ts. rbind (sort_group_member h in_node bus_set gate_path t) (\<lambda>t. Inr (ts @ [t])))
              (std_sort (\<lambda>a b. group_idx idx a < group_idx idx b) (o_real_input p)) []) (\<lambda>ts.
     Inr (p\<lparr>o_real_input := ts\<rparr>))"

section \<open>Groups\<close>

text \<open>
  The coefficients as a binary number in an \<open>int\<close>; a shift by 64 or more is undefined.
\<close>

definition not_encode :: "trm list \<Rightarrow> int res" where
  "not_encode ts =
     rfold (\<lambda>i bn. let k = length ts - 1 - i in
              if k < 64 then Inr (to_int32 (bn + t_coeff (ts ! i) * 2 ^ k)) else Inl Bad_Index)
       [0..<length ts] 0"

definition ComputeNOTEncode :: "operation \<Rightarrow> operation res" where
  "ComputeNOTEncode p = rbind (not_encode (o_real_input p)) (\<lambda>b. Inr (p\<lparr>o_const := b\<rparr>))"

text \<open>
  One root of an XOR tree. The order in which \<open>m[k] = m.size()\<close> is evaluated is unspecified before
  C++17: \<open>lhs_first\<close> says whether the new key is counted.
\<close>

definition group_number :: "bool \<Rightarrow> (int list \<Rightarrow> int option) \<Rightarrow> int list \<Rightarrow> nat \<Rightarrow> (int list \<Rightarrow> int option) \<times> nat" where
  "group_number lhs_first idx key n =
     (case idx key of
        None \<Rightarrow> (idx(key \<mapsto> int (if lhs_first then Suc n else n)), Suc n)
      | Some _ \<Rightarrow> (idx, n))"

record group_state =
  gs_heap :: "addr \<Rightarrow> node"
  gs_idx :: "int list \<Rightarrow> int option"
  gs_size :: nat
  gs_op :: operation

definition group_root :: "nat \<Rightarrow> bool \<Rightarrow> addr \<times> int \<Rightarrow> group_state \<Rightarrow> group_state res" where
  "group_root k lhs_first = (\<lambda>(root, neg) s.
     let h = upd root (n_pi_idx_update (\<lambda>_. [])) (gs_heap s) in
     rbind (CollectPI k root root h) (\<lambda>h.
     let h = upd root (\<lambda>n. n\<lparr>n_pi_idx := Unique (n_pi_idx n)\<rparr>) h;
         key = n_pi_idx (h root);
         (idx, n) = group_number lhs_first (gs_idx s) key (gs_size s)
     in Inr \<lparr>gs_heap = h, gs_idx = idx, gs_size = n, gs_op = Insert key neg (gs_op s)\<rparr>))"

text \<open>The state over the outputs: the heap, the group numbers with their count, the groups.\<close>

type_synonym partition_state = "(addr \<Rightarrow> node) \<times> (int list \<Rightarrow> int option) \<times> nat \<times> operation list"

definition group_output :: "nat \<Rightarrow> bool \<Rightarrow> module \<Rightarrow> addr \<Rightarrow> partition_state \<Rightarrow> partition_state res" where
  "group_output k lhs_first m out = (\<lambda>(h, idx, n, gs).
     rbind (findXORTreeRoot k h out []) (\<lambda>xor_root.
     rbind (rfold (group_root k lhs_first) xor_root
              \<lparr>gs_heap = h, gs_idx = idx, gs_size = n, gs_op = new_operation [out]\<rparr>) (\<lambda>s.
     rbind (vget (m_gate_path m) (n_idx (gs_heap s out))) (\<lambda>path.
     rbind (SortGroup (gs_idx s) (gs_heap s) (m_gate m INPUT) (m_bus_set m) path (gs_op s)) (\<lambda>p.
     rbind (ComputeNOTEncode p) (\<lambda>p.
     Inr (gs_heap s, gs_idx s, gs_size s, gs @ [p])))))))"

text \<open>
  \<open>showGroup\<close> prints. It reads the first term of every group and the first member of every term,
  and its \<open>operator[]\<close> enters members that are not in the map yet with 0.
\<close>

definition show_term :: "trm \<Rightarrow> (int list \<Rightarrow> int option) \<Rightarrow> (int list \<Rightarrow> int option) res" where
  "show_term t idx =
     (if t_member t = [] then Inl Bad_Index
      else Inr (if idx (t_member t) = None then idx(t_member t \<mapsto> 0) else idx))"

definition showGroup :: "operation list \<Rightarrow> (int list \<Rightarrow> int option) \<Rightarrow> (int list \<Rightarrow> int option) res" where
  "showGroup = rfold (\<lambda>p idx. if o_real_input p = [] then Inl Bad_Index else rfold show_term (o_real_input p) idx)"

text \<open>\<open>n\<close> is the size of the map of group numbers before.\<close>

definition PartitionGroup :: "nat \<Rightarrow> bool \<Rightarrow> nat \<Rightarrow> net \<Rightarrow> net res" where
  "PartitionGroup k lhs_first n = (\<lambda>(m, h).
     rbind (rfold (group_output k lhs_first m) (m_gate m OUTPUT) (h, m_set_to_group_idx m, n, m_group m)) (\<lambda>(h, idx, n, gs).
     let gs = std_sort (\<lambda>a b. o_const a < o_const b) gs
     in rbind (showGroup gs idx) (\<lambda>idx. Inr (m\<lparr>m_set_to_group_idx := idx, m_group := gs\<rparr>, h))))"

end
