(* ===== verification/Trace_Correct.thy ===== *)
theory Trace_Correct
  imports Net_Trace Net_Sim
begin

text \<open>
  What the traversals compute on a netlist without combinational loops: the indices of the inputs an
  output depends on, sorted; the numbers of gates summed over all paths; the parity of an XOR tree.
\<close>

section \<open>Ranked netlists\<close>

definition ranked :: "(addr \<Rightarrow> node) \<Rightarrow> addr set \<Rightarrow> (addr \<Rightarrow> nat) \<Rightarrow> bool" where
  "ranked h A r \<longleftrightarrow> (\<forall>a \<in> A. \<forall>c \<in> set (n_fi (h a)). c \<in> A \<and> r c < r a)"

lemma rankedD: "ranked h A r \<Longrightarrow> a \<in> A \<Longrightarrow> c \<in> set (n_fi (h a)) \<Longrightarrow> c \<in> A \<and> r c < r a"
  by (simp add: ranked_def)

section \<open>\<open>CollectPI\<close> and \<open>TraceInputs\<close>\<close>

text \<open>The inputs a node depends on.\<close>

inductive feeds :: "(addr \<Rightarrow> node) \<Rightarrow> addr \<Rightarrow> addr \<Rightarrow> bool" for h :: "addr \<Rightarrow> node" where
  feeds_input: "n_type (h a) = INPUT \<Longrightarrow> feeds h a a"
| feeds_gate: "n_type (h a) \<noteq> INPUT \<Longrightarrow> c \<in> set (n_fi (h a)) \<Longrightarrow> feeds h c i \<Longrightarrow> feeds h a i"

inductive_cases feeds_cases: "feeds h a i"

definition pi_set :: "(addr \<Rightarrow> node) \<Rightarrow> addr \<Rightarrow> int set" where
  "pi_set h a = {n_idx (h i) |i. feeds h a i}"

lemma pi_set_input: "n_type (h a) = INPUT \<Longrightarrow> pi_set h a = {n_idx (h a)}"
  by (auto simp: pi_set_def intro: feeds_input elim: feeds_cases)

lemma pi_set_gate: "n_type (h a) \<noteq> INPUT \<Longrightarrow> pi_set h a = (\<Union>c \<in> set (n_fi (h a)). pi_set h c)"
  by (auto simp: pi_set_def intro: feeds_gate elim: feeds_cases)

text \<open>Heaps that differ in the input lists of some outputs only.\<close>

definition same_but_pi :: "(addr \<Rightarrow> node) \<Rightarrow> (addr \<Rightarrow> node) \<Rightarrow> bool" where
  "same_but_pi h h' \<longleftrightarrow> (\<forall>a. \<exists>ks. h' a = (h a)\<lparr>n_pi_idx := ks\<rparr>)"

lemma same_but_piD:
  assumes "same_but_pi h h'"
  shows "n_fi (h' a) = n_fi (h a)" "n_type (h' a) = n_type (h a)" "n_idx (h' a) = n_idx (h a)"
proof -
  obtain ks where "h' a = (h a)\<lparr>n_pi_idx := ks\<rparr>" using assms by (auto simp: same_but_pi_def)
  then show "n_fi (h' a) = n_fi (h a)" "n_type (h' a) = n_type (h a)" "n_idx (h' a) = n_idx (h a)" by simp_all
qed

lemma same_but_pi_refl [simp]: "same_but_pi h h"
proof -
  have "h a = (h a)\<lparr>n_pi_idx := n_pi_idx (h a)\<rparr>" for a by simp
  then show ?thesis unfolding same_but_pi_def by blast
qed

lemma same_but_pi_upd:
  assumes "same_but_pi h h'"
  shows "same_but_pi h (upd a (\<lambda>n. n\<lparr>n_pi_idx := f (n_pi_idx n)\<rparr>) h')"
  unfolding same_but_pi_def
proof
  fix b
  obtain ks where "h' b = (h b)\<lparr>n_pi_idx := ks\<rparr>" using assms by (auto simp: same_but_pi_def)
  then have "upd a (\<lambda>n. n\<lparr>n_pi_idx := f (n_pi_idx n)\<rparr>) h' b = (h b)\<lparr>n_pi_idx := if b = a then f ks else ks\<rparr>" by (cases "b = a") auto
  then show "\<exists>ks. upd a (\<lambda>n. n\<lparr>n_pi_idx := f (n_pi_idx n)\<rparr>) h' b = (h b)\<lparr>n_pi_idx := ks\<rparr>" by blast
qed

definition others_same :: "addr \<Rightarrow> (addr \<Rightarrow> node) \<Rightarrow> (addr \<Rightarrow> node) \<Rightarrow> bool" where
  "others_same out h h' \<longleftrightarrow> (\<forall>a. a \<noteq> out \<longrightarrow> h' a = h a)"

lemma CollectPI_ok:
  assumes "ranked h A r" and "a \<in> A" and "r a < k" and "same_but_pi h g"
  shows "\<exists>g'. CollectPI k out a g = Inr g' \<and> same_but_pi h g' \<and> others_same out g g' \<and>
     set (n_pi_idx (g' out)) = set (n_pi_idx (g out)) \<union> pi_set h a"
  using assms(2-)
proof (induction k arbitrary: a g)
  case 0
  then show ?case by simp
next
  case (Suc k)
  note same = same_but_piD [OF Suc.prems(3)]
  show ?case
  proof (cases "n_type (h a) = INPUT")
    case True
    let ?g = "upd out (\<lambda>n. n\<lparr>n_pi_idx := n_pi_idx n @ [n_idx (h a)]\<rparr>) g"
    have "same_but_pi h ?g" by (rule same_but_pi_upd [OF Suc.prems(3)])
    then show ?thesis using True same by (auto simp: pi_set_input others_same_def)
  next
    case False
    have fi: "set (n_fi (h a)) \<subseteq> {c \<in> A. r c < k}"
    proof
      fix c assume "c \<in> set (n_fi (h a))"
      then have "c \<in> A \<and> r c < r a" by (rule rankedD [OF assms(1) Suc.prems(1)])
      then show "c \<in> {c \<in> A. r c < k}" using Suc.prems(2) by simp
    qed
    have "\<exists>g'. rfold (CollectPI k out) xs g = Inr g' \<and> same_but_pi h g' \<and> others_same out g g' \<and>
       set (n_pi_idx (g' out)) = set (n_pi_idx (g out)) \<union> (\<Union>c \<in> set xs. pi_set h c)" if "set xs \<subseteq> set (n_fi (h a))" for xs
      using that
    proof (induction xs rule: rev_induct)
      case Nil
      then show ?case using Suc.prems(3) by (simp add: others_same_def)
    next
      case (snoc c xs)
      then obtain g1 where g1: "rfold (CollectPI k out) xs g = Inr g1" "same_but_pi h g1" "others_same out g g1"
        "set (n_pi_idx (g1 out)) = set (n_pi_idx (g out)) \<union> (\<Union>c \<in> set xs. pi_set h c)" by auto
      have "c \<in> A" "r c < k" using snoc.prems fi by auto
      then obtain g2 where "CollectPI k out c g1 = Inr g2" "same_but_pi h g2" "others_same out g1 g2"
        "set (n_pi_idx (g2 out)) = set (n_pi_idx (g1 out)) \<union> pi_set h c"
        using Suc.IH [of c g1] g1(2) by blast
      then show ?case using g1 by (auto simp: rfold_append others_same_def)
    qed
    then show ?thesis using False by (simp add: pi_set_gate same)
  qed
qed

lemma trace_output_ok:
  assumes "ranked h A r" and "out \<in> A" and "r out < k" and "same_but_pi h g"
  shows "\<exists>g'. trace_output k out g = Inr g' \<and> same_but_pi h g' \<and> others_same out g g' \<and>
     sorted (n_pi_idx (g' out)) \<and> distinct (n_pi_idx (g' out)) \<and> set (n_pi_idx (g' out)) = set (n_pi_idx (g out)) \<union> pi_set h out"
proof -
  obtain g1 where g1: "CollectPI k out out g = Inr g1" "same_but_pi h g1" "others_same out g g1"
     "set (n_pi_idx (g1 out)) = set (n_pi_idx (g out)) \<union> pi_set h out" using CollectPI_ok [OF assms] by blast
  let ?g = "upd out (\<lambda>n. n\<lparr>n_pi_idx := sort (Unique (n_pi_idx n))\<rparr>) g1"
  have "same_but_pi h ?g" by (rule same_but_pi_upd [OF g1(2)])
  then show ?thesis using g1 by (auto simp: trace_output_def others_same_def)
qed

text \<open>The list of inputs of every output: sorted, without repetition, exactly those it depends on.\<close>

lemma TraceInputs_ok:
  assumes rk: "ranked h A r" and outs: "set (m_gate m OUTPUT) \<subseteq> {a \<in> A. r a < k}" "distinct (m_gate m OUTPUT)"
  shows "\<exists>h'. TraceInputs k (m, h) = Inr (m, h') \<and> same_but_pi h h' \<and> (\<forall>a. a \<notin> set (m_gate m OUTPUT) \<longrightarrow> h' a = h a) \<and>
     (\<forall>out \<in> set (m_gate m OUTPUT). sorted (n_pi_idx (h' out)) \<and> distinct (n_pi_idx (h' out)) \<and>
        set (n_pi_idx (h' out)) = set (n_pi_idx (h out)) \<union> pi_set h out)"
proof -
  have "\<exists>g. rfold (trace_output k) xs h = Inr g \<and> same_but_pi h g \<and> (\<forall>a. a \<notin> set xs \<longrightarrow> g a = h a) \<and>
     (\<forall>out \<in> set xs. sorted (n_pi_idx (g out)) \<and> distinct (n_pi_idx (g out)) \<and> set (n_pi_idx (g out)) = set (n_pi_idx (h out)) \<union> pi_set h out)"
    if "set xs \<subseteq> set (m_gate m OUTPUT)" "distinct xs" for xs
    using that
  proof (induction xs rule: rev_induct)
    case Nil
    then show ?case by simp
  next
    case (snoc x xs)
    then obtain g where g: "rfold (trace_output k) xs h = Inr g" "same_but_pi h g" "\<forall>a. a \<notin> set xs \<longrightarrow> g a = h a"
      "\<forall>out \<in> set xs. sorted (n_pi_idx (g out)) \<and> distinct (n_pi_idx (g out)) \<and> set (n_pi_idx (g out)) = set (n_pi_idx (h out)) \<union> pi_set h out"
      by auto
    have x: "x \<in> A" "r x < k" "x \<notin> set xs" using snoc.prems outs by auto
    obtain g' where "trace_output k x g = Inr g'" "same_but_pi h g'" "others_same x g g'" "sorted (n_pi_idx (g' x))" "distinct (n_pi_idx (g' x))"
      "set (n_pi_idx (g' x)) = set (n_pi_idx (g x)) \<union> pi_set h x" using trace_output_ok [OF rk x(1,2) g(2)] by blast
    moreover have "g x = h x" using g(3) x(3) by simp
    ultimately show ?case using g x(3) by (auto simp: rfold_append others_same_def)
  qed
  from this [OF subset_refl outs(2)] show ?thesis by (auto simp: TraceInputs_def)
qed

section \<open>\<open>CountGate\<close>\<close>

text \<open>
  The reference: all paths from a node to the inputs, each with the number of changes of gate type
  on it, counting from \<open>cnt\<close>.
\<close>

fun path_gates :: "nat \<Rightarrow> (addr \<Rightarrow> node) \<Rightarrow> addr \<Rightarrow> int \<Rightarrow> (addr \<times> int) list" where
  "path_gates 0 h now cnt = []"
| "path_gates (Suc k) h now cnt = concat (map (\<lambda>c.
     if n_type (h c) = INPUT then [(c, cnt)]
     else path_gates k h c (if n_type (h now) = n_type (h c) then cnt else cnt + 1)) (n_fi (h now)))"

text \<open>The number of nodes the search takes from the queue below a node.\<close>

fun path_nodes :: "nat \<Rightarrow> (addr \<Rightarrow> node) \<Rightarrow> addr \<Rightarrow> nat" where
  "path_nodes 0 h now = 1"
| "path_nodes (Suc k) h now = Suc (sum_list (map (path_nodes k h) (filter (\<lambda>c. n_type (h c) \<noteq> INPUT) (n_fi (h now)))))"

text \<open>What the paths of a list add to the entry of input \<open>j\<close>.\<close>

definition contrib :: "(addr \<Rightarrow> node) \<Rightarrow> nat \<Rightarrow> (addr \<times> int) list \<Rightarrow> int" where
  "contrib h j ps = sum_list (map (\<lambda>(a, c). if n_idx (h a) = int j then c else 0) ps)"

lemma contrib_simps [simp]:
  "contrib h j [] = 0" "contrib h j ((a, c) # ps) = (if n_idx (h a) = int j then c else 0) + contrib h j ps"
  "contrib h j (ps @ qs) = contrib h j ps + contrib h j qs"
  by (simp_all add: contrib_def)

lemma contrib_concat: "contrib h j (concat pss) = sum_list (map (contrib h j) pss)"
  by (induction pss) simp_all

lemma path_gates_enough:
  assumes "ranked h A r"
  shows "a \<in> A \<Longrightarrow> r a < k \<Longrightarrow> r a < l \<Longrightarrow> path_gates k h a cnt = path_gates l h a cnt"
proof (induction k arbitrary: l a cnt)
  case 0
  then show ?case by simp
next
  case (Suc k)
  obtain l' where l: "l = Suc l'" using Suc.prems by (cases l) auto
  have "path_gates k h c c' = path_gates l' h c c'" if "c \<in> set (n_fi (h a))" for c c'
    using rankedD [OF assms Suc.prems(1) that] Suc.prems l by (intro Suc.IH) auto
  then show ?case by (auto simp: l intro!: arg_cong [where f = concat] map_cong)
qed

lemma path_nodes_enough:
  assumes "ranked h A r"
  shows "a \<in> A \<Longrightarrow> r a < k \<Longrightarrow> r a < l \<Longrightarrow> path_nodes k h a = path_nodes l h a"
proof (induction k arbitrary: l a)
  case 0
  then show ?case by simp
next
  case (Suc k)
  obtain l' where l: "l = Suc l'" using Suc.prems by (cases l) auto
  have "path_nodes k h c = path_nodes l' h c" if "c \<in> set (n_fi (h a))" for c
    using rankedD [OF assms Suc.prems(1) that] Suc.prems l by (intro Suc.IH) auto
  then show ?case by (auto simp: l intro!: arg_cong [where f = sum_list] map_cong)
qed

definition next_nodes :: "(addr \<Rightarrow> node) \<Rightarrow> addr \<Rightarrow> int \<Rightarrow> addr list \<Rightarrow> (addr \<times> int) list" where
  "next_nodes h now cnt xs =
     map (\<lambda>c. (c, if n_type (h now) = n_type (h c) then cnt else cnt + 1)) (filter (\<lambda>c. n_type (h c) \<noteq> INPUT) xs)"

definition leaf_nodes :: "(addr \<Rightarrow> node) \<Rightarrow> int \<Rightarrow> addr list \<Rightarrow> (addr \<times> int) list" where
  "leaf_nodes h cnt xs = map (\<lambda>c. (c, cnt)) (filter (\<lambda>c. n_type (h c) = INPUT) xs)"

definition added :: "(addr \<Rightarrow> node) \<Rightarrow> (addr \<times> int) list \<Rightarrow> int list \<Rightarrow> int list \<Rightarrow> bool" where
  "added h ps row row' \<longleftrightarrow> length row' = length row \<and> (\<forall>j < length row. row' ! j = row ! j + contrib h j ps)"

lemma added_trans: "added h ps row row' \<Longrightarrow> added h qs row' row'' \<Longrightarrow> added h (ps @ qs) row row''"
  by (simp add: added_def)

lemma added_mset:
  assumes "added h ps row row'" and "\<And>j. contrib h j qs = contrib h j ps"
  shows "added h qs row row'"
  using assms by (simp add: added_def)

definition inputs_in_row :: "(addr \<Rightarrow> node) \<Rightarrow> addr set \<Rightarrow> int list \<Rightarrow> bool" where
  "inputs_in_row h A row \<longleftrightarrow> (\<forall>a \<in> A. n_type (h a) = INPUT \<longrightarrow> in_range row (n_idx (h a)))"

text \<open>
  The entries are \<open>int\<close>s. A list of paths fits into a row when no entry leaves the 32 bits; the counts are not negative,
  so an entry that overflows at the end has overflowed, whatever the order of the additions.
\<close>

definition row_ok :: "int list \<Rightarrow> bool" where
  "row_ok row \<longleftrightarrow> (\<forall>v \<in> set row. 0 \<le> v \<and> v < 2 ^ 31)"

definition paths_fit :: "(addr \<Rightarrow> node) \<Rightarrow> (addr \<times> int) list \<Rightarrow> int list \<Rightarrow> bool" where
  "paths_fit h ps row \<longleftrightarrow> (\<forall>j < length row. row ! j + contrib h j ps < 2 ^ 31)"

lemma contrib_nonneg: "\<forall>(a, c) \<in> set ps. 0 \<le> c \<Longrightarrow> 0 \<le> contrib h j ps"
  by (induction ps) (auto split: prod.splits)

lemma path_gates_ge: "(a, c) \<in> set (path_gates k h now cnt) \<Longrightarrow> cnt \<le> c"
proof (induction k arbitrary: now cnt)
  case (Suc k)
  have "\<exists>x \<in> set (n_fi (h now)). (a, c) \<in> set (if n_type (h x) = INPUT then [(x, cnt)]
      else path_gates k h x (if n_type (h now) = n_type (h x) then cnt else cnt + 1))" using Suc.prems
    by (simp only: path_gates.simps set_concat set_map UN_iff bex_simps)
  then obtain x where x: "(a, c) \<in> set (if n_type (h x) = INPUT then [(x, cnt)]
      else path_gates k h x (if n_type (h now) = n_type (h x) then cnt else cnt + 1))" by blast
  have "cnt \<le> c" if "n_type (h x) \<noteq> INPUT" "n_type (h now) = n_type (h x)" using x that Suc.IH [of x cnt] by simp
  moreover have "cnt \<le> c" if "n_type (h x) \<noteq> INPUT" "n_type (h now) \<noteq> n_type (h x)" using x that Suc.IH [of x "cnt + 1"] by simp
  ultimately show ?case using x by (cases "n_type (h x) = INPUT") auto
qed simp

lemma path_gates_nonneg: "0 \<le> cnt \<Longrightarrow> \<forall>(a, c) \<in> set (path_gates k h now cnt). 0 \<le> c"
  using path_gates_ge by fastforce

lemma leaf_nodes_nonneg: "0 \<le> cnt \<Longrightarrow> \<forall>(a, c) \<in> set (leaf_nodes h cnt xs). 0 \<le> c"
  by (auto simp: leaf_nodes_def)

lemma row_ok_added:
  assumes "row_ok row" "added h ps row row'" "paths_fit h ps row" "\<forall>(a, c) \<in> set ps. 0 \<le> c"
  shows "row_ok row'"
proof -
  have "0 \<le> row' ! j \<and> row' ! j < 2 ^ 31" if "j < length row'" for j
    using that assms(1-3) contrib_nonneg [OF assms(4), of h j] nth_mem [of j row]
    by (fastforce simp: row_ok_def added_def paths_fit_def)
  then show ?thesis by (auto simp: row_ok_def in_set_conv_nth)
qed

lemma paths_fit_append:
  assumes "added h ps row row'"
  shows "paths_fit h (ps @ qs) row \<longleftrightarrow> paths_fit h qs row'"
  using assms by (simp add: paths_fit_def added_def add.assoc)

lemma paths_fit_front:
  assumes "paths_fit h (ps @ qs) row" "\<forall>(a, c) \<in> set qs. 0 \<le> c"
  shows "paths_fit h ps row"
  unfolding paths_fit_def
proof (intro allI impI)
  fix j assume "j < length row"
  then have "row ! j + contrib h j (ps @ qs) < 2 ^ 31" using assms(1) unfolding paths_fit_def by blast
  then show "row ! j + contrib h j ps < 2 ^ 31" using contrib_nonneg [OF assms(2), of h j] by simp
qed

lemma count_in_loop:
  assumes "\<forall>c \<in> set xs. n_type (h c) = INPUT \<longrightarrow> in_range row (n_idx (h c))" "row_ok row" "0 \<le> cnt" "cnt + 1 < 2 ^ 31"
  shows "if paths_fit h (leaf_nodes h cnt xs) row
     then \<exists>row'. rfold (count_in h now cnt) xs (row, Q) = Inr (row', Q @ next_nodes h now cnt xs) \<and> added h (leaf_nodes h cnt xs) row row'
     else rfold (count_in h now cnt) xs (row, Q) = Inl Int_Overflow"
  using assms(1,2)
proof (induction xs arbitrary: row Q)
  case Nil
  have "row ! j < 2 ^ 31" if "j < length row" for j using Nil.prems(2) nth_mem [OF that] by (simp add: row_ok_def)
  then show ?case by (simp add: next_nodes_def leaf_nodes_def added_def paths_fit_def)
next
  case (Cons c xs)
  show ?case
  proof (cases "n_type (h c) = INPUT")
    case True
    then have i: "in_range row (n_idx (h c))" using Cons.prems by simp
    let ?v = "row ! nat (n_idx (h c))"
    let ?row = "row[nat (n_idx (h c)) := ?v + cnt]"
    have v: "0 \<le> ?v" using Cons.prems(2) nth_in_range [OF i] by (simp add: row_ok_def)
    have leaf: "leaf_nodes h cnt (c # xs) = [(c, cnt)] @ leaf_nodes h cnt xs" using True by (simp add: leaf_nodes_def)
    show ?thesis
    proof (cases "?v + cnt < 2 ^ 31")
      case small: True
      have step: "count_in h now cnt c (row, Q) = Inr (?row, Q)"
        using True i v assms(3) small by (simp add: count_in_def add_int_nonneg)
      have add: "added h [(c, cnt)] row ?row" using i by (auto simp: added_def nth_list_update in_range_def)
      have "\<forall>c \<in> set xs. n_type (h c) = INPUT \<longrightarrow> in_range ?row (n_idx (h c))" using Cons.prems by simp
      moreover have "row_ok ?row" using Cons.prems(2) set_update_subset_insert [of row "nat (n_idx (h c))" "?v + cnt"] small v assms(3)
        by (auto simp: row_ok_def)
      ultimately have IH: "if paths_fit h (leaf_nodes h cnt xs) ?row
        then \<exists>row'. rfold (count_in h now cnt) xs (?row, Q) = Inr (row', Q @ next_nodes h now cnt xs) \<and> added h (leaf_nodes h cnt xs) ?row row'
        else rfold (count_in h now cnt) xs (?row, Q) = Inl Int_Overflow" by (rule Cons.IH)
      have fit: "paths_fit h (leaf_nodes h cnt (c # xs)) row \<longleftrightarrow> paths_fit h (leaf_nodes h cnt xs) ?row"
        unfolding leaf by (rule paths_fit_append [OF add])
      have nxt: "next_nodes h now cnt (c # xs) = next_nodes h now cnt xs" using True by (simp add: next_nodes_def)
      show ?thesis
      proof (cases "paths_fit h (leaf_nodes h cnt xs) ?row")
        case True
        then obtain row' where "rfold (count_in h now cnt) xs (?row, Q) = Inr (row', Q @ next_nodes h now cnt xs)"
          "added h (leaf_nodes h cnt xs) ?row row'" using IH by auto
        moreover have "added h (leaf_nodes h cnt (c # xs)) row row'" unfolding leaf by (rule added_trans [OF add calculation(2)])
        ultimately show ?thesis using True fit step nxt by auto
      qed (use IH fit step in simp)
    next
      case False
      have "\<not> paths_fit h [(c, cnt)] row" using False i by (auto simp: paths_fit_def in_range_def intro!: exI [of _ "nat (n_idx (h c))"])
      then have "\<not> paths_fit h (leaf_nodes h cnt (c # xs)) row"
        unfolding leaf using paths_fit_front [OF _ leaf_nodes_nonneg [OF assms(3)]] by blast
      moreover have "count_in h now cnt c (row, Q) = Inl Int_Overflow"
        using True i v assms(3) False by (simp add: count_in_def add_int_nonneg)
      ultimately show ?thesis by simp
    qed
  next
    case False
    let ?Q = "Q @ [(c, if n_type (h now) = n_type (h c) then cnt else cnt + 1)]"
    have step: "count_in h now cnt c (row, Q) = Inr (row, ?Q)" using False assms(3,4) by (simp add: count_in_def add_int_def)
    have leaf: "leaf_nodes h cnt (c # xs) = leaf_nodes h cnt xs"
      and nxt: "Q @ next_nodes h now cnt (c # xs) = ?Q @ next_nodes h now cnt xs" using False by (simp_all add: leaf_nodes_def next_nodes_def)
    have run: "rfold (count_in h now cnt) (c # xs) (row, Q) = rfold (count_in h now cnt) xs (row, ?Q)" using step by simp
    have "\<forall>c \<in> set xs. n_type (h c) = INPUT \<longrightarrow> in_range row (n_idx (h c))" using Cons.prems by simp
    then show ?thesis unfolding leaf nxt run using Cons.prems(2) by (rule Cons.IH)
  qed
qed

lemma split_fan_in:
  "contrib h j (path_gates (Suc k) h now cnt) = contrib h j (leaf_nodes h cnt (n_fi (h now))) +
     sum_list (map (\<lambda>(a, c). contrib h j (path_gates k h a c)) (next_nodes h now cnt (n_fi (h now))))"
proof -
  have "contrib h j (concat (map (\<lambda>c. if n_type (h c) = INPUT then [(c, cnt)]
       else path_gates k h c (if n_type (h now) = n_type (h c) then cnt else cnt + 1)) xs)) =
     contrib h j (leaf_nodes h cnt xs) + sum_list (map (\<lambda>(a, c). contrib h j (path_gates k h a c)) (next_nodes h now cnt xs))" for xs
    by (induction xs) (simp_all add: leaf_nodes_def next_nodes_def)
  then show ?thesis by simp
qed

text \<open>The nodes in the queue: their counts leave room for the depth below them.\<close>

definition queue_ok :: "addr set \<Rightarrow> (addr \<Rightarrow> nat) \<Rightarrow> (addr \<times> int) list \<Rightarrow> bool" where
  "queue_ok A r Q \<longleftrightarrow> (\<forall>(a, c) \<in> set Q. a \<in> A \<and> 0 \<le> c \<and> c + int (r a) + 1 < 2 ^ 31)"

definition queue_paths :: "nat \<Rightarrow> (addr \<Rightarrow> node) \<Rightarrow> (addr \<times> int) list \<Rightarrow> (addr \<times> int) list" where
  "queue_paths K h Q = concat (map (\<lambda>(a, c). path_gates K h a c) Q)"

lemma queue_paths_nonneg: "queue_ok A r Q \<Longrightarrow> \<forall>(a, c) \<in> set (queue_paths K h Q). 0 \<le> c"
  using path_gates_nonneg by (fastforce simp: queue_paths_def queue_ok_def)

lemma queue_ok_next:
  assumes rk: "ranked h A r" and Q: "queue_ok A r ((now, cnt) # Q)"
  shows "queue_ok A r (Q @ next_nodes h now cnt (n_fi (h now)))"
proof -
  have "c \<in> A \<and> 0 \<le> k \<and> k + int (r c) + 1 < 2 ^ 31" if ck: "(c, k) \<in> set (next_nodes h now cnt (n_fi (h now)))" for c k
  proof -
    have c: "c \<in> set (n_fi (h now))" and k: "k = cnt \<or> k = cnt + 1" using ck by (auto simp: next_nodes_def split: if_splits)
    have "c \<in> A \<and> r c < r now" using rankedD [OF rk _ c] Q by (simp add: queue_ok_def)
    then show ?thesis using k Q by (auto simp: queue_ok_def)
  qed
  then show ?thesis using Q by (auto simp: queue_ok_def)
qed

lemma path_nodes_next:
  assumes rk: "ranked h A r" and K: "\<forall>a \<in> A. r a < K" and now: "now \<in> A"
  shows "path_nodes K h now = Suc (sum_list (map (path_nodes K h) (filter (\<lambda>c. n_type (h c) \<noteq> INPUT) (n_fi (h now)))))"
proof -
  obtain K' where K': "K = Suc K'" using K now by (cases K) auto
  have "path_nodes K' h c = path_nodes K h c" if "c \<in> set (n_fi (h now))" for c
    using rankedD [OF rk now that] K now K' by (intro path_nodes_enough [OF rk]) auto
  then have "map (path_nodes K' h) (filter (\<lambda>c. n_type (h c) \<noteq> INPUT) (n_fi (h now))) =
    map (path_nodes K h) (filter (\<lambda>c. n_type (h c) \<noteq> INPUT) (n_fi (h now)))" by simp
  moreover have "path_nodes K h now = Suc (sum_list (map (path_nodes K' h) (filter (\<lambda>c. n_type (h c) \<noteq> INPUT) (n_fi (h now)))))"
    by (simp add: K')
  ultimately show ?thesis by (simp only:)
qed

lemma contrib_next:
  assumes rk: "ranked h A r" and K: "\<forall>a \<in> A. r a < K" and now: "now \<in> A"
  shows "contrib h j (queue_paths K h ((now, cnt) # Q)) =
    contrib h j (leaf_nodes h cnt (n_fi (h now)) @ queue_paths K h (Q @ next_nodes h now cnt (n_fi (h now))))"
proof -
  obtain K' where K': "K = Suc K'" using K now by (cases K) auto
  have "path_gates K' h c c' = path_gates K h c c'" if "c \<in> set (n_fi (h now))" for c c'
    using rankedD [OF rk now that] K now K' by (intro path_gates_enough [OF rk]) auto
  then have "map (\<lambda>(a, c). contrib h j (path_gates K' h a c)) (next_nodes h now cnt (n_fi (h now))) =
      map (\<lambda>(a, c). contrib h j (path_gates K h a c)) (next_nodes h now cnt (n_fi (h now)))" by (auto simp: next_nodes_def)
  then have "contrib h j (path_gates K h now cnt) = contrib h j (leaf_nodes h cnt (n_fi (h now))) +
      sum_list (map (\<lambda>(a, c). contrib h j (path_gates K h a c)) (next_nodes h now cnt (n_fi (h now))))"
    using split_fan_in [of h j K' now cnt] by (simp only: K' [symmetric])
  then show ?thesis by (simp add: queue_paths_def contrib_concat o_def case_prod_unfold)
qed

lemma count_bfs_ok:
  assumes rk: "ranked h A r" and K: "\<forall>a \<in> A. r a < K"
  shows "queue_ok A r Q \<Longrightarrow> inputs_in_row h A row \<Longrightarrow> row_ok row \<Longrightarrow> sum_list (map (\<lambda>(a, c). path_nodes K h a) Q) \<le> n \<Longrightarrow>
     if paths_fit h (queue_paths K h Q) row
     then \<exists>row'. count_bfs n h Q row = Inr row' \<and> added h (queue_paths K h Q) row row'
     else count_bfs n h Q row = Inl Int_Overflow"
proof (induction n arbitrary: Q row)
  case 0
  have pos: "path_nodes K h a \<noteq> 0" for a by (cases K) simp_all
  have "Q = []" using 0(4) by (cases Q) (auto simp: pos split: prod.splits)
  then show ?case using 0(3) nth_mem [of _ row] by (auto simp: added_def queue_paths_def paths_fit_def row_ok_def)
next
  case (Suc n)
  show ?case
  proof (cases Q)
    case Nil
    then show ?thesis using Suc.prems(3) nth_mem [of _ row] by (auto simp: added_def queue_paths_def paths_fit_def row_ok_def)
  next
    case (Cons p Q')
    then obtain now cnt where Q: "Q = (now, cnt) # Q'" by (cases p) auto
    have now: "now \<in> A" "0 \<le> cnt" "cnt + 1 < 2 ^ 31" using Suc.prems(1) Q by (auto simp: queue_ok_def)
    let ?xs = "n_fi (h now)" and ?L = "leaf_nodes h cnt (n_fi (h now))"
    let ?Q = "Q' @ next_nodes h now cnt ?xs"
    let ?R = "queue_paths K h ?Q"
    have "\<forall>c \<in> set ?xs. n_type (h c) = INPUT \<longrightarrow> in_range row (n_idx (h c))"
      using Suc.prems(2) rankedD [OF rk now(1)] by (auto simp: inputs_in_row_def)
    note loop = count_in_loop [OF this Suc.prems(3) now(2,3), of now Q']
    have Qok: "queue_ok A r ?Q" by (rule queue_ok_next [OF rk]) (use Suc.prems(1) Q in simp)
    have all: "paths_fit h (queue_paths K h Q) row \<longleftrightarrow> paths_fit h (?L @ ?R) row"
      by (simp only: paths_fit_def Q contrib_next [OF rk K now(1)])
    show ?thesis
    proof (cases "paths_fit h ?L row")
      case False
      then have "\<not> paths_fit h (?L @ ?R) row" using paths_fit_front [OF _ queue_paths_nonneg [OF Qok]] by blast
      then show ?thesis using loop False all by (simp add: Q)
    next
      case True
      then obtain row1 where row1: "rfold (count_in h now cnt) ?xs (row, Q') = Inr (row1, ?Q)" "added h ?L row row1" using loop by auto
      have "inputs_in_row h A row1" using Suc.prems(2) row1(2) by (simp add: inputs_in_row_def added_def in_range_def)
      moreover have "row_ok row1" by (rule row_ok_added [OF Suc.prems(3) row1(2) True leaf_nodes_nonneg [OF now(2)]])
      moreover have "sum_list (map (\<lambda>(a, c). path_nodes K h a) ?Q) \<le> n"
        using Suc.prems(4) path_nodes_next [OF rk K now(1)] by (simp add: Q next_nodes_def o_def)
      ultimately have IH: "if paths_fit h ?R row1 then \<exists>row'. count_bfs n h ?Q row1 = Inr row' \<and> added h ?R row1 row'
          else count_bfs n h ?Q row1 = Inl Int_Overflow" by (rule Suc.IH [OF Qok])
      have fit: "paths_fit h (queue_paths K h Q) row \<longleftrightarrow> paths_fit h ?R row1" using all paths_fit_append [OF row1(2)] by simp
      show ?thesis
      proof (cases "paths_fit h ?R row1")
        case True
        then obtain row' where row': "count_bfs n h ?Q row1 = Inr row'" "added h ?R row1 row'" using IH by auto
        have "added h (queue_paths K h Q) row row'"
          by (rule added_mset [OF added_trans [OF row1(2) row'(2)]]) (simp only: Q contrib_next [OF rk K now(1)])
        then show ?thesis using row1(1) row'(1) True fit by (simp add: Q)
      qed (use IH fit row1(1) in \<open>simp add: Q\<close>)
    qed
  qed
qed

text \<open>The table for one output, and its signatures; signatures do not influence the paths.\<close>

definition path_sum :: "nat \<Rightarrow> (addr \<Rightarrow> node) \<Rightarrow> addr \<Rightarrow> nat \<Rightarrow> int" where
  "path_sum K h out j = contrib h j (path_gates K h out 0)"

definition same_but_sig :: "(addr \<Rightarrow> node) \<Rightarrow> (addr \<Rightarrow> node) \<Rightarrow> bool" where
  "same_but_sig h h' \<longleftrightarrow> (\<forall>a. \<exists>ks. h' a = (h a)\<lparr>n_signature := ks\<rparr>)"

lemma same_but_sigD:
  assumes "same_but_sig h h'"
  shows "n_fi (h' a) = n_fi (h a)" "n_type (h' a) = n_type (h a)" "n_idx (h' a) = n_idx (h a)" "n_pi_idx (h' a) = n_pi_idx (h a)"
proof -
  obtain ks where "h' a = (h a)\<lparr>n_signature := ks\<rparr>" using assms by (auto simp: same_but_sig_def)
  then show "n_fi (h' a) = n_fi (h a)" "n_type (h' a) = n_type (h a)" "n_idx (h' a) = n_idx (h a)" "n_pi_idx (h' a) = n_pi_idx (h a)"
    by simp_all
qed

lemma same_but_sig_refl [simp]: "same_but_sig h h"
proof -
  have "h a = (h a)\<lparr>n_signature := n_signature (h a)\<rparr>" for a by simp
  then show ?thesis unfolding same_but_sig_def by blast
qed

lemma same_but_sig_upd:
  assumes "same_but_sig h h'"
  shows "same_but_sig h (upd a (\<lambda>n. n\<lparr>n_signature := f (n_signature n)\<rparr>) h')"
  unfolding same_but_sig_def
proof
  fix b
  obtain ks where "h' b = (h b)\<lparr>n_signature := ks\<rparr>" using assms by (auto simp: same_but_sig_def)
  then have "upd a (\<lambda>n. n\<lparr>n_signature := f (n_signature n)\<rparr>) h' b = (h b)\<lparr>n_signature := if b = a then f ks else ks\<rparr>" by (cases "b = a") auto
  then show "\<exists>ks. upd a (\<lambda>n. n\<lparr>n_signature := f (n_signature n)\<rparr>) h' b = (h b)\<lparr>n_signature := ks\<rparr>" by blast
qed

lemma path_gates_same: "same_but_sig h h' \<Longrightarrow> path_gates k h' a c = path_gates k h a c"
  by (induction k arbitrary: a c) (simp_all add: same_but_sigD cong: if_cong)

lemma path_nodes_same: "same_but_sig h h' \<Longrightarrow> path_nodes k h' a = path_nodes k h a"
  by (induction k arbitrary: a) (simp_all add: same_but_sigD cong: map_cong filter_cong)

lemma path_sum_same: "same_but_sig h h' \<Longrightarrow> path_sum k h' a j = path_sum k h a j"
  by (simp add: path_sum_def contrib_def path_gates_same same_but_sigD)

lemma ranked_same: "same_but_sig h h' \<Longrightarrow> ranked h' A r \<longleftrightarrow> ranked h A r"
  by (simp add: ranked_def same_but_sigD)

text \<open>The rows of the table, before and after an output is counted.\<close>

definition gate_rows :: "nat \<Rightarrow> (addr \<Rightarrow> node) \<Rightarrow> module \<Rightarrow> nat \<Rightarrow> int list list \<Rightarrow> bool" where
  "gate_rows K h m n path \<longleftrightarrow> length path = length (m_gate m OUTPUT) \<and>
     (\<forall>i < length path. length (path ! i) = length (m_gate m INPUT) \<and>
        (\<forall>j < length (m_gate m INPUT). path ! i ! j = (if i < n then path_sum K h (m_gate m OUTPUT ! i) j else 0)))"

text \<open>The counters of \<open>_path_cnt\<close> have room for \<open>n\<close> more entries.\<close>

definition pc_room :: "(int \<Rightarrow> int) \<Rightarrow> nat \<Rightarrow> bool" where
  "pc_room pc n \<longleftrightarrow> (\<forall>v. - (2 ^ 31) \<le> pc v \<and> pc v + int n < 2 ^ 31)"

definition signed_pis :: "(addr \<Rightarrow> node) \<Rightarrow> addr list \<Rightarrow> nat" where
  "signed_pis h outs = sum_list (map (\<lambda>out. length (n_pi_idx (h out))) outs)"

definition count_ready :: "module \<Rightarrow> (addr \<Rightarrow> node) \<Rightarrow> addr set \<Rightarrow> (addr \<Rightarrow> nat) \<Rightarrow> nat \<Rightarrow> nat \<Rightarrow> bool" where
  "count_ready m h A r K n \<longleftrightarrow> ranked h A r \<and> (\<forall>a \<in> A. r a < K) \<and> int K < 2 ^ 31 \<and> set (m_gate m OUTPUT) \<subseteq> A \<and>
     (\<forall>a \<in> A. n_type (h a) = INPUT \<longrightarrow> in_range (m_gate m INPUT) (n_idx (h a))) \<and>
     (\<forall>i < length (m_gate m OUTPUT). n_idx (h (m_gate m OUTPUT ! i)) = int i) \<and>
     (\<forall>out \<in> set (m_gate m OUTPUT). path_nodes K h out \<le> n \<and> (\<forall>j \<in> set (n_pi_idx (h out)). in_range (m_gate m INPUT) j)) \<and>
     pc_room (m_path_cnt m) (signed_pis h (m_gate m OUTPUT))"

lemma sign_input_loop:
  assumes "\<forall>j \<in> set js. in_range row j \<and> in_range inputs j"
  shows "same_but_sig h g \<Longrightarrow> pc_room pc0 (length js + n) \<Longrightarrow>
    \<exists>pc g'. rfold (sign_input inputs out row) js (pc0, g) = Inr (pc, g') \<and> same_but_sig h g' \<and> pc_room pc n"
  using assms
proof (induction js arbitrary: pc0 g)
  case Nil
  then show ?case by simp
next
  case (Cons j js)
  let ?v = "row ! nat j"
  let ?g = "upd (inputs ! nat j) (\<lambda>n. n\<lparr>n_signature := n_signature n @ [?v]\<rparr>) (upd out (\<lambda>n. n\<lparr>n_signature := n_signature n @ [?v]\<rparr>) g)"
  let ?pc = "pc0(?v := pc0 ?v + 1)"
  have "same_but_sig h ?g" by (intro same_but_sig_upd Cons.prems)
  moreover have "- (2 ^ 31) \<le> pc0 v" "pc0 v + int (length (j # js) + n) < 2 ^ 31" for v using Cons.prems(2) by (auto simp: pc_room_def)
  note room = this
  have "- (2 ^ 31) \<le> ?pc v \<and> ?pc v + int (length js + n) < 2 ^ 31" for v using room [of v] room [of ?v] by auto
  then have "pc_room ?pc (length js + n)" unfolding pc_room_def by blast
  moreover have "sign_input inputs out row j (pc0, g) = Inr (?pc, ?g)"
    using Cons.prems(3) room [of ?v] by (simp add: sign_input_def add_int_def)
  ultimately show ?case using Cons.IH Cons.prems(3) by simp
qed

lemma count_output_ok:
  assumes ready: "count_ready m h A r K n" and i: "i < length (m_gate m OUTPUT)" and g: "same_but_sig h g" and rows: "gate_rows K h m i path"
    and pc: "pc_room pc (length (n_pi_idx (h (m_gate m OUTPUT ! i))) + l)"
  shows "if \<forall>j < length (m_gate m INPUT). path_sum K h (m_gate m OUTPUT ! i) j < 2 ^ 31
     then \<exists>path' pc' g'. count_output n (m_gate m INPUT) (m_gate m OUTPUT ! i) (path, pc, g) = Inr (path', pc', g') \<and>
       same_but_sig h g' \<and> gate_rows K h m (Suc i) path' \<and> pc_room pc' l
     else count_output n (m_gate m INPUT) (m_gate m OUTPUT ! i) (path, pc, g) = Inl Int_Overflow"
proof -
  let ?out = "m_gate m OUTPUT ! i" and ?ins = "m_gate m INPUT" and ?row = "path ! i"
  have rk: "ranked g A r" using ready ranked_same [OF g] by (simp add: count_ready_def)
  have K: "\<forall>a \<in> A. r a < K" using ready by (simp add: count_ready_def)
  have out: "?out \<in> A" "n_idx (g ?out) = int i" "path_nodes K g ?out \<le> n"
    using ready i same_but_sigD [OF g] path_nodes_same [OF g] by (auto simp: count_ready_def)
  have len: "i < length path" "length ?row = length ?ins" using rows i by (simp_all add: gate_rows_def)
  have zero: "?row ! j = 0" if "j < length ?row" for j using rows that len by (simp add: gate_rows_def)
  have "queue_ok A r [(?out, 0)]" using out(1) K ready by (fastforce simp: queue_ok_def count_ready_def)
  moreover have "inputs_in_row g A ?row"
    using ready len(2) by (simp add: inputs_in_row_def count_ready_def same_but_sigD [OF g] in_range_def)
  moreover have "row_ok ?row" using zero by (auto simp: row_ok_def in_set_conv_nth)
  moreover have "sum_list (map (\<lambda>(a, c). path_nodes K g a) [(?out, 0)]) \<le> n" using out by simp
  ultimately have bfs: "if paths_fit g (queue_paths K g [(?out, 0)]) ?row
      then \<exists>row'. count_bfs n g [(?out, 0)] ?row = Inr row' \<and> added g (queue_paths K g [(?out, 0)]) ?row row'
      else count_bfs n g [(?out, 0)] ?row = Inl Int_Overflow" by (rule count_bfs_ok [OF rk K])
  have sums: "contrib g j (queue_paths K g [(?out, 0)]) = path_sum K h ?out j" for j
    by (simp add: queue_paths_def path_sum_def path_gates_same [OF g] contrib_def same_but_sigD [OF g])
  have fit: "paths_fit g (queue_paths K g [(?out, 0)]) ?row \<longleftrightarrow> (\<forall>j < length ?ins. path_sum K h ?out j < 2 ^ 31)"
    by (simp add: paths_fit_def sums zero len(2))
  show ?thesis
  proof (cases "\<forall>j < length ?ins. path_sum K h ?out j < 2 ^ 31")
    case False
    then have "count_bfs n g [(?out, 0)] ?row = Inl Int_Overflow" using bfs fit by (simp only: if_False)
    then have "count_output n ?ins ?out (path, pc, g) = Inl Int_Overflow" using out(2) len by (simp add: count_output_def)
    then show ?thesis using False by (simp only: if_False)
  next
    case True
    then have "\<exists>row'. count_bfs n g [(?out, 0)] ?row = Inr row' \<and> added g (queue_paths K g [(?out, 0)]) ?row row'"
      using bfs by (simp only: fit if_True)
    then obtain row where row: "count_bfs n g [(?out, 0)] ?row = Inr row" "added g (queue_paths K g [(?out, 0)]) ?row row" by blast
    have pis: "\<forall>j \<in> set (n_pi_idx (g ?out)). in_range row j \<and> in_range ?ins j"
      using ready nth_mem [OF i] len(2) row(2) by (auto simp: count_ready_def same_but_sigD [OF g] added_def in_range_def)
    have "pc_room pc (length (n_pi_idx (g ?out)) + l)" using pc by (simp add: same_but_sigD [OF g])
    from sign_input_loop [OF pis g this, of ?out] obtain pc' g1 where
      g1: "rfold (sign_input ?ins ?out row) (n_pi_idx (g ?out)) (pc, g) = Inr (pc', g1)" "same_but_sig h g1" "pc_room pc' l" by blast
    have "gate_rows K h m (Suc i) (path[i := row])"
      using rows row(2) len i by (auto simp: gate_rows_def added_def nth_list_update sums)
    moreover have "same_but_sig h (upd ?out (\<lambda>n. n\<lparr>n_signature := std_sort (\<lambda>a b. a > b) (n_signature n)\<rparr>) g1)"
      by (rule same_but_sig_upd [OF g1(2)])
    ultimately have "\<exists>path' pc' g'. count_output n ?ins ?out (path, pc, g) = Inr (path', pc', g') \<and>
       same_but_sig h g' \<and> gate_rows K h m (Suc i) path' \<and> pc_room pc' l"
      using out(2) len row(1) g1 by (simp add: count_output_def)
    with True show ?thesis by simp
  qed
qed

definition sums_fit :: "nat \<Rightarrow> (addr \<Rightarrow> node) \<Rightarrow> module \<Rightarrow> nat \<Rightarrow> bool" where
  "sums_fit K h m k \<longleftrightarrow> (\<forall>i < k. \<forall>j < length (m_gate m INPUT). path_sum K h (m_gate m OUTPUT ! i) j < 2 ^ 31)"

lemma count_outputs_ok:
  assumes ready: "count_ready m h A r K n" and k: "k \<le> length (m_gate m OUTPUT)"
  defines "start \<equiv> (replicate (length (m_gate m OUTPUT)) (replicate (length (m_gate m INPUT)) (0 :: int)), m_path_cnt m, h)"
  shows "if sums_fit K h m k
     then \<exists>path pc g. rfold (count_output n (m_gate m INPUT)) (take k (m_gate m OUTPUT)) start = Inr (path, pc, g) \<and>
       same_but_sig h g \<and> gate_rows K h m k path \<and> pc_room pc (signed_pis h (drop k (m_gate m OUTPUT)))
     else rfold (count_output n (m_gate m INPUT)) (take k (m_gate m OUTPUT)) start = Inl Int_Overflow"
  using k
proof (induction k)
  case 0
  then show ?case using ready by (simp add: start_def gate_rows_def sums_fit_def count_ready_def)
next
  case (Suc k)
  let ?f = "count_output n (m_gate m INPUT)" and ?outs = "m_gate m OUTPUT"
  have k: "k < length ?outs" using Suc.prems by simp
  have split: "rfold ?f (take (Suc k) ?outs) start = rbind (rfold ?f (take k ?outs) start) (?f (?outs ! k))"
  proof -
    have "take (Suc k) ?outs = take k ?outs @ [?outs ! k]" using k by (rule take_Suc_conv_app_nth)
    moreover have "rfold ?f [?outs ! k] s = ?f (?outs ! k) s" for s by (cases "?f (?outs ! k) s") simp_all
    then have "rfold ?f [?outs ! k] = ?f (?outs ! k)" by (rule ext)
    ultimately show ?thesis by (simp only: rfold_append)
  qed
  have fit: "sums_fit K h m (Suc k) \<longleftrightarrow> sums_fit K h m k \<and> (\<forall>j < length (m_gate m INPUT). path_sum K h (?outs ! k) j < 2 ^ 31)"
    by (auto simp: sums_fit_def less_Suc_eq)
  show ?case
  proof (cases "sums_fit K h m k")
    case False
    then show ?thesis using Suc.IH k split fit by simp
  next
    case True
    then obtain path pc g where IH: "rfold ?f (take k ?outs) start = Inr (path, pc, g)" "same_but_sig h g" "gate_rows K h m k path"
      "pc_room pc (signed_pis h (drop k ?outs))" using Suc.IH k by auto
    have "drop k ?outs = ?outs ! k # drop (Suc k) ?outs" using k by (rule Cons_nth_drop_Suc [symmetric])
    then have "pc_room pc (length (n_pi_idx (h (?outs ! k))) + signed_pis h (drop (Suc k) ?outs))" using IH(4) by (simp add: signed_pis_def)
    from count_output_ok [OF ready k IH(2,3) this] show ?thesis unfolding fit split IH(1) rbind_Inr using True by simp
  qed
qed

lemma CountGate_ok:
  assumes ready: "count_ready m h A r K n"
  shows "if sums_fit K h m (length (m_gate m OUTPUT))
     then \<exists>m' h'. CountGate n ord (m, h) = Inr (m', h') \<and> same_but_sig h h' \<and> m_gate m' = m_gate m \<and>
       gate_rows K h m (length (m_gate m OUTPUT)) (m_gate_path m') \<and>
       m_input_sig m' = map (\<lambda>a. sig_mode ord (n_signature (h' a))) (m_gate m INPUT)
     else CountGate n ord (m, h) = Inl Int_Overflow"
proof (cases "sums_fit K h m (length (m_gate m OUTPUT))")
  case True
  then show ?thesis using count_outputs_ok [OF ready order_refl] by (auto simp: CountGate_def)
next
  case False
  then show ?thesis using count_outputs_ok [OF ready order_refl] by (simp add: CountGate_def)
qed

section \<open>The mode of a signature\<close>

text \<open>
  Whatever the iteration order, the greatest of the most frequent values is taken.
\<close>

lemma sig_mode_greatest:
  assumes "sig \<noteq> []" and ord: "set (ord (remdups sig)) = set sig"
  shows "sig_mode ord sig \<in> set sig \<and> (\<forall>v \<in> set sig. count_list sig v < count_list sig (sig_mode ord sig) \<or>
     count_list sig v = count_list sig (sig_mode ord sig) \<and> v \<le> sig_mode ord sig)"
proof -
  let ?c = "\<lambda>v. int (count_list sig v)"
  have cpos: "0 < ?c v" if "v \<in> set sig" for v using that by (metis count_notin gr0I of_nat_0_less_iff count_list_0_iff)
  have loop: "set ks \<subseteq> set sig \<Longrightarrow> ks \<noteq> [] \<Longrightarrow>
     (case fold (mode_step sig) ks (0, -1) of (mc, mode) \<Rightarrow> mode \<in> set ks \<and> mc = ?c mode \<and> (\<forall>v \<in> set ks. ?c v < mc \<or> ?c v = mc \<and> v \<le> mode))" for ks
  proof (induction ks rule: rev_induct)
    case Nil
    then show ?case by simp
  next
    case (snoc x ks)
    show ?case
    proof (cases "ks = []")
      case True
      then show ?thesis using cpos [of x] snoc.prems by (simp add: mode_step_def Let_def)
    next
      case False
      then show ?thesis using snoc by (auto simp: mode_step_def Let_def max_def split: prod.splits)
    qed
  qed
  have ne: "ord (remdups sig) \<noteq> []" using ord assms(1) by (metis set_empty)
  have *: "case fold (mode_step sig) (ord (remdups sig)) (0, -1) of
      (mc, mode) \<Rightarrow> mode \<in> set sig \<and> mc = ?c mode \<and> (\<forall>v \<in> set sig. ?c v < mc \<or> ?c v = mc \<and> v \<le> mode)"
    using loop [OF _ ne, unfolded ord] by simp
  obtain mc mode where "fold (mode_step sig) (ord (remdups sig)) (0, -1) = (mc, mode)" by fastforce
  then show ?thesis using * assms(1) by (auto simp: sig_mode_def)
qed

section \<open>The parity of XOR trees\<close>

fun xor_leaves :: "nat \<Rightarrow> (addr \<Rightarrow> node) \<Rightarrow> addr \<Rightarrow> addr list" where
  "xor_leaves 0 h a = []"
| "xor_leaves (Suc k) h a = (if n_type (h a) = XOR then concat (map (xor_leaves k h) (n_fi (h a))) else [a])"

definition xor_wf :: "(addr \<Rightarrow> node) \<Rightarrow> addr set \<Rightarrow> bool" where
  "xor_wf h A \<longleftrightarrow> (\<forall>a \<in> A. n_type (h a) = XOR \<longrightarrow> length (n_fi (h a)) = 2 \<and> n_inv (h a) \<le> 2)"

text \<open>
  The inversions counted along the tree and the values of its leaves give the value of the root.
\<close>

lemma xor_parity:
  assumes rk: "ranked h A r" and wf: "xor_wf h A"
  shows "a \<in> A \<Longrightarrow> r a < k \<Longrightarrow> \<forall>x \<in> set (xor_leaves k h a). evals h \<sigma> x (v x) \<Longrightarrow>
     \<exists>cnt. countInvForXORTree k h a = Inr cnt \<and> evals h \<sigma> a (odd (cnt + length (filter v (xor_leaves k h a))))"
proof (induction k arbitrary: a)
  case 0
  then show ?case by simp
next
  case (Suc k)
  show ?case
  proof (cases "n_type (h a) = XOR")
    case False
    then show ?thesis using Suc.prems by auto
  next
    case True
    then have "length (n_fi (h a)) = 2" "n_inv (h a) \<le> 2" using wf Suc.prems(1) by (auto simp: xor_wf_def)
    then obtain x y where fi: "n_fi (h a) = [x, y]" by (auto simp: numeral_2_eq_2 length_Suc_conv)
    have below: "x \<in> A \<and> r x < k" "y \<in> A \<and> r y < k"
      using rankedD [OF rk Suc.prems(1), of x] rankedD [OF rk Suc.prems(1), of y] Suc.prems(2) fi by auto
    let ?lx = "length (filter v (xor_leaves k h x))" and ?ly = "length (filter v (xor_leaves k h y))"
    obtain cx where cx: "countInvForXORTree k h x = Inr cx" "evals h \<sigma> x (odd (cx + ?lx))"
      using Suc.IH [of x] below Suc.prems(3) True fi by auto
    obtain cy where cy: "countInvForXORTree k h y = Inr cy" "evals h \<sigma> y (odd (cy + ?ly))"
      using Suc.IH [of y] below Suc.prems(3) True fi by auto
    have count: "countInvForXORTree (Suc k) h a = Inr (n_inv (h a) + cx + cy)"
      using True fi cx(1) cy(1) by (simp add: vget_def in_range_def)
    have fi_vals: "list_all2 (evals h \<sigma>) (n_fi (h a)) [odd (cx + ?lx), odd (cy + ?ly)]" using fi cx(2) cy(2) by simp
    have gate: "gate_sem (n_type (h a)) (inv_first (n_inv (h a)) [odd (cx + ?lx), odd (cy + ?ly)]) =
        Some (odd (n_inv (h a) + cx + cy + ?lx + ?ly))"
    proof -
      consider "n_inv (h a) = 0" | "n_inv (h a) = 1" | "n_inv (h a) = 2" using \<open>n_inv (h a) \<le> 2\<close> by linarith
      then show ?thesis by cases (simp_all add: True, auto)
    qed
    have "evals h \<sigma> a (odd (n_inv (h a) + cx + cy + ?lx + ?ly))"
      by (rule ev_gate [OF _ fi_vals gate]) (simp add: True)
    moreover have "n_inv (h a) + cx + cy + ?lx + ?ly = n_inv (h a) + cx + cy + length (filter v (xor_leaves (Suc k) h a))"
      using True fi by simp
    ultimately show ?thesis using count by metis
  qed
qed

lemma countInvForXORTree_total:
  assumes "ranked h A r" and "xor_wf h A"
  shows "a \<in> A \<Longrightarrow> r a < k \<Longrightarrow> \<exists>cnt. countInvForXORTree k h a = Inr cnt"
proof (induction k arbitrary: a)
  case 0
  then show ?case by simp
next
  case (Suc k)
  show ?case
  proof (cases "n_type (h a) = XOR")
    case True
    then have "length (n_fi (h a)) = 2" using assms(2) Suc.prems(1) by (auto simp: xor_wf_def)
    then obtain x y where fi: "n_fi (h a) = [x, y]" by (auto simp: numeral_2_eq_2 length_Suc_conv)
    have "x \<in> A \<and> r x < k" "y \<in> A \<and> r y < k"
      using rankedD [OF assms(1) Suc.prems(1), of x] rankedD [OF assms(1) Suc.prems(1), of y] Suc.prems(2) fi by auto
    then obtain cx cy where "countInvForXORTree k h x = Inr cx" "countInvForXORTree k h y = Inr cy" using Suc.IH by blast
    then show ?thesis using True fi by (simp add: vget_def in_range_def)
  qed simp
qed

end
