(* ===== verification/Operation_Correct.thy ===== *)
theory Operation_Correct
  imports Operation_Model Trace_Correct
begin

text \<open>
  Facts on terms and groups: equality of operations, the comparator of \<open>std::set<Term*>\<close>, which is
  the lexicographic order of the member lists, insertion without repetition, swaps, and the code of a group.
\<close>

section \<open>Equality\<close>

lemma members_differ_iff: "members_differ xs ys \<longleftrightarrow> xs \<noteq> ys"
  by (induction xs ys rule: members_differ.induct) auto

lemma term_neq_iff: "term_neq a b \<longleftrightarrow> a \<noteq> b"
  by (cases a; cases b) (auto simp: term_neq_def members_differ_iff)

lemma compare_terms_iff: "compare_terms as bs \<longleftrightarrow> as = bs"
  by (induction as bs rule: compare_terms.induct) (auto simp: term_neq_iff)

lemma operation_eq_iff: "operation_eq p q \<longleftrightarrow> o_real_input p = o_real_input q \<and> o_const p = o_const q"
  by (simp add: operation_eq_def CompareInput_def compare_terms_iff)

section \<open>The comparator of terms\<close>

text \<open>The lexicographic order of the member lists.\<close>

fun lex_less :: "int list \<Rightarrow> int list \<Rightarrow> bool" where
  "lex_less xs [] = False"
| "lex_less [] (y # ys) = True"
| "lex_less (x # xs) (y # ys) = (x < y \<or> x = y \<and> lex_less xs ys)"

lemma lex_less_Nil [simp]: "lex_less [] ys \<longleftrightarrow> ys \<noteq> []"
  by (cases ys) auto

lemma compare_members_lex:
  "(case compare_members xs ys of (Some r, _) \<Rightarrow> r | (None, left) \<Rightarrow> left \<noteq> []) \<longleftrightarrow> lex_less xs ys"
  by (induction xs ys rule: compare_members.induct) (auto split: prod.splits)

lemma TermCompare_lex: "TermCompare s t \<longleftrightarrow> lex_less (t_member s) (t_member t)"
  using compare_members_lex [of "t_member s" "t_member t"] by (auto simp: TermCompare_def split: prod.splits option.splits)

lemma lex_less_irrefl [simp]: "\<not> lex_less xs xs"
  by (induction xs) auto

lemma lex_less_trans: "lex_less xs ys \<Longrightarrow> lex_less ys zs \<Longrightarrow> lex_less xs zs"
proof (induction xs zs arbitrary: ys rule: lex_less.induct)
  case (1 xs)
  then show ?case by (cases ys) auto
next
  case (2 z zs)
  then show ?case by simp
next
  case (3 x xs z zs)
  then show ?case by (cases ys) auto
qed

lemma lex_less_total: "lex_less xs ys \<or> xs = ys \<or> lex_less ys xs"
  by (induction xs ys rule: lex_less.induct) auto

lemma lex_less_antisym: "\<not> lex_less xs ys \<and> \<not> lex_less ys xs \<longleftrightarrow> xs = ys"
  using lex_less_total [of xs ys] by auto

lemma set_find_iff: "set_find ts t \<longleftrightarrow> t_member t \<in> t_member ` set ts"
  by (auto simp: set_find_def TermCompare_lex list_ex_iff lex_less_antisym image_iff) metis

lemma TermCompare_order:
  "\<not> TermCompare s s" "TermCompare s t \<Longrightarrow> TermCompare t u \<Longrightarrow> TermCompare s u"
  "\<not> TermCompare s t \<Longrightarrow> \<not> TermCompare t s \<Longrightarrow> t_member s = t_member t"
  by (simp_all add: TermCompare_lex lex_less_antisym [symmetric]) (rule lex_less_trans)

text \<open>A group of terms without repetition, in the set and in the vector alike.\<close>

definition terms_ok :: "operation \<Rightarrow> bool" where
  "terms_ok p \<longleftrightarrow> distinct (map t_member (o_input p)) \<and> o_real_input p = o_input p \<and> (\<forall>t \<in> set (o_input p). sorted (t_member t))"

lemma Insert_ok:
  assumes "terms_ok p"
  shows "terms_ok (Insert ins c p)" "t_member ` set (o_real_input (Insert ins c p)) = insert (sort ins) (t_member ` set (o_real_input p))"
  using assms by (auto simp: Insert_def terms_ok_def set_find_iff Let_def)

section \<open>Swaps\<close>

lemma SwapGroup_twice:
  assumes "SwapGroup i j p = Inr q"
  shows "SwapGroup i j q = Inr p"
proof -
  have r: "in_range (o_real_input p) i" "in_range (o_real_input p) j"
    and q: "q = p\<lparr>o_real_input := (o_real_input p)[nat i := o_real_input p ! nat j, nat j := o_real_input p ! nat i]\<rparr>"
    using assms by (auto simp: SwapGroup_def res_simps)
  have "(o_real_input q)[nat i := o_real_input q ! nat j, nat j := o_real_input q ! nat i] = o_real_input p"
    using r by (auto simp: q nth_list_update in_range_def intro!: nth_equalityI)
  then show ?thesis using r by (simp add: SwapGroup_def q)
qed

section \<open>The code of a group\<close>

text \<open>The coefficients of a group as a binary number, the first the most significant.\<close>

definition bits_value :: "int list \<Rightarrow> int" where
  "bits_value cs = fold (\<lambda>c v. 2 * v + c) cs 0"

lemma bits_value_simps [simp]: "bits_value [] = 0" "bits_value (cs @ [c]) = 2 * bits_value cs + c"
  by (simp_all add: bits_value_def)

lemma bits_value_bounds: "set cs \<subseteq> {0, 1} \<Longrightarrow> 0 \<le> bits_value cs \<and> bits_value cs < 2 ^ length cs"
  by (induction cs rule: rev_induct) auto

lemma bits_value_inj: "length cs = length ds \<Longrightarrow> set cs \<subseteq> {0, 1} \<Longrightarrow> set ds \<subseteq> {0, 1} \<Longrightarrow> bits_value cs = bits_value ds \<Longrightarrow> cs = ds"
proof (induction cs arbitrary: ds rule: rev_induct)
  case Nil
  then show ?case by simp
next
  case (snoc c cs)
  then obtain d ds' where ds: "ds = ds' @ [d]" by (cases ds rule: rev_cases) auto
  have cd: "c = d" "bits_value cs = bits_value ds'" using snoc.prems ds by (auto simp: ds) presburger+
  then show ?case using snoc.IH [of ds'] snoc.prems ds by simp
qed

lemma not_encode_ok:
  assumes coeffs: "t_coeff ` set ts \<subseteq> {0, 1}" and len: "length ts \<le> 31"
  shows "not_encode ts = Inr (bits_value (map t_coeff ts))"
proof -
  let ?n = "length ts"
  let ?f = "\<lambda>i bn. let k = ?n - 1 - i in if k < 64 then Inr (to_int32 (bn + t_coeff (ts ! i) * 2 ^ k)) else Inl Bad_Index"
  have "rfold ?f [0..<m] 0 = Inr (2 ^ (?n - m) * bits_value (map t_coeff (take m ts)))" if "m \<le> ?n" for m
    using that
  proof (induction m)
    case 0
    then show ?case by simp
  next
    case (Suc m)
    let ?v = "bits_value (map t_coeff (take (Suc m) ts))"
    have pow: "2 ^ (?n - m) = 2 * (2::int) ^ (?n - Suc m)" using Suc.prems by (metis Suc_diff_Suc less_eq_Suc_le power_Suc)
    have v: "?v = 2 * bits_value (map t_coeff (take m ts)) + t_coeff (ts ! m)"
      using Suc.prems by (simp add: take_Suc_conv_app_nth)
    have "set (map t_coeff (take (Suc m) ts)) \<subseteq> {0, 1}" using coeffs by (auto dest: in_set_takeD)
    then have b: "0 \<le> ?v" "?v < 2 ^ Suc m" using bits_value_bounds [of "map t_coeff (take (Suc m) ts)"] Suc.prems by auto
    have "2 ^ (?n - Suc m) * ?v < 2 ^ (?n - Suc m) * 2 ^ Suc m" using b(2) by simp
    also have "\<dots> = (2::int) ^ ?n" by (simp only: power_add [symmetric] le_add_diff_inverse2 [OF Suc.prems])
    also have "\<dots> \<le> 2 ^ 31" using len by (rule power_increasing) simp
    finally have small: "2 ^ (?n - Suc m) * ?v < 2 ^ 31" .
    have "to_int32 (2 ^ (?n - Suc m) * ?v) = 2 ^ (?n - Suc m) * ?v" 
    proof (rule to_int32_id)
      have "- (2 ^ 31) \<le> (0::int)" by simp
      also have "0 \<le> 2 ^ (?n - Suc m) * ?v" using b(1) by simp
      finally show "- (2 ^ 31) \<le> 2 ^ (?n - Suc m) * ?v" .
    qed (rule small)
    moreover have "2 ^ (?n - m) * bits_value (map t_coeff (take m ts)) + t_coeff (ts ! m) * 2 ^ (?n - Suc m) = 2 ^ (?n - Suc m) * ?v"
      by (simp add: v pow algebra_simps)
    ultimately show ?case using Suc len by (simp add: rfold_append Let_def)
  qed
  from this [OF order_refl] show ?thesis by (simp add: not_encode_def)
qed

end
