(* ===== verification/Trace_Props.thy ===== *)
theory Trace_Props
  imports Operation_Correct Build_Props
begin

text \<open>
  The properties of the traversals, of XOR trees and of the groups of a module, with their concrete
  inputs.
\<close>

section \<open>Inputs of outputs\<close>

text \<open>C26: \<open>TraceInputs\<close> on a netlist without combinational loops: it returns, changes nothing but the input
  lists of the outputs, and makes the list of each output sorted and free of repetition, with exactly the indices
  of the inputs the output depends on (added to those it had).\<close>

theorem TraceInputs_exact:
  assumes "ranked h A r" and "set (m_gate m OUTPUT) \<subseteq> {a \<in> A. r a < k}" and "distinct (m_gate m OUTPUT)"
  shows "\<exists>h'. TraceInputs k (m, h) = Inr (m, h') \<and> same_but_pi h h' \<and> (\<forall>a. a \<notin> set (m_gate m OUTPUT) \<longrightarrow> h' a = h a) \<and>
     (\<forall>out \<in> set (m_gate m OUTPUT). sorted (n_pi_idx (h' out)) \<and> distinct (n_pi_idx (h' out)) \<and>
        set (n_pi_idx (h' out)) = set (n_pi_idx (h out)) \<union> {n_idx (h i) |i. feeds h out i})"
  using TraceInputs_ok [OF assms] by (simp add: pi_set_def)

lemma wn_ranked: "ranked wn_heap wn_all wn_rank"
  by (simp add: ranked_def)

theorem TraceInputs_exact_witness:
  "\<exists>h'. TraceInputs 5 (wn_module, wn_heap) = Inr (wn_module, h') \<and> sorted (n_pi_idx (h' 2)) \<and>
     set (n_pi_idx (h' 2)) = {n_idx (wn_heap i) |i. feeds wn_heap 2 i}"
  using TraceInputs_exact [OF wn_ranked, of wn_module 5] by auto

section \<open>Gates on the paths\<close>

text \<open>C27: \<open>CountGate\<close> empties its queue on every netlist without combinational loops once the fuel
  reaches the number of nodes on all paths (the depth fits into an \<open>int\<close>, and the counters of \<open>_path_cnt\<close> have room for the entries to come). The entry of an output and an input is an \<open>int\<close> that counts the changes of
  gate type on every path between the two. When all these sums fit into an \<open>int\<close>, the table holds them exactly,
  nothing but signatures changes in the heap, and the signature of the inputs is the mode of their entries; when
  one of them does not fit, the counter overflows.\<close>

theorem CountGate_paths:
  assumes "count_ready m h A r K n"
  shows "if \<forall>i < length (m_gate m OUTPUT). \<forall>j < length (m_gate m INPUT). path_sum K h (m_gate m OUTPUT ! i) j < 2 ^ 31
     then \<exists>m' h'. CountGate n ord (m, h) = Inr (m', h') \<and> same_but_sig h h' \<and>
       (\<forall>i < length (m_gate m OUTPUT). \<forall>j < length (m_gate m INPUT). m_gate_path m' ! i ! j = path_sum K h (m_gate m OUTPUT ! i) j) \<and>
       m_input_sig m' = map (\<lambda>a. sig_mode ord (n_signature (h' a))) (m_gate m INPUT)
     else CountGate n ord (m, h) = Inl Int_Overflow"
proof (cases "sums_fit K h m (length (m_gate m OUTPUT))")
  case True
  then show ?thesis using CountGate_ok [OF assms, of ord] by (auto simp: gate_rows_def sums_fit_def)
next
  case False
  then show ?thesis using CountGate_ok [OF assms, of ord] unfolding sums_fit_def by (simp only: if_False)
qed

lemma wn_paths: "path_nodes 5 wn_heap 2 = 4" "path_sum 5 wn_heap 2 0 = 3" "path_sum 5 wn_heap 2 1 = 1"
  by code_simp+

lemma wn_count_ready: "count_ready wn_module wn_heap wn_all wn_rank 5 4"
  by (simp add: count_ready_def ranked_def wn_paths in_range_def less_Suc_eq pc_room_def signed_pis_def wn_module_def)

lemma wn_sums_fit:
  "\<forall>i < length (m_gate wn_module OUTPUT). \<forall>j < length (m_gate wn_module INPUT). path_sum 5 wn_heap (m_gate wn_module OUTPUT ! i) j < 2 ^ 31"
proof (intro allI impI)
  fix i j assume "i < length (m_gate wn_module OUTPUT)" "j < length (m_gate wn_module INPUT)"
  then have "i = 0" "j = 0 \<or> j = 1" by auto
  then show "path_sum 5 wn_heap (m_gate wn_module OUTPUT ! i) j < 2 ^ 31" by (elim disjE) (simp_all only: wn_module_fields nth_Cons_0 wn_paths, simp_all)
qed

theorem CountGate_paths_witness:
  "\<exists>m' h'. CountGate 4 rev (wn_module, wn_heap) = Inr (m', h') \<and> m_gate_path m' ! 0 ! 0 = 3"
proof -
  obtain m' h' where 1: "CountGate 4 rev (wn_module, wn_heap) = Inr (m', h')"
    and 2: "\<forall>i < length (m_gate wn_module OUTPUT). \<forall>j < length (m_gate wn_module INPUT). m_gate_path m' ! i ! j = path_sum 5 wn_heap (m_gate wn_module OUTPUT ! i) j"
    using CountGate_paths [OF wn_count_ready, of rev, unfolded if_P [OF wn_sums_fit]] by blast
  have "m_gate_path m' ! 0 ! 0 = path_sum 5 wn_heap 2 0" using 2 by simp
  then show ?thesis using 1 by (auto simp: wn_paths)
qed

text \<open>The signature of an input is the most frequent entry, the greatest one among several,
  whatever the iteration order of the \<open>unordered_map\<close>.\<close>

theorem sig_mode_exact:
  assumes "sig \<noteq> []" and "set (ord (remdups sig)) = set sig"
  shows "sig_mode ord sig \<in> set sig \<and> (\<forall>v \<in> set sig. count_list sig v < count_list sig (sig_mode ord sig) \<or>
     count_list sig v = count_list sig (sig_mode ord sig) \<and> v \<le> sig_mode ord sig)"
  using assms by (rule sig_mode_greatest)

theorem sig_mode_exact_witness: "sig_mode rev [3, 1, 3, 7, 7] \<in> set [3, 1, 3, 7, 7]"
  by (rule sig_mode_exact [THEN conjunct1]) auto

section \<open>XOR trees\<close>

text \<open>\<open>z = \<not> x \<oplus> y\<close>.\<close>

definition xn_heap :: "addr \<Rightarrow> node" where
  "xn_heap = wn_heap(5 := (mk_node 5 ''g1'' XOR)\<lparr>n_fi := [0, 1], n_fo := [2], n_inv := 1\<rparr>)"

text \<open>C28: \<open>countInvForXORTree\<close> counts the inversions of an XOR tree: it returns, and the value of the root is the parity
  of that number and of the leaves that are true.\<close>

theorem xor_tree_parity:
  assumes "ranked h A r" and "xor_wf h A" and "a \<in> A" and "r a < k" and "\<forall>x \<in> set (xor_leaves k h a). evals h \<sigma> x (v x)"
  shows "\<exists>cnt. countInvForXORTree k h a = Inr cnt \<and> evals h \<sigma> a (odd (cnt + length (filter v (xor_leaves k h a))))"
  using assms by (rule xor_parity)

theorem xor_tree_parity_witness:
  "\<forall>\<sigma>. \<exists>cnt. countInvForXORTree 2 xn_heap 5 = Inr cnt \<and>
     evals xn_heap \<sigma> 5 (odd (cnt + length (filter \<sigma> (xor_leaves 2 xn_heap 5))))"
proof
  fix \<sigma> :: "nat \<Rightarrow> bool"
  have wf: "ranked xn_heap {0, 1, 5} (\<lambda>a. if a = 5 then 1 else 0)" "xor_wf xn_heap {0, 1, 5}"
    by (simp_all add: ranked_def xor_wf_def xn_heap_def)
  have "xor_leaves 2 xn_heap 5 = [0, 1]" by (simp add: xn_heap_def numeral_2_eq_2)
  then show "\<exists>cnt. countInvForXORTree 2 xn_heap 5 = Inr cnt \<and>
     evals xn_heap \<sigma> 5 (odd (cnt + length (filter \<sigma> (xor_leaves 2 xn_heap 5))))"
    using xor_tree_parity [OF wf, of 5 2 \<sigma> \<sigma>] by (simp add: evals_input_iff xn_heap_def)
qed

section \<open>Terms and groups\<close>

text \<open>C29: The comparator of the set of terms is the lexicographic order of the member lists, so
  \<open>Insert\<close> keeps the terms of a group without repetition: it adds the term with the sorted list of members if
  and only if no term has these members, in the set and in the vector alike, and the terms that were there keep their place.\<close>

theorem Insert_keeps_terms:
  assumes "terms_ok p"
  shows "terms_ok (Insert ins c p) \<and>
     o_real_input (Insert ins c p) =
       o_real_input p @ (if sort ins \<in> t_member ` set (o_real_input p) then [] else [\<lparr>t_member = sort ins, t_coeff = c\<rparr>])"
  using assms by (auto simp: Insert_def terms_ok_def set_find_iff Let_def)

theorem Insert_keeps_terms_witness:
  "o_real_input (Insert [2, 1] 1 (new_operation [])) = [\<lparr>t_member = [1, 2], t_coeff = 1\<rparr>]"
proof -
  have "terms_ok (new_operation [])" "o_real_input (new_operation []) = []" by (simp_all add: terms_ok_def new_operation_def)
  with Insert_keeps_terms [OF this(1), of "[2, 1]" 1, THEN conjunct2] show ?thesis by simp
qed

text \<open>C30: \<open>ComputeNOTEncode\<close> on a group of at most 31 terms with coefficients 0 and 1: the code of the group is the
  binary number of the coefficients, it fits the \<open>int\<close>, and groups of one size with equal codes have equal coefficients.\<close>

theorem ComputeNOTEncode_exact:
  assumes "t_coeff ` set (o_real_input p) \<subseteq> {0, 1}" and "length (o_real_input p) \<le> 31"
  shows "ComputeNOTEncode p = Inr (p\<lparr>o_const := bits_value (map t_coeff (o_real_input p))\<rparr>) \<and>
     0 \<le> bits_value (map t_coeff (o_real_input p)) \<and> bits_value (map t_coeff (o_real_input p)) < 2 ^ length (o_real_input p) \<and>
     (\<forall>q. t_coeff ` set (o_real_input q) \<subseteq> {0, 1} \<longrightarrow> length (o_real_input q) = length (o_real_input p) \<longrightarrow>
        bits_value (map t_coeff (o_real_input q)) = bits_value (map t_coeff (o_real_input p)) \<longrightarrow>
        map t_coeff (o_real_input q) = map t_coeff (o_real_input p))"
proof -
  have "bits_value (map t_coeff (o_real_input q)) = bits_value (map t_coeff (o_real_input p)) \<Longrightarrow> map t_coeff (o_real_input q) = map t_coeff (o_real_input p)"
    if "t_coeff ` set (o_real_input q) \<subseteq> {0, 1}" "length (o_real_input q) = length (o_real_input p)" for q
    by (rule bits_value_inj) (use that assms in simp_all)
  note inj = this
  have "ComputeNOTEncode p = Inr (p\<lparr>o_const := bits_value (map t_coeff (o_real_input p))\<rparr>)"
    using not_encode_ok [OF assms] by (simp add: ComputeNOTEncode_def)
  moreover have "0 \<le> bits_value (map t_coeff (o_real_input p)) \<and> bits_value (map t_coeff (o_real_input p)) < 2 ^ length (o_real_input p)"
    using bits_value_bounds [of "map t_coeff (o_real_input p)"] assms(1) by simp
  ultimately show ?thesis using inj by blast
qed

definition ex_op :: operation where
  "ex_op = (new_operation [])\<lparr>o_real_input := [\<lparr>t_member = [1], t_coeff = 1\<rparr>, \<lparr>t_member = [2], t_coeff = 0\<rparr>]\<rparr>"

lemma ex_op_fields [simp]: "o_real_input ex_op = [\<lparr>t_member = [1], t_coeff = 1\<rparr>, \<lparr>t_member = [2], t_coeff = 0\<rparr>]"
  by (simp add: ex_op_def)

theorem ComputeNOTEncode_exact_witness: "ComputeNOTEncode ex_op = Inr (ex_op\<lparr>o_const := 2\<rparr>)"
proof -
  have "ComputeNOTEncode ex_op = Inr (ex_op\<lparr>o_const := bits_value (map t_coeff (o_real_input ex_op))\<rparr>)"
    by (rule ComputeNOTEncode_exact [THEN conjunct1]) simp_all
  then show ?thesis by (simp add: bits_value_def)
qed

end
