(* ===== verification/Miter_Text.thy ===== *)
theory Miter_Text
  imports Net_Parser "HOL-Library.Sublist"
begin

text \<open>
  \<open>miter\<close> of \<open>miter.cpp\<close>: the Verilog text of a miter of both circuits under a matching, written
  for ABC and decided by CaDiCaL. The verdict of both on a text is the parameter \<open>solve\<close>, with the result
  codes of CaDiCaL (10 for satisfiable). The files of the circuits are their texts.
\<close>

section \<open>Strings\<close>

text \<open>\<open>s.find(p)\<close>: the first position at which \<open>p\<close> occurs.\<close>

fun find_sub :: "string \<Rightarrow> string \<Rightarrow> nat option" where
  "find_sub p [] = (if p = [] then Some 0 else None)"
| "find_sub p (c # s) = (if prefix p (c # s) then Some 0 else map_option Suc (find_sub p s))"

section \<open>The operations of the miter\<close>

definition endl :: string where
  "endl = [newline]"

definition numbered :: "string \<Rightarrow> nat \<Rightarrow> string" where
  "numbered s n = s @ to_string (int n)"

text \<open>\<open>s0, s1, \<dots>\<close> from \<open>s1\<close> on, each with a comma in front.\<close>

definition comma_list :: "string \<Rightarrow> nat list \<Rightarrow> string" where
  "comma_list s ks = concat (map (\<lambda>i. '', '' @ numbered s i) ks)"

definition miter_header :: "nat \<Rightarrow> string" where
  "miter_header n =
     ''module miter ('' @ concat (map (\<lambda>i. numbered ''in'' i @ '', '') [0..<n]) @ ''out0) ;'' @ endl @
     CHR 0x09 # ''input '' @ (if n > 0 then ''in0'' else '''') @ comma_list ''in'' [1..<n] @ '' ;'' @ endl @
     CHR 0x09 # ''output '' @ ''out0'' @ '' ;'' @ endl"

text \<open>The inputs of circuit 2: the state is the operations, the signal of each input, the wires used.\<close>

type_synonym connect_state = "string list \<times> string list \<times> nat"

definition connect_input :: "bool list \<Rightarrow> nat \<Rightarrow> int \<Rightarrow> connect_state \<Rightarrow> connect_state res" where
  "connect_input in_neg i port_idx = (\<lambda>(inop, c2_input, wire_count).
     rbind (vget in_neg port_idx) (\<lambda>neg.
     if neg then
       let name = numbered ''n'' wire_count
       in rbind (vset c2_input port_idx name) (\<lambda>c2.
          Inr (inop @ [''not ( '' @ name @ '', '' @ numbered ''in'' i @ '' ) ;''], c2, Suc wire_count))
     else rbind (vset c2_input port_idx (numbered ''in'' i)) (\<lambda>c2. Inr (inop, c2, wire_count))))"

definition connect_inputs :: "int list list \<Rightarrow> bool list \<Rightarrow> connect_state \<Rightarrow> connect_state res" where
  "connect_inputs in_pairs in_neg =
     rfold (\<lambda>i. rfold (connect_input in_neg i) (in_pairs ! i)) [0..<length in_pairs]"

definition connect_consts :: "(bool \<times> int) list \<Rightarrow> string list \<Rightarrow> string list res" where
  "connect_consts =
     rfold (\<lambda>(b, port_idx) c2. vset c2 port_idx (if b then ''1'' @ [CHR 0x27] @ ''b1'' else ''1'' @ [CHR 0x27] @ ''b0''))"

definition compare_output :: "nat \<Rightarrow> bool list \<Rightarrow> nat \<Rightarrow> int \<Rightarrow> string list \<times> nat \<Rightarrow> (string list \<times> nat) res" where
  "compare_output n out_neg i port_idx = (\<lambda>(outop, wire_count).
     rbind (vget out_neg port_idx) (\<lambda>neg.
     let name = numbered ''n'' wire_count; o1 = numbered ''o'' i; o2 = numbered ''o'' (n + nat port_idx)
     in Inr (outop @ [(if neg then ''xnor ( '' else ''xor ( '') @ name @ '', '' @ o1 @ '', '' @ o2 @ '' ) ;''], Suc wire_count)))"

definition compare_outputs :: "int list list \<Rightarrow> bool list \<Rightarrow> string list \<times> nat \<Rightarrow> (string list \<times> nat) res" where
  "compare_outputs out_pairs out_neg =
     rfold (\<lambda>i. rfold (compare_output (length out_pairs) out_neg i) (out_pairs ! i)) [0..<length out_pairs]"

definition or_all :: "nat \<Rightarrow> nat \<Rightarrow> string" where
  "or_all or_start wire_count = ''or ( out0'' @ comma_list ''n'' [or_start..<wire_count] @ '' ) ;''"

definition wire_line :: "nat \<Rightarrow> nat \<Rightarrow> string" where
  "wire_line wire_count n =
     CHR 0x09 # ''wire '' @ (if wire_count > 0 then ''n0'' else '''') @ comma_list ''n'' [1..<wire_count] @
     comma_list ''o'' [0..<n] @ '' ;'' @ endl"

definition put_ops :: "string list \<Rightarrow> string" where
  "put_ops ops = concat (map (\<lambda>s. CHR 0x09 # s @ endl) ops)"

section \<open>The circuits\<close>

text \<open>The port \<open>name\<close> in the header of a module is replaced by its connection to \<open>sig\<close>.\<close>

definition connect_port :: "string \<Rightarrow> string \<Rightarrow> string \<Rightarrow> string" where
  "connect_port name sig line =
     (case find_sub (name @ '','') line of
        Some p \<Rightarrow> take p line @ ''.'' @ name @ '' ('' @ sig @ '') , '' @ drop (p + length name + 1) line
      | None \<Rightarrow>
          (case find_sub (name @ '');'') line of
             Some p \<Rightarrow> take p line @ ''.'' @ name @ '' ('' @ sig @ '') '' @ drop (p + length name) line
           | None \<Rightarrow> line))"

definition connect_ports :: "(string \<times> string) list \<Rightarrow> string \<Rightarrow> string" where
  "connect_ports = fold (\<lambda>(name, sig). connect_port name sig)"

text \<open>
  The name of the module and the text behind the parenthesis; without a parenthesis \<open>find\<close> gives
  \<open>npos\<close>, and \<open>pos - 6\<close> wraps to a count that reaches the end.
\<close>

definition header_name :: "string \<Rightarrow> string" where
  "header_name line =
     (case find_char CHR ''('' line of
        Some p \<Rightarrow> if p \<ge> 6 then take (p - 6) (drop 6 line) else drop 6 line
      | None \<Rightarrow> drop 6 line)"

definition header_ports :: "string \<Rightarrow> string" where
  "header_ports line = filter (\<lambda>c. c \<noteq> CHR '' '') (case find_char CHR ''('' line of Some p \<Rightarrow> drop (p + 1) line | None \<Rightarrow> line)"

text \<open>
  The call of a circuit: its statements are read up to the header. The loop that joins lines is the one of
  \<open>MakeLine\<close> without its test for \<open>endmodule\<close>.
\<close>

function call_module :: "string \<Rightarrow> (string \<times> string) list res \<Rightarrow> string \<Rightarrow> string \<Rightarrow> stream \<Rightarrow> (string \<times> string) res" where
  "call_module what conns name line ifs =
     (case getline newline line ifs of
        (ok, line, ifs1) \<Rightarrow>
          if \<not> ok then Inr (name, '''')
          else rbind (more_lines line '''' ifs1) (\<lambda>(line, ifs2).
               if find_sub ''module'' line \<noteq> None then
                 rbind conns (\<lambda>conns. Inr (header_name line, CHR 0x09 # what @ connect_ports conns (header_ports line) @ endl))
               else call_module what conns name line ifs2))"
  by pat_completeness auto
termination
  by (relation "measure (\<lambda>(what, conns, name, line, ifs). length (rest ifs))")
    (auto dest!: getline_ok_shorter [OF sym] more_lines_le)

text \<open>The copy of a circuit under its new name.\<close>

function copy_module :: "string \<Rightarrow> string \<Rightarrow> string \<Rightarrow> stream \<Rightarrow> string res" where
  "copy_module new_name name line ifs =
     (case getline newline line ifs of
        (ok, line, ifs1) \<Rightarrow>
          if \<not> ok then Inr ''''
          else if find_sub ''endmodule'' line \<noteq> None then Inr (line @ endl)
          else rbind (more_lines line '''' ifs1) (\<lambda>(line, ifs2).
               let out = (if find_sub ''module'' line \<noteq> None
                          then take 6 line @ new_name @ drop (6 + length name) line else line)
               in rbind (copy_module new_name name line ifs2) (\<lambda>s. Inr (out @ endl @ s))))"
  by pat_completeness auto
termination
  by (relation "measure (\<lambda>(new_name, name, line, ifs). length (rest ifs))")
    (auto dest!: getline_ok_shorter [OF sym] more_lines_le)

declare call_module.simps [simp del] copy_module.simps [simp del]

section \<open>The miter\<close>

definition names_of :: "(addr \<Rightarrow> node) \<Rightarrow> addr list \<Rightarrow> string list" where
  "names_of h ports = map (\<lambda>a. n_name (h a)) ports"

text \<open>
  The loops over the ports of circuit 1 run to the length of the pairs and index the vectors of ports.
\<close>

definition port_signals :: "(addr \<Rightarrow> node) \<Rightarrow> addr list \<Rightarrow> string list \<Rightarrow> (string \<times> string) list res" where
  "port_signals h ports sigs =
     (if length sigs \<le> length ports then Inr (zip (names_of h ports) sigs) else Inl Bad_Index)"

definition both_ports :: "(string \<times> string) list res \<Rightarrow> (string \<times> string) list res \<Rightarrow> (string \<times> string) list res" where
  "both_ports r s = rbind r (\<lambda>xs. rbind s (\<lambda>ys. Inr (xs @ ys)))"

definition miter_text ::
  "(addr \<Rightarrow> node) \<Rightarrow> string \<Rightarrow> string \<Rightarrow> addr list \<Rightarrow> addr list \<Rightarrow> addr list \<Rightarrow> addr list \<Rightarrow>
   int list list \<Rightarrow> bool list \<Rightarrow> int list list \<Rightarrow> bool list \<Rightarrow> (bool \<times> int) list \<Rightarrow> string res" where
  "miter_text h c1 c2 input1 input2 output1 output2 in_pairs in_neg out_pairs out_neg const_match =
     (let n = length in_pairs; m = length out_pairs in
     rbind (connect_inputs in_pairs in_neg ([], replicate (length input2) '''', 0)) (\<lambda>(inop, c2_input, or_start).
     rbind (connect_consts const_match c2_input) (\<lambda>c2_input.
     rbind (compare_outputs out_pairs out_neg ([], or_start)) (\<lambda>(outop, wire_count).
     rbind (call_module ''Circuit1 circuit_1( ''
              (both_ports (port_signals h input1 (map (numbered ''in'') [0..<n]))
                          (port_signals h output1 (map (numbered ''o'') [0..<m])))
              '''' '''' (stream_of c1)) (\<lambda>(name1, call1).
     rbind (call_module ''Circuit2 circuit_2( ''
              (both_ports (port_signals h input2 c2_input)
                          (port_signals h output2 (map (\<lambda>i. numbered ''o'' (i + m)) [0..<length output2])))
              '''' '''' (stream_of c2)) (\<lambda>(name2, call2).
     rbind (copy_module '' Circuit1'' name1 '''' (stream_of c1)) (\<lambda>copy1.
     rbind (copy_module '' Circuit2'' name2 '''' (stream_of c2)) (\<lambda>copy2.
     Inr (miter_header n @ wire_line wire_count (m + length output2) @ put_ops inop @ call1 @ call2 @
          put_ops (outop @ [or_all or_start wire_count]) @ ''endmodule'' @ endl @ endl @ copy1 @ endl @ copy2)))))))))"

definition miter ::
  "(string \<Rightarrow> int) \<Rightarrow> (addr \<Rightarrow> node) \<Rightarrow> string \<Rightarrow> string \<Rightarrow> addr list \<Rightarrow> addr list \<Rightarrow> addr list \<Rightarrow> addr list \<Rightarrow>
   int list list \<Rightarrow> bool list \<Rightarrow> int list list \<Rightarrow> bool list \<Rightarrow> (bool \<times> int) list \<Rightarrow> bool res" where
  "miter solve h c1 c2 input1 input2 output1 output2 in_pairs in_neg out_pairs out_neg const_match =
     rbind (miter_text h c1 c2 input1 input2 output1 output2 in_pairs in_neg out_pairs out_neg const_match) (\<lambda>text.
     Inr (solve text \<noteq> 10))"

end
