(* ===== verification/Port_Text.thy ===== *)
theory Port_Text
  imports Miter_Text
begin

text \<open>
  Connecting the ports in the header of a module by search and replacement, as the miters do: on a
  header whose port names are not suffixes of each other, every port gets its own signal.
\<close>

section \<open>Searching in delimited text\<close>

definition delims :: "char set" where
  "delims = {CHR '','', CHR '')'', CHR '' '', CHR '';''}"

definition seg_text :: "(string \<times> char) list \<Rightarrow> string" where
  "seg_text segs = concat (map (\<lambda>(s, d). s @ [d]) segs)"

definition segs_ok :: "(string \<times> char) list \<Rightarrow> bool" where
  "segs_ok segs \<longleftrightarrow> (\<forall>(s, d) \<in> set segs. set s \<inter> delims = {} \<and> d \<in> delims)"

lemma seg_text_simps [simp]: "seg_text [] = []" "seg_text ((s, d) # segs) = s @ d # seg_text segs"
  "seg_text (xs @ ys) = seg_text xs @ seg_text ys"
  by (simp_all add: seg_text_def)

lemma segs_ok_simps [simp]: "segs_ok []" "segs_ok ((s, d) # segs) \<longleftrightarrow> set s \<inter> delims = {} \<and> d \<in> delims \<and> segs_ok segs"
  "segs_ok (xs @ ys) \<longleftrightarrow> segs_ok xs \<and> segs_ok ys"
  by (auto simp: segs_ok_def)

lemma prefix_delimited:
  assumes "set p \<inter> delims = {}" "set s \<inter> delims = {}" "d \<in> delims" "d' \<in> delims"
  shows "prefix (p @ d # e) (s @ d' # t) \<longleftrightarrow> p = s \<and> d = d' \<and> prefix e t"
  using assms
proof (induction p arbitrary: s)
  case Nil
  then show ?case by (cases s) auto
next
  case (Cons c p)
  then show ?case by (cases s) auto
qed

lemma find_sub_miss: "s \<noteq> [] \<Longrightarrow> \<not> prefix p s \<Longrightarrow> find_sub p s = map_option Suc (find_sub p (tl s))"
  by (cases s) auto

text \<open>A search in one segment: the pattern occurs at its end or starts behind it.\<close>

lemma find_seg:
  assumes p: "set p \<inter> delims = {}" "p \<noteq> []" and d: "d \<in> delims" "d' \<in> delims" and s: "set s \<inter> delims = {}"
  shows "find_sub (p @ d # e) (s @ d' # t) =
     (if suffix p s \<and> d = d' \<and> prefix e t then Some (length s - length p)
      else map_option ((+) (Suc (length s))) (find_sub (p @ d # e) t))"
  using s
proof (induction s)
  case Nil
  have "\<not> prefix (p @ d # e) (d' # t)" using prefix_delimited [OF p(1), of "[]" d d' e t] d p(2) by simp
  then show ?case using p(2) by (cases "find_sub (p @ d # e) t") auto
next
  case (Cons c s)
  have pre: "prefix (p @ d # e) ((c # s) @ d' # t) \<longleftrightarrow> p = c # s \<and> d = d' \<and> prefix e t"
    by (rule prefix_delimited [OF p(1) Cons.prems d])
  show ?case
  proof (cases "p = c # s \<and> d = d' \<and> prefix e t")
    case True
    then show ?thesis using pre by simp
  next
    case False
    then have "\<not> prefix (p @ d # e) (c # (s @ d' # t))" using pre by simp
    then have "find_sub (p @ d # e) ((c # s) @ d' # t) = map_option Suc (find_sub (p @ d # e) (s @ d' # t))"
      by (simp only: append_Cons find_sub.simps(2) if_False)
    moreover have "length p \<le> length s" if "suffix p s" using that by (simp add: suffix_length_le)
    ultimately show ?thesis using Cons False
      by (auto simp: suffix_Cons Suc_diff_le option.map_comp o_def)
  qed
qed

section \<open>The header of a call\<close>

text \<open>Ports with the signals they are connected to so far.\<close>

type_synonym port_state = "(string \<times> string option) list"

definition port_segs :: "string \<times> string option \<Rightarrow> (string \<times> char) list" where
  "port_segs = (\<lambda>(q, c). case c of
     None \<Rightarrow> [(q, CHR '','')]
   | Some w \<Rightarrow> [(''.'' @ q, CHR '' ''), (''('' @ w, CHR '')''), ('''', CHR '' ''), ('''', CHR '',''), ('''', CHR '' '')])"

definition last_segs :: "string \<times> string option \<Rightarrow> (string \<times> char) list" where
  "last_segs = (\<lambda>(q, c). case c of
     None \<Rightarrow> [(q, CHR '')''), ('''', CHR '';'')]
   | Some w \<Rightarrow> [(''.'' @ q, CHR '' ''), (''('' @ w, CHR '')''), ('''', CHR '' ''), ('''', CHR '')''), ('''', CHR '';'')])"

fun state_segs :: "port_state \<Rightarrow> (string \<times> char) list" where
  "state_segs [] = []"
| "state_segs [x] = last_segs x"
| "state_segs (x # y # xs) = port_segs x @ state_segs (y # xs)"

definition header_text :: "port_state \<Rightarrow> string" where
  "header_text st = seg_text (state_segs st)"

definition name_ok :: "string \<Rightarrow> bool" where
  "name_ok p \<longleftrightarrow> p \<noteq> [] \<and> set p \<inter> delims = {}"

lemma delims_simps [simp]: "CHR '','' \<in> delims" "CHR '')'' \<in> delims" "CHR '' '' \<in> delims" "CHR '';'' \<in> delims"
  "CHR ''.'' \<notin> delims" "CHR ''('' \<notin> delims"
  by (simp_all add: delims_def)

lemma find_sub_end: "p \<noteq> [] \<Longrightarrow> find_sub p [] = None"
  by simp

text \<open>A search that finds nothing in a list of segments goes on behind them.\<close>

fun no_hit :: "string \<Rightarrow> char \<Rightarrow> string \<Rightarrow> (string \<times> char) list \<Rightarrow> string \<Rightarrow> bool" where
  "no_hit p d e [] t = True"
| "no_hit p d e ((s, d') # segs) t = (\<not> (suffix p s \<and> d = d' \<and> prefix e (seg_text segs @ t)) \<and> no_hit p d e segs t)"

lemma find_segs_skip:
  assumes "name_ok p" "d \<in> delims" "segs_ok segs" "no_hit p d e segs t"
  shows "find_sub (p @ d # e) (seg_text segs @ t) = map_option ((+) (length (seg_text segs))) (find_sub (p @ d # e) t)"
  using assms(3,4)
proof (induction segs)
  case Nil
  then show ?case by (simp add: option.map_ident)
next
  case (Cons sd segs)
  obtain s d' where sd: "sd = (s, d')" by (cases sd)
  have "find_sub (p @ d # e) (s @ d' # (seg_text segs @ t)) = map_option ((+) (Suc (length s))) (find_sub (p @ d # e) (seg_text segs @ t))"
    using find_seg [of p d d' s e "seg_text segs @ t"] assms(1,2) Cons.prems by (auto simp: sd name_ok_def)
  then show ?case using Cons sd by (simp add: option.map_comp o_def add.assoc)
qed

text \<open>What a search for a port meets in the text of another one, and in its own.\<close>

definition port_ok :: "string \<times> string option \<Rightarrow> bool" where
  "port_ok = (\<lambda>(q, c). name_ok q \<and> (\<forall>w. c = Some w \<longrightarrow> set w \<inter> delims = {}))"

lemma port_segs_ok [simp]: "port_ok x \<Longrightarrow> segs_ok (port_segs x)" "port_ok x \<Longrightarrow> segs_ok (last_segs x)"
  by (auto simp: port_ok_def port_segs_def last_segs_def name_ok_def split: option.splits)

definition pattern :: "char \<Rightarrow> string \<Rightarrow> bool" where
  "pattern d e \<longleftrightarrow> d = CHR '','' \<and> e = [] \<or> d = CHR '')'' \<and> e = '';''"

lemma skip_port:
  assumes "name_ok p" "port_ok x" "pattern d e" and "snd x = None \<longrightarrow> \<not> suffix p (fst x)"
  shows "find_sub (p @ d # e) (seg_text (port_segs x) @ t) = map_option ((+) (length (seg_text (port_segs x)))) (find_sub (p @ d # e) t)"
proof (rule find_segs_skip [OF assms(1) _ port_segs_ok(1) [OF assms(2)]])
  show "d \<in> delims" using assms(3) by (auto simp: pattern_def)
  show "no_hit p d e (port_segs x) t"
    using assms by (auto simp: pattern_def port_segs_def name_ok_def split: option.splits prod.splits)
qed

lemma skip_last:
  assumes "name_ok p" "port_ok x" "pattern d e" and "snd x = None \<longrightarrow> d = CHR '')'' \<longrightarrow> \<not> suffix p (fst x)"
  shows "find_sub (p @ d # e) (seg_text (last_segs x)) = None"
proof -
  have "d \<in> delims" using assms(3) by (auto simp: pattern_def)
  moreover have "no_hit p d e (last_segs x) []"
    using assms by (auto simp: pattern_def last_segs_def name_ok_def split: option.splits prod.splits)
  ultimately have "find_sub (p @ d # e) (seg_text (last_segs x) @ []) = map_option ((+) (length (seg_text (last_segs x)))) (find_sub (p @ d # e) [])"
    by (rule find_segs_skip [OF assms(1) _ port_segs_ok(2) [OF assms(2)]])
  then show ?thesis by simp
qed

lemma hit_port: "name_ok p \<Longrightarrow> find_sub (p @ '','') (seg_text (port_segs (p, None)) @ t) = Some 0"
  using find_seg [of p "CHR '',''" "CHR '',''" p "[]" t] by (simp add: port_segs_def name_ok_def)

lemma hit_last: "name_ok p \<Longrightarrow> find_sub (p @ '');'') (seg_text (last_segs (p, None))) = Some 0"
  using find_seg [of p "CHR '')''" "CHR '')''" p "'';''" "'';''"] by (simp add: last_segs_def name_ok_def)

section \<open>One port\<close>

definition front_text :: "port_state \<Rightarrow> string" where
  "front_text st = concat (map (\<lambda>x. seg_text (port_segs x)) st)"

lemma header_text_append: "header_text (xs @ [y]) = front_text xs @ seg_text (last_segs y)"
proof (induction xs)
  case Nil
  then show ?case by (simp add: header_text_def front_text_def)
next
  case (Cons x xs)
  then show ?case by (cases xs) (simp_all add: header_text_def front_text_def)
qed

lemma skip_front:
  assumes "name_ok p" "pattern d e" and "\<forall>x \<in> set xs. port_ok x \<and> (snd x = None \<longrightarrow> \<not> suffix p (fst x))"
  shows "find_sub (p @ d # e) (front_text xs @ t) = map_option ((+) (length (front_text xs))) (find_sub (p @ d # e) t)"
  using assms(3)
proof (induction xs)
  case Nil
  then show ?case by (simp add: front_text_def option.map_ident)
next
  case (Cons x xs)
  then show ?case using skip_port [OF assms(1) _ assms(2), of x "front_text xs @ t"]
    by (simp add: front_text_def option.map_comp o_def add.assoc)
qed

lemma front_text_append [simp]: "front_text (xs @ ys) = front_text xs @ front_text ys"
  by (simp add: front_text_def)

lemma front_text_Cons [simp]: "front_text (x # xs) = seg_text (port_segs x) @ front_text xs"
  by (simp add: front_text_def)

lemma seg_text_port [simp]:
  "seg_text (port_segs (p, None)) = p @ '',''"
  "seg_text (port_segs (p, Some w)) = ''.'' @ p @ '' ('' @ w @ '') , ''"
  "seg_text (last_segs (p, None)) = p @ '');''"
  "seg_text (last_segs (p, Some w)) = ''.'' @ p @ '' ('' @ w @ '') );''"
  by (simp_all add: port_segs_def last_segs_def)

lemma connect_port_front:
  assumes p: "name_ok p" and xs: "\<forall>x \<in> set xs. port_ok x \<and> (snd x = None \<longrightarrow> \<not> suffix p (fst x))"
  shows "connect_port p w (front_text (xs @ (p, None) # ys) @ t) = front_text (xs @ (p, Some w) # ys) @ t"
proof -
  have "find_sub (p @ '','') (front_text (xs @ (p, None) # ys) @ t) = Some (length (front_text xs))"
    using skip_front [OF p _ xs, of "CHR '',''" "[]" "front_text ((p, None) # ys) @ t"] hit_port [OF p, of "front_text ys @ t"]
    by (simp add: pattern_def)
  then show ?thesis by (simp add: connect_port_def)
qed

lemma connect_port_last:
  assumes p: "name_ok p" and xs: "\<forall>x \<in> set xs. port_ok x \<and> (snd x = None \<longrightarrow> \<not> suffix p (fst x))"
  shows "connect_port p w (header_text (xs @ [(p, None)])) = header_text (xs @ [(p, Some w)])"
proof -
  have "port_ok (p, None)" using p by (simp add: port_ok_def)
  then have "find_sub (p @ '','') (header_text (xs @ [(p, None)])) = None"
    using skip_front [OF p _ xs, of "CHR '',''" "[]" "seg_text (last_segs (p, None))"] skip_last [OF p, of "(p, None)" "CHR '',''" "[]"]
    by (simp add: pattern_def header_text_append)
  moreover have "find_sub (p @ '');'') (header_text (xs @ [(p, None)])) = Some (length (front_text xs))"
    using skip_front [OF p _ xs, of "CHR '')''" "'';''" "seg_text (last_segs (p, None))"] hit_last [OF p]
    by (simp add: pattern_def header_text_append)
  ultimately show ?thesis by (simp add: connect_port_def header_text_append)
qed

section \<open>All ports\<close>

definition state_ok :: "port_state \<Rightarrow> bool" where
  "state_ok st \<longleftrightarrow> distinct (map fst st) \<and> (\<forall>x \<in> set st. port_ok x) \<and>
     (\<forall>q \<in> fst ` set st. \<forall>q' \<in> fst ` set st. suffix q q' \<longrightarrow> q = q')"

definition set_port :: "string \<Rightarrow> string \<Rightarrow> port_state \<Rightarrow> port_state" where
  "set_port p w = map (\<lambda>(q, c). if q = p then (q, Some w) else (q, c))"

lemma set_port_other: "p \<notin> fst ` set st \<Longrightarrow> set_port p w st = st"
  by (induction st) (auto simp: set_port_def)

lemma fst_set_port [simp]: "map fst (set_port p w st) = map fst st"
  by (induction st) (auto simp: set_port_def)

lemma fst_set_port_set [simp]: "fst ` set (set_port p w st) = fst ` set st"
  by (metis fst_set_port list.set_map)

lemma state_ok_set_port: "state_ok st \<Longrightarrow> set w \<inter> delims = {} \<Longrightarrow> state_ok (set_port p w st)"
proof -
  assume ok: "state_ok st" and w: "set w \<inter> delims = {}"
  have "port_ok (if q = p then (q, Some w) else (q, c))" if "(q, c) \<in> set st" for q c
  proof -
    have "port_ok (q, c)" using ok that by (auto simp: state_ok_def)
    then show ?thesis using w by (auto simp: port_ok_def)
  qed
  then have "\<forall>x \<in> set (set_port p w st). port_ok x" by (auto simp: set_port_def)
  then show "state_ok (set_port p w st)" using ok unfolding state_ok_def fst_set_port fst_set_port_set by blast
qed

lemma connect_port_state:
  assumes ok: "state_ok st" and p: "(p, None) \<in> set st"
  shows "connect_port p w (header_text st) = header_text (set_port p w st)"
proof -
  obtain xs ys where st: "st = xs @ (p, None) # ys" using p by (meson split_list)
  have dist: "p \<notin> fst ` set xs" "p \<notin> fst ` set ys" using ok by (auto simp: state_ok_def st)
  have name: "name_ok p" using ok by (auto simp: state_ok_def st port_ok_def)
  have front: "\<forall>x \<in> set xs. port_ok x \<and> (snd x = None \<longrightarrow> \<not> suffix p (fst x))"
  proof
    fix x assume x: "x \<in> set xs"
    then have "suffix p (fst x) \<longrightarrow> p = fst x" using ok by (auto simp: state_ok_def st)
    then show "port_ok x \<and> (snd x = None \<longrightarrow> \<not> suffix p (fst x))"
      using x ok dist(1) by (auto simp: state_ok_def st)
  qed
  have "set_port p w st = xs @ (p, Some w) # ys"
    using set_port_other [OF dist(1)] set_port_other [OF dist(2)] by (simp add: st set_port_def)
  moreover have "connect_port p w (header_text (xs @ (p, None) # ys)) = header_text (xs @ (p, Some w) # ys)"
  proof (cases ys rule: rev_cases)
    case Nil
    then show ?thesis using connect_port_last [OF name front] by simp
  next
    case (snoc zs y)
    have h: "header_text (xs @ (p, c) # ys) = front_text (xs @ (p, c) # zs) @ seg_text (last_segs y)" for c
      using header_text_append [of "xs @ (p, c) # zs" y] by (simp add: snoc)
    show ?thesis unfolding h by (rule connect_port_front [OF name front])
  qed
  ultimately show ?thesis by (simp add: st)
qed

definition connected :: "(string \<times> string) list \<Rightarrow> string list \<Rightarrow> port_state" where
  "connected conns ps = map (\<lambda>q. (q, map_of conns q)) ps"

lemma connect_ports_state:
  assumes "state_ok st" and "distinct (map fst conns)" and "\<forall>(p, w) \<in> set conns. (p, None) \<in> set st \<and> set w \<inter> delims = {}"
  shows "connect_ports conns (header_text st) = header_text (map (\<lambda>(q, c). (q, case map_of conns q of None \<Rightarrow> c | Some w \<Rightarrow> Some w)) st)"
  using assms
proof (induction conns arbitrary: st)
  case Nil
  then show ?case by (simp add: connect_ports_def case_prod_beta)
next
  case (Cons pw conns)
  obtain p w where pw: "pw = (p, w)" by (cases pw)
  have "state_ok (set_port p w st)" using Cons.prems by (auto simp: pw intro: state_ok_set_port)
  moreover have "\<forall>(q, v) \<in> set conns. (q, None) \<in> set (set_port p w st) \<and> set v \<inter> delims = {}"
    using Cons.prems(2,3) by (force simp: pw set_port_def)
  ultimately have "connect_ports conns (header_text (set_port p w st)) =
     header_text (map (\<lambda>(q, c). (q, case map_of conns q of None \<Rightarrow> c | Some w \<Rightarrow> Some w)) (set_port p w st))"
    using Cons.IH Cons.prems(2) by (simp add: pw)
  moreover have "connect_port p w (header_text st) = header_text (set_port p w st)"
    by (rule connect_port_state) (use Cons.prems in \<open>auto simp: pw\<close>)
  moreover have "map_of conns p = None" using Cons.prems(2) by (simp add: pw map_of_eq_None_iff)
  ultimately show ?case
    by (auto simp: pw connect_ports_def set_port_def intro!: arg_cong [where f = header_text])
qed

text \<open>The ports of a header, and the text of a call in which each is connected.\<close>

definition ports_ok_text :: "string list \<Rightarrow> bool" where
  "ports_ok_text ps \<longleftrightarrow> ps \<noteq> [] \<and> distinct ps \<and> (\<forall>p \<in> set ps. name_ok p) \<and> (\<forall>p \<in> set ps. \<forall>q \<in> set ps. suffix p q \<longrightarrow> p = q)"

lemma connect_ports_ok:
  assumes "ports_ok_text ps" and "distinct (map fst conns)" and "\<forall>(p, w) \<in> set conns. p \<in> set ps \<and> set w \<inter> delims = {}"
  shows "connect_ports conns (header_text (connected [] ps)) = header_text (connected conns ps)"
proof -
  have "state_ok (connected [] ps)"
    using assms(1) by (auto simp: state_ok_def connected_def ports_ok_text_def port_ok_def o_def)
  then have "connect_ports conns (header_text (connected [] ps)) =
     header_text (map (\<lambda>(q, c). (q, case map_of conns q of None \<Rightarrow> c | Some w \<Rightarrow> Some w)) (connected [] ps))"
    by (rule connect_ports_state) (use assms(2,3) in \<open>auto simp: connected_def\<close>)
  moreover have "(case c of None \<Rightarrow> None | Some w \<Rightarrow> Some w) = c" for c :: "string option" by (cases c) simp_all
  ultimately show ?thesis by (simp add: connected_def o_def)
qed

end
