(* ===== verification/Miter_Verilog.thy ===== *)
theory Miter_Verilog
  imports Port_Text
begin

text \<open>
  What the text of the miter says: an abstract miter of wires, gates and two circuits called with named
  ports, its rendering as Verilog, and its models. \<open>miter_text\<close> writes the rendering of the abstract
  miter of the matching, and the models of that one in which the output is true are the assignments on which
  matched outputs differ.
\<close>

section \<open>Abstract miters\<close>

datatype wire = W_in nat | W_n nat | W_o nat | W_out | W_const bool | W_none

fun show_wire :: "wire \<Rightarrow> string" where
  "show_wire (W_in i) = numbered ''in'' i"
| "show_wire (W_n i) = numbered ''n'' i"
| "show_wire (W_o i) = numbered ''o'' i"
| "show_wire W_out = ''out0''"
| "show_wire (W_const b) = (if b then ''1'' @ [CHR 0x27] @ ''b1'' else ''1'' @ [CHR 0x27] @ ''b0'')"
| "show_wire W_none = ''''"

datatype vgate = Not_gate wire wire | Xor_gate bool wire wire wire | Or_gate wire "wire list"

fun show_gate :: "vgate \<Rightarrow> string" where
  "show_gate (Not_gate z a) = ''not ( '' @ show_wire z @ '', '' @ show_wire a @ '' ) ;''"
| "show_gate (Xor_gate neg z a b) =
     (if neg then ''xnor ( '' else ''xor ( '') @ show_wire z @ '', '' @ show_wire a @ '', '' @ show_wire b @ '' ) ;''"
| "show_gate (Or_gate z as) = ''or ( '' @ show_wire z @ concat (map (\<lambda>a. '', '' @ show_wire a) as) @ '' ) ;''"

fun gate_holds :: "(wire \<Rightarrow> bool) \<Rightarrow> vgate \<Rightarrow> bool" where
  "gate_holds \<rho> (Not_gate z a) \<longleftrightarrow> \<rho> z = (\<not> \<rho> a)"
| "gate_holds \<rho> (Xor_gate neg z a b) \<longleftrightarrow> \<rho> z = ((\<rho> a \<noteq> \<rho> b) \<noteq> neg)"
| "gate_holds \<rho> (Or_gate z as) \<longleftrightarrow> \<rho> z = (\<exists>a \<in> set as. \<rho> a)"

text \<open>A file with one module, as \<open>DeleteGateName\<close> writes it.\<close>

record circuit_file =
  cf_name :: string
  cf_ports :: "string list"
  cf_body :: "string list"

definition header_line :: "string \<Rightarrow> string list \<Rightarrow> string" where
  "header_line name ps = ''module '' @ name @ ''('' @ concat (map (\<lambda>p. p @ '', '') (butlast ps)) @ last ps @ '');''"

definition show_circuit :: "string \<Rightarrow> circuit_file \<Rightarrow> string" where
  "show_circuit name f = header_line name (cf_ports f) @ endl @ concat (map (\<lambda>l. l @ endl) (cf_body f)) @ ''endmodule'' @ endl"

definition circuit_ok :: "circuit_file \<Rightarrow> bool" where
  "circuit_ok f \<longleftrightarrow> CHR ''('' \<notin> set (cf_name f) \<and> newline \<notin> set (cf_name f) \<and> ports_ok_text (cf_ports f) \<and>
     (\<forall>p \<in> set (cf_ports f). newline \<notin> set p) \<and> find_sub ''endmodule'' (header_line (cf_name f) (cf_ports f)) = None \<and>
     (\<forall>l \<in> set (cf_body f). CHR '';'' \<in> set l \<and> newline \<notin> set l \<and> find_sub ''module'' l = None \<and> find_sub ''endmodule'' l = None)"

type_synonym conns = "(string \<times> wire) list"

record vmiter =
  vm_inputs :: nat
  vm_wires :: nat
  vm_outs :: nat
  vm_nots :: "vgate list"
  vm_xors :: "vgate list"
  vm_in1 :: conns
  vm_out1 :: conns
  vm_in2 :: conns
  vm_out2 :: conns

definition show_conns :: "conns \<Rightarrow> (string \<times> string) list" where
  "show_conns = map (\<lambda>(p, w). (p, show_wire w))"

definition show_call :: "string \<Rightarrow> string list \<Rightarrow> conns \<Rightarrow> string" where
  "show_call what ps cs = CHR 0x09 # what @ header_text (connected (show_conns cs) ps) @ endl"

definition show_miter :: "vmiter \<Rightarrow> circuit_file \<Rightarrow> circuit_file \<Rightarrow> string" where
  "show_miter M f1 f2 =
     miter_header (vm_inputs M) @ wire_line (vm_wires M) (vm_outs M) @ put_ops (map show_gate (vm_nots M)) @
     show_call ''Circuit1 circuit_1( '' (cf_ports f1) (vm_in1 M @ vm_out1 M) @
     show_call ''Circuit2 circuit_2( '' (cf_ports f2) (vm_in2 M @ vm_out2 M) @
     put_ops (map show_gate (vm_xors M)) @ ''endmodule'' @ endl @ endl @
     show_circuit ''Circuit1'' f1 @ endl @ show_circuit ''Circuit2'' f2"

text \<open>
  \<open>F\<close> gives the value of an output of a circuit by its name, from the values of the inputs by their
  names.
\<close>

type_synonym circuit_fun = "(string \<Rightarrow> bool) \<Rightarrow> string \<Rightarrow> bool"

definition conn_val :: "(wire \<Rightarrow> bool) \<Rightarrow> conns \<Rightarrow> string \<Rightarrow> bool" where
  "conn_val \<rho> cs s = (case map_of cs s of None \<Rightarrow> False | Some w \<Rightarrow> \<rho> w)"

definition miter_model :: "vmiter \<Rightarrow> circuit_fun \<Rightarrow> circuit_fun \<Rightarrow> (wire \<Rightarrow> bool) \<Rightarrow> bool" where
  "miter_model M F1 F2 \<rho> \<longleftrightarrow> (\<forall>b. \<rho> (W_const b) = b) \<and> (\<forall>g \<in> set (vm_nots M @ vm_xors M). gate_holds \<rho> g) \<and>
     (\<forall>(z, w) \<in> set (vm_out1 M). \<rho> w = F1 (conn_val \<rho> (vm_in1 M)) z) \<and>
     (\<forall>(z, w) \<in> set (vm_out2 M). \<rho> w = F2 (conn_val \<rho> (vm_in2 M)) z)"

section \<open>The miter of a matching\<close>

definition flat_pairs :: "int list list \<Rightarrow> (nat \<times> int) list" where
  "flat_pairs pairs = concat (map (\<lambda>i. map (Pair i) (pairs ! i)) [0..<length pairs])"

fun in_gates :: "bool list \<Rightarrow> nat \<Rightarrow> (nat \<times> int) list \<Rightarrow> vgate list" where
  "in_gates neg k [] = []"
| "in_gates neg k ((i, p) # ps) = (if neg ! nat p then Not_gate (W_n k) (W_in i) # in_gates neg (Suc k) ps else in_gates neg k ps)"

fun in_wires :: "bool list \<Rightarrow> nat \<Rightarrow> (nat \<times> int) list \<Rightarrow> (int \<times> wire) list" where
  "in_wires neg k [] = []"
| "in_wires neg k ((i, p) # ps) =
     (if neg ! nat p then (p, W_n k) # in_wires neg (Suc k) ps else (p, W_in i) # in_wires neg k ps)"

definition out_gates :: "nat \<Rightarrow> bool list \<Rightarrow> nat \<Rightarrow> (nat \<times> int) list \<Rightarrow> vgate list" where
  "out_gates m neg k ps = map (\<lambda>(j, i, p). Xor_gate (neg ! nat p) (W_n (k + j)) (W_o i) (W_o (m + nat p))) (zip [0..<length ps] ps)"

definition put_wires :: "(int \<times> 'a) list \<Rightarrow> 'a list \<Rightarrow> 'a list" where
  "put_wires = fold (\<lambda>(p, w) c. c[nat p := w])"

definition wires2 :: "nat \<Rightarrow> int list list \<Rightarrow> bool list \<Rightarrow> (bool \<times> int) list \<Rightarrow> wire list" where
  "wires2 n2 in_pairs in_neg consts =
     put_wires (map (\<lambda>(b, p). (p, W_const b)) consts) (put_wires (in_wires in_neg 0 (flat_pairs in_pairs)) (replicate n2 W_none))"

definition miter_of ::
  "(addr \<Rightarrow> node) \<Rightarrow> addr list \<Rightarrow> addr list \<Rightarrow> addr list \<Rightarrow> addr list \<Rightarrow>
   int list list \<Rightarrow> bool list \<Rightarrow> int list list \<Rightarrow> bool list \<Rightarrow> (bool \<times> int) list \<Rightarrow> vmiter" where
  "miter_of h input1 input2 output1 output2 in_pairs in_neg out_pairs out_neg consts =
     (let n = length in_pairs; m = length out_pairs; nots = in_gates in_neg 0 (flat_pairs in_pairs);
          s = length nots; xors = out_gates m out_neg s (flat_pairs out_pairs); t = s + length xors
      in \<lparr>vm_inputs = n, vm_wires = t, vm_outs = m + length output2, vm_nots = nots,
          vm_xors = xors @ [Or_gate W_out (map W_n [s..<t])],
          vm_in1 = zip (names_of h input1) (map W_in [0..<n]), vm_out1 = zip (names_of h output1) (map W_o [0..<m]),
          vm_in2 = zip (names_of h input2) (wires2 (length input2) in_pairs in_neg consts),
          vm_out2 = zip (names_of h output2) (map (\<lambda>i. W_o (i + m)) [0..<length output2])\<rparr>)"

section \<open>The text is its rendering\<close>

lemma show_wire_delims: "set (show_wire w) \<inter> delims = {}"
proof -
  have "set (to_string i) \<inter> delims = {}" for i
    using to_string_chars [of _ i] by (auto simp: delims_def is_digit_def digits_def)
  then show ?thesis by (cases w) (auto simp: numbered_def delims_def)
qed

lemma rfold_pairs:
  "rfold (\<lambda>i. rfold (f i) (pairs ! i)) is s = rfold (\<lambda>(i, p). f i p) (concat (map (\<lambda>i. map (Pair i) (pairs ! i)) is)) s"
proof (induction "is" arbitrary: s)
  case Nil
  then show ?case by simp
next
  case (Cons i "is")
  have "rfold (f i) xs t = rfold (\<lambda>(i, p). f i p) (map (Pair i) xs) t" for xs t
    by (induction xs arbitrary: t) (auto intro!: arg_cong2 [where f = rbind])
  then show ?case using Cons by (auto simp: rfold_append intro!: arg_cong2 [where f = rbind])
qed

lemma rfold_flat: "rfold (\<lambda>i. rfold (f i) (pairs ! i)) [0..<length pairs] s = rfold (\<lambda>(i, p). f i p) (flat_pairs pairs) s"
  unfolding flat_pairs_def by (rule rfold_pairs)

lemma put_wires_simps [simp]: "put_wires [] c = c" "put_wires ((p, w) # ps) c = put_wires ps (c[nat p := w])"
  "length (put_wires ps c) = length c"
proof -
  show "length (put_wires ps c) = length c" by (induction ps arbitrary: c) (auto simp: put_wires_def)
qed (simp_all add: put_wires_def)

lemma map_put_wires: "map f (put_wires ps c) = put_wires (map (\<lambda>(p, w). (p, f w)) ps) (map f c)"
  by (induction ps arbitrary: c) (auto simp: map_update)

lemma connect_inputs_ok:
  assumes "\<forall>(i, p) \<in> set ps. in_range neg p \<and> in_range c p"
  shows "rfold (\<lambda>(i, p). connect_input neg i p) ps (ops, c, k) =
     Inr (ops @ map show_gate (in_gates neg k ps), put_wires (map (\<lambda>(p, w). (p, show_wire w)) (in_wires neg k ps)) c,
          k + length (in_gates neg k ps))"
  using assms
proof (induction ps arbitrary: ops c k)
  case Nil
  then show ?case by simp
next
  case (Cons x ps)
  obtain i p where x: "x = (i, p)" by (cases x)
  have "in_range neg p" "in_range c p" using Cons.prems by (auto simp: x)
  then show ?case using Cons by (cases "neg ! nat p") (simp_all add: x connect_input_def Let_def)
qed

lemma connect_consts_ok:
  assumes "\<forall>(b, p) \<in> set cs. in_range c p"
  shows "connect_consts cs c = Inr (put_wires (map (\<lambda>(b, p). (p, show_wire (W_const b))) cs) c)"
  using assms
proof (induction cs arbitrary: c)
  case Nil
  then show ?case by (simp add: connect_consts_def)
next
  case (Cons x cs)
  then show ?case by (cases x) (simp add: connect_consts_def)
qed

lemma compare_outputs_ok:
  assumes "\<forall>(i, p) \<in> set ps. in_range neg p"
  shows "rfold (\<lambda>(i, p). compare_output m neg i p) ps (ops, k) =
     Inr (ops @ map show_gate (out_gates m neg k ps), k + length ps)"
  using assms
proof (induction ps arbitrary: ops k)
  case Nil
  then show ?case by (simp add: out_gates_def)
next
  case (Cons x ps)
  obtain i p where x: "x = (i, p)" by (cases x)
  have "zip [0..<Suc (length ps)] (x # ps) = (0, x) # map (\<lambda>(j, y). (Suc j, y)) (zip [0..<length ps] ps)"
    by (simp add: upt_rec [of 0] map_Suc_upt [symmetric] zip_map1 del: upt_Suc)
  then have "out_gates m neg k (x # ps) = Xor_gate (neg ! nat p) (W_n k) (W_o i) (W_o (m + nat p)) # out_gates m neg (Suc k) ps"
    by (auto simp: out_gates_def x simp del: upt_Suc)
  then show ?case using Cons by (simp add: x compare_output_def Let_def)
qed

section \<open>Reading the circuits\<close>

lemma filter_ports:
  assumes "\<forall>p \<in> set ps. name_ok p" "ps \<noteq> []"
  shows "filter (\<lambda>c. c \<noteq> CHR '' '') (concat (map (\<lambda>p. p @ '', '') (butlast ps)) @ last ps @ '');'') = header_text (connected [] ps)"
  using assms
proof (induction ps)
  case Nil
  then show ?case by simp
next
  case (Cons p ps)
  have f: "filter (\<lambda>c. c \<noteq> CHR '' '') p = p" if "name_ok p" for p
    using that by (auto simp: name_ok_def delims_def filter_id_conv)
  show ?case
  proof (cases "ps = []")
    case True
    then show ?thesis using Cons.prems f by (simp add: connected_def header_text_def)
  next
    case False
    then obtain q qs where "ps = q # qs" by (cases ps) auto
    then show ?thesis using Cons f by (simp add: connected_def header_text_def)
  qed
qed

lemma prefix_at: "prefix p s \<Longrightarrow> find_sub p s = Some 0"
  by (cases s) auto

lemma header_line_find: "find_sub ''module'' (header_line name ps) = Some 0"
  by (rule prefix_at) (simp add: header_line_def)

lemma find_char_split: "c \<notin> set xs \<Longrightarrow> find_char c (xs @ c # ys) = Some (length xs)"
  by (simp add: find_char_def takeWhile_until)

lemma header_parts:
  assumes "CHR ''('' \<notin> set name"
  shows "header_name (header_line name ps) = CHR '' '' # name"
    and "ports_ok_text ps \<Longrightarrow> header_ports (header_line name ps) = header_text (connected [] ps)"
proof -
  have "find_char CHR ''('' ((''module '' @ name) @ CHR ''('' # concat (map (\<lambda>p. p @ '', '') (butlast ps)) @ last ps @ '');'') =
     Some (length (''module '' @ name))"
    by (rule find_char_split) (use assms in simp)
  then have f: "find_char CHR ''('' (header_line name ps) = Some (7 + length name)" by (simp add: header_line_def)
  then show "header_name (header_line name ps) = CHR '' '' # name" by (simp add: header_name_def header_line_def)
  let ?T = "concat (map (\<lambda>p. p @ '', '') (butlast ps)) @ last ps @ '');''"
  have "header_line name ps = (''module '' @ name @ ''('') @ ?T" by (simp add: header_line_def)
  then have "drop (length (''module '' @ name @ ''('')) (header_line name ps) = ?T" by (metis append_eq_conv_conj)
  then have "drop (7 + length name + 1) (header_line name ps) = ?T" by (simp add: numeral_eq_Suc)
  then show "header_ports (header_line name ps) = header_text (connected [] ps)" if "ports_ok_text ps"
    using f filter_ports [of ps] that unfolding header_ports_def ports_ok_text_def by simp
qed

lemma header_line_facts:
  assumes "circuit_ok f"
  shows "newline \<notin> set (header_line (cf_name f) (cf_ports f))" "CHR '';'' \<in> set (header_line (cf_name f) (cf_ports f))"
  using assms by (auto simp: circuit_ok_def header_line_def ports_ok_text_def dest: in_set_butlastD)

lemma more_lines_done: "CHR '';'' \<in> set l \<Longrightarrow> more_lines l item ifs = Inr (l, ifs)"
  by (simp add: more_lines.simps [of l])

lemma call_module_ok:
  assumes ok: "circuit_ok f" and conns: "distinct (map fst cs)" "\<forall>(p, w) \<in> set cs. p \<in> set (cf_ports f)"
  shows "call_module what (Inr (show_conns cs)) '''' '''' (stream_of (show_circuit (cf_name f) f)) =
     Inr (CHR '' '' # cf_name f, show_call what (cf_ports f) cs)"
proof -
  let ?hd = "header_line (cf_name f) (cf_ports f)"
  let ?rest = "concat (map (\<lambda>l. l @ endl) (cf_body f)) @ ''endmodule'' @ endl"
  have g: "getline newline '''' (stream_of (show_circuit (cf_name f) f)) = (True, ?hd, stream_of ?rest)"
    using getline_split [OF header_line_facts(1) [OF ok], of "''''" ?rest] by (simp add: show_circuit_def endl_def)
  have ports: "ports_ok_text (cf_ports f)" "CHR ''('' \<notin> set (cf_name f)" using ok by (auto simp: circuit_ok_def)
  have "connect_ports (show_conns cs) (header_text (connected [] (cf_ports f))) = header_text (connected (show_conns cs) (cf_ports f))"
    by (rule connect_ports_ok [OF ports(1)])
      (use conns show_wire_delims in \<open>auto simp: show_conns_def o_def case_prod_beta\<close>)
  then show ?thesis using header_line_facts(2) [OF ok] header_parts [OF ports(2)] ports(1)
    by (simp add: call_module.simps [of what] g more_lines_done header_line_find show_call_def)
qed

lemma copy_body_ok:
  assumes "\<forall>l \<in> set body. CHR '';'' \<in> set l \<and> newline \<notin> set l \<and> find_sub ''module'' l = None \<and> find_sub ''endmodule'' l = None"
  shows "copy_module new name l0 (stream_of (concat (map (\<lambda>l. l @ endl) body) @ ''endmodule'' @ endl)) =
     Inr (concat (map (\<lambda>l. l @ endl) body) @ ''endmodule'' @ endl)"
  using assms
proof (induction body arbitrary: l0)
  case Nil
  have "getline newline l0 (stream_of (''endmodule'' @ newline # [])) = (True, ''endmodule'', stream_of [])"
    by (rule getline_split) simp
  then show ?case by (simp add: copy_module.simps [of new] endl_def)
next
  case (Cons l body)
  have "getline newline l0 (stream_of (l @ newline # (concat (map (\<lambda>l. l @ endl) body) @ ''endmodule'' @ endl))) =
     (True, l, stream_of (concat (map (\<lambda>l. l @ endl) body) @ ''endmodule'' @ endl))"
    by (rule getline_split) (use Cons.prems in simp)
  then show ?case using Cons by (subst copy_module.simps) (simp add: more_lines_done endl_def)
qed

lemma copy_module_ok:
  assumes ok: "circuit_ok f"
  shows "copy_module (CHR '' '' # new) (CHR '' '' # cf_name f) '''' (stream_of (show_circuit (cf_name f) f)) = Inr (show_circuit new f)"
proof -
  define hd where "hd = header_line (cf_name f) (cf_ports f)"
  define rest where "rest = concat (map (\<lambda>l. l @ endl) (cf_body f)) @ ''endmodule'' @ endl"
  have g: "getline newline '''' (stream_of (show_circuit (cf_name f) f)) = (True, hd, stream_of rest)"
    using getline_split [OF header_line_facts(1) [OF ok], of "''''" rest] by (simp add: show_circuit_def endl_def hd_def rest_def)
  have body: "copy_module (CHR '' '' # new) (CHR '' '' # cf_name f) hd (stream_of rest) = Inr rest"
    unfolding rest_def by (rule copy_body_ok) (use ok in \<open>simp add: circuit_ok_def\<close>)
  have "find_sub ''endmodule'' hd = None" "CHR '';'' \<in> set hd" "find_sub ''module'' hd = Some 0"
    using ok header_line_facts(2) [OF ok] header_line_find by (simp_all add: circuit_ok_def hd_def)
  then have "copy_module (CHR '' '' # new) (CHR '' '' # cf_name f) '''' (stream_of (show_circuit (cf_name f) f)) =
     Inr ((take 6 hd @ (CHR '' '' # new) @ drop (Suc (6 + length (cf_name f))) hd) @ endl @ rest)"
    by (subst copy_module.simps) (simp add: g more_lines_done body)
  moreover have "take 6 hd @ (CHR '' '' # new) @ drop (Suc (6 + length (cf_name f))) hd = header_line new (cf_ports f)"
    by (simp add: header_line_def hd_def numeral_eq_Suc)
  ultimately show ?thesis by (simp add: show_circuit_def rest_def)
qed

section \<open>The text of the miter\<close>

definition match_ok :: "nat \<Rightarrow> nat \<Rightarrow> nat \<Rightarrow> nat \<Rightarrow> int list list \<Rightarrow> bool list \<Rightarrow> int list list \<Rightarrow> bool list \<Rightarrow> (bool \<times> int) list \<Rightarrow> bool" where
  "match_ok n1 n2 m1 m2 in_pairs in_neg out_pairs out_neg consts \<longleftrightarrow>
     length in_pairs = n1 \<and> length in_neg = n2 \<and> length out_pairs = m1 \<and> length out_neg = m2 \<and>
     (\<forall>xs \<in> set in_pairs. \<forall>p \<in> set xs. 0 \<le> p \<and> p < int n2) \<and> (\<forall>xs \<in> set out_pairs. \<forall>p \<in> set xs. 0 \<le> p \<and> p < int m2) \<and>
     (\<forall>(b, p) \<in> set consts. 0 \<le> p \<and> p < int n2)"

definition port_names_ok :: "(addr \<Rightarrow> node) \<Rightarrow> addr list \<Rightarrow> addr list \<Rightarrow> circuit_file \<Rightarrow> bool" where
  "port_names_ok h input output f \<longleftrightarrow> distinct (names_of h input @ names_of h output) \<and>
     set (names_of h input @ names_of h output) = set (cf_ports f)"

lemma flat_pairs_range:
  assumes "\<forall>xs \<in> set pairs. \<forall>p \<in> set xs. 0 \<le> p \<and> p < int n" "(i, p) \<in> set (flat_pairs pairs)"
  shows "0 \<le> p \<and> p < int n \<and> i < length pairs \<and> p \<in> set (pairs ! i)"
  using assms by (auto simp: flat_pairs_def)

lemma in_flat_pairs: "(i, p) \<in> set (flat_pairs pairs) \<longleftrightarrow> i < length pairs \<and> p \<in> set (pairs ! i)"
  by (auto simp: flat_pairs_def)

lemma map_fst_zip_eq: "length xs = length ys \<Longrightarrow> map fst (zip xs ys) = xs"
  by simp

lemma show_conns_zip: "zip xs (map show_wire ws) = show_conns (zip xs ws)"
  by (simp add: show_conns_def zip_map2)

lemma show_conns_append [simp]: "show_conns (xs @ ys) = show_conns xs @ show_conns ys"
  by (simp add: show_conns_def)

lemma wires2_text:
  "put_wires (map (\<lambda>(b, p). (p, show_wire (W_const b))) consts) (put_wires (map (\<lambda>(p, w). (p, show_wire w)) ps) (replicate n '''')) =
     map show_wire (put_wires (map (\<lambda>(b, p). (p, W_const b)) consts) (put_wires ps (replicate n W_none)))"
  by (simp add: map_put_wires o_def split_def del: show_wire.simps(5))

lemma or_all_gate: "or_all s t = show_gate (Or_gate W_out (map W_n [s..<t]))"
  by (simp add: or_all_def comma_list_def o_def)

lemma miter_text_ok:
  assumes ok: "circuit_ok f1" "circuit_ok f2" and names: "port_names_ok h input1 output1 f1" "port_names_ok h input2 output2 f2"
    and m: "match_ok (length input1) (length input2) (length output1) (length output2) in_pairs in_neg out_pairs out_neg consts"
  shows "miter_text h (show_circuit (cf_name f1) f1) (show_circuit (cf_name f2) f2) input1 input2 output1 output2
      in_pairs in_neg out_pairs out_neg consts =
    Inr (show_miter (miter_of h input1 input2 output1 output2 in_pairs in_neg out_pairs out_neg consts) f1 f2)"
proof -
  let ?M = "miter_of h input1 input2 output1 output2 in_pairs in_neg out_pairs out_neg consts"
  let ?n2 = "length input2"
  let ?ps = "in_wires in_neg 0 (flat_pairs in_pairs)"
  let ?nots = "in_gates in_neg 0 (flat_pairs in_pairs)"
  let ?t = "length ?nots + length (flat_pairs out_pairs)"
  let ?w2 = "wires2 ?n2 in_pairs in_neg consts"
  have len: "length in_pairs = length input1" "length out_pairs = length output1" "length ?w2 = ?n2"
    using m by (auto simp: match_ok_def wires2_def)
  have 1: "connect_inputs in_pairs in_neg ([], replicate ?n2 '''', 0) =
     Inr (map show_gate ?nots, put_wires (map (\<lambda>(p, w). (p, show_wire w)) ?ps) (replicate ?n2 ''''), length ?nots)"
  proof -
    have "\<forall>(i, p) \<in> set (flat_pairs in_pairs). in_range in_neg p \<and> in_range (replicate ?n2 '''' :: string list) p"
      using flat_pairs_range [of in_pairs ?n2] m by (auto simp: match_ok_def in_range_def)
    from connect_inputs_ok [OF this, of "[]" 0] show ?thesis by (simp add: connect_inputs_def rfold_flat)
  qed
  have 2: "connect_consts consts (put_wires (map (\<lambda>(p, w). (p, show_wire w)) ?ps) (replicate ?n2 '''')) = Inr (map show_wire ?w2)"
    using connect_consts_ok [of "consts"] m wires2_text [of "consts" ?ps ?n2] by (auto simp: match_ok_def in_range_def wires2_def)
  have 3: "compare_outputs out_pairs out_neg ([], length ?nots) =
     Inr (map show_gate (out_gates (length out_pairs) out_neg (length ?nots) (flat_pairs out_pairs)), ?t)"
  proof -
    have "\<forall>(i, p) \<in> set (flat_pairs out_pairs). in_range out_neg p"
      using flat_pairs_range [of out_pairs "length output2"] m by (auto simp: match_ok_def in_range_def)
    from compare_outputs_ok [OF this] show ?thesis by (simp add: compare_outputs_def rfold_flat)
  qed
  have n1: "length (names_of h xs) = length xs" for xs by (simp add: names_of_def)
  have p1: "both_ports (port_signals h input1 (map (numbered ''in'') [0..<length in_pairs]))
      (port_signals h output1 (map (numbered ''o'') [0..<length out_pairs])) = Inr (show_conns (vm_in1 ?M @ vm_out1 ?M))"
    using len by (simp add: both_ports_def port_signals_def miter_of_def Let_def show_conns_zip [symmetric] o_def)
  have p2: "both_ports (port_signals h input2 (map show_wire ?w2))
      (port_signals h output2 (map (\<lambda>i. numbered ''o'' (i + length out_pairs)) [0..<length output2])) = Inr (show_conns (vm_in2 ?M @ vm_out2 ?M))"
    using len by (simp add: both_ports_def port_signals_def miter_of_def Let_def show_conns_zip [symmetric] o_def)
  have f1: "map fst (vm_in1 ?M @ vm_out1 ?M) = names_of h input1 @ names_of h output1"
    and f2: "map fst (vm_in2 ?M @ vm_out2 ?M) = names_of h input2 @ names_of h output2"
    using len n1 by (simp_all add: miter_of_def Let_def)
  have sub: "\<forall>(p, w) \<in> set cs. p \<in> A" if "set (map fst cs) = A" for cs :: conns and A using that by force
  have c1: "call_module what (Inr (show_conns (vm_in1 ?M @ vm_out1 ?M))) '''' '''' (stream_of (show_circuit (cf_name f1) f1)) =
     Inr (CHR '' '' # cf_name f1, show_call what (cf_ports f1) (vm_in1 ?M @ vm_out1 ?M))" for what
    by (rule call_module_ok [OF ok(1)]) (use names(1) f1 sub [of "vm_in1 ?M @ vm_out1 ?M", OF refl] in \<open>simp_all only: port_names_ok_def\<close>)
  have c2: "call_module what (Inr (show_conns (vm_in2 ?M @ vm_out2 ?M))) '''' '''' (stream_of (show_circuit (cf_name f2) f2)) =
     Inr (CHR '' '' # cf_name f2, show_call what (cf_ports f2) (vm_in2 ?M @ vm_out2 ?M))" for what
    by (rule call_module_ok [OF ok(2)]) (use names(2) f2 sub [of "vm_in2 ?M @ vm_out2 ?M", OF refl] in \<open>simp_all only: port_names_ok_def\<close>)
  have l: "length (out_gates m neg k ps) = length ps" for m neg k ps by (simp add: out_gates_def)
  have parts: "vm_inputs ?M = length in_pairs" "vm_wires ?M = ?t" "vm_outs ?M = length out_pairs + length output2" "vm_nots ?M = ?nots"
    "map show_gate (vm_xors ?M) = map show_gate (out_gates (length out_pairs) out_neg (length ?nots) (flat_pairs out_pairs)) @ [or_all (length ?nots) ?t]"
    by (simp_all add: miter_of_def Let_def l or_all_gate)
  show ?thesis
    unfolding miter_text_def Let_def 1 2 3 p1 p2 c1 c2 copy_module_ok [OF ok(1)] copy_module_ok [OF ok(2)] rbind_Inr prod.case show_miter_def parts
    by simp
qed

section \<open>Its models\<close>

lemma length_out_gates [simp]: "length (out_gates m neg k ps) = length ps"
  by (simp add: out_gates_def)

lemma nth_out_gates:
  "j < length ps \<Longrightarrow> out_gates m neg k ps ! j =
     Xor_gate (neg ! nat (snd (ps ! j))) (W_n (k + j)) (W_o (fst (ps ! j))) (W_o (m + nat (snd (ps ! j))))"
  by (simp add: out_gates_def split_def)



lemma nth_put_wires:
  assumes "distinct (map fst ps)" "\<forall>(p, w) \<in> set ps. 0 \<le> p" and "j < length c"
  shows "put_wires ps c ! j = (case map_of ps (int j) of None \<Rightarrow> c ! j | Some w \<Rightarrow> w)"
  using assms
proof (induction ps arbitrary: c)
  case Nil
  then show ?case by simp
next
  case (Cons x ps)
  obtain p w where x: "x = (p, w)" by (cases x)
  have "map_of ps p = None" using Cons.prems(1) by (simp add: x map_of_eq_None_iff)
  moreover have "nat p = j \<longleftrightarrow> p = int j" using Cons.prems(2) by (auto simp: x)
  ultimately show ?case using Cons by (auto simp: x nth_list_update nth_list_update_neq split: option.split)
qed

lemma fst_in_wires: "map fst (in_wires neg k ps) = map snd ps"
proof (induction ps arbitrary: k)
  case (Cons x ps)
  then show ?case by (cases x) auto
qed simp

lemma in_wires_val:
  assumes "\<forall>g \<in> set (in_gates neg k ps). gate_holds \<rho> g" and "(p, w) \<in> set (in_wires neg k ps)"
  shows "\<exists>i. (i, p) \<in> set ps \<and> \<rho> w = (\<rho> (W_in i) \<noteq> neg ! nat p)"
  using assms
proof (induction ps arbitrary: k)
  case Nil
  then show ?case by simp
next
  case (Cons x ps)
  then show ?case by (cases x) (auto split: if_splits; blast)
qed

text \<open>The inputs of circuit 2 under the values \<open>x\<close> of the inputs of the miter.\<close>

definition induced :: "int list list \<Rightarrow> bool list \<Rightarrow> (bool \<times> int) list \<Rightarrow> (nat \<Rightarrow> bool) \<Rightarrow> nat \<Rightarrow> bool" where
  "induced in_pairs in_neg consts x q =
     (case map_of (map (\<lambda>(b, p). (p, b)) consts) (int q) of
        Some b \<Rightarrow> b
      | None \<Rightarrow> (case map_of (map (\<lambda>(i, p). (p, i)) (flat_pairs in_pairs)) (int q) of
                  Some i \<Rightarrow> x i \<noteq> in_neg ! q
                | None \<Rightarrow> False))"

text \<open>Every input of circuit 2 is matched once, to an input or a constant.\<close>

definition all_matched :: "nat \<Rightarrow> int list list \<Rightarrow> (bool \<times> int) list \<Rightarrow> bool" where
  "all_matched n2 in_pairs consts \<longleftrightarrow> distinct (map snd (flat_pairs in_pairs) @ map snd consts) \<and>
     (\<forall>q < n2. int q \<in> set (map snd (flat_pairs in_pairs) @ map snd consts))"

lemma wires2_val:
  assumes m: "match_ok n1 n2 m1 m2 in_pairs in_neg out_pairs out_neg consts" and all: "all_matched n2 in_pairs consts"
    and \<rho>: "\<forall>b. \<rho> (W_const b) = b" "\<forall>g \<in> set (in_gates in_neg 0 (flat_pairs in_pairs)). gate_holds \<rho> g" and q: "q < n2"
  shows "\<rho> (wires2 n2 in_pairs in_neg consts ! q) = induced in_pairs in_neg consts (\<lambda>i. \<rho> (W_in i)) q"
proof -
  let ?cs = "map (\<lambda>(b, p). (p, W_const b)) consts" and ?ps = "in_wires in_neg 0 (flat_pairs in_pairs)"
  have dist: "distinct (map fst ?cs)" "distinct (map fst ?ps)"
    using all by (simp_all add: all_matched_def fst_in_wires o_def split_def)
  have pos: "\<forall>(p, w) \<in> set ?cs. 0 \<le> p" using m by (auto simp: match_ok_def)
  have pos2: "\<forall>(p, w) \<in> set ?ps. 0 \<le> p"
  proof (clarify)
    fix p w assume "(p, w) \<in> set ?ps"
    then have "p \<in> set (map snd (flat_pairs in_pairs))" using fst_in_wires [of in_neg 0 "flat_pairs in_pairs"] by (metis fst_conv image_eqI list.set_map)
    then show "0 \<le> p" using m flat_pairs_range [of in_pairs n2] by (auto simp: match_ok_def)
  qed
  have nth: "wires2 n2 in_pairs in_neg consts ! q = (case map_of ?cs (int q) of Some w \<Rightarrow> w |
      None \<Rightarrow> (case map_of ?ps (int q) of None \<Rightarrow> W_none | Some w \<Rightarrow> w))"
    using q by (simp add: wires2_def nth_put_wires [OF dist(1) pos] nth_put_wires [OF dist(2) pos2] split: option.split)
  have cs: "map_of ?cs p = map_option W_const (map_of (map (\<lambda>(b, p). (p, b)) consts) p)" for p
    by (induction "consts") auto
  show ?thesis
  proof (cases "map_of (map (\<lambda>(b, p). (p, b)) consts) (int q)")
    case (Some b)
    then show ?thesis using \<rho>(1) by (simp add: nth cs induced_def)
  next
    case None
    then have "int q \<notin> snd ` set consts" by (auto simp: map_of_eq_None_iff image_iff split_def)
    then have "int q \<in> set (map fst ?ps)" using all q by (auto simp: all_matched_def fst_in_wires)
    then obtain w where w: "map_of ?ps (int q) = Some w" by (metis list.set_map map_of_eq_None_iff option.exhaust)
    obtain i where i: "(i, int q) \<in> set (flat_pairs in_pairs)" "\<rho> w = (\<rho> (W_in i) \<noteq> in_neg ! q)"
      using in_wires_val [OF \<rho>(2) map_of_SomeD [OF w]] by auto
    have "map_of (map (\<lambda>(i, p). (p, i)) (flat_pairs in_pairs)) (int q) = Some i"
    proof (rule map_of_is_SomeI)
      show "distinct (map fst (map (\<lambda>(i, p). (p, i)) (flat_pairs in_pairs)))" using all by (simp add: all_matched_def o_def split_def)
      show "(int q, i) \<in> set (map (\<lambda>(i, p). (p, i)) (flat_pairs in_pairs))" using i(1) by (force simp: image_iff)
    qed
    then show ?thesis using None w i(2) by (simp add: nth cs induced_def)
  qed
qed

text \<open>The output of the miter in a model.\<close>

lemma out_val:
  assumes "\<forall>g \<in> set (out_gates m neg s ps @ [Or_gate W_out (map W_n [s..<s + length ps])]). gate_holds \<rho> g"
  shows "\<rho> W_out \<longleftrightarrow> (\<exists>(i, p) \<in> set ps. (\<rho> (W_o i) \<noteq> \<rho> (W_o (m + nat p))) \<noteq> neg ! nat p)"
proof -
  have "\<rho> (W_n (s + j)) = ((\<rho> (W_o (fst (ps ! j))) \<noteq> \<rho> (W_o (m + nat (snd (ps ! j))))) \<noteq> neg ! nat (snd (ps ! j)))"
    if "j < length ps" for j
  proof -
    have "out_gates m neg s ps ! j \<in> set (out_gates m neg s ps)" using that by simp
    then have "gate_holds \<rho> (out_gates m neg s ps ! j)" using assms by simp
    then show ?thesis by (simp add: nth_out_gates that)
  qed
  note val = this
  have "\<rho> W_out \<longleftrightarrow> (\<exists>k \<in> {s..<s + length ps}. \<rho> (W_n k))" using assms by simp
  also have "\<dots> \<longleftrightarrow> (\<exists>j < length ps. \<rho> (W_n (s + j)))"
  proof
    assume "\<exists>k \<in> {s..<s + length ps}. \<rho> (W_n k)"
    then obtain k where "s \<le> k" "k < s + length ps" "\<rho> (W_n k)" by auto
    then show "\<exists>j < length ps. \<rho> (W_n (s + j))" by (intro exI [of _ "k - s"]) auto
  qed auto
  also have "\<dots> \<longleftrightarrow> (\<exists>(i, p) \<in> set ps. (\<rho> (W_o i) \<noteq> \<rho> (W_o (m + nat p))) \<noteq> neg ! nat p)"
  proof
    assume "\<exists>j < length ps. \<rho> (W_n (s + j))"
    then obtain j where "j < length ps" "\<rho> (W_n (s + j))" by blast
    then show "\<exists>(i, p) \<in> set ps. (\<rho> (W_o i) \<noteq> \<rho> (W_o (m + nat p))) \<noteq> neg ! nat p"
      using val [of j] by (intro bexI [of _ "ps ! j"]) (simp_all add: split_def)
  next
    assume "\<exists>(i, p) \<in> set ps. (\<rho> (W_o i) \<noteq> \<rho> (W_o (m + nat p))) \<noteq> neg ! nat p"
    then obtain y where y: "y \<in> set ps" "(\<rho> (W_o (fst y)) \<noteq> \<rho> (W_o (m + nat (snd y)))) \<noteq> neg ! nat (snd y)"
      by (auto simp: split_def)
    then obtain j where "j < length ps" "ps ! j = y" by (auto simp: in_set_conv_nth)
    with y(2) have "j < length ps" "(\<rho> (W_o (fst (ps ! j))) \<noteq> \<rho> (W_o (m + nat (snd (ps ! j))))) \<noteq> neg ! nat (snd (ps ! j))"
      by blast+
    then show "\<exists>j < length ps. \<rho> (W_n (s + j))" using val [of j] by (intro exI [of _ j] conjI) simp_all
  qed
  finally show ?thesis .
qed

text \<open>Every assignment of the inputs extends to a model.\<close>

fun not_vals :: "(nat \<Rightarrow> bool) \<Rightarrow> vgate list \<Rightarrow> bool list" where
  "not_vals x [] = []"
| "not_vals x (Not_gate z (W_in i) # gs) = (\<not> x i) # not_vals x gs"
| "not_vals x (g # gs) = False # not_vals x gs"

lemma in_gates_model:
  assumes "\<forall>j < length (in_gates neg k ps). \<rho> (W_n (k + j)) = not_vals x (in_gates neg k ps) ! j" and "\<forall>i. \<rho> (W_in i) = x i"
  shows "\<forall>g \<in> set (in_gates neg k ps). gate_holds \<rho> g"
  using assms
proof (induction ps arbitrary: k)
  case Nil
  then show ?case by simp
next
  case (Cons y ps)
  obtain i p where y: "y = (i, p)" by (cases y)
  show ?case
  proof (cases "neg ! nat p")
    case True
    have "\<rho> (W_n k) = (\<not> x i)" using Cons.prems(1) True by (simp add: y) (metis add_0_right nth_Cons_0 zero_less_Suc)
    moreover have "\<forall>j < length (in_gates neg (Suc k) ps). \<rho> (W_n (Suc k + j)) = not_vals x (in_gates neg (Suc k) ps) ! j"
      using Cons.prems(1) True by (auto simp: y dest: spec [of _ "Suc _"])
    ultimately show ?thesis using Cons.IH [of "Suc k"] Cons.prems(2) True by (simp add: y)
  next
    case False
    then show ?thesis using Cons by (simp add: y)
  qed
qed

definition model_of :: "(nat \<Rightarrow> bool) \<Rightarrow> (nat \<Rightarrow> bool) \<Rightarrow> bool list \<Rightarrow> nat \<Rightarrow> bool list \<Rightarrow> nat \<Rightarrow> (nat \<times> int) list \<Rightarrow> wire \<Rightarrow> bool" where
  "model_of x v nv m neg s ps w =
     (let xv = \<lambda>j. (v (fst (ps ! j)) \<noteq> v (m + nat (snd (ps ! j)))) \<noteq> neg ! nat (snd (ps ! j))
      in case w of
           W_in i \<Rightarrow> x i | W_o i \<Rightarrow> v i | W_const b \<Rightarrow> b | W_none \<Rightarrow> False
         | W_n k \<Rightarrow> if k < s then nv ! k else xv (k - s)
         | W_out \<Rightarrow> (\<exists>j < length ps. xv j))"

lemma model_gates:
  assumes "nots = in_gates in_neg 0 ips" and "s = length nots" and "\<rho> = model_of x v (not_vals x nots) m neg s ps"
  shows "\<forall>g \<in> set nots. gate_holds \<rho> g"
    "\<forall>g \<in> set (out_gates m neg s ps @ [Or_gate W_out (map W_n [s..<s + length ps])]). gate_holds \<rho> g"
proof -
  show "\<forall>g \<in> set nots. gate_holds \<rho> g"
    unfolding assms(1) by (rule in_gates_model [where x = x]) (simp_all add: assms model_of_def)
  have "gate_holds \<rho> (out_gates m neg s ps ! j)" if "j < length ps" for j
    by (simp add: nth_out_gates that assms(3) model_of_def Let_def)
  then have outs: "\<forall>g \<in> set (out_gates m neg s ps). gate_holds \<rho> g" by (metis in_set_conv_nth length_out_gates)
  have "(\<exists>j < length ps. \<rho> (W_n (s + j))) \<longleftrightarrow> (\<exists>k \<in> {s..<s + length ps}. \<rho> (W_n k))"
  proof
    assume "\<exists>k \<in> {s..<s + length ps}. \<rho> (W_n k)"
    then obtain k where "s \<le> k" "k < s + length ps" "\<rho> (W_n k)" by auto
    then show "\<exists>j < length ps. \<rho> (W_n (s + j))" by (intro exI [of _ "k - s"]) auto
  qed auto
  moreover have "\<rho> W_out \<longleftrightarrow> (\<exists>j < length ps. \<rho> (W_n (s + j)))" by (simp add: assms(3) model_of_def Let_def)
  ultimately show "\<forall>g \<in> set (out_gates m neg s ps @ [Or_gate W_out (map W_n [s..<s + length ps])]). gate_holds \<rho> g"
    using outs by auto
qed

section \<open>The models are the differences\<close>

definition port_env :: "string list \<Rightarrow> bool list \<Rightarrow> string \<Rightarrow> bool" where
  "port_env names vals s = (case map_of (zip names vals) s of None \<Rightarrow> False | Some b \<Rightarrow> b)"

lemma conn_val_zip: "conn_val \<rho> (zip names ws) = port_env names (map \<rho> ws)"
proof -
  have "map_of (zip names (map \<rho> ws)) s = map_option \<rho> (map_of (zip names ws) s)" for s
  proof (induction names arbitrary: ws)
    case (Cons a names)
    then show ?case by (cases ws) auto
  qed simp
  then show ?thesis by (simp add: conn_val_def port_env_def fun_eq_iff split: option.split)
qed

lemma all_zip: "length xs = length ys \<Longrightarrow> (\<forall>(z, w) \<in> set (zip xs ys). P z w) \<longleftrightarrow> (\<forall>i < length ys. P (xs ! i) (ys ! i))"
  by (auto simp: set_zip)

text \<open>Whether some matched outputs differ, up to the negation, when the inputs of circuit 1 have the values \<open>x\<close>.\<close>

definition outputs_differ ::
  "(addr \<Rightarrow> node) \<Rightarrow> addr list \<Rightarrow> addr list \<Rightarrow> addr list \<Rightarrow> addr list \<Rightarrow> circuit_fun \<Rightarrow> circuit_fun \<Rightarrow>
   int list list \<Rightarrow> bool list \<Rightarrow> int list list \<Rightarrow> bool list \<Rightarrow> (bool \<times> int) list \<Rightarrow> (nat \<Rightarrow> bool) \<Rightarrow> bool" where
  "outputs_differ h input1 input2 output1 output2 F1 F2 in_pairs in_neg out_pairs out_neg consts x \<longleftrightarrow>
     (\<exists>(i, p) \<in> set (flat_pairs out_pairs).
        (F1 (port_env (names_of h input1) (map x [0..<length input1])) (names_of h output1 ! i) \<noteq>
         F2 (port_env (names_of h input2) (map (induced in_pairs in_neg consts x) [0..<length input2])) (names_of h output2 ! nat p)) \<noteq>
        out_neg ! nat p)"

lemma models_differ:
  assumes m: "match_ok (length input1) (length input2) (length output1) (length output2) in_pairs in_neg out_pairs out_neg consts"
    and all: "all_matched (length input2) in_pairs consts"
  shows "(\<exists>\<rho>. miter_model (miter_of h input1 input2 output1 output2 in_pairs in_neg out_pairs out_neg consts) F1 F2 \<rho> \<and> \<rho> W_out) \<longleftrightarrow>
    (\<exists>x. outputs_differ h input1 input2 output1 output2 F1 F2 in_pairs in_neg out_pairs out_neg consts x)"
proof -
  let ?M = "miter_of h input1 input2 output1 output2 in_pairs in_neg out_pairs out_neg consts"
  let ?nots = "in_gates in_neg 0 (flat_pairs in_pairs)" and ?s = "length (in_gates in_neg 0 (flat_pairs in_pairs))"
  let ?ops = "flat_pairs out_pairs" and ?n1 = "length input1" and ?n2 = "length input2" and ?m1 = "length output1" and ?m2 = "length output2"
  let ?xors = "out_gates ?m1 out_neg ?s ?ops @ [Or_gate W_out (map W_n [?s..<?s + length ?ops])]"
  let ?o1 = "names_of h output1" and ?o2 = "names_of h output2"
  define e1 where "e1 x = port_env (names_of h input1) (map x [0..<?n1])" for x
  define e2 where "e2 x = port_env (names_of h input2) (map (induced in_pairs in_neg consts x) [0..<?n2])" for x
  have len: "length in_pairs = ?n1" "length out_pairs = ?m1" using m by (auto simp: match_ok_def)
  have nl: "length (names_of h xs) = length xs" for xs by (simp add: names_of_def)
  have model: "miter_model ?M F1 F2 \<rho> \<longleftrightarrow> (\<forall>b. \<rho> (W_const b) = b) \<and> (\<forall>g \<in> set ?nots. gate_holds \<rho> g) \<and> (\<forall>g \<in> set ?xors. gate_holds \<rho> g) \<and>
      (\<forall>i < ?m1. \<rho> (W_o i) = F1 (e1 (\<lambda>i. \<rho> (W_in i))) (?o1 ! i)) \<and> (\<forall>i < ?m2. \<rho> (W_o (i + ?m1)) = F2 (e2 (\<lambda>i. \<rho> (W_in i))) (?o2 ! i))" for \<rho>
  proof -
    have 1: "conn_val \<rho> (vm_in1 ?M) = e1 (\<lambda>i. \<rho> (W_in i))"
      using len by (simp add: miter_of_def Let_def conn_val_zip e1_def o_def)
    have 2: "conn_val \<rho> (vm_in2 ?M) = e2 (\<lambda>i. \<rho> (W_in i))" if "\<forall>b. \<rho> (W_const b) = b" "\<forall>g \<in> set ?nots. gate_holds \<rho> g"
    proof -
      have "length (wires2 ?n2 in_pairs in_neg consts) = ?n2" by (simp add: wires2_def)
      then have "map \<rho> (wires2 ?n2 in_pairs in_neg consts) = map (induced in_pairs in_neg consts (\<lambda>i. \<rho> (W_in i))) [0..<?n2]"
        by (intro nth_equalityI) (simp_all add: wires2_val [OF m all that])
      then show ?thesis by (simp add: miter_of_def Let_def conn_val_zip e2_def)
    qed
    have g: "vm_nots ?M = ?nots" "vm_xors ?M = ?xors" using len by (simp_all add: miter_of_def Let_def)
    have o1: "(\<forall>(z, w) \<in> set (vm_out1 ?M). \<rho> w = F1 c z) \<longleftrightarrow> (\<forall>i < ?m1. \<rho> (W_o i) = F1 c (?o1 ! i))" for c
      using len all_zip [of ?o1 "map W_o [0..<?m1]" "\<lambda>z w. \<rho> w = F1 c z"] by (simp add: miter_of_def Let_def nl)
    have o2: "(\<forall>(z, w) \<in> set (vm_out2 ?M). \<rho> w = F2 c z) \<longleftrightarrow> (\<forall>i < ?m2. \<rho> (W_o (i + ?m1)) = F2 c (?o2 ! i))" for c
      using len all_zip [of ?o2 "map (\<lambda>i. W_o (i + ?m1)) [0..<?m2]" "\<lambda>z w. \<rho> w = F2 c z"] by (simp add: miter_of_def Let_def nl)
    show ?thesis
    proof (cases "(\<forall>b. \<rho> (W_const b) = b) \<and> (\<forall>g \<in> set ?nots. gate_holds \<rho> g)")
      case True
      then have "conn_val \<rho> (vm_in2 ?M) = e2 (\<lambda>i. \<rho> (W_in i))" using 2 by blast
      then show ?thesis unfolding miter_model_def o1 o2 1 g set_append ball_Un by (simp only: conj_assoc)
    next
      case False
      then show ?thesis unfolding miter_model_def g set_append ball_Un by blast
    qed
  qed
  have range: "i < ?m1 \<and> nat p < ?m2" if "(i, p) \<in> set ?ops" for i p
    using flat_pairs_range [OF _ that, of ?m2] m by (auto simp: match_ok_def)
  have differ: "outputs_differ h input1 input2 output1 output2 F1 F2 in_pairs in_neg out_pairs out_neg consts x \<longleftrightarrow>
     (\<exists>(i, p) \<in> set ?ops. (F1 (e1 x) (?o1 ! i) \<noteq> F2 (e2 x) (?o2 ! nat p)) \<noteq> out_neg ! nat p)" for x
    by (simp add: outputs_differ_def e1_def e2_def)
  show ?thesis
  proof
    assume "\<exists>\<rho>. miter_model ?M F1 F2 \<rho> \<and> \<rho> W_out"
    then obtain \<rho> where \<rho>: "miter_model ?M F1 F2 \<rho>" "\<rho> W_out" by blast
    from \<rho>(1) have "\<forall>g \<in> set ?xors. gate_holds \<rho> g" unfolding model by blast
    from out_val [OF this] \<rho>(2) obtain i p where ip: "(i, p) \<in> set ?ops" "(\<rho> (W_o i) \<noteq> \<rho> (W_o (?m1 + nat p))) \<noteq> out_neg ! nat p" by blast
    moreover have "\<rho> (W_o i) = F1 (e1 (\<lambda>i. \<rho> (W_in i))) (?o1 ! i)" "\<rho> (W_o (?m1 + nat p)) = F2 (e2 (\<lambda>i. \<rho> (W_in i))) (?o2 ! nat p)"
      using \<rho>(1) range [OF ip(1)] unfolding model by (simp_all add: add.commute)
    ultimately show "\<exists>x. outputs_differ h input1 input2 output1 output2 F1 F2 in_pairs in_neg out_pairs out_neg consts x"
      unfolding differ by (intro exI [of _ "\<lambda>i. \<rho> (W_in i)"] bexI [OF _ ip(1)]) simp
  next
    assume "\<exists>x. outputs_differ h input1 input2 output1 output2 F1 F2 in_pairs in_neg out_pairs out_neg consts x"
    then obtain x i p where ip: "(i, p) \<in> set ?ops" "(F1 (e1 x) (?o1 ! i) \<noteq> F2 (e2 x) (?o2 ! nat p)) \<noteq> out_neg ! nat p"
      unfolding differ by blast
    define v where "v k = (if k < ?m1 then F1 (e1 x) (?o1 ! k) else F2 (e2 x) (?o2 ! (k - ?m1)))" for k
    define \<rho> where "\<rho> = model_of x v (not_vals x ?nots) ?m1 out_neg ?s ?ops"
    have vals: "(\<lambda>i. \<rho> (W_in i)) = x" "\<And>i. \<rho> (W_o i) = v i" "\<And>b. \<rho> (W_const b) = b"
      by (simp_all add: \<rho>_def model_of_def Let_def)
    note gates = model_gates [OF refl refl \<rho>_def]
    have "miter_model ?M F1 F2 \<rho>" unfolding model vals using gates by (auto simp: vals v_def)
    moreover have "\<rho> W_out"
      using out_val [OF gates(2)] ip range [OF ip(1)] by (force simp: vals v_def)
    ultimately show "\<exists>\<rho>. miter_model ?M F1 F2 \<rho> \<and> \<rho> W_out" by blast
  qed
qed

end
