(* ===== verification/Support_Files.thy ===== *)
theory Support_Files
  imports Cpp_Text Net_Types
begin

text \<open>
  The files of functional supports: \<open>storeFunctionSupport\<close> and \<open>readFunctionSupport\<close> of class
  \<open>Match\<close>. A file is its text; a file that cannot be opened is \<open>None\<close>. What is stored is read back.
\<close>

section \<open>Reading numbers\<close>

text \<open>
  \<open>s >> val\<close> for an \<open>int\<close>: white space, a sign, digits. It gives whether it succeeds, the value that \<open>val\<close>
  gets, and the rest; a number out of range fails and gives the nearest one.
\<close>

definition read_sign :: "string \<Rightarrow> bool \<times> string" where
  "read_sign s =
     (case dropWhile is_space s of
        [] \<Rightarrow> (False, [])
      | c # t \<Rightarrow> if c = CHR ''-'' then (True, t) else if c = CHR ''+'' then (False, t) else (False, c # t))"

definition read_int :: "string \<Rightarrow> bool \<times> int \<times> string" where
  "read_int s =
     (let (neg, u) = read_sign s; ds = takeWhile is_digit u;
          v = (if neg then - int (digits_val ds) else int (digits_val ds))
      in if ds = [] then (False, 0, u)
         else if - (2 ^ 31) \<le> v \<and> v < 2 ^ 31 then (True, v, dropWhile is_digit u)
         else (False, if neg then - (2 ^ 31) else 2 ^ 31 - 1, dropWhile is_digit u))"

lemma length_dropWhile_less: "takeWhile P xs \<noteq> [] \<Longrightarrow> length (dropWhile P xs) < length xs"
  by (metis length_append length_greater_0_conv less_add_same_cancel2 takeWhile_dropWhile_id)

lemma read_sign_le: "read_sign s = (neg, u) \<Longrightarrow> length u \<le> length s"
  using length_dropWhile_le [of is_space s] by (cases "dropWhile is_space s") (auto simp: read_sign_def length_dropWhile_le split: if_splits)

lemma read_int_shorter: "read_int s = (True, v, t) \<Longrightarrow> length t < length s"
  using read_sign_le [of s] length_dropWhile_less [of is_digit]
  by (fastforce simp: read_int_def Let_def split: prod.splits if_splits)

text \<open>\<open>while (iss >> val) body(val)\<close>.\<close>

function read_ints :: "string \<Rightarrow> int list" where
  "read_ints s = (case read_int s of (ok, v, t) \<Rightarrow> if ok then v # read_ints t else [])"
  by pat_completeness auto
termination
  by (relation "measure length") (auto dest: read_int_shorter [OF sym])

declare read_ints.simps [simp del]

section \<open>The files\<close>

definition store_row :: "int list \<Rightarrow> string" where
  "store_row row = concat (map (\<lambda>i. to_string i @ '' '') row) @ [newline]"

definition store_table :: "int list list \<Rightarrow> string" where
  "store_table rows = ''-1 '' @ to_string (int (length rows)) @ [newline] @ concat (map store_row rows)"

text \<open>The texts of \<open>output_support.txt\<close> and \<open>input_support.txt\<close>.\<close>

definition storeFunctionSupport :: "(int list list \<times> int list list) \<Rightarrow> (int list list \<times> int list list) \<Rightarrow> string \<times> string" where
  "storeFunctionSupport = (\<lambda>(out1, out2) (in1, in2). (store_table out1 @ store_table out2, store_table in1 @ store_table in2))"

text \<open>
  One row: the indices of the line, looked up in the vector of ports. A \<open>getline\<close> that fails leaves the line empty or,
  when the end was met before, as it was.
\<close>

definition read_row :: "addr list \<Rightarrow> nat \<Rightarrow> string \<times> stream \<times> addr list list \<Rightarrow> (string \<times> stream \<times> addr list list) res" where
  "read_row ports i = (\<lambda>(line, s, rows).
     case getline newline line s of
       (ok, line, s) \<Rightarrow>
         rbind (rfold (\<lambda>val vec. rbind (vget ports val) (\<lambda>a. Inr (vec @ [a]))) (read_ints line) []) (\<lambda>vec.
         Inr (line, s, rows @ [vec])))"

text \<open>
  The line in front of the rows: \<open>iss >> val >> outputNum\<close>. When the first extraction fails,
  \<open>outputNum\<close> stays uninitialised; when the second one does, it is 0 or the nearest number.
\<close>

definition read_count :: "string \<Rightarrow> int res" where
  "read_count line =
     (case read_int line of
        (ok, v, t) \<Rightarrow> if ok then Inr (fst (snd (read_int t))) else Inl Null_Deref)"

definition read_table :: "addr list \<Rightarrow> addr list list \<Rightarrow> string \<times> stream \<Rightarrow> (addr list list \<times> string \<times> stream) res" where
  "read_table ports rows = (\<lambda>(line, s).
     case getline newline line s of
       (ok, line, s) \<Rightarrow>
         rbind (read_count line) (\<lambda>n.
         rbind (rfold (read_row ports) [0..<nat n] (line, s, rows)) (\<lambda>(line, s, rows).
         Inr (rows, line, s))))"

definition open_file :: "string option \<Rightarrow> string res" where
  "open_file f = (case f of None \<Rightarrow> Inl (Exit ''Failed to open output file.'') | Some text \<Rightarrow> Inr text)"

definition readFunctionSupport ::
  "addr list \<Rightarrow> addr list \<Rightarrow> addr list \<Rightarrow> addr list \<Rightarrow> string option \<Rightarrow> string option \<Rightarrow>
   ((addr list list \<times> addr list list) \<times> (addr list list \<times> addr list list)) res" where
  "readFunctionSupport input1 input2 output1 output2 out_file in_file =
     rbind (open_file out_file) (\<lambda>out_supp.
     rbind (open_file in_file) (\<lambda>in_supp.
     rbind (read_table input1 [] ('''', stream_of out_supp)) (\<lambda>(os1, line, s).
     rbind (read_table input2 [] (line, s)) (\<lambda>(os2, line, s).
     rbind (read_table output1 [] (line, stream_of in_supp)) (\<lambda>(is1, line, s).
     rbind (read_table output2 [] (line, s)) (\<lambda>(is2, line, s).
     Inr ((os1, os2), (is1, is2))))))))"

section \<open>Reading what is stored\<close>

lemma read_sign_number: "read_sign (to_string i @ t) = (i < 0, (if i < 0 then nat_digits (nat (- i)) else nat_digits (nat i)) @ t)"
proof -
  obtain c cs where n: "nat_digits (nat i) = c # cs" by (cases "nat_digits (nat i)") auto
  then have "is_digit c" using nat_digits_all [of c "nat i"] by simp
  then have "\<not> is_space c \<and> c \<noteq> CHR ''-'' \<and> c \<noteq> CHR ''+''" by (rule digit_chars)
  then show ?thesis using n by (simp add: read_sign_def to_string_def is_space_def)
qed

lemma read_int_number:
  assumes "- (2 ^ 31) \<le> i" "i < 2 ^ 31"
  shows "read_int (to_string i @ CHR '' '' # t) = (True, i, CHR '' '' # t)"
proof -
  have sp: "\<not> is_digit CHR '' ''" by (simp add: is_digit_def digits_def)
  have "takeWhile is_digit (nat_digits n @ CHR '' '' # t) = nat_digits n" "dropWhile is_digit (nat_digits n @ CHR '' '' # t) = CHR '' '' # t" for n
    using sp by (simp_all add: takeWhile_append2 dropWhile_append2 nat_digits_all)
  then show ?thesis using assms by (simp add: read_int_def read_sign_number Let_def)
qed

lemma all_digits: "takeWhile is_digit (nat_digits n) = nat_digits n" "dropWhile is_digit (nat_digits n) = []"
  using nat_digits_all by (auto simp: takeWhile_eq_all_conv)

lemma read_int_end:
  assumes "- (2 ^ 31) \<le> i" "i < 2 ^ 31"
  shows "read_int (to_string i) = (True, i, [])"
  using assms read_sign_number [of i "[]"] by (auto simp: read_int_def Let_def all_digits nat_digits_all)

lemma read_sign_space: "read_sign (CHR '' '' # s) = read_sign s"
  by (simp add: read_sign_def is_space_def)

lemma read_int_space: "read_int (CHR '' '' # s) = read_int s"
  by (simp add: read_int_def read_sign_space)

lemma read_ints_space: "read_ints (CHR '' '' # s) = read_ints s"
  by (simp add: read_ints.simps [of "CHR '' '' # s"] read_ints.simps [of s] read_int_space)

lemma read_ints_row:
  assumes "\<forall>i \<in> set row. - (2 ^ 31) \<le> i \<and> i < 2 ^ 31"
  shows "read_ints (concat (map (\<lambda>i. to_string i @ '' '') row)) = row"
  using assms
proof (induction row)
  case Nil
  have "read_int [] = (False, 0, [])" by (simp add: read_int_def read_sign_def)
  then show ?case by (simp add: read_ints.simps [of "[]"])
next
  case (Cons i row)
  then show ?case
    by (subst read_ints.simps) (simp add: read_int_number read_ints_space)
qed

lemma to_string_plain: "c \<in> set (to_string i) \<Longrightarrow> c \<noteq> newline"
  using to_string_chars [of c i] by (auto simp: is_digit_def digits_def)

lemma read_row_ok:
  assumes "\<forall>i \<in> set row. - (2 ^ 31) \<le> i \<and> i < 2 ^ 31 \<and> in_range ports i"
  shows "read_row ports k (l, stream_of (store_row row @ t), rows) =
     Inr (concat (map (\<lambda>i. to_string i @ '' '') row), stream_of t, rows @ [map (\<lambda>i. ports ! nat i) row])"
proof -
  let ?text = "concat (map (\<lambda>i. to_string i @ '' '') row)"
  have "newline \<notin> set ?text" using to_string_plain by auto
  then have g: "getline newline l (stream_of (store_row row @ t)) = (True, ?text, stream_of t)"
    by (simp add: store_row_def getline_split)
  have "rfold (\<lambda>val vec. rbind (vget ports val) (\<lambda>a. Inr (vec @ [a]))) row acc = Inr (acc @ map (\<lambda>i. ports ! nat i) row)" for acc
    using assms by (induction row arbitrary: acc) auto
  then show ?thesis using read_ints_row [of row] assms by (simp add: read_row_def g)
qed

lemma read_rows_ok:
  assumes "\<forall>row \<in> set rs. \<forall>i \<in> set row. - (2 ^ 31) \<le> i \<and> i < 2 ^ 31 \<and> in_range ports i" and "length ks = length rs"
  shows "\<exists>l'. rfold (read_row ports) ks (l, stream_of (concat (map store_row rs) @ t), rows) =
     Inr (l', stream_of t, rows @ map (map (\<lambda>i. ports ! nat i)) rs)"
  using assms
proof (induction rs arbitrary: ks l rows)
  case Nil
  then show ?case by simp
next
  case (Cons r rs)
  then obtain k ks' where ks: "ks = k # ks'" by (cases ks) auto
  have "read_row ports k (l, stream_of (store_row r @ (concat (map store_row rs) @ t)), rows) =
     Inr (concat (map (\<lambda>i. to_string i @ '' '') r), stream_of (concat (map store_row rs) @ t), rows @ [map (\<lambda>i. ports ! nat i) r])"
    by (rule read_row_ok) (use Cons.prems in simp)
  moreover obtain l' where "rfold (read_row ports) ks' (concat (map (\<lambda>i. to_string i @ '' '') r),
      stream_of (concat (map store_row rs) @ t), rows @ [map (\<lambda>i. ports ! nat i) r]) =
     Inr (l', stream_of t, (rows @ [map (\<lambda>i. ports ! nat i) r]) @ map (map (\<lambda>i. ports ! nat i)) rs)"
    using Cons.IH [of ks' "concat (map (\<lambda>i. to_string i @ '' '') r)" "rows @ [map (\<lambda>i. ports ! nat i) r]"] Cons.prems ks by auto
  ultimately show ?case by (simp add: ks)
qed

lemma read_table_ok:
  assumes "\<forall>row \<in> set rs. \<forall>i \<in> set row. - (2 ^ 31) \<le> i \<and> i < 2 ^ 31 \<and> in_range ports i" and len: "int (length rs) < 2 ^ 31"
  shows "\<exists>l'. read_table ports [] (l, stream_of (store_table rs @ t)) = Inr (map (map (\<lambda>i. ports ! nat i)) rs, l', stream_of t)"
proof -
  let ?hd = "''-1 '' @ to_string (int (length rs))"
  have "newline \<notin> set ?hd" using to_string_plain by auto
  then have g: "getline newline l (stream_of (?hd @ newline # (concat (map store_row rs) @ t))) = (True, ?hd, stream_of (concat (map store_row rs) @ t))"
    by (rule getline_split)
  have one: "to_string (-1) = ''-1''" by (simp add: to_string_def nat_digits.simps [of "Suc 0"] digits_def)
  have "read_int ?hd = (True, -1, CHR '' '' # to_string (int (length rs)))"
    using read_int_number [of "-1" "to_string (int (length rs))"] by (simp add: one)
  then have "read_count ?hd = Inr (int (length rs))"
    using read_int_end [of "int (length rs)"] len by (simp add: read_count_def read_int_space)
  then show ?thesis using g read_rows_ok [OF assms(1), of "[0..<length rs]" "''-1 '' @ to_string (int (length rs))" t "[]"]
    by (auto simp: read_table_def store_table_def)
qed

definition rows_ok :: "addr list \<Rightarrow> int list list \<Rightarrow> bool" where
  "rows_ok ports rows \<longleftrightarrow> length ports < 2 ^ 31 \<and> length rows < 2 ^ 31 \<and> (\<forall>row \<in> set rows. \<forall>i \<in> set row. in_range ports i)"

lemma read_stored:
  assumes "rows_ok input1 o1" "rows_ok input2 o2" "rows_ok output1 i1" "rows_ok output2 i2"
    and "storeFunctionSupport (o1, o2) (i1, i2) = (out_text, in_text)"
  shows "readFunctionSupport input1 input2 output1 output2 (Some out_text) (Some in_text) =
     Inr ((map (map (\<lambda>i. input1 ! nat i)) o1, map (map (\<lambda>i. input2 ! nat i)) o2),
          (map (map (\<lambda>i. output1 ! nat i)) i1, map (map (\<lambda>i. output2 ! nat i)) i2))"
proof -
  have table: "\<exists>l'. read_table ports [] (l, stream_of (store_table rs @ t)) = Inr (map (map (\<lambda>i. ports ! nat i)) rs, l', stream_of t)"
    if "rows_ok ports rs" for ports rs l t
  proof (rule read_table_ok)
    show "int (length rs) < 2 ^ 31" using that by (simp add: rows_ok_def)
    show "\<forall>row \<in> set rs. \<forall>i \<in> set row. - (2 ^ 31) \<le> i \<and> i < 2 ^ 31 \<and> in_range ports i"
    proof (intro ballI)
      fix row i assume "row \<in> set rs" "i \<in> set row"
      then have "in_range ports i" "length ports < 2 ^ 31" using that by (auto simp: rows_ok_def)
      then show "- (2 ^ 31) \<le> i \<and> i < 2 ^ 31 \<and> in_range ports i" by (simp add: in_range_def)
    qed
  qed
  have t: "out_text = store_table o1 @ store_table o2 @ []" "in_text = store_table i1 @ store_table i2 @ []"
    using assms(5) by (simp_all add: storeFunctionSupport_def)
  obtain l1 where 1: "read_table input1 [] ('''', stream_of out_text) = Inr (map (map (\<lambda>i. input1 ! nat i)) o1, l1, stream_of (store_table o2 @ []))"
    unfolding t using table [OF assms(1)] by blast
  obtain l2 where 2: "read_table input2 [] (l1, stream_of (store_table o2 @ [])) = Inr (map (map (\<lambda>i. input2 ! nat i)) o2, l2, stream_of [])"
    using table [OF assms(2)] by blast
  obtain l3 where 3: "read_table output1 [] (l2, stream_of in_text) = Inr (map (map (\<lambda>i. output1 ! nat i)) i1, l3, stream_of (store_table i2 @ []))"
    unfolding t using table [OF assms(3)] by blast
  obtain l4 where 4: "read_table output2 [] (l3, stream_of (store_table i2 @ [])) = Inr (map (map (\<lambda>i. output2 ! nat i)) i2, l4, stream_of [])"
    using table [OF assms(4)] by blast
  show ?thesis unfolding readFunctionSupport_def open_file_def option.case rbind_Inr 1 2 3 4 prod.case by (rule refl)
qed

text \<open>Tables of indices, seen as tables of ports.\<close>

type_synonym index_tables = "(int list list \<times> int list list) \<times> (int list list \<times> int list list)"

definition ports_at :: "addr list \<Rightarrow> int list list \<Rightarrow> addr list list" where
  "ports_at ports = map (map (\<lambda>i. ports ! nat i))"

definition tables_within :: "addr list \<Rightarrow> addr list \<Rightarrow> addr list \<Rightarrow> addr list \<Rightarrow> index_tables \<Rightarrow> bool" where
  "tables_within input1 input2 output1 output2 = (\<lambda>((o1, o2), (i1, i2)).
     rows_ok input1 o1 \<and> rows_ok input2 o2 \<and> rows_ok output1 i1 \<and> rows_ok output2 i2)"

definition port_tables ::
  "addr list \<Rightarrow> addr list \<Rightarrow> addr list \<Rightarrow> addr list \<Rightarrow> index_tables \<Rightarrow>
   (addr list list \<times> addr list list) \<times> (addr list list \<times> addr list list)" where
  "port_tables input1 input2 output1 output2 = (\<lambda>((o1, o2), (i1, i2)).
     ((ports_at input1 o1, ports_at input2 o2), (ports_at output1 i1, ports_at output2 i2)))"

end
