(* ===== verification/File_Props.thy ===== *)
theory File_Props
  imports Miter_Verilog Support_Files
begin

text \<open>The properties of the texts the program writes and reads: the miter in Verilog and the files of the functional supports.\<close>

section \<open>The miter\<close>

text \<open>C4: The miter of the whole circuits decides the matching. On the files of two modules whose port names are
  distinct and no suffixes of each other, for a matching in range that gives every input of circuit 2 one partner or a
  constant, \<open>miter\<close> returns, and it returns true exactly when no assignment of the inputs of circuit 1 makes two matched
  outputs differ (up to the recorded negation), whatever Boolean functions \<open>F1\<close>, \<open>F2\<close> the circuits compute. The
  hypothesis on \<open>solve\<close> is what ABC and CaDiCaL promise together: on the Verilog text of a miter the result is 10
  exactly when the miter has a model in which its output is true.\<close>

theorem miter_exact:
  assumes "circuit_ok f1" "circuit_ok f2" and "port_names_ok h input1 output1 f1" "port_names_ok h input2 output2 f2"
    and "match_ok (length input1) (length input2) (length output1) (length output2) in_pairs in_neg out_pairs out_neg consts"
    and "all_matched (length input2) in_pairs consts"
    and "M = miter_of h input1 input2 output1 output2 in_pairs in_neg out_pairs out_neg consts"
    and "solve (show_miter M f1 f2) = 10 \<longleftrightarrow> (\<exists>\<rho>. miter_model M F1 F2 \<rho> \<and> \<rho> W_out)"
  shows "miter solve h (show_circuit (cf_name f1) f1) (show_circuit (cf_name f2) f2) input1 input2 output1 output2
      in_pairs in_neg out_pairs out_neg consts =
    Inr (\<forall>x. \<not> outputs_differ h input1 input2 output1 output2 F1 F2 in_pairs in_neg out_pairs out_neg consts x)"
  using miter_text_ok [OF assms(1-5)] models_differ [OF assms(5,6), of h F1 F2] assms(8)
  by (simp add: miter_def assms(7))

text \<open>Two buffers, matched with both their inputs and their outputs negated.\<close>

definition buf_file :: "string \<Rightarrow> string \<Rightarrow> string \<Rightarrow> circuit_file" where
  "buf_file name a y = \<lparr>cf_name = name, cf_ports = [a, y], cf_body = [''buf ('' @ y @ '','' @ a @ '');'']\<rparr>"

definition buf_heap :: "addr \<Rightarrow> node" where
  "buf_heap a = mk_node a ([''a'', ''y'', ''b'', ''z''] ! a) WIRE"

lemma buf_names: "names_of buf_heap [0] = [''a'']" "names_of buf_heap [1] = [''y'']" "names_of buf_heap [2] = [''b'']"
  "names_of buf_heap [3] = [''z'']"
  by (simp_all add: names_of_def buf_heap_def mk_node_def)

lemma buf_file_ok: "circuit_ok (buf_file ''t'' ''a'' ''y'')" "circuit_ok (buf_file ''u'' ''b'' ''z'')"
  by code_simp+

lemma buf_match: "match_ok 1 1 1 1 [[0]] [True] [[0]] [True] []" "all_matched 1 [[0]] []"
  by code_simp+

lemma buf_equal: "\<not> outputs_differ buf_heap [0] [2] [1] [3] (\<lambda>c s. c ''a'') (\<lambda>c s. c ''b'') [[0]] [True] [[0]] [True] [] x"
  by (simp add: outputs_differ_def buf_names port_env_def flat_pairs_def induced_def)

theorem miter_exact_witness:
  "miter (\<lambda>_. 20) buf_heap (show_circuit ''t'' (buf_file ''t'' ''a'' ''y'')) (show_circuit ''u'' (buf_file ''u'' ''b'' ''z''))
     [0] [2] [1] [3] [[0]] [True] [[0]] [True] [] = Inr True"
proof -
  let ?M = "miter_of buf_heap [0] [2] [1] [3] [[0]] [True] [[0]] [True] []"
  have ports: "port_names_ok buf_heap [0] [1] (buf_file ''t'' ''a'' ''y'')" "port_names_ok buf_heap [2] [3] (buf_file ''u'' ''b'' ''z'')"
    unfolding port_names_ok_def buf_names by (auto simp: buf_file_def)
  have len: "length [0::nat] = 1" "length [2::nat] = 1" "length [1::nat] = 1" "length [3::nat] = 1" by simp_all
  have m: "match_ok (length [0::nat]) (length [2::nat]) (length [1::nat]) (length [3::nat]) [[0]] [True] [[0]] [True] []"
    "all_matched (length [2::nat]) [[0]] []"
    using buf_match by simp_all
  have "\<not> (\<exists>\<rho>. miter_model ?M (\<lambda>c s. c ''a'') (\<lambda>c s. c ''b'') \<rho> \<and> \<rho> W_out)"
    unfolding models_differ [OF m] using buf_equal by blast
  then have "((\<lambda>_. 20::int) (show_miter ?M (buf_file ''t'' ''a'' ''y'') (buf_file ''u'' ''b'' ''z'')) = 10) =
      (\<exists>\<rho>. miter_model ?M (\<lambda>c s. c ''a'') (\<lambda>c s. c ''b'') \<rho> \<and> \<rho> W_out)" by simp
  from miter_exact [OF buf_file_ok ports m refl this]
  show ?thesis using buf_equal by (simp add: buf_file_def)
qed

text \<open>\<open>miter\<close> connects the wrong port when the name of a port is the end of the name of a port before it: it searches
  the name and a comma, so in the header of the ports \<open>xa\<close> and \<open>a\<close> the last one is never connected when the header
  is \<open>xa,a,y);\<close>, and the text has the port \<open>x\<close> followed by the connection of \<open>a\<close>.\<close>

lemma connect_port_suffix:
  "connect_ports [(''a'', ''in0'')] ''xa,a,y);'' = ''x.a (in0) , a,y);''"
  by code_simp

section \<open>The files of the functional supports\<close>

text \<open>C32: Reading the support files gives back what was stored: for tables of port indices in range (with fewer than
  \<open>2 ^ 31\<close> ports and rows), \<open>readFunctionSupport\<close> on the texts that \<open>storeFunctionSupport\<close> writes returns the
  tables of the ports themselves.\<close>

theorem support_roundtrip:
  assumes "tables_within input1 input2 output1 output2 (outs, ins)"
    and "storeFunctionSupport outs ins = (out_text, in_text)"
  shows "readFunctionSupport input1 input2 output1 output2 (Some out_text) (Some in_text) =
     Inr (port_tables input1 input2 output1 output2 (outs, ins))"
proof -
  obtain o1 o2 i1 i2 where t: "outs = (o1, o2)" "ins = (i1, i2)" by (cases outs, cases ins) auto
  have "rows_ok input1 o1" "rows_ok input2 o2" "rows_ok output1 i1" "rows_ok output2 i2"
    using assms(1) by (simp_all add: t tables_within_def)
  from read_stored [OF this] assms(2) show ?thesis by (simp add: t port_tables_def ports_at_def)
qed

theorem support_roundtrip_witness:
  "readFunctionSupport [10, 11] [12, 13] [14] [15]
     (Some (fst (storeFunctionSupport ([[0, 1]], [[1]]) ([[0], [0]], [[], [0]]))))
     (Some (snd (storeFunctionSupport ([[0, 1]], [[1]]) ([[0], [0]], [[], [0]])))) =
   Inr (([[10, 11]], [[13]]), ([[14], [14]], [[], [15]]))"
  using support_roundtrip [of "[10, 11]" "[12, 13]" "[14]" "[15]" "([[0, 1]], [[1]])" "([[0], [0]], [[], [0]])"]
  by (simp add: tables_within_def port_tables_def ports_at_def rows_ok_def in_range_def prod_eq_iff split: prod.splits)

end
