(* ===== verification/Bus_Config.thy ===== *)
theory Bus_Config
  imports Operation_Correct
begin

text \<open>
  The arithmetic structure of output buses: \<open>CollectPI\<close> (with the parent), \<open>TraceXOR\<close>, \<open>TraceTerm\<close>,
  \<open>CombineTerm\<close>, \<open>BusConfig\<close> and \<open>OutputConfig\<close> of \<open>Netlist.h\<close>. They place the bits of a bus, find the input buses
  that are added and multiplied, and order the equations. The console output is modelled only as far as it
  reads vectors.
\<close>

section \<open>Orders the standard leaves open\<close>

text \<open>
  The iteration order of \<open>set<Node*>\<close> (addresses) and of \<open>unordered_set<int>\<close>, and what \<open>std::sort\<close>
  makes of a vector of nodes.
\<close>

record orders =
  ord_nodes :: "addr list \<Rightarrow> addr list"
  ord_ints :: "int list \<Rightarrow> int list"
  ord_sort :: "(addr \<Rightarrow> addr \<Rightarrow> bool) \<Rightarrow> addr list \<Rightarrow> addr list"

definition insert_new :: "'a \<Rightarrow> 'a list \<Rightarrow> 'a list" where
  "insert_new x xs = (if x \<in> set xs then xs else xs @ [x])"

lemma set_insert_new [simp]: "set (insert_new x xs) = insert x (set xs)"
  by (auto simp: insert_new_def)

lemma distinct_insert_new [simp]: "distinct (insert_new x xs) = distinct xs"
  by (simp add: insert_new_def)

section \<open>AND trees\<close>

text \<open>Whether the input \<open>now\<close> is inverted at its parent, as the code decides it.\<close>

definition flipped_at :: "node \<Rightarrow> addr \<Rightarrow> bool res" where
  "flipped_at par now =
     rbind (vget (n_fi par) 0) (\<lambda>a.
     if a = now then Inr True
     else rbind (vget (n_fi par) 1) (\<lambda>b. Inr (b = now \<and> n_inv par = 2)))"

text \<open>\<open>CollectPI(out, now, par, bit)\<close>; the Boolean is its result, true for a wrong structure.\<close>

fun CollectPI_bit :: "nat \<Rightarrow> int \<Rightarrow> addr \<Rightarrow> addr \<Rightarrow> addr option \<Rightarrow> (addr \<Rightarrow> node) \<Rightarrow> (bool \<times> (addr \<Rightarrow> node)) res" where
  "CollectPI_bit 0 bp out now par h = Inl Stack_Overflow"
| "CollectPI_bit (Suc k) bp out now par h =
     (if n_type (h now) = INPUT then
        let h = upd out (\<lambda>n. n\<lparr>n_pi := n_pi n @ [now]\<rparr>) h
        in case par of
             None \<Rightarrow> Inl Null_Deref
           | Some p \<Rightarrow>
               if n_inv (h p) > 0 \<and> n_type (h p) = AND \<and> bp = 0 then
                 rbind (flipped_at (h p) now) (\<lambda>f.
                 Inr (False, if f then upd now (n_isFlip_update (\<lambda>_. True)) h else h))
               else Inr (False, h)
      else if n_type (h now) = AND then
        search (\<lambda>inp h.
          rbind (if n_inv (h now) > 0 \<and> n_type (h inp) = AND then flipped_at (h now) inp else Inr False) (\<lambda>wrong.
          if wrong then Inr (True, h)
          else rbind (CollectPI_bit k bp out inp (Some now) h) (\<lambda>(r, h). Inr (r \<and> bp = 0, h))))
          (n_fi (h now)) h
      else Inr (True, h))"

section \<open>XOR trees\<close>

fun TraceXOR :: "nat \<Rightarrow> (addr \<Rightarrow> node) \<Rightarrow> addr \<Rightarrow> addr list \<times> int list \<Rightarrow> (addr list \<times> int list) res" where
  "TraceXOR 0 h now s = Inl Stack_Overflow"
| "TraceXOR (Suc k) h now s =
     (case s of (ANDset, ADDbus) \<Rightarrow>
        if n_type (h now) = INPUT then Inr (ANDset, insert_new (n_bus_idx (h now)) ADDbus)
        else if n_type (h now) = AND then Inr (insert_new now ANDset, ADDbus)
        else if n_type (h now) = XOR then rfold (TraceXOR k h) (n_fi (h now)) (ANDset, ADDbus)
        else Inr (ANDset, ADDbus))"

section \<open>Terms\<close>

text \<open>The sums of an AND gate whose inputs are all collected: the sorted buses, when the bits add up.\<close>

definition mul_term :: "int \<Rightarrow> (addr \<Rightarrow> node) \<Rightarrow> addr \<Rightarrow> int list list \<Rightarrow> int list list" where
  "mul_term bp h g MULbus =
     (let xs = n_pi (h g); idx_sum = sum_list (map (\<lambda>x. n_bit_idx (h x)) xs);
          isSameBit = list_ex (\<lambda>x. n_bit_idx (h x) = bp) xs
      in if idx_sum = bp \<and> isSameBit then insert_new (sort (map (\<lambda>x. n_bus_idx (h x)) xs)) MULbus else MULbus)"

text \<open>The state over the AND gates: the products, the heap.\<close>

definition trace_and :: "nat \<Rightarrow> int \<Rightarrow> addr \<Rightarrow> int list list \<times> (addr \<Rightarrow> node) \<Rightarrow> (bool \<times> int list list \<times> (addr \<Rightarrow> node)) res" where
  "trace_and k bp g = (\<lambda>(MULbus, h).
     rbind (CollectPI_bit k bp g g None h) (\<lambda>(wrong, h).
     if wrong then Inr (bp = 0, MULbus, h)
     else Inr (False, mul_term bp h g MULbus, h)))"

definition has_bus :: "addr list list \<Rightarrow> int \<Rightarrow> bool" where
  "has_bus bus_set b \<longleftrightarrow> in_range bus_set b \<and> bus_set ! nat b \<noteq> []"

text \<open>
  The result is true for a wrong structure; then nothing is printed. Otherwise the last node of every bus found is
  read for the report.
\<close>

type_synonym buses = "int list \<times> int list list"

definition TraceTerm :: "nat \<Rightarrow> orders \<Rightarrow> module \<Rightarrow> addr \<Rightarrow> int \<Rightarrow> buses \<times> (addr \<Rightarrow> node) \<Rightarrow> (bool \<times> buses \<times> (addr \<Rightarrow> node)) res" where
  "TraceTerm k ord m out bp = (\<lambda>((ADDbus, MULbus), h).
     rbind (vget (n_fi (h out)) 0) (\<lambda>root.
     rbind (TraceXOR k h root ([], ADDbus)) (\<lambda>(ANDset, ADDbus).
     rbind (search (trace_and k bp) (ord_nodes ord ANDset) (MULbus, h)) (\<lambda>(wrong, MULbus, h).
     if wrong then Inr (True, (ADDbus, MULbus), h)
     else if list_all (has_bus (m_bus_set m)) (ADDbus @ concat MULbus) then Inr (False, (ADDbus, MULbus), h)
     else Inl Bad_Index))))"

definition pow13 :: "int list" where
  "pow13 = [1, 13, 169, 2197, 28561, 371293]"

definition bump :: "int \<Rightarrow> int \<Rightarrow> int list \<Rightarrow> int list res" where
  "bump d b sig = rbind (vget sig b) (\<lambda>v. vset sig b (v + d))"

text \<open>\<open>set<vector<int>>\<close> iterates in lexicographic order.\<close>

definition in_order :: "int list list \<Rightarrow> int list list" where
  "in_order = std_sort lex_less"

definition sign_term :: "int list \<Rightarrow> int list \<Rightarrow> int list res" where
  "sign_term term sig =
     rfold (\<lambda>b sig. rbind (vget pow13 (int (length term) - 1)) (\<lambda>d. bump d b sig)) term sig"

definition CombineTerm :: "orders \<Rightarrow> buses \<Rightarrow> module \<Rightarrow> (buses \<times> module) res" where
  "CombineTerm ord = (\<lambda>(ADDbus, MULbus) m.
     rbind (rfold sign_term (in_order MULbus) (m_bus_signature m)) (\<lambda>sig.
     let tmp = concat MULbus;
         ADDbus = (if MULbus \<noteq> [] then filter (\<lambda>b. b \<notin> set tmp) ADDbus else ADDbus);
         adds = ord_ints ord ADDbus
     in rbind (rfold (bump 1) adds sig) (\<lambda>sig.
     if m_allEquation m = [] then Inl Bad_Index
     else
       let op = fold (\<lambda>t p. Insert t 1 p) (map (\<lambda>b. [b]) adds @ in_order MULbus) (last (m_allEquation m))
       in Inr ((ADDbus, MULbus), m\<lparr>m_bus_signature := sig, m_allEquation := butlast (m_allEquation m) @ [op]\<rparr>))))"

section \<open>\<open>BusConfig\<close>\<close>

text \<open>
  One step of the loop over neighbouring outputs: the bit of the output, the inputs it has and the next one
  has not, the counters of outputs that do not contain the next one and of outputs without inputs of their own.
\<close>

type_synonym place_state = "int \<times> int \<times> (addr \<Rightarrow> node)"

definition own_inputs :: "node \<Rightarrow> node \<Rightarrow> int list" where
  "own_inputs a b = Unique (filter (\<lambda>i. i \<notin> set (n_pi_idx b)) (n_pi_idx a))"

definition add_input :: "addr list \<Rightarrow> addr \<Rightarrow> int \<Rightarrow> (addr \<Rightarrow> node) \<Rightarrow> (addr \<Rightarrow> node) res" where
  "add_input inputs out i h =
     rbind (vget inputs i) (\<lambda>a. Inr (upd out (\<lambda>n. n\<lparr>n_same_input_bit := n_same_input_bit n @ [a]\<rparr>) h))"

definition place_bit :: "addr list \<Rightarrow> addr list \<Rightarrow> nat \<Rightarrow> place_state \<Rightarrow> place_state res" where
  "place_bit inputs bus i = (\<lambda>(empty_cnt, excess_cnt, h).
     let h = upd (bus ! i) (n_bit_idx_update (\<lambda>_. int (length bus - i - 1))) h;
         a = h (bus ! i); b = h (bus ! Suc i);
         excess_cnt = (if set (n_pi_idx b) \<subseteq> set (n_pi_idx a) then excess_cnt else excess_cnt + 1);
         result = own_inputs a b;
         (empty_cnt, h) = (if result = []
            then (empty_cnt + 1, fold (\<lambda>j. upd (bus ! j) (\<lambda>n. n\<lparr>n_bit_idx := n_bit_idx n - 1\<rparr>)) (rev [0..<Suc i]) h)
            else (empty_cnt, h))
     in rbind (rfold (add_input inputs (bus ! i)) result h) (\<lambda>h. Inr (empty_cnt, excess_cnt, h)))"

text \<open>The inputs of one output get its bit; \<open>vis\<close> are the buses met.\<close>

definition mark_output :: "orders \<Rightarrow> addr \<Rightarrow> int list \<times> (addr \<Rightarrow> node) \<Rightarrow> int list \<times> (addr \<Rightarrow> node)" where
  "mark_output ord out = (\<lambda>(vis, h).
     let (vis, h) = fold (\<lambda>pi (vis, h).
           let h = upd pi (n_bit_idx_update (\<lambda>_. n_bit_idx (h out))) h in (insert_new (n_bus_idx (h pi)) vis, h))
           (n_same_input_bit (h out)) (vis, h)
     in (vis, upd out (\<lambda>n. n\<lparr>n_same_input_bit := ord_sort ord (\<lambda>a b. n_bus_idx (h a) < n_bus_idx (h b)) (n_same_input_bit n)\<rparr>) h))"

text \<open>A bus of inputs is sorted by the bits; one with more members than the output bus ends it all.\<close>

definition sort_bus :: "orders \<Rightarrow> nat \<Rightarrow> (addr \<Rightarrow> node) \<Rightarrow> int \<Rightarrow> module \<Rightarrow> (bool \<times> module) res" where
  "sort_bus ord n h b m =
     rbind (vget (m_bus_set m) b) (\<lambda>bus.
     if length bus > n then Inr (True, m)
     else Inr (False, m\<lparr>m_bus_set := (m_bus_set m)[nat b := ord_sort ord (\<lambda>a b. n_bit_idx (h a) > n_bit_idx (h b)) bus]\<rparr>))"

definition trace_terms :: "nat \<Rightarrow> orders \<Rightarrow> module \<Rightarrow> addr list \<Rightarrow> buses \<times> (addr \<Rightarrow> node) \<Rightarrow> (buses \<times> (addr \<Rightarrow> node)) res" where
  "trace_terms k ord m bus =
     rfold (\<lambda>bp s. rbind (TraceTerm k ord m (bus ! (length bus - 1 - bp)) (int bp) s) (\<lambda>(r, s). Inr s)) [1..<length bus]"

text \<open>
  The order of the inputs of one bit when bit 0 could not be interpreted: by the number of buses, then by the first
  pair of buses of different sizes, then by whether the buses are added.
\<close>

fun compare_indices :: "addr list list \<Rightarrow> int list \<Rightarrow> int list \<Rightarrow> int list \<Rightarrow> bool \<Rightarrow> bool \<Rightarrow> bool + (bool \<times> bool)" where
  "compare_indices bs ADDbus (a # as) (b # bs') afound bfound =
     (if length (bs ! nat a) \<noteq> length (bs ! nat b) then Inl (length (bs ! nat a) < length (bs ! nat b))
      else compare_indices bs ADDbus as bs' (afound \<or> a \<in> set ADDbus) (bfound \<or> b \<in> set ADDbus))"
| "compare_indices bs ADDbus _ _ afound bfound = Inr (afound, bfound)"

definition same_bit_before :: "addr list list \<Rightarrow> int list \<Rightarrow> (addr \<Rightarrow> node) \<Rightarrow> addr \<Rightarrow> addr \<Rightarrow> bool" where
  "same_bit_before bs ADDbus h a b =
     (if length (n_bus_indices (h a)) = length (n_bus_indices (h b)) then
        (case compare_indices bs ADDbus (n_bus_indices (h a)) (n_bus_indices (h b)) False False of
           Inl r \<Rightarrow> r
         | Inr (afound, bfound) \<Rightarrow>
             if afound then False else if bfound then True
             else length (bs ! nat (n_bus_idx (h a))) > length (bs ! nat (n_bus_idx (h b))))
      else length (n_bus_indices (h a)) > length (n_bus_indices (h b)))"

text \<open>The reads of \<open>_bus_set\<close> that sorting does when there are two nodes to compare.\<close>

definition bus_reads_ok :: "addr list list \<Rightarrow> (addr \<Rightarrow> node) \<Rightarrow> addr list \<Rightarrow> bool" where
  "bus_reads_ok bs h xs \<longleftrightarrow> length xs < 2 \<or> list_all (\<lambda>a. list_all (in_range bs) (n_bus_idx (h a) # n_bus_indices (h a))) xs"

definition sort_same_bit :: "orders \<Rightarrow> addr list list \<Rightarrow> int list \<Rightarrow> addr \<Rightarrow> (addr \<Rightarrow> node) \<Rightarrow> (addr \<Rightarrow> node) res" where
  "sort_same_bit ord bs ADDbus out h =
     (let xs = n_same_input_bit (h out)
      in if bus_reads_ok bs h xs
         then Inr (upd out (n_same_input_bit_update (\<lambda>_. ord_sort ord (same_bit_before bs ADDbus h) xs)) h)
         else Inl Bad_Index)"

text \<open>The report reads the first bus of every input.\<close>

definition report_ok :: "addr list \<Rightarrow> (addr \<Rightarrow> node) \<Rightarrow> bool" where
  "report_ok bus h \<longleftrightarrow> list_all (\<lambda>out. list_all (\<lambda>a. n_bus_indices (h a) \<noteq> []) (n_same_input_bit (h out))) bus"

text \<open>The equation of a bus whose bits are placed.\<close>

definition bus_equation :: "nat \<Rightarrow> orders \<Rightarrow> addr list \<Rightarrow> net \<Rightarrow> net res" where
  "bus_equation k ord bus = (\<lambda>(m, h).
     let m = m\<lparr>m_allEquation := m_allEquation m @ [new_operation bus]\<rparr> in
     rbind (TraceTerm k ord m (last bus) 0 (([], []), h)) (\<lambda>(wrong, (ADDbus, MULbus), h).
     if wrong then
       rbind (trace_terms k ord m bus ((ADDbus, MULbus), h)) (\<lambda>((ADDbus, MULbus), h).
       rbind (CombineTerm ord (ADDbus, []) m) (\<lambda>((ADDbus, MULbus), m).
       rbind (rfold (sort_same_bit ord (m_bus_set m) ADDbus) bus h) (\<lambda>h.
       if report_ok bus h then Inr (m, h) else Inl Bad_Index)))
     else if ADDbus \<noteq> [] \<or> MULbus \<noteq> [] then
       rbind (trace_terms k ord m bus ((ADDbus, MULbus), h)) (\<lambda>((ADDbus, MULbus), h).
       rbind (CombineTerm ord (ADDbus, MULbus) m) (\<lambda>(_, m).
       if report_ok bus h then Inr (m, h) else Inl Bad_Index))
     else Inr (m, h)))"

text \<open>
  \<open>BusConfig\<close> of the bus at position \<open>i\<close>; the code has it by reference, so it is sorted in place.
\<close>

definition BusConfig :: "nat \<Rightarrow> orders \<Rightarrow> nat \<Rightarrow> net \<Rightarrow> net res" where
  "BusConfig k ord i = (\<lambda>(m, h).
     if length (m_bus_set m ! i) = 1 then Inr (m, h)
     else
       let bus = ord_sort ord (\<lambda>a b. length (n_pi_idx (h a)) > length (n_pi_idx (h b))) (m_bus_set m ! i);
           n = length bus;
           m = m\<lparr>m_bus_set := (m_bus_set m)[i := bus]\<rparr>
       in
       rbind (rfold (place_bit (m_gate m INPUT) bus) [0..<n - 1] (0, 0, h)) (\<lambda>(empty_cnt, excess_cnt, h).
       let h = upd (last bus) (n_bit_idx_update (\<lambda>_. 0)) h in
       if excess_cnt \<ge> int (n div 2) \<and> excess_cnt \<noteq> 0
       then Inr (m, fold (\<lambda>x. upd x (n_bit_idx_update (\<lambda>_. -1))) bus h)
       else if empty_cnt + 1 \<ge> int n \<and> empty_cnt \<noteq> 0 then Inr (m, h)
       else
         rbind (rfold (add_input (m_gate m INPUT) (last bus)) (n_pi_idx (h (last bus))) h) (\<lambda>h.
         let (vis, h) = fold (mark_output ord) bus ([], h) in
         rbind (search (sort_bus ord n h) (ord_ints ord vis) m) (\<lambda>(stop, m).
         if stop then Inr (m, h) else bus_equation k ord (m_bus_set m ! i) (m, h)))))"

section \<open>\<open>OutputConfig\<close>\<close>

definition config_bus :: "nat \<Rightarrow> orders \<Rightarrow> nat \<Rightarrow> net \<Rightarrow> net res" where
  "config_bus k ord i = (\<lambda>(m, h).
     rbind (vget (m_bus_set m ! i) 0) (\<lambda>a.
     if n_type (h a) = OUTPUT then BusConfig k ord i (m, h) else Inr (m, h)))"

fun members_order :: "int list \<Rightarrow> int list \<Rightarrow> int list \<Rightarrow> bool option" where
  "members_order sig (a # as) (b # bs) =
     (if sig ! nat a \<noteq> sig ! nat b then Some (sig ! nat a > sig ! nat b) else members_order sig as bs)"
| "members_order sig _ _ = None"

fun terms_order :: "int list \<Rightarrow> trm list \<Rightarrow> trm list \<Rightarrow> bool option" where
  "terms_order sig (s # ss) (t # ts) =
     (if length (t_member s) = length (t_member t) then
        (case members_order sig (t_member s) (t_member t) of
           Some r \<Rightarrow> Some r
         | None \<Rightarrow> terms_order sig ss ts)
      else Some (length (t_member s) > length (t_member t)))"
| "terms_order sig _ _ = None"

text \<open>The order of equations. Two equations without terms are each before the other.\<close>

definition equation_before :: "int list \<Rightarrow> operation \<Rightarrow> operation \<Rightarrow> bool" where
  "equation_before sig a b =
     (if length (o_output a) = length (o_output b) then
        if length (o_real_input a) = length (o_real_input b) then
          (case terms_order sig (o_real_input a) (o_real_input b) of
             Some r \<Rightarrow> r
           | None \<Rightarrow>
               if o_real_input a = [] then True
               else if o_real_input b = [] then False
               else let as = t_member (hd (o_real_input a)); bs = t_member (hd (o_real_input b))
                    in if hd as = hd bs then last as > last bs else hd as > hd bs)
        else length (o_real_input a) > length (o_real_input b)
      else length (o_output a) < length (o_output b))"

definition sort_equations :: "int list \<Rightarrow> operation list \<Rightarrow> operation list res" where
  "sort_equations sig eqs =
     (if length eqs < 2 \<or> list_all (\<lambda>p. list_all (\<lambda>t. t_member t \<noteq> [] \<and> list_all (in_range sig) (t_member t)) (o_real_input p)) eqs
      then Inr (std_sort (equation_before sig) eqs) else Inl Bad_Index)"

definition OutputConfig :: "nat \<Rightarrow> orders \<Rightarrow> net \<Rightarrow> net res" where
  "OutputConfig k ord = (\<lambda>(m, h).
     rbind (rfold (config_bus k ord) [0..<length (m_bus_set m)] (m, h)) (\<lambda>(m, h).
     rbind (rfold (\<lambda>p eqs. rbind (SortTerm (m_bus_signature m) p) (\<lambda>p. Inr (eqs @ [p]))) (m_allEquation m) []) (\<lambda>eqs.
     rbind (sort_equations (m_bus_signature m) eqs) (\<lambda>eqs.
     Inr (m\<lparr>m_allEquation := eqs\<rparr>, h)))))"

end
