(* ===== verification/Ctrl_Netlist.thy ===== *)
theory Ctrl_Netlist
  imports Net_Parser Miter_Text
begin

text \<open>
  Netlists with control signals fixed: the text \<open>assign_ctrl_signal\<close> writes, and \<open>ForkCtrlNetlist\<close>, which reads the first
  inputs of the outputs back from the netlist ABC makes of it. ABC is the parameter \<open>abc\<close>, from the text of a
  file to the text of the mapped one.
\<close>

section \<open>Replacing a signal\<close>

definition is_alnum :: "char \<Rightarrow> bool" where
  "is_alnum c \<longleftrightarrow> is_digit c \<or> c \<in> set ''ABCDEFGHIJKLMNOPQRSTUVWXYZabcdefghijklmnopqrstuvwxyz''"

definition find_from :: "string \<Rightarrow> string \<Rightarrow> nat \<Rightarrow> nat option" where
  "find_from p s k = map_option ((+) k) (if k \<le> length s then find_sub p (drop k s) else None)"

text \<open>\<open>line[p]\<close>: at the end of the string it is the zero character, behind it undefined.\<close>

definition char_at :: "string \<Rightarrow> nat \<Rightarrow> char res" where
  "char_at s p = (if p < length s then Inr (s ! p) else if p = length s then Inr (CHR 0x00) else Inl Bad_Index)"

definition const_text :: "bool \<Rightarrow> string" where
  "const_text b = (if b then ''1'' @ [CHR 0x27] @ ''b1'' else ''1'' @ [CHR 0x27] @ ''b0'')"

text \<open>
  One occurrence at \<open>found\<close>: unless a letter or digit follows or it is part of a constant, the name, or the
  name with its index, is replaced by the constant.
\<close>

definition replace_at :: "string \<Rightarrow> int \<Rightarrow> nat \<Rightarrow> string \<Rightarrow> string res" where
  "replace_at name val found line =
     (let pos = found + length name in
     rbind (char_at line pos) (\<lambda>c.
     if is_alnum c then Inr line
     else if pos < 3 then Inl Bad_Index
     else if line ! (pos - 3) = CHR 0x27 then Inr line
     else if c \<noteq> CHR ''['' then Inr (take found line @ const_text (val \<noteq> 0) @ drop pos line)
     else
       let num = takeWhile (\<lambda>c. c \<noteq> CHR '']'') (drop (pos + 1) line); p = pos + 1 + length num
       in if p \<ge> length line then Inl Bad_Index
          else rbind (stoi num) (\<lambda>number.
               if number < 0 \<or> number \<ge> 32 then Inl Bad_Index
               else Inr (take found line @ const_text (odd (val div 2 ^ nat number)) @ drop (p + 1) line))))"

text \<open>All occurrences, with fuel for their number.\<close>

fun replace_all :: "nat \<Rightarrow> string \<Rightarrow> int \<Rightarrow> nat \<Rightarrow> string \<Rightarrow> string res" where
  "replace_all 0 name val start line = Inl Hang"
| "replace_all (Suc n) name val start line =
     (case find_from name line start of
        None \<Rightarrow> Inr line
      | Some found \<Rightarrow> rbind (replace_at name val found line) (replace_all n name val (Suc found)))"

definition ctrl_line :: "nat \<Rightarrow> (string \<times> int) list \<Rightarrow> string \<Rightarrow> string res" where
  "ctrl_line n ctrl line =
     (if find_sub ''module'' line \<noteq> None \<or> find_sub ''wire'' line \<noteq> None \<or> find_sub ''input'' line \<noteq> None then Inr line
      else rfold (\<lambda>(name, val). replace_all n name val 0) ctrl line)"

function ctrl_lines :: "nat \<Rightarrow> (string \<times> int) list \<Rightarrow> string \<Rightarrow> stream \<Rightarrow> string res" where
  "ctrl_lines n ctrl line ifs =
     (case getline newline line ifs of
        (ok, line, ifs1) \<Rightarrow>
          if \<not> ok then Inr ''''
          else rbind (ctrl_line n ctrl line) (\<lambda>out. rbind (ctrl_lines n ctrl line ifs1) (\<lambda>s. Inr (out @ endl @ s))))"
  by pat_completeness auto
termination
  by (relation "measure (\<lambda>(n, ctrl, line, ifs). length (rest ifs))") (auto dest!: getline_ok_shorter [OF sym])

declare ctrl_lines.simps [simp del]

text \<open>
  The text of the remapped file, or nothing when there is no control signal; then the file that is read afterwards is the
  one of an earlier call (\<open>old\<close>).
\<close>

definition assign_ctrl_signal ::
  "(string \<Rightarrow> string) \<Rightarrow> nat \<Rightarrow> module \<Rightarrow> (addr \<Rightarrow> node) \<Rightarrow> int list \<Rightarrow> string \<Rightarrow> string \<Rightarrow> string res" where
  "assign_ctrl_signal abc n m h cur_bits text old =
     (if m_ctrl_signal m = [] then Inr old
      else if length cur_bits < length (m_ctrl_signal m) then Inl Bad_Index
      else rbind (ctrl_lines n (zip (map (\<lambda>a. n_name (h a)) (m_ctrl_signal m)) cur_bits) '''' (stream_of text)) (\<lambda>s.
           Inr (abc s)))"

section \<open>\<open>ForkCtrlNetlist\<close>\<close>

text \<open>The first input of one output of the remapped netlist.\<close>

definition first_input :: "nat \<Rightarrow> addr \<Rightarrow> module \<times> (addr \<Rightarrow> node) \<times> (string \<times> int) list \<Rightarrow> (module \<times> (addr \<Rightarrow> node) \<times> (string \<times> int) list) res" where
  "first_input i out = (\<lambda>(m, h, firsts).
     rbind (vget (n_fi (h out)) 0) (\<lambda>tmp.
     if n_type (h tmp) = INPUT then
       (case m_name_to_node m (n_name (h tmp)) of
          None \<Rightarrow> Inl Null_Deref
        | Some a \<Rightarrow> Inr (m, upd a (n_bit_idx_update (\<lambda>_. int i)) h,
                        firsts @ [(n_name (h tmp), if n_inv (h out) > 0 then 1 else 0)]))
     else if n_type (h tmp) = ZEROBUF then Inr (m, h, firsts @ [(const_text False, 0)])
     else if n_type (h tmp) = ONEBUF then Inr (m, h, firsts @ [(const_text False, 1)])
     else Inr (m, h, firsts)))"

text \<open>
  \<open>fuel\<close> is the fuel of the traversals, \<open>n\<close> the one of the replacements; \<open>text\<close> is the file without gate
  names of this module.
\<close>

type_synonym fork_state = "module \<times> module list \<times> store \<times> string"

definition fork_step :: "(string \<Rightarrow> string) \<Rightarrow> nat \<Rightarrow> nat \<Rightarrow> string \<Rightarrow> addr list \<Rightarrow> nat \<Rightarrow> fork_state \<Rightarrow> fork_state res" where
  "fork_step abc fuel n text bus i = (\<lambda>(m, test, st, old).
     rbind (assign_ctrl_signal abc n m (heap st) ((replicate (length bus) 0)[i := 1]) text old) (\<lambda>mapped.
     rbind (Parser fuel mapped i 0 test st) (\<lambda>(wires, test, st).
     rbind (vget test (int i)) (\<lambda>t.
     let h = upd (bus ! i) (n_bit_idx_update (\<lambda>_. int i)) (heap st)
     in rbind (rfold (first_input i) (m_gate t OUTPUT) (m, h, m_first_pi m ! i)) (\<lambda>(m, h, firsts).
        Inr (m\<lparr>m_first_pi := (m_first_pi m)[i := firsts]\<rparr>, test, st\<lparr>heap := h\<rparr>, mapped))))))"

definition resize :: "nat \<Rightarrow> 'a \<Rightarrow> 'a list \<Rightarrow> 'a list" where
  "resize n x xs = take n xs @ replicate (n - length xs) x"

definition ForkCtrlNetlist :: "(string \<Rightarrow> string) \<Rightarrow> nat \<Rightarrow> nat \<Rightarrow> string \<Rightarrow> string \<Rightarrow> int \<Rightarrow> module \<times> store \<Rightarrow> (module \<times> store \<times> string) res" where
  "ForkCtrlNetlist abc fuel n text old bus_idx = (\<lambda>(m, st).
     rbind (vget (m_bus_set m) bus_idx) (\<lambda>bus.
     let m = m\<lparr>m_first_pi := resize (length bus) [] (m_first_pi m), m_ctrl_signal := bus\<rparr>
     in rbind (rfold (fork_step abc fuel n text bus) [0..<length bus] (m, [], st, old)) (\<lambda>(m, test, st, old).
        Inr (m, st, old))))"

text \<open>The code of a control signal: the negations of the outputs of bus 4 as a binary number.\<close>

definition encode_bit :: "module \<Rightarrow> (addr \<Rightarrow> node) \<Rightarrow> int \<Rightarrow> addr list \<Rightarrow> nat \<Rightarrow> int \<Rightarrow> int res" where
  "encode_bit m h bp bus i val =
     rbind (vget (m_first_pi m) bp) (\<lambda>row. rbind (vget row (n_idx (h (bus ! i)))) (\<lambda>(name, neg).
     let b = (if n_isFlip (h (bus ! i)) then (if neg = 0 then 1 else 0) else neg)
     in if i < 31 then Inr (to_int32 (val + b * 2 ^ i)) else Inl Bad_Index))"

definition getBus4Encode :: "module \<Rightarrow> (addr \<Rightarrow> node) \<Rightarrow> int \<Rightarrow> int res" where
  "getBus4Encode m h bp =
     rbind (vget (m_bus_set m) 4) (\<lambda>bus. rfold (encode_bit m h bp bus) [0..<length bus] 0)"

end
