(* ===== verification/Match_Init.thy ===== *)
theory Match_Init
  imports Bus_Config Ctrl_Netlist
begin

text \<open>
  The phase before the search: \<open>MatchAlgo\<close>, \<open>setGroupMatch\<close> and \<open>setInitSolution\<close> of class \<open>Match\<close>. It
  analyses both modules and makes the initial matches of the benchmarks the code knows by number. The console output is
  modelled only as far as it reads vectors.
\<close>

section \<open>State\<close>

record init_state =
  i_mod1 :: module
  i_mod2 :: module
  i_store :: store
  i_init_output :: "addr list list"
  i_init_input :: "addr option list"
  i_init_input_ne :: "int list"
  i_bus_map :: "int list"
  i_match_pair :: "int list list"
  i_output_ne :: "bool list"
  i_in_match_pair :: "int list list"
  i_input_ne :: "bool list"
  i_const_match :: "(bool \<times> int) list"

abbreviation i_heap :: "init_state \<Rightarrow> addr \<Rightarrow> node" where
  "i_heap s \<equiv> heap (i_store s)"

definition on_heap :: "((addr \<Rightarrow> node) \<Rightarrow> addr \<Rightarrow> node) \<Rightarrow> init_state \<Rightarrow> init_state" where
  "on_heap f s = s\<lparr>i_store := (i_store s)\<lparr>heap := f (i_heap s)\<rparr>\<rparr>"

definition on_mod1 :: "(net \<Rightarrow> net res) \<Rightarrow> init_state \<Rightarrow> init_state res" where
  "on_mod1 f s = rbind (f (i_mod1 s, i_heap s)) (\<lambda>(m, h). Inr (on_heap (\<lambda>_. h) (s\<lparr>i_mod1 := m\<rparr>)))"

definition on_mod2 :: "(net \<Rightarrow> net res) \<Rightarrow> init_state \<Rightarrow> init_state res" where
  "on_mod2 f s = rbind (f (i_mod2 s, i_heap s)) (\<lambda>(m, h). Inr (on_heap (\<lambda>_. h) (s\<lparr>i_mod2 := m\<rparr>)))"

definition vpush :: "'a list list \<Rightarrow> int \<Rightarrow> 'a \<Rightarrow> 'a list list res" where
  "vpush xss i x = rbind (vget xss i) (\<lambda>xs. vset xss i (xs @ [x]))"

section \<open>\<open>setGroupMatch\<close>\<close>

text \<open>An index that is negative is converted to a large unsigned number, so the guard holds for it as well.\<close>

definition pair_outputs :: "(addr \<Rightarrow> node) \<Rightarrow> operation \<Rightarrow> operation \<Rightarrow> nat \<Rightarrow> int list list \<Rightarrow> int list list res" where
  "pair_outputs h p q j mp =
     rbind (vget (o_output p) (int j)) (\<lambda>a. rbind (vget (o_output q) (int j)) (\<lambda>b.
     rbind (require (in_range mp (n_idx (h a))) (Exit ''Wrong output index'')) (\<lambda>_.
     vpush mp (n_idx (h a)) (n_idx (h b)))))"

definition pair_member :: "trm \<Rightarrow> trm \<Rightarrow> nat \<Rightarrow> int list list \<Rightarrow> int list list res" where
  "pair_member s t k ip =
     rbind (require (k < length (t_member t)) (Exit ''No corresponding term of the real input in module 1.'')) (\<lambda>_.
     vpush ip (t_member s ! k) (t_member t ! k))"

definition pair_term :: "operation \<Rightarrow> operation \<Rightarrow> nat \<Rightarrow> int list list \<Rightarrow> int list list res" where
  "pair_term p q j ip =
     rbind (require (j < length (o_real_input q)) (Exit ''No corresponding real input in module 1.'')) (\<lambda>_.
     let s = o_real_input p ! j
     in if t_coeff s = 0 then rfold (pair_member s (o_real_input q ! j)) [0..<min (length (t_member s)) 3] ip else Inr ip)"

definition pair_group :: "(addr \<Rightarrow> node) \<Rightarrow> operation list \<Rightarrow> operation list \<Rightarrow> nat \<Rightarrow> int list list \<times> int list list \<Rightarrow> (int list list \<times> int list list) res" where
  "pair_group h gs1 gs2 i = (\<lambda>(mp, ip).
     let p = gs1 ! i in
     rbind (vget gs2 (int i)) (\<lambda>q.
     rbind (rfold (pair_outputs h p q) [0..<length (o_output p)] mp) (\<lambda>mp.
     rbind (vget (o_output p) 0) (\<lambda>_. rbind (vget (o_output q) 0) (\<lambda>_.
     rbind (rfold (pair_term p q) [0..<length (o_real_input p)] ip) (\<lambda>ip. Inr (mp, ip)))))))"

text \<open>The negations of matched ports, from the flips of both.\<close>

definition set_neg :: "(addr \<Rightarrow> node) \<Rightarrow> addr list \<Rightarrow> addr list \<Rightarrow> nat \<Rightarrow> int \<Rightarrow> bool list \<Rightarrow> bool list res" where
  "set_neg h ports1 ports2 i j ne =
     rbind (vget ports1 (int i)) (\<lambda>a. rbind (vget ports2 j) (\<lambda>b.
     vset ne j (n_isFlip (h a) \<noteq> n_isFlip (h b))))"

definition set_negs :: "(addr \<Rightarrow> node) \<Rightarrow> addr list \<Rightarrow> addr list \<Rightarrow> int list list \<Rightarrow> bool list \<Rightarrow> bool list res" where
  "set_negs h ports1 ports2 pairs =
     rfold (\<lambda>i. rfold (set_neg h ports1 ports2 i) (pairs ! i)) [0..<length pairs]"

definition setGroupMatch :: "init_state \<Rightarrow> init_state res" where
  "setGroupMatch s =
     (let m1 = i_mod1 s; m2 = i_mod2 s; h = i_heap s;
          mp = resize (length (m_gate m1 OUTPUT)) [] (i_match_pair s); one = resize (length (m_gate m2 OUTPUT)) False (i_output_ne s);
          ip = resize (length (m_gate m1 INPUT)) [] (i_in_match_pair s); ine = resize (length (m_gate m2 INPUT)) False (i_input_ne s)
      in rbind (rfold (pair_group h (m_group m1) (m_group m2)) [0..<length (m_group m1)] (mp, ip)) (\<lambda>(mp, ip).
         let mp = map Unique mp; ip = map Unique ip in
         rbind (set_negs h (m_gate m1 OUTPUT) (m_gate m2 OUTPUT) mp one) (\<lambda>one.
         rbind (set_negs h (m_gate m1 INPUT) (m_gate m2 INPUT) ip ine) (\<lambda>ine.
         Inr (s\<lparr>i_match_pair := mp, i_output_ne := one, i_in_match_pair := ip, i_input_ne := ine\<rparr>)))))"

section \<open>\<open>setInitSolution\<close>\<close>

text \<open>What \<open>showOp\<close> reads.\<close>

definition show_op_ok :: "operation \<Rightarrow> bool" where
  "show_op_ok p \<longleftrightarrow> o_output p \<noteq> [] \<and> list_all (\<lambda>t. t_member t \<noteq> []) (o_real_input p)"

text \<open>
  The candidates of one bit: output \<open>j\<close> of circuit 1 and the outputs of circuit 2 from \<open>j\<close> on, both ways, up to the
  first with the same bit place.
\<close>

definition init_pair :: "(addr \<Rightarrow> node) \<Rightarrow> addr list \<Rightarrow> addr list \<Rightarrow> nat \<Rightarrow> nat \<Rightarrow> addr list list \<Rightarrow> (bool \<times> addr list list) res" where
  "init_pair h out1 out2 j k io =
     rbind (vpush io (n_idx (h (out2 ! k))) (out1 ! j)) (\<lambda>io.
     rbind (if j \<noteq> k then vpush io (n_idx (h (out2 ! j))) (out1 ! k) else Inr io) (\<lambda>io.
     Inr (n_bit_idx (h (out1 ! j)) = n_bit_idx (h (out2 ! k)), io)))"

text \<open>
  The buses of the input \<open>a\<close> of circuit 1 from the \<open>l\<close>-th on, against those of the input of circuit 2 at the present
  offset. On a conflict the next input of circuit 2 is tried for the same bus; \<open>diff\<close> is the number of inputs
  that may be passed over.
\<close>

function fit_buses :: "(addr \<Rightarrow> node) \<Rightarrow> int \<Rightarrow> addr list \<Rightarrow> nat \<Rightarrow> addr \<Rightarrow> nat \<Rightarrow> int \<times> int list \<Rightarrow> (int \<times> int list) res" where
  "fit_buses h diff same2 k a l (off, bm) =
     (if l < length (n_bus_indices (h a)) then
        rbind (vget same2 (int k + off)) (\<lambda>b.
        rbind (vget (n_bus_indices (h b)) (int l)) (\<lambda>b2.
        rbind (vget bm b2) (\<lambda>v.
        let b1 = n_bus_indices (h a) ! l in
        if v = -1 then fit_buses h diff same2 k a (Suc l) (off, bm[nat b2 := b1])
        else if v \<noteq> b1 then
          if off + 1 > diff then Inr (off + 1, bm) else fit_buses h diff same2 k a l (off + 1, bm)
        else fit_buses h diff same2 k a (Suc l) (off, bm))))
      else Inr (off, bm))"
  by pat_completeness auto
termination
  by (relation "measure (\<lambda>(h, diff, same2, k, a, l, off, bm). nat (diff - off) + (length (n_bus_indices (h a)) - l))") auto

declare fit_buses.simps [simp del]

text \<open>The state over the inputs of one bit: the offset, the map of buses, the initial inputs, the heap.\<close>

type_synonym input_state = "int \<times> int list \<times> addr option list \<times> (addr \<Rightarrow> node)"

definition init_input_step :: "module \<Rightarrow> addr list \<Rightarrow> addr list \<Rightarrow> nat \<Rightarrow> input_state \<Rightarrow> (bool \<times> input_state) res" where
  "init_input_step m1 same1 same2 k = (\<lambda>(off, bm, ii, h).
     let diff = int (length same2) - int (length same1); a = same1 ! k in
     rbind (fit_buses h diff same2 k a 0 (off, bm)) (\<lambda>(off, bm).
     if off > diff then Inr (True, off, bm, ii, h)
     else
       rbind (vget (m_bus_set m1) (n_bus_idx (h a))) (\<lambda>bus.
       if length bus \<noteq> 1 then
         rbind (vget same2 (int k + off)) (\<lambda>b.
         rbind (vset ii (n_idx (h b)) (Some a)) (\<lambda>ii.
         Inr (False, off, bm, ii, upd b (n_priority_update (\<lambda>_. 1)) h)))
       else Inr (False, off, bm, ii, h))))"

definition init_bit :: "operation \<Rightarrow> operation \<Rightarrow> nat \<Rightarrow> init_state \<Rightarrow> init_state res" where
  "init_bit p q j s =
     (let out1 = o_output p; out2 = o_output q; s = (if j > 10 then on_heap (upd (out2 ! j) (n_priority_update (\<lambda>_. 10))) s else s);
          h = i_heap s
      in rbind (search (init_pair h out1 out2 j) [j..<length out1] (i_init_output s)) (\<lambda>(_, io).
         let same1 = n_same_input_bit (h (out1 ! j)); same2 = n_same_input_bit (h (out2 ! j)) in
         rbind (search (init_input_step (i_mod1 s) same1 same2) [0..<length same1] (0, i_bus_map s, i_init_input s, h)) (\<lambda>(_, off, bm, ii, h).
         Inr (on_heap (\<lambda>_. h) (s\<lparr>i_init_output := io, i_bus_map := bm, i_init_input := ii\<rparr>)))))"

text \<open>One pair of equations; it stops everything when they have different numbers of outputs.\<close>

definition init_equation :: "nat \<Rightarrow> init_state \<Rightarrow> (bool \<times> init_state) res" where
  "init_equation i s =
     (let p = m_allEquation (i_mod1 s) ! i; q = m_allEquation (i_mod2 s) ! i; h = i_heap s
      in if length (o_output p) \<noteq> length (o_output q) then Inr (True, s)
         else
           rbind (vget (o_output q) 0) (\<lambda>b. rbind (vget (o_output p) 0) (\<lambda>a.
           rbind (vset (i_bus_map s) (n_bus_idx (h b)) (n_bus_idx (h a))) (\<lambda>bm.
           rbind (rfold (init_bit p q) (rev [0..<length (o_output p)]) (s\<lparr>i_bus_map := bm\<rparr>)) (\<lambda>s.
           Inr (False, s))))))"

definition setInitSolution :: "init_state \<Rightarrow> init_state res" where
  "setInitSolution s =
     (if length (m_allEquation (i_mod1 s)) \<noteq> length (m_allEquation (i_mod2 s)) then Inr s
      else
        let s = s\<lparr>i_bus_map := replicate (length (m_bus_set (i_mod2 s))) (-1),
                  i_init_input_ne := replicate (length (m_gate (i_mod2 s) INPUT)) (-1)\<rparr>
        in if list_all show_op_ok (m_allEquation (i_mod1 s) @ m_allEquation (i_mod2 s))
           then rbind (search init_equation [0..<length (m_allEquation (i_mod1 s))] s) (\<lambda>(_, s). Inr s)
           else Inl Bad_Index)"

section \<open>The benchmarks with special treatment\<close>

text \<open>
  What the run gets from outside: the fuel of the traversals, the orders the standard leaves open, whether the left
  side of an assignment is evaluated first, ABC, the fuel of the replacements, the files without gate names, and the
  mapped file that an earlier run left.
\<close>

record init_env =
  e_fuel :: nat
  e_ord :: orders
  e_lhs_first :: bool
  e_abc :: "string \<Rightarrow> string"
  e_replace :: nat
  e_del_out1 :: string
  e_del_out2 :: string
  e_mapped :: string

definition flip_if :: "(node \<Rightarrow> bool) \<Rightarrow> addr list \<Rightarrow> (addr \<Rightarrow> node) \<Rightarrow> (addr \<Rightarrow> node)" where
  "flip_if P bus h = fold (\<lambda>x h. if P (h x) then upd x (n_isFlip_update (\<lambda>_. True)) h else h) bus h"

definition flip_bus :: "int \<Rightarrow> (node \<Rightarrow> bool) \<Rightarrow> init_state \<Rightarrow> init_state res" where
  "flip_bus b P s = rbind (vget (m_bus_set (i_mod1 s)) b) (\<lambda>bus. Inr (on_heap (flip_if P bus) s))"

definition number_equations :: "operation list \<Rightarrow> operation list" where
  "number_equations eqs = map (\<lambda>(i, p). p\<lparr>o_const := int i\<rparr>) (zip [0..<length eqs] eqs)"

definition set_const :: "int \<times> int \<Rightarrow> operation list \<Rightarrow> operation list res" where
  "set_const = (\<lambda>(i, c) eqs. rbind (vget eqs i) (\<lambda>p. vset eqs i (p\<lparr>o_const := c\<rparr>)))"

definition case_9 :: "init_state \<Rightarrow> init_state res" where
  "case_9 s =
     rbind (flip_bus 31 (\<lambda>x. n_name x \<noteq> ''n1112'') s) (\<lambda>s.
     rbind (flip_bus 16 (\<lambda>x. n_bit_idx x = 6) s) (\<lambda>s.
     rbind (flip_bus 20 (\<lambda>x. n_bit_idx x \<le> 7 \<and> n_bit_idx x \<ge> 5) s) (\<lambda>s.
     rbind (flip_bus 42 (\<lambda>x. n_bit_idx x = 6) s) (\<lambda>s.
     rbind (flip_bus 46 (\<lambda>x. n_bit_idx x = 5) s) (\<lambda>s.
     rbind (rfold set_const [(6, 7), (7, 9), (8, 6), (9, 8)] (number_equations (m_allEquation (i_mod2 s)))) (\<lambda>eqs.
     Inr (s\<lparr>i_mod2 := (i_mod2 s)\<lparr>m_allEquation := std_sort (\<lambda>a b. o_const a < o_const b) eqs\<rparr>\<rparr>)))))))"

definition swap_group :: "operation \<Rightarrow> operation list \<Rightarrow> operation list res" where
  "swap_group p gs =
     rbind (SwapGroup 1 2 p) (\<lambda>p. rbind (SwapGroup 3 4 p) (\<lambda>p. rbind (SwapGroup 5 7 p) (\<lambda>p.
     rbind (ComputeNOTEncode p) (\<lambda>p. Inr (gs @ [p])))))"

text \<open>The comparison of the codes reads the groups of circuit 2 up to the first difference.\<close>

definition compare_groups :: "operation list \<Rightarrow> operation list \<Rightarrow> bool res" where
  "compare_groups gs1 gs2 =
     rbind (search (\<lambda>i u. rbind (vget gs2 (int i)) (\<lambda>q. Inr (o_const (gs1 ! i) \<noteq> o_const q, u))) [0..<length gs1] ()) (\<lambda>(wrong, u).
     Inr (\<not> wrong))"

definition case_3 :: "init_state \<Rightarrow> init_state res" where
  "case_3 s =
     (let m2 = i_mod2 s in
     rbind (rfold swap_group (m_group m2) []) (\<lambda>gs.
     let gs = std_sort (\<lambda>a b. o_const a < o_const b) gs in
     rbind (showGroup gs (m_set_to_group_idx m2)) (\<lambda>idx.
     rbind (compare_groups (m_group (i_mod1 s)) gs) (\<lambda>_.
     Inr (s\<lparr>i_mod2 := m2\<lparr>m_group := gs, m_set_to_group_idx := idx\<rparr>\<rparr>)))))"

definition node_named :: "module \<Rightarrow> string \<Rightarrow> addr res" where
  "node_named m s = (case m_name_to_node m s of None \<Rightarrow> Inl Null_Deref | Some a \<Rightarrow> Inr a)"

text \<open>An output of circuit 2 gets a pointer of circuit 1 by name; the code does not check the latter.\<close>

definition init_named :: "string \<times> string \<Rightarrow> init_state \<Rightarrow> init_state res" where
  "init_named = (\<lambda>(s2, s1) s.
     rbind (node_named (i_mod2 s) s2) (\<lambda>b. rbind (node_named (i_mod1 s) s1) (\<lambda>a.
     rbind (vpush (i_init_output s) (n_idx (i_heap s b)) a) (\<lambda>io. Inr (s\<lparr>i_init_output := io\<rparr>)))))"

text \<open>The permutation of bus 4 of circuit 1.\<close>

definition permute_bus4 :: "init_state \<Rightarrow> init_state res" where
  "permute_bus4 s =
     rbind (vget (m_bus_set (i_mod1 s)) 4) (\<lambda>bus.
     rbind (require (length bus \<ge> 4) Bad_Index) (\<lambda>_.
     let h = fold (\<lambda>(i, b) h. upd (bus ! i) (n_bit_idx_update (\<lambda>_. b)) h) [(0, 1), (1, 3), (2, 2), (3, 0)] (i_heap s);
         h = fold (\<lambda>i h. upd (bus ! i) (n_isFlip_update (\<lambda>_. True)) h) [0, 2] h;
         bus = std_sort (\<lambda>a b. n_bit_idx (h a) < n_bit_idx (h b)) bus
     in Inr (on_heap (\<lambda>_. h) (s\<lparr>i_mod1 := (i_mod1 s)\<lparr>m_bus_set := (m_bus_set (i_mod1 s))[4 := bus]\<rparr>\<rparr>))))"

definition init_bus4 :: "init_state \<Rightarrow> init_state res" where
  "init_bus4 s =
     rbind (vget (m_bus_set (i_mod2 s)) 4) (\<lambda>bus2. rbind (vget (m_bus_set (i_mod1 s)) 4) (\<lambda>bus1.
     rbind (rfold (\<lambda>i io. rbind (vget bus1 (int i)) (\<lambda>a. vpush io (n_idx (i_heap s (bus2 ! i))) a)) [0..<length bus2] (i_init_output s)) (\<lambda>io.
     Inr (s\<lparr>i_init_output := io\<rparr>))))"

text \<open>The control signals of a module in the slots of their codes.\<close>

definition slot_ctrl :: "module \<Rightarrow> (addr \<Rightarrow> node) \<Rightarrow> nat \<Rightarrow> addr list list \<Rightarrow> addr list list res" where
  "slot_ctrl m h i slots =
     rbind (vget (m_ctrl_signal m) (int i)) (\<lambda>a. rbind (getBus4Encode m h (int i)) (\<lambda>e. vpush slots e a))"

text \<open>The first inputs behind two matched control signals, for one of the buses 5 to 7.\<close>

definition match_first :: "addr \<Rightarrow> addr \<Rightarrow> int \<Rightarrow> init_state \<Rightarrow> init_state res" where
  "match_first a b i s =
     (let h = i_heap s; m1 = i_mod1 s; m2 = i_mod2 s in
     rbind (vget (m_first_pi m1) (n_bit_idx (h a))) (\<lambda>row1. rbind (vget (m_bus_set m1) i) (\<lambda>bus1. rbind (vget bus1 0) (\<lambda>x1.
     rbind (vget row1 (n_idx (h x1))) (\<lambda>(name1, neg1).
     rbind (vget (m_first_pi m2) (n_bit_idx (h b))) (\<lambda>row2. rbind (vget (m_bus_set m2) i) (\<lambda>bus2. rbind (vget bus2 0) (\<lambda>x2.
     rbind (vget row2 (n_idx (h x2))) (\<lambda>(name2, neg2).
     if name1 \<noteq> const_text False then
       rbind (node_named m2 name2) (\<lambda>c.
       rbind (vset (i_init_input s) (n_idx (h c)) (m_name_to_node m1 name1)) (\<lambda>ii.
       rbind (vset (i_init_input_ne s) (n_idx (h c)) (if (neg1 \<noteq> 0) \<noteq> (neg2 \<noteq> 0) then 1 else 0)) (\<lambda>ne.
       Inr (s\<lparr>i_init_input := ii, i_init_input_ne := ne\<rparr>))))
     else Inr s)))))))))"

definition match_slot :: "addr list \<Rightarrow> init_state \<Rightarrow> init_state res" where
  "match_slot v s =
     (if length v > 1 then
        let a = v ! 0; b = v ! 1 in
        rbind (vset (i_init_input s) (n_idx (i_heap s b)) (Some a)) (\<lambda>ii.
        rbind (vset (i_init_input_ne s) (n_idx (i_heap s b)) 0) (\<lambda>ne.
        rfold (match_first a b) [5..7] (s\<lparr>i_init_input := ii, i_init_input_ne := ne\<rparr>)))
      else Inr s)"

definition reset_bits :: "init_state \<Rightarrow> init_state" where
  "reset_bits s = on_heap (fold (\<lambda>x. upd x (n_bit_idx_update (\<lambda>_. -1))) (m_gate (i_mod1 s) INPUT @ m_gate (i_mod2 s) INPUT)) s"

text \<open>\<open>1 << size\<close>; the loop over the control signals of circuit 1 ends before the last one.\<close>

definition case_8 :: "init_state \<Rightarrow> init_state res" where
  "case_8 s =
     rbind (vget (m_bus_set (i_mod1 s)) 4) (\<lambda>bus.
     rbind (require (length bus < 31) Bad_Index) (\<lambda>_.
     rbind (permute_bus4 s) (\<lambda>s.
     rbind (rfold init_named [(''n29'', ''n5''), (''n194'', ''n142''), (''n245'', ''n153'')] s) (\<lambda>s.
     rbind (init_bus4 s) (\<lambda>s.
     let h = i_heap s; m1 = i_mod1 s; m2 = i_mod2 s in
     rbind (require (m_ctrl_signal m1 \<noteq> []) Bad_Index) (\<lambda>_.
     rbind (rfold (slot_ctrl m1 h) [0..<length (m_ctrl_signal m1) - 1] (replicate (2 ^ length bus) [])) (\<lambda>slots.
     rbind (rfold (slot_ctrl m2 h) [0..<length (m_ctrl_signal m2)] slots) (\<lambda>slots.
     rbind (rfold match_slot slots s) (\<lambda>s. Inr (reset_bits s))))))))))"

section \<open>\<open>MatchAlgo\<close>\<close>

definition analyse :: "init_env \<Rightarrow> int \<Rightarrow> net \<Rightarrow> net res" where
  "analyse E caseID mh =
     rbind (CountGate (e_fuel E) (ord_ints (e_ord E)) mh) (\<lambda>mh.
     rbind (OutputConfig (e_fuel E) (e_ord E) mh) (\<lambda>mh.
     if caseID = 3 then PartitionGroup (e_fuel E) (e_lhs_first E) 0 mh else Inr mh))"

definition fork1 :: "init_env \<Rightarrow> init_state \<times> string \<Rightarrow> (init_state \<times> string) res" where
  "fork1 E = (\<lambda>(s, old).
     rbind (ForkCtrlNetlist (e_abc E) (e_fuel E) (e_replace E) (e_del_out1 E) old 2 (i_mod1 s, i_store s)) (\<lambda>(m, st, old).
     Inr (s\<lparr>i_mod1 := m, i_store := st\<rparr>, old)))"

definition fork2 :: "init_env \<Rightarrow> init_state \<times> string \<Rightarrow> init_state res" where
  "fork2 E = (\<lambda>(s, old).
     rbind (ForkCtrlNetlist (e_abc E) (e_fuel E) (e_replace E) (e_del_out2 E) old 3 (i_mod2 s, i_store s)) (\<lambda>(m, st, old).
     Inr (s\<lparr>i_mod2 := m, i_store := st\<rparr>)))"

text \<open>Both modules, one after the other.\<close>

definition analyse_modules :: "init_env \<Rightarrow> int \<Rightarrow> init_state \<Rightarrow> init_state res" where
  "analyse_modules E caseID s =
     rbind (on_mod1 (analyse E caseID) s) (\<lambda>s.
     rbind (if caseID = 8 then fork1 E (s, e_mapped E) else Inr (s, e_mapped E)) (\<lambda>(s, old).
     rbind (on_mod2 (analyse E caseID) s) (\<lambda>s.
     if caseID = 8 then fork2 E (s, old) else Inr s)))"

definition init_start :: "module \<Rightarrow> module \<Rightarrow> store \<Rightarrow> init_state" where
  "init_start m1 m2 st =
     \<lparr>i_mod1 = m1, i_mod2 = m2, i_store = st, i_init_output = replicate (length (m_gate m2 OUTPUT)) [],
      i_init_input = replicate (length (m_gate m2 INPUT)) None, i_init_input_ne = replicate (length (m_gate m2 INPUT)) (-1),
      i_bus_map = [], i_match_pair = [], i_output_ne = [], i_in_match_pair = [], i_input_ne = [], i_const_match = []\<rparr>"

definition resize_pairs :: "init_state \<Rightarrow> init_state" where
  "resize_pairs s =
     s\<lparr>i_match_pair := resize (length (m_gate (i_mod1 s) OUTPUT)) [] (i_match_pair s),
       i_output_ne := resize (length (m_gate (i_mod2 s) OUTPUT)) False (i_output_ne s),
       i_in_match_pair := resize (length (m_gate (i_mod1 s) INPUT)) [] (i_in_match_pair s),
       i_input_ne := resize (length (m_gate (i_mod2 s) INPUT)) False (i_input_ne s)\<rparr>"

definition MatchAlgo :: "init_env \<Rightarrow> int \<Rightarrow> module \<Rightarrow> module \<Rightarrow> store \<Rightarrow> init_state res" where
  "MatchAlgo E caseID m1 m2 st =
     rbind (analyse_modules E caseID (init_start m1 m2 st)) (\<lambda>s.
     rbind (if caseID = 9 then case_9 s else if caseID = 3 then case_3 s else if caseID = 8 then case_8 s else Inr s) (\<lambda>s.
     let s = resize_pairs s in
     rbind (if m_allEquation (i_mod1 s) \<noteq> [] \<and> m_allEquation (i_mod2 s) \<noteq> [] \<and> caseID = 10 then setInitSolution s else Inr s) (\<lambda>s.
     if m_group (i_mod1 s) \<noteq> [] \<and> m_group (i_mod2 s) \<noteq> [] then setGroupMatch s else Inr s)))"


end
