(* ===== verification/Init_Inv.thy ===== *)
theory Init_Inv
  imports Match_Init Build_Inv
begin

text \<open>
  What the phase before the search keeps: the structure of both netlists, the ports and their buses up to the order
  inside a bus. So the typing of ports and buses that the parser and \<open>setBus\<close> establish is still there when the search
  starts.
\<close>

section \<open>Heaps with the same structure\<close>

definition same_struct :: "(addr \<Rightarrow> node) \<Rightarrow> (addr \<Rightarrow> node) \<Rightarrow> bool" where
  "same_struct h h' \<longleftrightarrow> (\<forall>a. n_name (h' a) = n_name (h a) \<and> n_type (h' a) = n_type (h a) \<and> n_fi (h' a) = n_fi (h a) \<and>
     n_fo (h' a) = n_fo (h a) \<and> n_inv (h' a) = n_inv (h a) \<and> n_idx (h' a) = n_idx (h a) \<and>
     n_bus_idx (h' a) = n_bus_idx (h a) \<and> n_bus_indices (h' a) = n_bus_indices (h a))"

named_theorems struct_intros "updates that keep the structure"

lemma same_struct_refl [struct_intros]: "same_struct h h"
  by (simp add: same_struct_def)

lemma same_struct_trans: "same_struct h h' \<Longrightarrow> same_struct h' h'' \<Longrightarrow> same_struct h h''"
  by (simp add: same_struct_def)

interpretation struct: kept same_struct
  by unfold_locales (rule same_struct_refl, rule same_struct_trans)

definition keeps_struct :: "(node \<Rightarrow> node) \<Rightarrow> bool" where
  "keeps_struct f \<longleftrightarrow> (\<forall>n. n_name (f n) = n_name n \<and> n_type (f n) = n_type n \<and> n_fi (f n) = n_fi n \<and> n_fo (f n) = n_fo n \<and>
     n_inv (f n) = n_inv n \<and> n_idx (f n) = n_idx n \<and> n_bus_idx (f n) = n_bus_idx n \<and> n_bus_indices (f n) = n_bus_indices n)"

lemma same_struct_upd [struct_intros]: "same_struct h0 h \<Longrightarrow> keeps_struct f \<Longrightarrow> same_struct h0 (upd a f h)"
  by (simp add: same_struct_def keeps_struct_def upd_apply)

lemma same_struct_fold: "same_struct h0 h \<Longrightarrow> (\<And>x. keeps_struct (f x)) \<Longrightarrow> same_struct h0 (fold (\<lambda>x. upd (g x) (f x)) xs h)"
  by (induction xs arbitrary: h) (auto intro: struct_intros)

lemma keeps_struct_fields [simp]:
  "keeps_struct (\<lambda>n. n\<lparr>n_pi := v1 n\<rparr>)" "keeps_struct (\<lambda>n. n\<lparr>n_signature := v2 n\<rparr>)"
  "keeps_struct (\<lambda>n. n\<lparr>n_same_input_bit := v3 n\<rparr>)" "keeps_struct (\<lambda>n. n\<lparr>n_bit_idx := v4 n\<rparr>)" "keeps_struct (\<lambda>n. n\<lparr>n_pi_idx := v5 n\<rparr>)"
  "keeps_struct (n_pi_idx_update g5)" "keeps_struct (n_bit_idx_update g4)" "keeps_struct (n_isFlip_update g6)"
  "keeps_struct (n_priority_update g7)" "keeps_struct (n_same_input_bit_update g3)"
  by (simp_all add: keeps_struct_def)

section \<open>\<open>CountGate\<close>\<close>

lemma sign_input_struct:
  "sign_input inputs out row j (c, h) = Inr (c', h') \<Longrightarrow> same_struct h0 h \<Longrightarrow> same_struct h0 h'"
  by (auto simp: sign_input_def res_simps intro!: struct_intros)

lemma count_output_struct:
  assumes "count_output k inputs out (p, c, h) = Inr (p', c', h')" "same_struct h0 h"
  shows "same_struct h0 h'"
proof -
  obtain row c1 h1 where r: "rfold (sign_input inputs out row) (n_pi_idx (h out)) (c, h) = Inr (c1, h1)"
    and h': "h' = upd out (\<lambda>n. n\<lparr>n_signature := std_sort (\<lambda>a b. a > b) (n_signature n)\<rparr>) h1"
    using assms(1) by (auto simp: count_output_def res_simps)
  have "(\<lambda>(c, h). same_struct h0 h) (c1, h1)"
    by (rule rfold_inv [OF r]) (use assms(2) sign_input_struct in auto)
  then show ?thesis by (auto simp: h' intro!: struct_intros)
qed

lemma CountGate_struct:
  assumes "CountGate k ord (m, h) = Inr (m', h')"
  shows "same_struct h h' \<and> m_gate m' = m_gate m \<and> m_bus_set m' = m_bus_set m \<and> length (m_input_sig m') = length (m_gate m INPUT)"
proof -
  obtain p c where r: "rfold (count_output k (m_gate m INPUT)) (m_gate m OUTPUT)
      (replicate (length (m_gate m OUTPUT)) (replicate (length (m_gate m INPUT)) 0), m_path_cnt m, h) = Inr (p, c, h')"
    and m': "m' = m\<lparr>m_gate_path := p, m_path_cnt := c, m_input_sig := map (\<lambda>a. sig_mode ord (n_signature (h' a))) (m_gate m INPUT)\<rparr>"
    using assms by (auto simp: CountGate_def res_simps)
  have "same_struct h h'"
    using struct.rfold_kept [OF r, of "\<lambda>(p, c, h). h"] count_output_struct struct_intros(1) by auto
  then show ?thesis by (simp add: m')
qed

section \<open>\<open>OutputConfig\<close>\<close>

lemma CollectPI_bit_struct:
  "CollectPI_bit k bp out now par h = Inr (r, h') \<Longrightarrow> same_struct h0 h \<Longrightarrow> same_struct h0 h'"
proof (induction k arbitrary: now par h r h')
  case 0
  then show ?case by simp
next
  case (Suc k)
  consider "n_type (h now) = INPUT" | "n_type (h now) = AND" | "n_type (h now) \<noteq> INPUT" "n_type (h now) \<noteq> AND" by blast
  then show ?case
  proof cases
    case 1
    then show ?thesis using Suc.prems
      by (auto simp: Let_def res_simps intro!: struct_intros split: option.splits if_splits)
  next
    case 2
    let ?f = "\<lambda>inp g. rbind (if n_inv (g now) > 0 \<and> n_type (g inp) = AND then flipped_at (g now) inp else Inr False) (\<lambda>wrong.
          if wrong then Inr (True, g)
          else rbind (CollectPI_bit k bp out inp (Some now) g) (\<lambda>(r, g). Inr (r \<and> bp = 0, g)))"
    have s: "search ?f (n_fi (h now)) h = Inr (r, h')" using Suc.prems(1) 2 by simp
    show ?thesis
      by (rule search_keeps [where I = "same_struct h0", OF s Suc.prems(2)])
        (auto simp: res_simps intro: Suc.IH split: if_splits)
  next
    case 3
    then show ?thesis using Suc.prems by simp
  qed
qed

lemma trace_and_struct:
  "trace_and k bp g (M, h) = Inr (r, M', h') \<Longrightarrow> same_struct h0 h \<Longrightarrow> same_struct h0 h'"
  by (auto simp: trace_and_def res_simps intro: CollectPI_bit_struct split: if_splits)

lemma TraceTerm_struct:
  assumes "TraceTerm k ord m out bp (B, h) = Inr (r, B', h')" "same_struct h0 h"
  shows "same_struct h0 h'"
proof -
  obtain xs M r' M' where s: "search (trace_and k bp) xs (M, h) = Inr (r', M', h')"
    using assms(1) by (cases B) (auto simp: TraceTerm_def res_simps split: if_splits)
  have "(\<lambda>(M, h). same_struct h0 h) (M', h')"
    by (rule search_keeps [OF s]) (use assms(2) trace_and_struct in auto)
  then show ?thesis by simp
qed

lemma trace_terms_struct:
  assumes "trace_terms k ord m bus (B, h) = Inr (B', h')" "same_struct h0 h"
  shows "same_struct h0 h'"
proof -
  have "(\<lambda>(B, h). same_struct h0 h) (B', h')"
    by (rule rfold_inv [OF assms(1) [unfolded trace_terms_def]])
      (use assms(2) TraceTerm_struct in \<open>auto simp: res_simps\<close>)
  then show ?thesis by simp
qed

lemma add_input_struct: "add_input inputs out i h = Inr h' \<Longrightarrow> same_struct h0 h \<Longrightarrow> same_struct h0 h'"
  by (auto simp: add_input_def res_simps intro!: struct_intros)

lemma add_inputs_struct:
  assumes "rfold (add_input inputs out) is h = Inr h'" "same_struct h0 h"
  shows "same_struct h0 h'"
  by (rule rfold_inv [where P = "same_struct h0", OF assms]) (rule add_input_struct)

lemma place_bit_struct:
  assumes "place_bit inputs bus i (e, x, h) = Inr (e', x', h')" "same_struct h0 h"
  shows "same_struct h0 h'"
proof -
  let ?h = "upd (bus ! i) (n_bit_idx_update (\<lambda>_. int (length bus - i - 1))) h"
  let ?ys = "own_inputs (?h (bus ! i)) (?h (bus ! Suc i))"
  let ?g = "fold (\<lambda>j. upd (bus ! j) (\<lambda>n. n\<lparr>n_bit_idx := n_bit_idx n - 1\<rparr>)) (rev [0..<Suc i]) ?h"
  have "rfold (add_input inputs (bus ! i)) ?ys (if ?ys = [] then ?g else ?h) = Inr h'"
    using assms(1) unfolding place_bit_def Let_def prod.case by (cases "?ys = []") (auto simp: res_simps simp del: upt_Suc)
  moreover have "same_struct h0 (if ?ys = [] then ?g else ?h)"
    using assms(2) by (auto intro!: struct_intros same_struct_fold simp del: upt_Suc)
  ultimately show ?thesis by (rule add_inputs_struct)
qed

lemma mark_output_struct:
  assumes "same_struct h0 h"
  shows "same_struct h0 (snd (mark_output ord out (vis, h)))"
proof -
  have "same_struct h0 (snd (fold (\<lambda>pi (vis, h).
           let h = upd pi (n_bit_idx_update (\<lambda>_. n_bit_idx (h out))) h in (insert_new (n_bus_idx (h pi)) vis, h)) xs (vis, h)))" for xs
    using assms by (induction xs arbitrary: vis h) (simp_all add: Let_def struct_intros)
  then show ?thesis by (auto simp: mark_output_def Let_def split_def intro!: struct_intros)
qed

lemma mark_outputs_struct:
  assumes "same_struct h0 h"
  shows "same_struct h0 (snd (fold (mark_output ord) bus (vis, h)))"
  using assms
proof (induction bus arbitrary: vis h)
  case (Cons out bus)
  then show ?case using mark_output_struct [OF Cons.prems, of ord out vis] by (cases "mark_output ord out (vis, h)") auto
qed simp

lemma sort_same_bit_struct: "sort_same_bit ord bs B out h = Inr h' \<Longrightarrow> same_struct h0 h \<Longrightarrow> same_struct h0 h'"
  by (auto simp: sort_same_bit_def Let_def intro!: struct_intros split: if_splits)

section \<open>Modules with the same ports\<close>

definition same_mod :: "module \<Rightarrow> module \<Rightarrow> bool" where
  "same_mod m m' \<longleftrightarrow> m_gate m' = m_gate m \<and> m_input_sig m' = m_input_sig m \<and> m_name_to_node m' = m_name_to_node m \<and>
     list_all2 (\<lambda>xs ys. mset ys = mset xs) (m_bus_set m) (m_bus_set m')"

definition orders_ok :: "orders \<Rightarrow> bool" where
  "orders_ok ord \<longleftrightarrow> (\<forall>lt xs. mset (ord_sort ord lt xs) = mset xs)"

lemma same_mod_refl [simp]: "same_mod m m"
  by (simp add: same_mod_def list_all2_refl)

lemma same_mod_trans: "same_mod m m' \<Longrightarrow> same_mod m' m'' \<Longrightarrow> same_mod m m''"
  by (auto simp: same_mod_def elim: list_all2_trans [rotated])

interpretation mods: kept same_mod
  by unfold_locales (rule same_mod_refl, rule same_mod_trans)

lemma same_mod_fields [simp]:
  "same_mod m (m'\<lparr>m_allEquation := eqs\<rparr>) = same_mod m m'" "same_mod m (m'\<lparr>m_bus_signature := sig\<rparr>) = same_mod m m'"
  "same_mod m (m'\<lparr>m_group := gs\<rparr>) = same_mod m m'" "same_mod m (m'\<lparr>m_set_to_group_idx := ix\<rparr>) = same_mod m m'"
  by (simp_all add: same_mod_def)

lemma same_mod_sort:
  assumes "same_mod m m'" "b < length (m_bus_set m')" "mset xs = mset (m_bus_set m' ! b)"
  shows "same_mod m (m'\<lparr>m_bus_set := (m_bus_set m')[b := xs]\<rparr>)"
  using assms by (auto simp: same_mod_def list_all2_conv_all_nth nth_list_update)

lemma same_mod_length: "same_mod m m' \<Longrightarrow> length (m_bus_set m') = length (m_bus_set m)"
  by (auto simp: same_mod_def list_all2_lengthD)

lemma CombineTerm_mod: "CombineTerm ord B m = Inr (B', m') \<Longrightarrow> same_mod m0 m \<Longrightarrow> same_mod m0 m'"
  by (cases B) (auto simp: CombineTerm_def res_simps Let_def split: if_splits)

lemma bus_equation_keeps:
  assumes run: "bus_equation k ord bus (m, h) = Inr (m', h')" and s: "same_struct h0 h" "same_mod m0 m"
  shows "same_struct h0 h' \<and> same_mod m0 m'"
proof -
  let ?m = "m\<lparr>m_allEquation := m_allEquation m @ [new_operation bus]\<rparr>"
  have m: "same_mod m0 ?m" using s(2) by simp
  obtain w A M h1 where t: "TraceTerm k ord ?m (last bus) 0 (([], []), h) = Inr (w, (A, M), h1)"
    and rest: "(if w then
       rbind (trace_terms k ord ?m bus ((A, M), h1)) (\<lambda>((A, M), h).
       rbind (CombineTerm ord (A, []) ?m) (\<lambda>((A, M), m).
       rbind (rfold (sort_same_bit ord (m_bus_set m) A) bus h) (\<lambda>h.
       if report_ok bus h then Inr (m, h) else Inl Bad_Index)))
     else if A \<noteq> [] \<or> M \<noteq> [] then
       rbind (trace_terms k ord ?m bus ((A, M), h1)) (\<lambda>((A, M), h).
       rbind (CombineTerm ord (A, M) ?m) (\<lambda>(_, m).
       if report_ok bus h then Inr (m, h) else Inl Bad_Index))
     else Inr (?m, h1)) = Inr (m', h')"
    using run by (auto simp: bus_equation_def Let_def res_simps)
  have h1: "same_struct h0 h1" by (rule TraceTerm_struct [OF t s(1)])
  consider "w" | "\<not> w" "A \<noteq> [] \<or> M \<noteq> []" | "\<not> w" "A = []" "M = []" by blast
  then show ?thesis
  proof cases
    case 1
    then obtain A2 M2 h2 B where tt: "trace_terms k ord ?m bus ((A, M), h1) = Inr ((A2, M2), h2)"
      and c: "CombineTerm ord (A2, []) ?m = Inr (B, m')"
      and f: "rfold (sort_same_bit ord (m_bus_set m') (fst B)) bus h2 = Inr h'"
      using rest by (auto simp: res_simps split: if_splits)
    have "same_struct h0 h2" by (rule trace_terms_struct [OF tt h1])
    then have "same_struct h0 h'" by (rule rfold_inv [where P = "same_struct h0", OF f]) (rule sort_same_bit_struct)
    then show ?thesis using CombineTerm_mod [OF c m] by simp
  next
    case 2
    then obtain A2 M2 B where tt: "trace_terms k ord ?m bus ((A, M), h1) = Inr ((A2, M2), h')"
      and c: "CombineTerm ord (A2, M2) ?m = Inr (B, m')"
      using rest by (auto simp: res_simps split: if_splits)
    show ?thesis using trace_terms_struct [OF tt h1] CombineTerm_mod [OF c m] by simp
  next
    case 3
    then show ?thesis using rest h1 m by simp
  qed
qed

lemma sort_bus_keeps:
  assumes "sort_bus ord n h b m = Inr (r, m')" "orders_ok ord" "same_mod m0 m"
  shows "same_mod m0 m'"
  using assms by (auto simp: sort_bus_def res_simps orders_ok_def in_range_def intro!: same_mod_sort split: if_splits)

lemma BusConfig_keeps:
  assumes run: "BusConfig k ord i (m, h) = Inr (m', h')" and i: "i < length (m_bus_set m)" and ord: "orders_ok ord"
  shows "same_struct h h' \<and> same_mod m m'"
proof (cases "length (m_bus_set m ! i) = 1")
  case True
  then show ?thesis using run by (simp add: BusConfig_def struct_intros)
next
  case False
  define bus where "bus = ord_sort ord (\<lambda>a b. length (n_pi_idx (h a)) > length (n_pi_idx (h b))) (m_bus_set m ! i)"
  define m1 where "m1 = m\<lparr>m_bus_set := (m_bus_set m)[i := bus]\<rparr>"
  have m1: "same_mod m m1" unfolding m1_def
    by (rule same_mod_sort) (use i ord in \<open>simp_all add: bus_def orders_ok_def\<close>)
  obtain e x h1 where p: "rfold (place_bit (m_gate m1 INPUT) bus) [0..<length bus - 1] (0, 0, h) = Inr (e, x, h1)"
    and rest: "(let h = upd (last bus) (n_bit_idx_update (\<lambda>_. 0)) h1 in
       if x \<ge> int (length bus div 2) \<and> x \<noteq> 0
       then Inr (m1, fold (\<lambda>x. upd x (n_bit_idx_update (\<lambda>_. -1))) bus h)
       else if e + 1 \<ge> int (length bus) \<and> e \<noteq> 0 then Inr (m1, h)
       else
         rbind (rfold (add_input (m_gate m1 INPUT) (last bus)) (n_pi_idx (h (last bus))) h) (\<lambda>h.
         let (vis, h) = fold (mark_output ord) bus ([], h) in
         rbind (search (sort_bus ord (length bus) h) (ord_ints ord vis) m1) (\<lambda>(stop, m).
         if stop then Inr (m, h) else bus_equation k ord (m_bus_set m ! i) (m, h)))) = Inr (m', h')"
    using run False unfolding BusConfig_def Let_def prod.case bus_def [symmetric] m1_def [symmetric]
    by (auto simp: res_simps)
  have h1: "same_struct h h1"
    using struct.rfold_kept [OF p, of "\<lambda>(e, x, h). h"] place_bit_struct struct_intros(1) by auto
  define h2 where "h2 = upd (last bus) (n_bit_idx_update (\<lambda>_. 0)) h1"
  have h2: "same_struct h h2" using h1 by (simp add: h2_def struct_intros)
  note rest' = rest [unfolded Let_def, folded h2_def]
  consider "x \<ge> int (length bus div 2) \<and> x \<noteq> 0" | "\<not> (x \<ge> int (length bus div 2) \<and> x \<noteq> 0)" "e + 1 \<ge> int (length bus) \<and> e \<noteq> 0"
    | "\<not> (x \<ge> int (length bus div 2) \<and> x \<noteq> 0)" "\<not> (e + 1 \<ge> int (length bus) \<and> e \<noteq> 0)" by blast
  then show ?thesis
  proof cases
    case 1
    then have "h' = fold (\<lambda>x. upd x (n_bit_idx_update (\<lambda>_. -1))) bus h2" "m' = m1" using rest' by auto
    then show ?thesis using h2 m1 by (simp add: same_struct_fold)
  next
    case 2
    then have "h' = h2" "m' = m1" using rest' by auto
    then show ?thesis using h2 m1 by simp
  next
    case 3
    have rest3: "rbind (rfold (add_input (m_gate m1 INPUT) (last bus)) (n_pi_idx (h2 (last bus))) h2) (\<lambda>h.
         case fold (mark_output ord) bus ([], h) of (vis, h) \<Rightarrow>
         rbind (search (sort_bus ord (length bus) h) (ord_ints ord vis) m1) (\<lambda>(stop, m).
         if stop then Inr (m, h) else bus_equation k ord (m_bus_set m ! i) (m, h))) = Inr (m', h')"
      using rest' 3 by (simp only: if_False)
    obtain h3 where a: "rfold (add_input (m_gate m1 INPUT) (last bus)) (n_pi_idx (h2 (last bus))) h2 = Inr h3"
      using rest3 by (auto simp: res_simps)
    obtain vis h4 where f: "fold (mark_output ord) bus ([], h3) = (vis, h4)" by (cases "fold (mark_output ord) bus ([], h3)")
    obtain stop m2 where s: "search (sort_bus ord (length bus) h4) (ord_ints ord vis) m1 = Inr (stop, m2)"
      and last: "(if stop then Inr (m2, h4) else bus_equation k ord (m_bus_set m2 ! i) (m2, h4)) = Inr (m', h')"
      using rest3 by (auto simp: res_simps a f)
    have "same_struct h h3" by (rule add_inputs_struct [OF a h2])
    then have h4: "same_struct h h4" using mark_outputs_struct [of h h3 ord bus "[]"] f by simp
    have "same_mod m1 m2"
      by (rule mods.search_kept [where view = "\<lambda>m. m", OF s]) (rule sort_bus_keeps [OF _ ord same_mod_refl])
    then have m2: "same_mod m m2" using m1 same_mod_trans by blast
    show ?thesis
    proof (cases stop)
      case True
      then show ?thesis using last h4 m2 by simp
    next
      case False
      then show ?thesis using last bus_equation_keeps [OF _ h4 m2] by simp
    qed
  qed
qed

lemma config_bus_keeps:
  assumes "config_bus k ord i (m, h) = Inr (m', h')" "i < length (m_bus_set m)" "orders_ok ord"
  shows "same_struct h h' \<and> same_mod m m'"
  using assms BusConfig_keeps [of k ord i m h m' h'] by (auto simp: config_bus_def res_simps struct_intros split: if_splits)

lemma OutputConfig_keeps:
  assumes run: "OutputConfig k ord (m, h) = Inr (m', h')" and ord: "orders_ok ord"
  shows "same_struct h h' \<and> same_mod m m'"
proof -
  obtain m1 where f: "rfold (config_bus k ord) [0..<length (m_bus_set m)] (m, h) = Inr (m1, h')"
    and m': "\<exists>eqs. m' = m1\<lparr>m_allEquation := eqs\<rparr>"
    using run by (auto simp: OutputConfig_def res_simps)
  have "(\<lambda>(m1, h1). same_struct h h1 \<and> same_mod m m1) (m1, h')"
  proof (rule rfold_inv [OF f])
    show "(\<lambda>(m1, h1). same_struct h h1 \<and> same_mod m m1) (m, h)" by (simp add: struct_intros)
  next
    fix i u v
    assume i: "i \<in> set [0..<length (m_bus_set m)]" and u: "(\<lambda>(m1, h1). same_struct h h1 \<and> same_mod m m1) u"
      and run: "config_bus k ord i u = Inr v"
    have u': "same_struct h (snd u)" "same_mod m (fst u)" using u by (simp_all add: split_def)
    have "i < length (m_bus_set (fst u))" using i same_mod_length [OF u'(2)] by simp
    then have "same_struct (snd u) (snd v) \<and> same_mod (fst u) (fst v)"
      using config_bus_keeps [OF _ _ ord, of k i "fst u" "snd u" "fst v" "snd v"] run by simp
    then show "(\<lambda>(m1, h1). same_struct h h1 \<and> same_mod m m1) v"
      using u' by (auto intro: same_struct_trans same_mod_trans simp: split_def)
  qed
  then show ?thesis using m' by auto
qed

section \<open>Groups\<close>

lemma CollectPI_struct: "CollectPI k out now h = Inr h' \<Longrightarrow> same_struct h0 h \<Longrightarrow> same_struct h0 h'"
proof (induction k arbitrary: now h h')
  case 0
  then show ?case by simp
next
  case (Suc k)
  show ?case
  proof (cases "n_type (h now) = INPUT")
    case True
    then show ?thesis using Suc.prems by (auto intro!: struct_intros)
  next
    case False
    then have "rfold (CollectPI k out) (n_fi (h now)) h = Inr h'" using Suc.prems(1) by simp
    then show ?thesis by (rule rfold_inv [where P = "same_struct h0"]) (use Suc.prems(2) Suc.IH in auto)
  qed
qed

lemma group_root_struct:
  assumes "group_root k b root s = Inr s'" "same_struct h0 (gs_heap s)"
  shows "same_struct h0 (gs_heap s')"
proof -
  obtain r neg where root: "root = (r, neg)" by (cases root)
  obtain h1 where c: "CollectPI k r r (upd r (n_pi_idx_update (\<lambda>_. [])) (gs_heap s)) = Inr h1"
    using assms(1) by (auto simp: group_root_def root Let_def res_simps)
  have "same_struct h0 h1" by (rule CollectPI_struct [OF c]) (simp add: assms(2) struct_intros)
  then show ?thesis using assms(1) c by (auto simp: group_root_def root Let_def split_def intro!: struct_intros)
qed

lemma group_output_struct:
  assumes "group_output k b m out (h, ix, n, gs) = Inr (h', ix', n', gs')" "same_struct h0 h"
  shows "same_struct h0 h'"
proof -
  obtain roots s where f: "rfold (group_root k b) roots \<lparr>gs_heap = h, gs_idx = ix, gs_size = n, gs_op = new_operation [out]\<rparr> = Inr s"
    and h': "h' = gs_heap s"
    using assms(1) by (auto simp: group_output_def res_simps)
  have "same_struct h0 (gs_heap s)"
    by (rule rfold_inv [where P = "\<lambda>s. same_struct h0 (gs_heap s)", OF f]) (use assms(2) group_root_struct in auto)
  then show ?thesis by (simp add: h')
qed

lemma PartitionGroup_keeps:
  assumes "PartitionGroup k b n (m, h) = Inr (m', h')"
  shows "same_struct h h' \<and> same_mod m m'"
proof -
  obtain ix n' gs where f: "rfold (group_output k b m) (m_gate m OUTPUT) (h, m_set_to_group_idx m, n, m_group m) = Inr (h', ix, n', gs)"
    and m': "same_mod m m'"
    using assms by (auto simp: PartitionGroup_def Let_def res_simps)
  have "same_struct h h'"
    using struct.rfold_kept [OF f, of "\<lambda>(h, ix, n, gs). h"] group_output_struct struct_intros(1) by auto
  then show ?thesis using m' by auto
qed

section \<open>The typing of ports and buses\<close>

text \<open>What \<open>setBus\<close> establishes: positions and kinds of the ports, and the buses.\<close>

definition typed_net :: "module \<Rightarrow> (addr \<Rightarrow> node) \<Rightarrow> bool" where
  "typed_net m h \<longleftrightarrow> ports_ok h INPUT (m_gate m INPUT) (m_bus_set m) \<and> ports_ok h OUTPUT (m_gate m OUTPUT) (m_bus_set m) \<and>
     buses_ok (m_gate m INPUT) (m_gate m OUTPUT) (m_bus_set m)"

lemma bus_kind:
  assumes "typed_net m h" "xs \<in> set (m_bus_set m)" "a \<in> set xs" "b \<in> set xs"
  shows "n_type (h a) = n_type (h b)"
proof -
  have type: "n_type (h c) = t" if "ports_ok h t ports bus" "c \<in> set ports" for c t ports bus
    using port_idx(3) [OF that] .
  have "set xs \<subseteq> set (m_gate m INPUT) \<or> set xs \<subseteq> set (m_gate m OUTPUT)"
    using assms(1,2) by (auto simp: typed_net_def buses_ok_def)
  then show ?thesis using assms type unfolding typed_net_def by (metis subsetD)
qed

lemma same_mset_bus:
  assumes "same_mod m m'" "in_range (m_bus_set m) b"
  shows "in_range (m_bus_set m') b" "mset (m_bus_set m' ! nat b) = mset (m_bus_set m ! nat b)"
  using assms by (auto simp: same_mod_def in_range_def list_all2_conv_all_nth)

lemma typed_net_keep:
  assumes t: "typed_net m h" and s: "same_struct h h'" "same_mod m m'"
  shows "typed_net m' h'"
proof -
  have fields: "n_idx (h' a) = n_idx (h a)" "n_type (h' a) = n_type (h a)" "n_bus_idx (h' a) = n_bus_idx (h a)"
    "n_bus_indices (h' a) = n_bus_indices (h a)" for a
    using s(1) by (simp_all add: same_struct_def)
  have gates: "m_gate m' = m_gate m" using s(2) by (simp add: same_mod_def)
  have hd: "n_type (h (hd (m_bus_set m' ! nat b))) = n_type (h (hd (m_bus_set m ! nat b)))" if b: "in_range (m_bus_set m) b" for b
  proof -
    have in_bus: "m_bus_set m ! nat b \<in> set (m_bus_set m)" by (rule nth_in_range [OF b])
    have "m_bus_set m ! nat b \<noteq> []" using t in_bus by (auto simp: typed_net_def buses_ok_def)
    moreover have eq: "set (m_bus_set m' ! nat b) = set (m_bus_set m ! nat b)"
      using same_mset_bus(2) [OF s(2) b] by (metis set_mset_mset)
    ultimately have "hd (m_bus_set m' ! nat b) \<in> set (m_bus_set m ! nat b)"
      by (metis eq hd_in_set set_empty)
    then show ?thesis using bus_kind [OF t in_bus] \<open>m_bus_set m ! nat b \<noteq> []\<close> by (meson hd_in_set)
  qed
  have ports: "ports_ok h' u (m_gate m' u) (m_bus_set m')" if "ports_ok h u (m_gate m u) (m_bus_set m)" for u
    using that hd same_mset_bus(1) [OF s(2)] unfolding ports_ok_def fields gates by simp
  have "buses_ok (m_gate m INPUT) (m_gate m OUTPUT) (m_bus_set m')"
    unfolding buses_ok_def
  proof
    fix xs assume "xs \<in> set (m_bus_set m')"
    then obtain b where b: "b < length (m_bus_set m')" "m_bus_set m' ! b = xs" by (auto simp: in_set_conv_nth)
    then have "b < length (m_bus_set m)" using same_mod_length [OF s(2)] by simp
    then have r: "in_range (m_bus_set m) (int b)" by simp
    then have eq: "set xs = set (m_bus_set m ! b)" using same_mset_bus(2) [OF s(2) r] b(2) by (metis nat_int set_mset_mset)
    have "m_bus_set m ! b \<in> set (m_bus_set m)" using r by simp
    then show "xs \<noteq> [] \<and> (set xs \<subseteq> set (m_gate m INPUT) \<or> set xs \<subseteq> set (m_gate m OUTPUT))"
      using t eq by (auto simp: typed_net_def buses_ok_def)
  qed
  then show ?thesis using t ports by (simp add: typed_net_def gates)
qed

section \<open>\<open>MatchAlgo\<close>\<close>

text \<open>The analysis of one module.\<close>

definition analysed :: "module \<Rightarrow> module \<Rightarrow> bool" where
  "analysed m m' \<longleftrightarrow> m_gate m' = m_gate m \<and> length (m_input_sig m') = length (m_gate m INPUT)"

lemma typed_net_sig [simp]:
  "typed_net (m\<lparr>m_gate_path := p, m_path_cnt := c, m_input_sig := s\<rparr>) h = typed_net m h"
  by (simp add: typed_net_def)

lemma typed_net_mod: "m_gate m' = m_gate m \<Longrightarrow> m_bus_set m' = m_bus_set m \<Longrightarrow> same_struct h h' \<Longrightarrow> typed_net m h \<Longrightarrow> typed_net m' h'"
  by (simp add: typed_net_def ports_ok_def same_struct_def)

lemma analyse_keeps:
  assumes run: "analyse E c (m, h) = Inr (m', h')" and ord: "orders_ok (e_ord E)" and t: "typed_net m h"
  shows "typed_net m' h' \<and> same_struct h h' \<and> analysed m m'"
proof -
  obtain m1 h1 m2 h2 where 1: "CountGate (e_fuel E) (ord_ints (e_ord E)) (m, h) = Inr (m1, h1)"
    and 2: "OutputConfig (e_fuel E) (e_ord E) (m1, h1) = Inr (m2, h2)"
    and 3: "(if c = 3 then PartitionGroup (e_fuel E) (e_lhs_first E) 0 (m2, h2) else Inr (m2, h2)) = Inr (m', h')"
    using run by (auto simp: analyse_def res_simps)
  note c1 = CountGate_struct [OF 1] and c2 = OutputConfig_keeps [OF 2 ord]
  have t1: "typed_net m1 h1" by (rule typed_net_mod [OF _ _ _ t]) (use c1 in simp_all)
  have c3: "same_struct h2 h' \<and> same_mod m2 m'"
    using 3 PartitionGroup_keeps [of "e_fuel E" "e_lhs_first E" 0 m2 h2 m' h'] by (auto simp: struct_intros split: if_splits)
  have "same_mod m1 m'" using c2 c3 same_mod_trans by blast
  moreover have "same_struct h1 h'" using c2 c3 same_struct_trans by blast
  ultimately show ?thesis using typed_net_keep [OF t1] c1 same_struct_trans [of h h1 h'] by (simp add: analysed_def same_mod_def)
qed

text \<open>What the rest of the phase keeps of its state.\<close>

definition tables_fit :: "init_state \<Rightarrow> bool" where
  "tables_fit s \<longleftrightarrow> length (i_init_output s) = length (m_gate (i_mod2 s) OUTPUT) \<and>
     length (i_init_input s) = length (m_gate (i_mod2 s) INPUT) \<and> length (i_init_input_ne s) = length (m_gate (i_mod2 s) INPUT)"

definition state_keeps :: "init_state \<Rightarrow> init_state \<Rightarrow> bool" where
  "state_keeps s s' \<longleftrightarrow> same_struct (i_heap s) (i_heap s') \<and> same_mod (i_mod1 s) (i_mod1 s') \<and> same_mod (i_mod2 s) (i_mod2 s') \<and>
     next_addr (i_store s') = next_addr (i_store s) \<and> (tables_fit s \<longrightarrow> tables_fit s')"

lemma state_keeps_refl [simp]: "state_keeps s s"
  by (simp add: state_keeps_def struct_intros)

lemma state_keeps_trans: "state_keeps s s' \<Longrightarrow> state_keeps s' s'' \<Longrightarrow> state_keeps s s''"
  unfolding state_keeps_def using same_struct_trans same_mod_trans by metis

interpretation state: kept state_keeps
  by unfold_locales (rule state_keeps_refl, rule state_keeps_trans)

lemma on_heap_fields [simp]:
  "i_mod1 (on_heap f s) = i_mod1 s" "i_mod2 (on_heap f s) = i_mod2 s" "i_heap (on_heap f s) = f (i_heap s)"
  "next_addr (i_store (on_heap f s)) = next_addr (i_store s)" "tables_fit (on_heap f s) = tables_fit s"
  "i_init_output (on_heap f s) = i_init_output s" "i_init_input (on_heap f s) = i_init_input s"
  "i_init_input_ne (on_heap f s) = i_init_input_ne s"
  by (simp_all add: on_heap_def tables_fit_def)

lemma state_keeps_heap: "same_struct (i_heap s) (f (i_heap s)) \<Longrightarrow> state_keeps s (on_heap f s)"
  by (simp add: state_keeps_def)

lemma vpush_length: "vpush xss i x = Inr yss \<Longrightarrow> length yss = length xss"
  by (auto simp: vpush_def res_simps)

lemma flip_if_struct: "same_struct h0 h \<Longrightarrow> same_struct h0 (flip_if P xs h)"
  unfolding flip_if_def by (induction xs arbitrary: h) (simp_all add: same_struct_upd)

lemma flip_bus_keeps: "flip_bus b P s = Inr s' \<Longrightarrow> state_keeps s s'"
  by (auto simp: flip_bus_def res_simps intro!: state_keeps_heap flip_if_struct struct_intros)

lemma case_9_keeps:
  assumes "case_9 s = Inr s'"
  shows "state_keeps s s'"
proof -
  obtain s1 s2 s3 s4 s5 eqs where "flip_bus 31 (\<lambda>x. n_name x \<noteq> ''n1112'') s = Inr s1" "flip_bus 16 (\<lambda>x. n_bit_idx x = 6) s1 = Inr s2"
    "flip_bus 20 (\<lambda>x. n_bit_idx x \<le> 7 \<and> n_bit_idx x \<ge> 5) s2 = Inr s3" "flip_bus 42 (\<lambda>x. n_bit_idx x = 6) s3 = Inr s4"
    "flip_bus 46 (\<lambda>x. n_bit_idx x = 5) s4 = Inr s5" and s': "s' = s5\<lparr>i_mod2 := (i_mod2 s5)\<lparr>m_allEquation := eqs\<rparr>\<rparr>"
    using assms by (auto simp: case_9_def res_simps)
  then have "state_keeps s s1" "state_keeps s1 s2" "state_keeps s2 s3" "state_keeps s3 s4" "state_keeps s4 s5"
    by (simp_all add: flip_bus_keeps)
  then have "state_keeps s s5" by (blast intro: state_keeps_trans)
  moreover have "state_keeps s5 s'" by (simp add: s' state_keeps_def tables_fit_def struct_intros)
  ultimately show ?thesis by (rule state_keeps_trans)
qed

lemma case_3_keeps: "case_3 s = Inr s' \<Longrightarrow> state_keeps s s'"
  by (auto simp: case_3_def Let_def res_simps state_keeps_def tables_fit_def struct_intros)

lemma setGroupMatch_keeps: "setGroupMatch s = Inr s' \<Longrightarrow> state_keeps s s'"
  by (auto simp: setGroupMatch_def Let_def res_simps state_keeps_def tables_fit_def struct_intros)

lemma init_input_step_keeps:
  assumes "init_input_step m1 same1 same2 k (off, bm, ii, h) = Inr (r, off', bm', ii', h')" "same_struct h0 h"
  shows "same_struct h0 h' \<and> length ii' = length ii"
  using assms by (auto simp: init_input_step_def Let_def res_simps intro: struct_intros split: if_splits)

lemma init_pair_length: "init_pair h out1 out2 j k io = Inr (r, io') \<Longrightarrow> length io' = length io"
  by (auto simp: init_pair_def res_simps dest!: vpush_length split: if_split_asm)

lemma init_bit_keeps:
  assumes run: "init_bit p q j s = Inr s'"
  shows "state_keeps s s'"
proof -
  define s1 where "s1 = (if j > 10 then on_heap (upd (o_output q ! j) (n_priority_update (\<lambda>_. 10))) s else s)"
  have s1: "state_keeps s s1" by (simp add: s1_def state_keeps_heap struct_intros)
  obtain r io r' off bm ii h1 where o: "search (init_pair (i_heap s1) (o_output p) (o_output q) j) [j..<length (o_output p)] (i_init_output s1) = Inr (r, io)"
    and i: "search (init_input_step (i_mod1 s1) (n_same_input_bit (i_heap s1 (o_output p ! j))) (n_same_input_bit (i_heap s1 (o_output q ! j))))
       [0..<length (n_same_input_bit (i_heap s1 (o_output p ! j)))] (0, i_bus_map s1, i_init_input s1, i_heap s1) = Inr (r', off, bm, ii, h1)"
    and s': "s' = on_heap (\<lambda>_. h1) (s1\<lparr>i_init_output := io, i_bus_map := bm, i_init_input := ii\<rparr>)"
    using run [unfolded init_bit_def Let_def, folded s1_def, unfolded rbind_eq_Inr split_paired_Ex prod.case sum.inject]
    by (elim exE conjE) (rule that, assumption+, erule sym)
  have io: "length io = length (i_init_output s1)"
    by (rule search_keeps [where I = "\<lambda>io. length io = length (i_init_output s1)", OF o]) (simp_all add: init_pair_length)
  have "(\<lambda>(off, bm, ii, h). same_struct (i_heap s1) h \<and> length ii = length (i_init_input s1)) (off, bm, ii, h1)"
    by (rule search_keeps [OF i]) (auto intro: struct_intros dest: init_input_step_keeps)
  then have "state_keeps s1 s'" using io by (simp add: s' state_keeps_def tables_fit_def)
  then show ?thesis by (rule state_keeps_trans [OF s1])
qed

lemma init_equation_keeps:
  assumes "init_equation i s = Inr (r, s')"
  shows "state_keeps s s'"
proof -
  consider "s' = s" | bm p q js where "rfold (init_bit p q) js (s\<lparr>i_bus_map := bm\<rparr>) = Inr s'"
    using assms by (auto simp: init_equation_def Let_def res_simps split: if_splits)
  then show ?thesis
  proof cases
    case 1
    then show ?thesis by simp
  next
    case (2 bm p q js)
    have start: "state_keeps s (s\<lparr>i_bus_map := bm\<rparr>)" by (simp add: state_keeps_def tables_fit_def struct_intros)
    show ?thesis
      by (rule state_keeps_trans [OF start state.rfold_kept [where view = "\<lambda>s. s", OF 2]]) (rule init_bit_keeps)
  qed
qed

lemma setInitSolution_keeps:
  assumes "setInitSolution s = Inr s'"
  shows "state_keeps s s'"
proof (cases "length (m_allEquation (i_mod1 s)) \<noteq> length (m_allEquation (i_mod2 s))")
  case True
  then show ?thesis using assms by (simp add: setInitSolution_def)
next
  case False
  let ?s = "s\<lparr>i_bus_map := replicate (length (m_bus_set (i_mod2 s))) (-1), i_init_input_ne := replicate (length (m_gate (i_mod2 s) INPUT)) (-1)\<rparr>"
  obtain r where r: "search init_equation [0..<length (m_allEquation (i_mod1 s))] ?s = Inr (r, s')"
    using assms False by (auto simp: setInitSolution_def Let_def res_simps split: if_splits)
  have "state_keeps s ?s" by (simp add: state_keeps_def tables_fit_def struct_intros)
  then show ?thesis
    by (rule state_keeps_trans [OF _ state.search_kept [where view = "\<lambda>s. s", OF r]]) (rule init_equation_keeps)
qed

lemma resize_pairs_keeps [simp]: "state_keeps s (resize_pairs s)"
  by (simp add: state_keeps_def resize_pairs_def tables_fit_def struct_intros)

text \<open>The whole state of the phase: both modules typed in one heap, the tables as long as the ports of circuit 2.\<close>

definition init_ok :: "module \<Rightarrow> module \<Rightarrow> store \<Rightarrow> init_state \<Rightarrow> bool" where
  "init_ok m1 m2 st s \<longleftrightarrow> typed_net (i_mod1 s) (i_heap s) \<and> typed_net (i_mod2 s) (i_heap s) \<and> same_struct (heap st) (i_heap s) \<and>
     analysed m1 (i_mod1 s) \<and> analysed m2 (i_mod2 s) \<and> tables_fit s"

lemma analysed_same: "analysed m m' \<Longrightarrow> same_mod m' m'' \<Longrightarrow> analysed m m''"
  by (simp add: analysed_def same_mod_def)

lemma init_ok_keeps: "init_ok m1 m2 st s \<Longrightarrow> state_keeps s s' \<Longrightarrow> init_ok m1 m2 st s'"
  using typed_net_keep [of "i_mod1 s" "i_heap s" "i_heap s'" "i_mod1 s'"] typed_net_keep [of "i_mod2 s" "i_heap s" "i_heap s'" "i_mod2 s'"]
    same_struct_trans [of "heap st" "i_heap s" "i_heap s'"] analysed_same [of m1 "i_mod1 s" "i_mod1 s'"] analysed_same [of m2 "i_mod2 s" "i_mod2 s'"]
  by (simp add: init_ok_def state_keeps_def)

lemma analyse_modules_ok:
  assumes run: "analyse_modules E c (init_start m1 m2 st) = Inr s" and c: "c \<noteq> 8" and ord: "orders_ok (e_ord E)"
    and t1: "typed_net m1 (heap st)" and t2: "typed_net m2 (heap st)"
  shows "init_ok m1 m2 st s"
proof -
  obtain m1' h1 m2' h2 where a1: "analyse E c (m1, heap st) = Inr (m1', h1)" and a2: "analyse E c (m2, h1) = Inr (m2', h2)"
    and s: "i_mod1 s = m1'" "i_mod2 s = m2'" "i_heap s = h2" "length (i_init_output s) = length (m_gate m2 OUTPUT)"
      "length (i_init_input s) = length (m_gate m2 INPUT)" "length (i_init_input_ne s) = length (m_gate m2 INPUT)"
    using run c by (auto simp: analyse_modules_def on_mod1_def on_mod2_def init_start_def on_heap_def res_simps)
  note k1 = analyse_keeps [OF a1 ord t1]
  have "typed_net m2 h1" using k1 typed_net_keep [OF t2 _ same_mod_refl] by simp
  note k2 = analyse_keeps [OF a2 ord this]
  have "typed_net m1' h2" using k1 k2 typed_net_keep [OF _ _ same_mod_refl] by blast
  then show ?thesis using k1 k2 s same_struct_trans [of "heap st" h1 h2] by (simp add: init_ok_def tables_fit_def analysed_def)
qed

lemma MatchAlgo_keeps:
  assumes "MatchAlgo E c m1 m2 st = Inr s" and c: "c \<noteq> 8" and ord: "orders_ok (e_ord E)"
    and t: "typed_net m1 (heap st)" "typed_net m2 (heap st)"
  shows "init_ok m1 m2 st s"
proof -
  obtain s1 s2 s3 where 1: "analyse_modules E c (init_start m1 m2 st) = Inr s1"
    and 2: "(if c = 9 then case_9 s1 else if c = 3 then case_3 s1 else if c = 8 then case_8 s1 else Inr s1) = Inr s2"
    and 3: "(if m_allEquation (i_mod1 (resize_pairs s2)) \<noteq> [] \<and> m_allEquation (i_mod2 (resize_pairs s2)) \<noteq> [] \<and> c = 10
             then setInitSolution (resize_pairs s2) else Inr (resize_pairs s2)) = Inr s3"
    and 4: "(if m_group (i_mod1 s3) \<noteq> [] \<and> m_group (i_mod2 s3) \<noteq> [] then setGroupMatch s3 else Inr s3) = Inr s"
    using assms(1) unfolding MatchAlgo_def Let_def by (blast elim: rbindE)
  have k1: "state_keeps s1 s2" using 2 c by (auto split: if_split_asm intro: case_9_keeps case_3_keeps)
  have k2: "state_keeps s2 s3"
    by (rule state_keeps_trans [OF resize_pairs_keeps]) (use 3 in \<open>auto split: if_split_asm intro: setInitSolution_keeps\<close>)
  have k3: "state_keeps s3 s" using 4 by (auto split: if_split_asm intro: setGroupMatch_keeps)
  show ?thesis using init_ok_keeps [OF analyse_modules_ok [OF 1 c ord t]] k1 k2 k3 state_keeps_trans by blast
qed

end
