(* ===== verification/Init_Props.thy ===== *)
theory Init_Props
  imports Init_Inv Example_Net
begin

text \<open>The properties of the analysis of both modules and of the start of the matching.\<close>

section \<open>\<open>MatchAlgo\<close> keeps the types\<close>

text \<open>\<open>MatchAlgo\<close> keeps the typing of the netlists. Outside case 8 (which rebuilds the netlists) it
  keeps, whenever it returns, in both modules: every port at its position and of its kind, the buses in range and of one
  kind each, and the gates, names, fan-ins, fan-outs, inversions and bus numbers of all nodes; and the tables of initial
  partners are as long as the ports of circuit 2. The sorting and the iteration orders the standard leaves open are
  arbitrary permutations.\<close>

theorem MatchAlgo_keeps_types:
  assumes "MatchAlgo E c m1 m2 st = Inr s" and "c \<noteq> 8" and "orders_ok (e_ord E)"
    and "typed_net m1 (heap st)" "typed_net m2 (heap st)"
  shows "typed_net (i_mod1 s) (i_heap s) \<and> typed_net (i_mod2 s) (i_heap s) \<and> same_struct (heap st) (i_heap s) \<and>
     m_gate (i_mod1 s) = m_gate m1 \<and> m_gate (i_mod2 s) = m_gate m2 \<and> tables_fit s"
  using MatchAlgo_keeps [OF assms] by (simp add: init_ok_def analysed_def)

definition ex_module1 :: module where
  "ex_module1 = ex_module\<lparr>m_bus_set := [[0], [1], [3]]\<rparr>"

definition ex_module2 :: module where
  "ex_module2 = ex_module\<lparr>m_moduleIndex := 1, m_netlist := [4, 5, 6, 7], m_bus_set := [[4], [5], [7]],
     m_gate := (\<lambda>t. if t = INPUT then [4, 5] else if t = OUTPUT then [7] else if t = OR then [6] else [])\<rparr>"

definition ex_init :: init_env where
  "ex_init = \<lparr>e_fuel = 20, e_ord = \<lparr>ord_nodes = \<lambda>xs. xs, ord_ints = \<lambda>xs. xs, ord_sort = std_sort\<rparr>,
     e_lhs_first = True, e_abc = \<lambda>s. s, e_replace = 0, e_del_out1 = '''', e_del_out2 = '''', e_mapped = ''''\<rparr>"

definition ex_st :: store where
  "ex_st = \<lparr>heap = ex_heap, next_addr = 9\<rparr>"

lemma ex_init_runs: "\<not> isl (MatchAlgo ex_init 10 ex_module1 ex_module2 ex_st)"
  by code_simp

theorem MatchAlgo_keeps_types_witness:
  "\<exists>s. MatchAlgo ex_init 10 ex_module1 ex_module2 ex_st = Inr s \<and> typed_net (i_mod2 s) (i_heap s) \<and> tables_fit s"
proof -
  obtain s where s: "MatchAlgo ex_init 10 ex_module1 ex_module2 ex_st = Inr s"
    using ex_init_runs by (cases "MatchAlgo ex_init 10 ex_module1 ex_module2 ex_st") simp_all
  have "typed_net ex_module1 (heap ex_st)" "typed_net ex_module2 (heap ex_st)"
    by (simp_all add: typed_net_def ports_ok_def buses_ok_def ex_module1_def ex_module2_def ex_module_def ex_st_def in_range_def less_Suc_eq)
  moreover have "orders_ok (e_ord ex_init)" by (simp add: orders_ok_def ex_init_def)
  ultimately show ?thesis using MatchAlgo_keeps_types [OF s] s by simp
qed

section \<open>\<open>CombineTerm\<close>\<close>

definition add_counts :: "int \<Rightarrow> int list \<Rightarrow> int list \<Rightarrow> int list" where
  "add_counts d bs sig = map (\<lambda>i. sig ! i + d * int (count_list bs (int i))) [0..<length sig]"

lemma add_counts_simps [simp]: "length (add_counts d bs sig) = length sig" "add_counts d [] sig = sig"
  "in_range (add_counts d bs sig) b = in_range sig b"
  "i < length sig \<Longrightarrow> add_counts d bs sig ! i = sig ! i + d * int (count_list bs (int i))"
  by (simp_all add: add_counts_def in_range_def map_nth)

lemma add_counts_Cons: "in_range sig b \<Longrightarrow> add_counts d bs (sig[nat b := sig ! nat b + d]) = add_counts d (b # bs) sig"
  by (rule nth_equalityI) (auto simp: nth_list_update in_range_def algebra_simps)

lemma in_range_same: "length ys = length xs \<Longrightarrow> in_range ys = in_range xs"
  by (simp add: in_range_def fun_eq_iff)

lemma bump_eq: "bump d b sig = (if in_range sig b then Inr (sig[nat b := sig ! nat b + d]) else Inl Bad_Index)"
  by (simp add: bump_def vget_def vset_def)

lemma bump_all: "rfold (bump d) bs sig = (if list_all (in_range sig) bs then Inr (add_counts d bs sig) else Inl Bad_Index)"
proof (induction bs arbitrary: sig)
  case Nil
  then show ?case by simp
next
  case (Cons b bs)
  have "in_range (sig[nat b := v]) = in_range sig" for v by (rule in_range_same) simp
  then show ?case by (simp add: bump_eq [of d b sig] Cons add_counts_Cons)
qed

definition term_fits :: "int list \<Rightarrow> int list \<Rightarrow> bool" where
  "term_fits sig t \<longleftrightarrow> length t \<le> 6 \<and> list_all (in_range sig) t"

lemma pow13_nth: "n < 6 \<Longrightarrow> pow13 ! n = 13 ^ n"
  by (auto simp: pow13_def less_Suc_eq numeral_eq_Suc)

lemma sign_term_exact:
  "sign_term t sig = (if term_fits sig t then Inr (add_counts (13 ^ (length t - 1)) t sig) else Inl Bad_Index)"
proof (cases "t = []")
  case True
  then show ?thesis by (simp add: sign_term_def term_fits_def)
next
  case False
  then have n: "nat (int (length t) - 1) = length t - 1" by simp
  show ?thesis
  proof (cases "length t \<le> 6")
    case True
    then have "length t - 1 < 6" using False by (cases t) simp_all
    then have "vget pow13 (int (length t) - 1) = Inr (13 ^ (length t - 1))"
      using False by (simp add: vget_def in_range_def n pow13_nth) (simp add: pow13_def)
    then show ?thesis using True bump_all by (simp add: sign_term_def term_fits_def)
  next
    case len: False
    then have "vget pow13 (int (length t) - 1) = Inl Bad_Index" by (simp add: vget_def in_range_def pow13_def)
    then show ?thesis using False len by (cases t) (simp_all add: sign_term_def term_fits_def)
  qed
qed

definition term_weight :: "int list list \<Rightarrow> int \<Rightarrow> int" where
  "term_weight ts b = sum_list (map (\<lambda>t. 13 ^ (length t - 1) * int (count_list t b)) ts)"

lemma term_fits_same: "length sig' = length sig \<Longrightarrow> term_fits sig' = term_fits sig"
  using in_range_same [of sig' sig] by (intro ext) (simp add: term_fits_def)

lemma sign_terms_exact:
  "rfold sign_term ts sig = (if list_all (term_fits sig) ts then Inr (map (\<lambda>i. sig ! i + term_weight ts (int i)) [0..<length sig])
     else Inl Bad_Index)"
proof (induction ts arbitrary: sig)
  case Nil
  then show ?case by (simp add: term_weight_def map_nth)
next
  case (Cons t ts)
  then show ?case
    using term_fits_same [of "add_counts (13 ^ (length t - 1)) t sig" sig]
    by (simp add: sign_term_exact term_weight_def algebra_simps)
qed

lemma term_weight_perm: "mset ts = mset us \<Longrightarrow> term_weight ts = term_weight us"
  by (simp add: fun_eq_iff term_weight_def sum_mset_sum_list [symmetric])

text \<open>C34: The signature of the buses. \<open>CombineTerm\<close> fails, with a read of \<open>pow13\<close> or of the signatures out of range,
  exactly when a product has more than six buses or a bus is out of range; otherwise the signature of every bus grows by
  \<open>13 ^ (n - 1)\<close> for each of its occurrences in a product of \<open>n\<close> buses, and by 1 when it is added and is in no product,
  in whatever order the standard containers iterate.\<close>

theorem CombineTerm_signature:
  assumes "m_allEquation m \<noteq> []" and "\<forall>xs. mset (ord_ints ord xs) = mset xs"
    and "sig = m_bus_signature m" and "alone = filter (\<lambda>b. b \<notin> set (concat MULbus)) ADDbus"
  shows "if (\<exists>t \<in> set MULbus. length t > 6 \<or> (\<exists>b \<in> set t. \<not> in_range sig b)) \<or> (\<exists>b \<in> set alone. \<not> in_range sig b)
    then CombineTerm ord (ADDbus, MULbus) m = Inl Bad_Index
    else \<exists>m'. CombineTerm ord (ADDbus, MULbus) m = Inr ((alone, MULbus), m') \<and> length (m_bus_signature m') = length sig \<and>
      (\<forall>i < length sig. m_bus_signature m' ! i =
         sig ! i + (\<Sum>t \<leftarrow> MULbus. 13 ^ (length t - 1) * int (count_list t (int i))) + int (count_list alone (int i)))"
proof -
  let ?adds = "ord_ints ord alone"
  let ?sig1 = "map (\<lambda>i. sig ! i + term_weight MULbus (int i)) [0..<length sig]"
  have ord: "set ?adds = set alone" "count_list ?adds = count_list alone"
    using assms(2) by (metis set_mset_mset, simp add: fun_eq_iff count_mset [symmetric])
  have "alone = (if MULbus \<noteq> [] then filter (\<lambda>b. b \<notin> set (concat MULbus)) ADDbus else ADDbus)"
    by (simp add: assms(4))
  then have run: "CombineTerm ord (ADDbus, MULbus) m = rbind (rfold sign_term (in_order MULbus) sig) (\<lambda>sig.
      rbind (rfold (bump 1) ?adds sig) (\<lambda>sig. Inr ((alone, MULbus), m\<lparr>m_bus_signature := sig, m_allEquation := butlast (m_allEquation m) @
        [fold (\<lambda>t p. Insert t 1 p) (map (\<lambda>b. [b]) ?adds @ in_order MULbus) (last (m_allEquation m))]\<rparr>)))"
    using assms(1) by (simp add: CombineTerm_def Let_def assms(3) del: set_concat)
  have terms: "rfold sign_term (in_order MULbus) sig = (if list_all (term_fits sig) MULbus then Inr ?sig1 else Inl Bad_Index)"
    using term_weight_perm [of "in_order MULbus" MULbus] by (simp add: sign_terms_exact in_order_def list_all_iff)
  have adds: "rfold (bump 1) ?adds ?sig1 = (if list_all (in_range sig) alone then Inr (add_counts 1 ?adds ?sig1) else Inl Bad_Index)"
    by (simp add: bump_all list_all_iff ord in_range_def)
  show ?thesis
  proof (cases "list_all (term_fits sig) MULbus \<and> list_all (in_range sig) alone")
    case True
    then have "CombineTerm ord (ADDbus, MULbus) m = Inr ((alone, MULbus), m\<lparr>m_bus_signature := add_counts 1 ?adds ?sig1,
        m_allEquation := butlast (m_allEquation m) @ [fold (\<lambda>t p. Insert t 1 p) (map (\<lambda>b. [b]) ?adds @ in_order MULbus) (last (m_allEquation m))]\<rparr>)"
      using terms adds by (simp add: run)
    then show ?thesis using True
      by (auto simp: list_all_iff term_fits_def term_weight_def ord not_le add_counts_def)
  next
    case False
    then have "CombineTerm ord (ADDbus, MULbus) m = Inl Bad_Index" using terms adds by (auto simp: run)
    moreover have "(\<exists>t \<in> set MULbus. length t > 6 \<or> (\<exists>b \<in> set t. \<not> in_range sig b)) \<or> (\<exists>b \<in> set alone. \<not> in_range sig b)"
      using False by (auto simp: list_all_iff term_fits_def not_le)
    ultimately show ?thesis by simp
  qed
qed

text \<open>The products of bus 0 with itself and with bus 1; bus 1 is also added.\<close>

theorem CombineTerm_signature_witness:
  "\<exists>m'. CombineTerm (e_ord ex_init) ([2, 1], [[0, 0, 1]]) (ex_module\<lparr>m_bus_signature := [5, 0, 0], m_allEquation := [new_operation [3]]\<rparr>) =
     Inr (([2], [[0, 0, 1]]), m') \<and> m_bus_signature m' ! 0 = 343 \<and> m_bus_signature m' ! 1 = 169 \<and> m_bus_signature m' ! 2 = 1"
  using CombineTerm_signature [of "ex_module\<lparr>m_bus_signature := [5, 0, 0], m_allEquation := [new_operation [3]]\<rparr>" "e_ord ex_init"
      "[5, 0, 0]" "[2]" "[[0, 0, 1]]" "[2, 1]"]
  by (auto simp: ex_init_def in_range_def less_Suc_eq numeral_eq_Suc All_less_Suc)

end
