(* ===== verification/Input_Files.thy ===== *)
theory Input_Files
  imports Parse_Correct Support_Files Miter_Verilog
begin

text \<open>
  What is read before the parser runs: \<open>ParseInput\<close> reads the file that names both circuits and their buses,
  \<open>DeleteGateName\<close> writes a netlist without the names of its gates, for ABC and for the miter.
\<close>

section \<open>\<open>DeleteGateName\<close>\<close>

text \<open>The ports of a module, with what is written for them.\<close>

function module_ports :: "string \<Rightarrow> stream \<Rightarrow> string res" where
  "module_ports item ss =
     (case getline CHR '','' item ss of
        (ok, item, ss') \<Rightarrow>
          if \<not> ok then Inr ''''
          else
            let item = RemoveSpace item in
            rbind (str_back item) (\<lambda>c.
            if c = CHR '';'' then
              rbind (erase_two item) (\<lambda>short. rbind (module_ports short ss') (\<lambda>s. Inr (item @ endl @ s)))
            else rbind (module_ports item ss') (\<lambda>s. Inr (item @ '', '' @ s))))"
  by pat_completeness auto
termination
  by (relation "measure (\<lambda>(item, ss). length (rest ss))") (auto dest: getline_ok_shorter [OF sym])

text \<open>\<open>&line[offset]\<close>: undefined when there is no parenthesis.\<close>

definition from_paren :: "string \<Rightarrow> string res" where
  "from_paren line = (case find_char CHR ''('' line of None \<Rightarrow> Inl Bad_Index | Some k \<Rightarrow> Inr (drop k line))"

definition strip_statement :: "string \<Rightarrow> (bool \<times> string) res" where
  "strip_statement line =
     rbind (next_item (stream_of line)) (\<lambda>(op, ss).
     if op = ''module'' then
       (case getline CHR ''('' op ss of
          (ok, item, ss) \<Rightarrow> rbind (module_ports item ss) (\<lambda>s. Inr (False, ''module '' @ item @ ''('' @ s)))
     else if op = ''wire'' \<or> op = ''input'' \<or> op = ''output'' then Inr (False, line @ endl)
     else if op = ''endmodule'' then Inr (True, line @ endl)
     else
       rbind (from_paren line) (\<lambda>t.
       case getline CHR ''('' op ss of
         (ok, item, ss) \<Rightarrow>
           rbind (parameter_names (RemoveSpace item) ss []) (\<lambda>_. Inr (False, ''  '' @ op @ '' '' @ t @ endl))))"

function strip_loop :: "string \<Rightarrow> stream \<Rightarrow> string res" where
  "strip_loop line ifs =
     (case getline newline line ifs of
        (ok, line, ifs1) \<Rightarrow>
          if \<not> ok then Inr ''''
          else rbind (MakeLine line ifs1) (\<lambda>(line, ifs2).
               rbind (strip_statement line) (\<lambda>(fin, out).
               if fin then Inr out else rbind (strip_loop line ifs2) (\<lambda>s. Inr (out @ s)))))"
  by pat_completeness auto
termination
  by (relation "measure (\<lambda>(line, ifs). length (rest ifs))") (auto dest!: getline_ok_shorter [OF sym] MakeLine_le)

declare module_ports.simps [simp del] strip_loop.simps [simp del]

definition DeleteGateName :: "string \<Rightarrow> string res" where
  "DeleteGateName text = strip_loop '''' (stream_of text)"

section \<open>What is written\<close>

fun unnamed :: "stmt \<Rightarrow> stmt" where
  "unnamed (Decl t names) = Decl t names"
| "unnamed (Gate t g names) = Gate t '''' names"

lemma module_ports_plain:
  assumes "list_all plain (x # xs)" and "getline CHR '','' item ss = (True, it, later_items xs '');'')"
    and "it = first_item x xs '');'' \<or> it = CHR '' '' # first_item x xs '');''"
  shows "module_ports item ss = Inr (join (x # xs) @ '');'' @ endl)"
  using assms
proof (induction xs arbitrary: x item it ss)
  case Nil
  have x: "plain x" using Nil.prems(1) by simp
  have "filter (\<lambda>c. c \<noteq> CHR '' '') x = x" using plainD(2) [OF x] by (auto simp: filter_id_conv)
  then have "RemoveSpace (x @ '');'') = x @ '');''" using plainD(1,7) [OF x] by (simp add: RemoveSpace_def Let_def)
  moreover from this have "RemoveSpace (CHR '' '' # x @ '');'') = x @ '');''" by (simp add: RemoveSpace_def)
  ultimately have rs: "RemoveSpace it = x @ '');''" using Nil.prems(3) by (auto simp: first_item_def)
  have "str_back (x @ '');'') = Inr CHR '';''" using str_back_snoc [of "x @ '')''"] by simp
  moreover have "module_ports x ended = Inr ''''" by (subst module_ports.simps) simp
  ultimately show ?case using Nil.prems(2) rs
    by (subst module_ports.simps) (simp add: Let_def later_items_def endl_def)
next
  case (Cons y ys)
  have x: "plain x" using Cons.prems(1) by simp
  have "it = x \<or> it = CHR '' '' # x" using Cons.prems(3) by (simp add: first_item_def)
  then have rs: "RemoveSpace it = x" using plain_RemoveSpace [OF x] by auto
  have bk: "str_back x = Inr (last x)" "last x \<noteq> CHR '';''" using plainD(1,9) [OF x] by (simp_all add: str_back_def)
  have nxt: "getline CHR '','' x (later_items (y # ys) '');'') = (True, CHR '' '' # first_item y ys '');'', later_items ys '');'')"
    using Cons.prems(1) by (intro getline_later) auto
  have "module_ports x (later_items (y # ys) '');'') = Inr (join (y # ys) @ '');'' @ endl)"
    by (rule Cons.IH [OF _ nxt]) (use Cons.prems(1) in simp_all)
  then show ?case using Cons.prems(2) rs bk by (subst module_ports.simps) (simp add: Let_def)
qed

lemma from_paren_split: "CHR ''('' \<notin> set s \<Longrightarrow> from_paren (s @ ''('' @ t) = Inr (''('' @ t)"
  using find_char_split [of "CHR ''(''" s t] by (simp add: from_paren_def)

lemma TypeID_no_paren: "CHR ''('' \<notin> set (TypeID t)"
  by (cases t) simp_all

lemma strip_stmt:
  assumes "stmt_ok st"
  shows "strip_statement (print_stmt st) = Inr (False, print_stmt (unnamed st) @ endl)"
proof (cases st)
  case (Decl t names)
  then have t: "t \<in> {WIRE, INPUT, OUTPUT}" using assms by simp
  have "next_item (stream_of (print_stmt st)) = Inr (TypeID t, stream_of (join names @ '';''))"
    using next_item_word(1) [of "TypeID t" "join names @ '';''"] by (simp add: Decl)
  then show ?thesis using TypeID_keyword(1) [OF t] TypeID_keyword(3) [of t] by (simp add: strip_statement_def Decl)
next
  case (Gate t g names)
  then obtain x xs where xs: "names = x # xs" "list_all plain (x # xs)" and t: "t \<notin> {NONE, WIRE, INPUT, OUTPUT}" and g: "g = [] \<or> plain g"
    using assms by (cases names) auto
  have item: "next_item (stream_of (print_stmt st)) = Inr (TypeID t, stream_of (g @ ''('' @ join names @ '');''))"
    using next_item_word(1) [of "TypeID t" "g @ ''('' @ join names @ '');''"] by (simp add: Gate)
  have name: "getline CHR ''('' (TypeID t) (stream_of (g @ ''('' @ join names @ '');'')) = (True, g, stream_of (join names @ '');''))"
    using g plainD(5) [of g] getline_split [of "CHR ''(''" g "TypeID t" "join names @ '');''"] by auto
  have rs: "RemoveSpace g = g" using g plain_RemoveSpace [of g] by (auto simp: RemoveSpace_def)
  have "getline CHR '','' g (stream_of (join (x # xs) @ '');'')) = (True, first_item x xs '');'', later_items xs '');'')"
    by (rule getline_first [OF xs(2)]) simp
  then have names: "parameter_names g (stream_of (join names @ '');'')) [] = Inr names"
    using parameter_names_plain [OF xs(2), of g _ _ "[]"] by (simp add: xs(1))
  have "CHR ''('' \<notin> set (''  '' @ TypeID t @ '' '' @ g)" using g plainD(5) [of g] TypeID_no_paren [of t] by auto
  then have paren: "from_paren (print_stmt st) = Inr (''('' @ join names @ '');'')"
    using from_paren_split [of "''  '' @ TypeID t @ '' '' @ g" "join names @ '');''"] by (simp add: Gate)
  show ?thesis using item paren t TypeID_keyword(2) [of t] TypeID_keyword(3,4) [of t] names
    by (simp add: strip_statement_def Gate name [simplified] rs)
qed

lemma strip_loop_line:
  assumes "newline \<notin> set l" and "CHR '';'' \<in> set l" and "strip_statement l = Inr (False, out)"
  shows "strip_loop line (stream_of (l @ newline # t)) = rbind (strip_loop l (stream_of t)) (\<lambda>s. Inr (out @ s))"
  using getline_split [OF assms(1)] MakeLine_done [OF assms(2)] by (subst strip_loop.simps) (simp add: assms(3))

lemma strip_loop_end: "strip_loop line (stream_of (''endmodule'' @ newline # t)) = Inr (''endmodule'' @ endl)"
proof -
  have "next_item (stream_of ''endmodule'') = Inr (''endmodule'', ended)" by (rule next_item_word(3)) simp_all
  then have "strip_statement ''endmodule'' = Inr (True, ''endmodule'' @ endl)" by (simp add: strip_statement_def)
  moreover have "getline newline line (stream_of (''endmodule'' @ newline # t)) = (True, ''endmodule'', stream_of t)"
    by (rule getline_split) simp
  ultimately show ?thesis by (subst strip_loop.simps) (simp add: MakeLine_def)
qed

lemma strip_loop_stmts:
  assumes "list_all stmt_ok sts"
  shows "strip_loop line (stream_of (concat (map (\<lambda>s. print_stmt s @ [newline]) sts) @ ''endmodule'' @ newline # t)) =
     Inr (concat (map (\<lambda>s. print_stmt s @ [newline]) (map unnamed sts)) @ ''endmodule'' @ endl)"
  using assms
proof (induction sts arbitrary: line)
  case Nil
  then show ?case using strip_loop_end [of line t] by simp
next
  case (Cons st sts)
  let ?rest = "concat (map (\<lambda>s. print_stmt s @ [newline]) sts) @ ''endmodule'' @ newline # t"
  have "strip_loop line (stream_of (print_stmt st @ newline # ?rest)) =
     rbind (strip_loop (print_stmt st) (stream_of ?rest)) (\<lambda>s. Inr ((print_stmt (unnamed st) @ endl) @ s))"
    using Cons.prems print_stmt_line [of st] strip_stmt [of st] by (intro strip_loop_line) simp_all
  then show ?case using Cons.IH Cons.prems by (simp add: endl_def)
qed

lemma DeleteGateName_print:
  assumes "CHR ''('' \<notin> set name" "newline \<notin> set name" and ports: "ports \<noteq> []" "list_all plain ports" and sts: "list_all stmt_ok sts"
  shows "DeleteGateName (print_circuit name (join ports) sts) = Inr (print_circuit name (join ports) (map unnamed sts))"
proof -
  let ?l = "''module '' @ name @ ''('' @ join ports @ '');''"
  obtain x xs where xs: "ports = x # xs" "list_all plain (x # xs)" using ports by (cases ports) auto
  have "next_item (stream_of ?l) = Inr (''module'', stream_of (name @ ''('' @ join ports @ '');''))"
    using next_item_word(2) [of "''module''" "name @ ''('' @ join ports @ '');''"] by simp
  moreover have "getline CHR ''('' ''module'' (stream_of (name @ ''('' @ join ports @ '');'')) = (True, name, stream_of (join ports @ '');''))"
    using getline_split [OF assms(1), of "''module''" "join ports @ '');''"] by simp
  moreover have "getline CHR '','' name (stream_of (join (x # xs) @ '');'')) = (True, first_item x xs '');'', later_items xs '');'')"
    by (rule getline_first [OF xs(2)]) simp
  then have "module_ports name (stream_of (join ports @ '');'')) = Inr (join ports @ '');'' @ endl)"
    using module_ports_plain [OF xs(2), of name] by (simp add: xs(1))
  ultimately have head: "strip_statement ?l = Inr (False, ?l @ endl)" by (simp add: strip_statement_def)
  have nl: "newline \<notin> set ?l" "CHR '';'' \<in> set ?l" using assms(2) join_no_newline [OF ports(2)] by auto
  show ?thesis
    using strip_loop_line [OF nl head, of "''''" "concat (map (\<lambda>s. print_stmt s @ [newline]) sts) @ ''endmodule'' @ [newline]"]
      strip_loop_stmts [OF sts, of ?l "[]"]
    by (simp add: DeleteGateName_def print_circuit_def endl_def)
qed

text \<open>The text is that of a file as \<open>miter\<close> expects it.\<close>

lemma join_ports: "ps \<noteq> [] \<Longrightarrow> join ps = concat (map (\<lambda>p. p @ '', '') (butlast ps)) @ last ps"
  by (induction ps) auto

lemma print_show_circuit:
  "ports \<noteq> [] \<Longrightarrow> print_circuit name (join ports) sts = show_circuit name \<lparr>cf_name = name', cf_ports = ports, cf_body = map print_stmt sts\<rparr>"
  by (simp add: print_circuit_def show_circuit_def header_line_def join_ports endl_def o_def)

section \<open>\<open>ParseInput\<close>\<close>

text \<open>
  \<open>ifs >> s\<close> and \<open>ifs >> n\<close>: at the end of the file, or after a failure, the variable keeps its value, and an
  \<open>int\<close> that never got one is \<open>None\<close>. A number that is none sets the variable to 0.
\<close>

definition in_string :: "string \<Rightarrow> stream \<Rightarrow> string \<times> stream" where
  "in_string old s = (case get_word s of None \<Rightarrow> (old, s\<lparr>good := False\<rparr>) | Some ws \<Rightarrow> ws)"

definition in_int :: "int option \<Rightarrow> stream \<Rightarrow> int option \<times> stream" where
  "in_int old s =
     (if \<not> good s \<or> dropWhile is_space (rest s) = [] then (old, s\<lparr>good := False\<rparr>)
      else case read_int (rest s) of (ok, v, t) \<Rightarrow> (Some v, \<lparr>rest = t, good = ok \<and> t \<noteq> []\<rparr>))"

text \<open>\<open>v.resize(n)\<close> for an \<open>int\<close>: undefined for an uninitialised one, \<open>length_error\<close> for a negative one.\<close>

definition resize_to :: "int option \<Rightarrow> nat res" where
  "resize_to n = (case n of None \<Rightarrow> Inl Null_Deref | Some n \<Rightarrow> if n < 0 then Inl (Throw ''length_error'') else Inr (nat n))"

definition in_name :: "nat \<Rightarrow> string list \<times> stream \<Rightarrow> string list \<times> stream" where
  "in_name j = (\<lambda>(names, s). case in_string '''' s of (w, s) \<Rightarrow> (names @ [w], s))"

type_synonym bus_state = "string list list \<times> int option \<times> stream"

definition in_bus :: "nat \<Rightarrow> bus_state \<Rightarrow> bus_state res" where
  "in_bus i = (\<lambda>(bus, bus_sz, s).
     case in_int bus_sz s of
       (bus_sz, s) \<Rightarrow>
         rbind (resize_to bus_sz) (\<lambda>n.
         case fold in_name [0..<n] ([], s) of
           (names, s) \<Rightarrow> Inr (bus @ [names], bus_sz, s)))"

text \<open>The directory of the input file; \<open>NAMEC\<close> is 0, and the file is taken to be called \<open>input\<close>.\<close>

definition input_dir :: "string \<Rightarrow> string" where
  "input_dir path = (if length path \<ge> 5 then take (length path - 5) path else path)"

text \<open>The state: the line, both counters, the stream.\<close>

type_synonym circuit_state = "string \<times> int option \<times> int option \<times> stream"

definition in_circuit :: "string \<Rightarrow> circuit_state \<Rightarrow> (string \<times> string list list \<times> circuit_state) res" where
  "in_circuit path = (\<lambda>(line, bus_num, bus_sz, s).
     case in_string line s of
       (line, s) \<Rightarrow>
         case in_int bus_num s of
           (bus_num, s) \<Rightarrow>
             rbind (resize_to bus_num) (\<lambda>n.
             rbind (rfold in_bus [0..<n] ([], bus_sz, s)) (\<lambda>(bus, bus_sz, s).
             Inr (input_dir path @ line, bus, line, bus_num, bus_sz, s))))"

definition ParseInput :: "string \<Rightarrow> string option \<Rightarrow> (string list \<times> string list list \<times> string list list) res" where
  "ParseInput path file =
     (let s = (case file of None \<Rightarrow> \<lparr>rest = [], good = False\<rparr> | Some text \<Rightarrow> stream_of text) in
     rbind (in_circuit path ('''', None, None, s)) (\<lambda>(f1, bus1, st).
     rbind (in_circuit path st) (\<lambda>(f2, bus2, st).
     Inr ([''case'', f1, f2], bus1, bus2))))"

section \<open>Reading a printed input file\<close>

definition word :: "string \<Rightarrow> bool" where
  "word w \<longleftrightarrow> w \<noteq> [] \<and> list_all (\<lambda>c. \<not> is_space c) w"

definition print_bus :: "string list \<Rightarrow> string" where
  "print_bus names = to_string (int (length names)) @ concat (map (\<lambda>n. '' '' @ n) names) @ [newline]"

definition print_part :: "string \<Rightarrow> string list list \<Rightarrow> string" where
  "print_part file bus = file @ [newline] @ to_string (int (length bus)) @ [newline] @ concat (map print_bus bus)"

definition part_ok :: "string \<Rightarrow> string list list \<Rightarrow> bool" where
  "part_ok file bus \<longleftrightarrow> word file \<and> length bus < 2 ^ 31 \<and> (\<forall>names \<in> set bus. length names < 2 ^ 31 \<and> list_all word names)"

definition spaced :: "string \<Rightarrow> bool" where
  "spaced t \<longleftrightarrow> t \<noteq> [] \<and> is_space (hd t)"

lemma spaced_simps [simp]: "spaced (CHR '' '' # t)" "spaced (newline # t)"
  by (simp_all add: spaced_def is_space_def)

lemma in_string_word:
  assumes "list_all is_space ws" "word w" "spaced t"
  shows "in_string old (stream_of (ws @ w @ t)) = (w, stream_of t)"
proof -
  have w: "w \<noteq> []" "\<And>c. c \<in> set w \<Longrightarrow> \<not> is_space c" using assms(2) by (auto simp: word_def list_all_iff)
  obtain c t' where t: "t = c # t'" "is_space c" using assms(3) by (cases t) (auto simp: spaced_def)
  have "dropWhile is_space (ws @ w @ t) = w @ t"
    using assms(1) w by (cases w) (auto simp: dropWhile_append2 list_all_iff)
  moreover have "takeWhile (\<lambda>c. \<not> is_space c) (w @ t) = w" "dropWhile (\<lambda>c. \<not> is_space c) (w @ t) = t"
    using w(2) t by (simp_all add: takeWhile_append2 dropWhile_append2)
  ultimately show ?thesis using w(1) by (simp add: in_string_def get_word_def stream_of_def Let_def t(1))
qed

lemma read_sign_spaces: "list_all is_space ws \<Longrightarrow> read_sign (ws @ s) = read_sign s"
  by (simp add: read_sign_def dropWhile_append2 list_all_iff)

lemma space_no_digit: "is_space c \<Longrightarrow> \<not> is_digit c"
  using digit_chars by blast

lemma in_int_number:
  assumes "list_all is_space ws" "n < 2 ^ 31" "spaced t"
  shows "in_int old (stream_of (ws @ to_string (int n) @ t)) = (Some (int n), stream_of t)"
proof -
  obtain c t' where t: "t = c # t'" "is_space c" using assms(3) by (cases t) (auto simp: spaced_def)
  have sign: "read_sign (ws @ to_string (int n) @ t) = (False, nat_digits n @ t)"
    using read_sign_number [of "int n" t] by (simp add: read_sign_spaces [OF assms(1)])
  have "takeWhile is_digit (nat_digits n @ t) = nat_digits n" "dropWhile is_digit (nat_digits n @ t) = t"
    using t space_no_digit by (simp_all add: takeWhile_append2 dropWhile_append2 nat_digits_all)
  moreover have "(- (2 ^ 31) \<le> int n \<and> int n < 2 ^ 31) = True" using assms(2) by simp
  ultimately have read: "read_int (ws @ to_string (int n) @ t) = (True, int n, t)"
    unfolding read_int_def sign by (simp add: Let_def)
  have "dropWhile is_space (ws @ to_string (int n) @ t) \<noteq> []"
  proof -
    obtain d ds where d: "nat_digits n = d # ds" by (cases "nat_digits n") auto
    then have "\<not> is_space d" using nat_digits_all [of d n] digit_chars by simp
    then show ?thesis by (simp add: to_string_def d)
  qed
  then show ?thesis using read t(1) by (simp add: in_int_def stream_of_def)
qed

lemma in_names:
  assumes "list_all word names" and "length ks = length names"
  shows "fold in_name ks (acc, stream_of (concat (map (\<lambda>n. '' '' @ n) names) @ newline # t)) = (acc @ names, stream_of (newline # t))"
  using assms
proof (induction names arbitrary: ks acc)
  case Nil
  then show ?case by simp
next
  case (Cons n names)
  then obtain k ks' where ks: "ks = k # ks'" by (cases ks) auto
  have sp: "spaced (concat (map (\<lambda>n. '' '' @ n) names) @ newline # t)" by (cases names) simp_all
  have "in_string '''' (stream_of ('' '' @ n @ concat (map (\<lambda>n. '' '' @ n) names) @ newline # t)) =
      (n, stream_of (concat (map (\<lambda>n. '' '' @ n) names) @ newline # t))"
    by (rule in_string_word [OF _ _ sp]) (use Cons.prems in \<open>simp_all add: is_space_def\<close>)
  then have "in_name k (acc, stream_of (concat (map (\<lambda>n. '' '' @ n) (n # names)) @ newline # t)) =
      (acc @ [n], stream_of (concat (map (\<lambda>n. '' '' @ n) names) @ newline # t))"
    by (simp add: in_name_def)
  then show ?case using Cons.IH [of ks' "acc @ [n]"] Cons.prems by (simp add: ks)
qed

lemma newline_space: "list_all is_space [newline]"
  by (simp add: is_space_def)

lemma in_bus_print:
  assumes "length names < 2 ^ 31" "list_all word names"
  shows "in_bus i (bus, sz, stream_of (newline # print_bus names @ t)) = Inr (bus @ [names], Some (int (length names)), stream_of (newline # t))"
proof -
  let ?ns = "concat (map (\<lambda>n. '' '' @ n) names) @ newline # t"
  have "spaced ?ns" by (cases names) simp_all
  from in_int_number [OF newline_space assms(1) this, of sz]
  have "in_int sz (stream_of (newline # print_bus names @ t)) = (Some (int (length names)), stream_of ?ns)"
    by (simp add: print_bus_def)
  then show ?thesis using in_names [OF assms(2), of "[0..<length names]" "[]" t] by (simp add: in_bus_def resize_to_def)
qed

lemma in_buses_print:
  assumes "\<forall>names \<in> set bs. length names < 2 ^ 31 \<and> list_all word names" and "length ks = length bs"
  shows "\<exists>sz'. rfold in_bus ks (bus, sz, stream_of (newline # concat (map print_bus bs) @ t)) = Inr (bus @ bs, sz', stream_of (newline # t))"
  using assms
proof (induction bs arbitrary: ks bus sz)
  case Nil
  then show ?case by simp
next
  case (Cons b bs)
  then obtain k ks' where ks: "ks = k # ks'" by (cases ks) auto
  then show ?case
    using in_bus_print [of b k bus sz "concat (map print_bus bs) @ t"] Cons.IH [of ks' "bus @ [b]"] Cons.prems by simp
qed

lemma in_circuit_print:
  assumes "part_ok file bus" and ws: "list_all is_space ws"
  shows "\<exists>bn bs. in_circuit path (line, bus_num, bus_sz, stream_of (ws @ print_part file bus @ t)) =
     Inr (input_dir path @ file, bus, file, bn, bs, stream_of (newline # t))"
proof -
  let ?t2 = "newline # concat (map print_bus bus) @ t"
  let ?t1 = "newline # to_string (int (length bus)) @ ?t2"
  have ok: "word file" "length bus < 2 ^ 31" "\<forall>names \<in> set bus. length names < 2 ^ 31 \<and> list_all word names"
    using assms(1) by (simp_all add: part_ok_def)
  have "in_string line (stream_of (ws @ print_part file bus @ t)) = (file, stream_of ?t1)"
    using in_string_word [OF ws ok(1), of ?t1] by (simp add: print_part_def)
  moreover have "in_int bus_num (stream_of ?t1) = (Some (int (length bus)), stream_of ?t2)"
    using in_int_number [OF newline_space ok(2), of ?t2 bus_num] by simp
  ultimately show ?thesis
    using in_buses_print [OF ok(3), of "[0..<length bus]" "[]" bus_sz t] by (auto simp: in_circuit_def resize_to_def)
qed

lemma ParseInput_print:
  assumes "part_ok f1 b1" "part_ok f2 b2"
  shows "ParseInput path (Some (print_part f1 b1 @ print_part f2 b2)) = Inr ([''case'', input_dir path @ f1, input_dir path @ f2], b1, b2)"
proof -
  obtain bn bs where 1: "in_circuit path ('''', None, None, stream_of (print_part f1 b1 @ print_part f2 b2)) =
      Inr (input_dir path @ f1, b1, f1, bn, bs, stream_of (newline # print_part f2 b2))"
    using in_circuit_print [OF assms(1), of "[]" path "''''" None None "print_part f2 b2"] by auto
  obtain bn' bs' where 2: "in_circuit path (f1, bn, bs, stream_of (newline # print_part f2 b2)) =
      Inr (input_dir path @ f2, b2, f2, bn', bs', stream_of [newline])"
    using in_circuit_print [OF assms(2) newline_space, of path f1 bn bs "[]"] by auto
  show ?thesis by (simp add: ParseInput_def Let_def 1 2)
qed

end
