(* ===== verification/Main_Program.thy ===== *)
theory Main_Program
  imports Input_Files Match_Init Match_Bus
begin

text \<open>
  \<open>main\<close> of \<open>main.cpp\<close>, from the input file to the answer, and \<open>verifyResult\<close> of class \<open>Match\<close>. ABC and CaDiCaL
  are parameters, and so are the files that are read, the sequence of random numbers and the orders of iteration. The search runs to its end:
  nothing calls \<open>isInTime\<close>.
\<close>

section \<open>\<open>verifyResult\<close>\<close>

text \<open>How often each input of circuit 2 occurs in the cone of an output.\<close>

definition verify_counts :: "ctx \<Rightarrow> int list res" where
  "verify_counts X =
     rfold (\<lambda>out. rfold (\<lambda>i cnt. vadd 1 cnt i) (n_pi_idx (x_nodes X out))) (x_output2 X) (replicate (length (x_input2 X)) 0)"

text \<open>The inputs of circuit 2 for which a wrong lock count is reported.\<close>

definition wrong_counts :: "int list \<Rightarrow> int list \<Rightarrow> nat \<Rightarrow> int list res" where
  "wrong_counts cnt lock_count n =
     rfold (\<lambda>i w. rbind (vget cnt (int i)) (\<lambda>a. rbind (vget lock_count (int i)) (\<lambda>b.
       Inr (if a \<noteq> b then w @ [int i] else w)))) [0..<n] []"

text \<open>The pairs for the miter; an unmatched input is only warned about and paired with \<open>-1\<close>.\<close>

definition verify_pair :: "lock list \<Rightarrow> int \<Rightarrow> miter_pairs \<Rightarrow> miter_pairs res" where
  "verify_pair inputMatch piIdx2 = (\<lambda>(ps, ns, cs).
     rbind (vget inputMatch piIdx2) (\<lambda>(piIdx1, neg).
     if piIdx1 = CONST_VAL then Inr (ps, ns, cs @ [(neg, piIdx2)])
     else Inr (ps @ [(piIdx2, piIdx1)], ns @ [neg], cs)))"

definition verify_miter :: "ctx \<Rightarrow> lock list \<Rightarrow> int \<Rightarrow> int \<Rightarrow> nat res" where
  "verify_miter X inputMatch outIdx2 outIdx1 =
     rbind (vget (x_output2 X) outIdx2) (\<lambda>out.
     rbind (rfold (verify_pair inputMatch) (n_pi_idx (x_nodes X out)) ([], [], [])) (\<lambda>(ps, ns, cs).
     miterOneOutputRandom (x_ord X) (x_rnd X) (x_nodes X) (x_fuel X) (x_input1 X) (x_input2 X) (x_output1 X) (x_output2 X)
       ps ns (outIdx2, outIdx1) cs))"

definition one_output_eq :: "nat \<Rightarrow> bool \<Rightarrow> bool" where
  "one_output_eq result neg \<longleftrightarrow> result = 1 \<and> \<not> neg \<or> result = 2 \<and> neg"

definition verify_output :: "ctx \<Rightarrow> best \<Rightarrow> nat \<Rightarrow> int \<times> bool \<Rightarrow> (int \<times> bool) res" where
  "verify_output X B i = (\<lambda>(point, eq).
     let (outIdx1, neg) = maxOutputMatch B ! i
     in if outIdx1 = -1 then Inr (point, eq)
        else rbind (verify_miter X (maxInputMatch B) (int i) outIdx1) (\<lambda>result.
             Inr (if one_output_eq result neg then (point + 2, eq) else (point, False))))"

definition verifyResult :: "ctx \<Rightarrow> locks \<Rightarrow> best \<Rightarrow> (int list \<times> int \<times> bool) res" where
  "verifyResult X L B =
     rbind (verify_counts X) (\<lambda>cnt.
     rbind (wrong_counts cnt (inputLockCount L) (length (x_input2 X))) (\<lambda>wrong.
     rbind (rfold (verify_output X B) [0..<length (maxOutputMatch B)] (0, True)) (\<lambda>(point, eq).
     Inr (wrong, point, eq))))"

section \<open>\<open>main\<close>\<close>

text \<open>
  What \<open>main\<close> runs on: the files it can read, the netlist ABC writes for a text, the verdict of ABC and CaDiCaL on a
  miter, and the parameters of the phases.
\<close>

record world =
  w_file :: "string \<Rightarrow> string option"
  w_map :: "string \<Rightarrow> string option"
  w_solve :: "string \<Rightarrow> int"
  w_init :: init_env
  w_fuel :: nat
  w_ord :: "addr list \<Rightarrow> addr list"
  w_rnd :: "nat \<Rightarrow> nat"
  w_sort :: "(addr \<Rightarrow> addr \<Rightarrow> bool) \<Rightarrow> addr list \<Rightarrow> addr list"

definition testcase :: "(int \<times> int) list" where
  "testcase = [(0, 0), (3, 3), (16, 16), (168, 172), (39, 28), (1816, 1768), (769, 818), (91, 105), (224, 241),
     (8982, 9572), (1318, 1604)]"

definition case_id :: "int \<times> int \<Rightarrow> int" where
  "case_id code = fold (\<lambda>i caseID. if code = testcase ! i then int i else caseID) [0..<11] 0"

definition case_name :: "int \<Rightarrow> string" where
  "case_name caseID = (if caseID < 10 then ''0'' @ to_string caseID else to_string caseID)"

text \<open>The tables of the answer: inputs with negations, outputs with negations, constants.\<close>

type_synonym answer = "int list list \<times> bool list \<times> int list list \<times> bool list \<times> (bool \<times> int) list"

definition translate :: "nat \<Rightarrow> nat \<Rightarrow> nat \<Rightarrow> nat \<Rightarrow> best \<Rightarrow> answer res" where
  "translate c1_PI c2_PI c1_PO c2_PO B =
     rbind (lock_tables True c1_PI c2_PI (maxInputMatch B) []) (\<lambda>(in_match_pair, in_ne, const_match).
     rbind (lock_tables False c1_PO c2_PO (maxOutputMatch B) []) (\<lambda>(out_match_pair, out_ne, _).
     Inr (in_match_pair, in_ne, out_match_pair, out_ne, const_match)))"

text \<open>The file that a name stands for in the circuits: an unreadable file is read as an empty one.\<close>

definition circuit_text :: "world \<Rightarrow> string \<Rightarrow> string res" where
  "circuit_text W name = DeleteGateName (case w_file W name of None \<Rightarrow> '''' | Some text \<Rightarrow> text)"

definition mapped_text :: "world \<Rightarrow> string \<Rightarrow> string res" where
  "mapped_text W text = (case w_map W text of None \<Rightarrow> Inl (Exit ''Failed to open input file.'') | Some t \<Rightarrow> Inr t)"

text \<open>Both modules with their buses, and the numbers of wires.\<close>

definition read_modules :: "world \<Rightarrow> string \<Rightarrow> string \<Rightarrow> string list list \<Rightarrow> string list list \<Rightarrow> store \<Rightarrow> ((int \<times> int) \<times> module \<times> module \<times> store) res" where
  "read_modules W mapped1 mapped2 bus1 bus2 st =
     rbind (Parser (w_fuel W) mapped1 0 0 [] st) (\<lambda>(code1, ms, st).
     rbind (Parser (w_fuel W) mapped2 1 0 ms st) (\<lambda>(code2, ms, st).
     rbind (vget ms 0) (\<lambda>m1. rbind (vget ms 1) (\<lambda>m2.
     rbind (setBus bus1 (m1, heap st)) (\<lambda>(_, m1, h).
     rbind (setBus bus2 (m2, h)) (\<lambda>(_, m2, h).
     Inr ((code1, code2), m1, m2, st\<lparr>heap := h\<rparr>)))))))"

text \<open>\<open>match_bus\<close> is called only when the circuits have different numbers of inputs.\<close>

definition bus_phase :: "init_state \<Rightarrow> (nat \<times> (int \<Rightarrow> int list)) res" where
  "bus_phase s =
     (if length (m_gate (i_mod1 s) INPUT) \<noteq> length (m_gate (i_mod2 s) INPUT)
      then match_bus (i_heap s) (i_mod1 s) (i_mod2 s) else Inr (0, \<lambda>_. []))"

type_synonym supports = "(addr list list \<times> addr list list) \<times> (addr list list \<times> addr list list)"

definition match_data_of :: "world \<Rightarrow> int \<Rightarrow> init_state \<Rightarrow> nat \<times> (int \<Rightarrow> int list) \<Rightarrow> supports \<Rightarrow> match_data" where
  "match_data_of W caseID s = (\<lambda>(bus_size, bus_match_idx) ((os1, os2), (is1, is2)).
     \<lparr>s_caseID = case_name caseID, s_initOn = True, s_mod1 = i_mod1 s, s_mod2 = i_mod2 s,
      s_output_support1 = os1, s_output_support2 = os2, s_input_support1 = is1, s_input_support2 = is2,
      s_init_output = i_init_output s, s_init_input = i_init_input s, s_init_input_ne = i_init_input_ne s,
      s_bus_size = int bus_size, s_bus_match_idx = bus_match_idx, s_fuel = w_fuel W, s_ord = w_ord W, s_rnd = w_rnd W,
      s_sort = w_sort W\<rparr>)"

definition supp_file :: "int \<Rightarrow> string \<Rightarrow> string" where
  "supp_file caseID name = ''case'' @ case_name caseID @ ''_supp/'' @ name"

definition search_phase :: "match_data \<Rightarrow> store \<Rightarrow> (answer \<times> ctx \<times> best) res" where
  "search_phase S st =
     rbind (new_boolean_match S st) (\<lambda>(X, b, L, B).
     rbind (verifyResult X L B) (\<lambda>_.
     rbind (translate (length (s_input1 S)) (length (s_input2 S)) (length (s_output1 S)) (length (s_output2 S)) B) (\<lambda>ans.
     Inr (ans, X, B))))"

definition match_phase :: "world \<Rightarrow> int \<Rightarrow> init_state \<Rightarrow> (answer \<times> (addr \<Rightarrow> node)) res" where
  "match_phase W caseID s =
     rbind (bus_phase s) (\<lambda>buses.
     if caseID = 3 then Inr ((i_in_match_pair s, i_input_ne s, i_match_pair s, i_output_ne s, i_const_match s), i_heap s)
     else
       rbind (readFunctionSupport (m_gate (i_mod1 s) INPUT) (m_gate (i_mod2 s) INPUT) (m_gate (i_mod1 s) OUTPUT) (m_gate (i_mod2 s) OUTPUT)
                (w_file W (supp_file caseID ''output_support.txt'')) (w_file W (supp_file caseID ''input_support.txt''))) (\<lambda>supp.
       rbind (search_phase (match_data_of W caseID s buses supp) (i_store s)) (\<lambda>(ans, X, B).
       Inr (ans, x_nodes X))))"

text \<open>The answer file, the reports of ports matched twice, and the verdict of the miter.\<close>

definition report :: "world \<Rightarrow> (addr \<Rightarrow> node) \<Rightarrow> string \<Rightarrow> string \<Rightarrow> module \<Rightarrow> module \<Rightarrow> answer \<Rightarrow> (string \<times> int list \<times> bool) res" where
  "report W h del1 del2 m1 m2 = (\<lambda>(in_match_pair, in_ne, out_match_pair, out_ne, const_match).
     let input1 = m_gate m1 INPUT; input2 = m_gate m2 INPUT; output1 = m_gate m1 OUTPUT; output2 = m_gate m2 OUTPUT in
     rbind (writeOutput h input1 input2 output1 output2 in_match_pair in_ne out_match_pair out_ne const_match) (\<lambda>(text, errs).
     rbind (miter (w_solve W) h del1 del2 input1 input2 output1 output2 in_match_pair in_ne out_match_pair out_ne const_match) (\<lambda>eq.
     Inr (text, errs, eq))))"

definition initial_store :: store where
  "initial_store = \<lparr>heap = (\<lambda>a. mk_node a '''' NONE), next_addr = 0\<rparr>"

definition main :: "world \<Rightarrow> string \<Rightarrow> (string \<times> int list \<times> bool) res" where
  "main W path =
     rbind (ParseInput path (w_file W path)) (\<lambda>(file_name, bus1, bus2).
     rbind (circuit_text W (file_name ! 1)) (\<lambda>del1. rbind (circuit_text W (file_name ! 2)) (\<lambda>del2.
     rbind (mapped_text W del1) (\<lambda>mapped1. rbind (mapped_text W del2) (\<lambda>mapped2.
     rbind (read_modules W mapped1 mapped2 bus1 bus2 initial_store) (\<lambda>(code, m1, m2, st).
     let caseID = case_id code; E = (w_init W)\<lparr>e_del_out1 := del1, e_del_out2 := del2\<rparr> in
     rbind (MatchAlgo E caseID m1 m2 st) (\<lambda>s.
     rbind (match_phase W caseID s) (\<lambda>(ans, h).
     report W h del1 del2 (i_mod1 s) (i_mod2 s) ans))))))))"

text \<open>A world for the examples: its files, and the netlists and verdicts that are made of texts.\<close>

definition example_world :: "(string \<Rightarrow> string option) \<Rightarrow> (string \<Rightarrow> string option) \<Rightarrow> (string \<Rightarrow> int) \<Rightarrow> world" where
  "example_world files mapped solve =
     \<lparr>w_file = files, w_map = mapped, w_solve = solve,
      w_init = \<lparr>e_fuel = 20, e_ord = \<lparr>ord_nodes = \<lambda>xs. xs, ord_ints = \<lambda>xs. xs, ord_sort = std_sort\<rparr>, e_lhs_first = True,
                e_abc = \<lambda>s. s, e_replace = 20, e_del_out1 = '''', e_del_out2 = '''', e_mapped = ''''\<rparr>,
      w_fuel = 20, w_ord = \<lambda>xs. xs, w_rnd = \<lambda>_. 0, w_sort = std_sort\<rparr>"

end
