(* ===== verification/Main_Props.thy ===== *)
theory Main_Props
  imports Main_Program File_Props Start_Props
begin

text \<open>The properties of what \<open>main\<close> reads first and of what it does with the result of the search.\<close>

section \<open>The files that are read\<close>

text \<open>C35: \<open>DeleteGateName\<close> removes the names of the gates and nothing else. On the text of a module it returns the text
  of the same module in which every gate is unnamed; the header and the declarations are kept, and the result is laid
  out as the file of one module that the miter expects.\<close>

theorem DeleteGateName_text:
  assumes "CHR ''('' \<notin> set name" "newline \<notin> set name" and "ports \<noteq> []" "list_all plain ports" and "list_all stmt_ok sts"
  shows "DeleteGateName (print_circuit name (join ports) sts) = Inr (print_circuit name (join ports) (map unnamed sts)) \<and>
    print_circuit name (join ports) (map unnamed sts) =
      show_circuit name \<lparr>cf_name = name, cf_ports = ports, cf_body = map (print_stmt \<circ> unnamed) sts\<rparr>"
  using DeleteGateName_print [OF assms] print_show_circuit [OF assms(3), of name "map unnamed sts" name] by simp

theorem DeleteGateName_text_witness:
  "DeleteGateName (print_circuit ''top'' (join [''x'', ''z'']) [Decl INPUT [''x''], Decl OUTPUT [''z''], Gate INV ''g1'' [''z'', ''x'']]) =
   Inr (print_circuit ''top'' (join [''x'', ''z'']) [Decl INPUT [''x''], Decl OUTPUT [''z''], Gate INV '''' [''z'', ''x'']])"
  using DeleteGateName_text [of "''top''" "[''x'', ''z'']" "[Decl INPUT [''x''], Decl OUTPUT [''z''], Gate INV ''g1'' [''z'', ''x'']]"]
  by (simp add: plain_def plain_char_def)

text \<open>C36: \<open>ParseInput\<close> reads back an input file: for the two circuits with their buses, printed as the contest prints them,
  it returns the paths of the circuits in the directory of the input file and exactly the buses.\<close>

theorem ParseInput_roundtrip:
  assumes "part_ok f1 b1" "part_ok f2 b2"
  shows "ParseInput (dir @ ''input'') (Some (print_part f1 b1 @ print_part f2 b2)) = Inr ([''case'', dir @ f1, dir @ f2], b1, b2)"
  using ParseInput_print [OF assms, of "dir @ ''input''"] by (simp add: input_dir_def)

theorem ParseInput_roundtrip_witness:
  "ParseInput ''case00/input'' (Some (print_part ''a.v'' [[''x'', ''y''], []] @ print_part ''b.v'' [])) =
   Inr ([''case'', ''case00/a.v'', ''case00/b.v''], [[''x'', ''y''], []], [])"
  using ParseInput_roundtrip [of "''a.v''" "[[''x'', ''y''], []]" "''b.v''" "[]" "''case00/''"]
  by (simp add: part_ok_def word_def is_space_def)

section \<open>The answer\<close>

lemma members_set: "q \<in> set (members il c) \<longleftrightarrow> (\<exists>j < length il. q = int j \<and> fst (il ! j) = c)"
  by (auto simp: members_def)

lemma members_distinct: "distinct (members il c)"
  by (simp add: members_def distinct_map)

lemma flat_members: "map snd (flat_pairs pairs) = concat pairs"
proof -
  have "map snd (flat_pairs pairs) = concat (map (\<lambda>i. pairs ! i) [0..<length pairs])"
    by (simp add: flat_pairs_def map_concat o_def)
  then show ?thesis by (simp add: map_nth)
qed

lemma concat_members:
  "set (concat (map (\<lambda>c. members il (int c)) [0..<n])) = {int j | j. j < length il \<and> 0 \<le> fst (il ! j) \<and> fst (il ! j) < int n}"
  "distinct (concat (map (\<lambda>c. members il (int c)) [0..<n]))"
proof (induction n)
  case (Suc n)
  {
    case 1
    show ?case using Suc(1) by (auto simp: members_set)
  next
    case 2
    show ?case using Suc members_distinct by (auto simp: members_set)
  }
qed simp_all

lemma tables_match_ok:
  assumes "locks_ok True n1 n2 il" "locks_ok False m1 m2 ol"
    and "tables_of True n1 n2 il = (ip, ine, cs)" "tables_of False m1 m2 ol = (op, one, cs')"
  shows "match_ok n1 n2 m1 m2 ip ine op one cs"
  using assms by (auto simp: match_ok_def tables_of_def members_set locks_ok_def)

lemma tables_all_matched:
  assumes ok: "locks_ok True n1 n2 il" and t: "tables_of True n1 n2 il = (ip, ine, cs)"
  shows "all_matched n2 ip cs \<longleftrightarrow> (\<forall>l \<in> set il. fst l \<noteq> -1)"
proof -
  have len: "length il = n2" and range: "\<forall>l \<in> set il. fst l = -1 \<or> fst l = CONST_VAL \<or> 0 \<le> fst l \<and> fst l < int n1"
    using ok by (auto simp: locks_ok_def)
  have ip: "ip = map (\<lambda>c. members il (int c)) [0..<n1]" and cs: "map snd cs = members il CONST_VAL"
    using t by (auto simp: tables_of_def o_def)
  have "distinct (map snd (flat_pairs ip) @ map snd cs)"
    unfolding flat_members cs ip using concat_members [of il n1] members_distinct by (auto simp: members_set CONST_VAL_def simp del: set_concat)
  moreover have "int q \<in> set (map snd (flat_pairs ip) @ map snd cs) \<longleftrightarrow> fst (il ! q) \<noteq> -1" if "q < n2" for q
    unfolding flat_members cs set_append ip concat_members using range that len
    by (auto simp: members_set CONST_VAL_def dest!: nth_mem)
  moreover have "(\<forall>l \<in> set il. fst l \<noteq> -1) \<longleftrightarrow> (\<forall>q < n2. fst (il ! q) \<noteq> -1)"
    by (simp add: all_set_conv_all_nth len)
  ultimately show ?thesis unfolding all_matched_def by simp
qed

lemma search_answer_file:
  assumes "data_ok S st"
  shows "\<exists>X b L B. new_boolean_match S st = Inr (X, b, L, B) \<and>
     locks_ok True (length (s_input1 S)) (length (s_input2 S)) (maxInputMatch B) \<and>
     locks_ok False (length (s_output1 S)) (length (s_output2 S)) (maxOutputMatch B) \<and>
     answer_file B = render_answer (x_nodes X) (s_input1 S) (s_input2 S) (s_output1 S) (s_output2 S) (maxInputMatch B) (maxOutputMatch B)"
proof -
  obtain h1 icand st2 where p: "prepare_match S st = Inr (ready_ctx S h1 (heap st2) icand)"
    and R: "ready_state S st h1 st2 icand"
    using prepare_match_runs [OF assms] assms by (auto simp: ready_state_def)
  let ?X = "ready_ctx S h1 (heap st2) icand" and ?pr = "\<lambda>a. n_priority (x_nodes (ready_ctx S h1 (heap st2) icand) a)"
  have X: "search_ok ?X (length (s_bus1 S)) (length (s_bus2 S))" by (rule ready_search_ok [OF R])
  obtain b L B where run: "start_search ?X (length (s_bus1 S)) (length (s_bus2 S)) ?pr = Inr (b, L, B)"
    and post: "search_post ?X ?pr (init_locks ?X (length (s_bus1 S)) (length (s_bus2 S))) b (L, B)"
    using start_search_ok [OF X, of ?pr] by auto
  have "maxOutputDepth B \<ge> 0" using match_output_mono run unfolding start_search_def by fastforce
  moreover have "best_ok ?X ?pr B" using post by (cases b) (simp_all add: found_def searching_def)
  ultimately have "answer ?X (maxInputMatch B) (maxOutputMatch B) \<and> answer_file B = render_answer (x_nodes ?X) (x_input1 ?X) (x_input2 ?X)
      (x_output1 ?X) (x_output2 ?X) (maxInputMatch B) (maxOutputMatch B)"
    by (auto simp: best_ok_def)
  then show ?thesis using p run by (auto simp: new_boolean_match_def answer_def)
qed

lemma search_tables:
  assumes "data_ok S st"
  obtains X b L B ip ine op one cs cs' where "new_boolean_match S st = Inr (X, b, L, B)"
    "locks_ok True (length (s_input1 S)) (length (s_input2 S)) (maxInputMatch B)"
    "locks_ok False (length (s_output1 S)) (length (s_output2 S)) (maxOutputMatch B)"
    "tables_of True (length (s_input1 S)) (length (s_input2 S)) (maxInputMatch B) = (ip, ine, cs)"
    "tables_of False (length (s_output1 S)) (length (s_output2 S)) (maxOutputMatch B) = (op, one, cs')"
    "translate (length (s_input1 S)) (length (s_input2 S)) (length (s_output1 S)) (length (s_output2 S)) B = Inr (ip, ine, op, one, cs)"
    "writeOutput (x_nodes X) (s_input1 S) (s_input2 S) (s_output1 S) (s_output2 S) ip ine op one cs = Inr (answer_file B, [])"
proof -
  obtain X b L B where run: "new_boolean_match S st = Inr (X, b, L, B)"
    and il: "locks_ok True (length (s_input1 S)) (length (s_input2 S)) (maxInputMatch B)"
    and ol: "locks_ok False (length (s_output1 S)) (length (s_output2 S)) (maxOutputMatch B)"
    and ans: "answer_file B = render_answer (x_nodes X) (s_input1 S) (s_input2 S) (s_output1 S) (s_output2 S) (maxInputMatch B) (maxOutputMatch B)"
    using search_answer_file [OF assms] by blast
  obtain ip ine cs op one cs' where t: "tables_of True (length (s_input1 S)) (length (s_input2 S)) (maxInputMatch B) = (ip, ine, cs)"
    "tables_of False (length (s_output1 S)) (length (s_output2 S)) (maxOutputMatch B) = (op, one, cs')"
    by (metis prod_cases3)
  have "writeOutput (x_nodes X) (s_input1 S) (s_input2 S) (s_output1 S) (s_output2 S) ip ine op one cs = Inr (answer_file B, [])"
    using writePartialAns_ok [OF il ol, of "x_nodes X"] lock_tables_ok [OF il] lock_tables_ok [OF ol] t
    by (simp add: writePartialAns_def ans)
  moreover have "translate (length (s_input1 S)) (length (s_input2 S)) (length (s_output1 S)) (length (s_output2 S)) B = Inr (ip, ine, op, one, cs)"
    using lock_tables_ok [OF il] lock_tables_ok [OF ol] t by (simp add: translate_def)
  ultimately show ?thesis using that run il ol t by blast
qed

text \<open>C10: \<open>main\<close> writes the answer the search has recorded. On data that fit together the tables \<open>main\<close> makes of
  the recorded locks are in range, writing them gives the file the search wrote last, without a port reported twice, and
  they meet what the final miter needs exactly when the recorded answer locks every input of circuit 2.\<close>

theorem main_writes_answer:
  assumes "data_ok S st"
  shows "\<exists>X b L B ip ine op one cs. new_boolean_match S st = Inr (X, b, L, B) \<and>
     translate (length (s_input1 S)) (length (s_input2 S)) (length (s_output1 S)) (length (s_output2 S)) B = Inr (ip, ine, op, one, cs) \<and>
     writeOutput (x_nodes X) (s_input1 S) (s_input2 S) (s_output1 S) (s_output2 S) ip ine op one cs = Inr (answer_file B, []) \<and>
     match_ok (length (s_input1 S)) (length (s_input2 S)) (length (s_output1 S)) (length (s_output2 S)) ip ine op one cs \<and>
     (all_matched (length (s_input2 S)) ip cs \<longleftrightarrow> (\<forall>l \<in> set (maxInputMatch B). fst l \<noteq> -1))"
  using search_tables [OF assms] tables_match_ok tables_all_matched by (smt (verit))

theorem main_writes_answer_witness:
  "\<exists>X b L B ip ine op one cs. new_boolean_match ex_data ex_store = Inr (X, b, L, B) \<and> translate 2 2 1 1 B = Inr (ip, ine, op, one, cs) \<and>
     writeOutput (x_nodes X) [0, 1] [4, 5] [3] [7] ip ine op one cs = Inr (answer_file B, [])"
  using main_writes_answer [OF ex_data_ok] by (simp add: numeral_2_eq_2) blast

section \<open>\<open>verifyResult\<close>\<close>

text \<open>The pairs and the constants for the miter, in the order of the cone.\<close>

lemma verify_pairs:
  assumes "\<forall>q \<in> set idxs. in_range il q"
  shows "rfold (verify_pair il) idxs (ps, ns, cs) =
    Inr (ps @ map (\<lambda>q. (q, fst (il ! nat q))) (filter (\<lambda>q. fst (il ! nat q) \<noteq> CONST_VAL) idxs),
      ns @ map (\<lambda>q. snd (il ! nat q)) (filter (\<lambda>q. fst (il ! nat q) \<noteq> CONST_VAL) idxs),
      cs @ map (\<lambda>q. (snd (il ! nat q), q)) (filter (\<lambda>q. fst (il ! nat q) = CONST_VAL) idxs))"
  using assms
proof (induction idxs arbitrary: ps ns cs)
  case Nil
  then show ?case by simp
next
  case (Cons q idxs)
  obtain c ng where l: "il ! nat q = (c, ng)" by (cases "il ! nat q")
  have "verify_pair il q (ps, ns, cs) = Inr (if c = CONST_VAL then (ps, ns, cs @ [(ng, q)]) else (ps @ [(q, c)], ns @ [ng], cs))"
    using Cons.prems l by (simp add: verify_pair_def)
  then show ?case using Cons l by simp
qed

lemma assign_consts_runs:
  assumes "\<forall>(c, q) \<in> set cs. in_range input2 q"
  shows "\<exists>pv'. assign_consts input2 cs pv = Inr pv'"
  using assms unfolding assign_consts_def by (induction cs arbitrary: pv) auto

definition fetch_wire :: "addr list \<Rightarrow> addr list \<Rightarrow> (int \<times> int) list \<Rightarrow> bool list \<Rightarrow> int \<Rightarrow> wire list \<Rightarrow> wire list res" where
  "fetch_wire input1 input2 pairs negs i ws = rbind (vget pairs i) (\<lambda>(c2, c1).
     rbind (vget input2 c2) (\<lambda>b. rbind (vget input1 c1) (\<lambda>a. rbind (vget negs i) (\<lambda>ng. Inr (ws @ [(b, a, ng)])))))"

lemma lookup_wires_fetch: "lookup_wires i1 i2 ps ns = rfold (fetch_wire i1 i2 ps ns) (map int [0..<length ps]) []"
  by (simp add: lookup_wires_def fetch_wire_def [abs_def])

lemma lookup_wires_runs:
  assumes "\<forall>(c2, c1) \<in> set ps. in_range i2 c2 \<and> in_range i1 c1" and "length ps \<le> length ns"
  shows "\<exists>ws. lookup_wires i1 i2 ps ns = Inr ws"
proof -
  have "\<exists>v. fetch_wire i1 i2 ps ns i u = Inr v \<and> True" if ik: "i \<in> set (map int [0..<length ps])" for i u
  proof -
    obtain k where k: "i = int k" "k < length ps" using ik by auto
    obtain c2 c1 where c: "ps ! k = (c2, c1)" by (cases "ps ! k")
    then have "in_range i2 c2 \<and> in_range i1 c1" using assms(1) nth_mem [OF k(2)] by auto
    then show ?thesis using c k assms(2) by (simp add: fetch_wire_def)
  qed
  then show ?thesis unfolding lookup_wires_fetch
    using rfold_total [of "\<lambda>_. True" "[]" "map int [0..<length ps]" "fetch_wire i1 i2 ps ns"] by blast
qed

text \<open>The lookup stops at the first pair without a partner.\<close>

lemma lookup_wires_stops:
  assumes k: "k < length ps" "snd (ps ! k) = -1" "in_range i2 (fst (ps ! k))" and pre: "lookup_wires i1 i2 (take k ps) ns = Inr ws"
  shows "lookup_wires i1 i2 ps ns = Inl Bad_Index"
proof -
  have "[0..<length ps] = [0..<k] @ k # [Suc k..<length ps]" using k(1)
    by (metis le_add_diff_inverse less_imp_le_nat plus_nat.add_0 upt_add_eq_append upt_conv_Cons zero_le)
  then have "lookup_wires i1 i2 ps ns = rbind (rfold (fetch_wire i1 i2 ps ns) (map int [0..<k]) [])
      (rfold (fetch_wire i1 i2 ps ns) (int k # map int [Suc k..<length ps]))"
    by (simp add: lookup_wires_fetch rfold_append)
  moreover have "rfold (fetch_wire i1 i2 ps ns) (map int [0..<k]) [] = Inr ws"
  proof -
    have "fetch_wire i1 i2 ps ns i u = fetch_wire i1 i2 (take k ps) ns i u" if "i \<in> set (map int [0..<k])" for i u
      using that k(1) by (auto simp: fetch_wire_def vget_def in_range_def)
    then have "rfold (fetch_wire i1 i2 ps ns) (map int [0..<k]) [] = rfold (fetch_wire i1 i2 (take k ps) ns) (map int [0..<k]) []"
      by (rule rfold_eqI)
    then show ?thesis using pre k(1) by (simp add: lookup_wires_fetch)
  qed
  moreover have "fetch_wire i1 i2 ps ns (int k) ws = Inl Bad_Index"
    using k by (cases "ps ! k") (simp add: fetch_wire_def vget_def [of i1] in_range_def [of i1])
  ultimately show ?thesis by simp
qed

text \<open>The first unlocked input of a cone.\<close>

lemma first_unlocked:
  assumes "p \<in> set idxs" and "fst (il ! nat p) = -1"
  defines "ps \<equiv> map (\<lambda>q. (q, fst (il ! nat q))) (filter (\<lambda>q. fst (il ! nat q) \<noteq> CONST_VAL) idxs)"
  shows "\<exists>k < length ps. snd (ps ! k) = -1 \<and> fst (ps ! k) \<in> set idxs \<and> (\<forall>(c2, c1) \<in> set (take k ps). c1 \<noteq> -1)"
proof -
  have "(p, -1) \<in> set ps" using assms by (force simp: CONST_VAL_def)
  then obtain i where i: "i < length ps" "snd (ps ! i) = -1" by (auto simp: in_set_conv_nth)
  let ?k = "LEAST k. k < length ps \<and> snd (ps ! k) = -1"
  have k: "?k < length ps \<and> snd (ps ! ?k) = -1" by (rule LeastI [of _ i]) (use i in simp)
  have "c1 \<noteq> -1" if c: "(c2, c1) \<in> set (take ?k ps)" for c2 c1
  proof -
    obtain j where "j < ?k" "j < length ps" "ps ! j = (c2, c1)" using c by (auto simp: in_set_conv_nth)
    then show ?thesis using not_less_Least [of j "\<lambda>k. k < length ps \<and> snd (ps ! k) = -1"] by auto
  qed
  moreover have "ps ! ?k \<in> set ps" using k by (intro nth_mem) simp
  then have "fst (ps ! ?k) \<in> set idxs" by (auto simp: ps_def)
  ultimately show ?thesis using k by blast
qed

lemma verify_counts_run:
  assumes "\<forall>out \<in> set (x_output2 X). \<forall>q \<in> set (n_pi_idx (x_nodes X out)). in_range (x_input2 X) q"
  shows "\<exists>cnt. verify_counts X = Inr cnt \<and> length cnt = length (x_input2 X)"
  unfolding verify_counts_def
proof (rule rfold_total)
  fix out and cnt :: "int list" assume out: "out \<in> set (x_output2 X)" and len: "length cnt = length (x_input2 X)"
  show "\<exists>v. rfold (\<lambda>i cnt. vadd 1 cnt i) (n_pi_idx (x_nodes X out)) cnt = Inr v \<and> length v = length (x_input2 X)"
    by (rule rfold_total [where P = "\<lambda>v. length v = length (x_input2 X)"])
      (use assms out len in \<open>auto simp: vadd_def in_range_def\<close>)
qed simp

lemma wrong_counts_run: "n \<le> length cnt \<Longrightarrow> n \<le> length lc \<Longrightarrow> \<exists>w. wrong_counts cnt lc n = Inr w"
proof -
  assume "n \<le> length cnt" "n \<le> length lc"
  then have "\<exists>w. wrong_counts cnt lc n = Inr w \<and> True" unfolding wrong_counts_def by (intro rfold_total) simp_all
  then show ?thesis by blast
qed

text \<open>C31: \<open>verifyResult\<close> reads \<open>input1[-1]\<close> after a partial match. When the recorded answer matches an output of circuit
  2, the outputs before it are verified, and some input in the cone of that output is not locked (an input outside its
  functional support, which the search never locks), then the list of pairs handed to the miter holds a pair with the index
  \<open>-1\<close>; every lookup for the pairs before it succeeds, and the run stops at the read of \<open>input1[-1]\<close>: the program
  only warns before it.\<close>

theorem verifyResult_unlocked:
  assumes ranges: "\<forall>out \<in> set (x_output2 X). \<forall>q \<in> set (n_pi_idx (x_nodes X out)). in_range (x_input2 X) q"
      "length (inputLockCount L) = length (x_input2 X)" "length (maxInputMatch B) = length (x_input2 X)"
      "length (maxOutputMatch B) = length (x_output2 X)"
      "\<forall>l \<in> set (maxInputMatch B). fst l = -1 \<or> fst l = CONST_VAL \<or> in_range (x_input1 X) (fst l)"
    and before: "rfold (verify_output X B) [0..<i] (0, True) = Inr u"
    and i: "i < length (maxOutputMatch B)" "fst (maxOutputMatch B ! i) \<noteq> -1"
    and p: "p \<in> set (n_pi_idx (x_nodes X (x_output2 X ! i)))" "fst (maxInputMatch B ! nat p) = -1"
  shows "verifyResult X L B = Inl Bad_Index \<and>
     (\<exists>ps ns cs k ws. rfold (verify_pair (maxInputMatch B)) (n_pi_idx (x_nodes X (x_output2 X ! i))) ([], [], []) = Inr (ps, ns, cs) \<and>
        k < length ps \<and> fst (ps ! k) \<in> set (n_pi_idx (x_nodes X (x_output2 X ! i))) \<and> snd (ps ! k) = -1 \<and>
        lookup_wires (x_input1 X) (x_input2 X) (take k ps) ns = Inr ws)"
proof -
  let ?il = "maxInputMatch B" and ?idxs = "n_pi_idx (x_nodes X (x_output2 X ! i))"
  let ?keep = "filter (\<lambda>q. fst (?il ! nat q) \<noteq> CONST_VAL) ?idxs"
  let ?ps = "map (\<lambda>q. (q, fst (?il ! nat q))) ?keep" and ?ns = "map (\<lambda>q. snd (?il ! nat q)) ?keep"
  let ?cs = "map (\<lambda>q. (snd (?il ! nat q), q)) (filter (\<lambda>q. fst (?il ! nat q) = CONST_VAL) ?idxs)"
  have idx: "in_range (x_input2 X) q" "in_range ?il q" if "q \<in> set ?idxs" for q
    using that ranges(1,3,4) i(1) by (auto simp: in_range_def)
  have run: "rfold (verify_pair ?il) ?idxs ([], [], []) = Inr (?ps, ?ns, ?cs)" using verify_pairs [of ?idxs ?il "[]" "[]" "[]"] idx by simp
  obtain k where k: "k < length ?ps" "snd (?ps ! k) = -1" "fst (?ps ! k) \<in> set ?idxs" and first: "\<forall>(c2, c1) \<in> set (take k ?ps). c1 \<noteq> -1"
    using first_unlocked [OF p] by blast
  have "in_range (x_input2 X) c2 \<and> in_range (x_input1 X) c1" if c: "(c2, c1) \<in> set (take k ?ps)" for c2 c1
  proof -
    have "(c2, c1) \<in> set ?ps" by (rule in_set_takeD [OF c])
    then have q: "c2 \<in> set ?idxs" "c1 = fst (?il ! nat c2)" "c1 \<noteq> CONST_VAL" by auto
    have "c1 \<noteq> -1" using first c by blast
    moreover have "?il ! nat c2 \<in> set ?il" using idx(2) [OF q(1)] by (intro nth_mem) (auto simp: in_range_def nat_less_iff)
    ultimately have "in_range (x_input1 X) c1" using ranges(5) q(2,3) by blast
    then show ?thesis using idx(1) [OF q(1)] by blast
  qed
  moreover have "length (take k ?ps) \<le> length ?ns" by simp
  ultimately obtain ws where ws: "lookup_wires (x_input1 X) (x_input2 X) (take k ?ps) ?ns = Inr ws" using lookup_wires_runs by blast
  have stop: "lookup_wires (x_input1 X) (x_input2 X) ?ps ?ns = Inl Bad_Index"
    by (rule lookup_wires_stops [OF k(1,2) idx(1) [OF k(3)] ws])
  have "\<forall>(c, q) \<in> set ?cs. in_range (x_input2 X) q" using idx(1) by auto
  from assign_consts_runs [OF this] obtain pv where pv: "assign_consts (x_input2 X) ?cs (\<lambda>_. 0) = Inr pv" by blast
  have "verify_miter X ?il (int i) c = Inl Bad_Index" for c
    using i(1) ranges(4) run by (simp add: verify_miter_def miterOneOutputRandom_def pv stop)
  then have now: "verify_output X B i u = Inl Bad_Index"
    using i(2) by (cases u; cases "maxOutputMatch B ! i") (simp add: verify_output_def)
  have split: "[0..<length (maxOutputMatch B)] = [0..<i] @ i # [Suc i..<length (maxOutputMatch B)]" using i(1)
    by (metis le_add_diff_inverse less_imp_le_nat plus_nat.add_0 upt_add_eq_append upt_conv_Cons zero_le)
  have "rfold (verify_output X B) [0..<length (maxOutputMatch B)] (0, True) = Inl Bad_Index"
    unfolding split rfold_append before using now by simp
  moreover obtain cnt w where "verify_counts X = Inr cnt" "wrong_counts cnt (inputLockCount L) (length (x_input2 X)) = Inr w"
    using verify_counts_run [OF ranges(1)] wrong_counts_run [of "length (x_input2 X)"] ranges(2) by (metis order_refl)
  ultimately have "verifyResult X L B = Inl Bad_Index" by (simp add: verifyResult_def)
  then show ?thesis using run k ws by blast
qed

text \<open>The output of circuit 2 of the example is matched; its input 1 is not.\<close>

definition ex_cone :: ctx where
  "ex_cone = ex_ctx\<lparr>x_nodes := ex_heap(7 := (ex_heap 7)\<lparr>n_pi_idx := [0, 1]\<rparr>)\<rparr>"

definition ex_partial :: best where
  "ex_partial = (init_best (\<lambda>_. 0))\<lparr>maxOutputMatch := [(0, True)], maxInputMatch := [(0, True), (-1, False)]\<rparr>"

theorem verifyResult_unlocked_witness: "verifyResult ex_cone (init_locks ex_cone 3 3) ex_partial = Inl Bad_Index"
  by (rule verifyResult_unlocked [of _ _ _ 0 "(0, True)" 1, THEN conjunct1])
    (simp_all add: ex_cone_def ex_partial_def ex_ctx_def in_range_def init_locks_def)

end
