(* ===== verification/Func_Support.thy ===== *)
theory Func_Support
  imports Miter_Text Match_Sound
begin

text \<open>
  \<open>findFunctionalSupport\<close> of \<open>Netlist.h\<close>: for every output and every input in its cone a small miter compares the output
  for both values of the input. The netlist of one output is the parameter \<open>split\<close> (the text of the file that is
  opened for it), the verdict of ABC and CaDiCaL on a miter is the parameter \<open>solve\<close>.
\<close>

section \<open>The miter of one input\<close>

definition support_inputs :: "nat \<Rightarrow> string" where
  "support_inputs n = concat (map (\<lambda>j. numbered ''in'' j @ (if j \<noteq> n - 2 then '','' else '''')) [0..<n - 1])"

text \<open>The connection of the \<open>k\<close>-th input of the cone; the state is the text and the number of the next wire.\<close>

definition support_port :: "nat \<Rightarrow> string \<Rightarrow> nat \<times> string \<Rightarrow> string \<times> nat \<Rightarrow> string \<times> nat" where
  "support_port j const = (\<lambda>(k, name) (s, idx).
     if k = j then (s @ ''.'' @ name @ ''('' @ const @ ''),'', idx)
     else (s @ ''.'' @ name @ ''('' @ numbered ''in'' idx @ ''),'', Suc idx))"

definition support_call :: "string \<Rightarrow> string list \<Rightarrow> nat \<Rightarrow> string \<Rightarrow> string \<Rightarrow> string" where
  "support_call out names j const wire =
     ''    top_'' @ out @ ''('' @ fst (fold (support_port j const) (zip [0..<length names] names) ('''', 0)) @
     ''.'' @ out @ ''('' @ wire @ ''));'' @ endl"

text \<open>The lines of the netlist, each with its end.\<close>

function copy_lines :: "string \<Rightarrow> stream \<Rightarrow> string" where
  "copy_lines l s =
     (case getline newline l s of (ok, l, s) \<Rightarrow> if ok then l @ endl @ copy_lines l s else '''')"
  by pat_completeness auto
termination
  by (relation "measure (\<lambda>(l, s). length (rest s))") (auto dest: getline_ok_shorter [OF sym])

declare copy_lines.simps [simp del]

definition support_text :: "string \<Rightarrow> string list \<Rightarrow> nat \<Rightarrow> string \<Rightarrow> string" where
  "support_text out names j content =
     (let input = support_inputs (length names) in
     ''module miter('' @ input @ '',out'' @ '');'' @ endl @ ''    input '' @ input @ '';'' @ endl @
     ''    output '' @ ''out;'' @ endl @ ''    wire '' @ ''n0, n1;'' @ endl @
     support_call out names j (''1'' @ [CHR 0x27] @ ''b0'') ''n0'' @ support_call out names j (''1'' @ [CHR 0x27] @ ''b1'') ''n1'' @
     ''    xor(out, n0, n1);'' @ endl @ ''endmodule'' @ endl @ endl @ copy_lines '''' (stream_of content))"

section \<open>The supports\<close>

type_synonym index_table = "int list list"

definition test_input :: "(string \<Rightarrow> int) \<Rightarrow> (nat \<Rightarrow> string) \<Rightarrow> int list \<Rightarrow> nat \<Rightarrow> nat \<Rightarrow> index_table \<times> index_table \<Rightarrow> (index_table \<times> index_table) res" where
  "test_input solve text pis i j = (\<lambda>(out_supp, in_supp).
     if solve (text j) = 10 then
       let p = pis ! j in
       rbind (vget out_supp (int i)) (\<lambda>os. rbind (vset out_supp (int i) (os @ [p])) (\<lambda>out_supp.
       rbind (vget in_supp p) (\<lambda>is. rbind (vset in_supp p (is @ [int i])) (\<lambda>in_supp.
       Inr (out_supp, in_supp)))))
     else Inr (out_supp, in_supp))"

definition cone_names :: "(addr \<Rightarrow> node) \<Rightarrow> addr list \<Rightarrow> int list \<Rightarrow> string list res" where
  "cone_names h inputs = (\<lambda>pis. rfold (\<lambda>p ns. rbind (vget inputs p) (\<lambda>a. Inr (ns @ [n_name (h a)]))) pis [])"

definition test_output :: "(string \<Rightarrow> int) \<Rightarrow> (string \<Rightarrow> string) \<Rightarrow> (addr \<Rightarrow> node) \<Rightarrow> module \<Rightarrow> nat \<Rightarrow> index_table \<times> index_table \<Rightarrow> (index_table \<times> index_table) res" where
  "test_output solve split h m i s =
     (let out = h (m_gate m OUTPUT ! i); pis = n_pi_idx out in
     rbind (cone_names h (m_gate m INPUT) pis) (\<lambda>names.
     rfold (test_input solve (\<lambda>j. support_text (n_name out) names j (split (n_name out))) pis i) [0..<length pis] s))"

definition findFunctionalSupport ::
  "(string \<Rightarrow> int) \<Rightarrow> (string \<Rightarrow> string) \<Rightarrow> (addr \<Rightarrow> node) \<Rightarrow> module \<Rightarrow> (index_table \<times> index_table) res" where
  "findFunctionalSupport solve split h m =
     rfold (test_output solve split h m) [0..<length (m_gate m OUTPUT)]
       (replicate (length (m_gate m OUTPUT)) [], replicate (length (m_gate m INPUT)) [])"

section \<open>What the tables are\<close>

text \<open>Whether input \<open>p\<close> of the cone of output \<open>i\<close> is reported as needed.\<close>

definition needed :: "(string \<Rightarrow> int) \<Rightarrow> (string \<Rightarrow> string) \<Rightarrow> (addr \<Rightarrow> node) \<Rightarrow> module \<Rightarrow> nat \<Rightarrow> nat \<Rightarrow> bool" where
  "needed solve split h m i j \<longleftrightarrow>
     (let out = h (m_gate m OUTPUT ! i) in
      solve (support_text (n_name out) (map (\<lambda>p. n_name (h (m_gate m INPUT ! nat p))) (n_pi_idx out)) j (split (n_name out))) = 10)"

definition needed_pis :: "(string \<Rightarrow> int) \<Rightarrow> (string \<Rightarrow> string) \<Rightarrow> (addr \<Rightarrow> node) \<Rightarrow> module \<Rightarrow> nat \<Rightarrow> nat \<Rightarrow> int list" where
  "needed_pis solve split h m i n =
     map (\<lambda>j. n_pi_idx (h (m_gate m OUTPUT ! i)) ! j) (filter (needed solve split h m i) [0..<n])"

definition cones_ok :: "(addr \<Rightarrow> node) \<Rightarrow> module \<Rightarrow> bool" where
  "cones_ok h m \<longleftrightarrow> (\<forall>a \<in> set (m_gate m OUTPUT). distinct (n_pi_idx (h a)) \<and> list_all (in_range (m_gate m INPUT)) (n_pi_idx (h a)))"

lemma cone_names_ok:
  assumes "list_all (in_range inputs) pis"
  shows "cone_names h inputs pis = Inr (map (\<lambda>p. n_name (h (inputs ! nat p))) pis)"
proof -
  have "rfold (\<lambda>p ns. rbind (vget inputs p) (\<lambda>a. Inr (ns @ [n_name (h a)]))) pis acc =
      Inr (acc @ map (\<lambda>p. n_name (h (inputs ! nat p))) pis)" for acc
    using assms by (induction pis arbitrary: acc) auto
  then show ?thesis by (simp add: cone_names_def)
qed

lemma test_input_ok:
  assumes "i < length os" "in_range is (pis ! j)"
  shows "test_input solve text pis i j (os, is) =
     Inr (if solve (text j) = 10 then (os[i := os ! i @ [pis ! j]], is[nat (pis ! j) := is ! nat (pis ! j) @ [int i]]) else (os, is))"
  using assms by (simp add: test_input_def Let_def)

text \<open>One output: its row gets the inputs needed, and each of them gets the output.\<close>

lemma test_inputs_ok:
  assumes len: "i < length os" and range: "list_all (in_range is) pis" and d: "distinct pis" and n: "n \<le> length pis"
    and empty: "os ! i = []"
  shows "rfold (test_input solve text pis i) [0..<n] (os, is) =
     Inr (os[i := map (\<lambda>j. pis ! j) (filter (\<lambda>j. solve (text j) = 10) [0..<n])],
          map (\<lambda>p. if int p \<in> set (map (\<lambda>j. pis ! j) (filter (\<lambda>j. solve (text j) = 10) [0..<n])) then is ! p @ [int i] else is ! p)
            [0..<length is])"
  using n
proof (induction n)
  case 0
  have "os[i := []] = os" using list_update_id [of os i] by (simp add: empty)
  then show ?case by (simp add: map_nth)
next
  case (Suc n)
  let ?row = "\<lambda>n. map (\<lambda>j. pis ! j) (filter (\<lambda>j. solve (text j) = 10) [0..<n])"
  let ?os = "os[i := ?row n]" and ?is = "map (\<lambda>p. if int p \<in> set (?row n) then is ! p @ [int i] else is ! p) [0..<length is]"
  have r: "in_range is (pis ! n)" using range Suc.prems by (simp add: list_all_length)
  then have r': "in_range ?is (pis ! n)" "0 \<le> pis ! n" "nat (pis ! n) < length is" by (auto simp: in_range_def)
  have new: "pis ! n \<notin> set (?row n)" using d Suc.prems by (auto simp: nth_eq_iff_index_eq)
  have step: "test_input solve text pis i n (?os, ?is) =
      Inr (if solve (text n) = 10 then (?os[i := ?os ! i @ [pis ! n]], ?is[nat (pis ! n) := ?is ! nat (pis ! n) @ [int i]]) else (?os, ?is))"
    by (rule test_input_ok) (use len r' in simp_all)
  have IH: "rfold (test_input solve text pis i) [0..<n] (os, is) = Inr (?os, ?is)" using Suc by simp
  show ?case
  proof (cases "solve (text n) = 10")
    case True
    have "?is[nat (pis ! n) := ?is ! nat (pis ! n) @ [int i]] =
        map (\<lambda>p. if int p \<in> set (?row (Suc n)) then is ! p @ [int i] else is ! p) [0..<length is]"
      by (rule nth_equalityI) (use r' new True in \<open>auto simp: nth_list_update\<close>)
    then show ?thesis using IH step True len by (simp add: rfold_append)
  next
    case False
    then show ?thesis using IH step by (simp add: rfold_append)
  qed
qed

lemma findFunctionalSupport_ok:
  assumes "cones_ok h m"
  shows "findFunctionalSupport solve split h m =
     Inr (map (\<lambda>i. needed_pis solve split h m i (length (n_pi_idx (h (m_gate m OUTPUT ! i))))) [0..<length (m_gate m OUTPUT)],
          map (\<lambda>p. map int (filter (\<lambda>i. int p \<in> set (needed_pis solve split h m i (length (n_pi_idx (h (m_gate m OUTPUT ! i))))))
            [0..<length (m_gate m OUTPUT)])) [0..<length (m_gate m INPUT)])"
proof -
  let ?outs = "m_gate m OUTPUT" and ?k = "length (m_gate m OUTPUT)" and ?n1 = "length (m_gate m INPUT)"
  let ?row = "\<lambda>i. needed_pis solve split h m i (length (n_pi_idx (h (?outs ! i))))"
  have "n \<le> ?k \<Longrightarrow> rfold (test_output solve split h m) [0..<n] (replicate ?k [], replicate ?n1 []) =
      Inr (map (\<lambda>i. if i < n then ?row i else []) [0..<?k], map (\<lambda>p. map int (filter (\<lambda>i. int p \<in> set (?row i)) [0..<n])) [0..<?n1])" for n
  proof (induction n)
    case 0
    then show ?case by (simp add: map_replicate_const)
  next
    case (Suc n)
    let ?out = "h (?outs ! n)"
    let ?os = "map (\<lambda>i. if i < n then ?row i else []) [0..<?k]"
    let ?is = "map (\<lambda>p. map int (filter (\<lambda>i. int p \<in> set (?row i)) [0..<n])) [0..<?n1]"
    have cone: "distinct (n_pi_idx ?out)" "list_all (in_range (m_gate m INPUT)) (n_pi_idx ?out)"
      using assms Suc.prems by (simp_all add: cones_ok_def)
    have range: "list_all (in_range ?is) (n_pi_idx ?out)" using cone(2) by (simp add: list_all_iff in_range_def)
    have len: "n < length ?os" "?os ! n = []" using Suc.prems by simp_all
    have needed: "needed solve split h m n = (\<lambda>j. solve (support_text (n_name ?out) (map (\<lambda>p. n_name (h (m_gate m INPUT ! nat p))) (n_pi_idx ?out)) j
        (split (n_name ?out))) = 10)"
      by (simp add: fun_eq_iff needed_def Let_def)
    have "test_output solve split h m n (?os, ?is) = Inr (?os[n := ?row n],
        map (\<lambda>p. if int p \<in> set (?row n) then ?is ! p @ [int n] else ?is ! p) [0..<length ?is])"
      unfolding test_output_def Let_def cone_names_ok [OF cone(2)] rbind_Inr
        test_inputs_ok [OF len(1) range cone(1) order_refl len(2)]
      by (simp add: needed_pis_def needed)
    moreover have "?os[n := ?row n] = map (\<lambda>i. if i < Suc n then ?row i else []) [0..<?k]"
      by (rule nth_equalityI) (auto simp: nth_list_update less_Suc_eq)
    ultimately show ?case using Suc by (simp add: rfold_append)
  qed
  from this [of ?k] show ?thesis by (simp add: findFunctionalSupport_def cong: map_cong)
qed

section \<open>Dependence\<close>

text \<open>Some assignment on which the output changes with the input.\<close>

definition toggles :: "(addr \<Rightarrow> node) \<Rightarrow> addr \<Rightarrow> addr \<Rightarrow> bool" where
  "toggles h out x \<longleftrightarrow> (\<exists>\<sigma> b. evals h (\<sigma>(x := False)) out b \<and> evals h (\<sigma>(x := True)) out (\<not> b))"

lemma depends_drop:
  assumes d: "depends_on h out (insert x P)" and t: "\<not> toggles h out x" and total: "\<And>\<sigma>. \<exists>b. evals h \<sigma> out b"
  shows "depends_on h out P"
  unfolding depends_on_def
proof (intro allI impI)
  fix \<sigma> \<tau> b assume eq: "\<forall>a \<in> P. \<sigma> a = \<tau> a" and e: "evals h \<sigma> out b"
  obtain c where c: "evals h (\<sigma>(x := \<tau> x)) out c" using total by blast
  have "c = b"
  proof (cases "\<sigma> x = \<tau> x")
    case True
    then have "\<sigma>(x := \<tau> x) = \<sigma>" by (simp add: fun_upd_idem)
    then show ?thesis using c e evals_det by metis
  next
    case False
    have same: "\<sigma>(x := \<sigma> x) = \<sigma>" by simp
    have "\<not> (\<exists>v. evals h (\<sigma>(x := False)) out v \<and> evals h (\<sigma>(x := True)) out (\<not> v))" using t by (auto simp: toggles_def)
    then show ?thesis using False c e same by (cases "\<sigma> x"; cases "\<tau> x"; cases b; cases c) auto
  qed
  moreover have "\<forall>a \<in> insert x P. (\<sigma>(x := \<tau> x)) a = \<tau> a" using eq by simp
  ultimately show "evals h \<tau> out b" using d c unfolding depends_on_def by blast
qed

lemma depends_needed:
  assumes "finite D" "depends_on h out (P \<union> D)" "\<forall>x \<in> D. \<not> toggles h out x" "\<And>\<sigma>. \<exists>b. evals h \<sigma> out b"
  shows "depends_on h out P"
  using assms(1-3)
proof (induction D)
  case (insert x D)
  then have "depends_on h out (P \<union> D)" using depends_drop [of h out x "P \<union> D"] assms(4) by simp
  then show ?case using insert by simp
qed simp

text \<open>What the tables rest on; \<open>Support_Miter\<close> derives both from what the small miters mean.\<close>

definition solver_right :: "(string \<Rightarrow> int) \<Rightarrow> (string \<Rightarrow> string) \<Rightarrow> (addr \<Rightarrow> node) \<Rightarrow> module \<Rightarrow> bool" where
  "solver_right solve split h m \<longleftrightarrow>
     (\<forall>i < length (m_gate m OUTPUT). let pis = n_pi_idx (h (m_gate m OUTPUT ! i)) in
        \<forall>j < length pis. needed solve split h m i j \<longleftrightarrow> toggles h (m_gate m OUTPUT ! i) (m_gate m INPUT ! nat (pis ! j)))"

definition cones_cover :: "(addr \<Rightarrow> node) \<Rightarrow> module \<Rightarrow> bool" where
  "cones_cover h m \<longleftrightarrow> (\<forall>out \<in> set (m_gate m OUTPUT).
     depends_on h out ((\<lambda>p. m_gate m INPUT ! nat p) ` set (n_pi_idx (h out))) \<and> (\<forall>\<sigma>. \<exists>b. evals h \<sigma> out b))"

lemma needed_pis_toggle:
  assumes "solver_right solve split h m" "i < length (m_gate m OUTPUT)"
  shows "needed_pis solve split h m i (length (n_pi_idx (h (m_gate m OUTPUT ! i)))) =
     filter (\<lambda>p. toggles h (m_gate m OUTPUT ! i) (m_gate m INPUT ! nat p)) (n_pi_idx (h (m_gate m OUTPUT ! i)))"
proof -
  let ?pis = "n_pi_idx (h (m_gate m OUTPUT ! i))" and ?t = "\<lambda>p. toggles h (m_gate m OUTPUT ! i) (m_gate m INPUT ! nat p)"
  have "filter (needed solve split h m i) [0..<length ?pis] = filter (\<lambda>j. ?t (?pis ! j)) [0..<length ?pis]"
    using assms by (intro filter_cong) (simp_all add: solver_right_def Let_def)
  moreover have "filter ?t ?pis = map (\<lambda>j. ?pis ! j) (filter (\<lambda>j. ?t (?pis ! j)) [0..<length ?pis])"
    by (metis (no_types, lifting) comp_def filter_cong filter_map map_nth)
  ultimately show ?thesis by (simp add: needed_pis_def)
qed

lemma needed_depends:
  assumes "cones_cover h m" "out \<in> set (m_gate m OUTPUT)"
  shows "depends_on h out ((\<lambda>p. m_gate m INPUT ! nat p) ` set (filter (\<lambda>p. toggles h out (m_gate m INPUT ! nat p)) (n_pi_idx (h out))))"
proof -
  let ?f = "\<lambda>p. m_gate m INPUT ! nat p" and ?pis = "n_pi_idx (h out)"
  let ?P = "?f ` set (filter (\<lambda>p. toggles h out (?f p)) ?pis)" and ?D = "?f ` set (filter (\<lambda>p. \<not> toggles h out (?f p)) ?pis)"
  have "?f ` set ?pis = ?P \<union> ?D" by auto
  then have "depends_on h out (?P \<union> ?D)" using assms by (auto simp: cones_cover_def)
  then show ?thesis by (rule depends_needed [rotated]) (use assms in \<open>auto simp: cones_cover_def\<close>)
qed

end
