(* ===== verification/Support_Miter.thy ===== *)
theory Support_Miter
  imports Func_Support
begin

text \<open>
  What the small miters of \<open>findFunctionalSupport\<close> mean. A small miter is a netlist of wires with two calls of the module
  of an output and an XOR gate; it is rendered as Verilog, and its models are the values of the wires that
  satisfy the calls and the gate. The text of \<open>support_text\<close> is the rendering of the miter of the output and the input,
  and that miter has a model with a true output exactly when the output changes with the input. A solver that is right about
  the models is then right about the supports.
\<close>

section \<open>Small miters\<close>

datatype swire = S_in nat | S_n nat | S_out | S_const bool

fun show_swire :: "swire \<Rightarrow> string" where
  "show_swire (S_in k) = numbered ''in'' k"
| "show_swire (S_n k) = numbered ''n'' k"
| "show_swire S_out = ''out''"
| "show_swire (S_const b) = ''1'' @ [CHR 0x27] @ (if b then ''b1'' else ''b0'')"

type_synonym sconns = "(string \<times> swire) list"

text \<open>A call has the module, the connections of the inputs, the output port and its wire.\<close>

datatype sitem = S_call string sconns string swire | S_xor swire swire swire

record smiter =
  sm_inputs :: "swire list"
  sm_outputs :: "swire list"
  sm_wires :: "swire list"
  sm_items :: "sitem list"

definition sep_by :: "string \<Rightarrow> string list \<Rightarrow> string" where
  "sep_by sep xs = (if xs = [] then '''' else concat (map (\<lambda>x. x @ sep) (butlast xs)) @ last xs)"

fun show_conn :: "string \<times> swire \<Rightarrow> string" where
  "show_conn (p, w) = ''.'' @ p @ ''('' @ show_swire w @ '')''"

fun show_item :: "sitem \<Rightarrow> string" where
  "show_item (S_call m ins z w) = ''    '' @ m @ ''('' @ sep_by '','' (map show_conn (ins @ [(z, w)])) @ '');'' @ endl"
| "show_item (S_xor z a b) = ''    xor('' @ show_swire z @ '', '' @ show_swire a @ '', '' @ show_swire b @ '');'' @ endl"

definition show_decl :: "string \<Rightarrow> string \<Rightarrow> swire list \<Rightarrow> string" where
  "show_decl kind sep ws = (if ws = [] then '''' else ''    '' @ kind @ '' '' @ sep_by sep (map show_swire ws) @ '';'' @ endl)"

text \<open>The file: the miter, an empty line, and the lines of the file of the module that is called.\<close>

definition show_smiter :: "smiter \<Rightarrow> string \<Rightarrow> string" where
  "show_smiter M content =
     ''module miter('' @ sep_by '','' (map show_swire (sm_inputs M @ sm_outputs M)) @ '');'' @ endl @
     show_decl ''input'' '','' (sm_inputs M) @ show_decl ''output'' '','' (sm_outputs M) @ show_decl ''wire'' '', '' (sm_wires M) @
     concat (map show_item (sm_items M)) @ ''endmodule'' @ endl @ endl @ copy_lines '''' (stream_of content)"

text \<open>
  \<open>F\<close> gives the value of an output port of a module, by their names, from the values of its input ports. A model gives every
  wire a value.
\<close>

type_synonym module_funs = "string \<Rightarrow> (string \<Rightarrow> bool) \<Rightarrow> string \<Rightarrow> bool"

definition port_val :: "(swire \<Rightarrow> bool) \<Rightarrow> sconns \<Rightarrow> string \<Rightarrow> bool" where
  "port_val \<rho> cs s = (case map_of cs s of None \<Rightarrow> False | Some w \<Rightarrow> \<rho> w)"

fun item_holds :: "module_funs \<Rightarrow> (swire \<Rightarrow> bool) \<Rightarrow> sitem \<Rightarrow> bool" where
  "item_holds F \<rho> (S_call m ins z w) \<longleftrightarrow> \<rho> w = F m (port_val \<rho> ins) z"
| "item_holds F \<rho> (S_xor z a b) \<longleftrightarrow> \<rho> z = (\<rho> a \<noteq> \<rho> b)"

definition smiter_model :: "module_funs \<Rightarrow> smiter \<Rightarrow> (swire \<Rightarrow> bool) \<Rightarrow> bool" where
  "smiter_model F M \<rho> \<longleftrightarrow> (\<forall>b. \<rho> (S_const b) = b) \<and> (\<forall>it \<in> set (sm_items M). item_holds F \<rho> it)"

definition satisfiable :: "module_funs \<Rightarrow> smiter \<Rightarrow> bool" where
  "satisfiable F M \<longleftrightarrow> (\<exists>\<rho>. smiter_model F M \<rho> \<and> (\<forall>w \<in> set (sm_outputs M). \<rho> w))"

section \<open>The miter of an output and an input\<close>

text \<open>Input \<open>j\<close> of the cone is the constant, the others are the inputs of the miter in their order.\<close>

definition cone_wire :: "nat \<Rightarrow> bool \<Rightarrow> nat \<Rightarrow> swire" where
  "cone_wire j b k = (if k = j then S_const b else S_in (if k < j then k else k - 1))"

definition support_conns :: "string list \<Rightarrow> nat \<Rightarrow> bool \<Rightarrow> sconns" where
  "support_conns names j b = zip names (map (cone_wire j b) [0..<length names])"

definition support_miter :: "string \<Rightarrow> string list \<Rightarrow> nat \<Rightarrow> smiter" where
  "support_miter out names j =
     \<lparr>sm_inputs = map S_in [0..<length names - 1], sm_outputs = [S_out], sm_wires = [S_n 0, S_n 1],
      sm_items = [S_call (''top_'' @ out) (support_conns names j False) out (S_n 0),
                  S_call (''top_'' @ out) (support_conns names j True) out (S_n 1), S_xor S_out (S_n 0) (S_n 1)]\<rparr>"

text \<open>The text is the rendering, for two and more inputs.\<close>

lemma sep_by_snoc: "sep_by sep (xs @ [x]) = concat (map (\<lambda>x. x @ sep) xs) @ x"
  by (simp add: sep_by_def)

lemma support_inputs_sep: "support_inputs (Suc (Suc n)) = sep_by '','' (map show_swire (map S_in [0..<Suc n]))"
proof -
  have "concat (map (\<lambda>j. numbered ''in'' j @ (if j \<noteq> n then '','' else '''')) [0..<n]) = concat (map (\<lambda>j. numbered ''in'' j @ '','') [0..<n])"
    by (intro arg_cong [where f = concat] map_cong) simp_all
  then show ?thesis by (simp add: support_inputs_def sep_by_snoc o_def)
qed

lemma support_conns_snoc: "support_conns (names @ [x]) j b = support_conns names j b @ [(x, cone_wire j b (length names))]"
  by (simp add: support_conns_def)

lemma support_port_fold:
  "fold (support_port j (show_swire (S_const b))) (zip [0..<length names] names) ('''', 0) =
     (concat (map (\<lambda>c. show_conn c @ '','') (support_conns names j b)), if length names \<le> j then length names else length names - 1)"
proof (induction names rule: rev_induct)
  case Nil
  then show ?case by (simp add: support_conns_def)
next
  case (snoc x names)
  have "zip [0..<length (names @ [x])] (names @ [x]) = zip [0..<length names] names @ [(length names, x)]" by simp
  then have "fold (support_port j (show_swire (S_const b))) (zip [0..<length (names @ [x])] (names @ [x])) ('''', 0) =
      support_port j (show_swire (S_const b)) (length names, x)
        (concat (map (\<lambda>c. show_conn c @ '','') (support_conns names j b)), if length names \<le> j then length names else length names - 1)"
    by (simp only: fold_append fold_simps o_apply snoc.IH)
  also have "\<dots> = (concat (map (\<lambda>c. show_conn c @ '','') (support_conns (names @ [x]) j b)),
      if length (names @ [x]) \<le> j then length (names @ [x]) else length (names @ [x]) - 1)"
    by (simp add: support_port_def support_conns_snoc cone_wire_def del: show_swire.simps(4)) auto
  finally show ?case .
qed

lemma support_call_item:
  "support_call out names j (show_swire (S_const b)) (show_swire w) = show_item (S_call (''top_'' @ out) (support_conns names j b) out w)"
  by (simp add: support_call_def support_port_fold sep_by_snoc o_def del: show_swire.simps)

lemma support_text_shows:
  assumes "2 \<le> length names"
  shows "support_text out names j content = show_smiter (support_miter out names j) content"
proof -
  obtain n where n: "length names = Suc (Suc n)" using assms by (metis One_nat_def Suc_le_D numeral_2_eq_2 Suc_le_mono)
  have bits: "''1'' @ [CHR 0x27] @ ''b0'' = show_swire (S_const False)" "''1'' @ [CHR 0x27] @ ''b1'' = show_swire (S_const True)"
    by simp_all
  have wires: "''n0'' = show_swire (S_n 0)" "''n1'' = show_swire (S_n 1)" by code_simp+
  have ne: "map S_in [0..<Suc n] \<noteq> []" by simp
  have ins: "sep_by '','' (map show_swire (map S_in [0..<Suc n] @ [S_out])) = support_inputs (Suc (Suc n)) @ '',out''"
    unfolding support_inputs_sep by (simp add: sep_by_def butlast_append o_def)
  have decl: "show_decl ''wire'' '', '' [S_n 0, S_n 1] = ''    wire '' @ ''n0, n1;'' @ endl"
    "show_decl ''output'' '','' [S_out] = ''    output '' @ ''out;'' @ endl" by code_simp+
  have xg: "show_item (S_xor S_out (S_n 0) (S_n 1)) = ''    xor(out, n0, n1);'' @ endl" by code_simp
  have inp: "show_decl ''input'' '','' (map S_in [0..<Suc n]) = ''    input '' @ support_inputs (Suc (Suc n)) @ '';'' @ endl"
    unfolding show_decl_def support_inputs_sep using ne by simp
  have calls: "support_call out names j (''1'' @ [CHR 0x27] @ ''b0'') ''n0'' = show_item (S_call (''top_'' @ out) (support_conns names j False) out (S_n 0))"
    "support_call out names j (''1'' @ [CHR 0x27] @ ''b1'') ''n1'' = show_item (S_call (''top_'' @ out) (support_conns names j True) out (S_n 1))"
    unfolding bits wires by (rule support_call_item)+
  show ?thesis
    unfolding support_text_def show_smiter_def support_miter_def Let_def n smiter.select_convs diff_Suc_1 ins inp decl calls
    by (simp only: xg list.map concat.simps append_assoc append_Nil append_Nil2)
qed

section \<open>The models\<close>

text \<open>
  The small miters are not about addresses but about names. The function of the module of an output gives, for inputs that have the
  values of the inputs of the cone, the value of the output.
\<close>

definition cone_name :: "(addr \<Rightarrow> node) \<Rightarrow> module \<Rightarrow> int \<Rightarrow> string" where
  "cone_name h m p = n_name (h (m_gate m INPUT ! nat p))"

definition names_at :: "(addr \<Rightarrow> node) \<Rightarrow> module \<Rightarrow> addr \<Rightarrow> string list" where
  "names_at h m out = map (cone_name h m) (n_pi_idx (h out))"

definition named_cones :: "(addr \<Rightarrow> node) \<Rightarrow> module \<Rightarrow> bool" where
  "named_cones h m \<longleftrightarrow> (\<forall>out \<in> set (m_gate m OUTPUT). distinct (names_at h m out) \<and> length (n_pi_idx (h out)) \<noteq> 1)"

definition modules_right :: "module_funs \<Rightarrow> (addr \<Rightarrow> node) \<Rightarrow> module \<Rightarrow> bool" where
  "modules_right F h m \<longleftrightarrow> (\<forall>out \<in> set (m_gate m OUTPUT). \<forall>\<sigma> c.
     (\<forall>p \<in> set (n_pi_idx (h out)). c (cone_name h m p) = \<sigma> (m_gate m INPUT ! nat p)) \<longrightarrow>
     evals h \<sigma> out (F (''top_'' @ n_name (h out)) c (n_name (h out))))"

text \<open>The solver is right about the small miters: it answers 10 for the rendering of one that can be satisfied.\<close>

definition solver_decides :: "module_funs \<Rightarrow> (string \<Rightarrow> int) \<Rightarrow> (string \<Rightarrow> string) \<Rightarrow> (addr \<Rightarrow> node) \<Rightarrow> module \<Rightarrow> bool" where
  "solver_decides F solve split h m \<longleftrightarrow> (\<forall>out \<in> set (m_gate m OUTPUT). \<forall>j < length (n_pi_idx (h out)).
     let M = support_miter (n_name (h out)) (names_at h m out) j
     in solve (show_smiter M (split (n_name (h out)))) = 10 \<longleftrightarrow> satisfiable F M)"

text \<open>What input \<open>k\<close> of the cone gets in the two calls.\<close>

lemma port_val_conns:
  assumes "distinct names" "k < length names"
  shows "port_val \<rho> (support_conns names j b) (names ! k) = \<rho> (cone_wire j b k)"
proof -
  have "map_of (zip names (map (cone_wire j b) [0..<length names])) (names ! k) = Some (map (cone_wire j b) [0..<length names] ! k)"
    by (rule map_of_zip_nth) (use assms in simp_all)
  then show ?thesis using assms(2) by (simp add: port_val_def support_conns_def)
qed

lemma satisfiable_support:
  "satisfiable F (support_miter out names j) \<longleftrightarrow>
     (\<exists>\<rho>. (\<forall>b. \<rho> (S_const b) = b) \<and> F (''top_'' @ out) (port_val \<rho> (support_conns names j False)) out \<noteq>
        F (''top_'' @ out) (port_val \<rho> (support_conns names j True)) out)" (is "_ \<longleftrightarrow> (\<exists>\<rho>. ?C \<rho> \<and> ?f \<rho> False \<noteq> ?f \<rho> True)")
proof
  assume "satisfiable F (support_miter out names j)"
  then show "\<exists>\<rho>. ?C \<rho> \<and> ?f \<rho> False \<noteq> ?f \<rho> True" by (auto simp: satisfiable_def smiter_model_def support_miter_def)
next
  assume "\<exists>\<rho>. ?C \<rho> \<and> ?f \<rho> False \<noteq> ?f \<rho> True"
  then obtain \<rho> where \<rho>: "?C \<rho>" "?f \<rho> False \<noteq> ?f \<rho> True" by blast
  define \<tau> where "\<tau> = \<rho>(S_n 0 := ?f \<rho> False, S_n 1 := ?f \<rho> True, S_out := True)"
  have vals: "\<tau> (S_const b) = b" "\<tau> (S_in k) = \<rho> (S_in k)" "\<tau> (S_n 0) = ?f \<rho> False" "\<tau> (S_n 1) = ?f \<rho> True" "\<tau> S_out" for b k
    using \<rho>(1) by (simp_all add: \<tau>_def)
  have same: "port_val \<tau> (support_conns names j b) = port_val \<rho> (support_conns names j b)" for b
  proof
    fix s
    have "\<tau> w = \<rho> w" if w: "map_of (support_conns names j b) s = Some w" for w
    proof -
      have "w \<in> set (map (cone_wire j b) [0..<length names])"
        using map_of_SomeD [OF w] unfolding support_conns_def by (rule set_zip_rightD)
      then obtain k where "w = cone_wire j b k" by (metis ex_map_conv)
      moreover have "\<rho> (S_const b) = b" using \<rho>(1) by blast
      ultimately show ?thesis by (simp add: cone_wire_def vals(1,2))
    qed
    then show "port_val \<tau> (support_conns names j b) s = port_val \<rho> (support_conns names j b) s"
      by (simp add: port_val_def split: option.split)
  qed
  have "smiter_model F (support_miter out names j) \<tau>"
    using \<rho>(2) by (simp only: smiter_model_def support_miter_def smiter.select_convs list.set ball_simps item_holds.simps same vals) simp
  then show "satisfiable F (support_miter out names j)"
    unfolding satisfiable_def by (intro exI [of _ \<tau>]) (simp add: support_miter_def vals)
qed

text \<open>The miter can be satisfied exactly when the output changes with the input.\<close>

lemma satisfiable_toggles:
  assumes right: "modules_right F h m" and named: "named_cones h m" and out: "out \<in> set (m_gate m OUTPUT)" and j: "j < length (n_pi_idx (h out))"
  shows "satisfiable F (support_miter (n_name (h out)) (names_at h m out) j) \<longleftrightarrow> toggles h out (m_gate m INPUT ! nat (n_pi_idx (h out) ! j))"
proof -
  let ?pis = "n_pi_idx (h out)" and ?in = "\<lambda>k. m_gate m INPUT ! nat (n_pi_idx (h out) ! k)" and ?names = "names_at h m out"
  let ?f = "\<lambda>c. F (''top_'' @ n_name (h out)) c (n_name (h out))"
  have d: "distinct ?names" and len: "length ?names = length ?pis" using named out by (simp_all add: named_cones_def names_at_def)
  have name: "?names ! k = n_name (h (?in k))" if "k < length ?pis" for k using that by (simp add: names_at_def cone_name_def)
  have differ: "?in k \<noteq> ?in j" if "k < length ?pis" "k \<noteq> j" for k
    using nth_eq_iff_index_eq [OF d, of k j] that j name [of k] name [of j] by (auto simp: len)
  have val: "evals h \<sigma> out (?f (port_val \<rho> (support_conns ?names j b)))" if wires: "\<And>k. k < length ?pis \<Longrightarrow> \<rho> (cone_wire j b k) = \<sigma> (?in k)" for \<sigma> \<rho> b
  proof -
    have "port_val \<rho> (support_conns ?names j b) (cone_name h m p) = \<sigma> (m_gate m INPUT ! nat p)" if p: "p \<in> set ?pis" for p
    proof -
      obtain k where k: "k < length ?pis" "p = ?pis ! k" using p by (auto simp: in_set_conv_nth)
      have "cone_name h m p = ?names ! k" using k by (simp add: names_at_def)
      then show ?thesis using port_val_conns [OF d, of k \<rho> j b] wires [OF k(1)] k by (simp add: len)
    qed
    then show ?thesis using right out unfolding modules_right_def by blast
  qed
  show ?thesis
  proof
    assume "satisfiable F (support_miter (n_name (h out)) ?names j)"
    then obtain \<rho> where \<rho>: "\<forall>b. \<rho> (S_const b) = b"
      and ne: "?f (port_val \<rho> (support_conns ?names j False)) \<noteq> ?f (port_val \<rho> (support_conns ?names j True))"
      unfolding satisfiable_support by blast
    let ?\<sigma> = "\<lambda>a. port_val \<rho> (support_conns ?names j False) (n_name (h a))"
    have "evals h (?\<sigma>(?in j := b)) out (?f (port_val \<rho> (support_conns ?names j b)))" for b
    proof (rule val)
      fix k assume k: "k < length ?pis"
      show "\<rho> (cone_wire j b k) = (?\<sigma>(?in j := b)) (?in k)"
      proof (cases "k = j")
        case False
        then show ?thesis using differ [OF k] port_val_conns [OF d, of k \<rho> j False] k name [OF k] by (simp add: cone_wire_def len)
      qed (simp add: \<rho> cone_wire_def)
    qed
    note run = this
    have "?f (port_val \<rho> (support_conns ?names j True)) = (\<not> ?f (port_val \<rho> (support_conns ?names j False)))" using ne by blast
    then have "evals h (?\<sigma>(?in j := True)) out (\<not> ?f (port_val \<rho> (support_conns ?names j False)))" using run [of True] by (simp only:)
    then show "toggles h out (?in j)" unfolding toggles_def using run [of False] by blast
  next
    assume "toggles h out (?in j)"
    then obtain \<sigma> v where e: "evals h (\<sigma>(?in j := False)) out v" "evals h (\<sigma>(?in j := True)) out (\<not> v)" by (auto simp: toggles_def)
    define \<rho> where "\<rho> w = (case w of S_in k \<Rightarrow> \<sigma> (?in (if k < j then k else Suc k)) | S_const b \<Rightarrow> b | _ \<Rightarrow> False)" for w
    have "evals h (\<sigma>(?in j := b)) out (?f (port_val \<rho> (support_conns ?names j b)))" for b
    proof (rule val)
      fix k assume k: "k < length ?pis"
      show "\<rho> (cone_wire j b k) = (\<sigma>(?in j := b)) (?in k)"
      proof (cases "k = j")
        case False
        then have "k \<noteq> j \<longrightarrow> \<not> k < j \<longrightarrow> \<not> k - 1 < j \<and> Suc (k - 1) = k" by arith
        then show ?thesis using differ [OF k False] False by (simp add: \<rho>_def cone_wire_def)
      qed (simp add: \<rho>_def cone_wire_def)
    qed
    note run = this
    have "?f (port_val \<rho> (support_conns ?names j False)) = v" "?f (port_val \<rho> (support_conns ?names j True)) = (\<not> v)"
      by (rule evals_det [OF run e(1)], rule evals_det [OF run e(2)])
    moreover have "\<forall>b. \<rho> (S_const b) = b" by (simp add: \<rho>_def)
    ultimately show "satisfiable F (support_miter (n_name (h out)) ?names j)" unfolding satisfiable_support by (intro exI [of _ \<rho>]) simp
  qed
qed

section \<open>What the hypotheses of the supports come to\<close>

lemma solver_decides_right:
  assumes "modules_right F h m" "named_cones h m" "solver_decides F solve split h m"
  shows "solver_right solve split h m"
  unfolding solver_right_def Let_def
proof (intro allI impI)
  fix i j assume i: "i < length (m_gate m OUTPUT)" and j: "j < length (n_pi_idx (h (m_gate m OUTPUT ! i)))"
  let ?out = "m_gate m OUTPUT ! i"
  have out: "?out \<in> set (m_gate m OUTPUT)" by (rule nth_mem [OF i])
  have "2 \<le> length (names_at h m ?out)" using assms(2) out j by (auto simp: named_cones_def names_at_def)
  then have "needed solve split h m i j \<longleftrightarrow> satisfiable F (support_miter (n_name (h ?out)) (names_at h m ?out) j)"
    using assms(3) out j by (simp add: needed_def solver_decides_def Let_def support_text_shows names_at_def cone_name_def [abs_def])
  then show "needed solve split h m i j \<longleftrightarrow> toggles h ?out (m_gate m INPUT ! nat (n_pi_idx (h ?out) ! j))"
    using satisfiable_toggles [OF assms(1,2) out j] by simp
qed

lemma modules_right_cover:
  assumes right: "modules_right F h m" and named: "named_cones h m"
  shows "cones_cover h m"
  unfolding cones_cover_def
proof (intro ballI conjI allI)
  fix out assume out: "out \<in> set (m_gate m OUTPUT)"
  let ?in = "\<lambda>p. m_gate m INPUT ! nat p" and ?f = "\<lambda>c. F (''top_'' @ n_name (h out)) c (n_name (h out))"
  have inj: "inj_on (cone_name h m) (set (n_pi_idx (h out)))" using named out by (simp add: named_cones_def names_at_def distinct_map)
  define env where "env \<sigma> s = \<sigma> (?in (the_inv_into (set (n_pi_idx (h out))) (cone_name h m) s))" for \<sigma> :: "addr \<Rightarrow> bool" and s
  have env: "evals h \<sigma> out (?f (env \<tau>))" if "\<forall>p \<in> set (n_pi_idx (h out)). \<sigma> (?in p) = \<tau> (?in p)" for \<sigma> \<tau>
    using right out that the_inv_into_f_f [OF inj] unfolding modules_right_def by (simp add: env_def)
  show "\<exists>b. evals h \<sigma> out b" for \<sigma> using env [of \<sigma> \<sigma>] by blast
  show "depends_on h out (?in ` set (n_pi_idx (h out)))"
    unfolding depends_on_def
  proof (intro allI impI)
    fix \<sigma> \<tau> b assume "\<forall>a \<in> ?in ` set (n_pi_idx (h out)). \<sigma> a = \<tau> a" and b: "evals h \<sigma> out b"
    then have "evals h \<sigma> out (?f (env \<tau>))" by (intro env) simp
    then show "evals h \<tau> out b" using env [of \<tau> \<tau>] b evals_det by metis
  qed
qed

end
