(* ===== verification/Support_Props.thy ===== *)
theory Support_Props
  imports Support_Miter Support_Files Example_Net
begin

text \<open>The properties of the functional supports.\<close>

text \<open>C37: \<open>findFunctionalSupport\<close> finds the supports. Suppose the cones of the outputs hold distinct inputs in range, with
  distinct names, and none has exactly one input (there the text is no Verilog); the module in the file of an output
  computes the output from the inputs of its cone; and the solver answers 10 for the rendering of a small miter exactly when that
  miter, two calls of the module with a constant 0 and a constant 1 on one input and an XOR of the results, has a model.
  Then it returns: for every output exactly the inputs of its cone it changes with, in their order, for every input the outputs in
  whose row it is, in ascending order. No output depends on an input outside its row, which is what the search assumes of the
  supports, and the tables can be stored and read back.\<close>

theorem findFunctionalSupport_exact:
  assumes "cones_ok h m" and named: "named_cones h m" and mods: "modules_right F h m" and solver: "solver_decides F solve split h m"
  shows "\<exists>os is. findFunctionalSupport solve split h m = Inr (os, is) \<and>
     length os = length (m_gate m OUTPUT) \<and> length is = length (m_gate m INPUT) \<and>
     (\<forall>i < length os. os ! i = filter (\<lambda>p. toggles h (m_gate m OUTPUT ! i) (m_gate m INPUT ! nat p)) (n_pi_idx (h (m_gate m OUTPUT ! i))) \<and>
        depends_on h (m_gate m OUTPUT ! i) ((\<lambda>p. m_gate m INPUT ! nat p) ` set (os ! i))) \<and>
     (\<forall>p < length is. is ! p = map int (filter (\<lambda>i. int p \<in> set (os ! i)) [0..<length os])) \<and>
     (\<forall>row \<in> set os. list_all (in_range (m_gate m INPUT)) row) \<and> (\<forall>row \<in> set is. list_all (in_range (m_gate m OUTPUT)) row)"
proof -
  note right = solver_decides_right [OF mods named solver] and cover = modules_right_cover [OF mods named]
  let ?outs = "m_gate m OUTPUT" and ?ins = "m_gate m INPUT"
  let ?row = "\<lambda>i. filter (\<lambda>p. toggles h (?outs ! i) (?ins ! nat p)) (n_pi_idx (h (?outs ! i)))"
  let ?os = "map ?row [0..<length ?outs]"
  let ?is = "map (\<lambda>p. map int (filter (\<lambda>i. int p \<in> set (?row i)) [0..<length ?outs])) [0..<length ?ins]"
  let ?need = "\<lambda>i. needed_pis solve split h m i (length (n_pi_idx (h (?outs ! i))))"
  have rows: "?need i = ?row i" if "i < length ?outs" for i by (rule needed_pis_toggle [OF right that])
  have "filter (\<lambda>i. int p \<in> set (?need i)) [0..<length ?outs] = filter (\<lambda>i. int p \<in> set (?row i)) [0..<length ?outs]" for p :: nat
    by (rule filter_cong) (simp_all add: rows del: set_filter)
  moreover have "map ?need [0..<length ?outs] = ?os" by (rule map_cong) (simp_all add: rows)
  ultimately have "findFunctionalSupport solve split h m = Inr (?os, ?is)"
    by (simp only: findFunctionalSupport_ok [OF assms(1)])
  moreover have "\<forall>row \<in> set ?os. list_all (in_range ?ins) row"
    using assms(1) by (auto simp: cones_ok_def list_all_iff)
  moreover have "\<forall>row \<in> set ?is. list_all (in_range ?outs) row"
    by (auto simp: list_all_iff in_range_def)
  moreover have "depends_on h (?outs ! i) ((\<lambda>p. ?ins ! nat p) ` set (?row i))" if "i < length ?outs" for i
    using needed_depends [OF cover] that by simp
  moreover have "?is ! p = map int (filter (\<lambda>i. int p \<in> set (?os ! i)) [0..<length ?os])" if "p < length ?is" for p
  proof -
    have "filter (\<lambda>i. int p \<in> set (?os ! i)) [0..<length ?os] = filter (\<lambda>i. int p \<in> set (?row i)) [0..<length ?outs]"
      by (rule filter_cong) (simp_all del: set_filter)
    then show ?thesis using that by simp
  qed
  ultimately show ?thesis by - (rule exI [of _ ?os], rule exI [of _ ?is], simp)
qed

text \<open>The output \<open>y = a \<and> (a \<or> b)\<close>, with both inputs in its cone and one in its support, and a solver that answers 10 for
  the small miter of the first input only.\<close>

definition cone_heap :: "addr \<Rightarrow> node" where
  "cone_heap = ex_heap(6 := ex_node 6 ''k'' OR [0, 1] 0 (-1), 2 := ex_node 2 ''g'' AND [0, 6] 0 (-1), 3 := (ex_heap 3)\<lparr>n_pi_idx := [0, 1]\<rparr>)"

lemma cone_heap_apply [simp]:
  "cone_heap 0 = ex_heap 0" "cone_heap (Suc 0) = ex_heap 1" "cone_heap 6 = ex_node 6 ''k'' OR [0, 1] 0 (-1)"
  "cone_heap 2 = ex_node 2 ''g'' AND [0, 6] 0 (-1)" "cone_heap 3 = (ex_heap 3)\<lparr>n_pi_idx := [0, 1]\<rparr>"
  by (simp_all add: cone_heap_def)

lemma cone_evals: "evals cone_heap \<sigma> 3 b \<longleftrightarrow> b = \<sigma> 0"
proof -
  have i: "evals cone_heap \<sigma> a (\<sigma> a)" if "a \<in> {0, 1}" for a
    using that by (auto intro: ev_input)
  have "evals cone_heap \<sigma> 6 (\<sigma> 0 \<or> \<sigma> 1)"
    by (rule ev_gate [where bs = "[\<sigma> 0, \<sigma> 1]"]) (use i in auto)
  then have "evals cone_heap \<sigma> 2 (\<sigma> 0)"
    by (intro ev_gate [where bs = "[\<sigma> 0, \<sigma> 0 \<or> \<sigma> 1]"]) (use i in auto)
  then have "evals cone_heap \<sigma> 3 (\<sigma> 0)"
    by (intro ev_gate [where bs = "[\<sigma> 0]"]) auto
  then show ?thesis using evals_det by blast
qed

lemma cone_toggles: "toggles cone_heap 3 x \<longleftrightarrow> x = 0"
  by (cases "x = 0") (auto simp: toggles_def cone_evals)

definition cone_file :: string where
  "cone_file = ''module top_y(a, b, y);'' @ endl @ ''or(n, a, b);'' @ endl @ ''and(y, a, n);'' @ endl @ ''endmodule''"

definition cone_solver :: "string \<Rightarrow> int" where
  "cone_solver t = (if t = show_smiter (support_miter ''y'' [''a'', ''b''] 0) cone_file then 10 else 20)"

definition cone_funs :: module_funs where
  "cone_funs m c z = (c ''a'' \<and> (c ''a'' \<or> c ''b''))"

lemma ex_ports: "m_gate ex_module INPUT = [0, 1]" "m_gate ex_module OUTPUT = [3]"
  by (simp_all add: ex_module_def)

lemma cone_names: "names_at cone_heap ex_module 3 = [''a'', ''b'']" "n_name (cone_heap 3) = ''y''"
  by (simp_all add: names_at_def cone_name_def ex_ports)

lemma cone_ok: "cones_ok cone_heap ex_module" "named_cones cone_heap ex_module" "modules_right cone_funs cone_heap ex_module"
  by (auto simp: cones_ok_def named_cones_def modules_right_def cone_names ex_ports in_range_def cone_evals cone_name_def cone_funs_def)

lemma cone_texts:
  "show_smiter (support_miter ''y'' [''a'', ''b''] (Suc 0)) cone_file \<noteq> show_smiter (support_miter ''y'' [''a'', ''b''] 0) cone_file"
  by code_simp

lemma cone_solver_decides: "solver_decides cone_funs cone_solver (\<lambda>_. cone_file) cone_heap ex_module"
proof -
  have outs: "set (m_gate ex_module OUTPUT) = {3}" by (simp add: ex_ports)
  have "satisfiable cone_funs (support_miter ''y'' [''a'', ''b''] j) \<longleftrightarrow> j = 0" if j: "j < 2" for j
    using satisfiable_toggles [OF cone_ok(3,2), of 3 j] j by (auto simp: outs cone_names cone_toggles ex_ports less_2_cases_iff)
  moreover have "cone_solver (show_smiter (support_miter ''y'' [''a'', ''b''] j) cone_file) = 10 \<longleftrightarrow> j = 0" if j: "j < 2" for j
    using j cone_texts by (auto simp: cone_solver_def less_2_cases_iff)
  ultimately show ?thesis unfolding solver_decides_def outs Let_def by (simp add: cone_names numeral_2_eq_2)
qed

theorem findFunctionalSupport_exact_witness:
  "\<exists>os is. findFunctionalSupport cone_solver (\<lambda>_. cone_file) cone_heap ex_module = Inr (os, is) \<and> length os = 1 \<and> length is = 2 \<and>
     os ! 0 = [0]"
  using findFunctionalSupport_exact [OF cone_ok cone_solver_decides] by (fastforce simp: cone_toggles ex_ports)

text \<open>The header of the small miter of an output with one input, without any input, and an empty declaration of inputs.\<close>

lemma support_text_one_input:
  "take 47 (support_text ''y'' [''a''] 0 '''') = ''module miter(,out);'' @ endl @ ''    input ;'' @ endl @ ''    output out;''"
  by code_simp

end
