(* ===== verification/Example_Run.thy ===== *)
theory Example_Run
  imports Start_Props
begin

text \<open>
  The search on the two example circuits succeeds: the context the phases before it make, and the choices that lock both
  inputs negated and output 7 with output 3.
\<close>

definition ex_ready :: ctx where
  "ex_ready = (case prepare_match ex_data ex_store of Inr X \<Rightarrow> X | Inl _ \<Rightarrow> ex_ctx)"

lemma ex_ready: "prepare_match ex_data ex_store = Inr ex_ready"
  using prepare_match_runs [OF ex_data_ok] by (auto simp: ex_ready_def)

lemma ex_ready_ctx: "\<exists>h1 icand h. ex_ready = ready_ctx ex_data h1 h icand \<and> same_supp 8 ex_heap h"
proof -
  obtain h1 icand st2 where p: "prepare_match ex_data ex_store = Inr (ready_ctx ex_data h1 (heap st2) icand)"
    and R: "ready_state ex_data ex_store h1 st2 icand"
    using prepare_match_runs [OF ex_data_ok] ex_data_ok by (auto simp: ready_state_def)
  have "same_supp 8 ex_heap (heap st2)" using ready_heap(1) [OF R] by simp
  moreover have "ex_ready = ready_ctx ex_data h1 (heap st2) icand" using p ex_ready by simp
  ultimately show ?thesis by blast
qed

lemma ex_ready_nodes: "same_supp 8 ex_heap (x_nodes ex_ready)"
proof -
  obtain h1 icand h where e: "ex_ready = ready_ctx ex_data h1 h icand" "same_supp 8 ex_heap h" using ex_ready_ctx by blast
  show ?thesis unfolding e(1) using e(2) by simp
qed

lemma ex_ready_idx [simp]:
  "a < 8 \<Longrightarrow> idx ex_ready a = n_idx (ex_heap a)" "a < 8 \<Longrightarrow> bus_idx ex_ready a = n_bus_idx (ex_heap a)"
  "a < 8 \<Longrightarrow> n_bus_indices (x_nodes ex_ready a) = n_bus_indices (ex_heap a)"
  using same_supp_fields [OF ex_ready_nodes] by (simp_all add: idx_def bus_idx_def)

lemma ex_ready_fields [simp]:
  "x_caseID ex_ready = ''00''" "x_initOn ex_ready = True" "x_input1 ex_ready = [0, 1]" "x_input2 ex_ready = [4, 5]"
  "x_output1 ex_ready = [3]" "x_output2 ex_ready = [7]" "x_fuel ex_ready = 8" "x_ord ex_ready = id"
  "x_init_input ex_ready = [None, None]" "x_init_input_ne ex_ready = [-1, -1]"
proof -
  obtain h1 icand h where e: "ex_ready = ready_ctx ex_data h1 h icand" using ex_ready_ctx by blast
  show "x_caseID ex_ready = ''00''" "x_initOn ex_ready = True" "x_input1 ex_ready = [0, 1]" "x_input2 ex_ready = [4, 5]"
    "x_output1 ex_ready = [3]" "x_output2 ex_ready = [7]" "x_fuel ex_ready = 8" "x_ord ex_ready = id"
    "x_init_input ex_ready = [None, None]" "x_init_input_ne ex_ready = [-1, -1]"
    unfolding e by simp_all
qed

lemma ex_prepared:
  "(case prepare_match ex_data ex_store of
      Inr X \<Rightarrow> Some ((x_output_match_cand X, x_input_match_cand X, x_output_match_order X),
                     (x_output_support1 X, x_output_support2 X, x_isPIinPO X, x_output_to_inputBus X))
    | Inl _ \<Rightarrow> None) =
   Some (([[3]], [[0, 1, 8], [0, 1, 9]], [7]), ([[0, 1]], [[4, 5]], [[True, True]], [[0, 1]]))"
  by code_simp

lemma ex_ready_tables [simp]:
  "x_output_match_cand ex_ready = [[3]]" "x_input_match_cand ex_ready = [[0, 1, 8], [0, 1, 9]]" "x_output_match_order ex_ready = [7]"
  "x_output_support1 ex_ready = [[0, 1]]" "x_output_support2 ex_ready = [[4, 5]]"
  "x_isPIinPO ex_ready = [[True, True]]" "x_output_to_inputBus ex_ready = [[0, 1]]"
  using ex_prepared by (simp_all add: ex_ready)

section \<open>The choices\<close>

abbreviation (input) ex_start :: locks where
  "ex_start \<equiv> \<lparr>inputLock = [(-1, False), (-1, False)], inputLockCount = [0, 0], outputLock = [(-1, False)],
     c1_OutputLockCount = [0], bus_2_to_1 = [-1, -1, -1], bus_1_to_2 = [-1, -1, -1], bus_2_to_1_count = [0, 0, 0],
     c1_inputMatchCount = [0, 0]\<rparr>"

lemma ex_start: "init_locks ex_ready 3 3 = ex_start"
  by (simp add: init_locks_def numeral_eq_Suc)

text \<open>The state after the inputs 4 and 5 are locked, negated, with the inputs 0 and 1.\<close>

abbreviation (input) ex_one :: locks where
  "ex_one \<equiv> ex_start\<lparr>inputLock := [(0, True), (-1, False)], inputLockCount := [1, 0], bus_2_to_1 := [0, -1, -1],
     bus_1_to_2 := [0, -1, -1], bus_2_to_1_count := [1, 0, 0], c1_inputMatchCount := [1, 0]\<rparr>"

abbreviation (input) ex_both :: locks where
  "ex_both \<equiv> ex_start\<lparr>inputLock := [(0, True), (1, True)], inputLockCount := [1, 1], bus_2_to_1 := [0, 1, -1],
     bus_1_to_2 := [0, 1, -1], bus_2_to_1_count := [1, 1, 0], c1_inputMatchCount := [1, 1]\<rparr>"

lemmas ex_defs = occupy_def occupy_buses_def bus_free_def map_bus_def count_bus_def vadd_def vget_def vset_def in_range_def
  negs_of_def lock_input_def Let_def CONST_VAL_def

lemma ex_path1: "in_path ex_ready 3 [5] (0, [1, 0], ex_one) (0, [1, 1], ex_both)"
proof (rule in_step)
  show "1 \<in> set (x_input_match_cand ex_ready ! nat (idx ex_ready 5))" by simp
  show "occupy ex_ready 3 5 1 (0, [1, 0], ex_one) =
      Inr (Some (0, [1, 1], ex_both\<lparr>inputLock := [(0, True), (-1, False)], inputLockCount := [1, 0]\<rparr>))"
    by (simp add: ex_defs)
  show "negs_of ex_ready 5 = Inr [False, True]" by (simp add: ex_defs)
  show "lock_input (idx ex_ready 5) (idx ex_ready 1, True) (ex_both\<lparr>inputLock := [(0, True), (-1, False)], inputLockCount := [1, 0]\<rparr>) = Inr ex_both"
    by (simp add: ex_defs)
qed simp_all

lemma ex_path: "in_path ex_ready 3 [4, 5] (0, [0, 0], ex_start) (0, [1, 1], ex_both)"
proof (rule in_step [OF _ _ _ _ _ ex_path1])
  show "0 \<in> set (x_input_match_cand ex_ready ! nat (idx ex_ready 4))" by simp
  show "occupy ex_ready 3 4 0 (0, [0, 0], ex_start) =
      Inr (Some (0, [1, 0], ex_one\<lparr>inputLock := [(-1, False), (-1, False)], inputLockCount := [0, 0]\<rparr>))"
    by (simp add: ex_defs)
  show "negs_of ex_ready 4 = Inr [False, True]" by (simp add: ex_defs)
  show "lock_input (idx ex_ready 4) (idx ex_ready 0, True) (ex_one\<lparr>inputLock := [(-1, False), (-1, False)], inputLockCount := [0, 0]\<rparr>) = Inr ex_one"
    by (simp add: ex_defs)
qed simp

lemma ex_tryable: "tryable ex_ready ex_start 7 3 ([4, 5], [], 0, [0, 0])"
  by (simp add: tryable_def fits_def ex_defs)

lemma ex_next: "next_of ex_ready pr ex_start = Some 7"
  by (simp add: next_of_def pick_def INT_MIN_def rank_of_def unmapped_def)

section \<open>The miter\<close>

lemma ex_ready_sim: "sim_ready (x_nodes ex_ready) ex_nodes (\<lambda>a. a) 8"
  by (rule sim_ready_same_supp [OF ex_sim_ready _ ex_ready_nodes]) (simp add: ex_nodes_def)

lemma ex_ready_agree: "outputs_agree (x_nodes ex_ready) [(4, 0, True), (5, Suc 0, True)] [] 3 7 True"
proof -
  have "evals (x_nodes ex_ready) \<sigma> a b \<longleftrightarrow> evals ex_heap \<sigma> a b" if "a \<in> ex_nodes" for \<sigma> a b
    by (rule evals_heap_iff [OF ex_sim_ready _ ex_ready_nodes that]) (simp add: ex_nodes_def)
  moreover have "3 \<in> ex_nodes" "7 \<in> ex_nodes" by (simp_all add: ex_nodes_def)
  ultimately show ?thesis using ex_agree [of True] by (simp add: outputs_agree_def)
qed

lemma ex_search_run: "run_miter ex_ready [(0, True), (1, True)] 0 0 = Inr 2"
proof -
  have "miterOneOutputRandom id (x_rnd ex_ready) (x_nodes ex_ready) 8 [0, 1] [4, 5] [3] [7] [(0, 0), (1, 1)] [True, True] (0, 0) [] =
      Inr (if True then 2 else 1)"
  proof (rule miter_agree [OF ex_miter_args ex_ready_sim])
    show "pair_agree (x_nodes ex_ready) [0, 1] [4, 5] [3] [7] [(0, 0), (1, 1)] [True, True] (0, 0) [] True"
      using ex_ready_agree ex_wires by (simp add: pair_agree_def consts_of_def)
  qed (simp_all add: ex_nodes_def iteration_order_def)
  then show ?thesis by (simp add: run_miter_def miter_pairs_of_def vget_def in_range_def CONST_VAL_def)
qed

lemma ex_solvable: "solvable ex_ready pr 1 ex_start"
proof -
  have "lock_output ex_ready 7 3 [] True ex_both \<noteq> Inl e" for e
    by (simp add: lock_output_def count_record_def ex_defs)
  then have "accepted ex_ready (\<lambda>_. True) 3 7 [] ex_both"
    using ex_search_run by (auto simp: accepted_def) (metis sum.exhaust)
  then have "out_step ex_ready pr ex_start (\<lambda>_. True)"
    unfolding out_step_def using ex_next ex_tryable ex_path by fastforce
  moreover have "solvable ex_ready pr 0 = (\<lambda>_. True)" by (simp add: fun_eq_iff)
  ultimately show ?thesis by (simp add: One_nat_def)
qed

text \<open>The search succeeds.\<close>

lemma ex_search: "\<exists>X L B. new_boolean_match ex_data ex_store = Inr (X, True, L, B)"
proof -
  let ?pr = "\<lambda>a. n_priority (x_nodes ex_ready a)"
  obtain h1 icand st2 where p: "prepare_match ex_data ex_store = Inr (ready_ctx ex_data h1 (heap st2) icand)"
    and R: "ready_state ex_data ex_store h1 st2 icand"
    using prepare_match_runs [OF ex_data_ok] ex_data_ok by (auto simp: ready_state_def)
  have "search_ok ex_ready 3 3" using ready_search_ok [OF R] p ex_ready by (simp add: numeral_3_eq_3)
  then obtain L B where "start_search ex_ready 3 3 ?pr = Inr (solvable ex_ready ?pr 1 ex_start, L, B)"
    using start_search_ok [of ex_ready 3 3 ?pr] by (auto simp: ex_start)
  then show ?thesis using ex_solvable ex_ready by (simp add: new_boolean_match_def numeral_3_eq_3)
qed

end
