(* ===== verification/Verdict_Props.thy ===== *)
theory Verdict_Props
  imports Main_Props Example_Run
begin

text \<open>
  The answer of the search and the miter that checks it at the end: both decide equality of matched outputs, the search
  on the parsed netlists, the miter on the files, so the recorded answer passes.
\<close>

section \<open>Netlists and files\<close>

text \<open>\<open>F\<close> is the function of the parsed netlist: what the parser reads and ABC has mapped is the circuit of the file.\<close>

definition computes :: "(addr \<Rightarrow> node) \<Rightarrow> addr list \<Rightarrow> addr list \<Rightarrow> circuit_fun \<Rightarrow> bool" where
  "computes h input output F \<longleftrightarrow> (\<forall>\<sigma>. \<forall>a \<in> set output. \<forall>b. evals h \<sigma> a b \<longrightarrow>
     b = F (port_env (names_of h input) (map \<sigma> input)) (n_name (h a)))"

section \<open>The inputs of circuit 2\<close>

lemma tables_fields:
  assumes "tables_of True n1 n2 il = (ip, ine, cs)"
  shows "ip = map (\<lambda>c. members il (int c)) [0..<n1]" "ine = map (\<lambda>j. fst (il ! j) \<ge> 0 \<and> snd (il ! j)) [0..<n2]"
    "cs = map (\<lambda>j. (snd (il ! nat j), j)) (members il CONST_VAL)"
  using assms by (auto simp: tables_of_def)

lemma map_of_members:
  assumes "cs = map (\<lambda>j. (snd (il ! nat j), j)) (members il c)"
  shows "map_of (map (\<lambda>(b, p). (p, b)) cs) (int q) = (if q < length il \<and> fst (il ! q) = c then Some (snd (il ! q)) else None)"
proof -
  have "map_of (map (\<lambda>j. (j, snd (il ! nat j))) js) k = (if k \<in> set js then Some (snd (il ! nat k)) else None)" for js k
    by (induction js) auto
  moreover have "map (\<lambda>(b, p). (p, b)) cs = map (\<lambda>j. (j, snd (il ! nat j))) (members il c)"
    by (simp add: assms)
  ultimately show ?thesis by (auto simp: members_set)
qed

lemma map_of_pairs:
  assumes "distinct (map snd (flat_pairs ip))" "(i, int q) \<in> set (flat_pairs ip)"
  shows "map_of (map (\<lambda>(i, p). (p, i)) (flat_pairs ip)) (int q) = Some i"
  using assms by (intro map_of_is_SomeI) (auto simp: o_def split_def intro!: image_eqI [of _ _ "(i, int q)"])

lemma induced_tables:
  assumes ok: "locks_ok True n1 n2 il" and t: "tables_of True n1 n2 il = (ip, ine, cs)"
    and all: "\<forall>l \<in> set il. fst l \<noteq> -1" and q: "q < n2" and l: "il ! q = (c, ng)"
  shows "induced ip ine cs x q = (if c = CONST_VAL then ng else x (nat c) \<noteq> ng)"
proof (cases "c = CONST_VAL")
  case True
  then show ?thesis using map_of_members [OF tables_fields(3) [OF t], of q] ok q l by (simp add: induced_def locks_ok_def)
next
  case False
  have "il ! q \<in> set il" using ok q by (auto simp: locks_ok_def)
  then have c: "0 \<le> c" "c < int n1" using False ok all l by (auto simp: locks_ok_def)
  have "distinct (map snd (flat_pairs ip))"
    using tables_all_matched [OF ok t] all by (simp add: all_matched_def)
  moreover have "(nat c, int q) \<in> set (flat_pairs ip)"
    using c ok q l tables_fields(1) [OF t] by (auto simp: in_flat_pairs members_set locks_ok_def)
  ultimately have "map_of (map (\<lambda>(i, p). (p, i)) (flat_pairs ip)) (int q) = Some (nat c)" by (rule map_of_pairs)
  moreover have "map_of (map (\<lambda>(b, p). (p, b)) cs) (int q) = None"
    using map_of_members [OF tables_fields(3) [OF t], of q] l False by simp
  moreover have "ine ! q = ng" using tables_fields(2) [OF t] q l c by simp
  ultimately show ?thesis using False by (simp add: induced_def)
qed

section \<open>The answer passes the miter\<close>

lemma answer_passes:
  assumes S: "data_ok S st" and F: "computes (heap st) (s_input1 S) (s_output1 S) F1" "computes (heap st) (s_input2 S) (s_output2 S) F2"
    and il: "locks_ok True (length (s_input1 S)) (length (s_input2 S)) il" "\<forall>l \<in> set il. fst l \<noteq> -1"
    and ol: "locks_ok False (length (s_output1 S)) (length (s_output2 S)) ol"
    and t: "tables_of True (length (s_input1 S)) (length (s_input2 S)) il = (ip, ine, cs)"
    "tables_of False (length (s_output1 S)) (length (s_output2 S)) ol = (op, one, cs')"
    and same: "\<forall>j < length (s_output2 S). fst (ol ! j) \<noteq> -1 \<longrightarrow> same_function S (heap st) il j (ol ! j)"
  shows "\<not> outputs_differ (heap st) (s_input1 S) (s_input2 S) (s_output1 S) (s_output2 S) F1 F2 ip ine op one cs x"
proof -
  let ?h = "heap st" and ?I1 = "s_input1 S" and ?I2 = "s_input2 S" and ?O1 = "s_output1 S" and ?O2 = "s_output2 S"
  obtain A r where A: "sim_ready ?h A r (s_fuel S)" "set ?O1 \<subseteq> A" "set ?O2 \<subseteq> A"
    using S by (auto simp: data_ok_def circuits_ok_def)
  have wf: "net_wf ?h A r" using A by (simp add: sim_ready_def)
  have ports: "ports_ok ?h INPUT ?I1 (s_bus1 S)" "ports_ok ?h INPUT ?I2 (s_bus2 S)" "set ?I1 \<inter> set ?I2 = {}"
    using S by (auto simp: data_ok_def modules_ok_def)
  define \<sigma> where "\<sigma> = drive S ?h il (\<lambda>a. x (nat (n_idx (?h a))))"
  have 1: "map \<sigma> ?I1 = map x [0..<length ?I1]"
  proof (rule nth_equalityI)
    fix k assume "k < length (map \<sigma> ?I1)"
    then have "?I1 ! k \<notin> set ?I2" "n_idx (?h (?I1 ! k)) = int k" "k < length ?I1"
      using ports by (auto simp: ports_ok_def disjoint_iff)
    then show "map \<sigma> ?I1 ! k = map x [0..<length ?I1] ! k" by (simp add: \<sigma>_def drive_def)
  qed simp
  have 2: "map \<sigma> ?I2 = map (induced ip ine cs x) [0..<length ?I2]"
  proof (rule nth_equalityI)
    fix k assume "k < length (map \<sigma> ?I2)"
    then have k: "k < length ?I2" "n_idx (?h (?I2 ! k)) = int k" using ports by (auto simp: ports_ok_def)
    obtain c ng where l: "il ! k = (c, ng)" by fastforce
    have "il ! k \<in> set il" using il(1) k by (simp add: locks_ok_def)
    then have c: "c \<noteq> -1" "c = CONST_VAL \<or> 0 \<le> c \<and> c < int (length ?I1)" using il l by (auto simp: locks_ok_def)
    then have "c \<noteq> CONST_VAL \<Longrightarrow> n_idx (?h (?I1 ! nat c)) = c" using ports(1) by (auto simp: ports_ok_def)
    then show "map \<sigma> ?I2 ! k = map (induced ip ine cs x) [0..<length ?I2] ! k"
      using k l c induced_tables [OF il(1) t(1) il(2) k(1) l, of x] by (simp add: \<sigma>_def drive_def)
  qed simp
  have "F2 (port_env (names_of ?h ?I2) (map \<sigma> ?I2)) (names_of ?h ?O2 ! nat p) =
      (F1 (port_env (names_of ?h ?I1) (map \<sigma> ?I1)) (names_of ?h ?O1 ! i) \<noteq> one ! nat p)" if ip: "(i, p) \<in> set (flat_pairs op)" for i p
  proof -
    obtain j where j: "p = int j" "j < length ?O2" "fst (ol ! j) = int i" "i < length ?O1"
      using ip ol t(2) by (auto simp: in_flat_pairs tables_of_def members_set locks_ok_def)
    obtain b1 b2 where b: "evals ?h \<sigma> (?O1 ! i) b1" "evals ?h \<sigma> (?O2 ! j) b2"
      using evals_total [OF wf] A(2,3) j by (meson nth_mem subsetD)
    have "b2 = (b1 \<noteq> snd (ol ! j))" using same b j by (auto simp: same_function_def \<sigma>_def)
    moreover have "one ! j = snd (ol ! j)" using t(2) j by (auto simp: tables_of_def)
    moreover have "names_of ?h ?O1 ! i = n_name (?h (?O1 ! i))" "names_of ?h ?O2 ! j = n_name (?h (?O2 ! j))"
      using j by (simp_all add: names_of_def)
    ultimately show ?thesis using F b j by (auto simp: computes_def)
  qed
  then show ?thesis unfolding outputs_differ_def 1 [symmetric] 2 [symmetric] by fastforce
qed

lemma names_old:
  assumes "same_supp N h h'" "\<forall>a \<in> set xs. a < N"
  shows "names_of h' xs = names_of h xs"
  using same_supp_fields(8) [OF assms(1)] assms(2) by (simp add: names_of_def)

lemma data_names:
  assumes "data_ok S st" "same_supp (next_addr st) (heap st) h"
  shows "names_of h (s_input1 S) = names_of (heap st) (s_input1 S)" "names_of h (s_input2 S) = names_of (heap st) (s_input2 S)"
    "names_of h (s_output1 S) = names_of (heap st) (s_output1 S)" "names_of h (s_output2 S) = names_of (heap st) (s_output2 S)"
  using assms(1) by (auto simp: data_ok_def circuits_ok_def intro!: names_old [OF assms(2)])

text \<open>ABC and CaDiCaL decide the text of a miter: the result is 10 exactly when it has a model in which its output is true.\<close>

definition decides :: "world \<Rightarrow> vmiter \<Rightarrow> circuit_file \<Rightarrow> circuit_file \<Rightarrow> circuit_fun \<Rightarrow> circuit_fun \<Rightarrow> bool" where
  "decides W M f1 f2 F1 F2 \<longleftrightarrow> (w_solve W (show_miter M f1 f2) = 10 \<longleftrightarrow> (\<exists>\<rho>. miter_model M F1 F2 \<rho> \<and> \<rho> W_out))"

lemma report_eq:
  assumes S: "data_ok S st" "same_supp (next_addr st) (heap st) h" and f: "circuit_ok f1" "circuit_ok f2"
    and ports: "port_names_ok (heap st) (s_input1 S) (s_output1 S) f1" "port_names_ok (heap st) (s_input2 S) (s_output2 S) f2"
    and m: "match_ok (length (s_input1 S)) (length (s_input2 S)) (length (s_output1 S)) (length (s_output2 S)) ip ine op one cs"
    and all: "all_matched (length (s_input2 S)) ip cs"
    and ofs: "writeOutput h (s_input1 S) (s_input2 S) (s_output1 S) (s_output2 S) ip ine op one cs = Inr (text, errs)"
    and W: "decides W (miter_of (heap st) (s_input1 S) (s_input2 S) (s_output1 S) (s_output2 S) ip ine op one cs) f1 f2 F1 F2"
  shows "report W h (show_circuit (cf_name f1) f1) (show_circuit (cf_name f2) f2) (s_mod1 S) (s_mod2 S) (ip, ine, op, one, cs) =
    Inr (text, errs, \<forall>x. \<not> outputs_differ (heap st) (s_input1 S) (s_input2 S) (s_output1 S) (s_output2 S) F1 F2 ip ine op one cs x)"
proof -
  note names = data_names [OF S]
  have p: "port_names_ok h (s_input1 S) (s_output1 S) f1" "port_names_ok h (s_input2 S) (s_output2 S) f2"
    using ports names by (simp_all add: port_names_ok_def)
  have "miter_of h (s_input1 S) (s_input2 S) (s_output1 S) (s_output2 S) ip ine op one cs =
      miter_of (heap st) (s_input1 S) (s_input2 S) (s_output1 S) (s_output2 S) ip ine op one cs"
    by (simp add: miter_of_def names)
  then show ?thesis
    using ofs miter_text_ok [OF f p m] models_differ [OF m all, of "heap st" F1 F2] W
    by (simp add: report_def Let_def miter_def decides_def)
qed

text \<open>C3: What \<open>main\<close> reports after the search, on circuits whose outputs all have fewer than 18 inputs in their supports. On data that fit
  together (no \<open>ONEBUF\<close> and no inverted \<open>NAND\<close> or \<open>NOR\<close>, the unchecked reads in range, the benchmark is not 8), with no initial input partners, true supports that between them
  need every input of circuit 2, and circuits in the files (with port names that are no suffixes of one another) that compute the functions
  \<open>F1\<close>, \<open>F2\<close> of the parsed netlists,
  the search returns and \<open>main\<close> makes its tables. When the search succeeds, or the recorded answer locks every input of
  circuit 2, no assignment makes two matched outputs differ, and with a solver that decides the text of their miter \<open>main\<close>
  writes the file the search wrote last, reports no port as matched twice, and prints \<open>eq\<close>; a search that succeeds has
  matched every output.\<close>

theorem main_reports_eq:
  assumes "data_ok S st" "true_supports S (heap st)" "s_initOn S \<longrightarrow> set (s_init_input S) \<subseteq> {None}"
    and "\<forall>supp \<in> set (s_output_support2 S). length supp < 18" "set (s_input2 S) \<subseteq> \<Union> (set ` set (s_output_support2 S))"
    and "computes (heap st) (s_input1 S) (s_output1 S) F1" "computes (heap st) (s_input2 S) (s_output2 S) F2"
    and "circuit_ok f1" "circuit_ok f2"
    and "port_names_ok (heap st) (s_input1 S) (s_output1 S) f1" "port_names_ok (heap st) (s_input2 S) (s_output2 S) f2"
  shows "\<exists>X b L B ip ine op one cs. new_boolean_match S st = Inr (X, b, L, B) \<and>
     translate (length (s_input1 S)) (length (s_input2 S)) (length (s_output1 S)) (length (s_output2 S)) B = Inr (ip, ine, op, one, cs) \<and>
     (b \<longrightarrow> (\<forall>l \<in> set (maxOutputMatch B). fst l \<noteq> -1)) \<and>
     (b \<or> (\<forall>l \<in> set (maxInputMatch B). fst l \<noteq> -1) \<longrightarrow>
        (\<forall>x. \<not> outputs_differ (heap st) (s_input1 S) (s_input2 S) (s_output1 S) (s_output2 S) F1 F2 ip ine op one cs x) \<and>
        (\<forall>W. decides W (miter_of (heap st) (s_input1 S) (s_input2 S) (s_output1 S) (s_output2 S) ip ine op one cs) f1 f2 F1 F2 \<longrightarrow>
           report W (x_nodes X) (show_circuit (cf_name f1) f1) (show_circuit (cf_name f2) f2) (s_mod1 S) (s_mod2 S) (ip, ine, op, one, cs) =
             Inr (answer_file B, [], True)))"
proof -
  obtain X b L B ip ine op one cs cs' where run: "new_boolean_match S st = Inr (X, b, L, B)"
    and il: "locks_ok True (length (s_input1 S)) (length (s_input2 S)) (maxInputMatch B)"
    and ol: "locks_ok False (length (s_output1 S)) (length (s_output2 S)) (maxOutputMatch B)"
    and t: "tables_of True (length (s_input1 S)) (length (s_input2 S)) (maxInputMatch B) = (ip, ine, cs)"
    "tables_of False (length (s_output1 S)) (length (s_output2 S)) (maxOutputMatch B) = (op, one, cs')"
    and tr: "translate (length (s_input1 S)) (length (s_input2 S)) (length (s_output1 S)) (length (s_output2 S)) B = Inr (ip, ine, op, one, cs)"
    and ofs: "writeOutput (x_nodes X) (s_input1 S) (s_input2 S) (s_output1 S) (s_output2 S) ip ine op one cs = Inr (answer_file B, [])"
    using search_tables [OF assms(1)] by metis
  have same: "same_supp (next_addr st) (heap st) (x_nodes X)"
    and right: "\<forall>j lk. j < length (s_output2 S) \<longrightarrow> maxOutputMatch B ! j = lk \<longrightarrow> fst lk \<noteq> -1 \<longrightarrow>
        length (s_output_support2 S ! j) < 18 \<longrightarrow> same_function S (heap st) (maxInputMatch B) j lk"
    and used: "\<forall>j < length (s_output2 S). fst (maxOutputMatch B ! j) \<noteq> -1 \<longrightarrow>
        (\<forall>k < length (s_input2 S). s_input2 S ! k \<in> set (s_output_support2 S ! j) \<longrightarrow> fst (maxInputMatch B ! k) \<noteq> -1)"
    and every: "b \<longrightarrow> (\<forall>lk \<in> set (maxOutputMatch B). fst lk \<noteq> -1)"
    using new_boolean_match_answer [OF assms(1-3)] run by auto
  have len: "length (s_output_support2 S) = length (s_output2 S)" "length (maxOutputMatch B) = length (s_output2 S)"
    "length (maxInputMatch B) = length (s_input2 S)"
    using assms(1) il ol by (auto simp: data_ok_def supports_fit_def locks_ok_def)
  have locked: "\<forall>l \<in> set (maxInputMatch B). fst l \<noteq> -1" if b
  proof -
    have "fst (maxInputMatch B ! k) \<noteq> -1" if k: "k < length (s_input2 S)" for k
    proof -
      obtain j where "j < length (s_output2 S)" "s_input2 S ! k \<in> set (s_output_support2 S ! j)"
        using assms(5) nth_mem [OF k] len(1) by (fastforce simp: in_set_conv_nth [of _ "s_output_support2 S"])
      then show ?thesis using used every \<open>b\<close> k len(2) by (metis nth_mem)
    qed
    then show ?thesis by (simp add: all_set_conv_all_nth len(3))
  qed
  have differ: "\<not> outputs_differ (heap st) (s_input1 S) (s_input2 S) (s_output1 S) (s_output2 S) F1 F2 ip ine op one cs x"
    if "\<forall>l \<in> set (maxInputMatch B). fst l \<noteq> -1" for x
    using answer_passes [OF assms(1,6,7) il that ol t] right assms(4) len(1) by (metis nth_mem)
  have all: "all_matched (length (s_input2 S)) ip cs" if "\<forall>l \<in> set (maxInputMatch B). fst l \<noteq> -1"
    using tables_all_matched [OF il t(1)] that by blast
  note rep = report_eq [OF assms(1) same assms(8-11) tables_match_ok [OF il ol t] all ofs]
  have "b \<or> (\<forall>l \<in> set (maxInputMatch B). fst l \<noteq> -1) \<longleftrightarrow> (\<forall>l \<in> set (maxInputMatch B). fst l \<noteq> -1)" using locked by blast
  then show ?thesis using rep differ by - (intro exI conjI, rule run, rule tr, rule every, simp)
qed

text \<open>The example: the search on the conjunction and the disjunction succeeds, and the miter of its answer has no model.\<close>

definition ex_file :: "string \<Rightarrow> string list \<Rightarrow> string \<Rightarrow> circuit_file" where
  "ex_file name ports gate = \<lparr>cf_name = name, cf_ports = ports, cf_body = [gate]\<rparr>"

lemma ex_files_ok: "circuit_ok (ex_file ''t'' [''a'', ''b'', ''y''] ''and (y,a,b);'')"
  "circuit_ok (ex_file ''u'' [''c'', ''d'', ''z''] ''or (z,c,d);'')"
  by code_simp+

lemma ex_ports_ok:
  "port_names_ok ex_heap [0, 1] [3] (ex_file ''t'' [''a'', ''b'', ''y''] ''and (y,a,b);'')"
  "port_names_ok ex_heap [4, 5] [7] (ex_file ''u'' [''c'', ''d'', ''z''] ''or (z,c,d);'')"
  by (auto simp: port_names_ok_def names_of_def ex_file_def)

lemma ex_computes:
  "computes ex_heap [0, 1] [3] (\<lambda>c z. c ''a'' \<and> c ''b'')" "computes ex_heap [4, 5] [7] (\<lambda>c z. c ''c'' \<or> c ''d'')"
proof -
  have "evals ex_heap \<sigma> 3 b \<Longrightarrow> b = (\<sigma> 0 \<and> \<sigma> 1)" "evals ex_heap \<sigma> 7 b \<Longrightarrow> b = (\<sigma> 4 \<or> \<sigma> 5)" for \<sigma> b
    using evals_det [OF _ ex_values(1) [of \<sigma>]] evals_det [OF _ ex_values(2) [of \<sigma>]] by blast+
  then show "computes ex_heap [0, 1] [3] (\<lambda>c z. c ''a'' \<and> c ''b'')" "computes ex_heap [4, 5] [7] (\<lambda>c z. c ''c'' \<or> c ''d'')"
    by (simp_all add: computes_def names_of_def port_env_def)
qed

theorem main_reports_eq_witness:
  "\<exists>X L B ip ine op one cs W. new_boolean_match ex_data ex_store = Inr (X, True, L, B) \<and> translate 2 2 1 1 B = Inr (ip, ine, op, one, cs) \<and>
     decides W (miter_of ex_heap [0, 1] [4, 5] [3] [7] ip ine op one cs)
            (ex_file ''t'' [''a'', ''b'', ''y''] ''and (y,a,b);'') (ex_file ''u'' [''c'', ''d'', ''z''] ''or (z,c,d);'')
            (\<lambda>c z. c ''a'' \<and> c ''b'') (\<lambda>c z. c ''c'' \<or> c ''d'') \<and>
     report W (x_nodes X) (show_circuit ''t'' (ex_file ''t'' [''a'', ''b'', ''y''] ''and (y,a,b);''))
          (show_circuit ''u'' (ex_file ''u'' [''c'', ''d'', ''z''] ''or (z,c,d);'')) ex_mod1 ex_mod2 (ip, ine, op, one, cs) =
       Inr (answer_file B, [], True)"
proof -
  let ?F1 = "\<lambda>c (z :: string). c ''a'' \<and> c ''b''" and ?F2 = "\<lambda>c (z :: string). c ''c'' \<or> c ''d''"
  let ?f1 = "ex_file ''t'' [''a'', ''b'', ''y''] ''and (y,a,b);''" and ?f2 = "ex_file ''u'' [''c'', ''d'', ''z''] ''or (z,c,d);''"
  have cover: "set (s_input2 ex_data) \<subseteq> \<Union> (set ` set (s_output_support2 ex_data))" by simp
  have 2: "computes (heap ex_store) (s_input1 ex_data) (s_output1 ex_data) ?F1" "computes (heap ex_store) (s_input2 ex_data) (s_output2 ex_data) ?F2"
    "port_names_ok (heap ex_store) (s_input1 ex_data) (s_output1 ex_data) ?f1" "port_names_ok (heap ex_store) (s_input2 ex_data) (s_output2 ex_data) ?f2"
    using ex_computes ex_ports_ok by simp_all
  have 3: "true_supports ex_data (heap ex_store)" "s_initOn ex_data \<longrightarrow> set (s_init_input ex_data) \<subseteq> {None}"
    "\<forall>supp \<in> set (s_output_support2 ex_data). length supp < 18"
    using ex_true_supports by simp_all
  have len: "length [a, b :: addr] = 2" "length [a] = 1" for a b by simp_all
  have names: "cf_name ?f1 = ''t''" "cf_name ?f2 = ''u''" by (simp_all add: ex_file_def)
  obtain X L B where run: "new_boolean_match ex_data ex_store = Inr (X, True, L, B)" using ex_search by blast
  have solver: "\<exists>W. decides W (M :: vmiter) ?f1 ?f2 ?F1 ?F2" for M
    by (rule exI [of _ "example_world (\<lambda>_. None) Some (\<lambda>_. if \<exists>\<rho>. miter_model M ?F1 ?F2 \<rho> \<and> \<rho> W_out then 10 else 20)"])
      (simp add: decides_def example_world_def)
  let ?report = "\<lambda>W ip ine op one cs. report W (x_nodes X) (show_circuit ''t'' ?f1) (show_circuit ''u'' ?f2) ex_mod1 ex_mod2 (ip, ine, op, one, cs)"
  obtain ip ine op one cs where t: "translate 2 2 1 1 B = Inr (ip, ine, op, one, cs)"
    "\<forall>W. decides W (miter_of ex_heap [0, 1] [4, 5] [3] [7] ip ine op one cs) ?f1 ?f2 ?F1 ?F2 \<longrightarrow>
       ?report W ip ine op one cs = Inr (answer_file B, [], True)"
    using main_reports_eq [OF ex_data_ok 3 cover 2(1,2) ex_files_ok 2(3,4)]
    unfolding run ex_store_fields ex_data_fields(2,3) ex_gates_of len names sum.inject prod.inject by blast
  obtain W where "decides W (miter_of ex_heap [0, 1] [4, 5] [3] [7] ip ine op one cs) ?f1 ?f2 ?F1 ?F2" using solver by blast
  then show ?thesis using run t by blast
qed

end
