(* ===== verification/Miter_Single.thy ===== *)
theory Miter_Single
  imports Miter_Text
begin

text \<open>
  \<open>miterOneOutput\<close> of \<open>miter.cpp\<close>: the miter of one pair of outputs in Verilog, with the inputs in the order of the pairs.
  It is the exact counterpart of \<open>miterOneOutputRandom\<close>; ABC and CaDiCaL are the parameter \<open>solve\<close> again.
\<close>

section \<open>Maps of names\<close>

text \<open>\<open>map<string, string>\<close> as the list of its entries in the order of iteration.\<close>

fun str_less :: "string \<Rightarrow> string \<Rightarrow> bool" where
  "str_less _ [] = False"
| "str_less [] (d # t) = True"
| "str_less (c # s) (d # t) = (of_char c < (of_char d :: nat) \<or> c = d \<and> str_less s t)"

fun map_put :: "string \<Rightarrow> string \<Rightarrow> (string \<times> string) list \<Rightarrow> (string \<times> string) list" where
  "map_put k v [] = [(k, v)]"
| "map_put k v ((a, b) # xs) =
     (if k = a then (k, v) # xs else if str_less k a then (k, v) # (a, b) # xs else (a, b) # map_put k v xs)"

lemma map_of_put [simp]: "map_of (map_put k v xs) = (map_of xs)(k \<mapsto> v)"
  by (induction k v xs rule: map_put.induct) (auto simp: fun_eq_iff)

section \<open>The miter of one output\<close>

text \<open>The operations, the signals of the inputs of both circuits, the number of inputs used.\<close>

type_synonym single_state = "string list \<times> (string \<times> string) list \<times> (string \<times> string) list \<times> nat"

definition connect_pair :: "(addr \<Rightarrow> node) \<Rightarrow> addr list \<Rightarrow> addr list \<Rightarrow> (int \<times> int) list \<Rightarrow> bool list \<Rightarrow> nat \<Rightarrow> single_state \<Rightarrow> single_state res" where
  "connect_pair h input1 input2 pairs negs i = (\<lambda>(inop, c1_map, c2_map, using_input).
     rbind (vget input1 (snd (pairs ! i))) (\<lambda>a. rbind (vget input2 (fst (pairs ! i))) (\<lambda>b.
     let c1_in = n_name (h a); c2_in = n_name (h b);
         (c1_map, using_input) = (if map_of c1_map c1_in = None then (map_put c1_in (numbered ''in'' using_input) c1_map, Suc using_input)
                                  else (c1_map, using_input));
         wire = the (map_of c1_map c1_in)
     in rbind (vget negs (int i)) (\<lambda>neg.
        if neg then
          let node_name = numbered ''n'' (length inop)
          in Inr (inop @ [''not ( '' @ node_name @ '', '' @ wire @ '' ) ;''], c1_map, map_put c2_in node_name c2_map, using_input)
        else Inr (inop, c1_map, map_put c2_in wire c2_map, using_input)))))"

definition connect_const :: "(addr \<Rightarrow> node) \<Rightarrow> addr list \<Rightarrow> bool \<times> int \<Rightarrow> (string \<times> string) list \<Rightarrow> (string \<times> string) list res" where
  "connect_const h input2 = (\<lambda>(b, port_idx) c2_map.
     rbind (vget input2 port_idx) (\<lambda>a.
     Inr (map_put (n_name (h a)) (if b then ''1'' @ [CHR 0x27] @ ''b1'' else ''1'' @ [CHR 0x27] @ ''b0'') c2_map)))"

text \<open>The calls of both circuits, with the names of their modules, and the copies of the modules.\<close>

definition single_calls ::
  "(addr \<Rightarrow> node) \<Rightarrow> string \<Rightarrow> string \<Rightarrow> addr \<Rightarrow> addr list \<Rightarrow> int \<Rightarrow> (string \<times> string) list \<Rightarrow> (string \<times> string) list \<Rightarrow>
   ((string \<times> string) \<times> (string \<times> string)) res" where
  "single_calls h c1 c2 o1 output2 k c1_map c2_map =
     rbind (call_module ''Circuit1 circuit_1( '' (Inr (c1_map @ [(n_name (h o1), ''o0'')])) '''' '''' (stream_of c1)) (\<lambda>r1.
     rbind (call_module ''Circuit2 circuit_2( ''
              (rbind (vget output2 k) (\<lambda>o2. Inr (c2_map @ [(n_name (h o2), ''o1'')]))) '''' '''' (stream_of c2)) (\<lambda>r2.
     Inr (r1, r2)))"

definition single_copies :: "string \<Rightarrow> string \<Rightarrow> string \<Rightarrow> string \<Rightarrow> string res" where
  "single_copies c1 name1 c2 name2 =
     rbind (copy_module '' Circuit1'' name1 '''' (stream_of c1)) (\<lambda>copy1.
     rbind (copy_module '' Circuit2'' name2 '''' (stream_of c2)) (\<lambda>copy2.
     Inr (copy1 @ endl @ copy2)))"

definition single_text ::
  "(addr \<Rightarrow> node) \<Rightarrow> string \<Rightarrow> string \<Rightarrow> addr list \<Rightarrow> addr list \<Rightarrow> addr list \<Rightarrow> addr list \<Rightarrow>
   (int \<times> int) list \<Rightarrow> bool list \<Rightarrow> int \<times> int \<Rightarrow> bool \<Rightarrow> (bool \<times> int) list \<Rightarrow> string res" where
  "single_text h c1 c2 input1 input2 output1 output2 pairs negs out_pair out_neg const_match =
     rbind (vget output1 (snd out_pair)) (\<lambda>o1.
     rbind (rfold (connect_pair h input1 input2 pairs negs) [0..<length pairs] ([], [], [], 0)) (\<lambda>(inop, c1_map, c2_map, using_input).
     rbind (rfold (connect_const h input2) const_match c2_map) (\<lambda>c2_map.
     rbind (single_calls h c1 c2 o1 output2 (fst out_pair) c1_map c2_map) (\<lambda>((name1, call1), (name2, call2)).
     rbind (single_copies c1 name1 c2 name2) (\<lambda>copies.
     Inr (miter_header (length (n_pi_idx (h o1))) @ wire_line (length inop) 2 @ put_ops inop @ call1 @ call2 @
          CHR 0x09 # (if out_neg then ''xnor ( out0, o0, o1 ) ;'' else ''xor ( out0, o0, o1 ) ;'') @ endl @
          ''endmodule'' @ endl @ endl @ copies))))))"

definition miterOneOutput ::
  "(string \<Rightarrow> int) \<Rightarrow> (addr \<Rightarrow> node) \<Rightarrow> string \<Rightarrow> string \<Rightarrow> addr list \<Rightarrow> addr list \<Rightarrow> addr list \<Rightarrow> addr list \<Rightarrow>
   (int \<times> int) list \<Rightarrow> bool list \<Rightarrow> int \<times> int \<Rightarrow> bool \<Rightarrow> (bool \<times> int) list \<Rightarrow> bool res" where
  "miterOneOutput solve h c1 c2 input1 input2 output1 output2 pairs negs out_pair out_neg const_match =
     rbind (single_text h c1 c2 input1 input2 output1 output2 pairs negs out_pair out_neg const_match) (\<lambda>text.
     Inr (solve text \<noteq> 10))"

section \<open>The signals of the inputs\<close>

text \<open>Inputs of circuit 1 get different wires, and every wire is one of the miter's inputs.\<close>

definition wires_ok :: "(string \<times> string) list \<Rightarrow> nat \<Rightarrow> bool" where
  "wires_ok c1_map n \<longleftrightarrow> (\<exists>f. (\<forall>s w. map_of c1_map s = Some w \<longrightarrow> w = numbered ''in'' (f s) \<and> f s < n) \<and> inj_on f (dom (map_of c1_map)))"

lemma wires_ok_put:
  assumes "wires_ok c1_map n" "map_of c1_map s = None"
  shows "wires_ok (map_put s (numbered ''in'' n) c1_map) (Suc n)"
proof -
  obtain f where f: "\<forall>s w. map_of c1_map s = Some w \<longrightarrow> w = numbered ''in'' (f s) \<and> f s < n" "inj_on f (dom (map_of c1_map))"
    using assms(1) by (auto simp: wires_ok_def)
  have s: "s \<notin> dom (map_of c1_map)" using assms(2) by (auto simp: domIff)
  have "inj_on (f(s := n)) (insert s (dom (map_of c1_map)))"
    using f s by (fastforce simp: inj_on_def)
  then show ?thesis unfolding wires_ok_def
    using f s by (intro exI [of _ "f(s := n)"]) (auto simp: less_Suc_eq domIff)
qed

lemma connect_pair_wires:
  assumes "connect_pair h input1 input2 pairs negs i (inop, c1_map, c2_map, n) = Inr (inop', c1_map', c2_map', n')" "wires_ok c1_map n"
  shows "wires_ok c1_map' n'"
  using assms wires_ok_put [of c1_map n] by (auto simp: connect_pair_def res_simps Let_def split: if_splits)

lemma wires_ok_Nil: "wires_ok [] 0"
  by (simp add: wires_ok_def)

lemma connect_pairs_wires:
  assumes "rfold (connect_pair h input1 input2 pairs negs) is ([], [], [], 0) = Inr (inop, c1_map, c2_map, n)"
  shows "wires_ok c1_map n"
proof -
  have "(\<lambda>(inop, c1_map, c2_map, n). wires_ok c1_map n) (inop, c1_map, c2_map, n)"
    by (rule rfold_inv [OF assms]) (auto simp: wires_ok_Nil intro: connect_pair_wires)
  then show ?thesis by simp
qed

text \<open>Without a negated input the declaration of the wires starts with a comma.\<close>

lemma wire_line_empty: "wire_line 0 2 = CHR 0x09 # ''wire , o0, o1 ;'' @ endl"
  by code_simp

end
