(* ===== verification/Abc_Commands.thy ===== *)
theory Abc_Commands
  imports Func_Support Main_Program
begin

text \<open>
  The calls of ABC: the commands that \<open>ABCRebuild\<close>, \<open>ABCSplitOutput\<close>, \<open>assign_ctrl_signal\<close> and the miters print into the
  buffer \<open>Command\<close> and run. ABC itself is the parameter \<open>abc\<close>: what a command does to its own state and to the
  files, with its return code.
\<close>

section \<open>Commands\<close>

type_synonym files = "string \<Rightarrow> string option"
type_synonym 'w abc = "string \<Rightarrow> 'w \<times> files \<Rightarrow> int \<times> 'w \<times> files"
type_synonym 'w session = "('w \<times> files) \<times> string"

text \<open>The buffer has 1000 characters, one for the end; a command that fails is reported and the program goes on.\<close>

definition Cmd_CommandExecute :: "'w abc \<Rightarrow> string \<Rightarrow> 'w session \<Rightarrow> 'w session res" where
  "Cmd_CommandExecute abc cmd = (\<lambda>(s, out).
     if length cmd \<ge> 1000 then Inl Bad_Index
     else case abc cmd s of
            (code, s) \<Rightarrow>
              Inr (s, if code \<noteq> 0 then out @ ''Cannot execute command '' @ [CHR 0x22] @ cmd @ [CHR 0x22] @ ''.'' @ endl else out))"

definition read_command :: "string \<Rightarrow> string" where
  "read_command v = ''read_library cadence.genlib; read_verilog '' @ v @ ''; strash''"

definition write_command :: "string \<Rightarrow> string" where
  "write_command v = ''map; write_verilog '' @ v"

definition resync2 :: string where
  "resync2 = ''balance; rewrite -l; refactor -l; balance; rewrite -l; rewrite -lz; balance; refactor -lz; rewrite -lz; balance;''"

definition cnf_command :: "string \<Rightarrow> string \<Rightarrow> string" where
  "cnf_command v cnf = ''read_verilog '' @ v @ ''; strash; write_cnf '' @ cnf"

definition split_command :: "string \<Rightarrow> string \<Rightarrow> string \<Rightarrow> string" where
  "split_command del name out =
     ''read_library split.genlib; read_verilog '' @ del @ ''; strash; map; cone '' @ name @ ''; write_verilog '' @ out"

section \<open>\<open>ABCRebuild\<close>\<close>

text \<open>The output file is emptied before the input is read; an input that cannot be opened is read as an empty one.\<close>

definition text_of :: "files \<Rightarrow> string \<Rightarrow> string" where
  "text_of fs name = (case fs name of None \<Rightarrow> '''' | Some t \<Rightarrow> t)"

definition delete_names :: "string \<Rightarrow> string \<Rightarrow> files \<Rightarrow> files res" where
  "delete_names a b fs = rbind (DeleteGateName (text_of (fs(b \<mapsto> '''')) a)) (\<lambda>t. Inr (fs(b \<mapsto> t)))"

definition del_out :: "string \<Rightarrow> int \<Rightarrow> string" where
  "del_out map_path i = map_path @ ''_del_out'' @ to_string i @ ''.v''"

definition abc_map_out :: "string \<Rightarrow> int \<Rightarrow> string" where
  "abc_map_out map_path i = map_path @ ''_abc_map_out'' @ to_string i @ ''.v''"

definition map_commands :: "string \<Rightarrow> string \<Rightarrow> string list" where
  "map_commands v out = [read_command v, resync2, write_command out]"

text \<open>\<open>start\<close> is the state \<open>Abc_Start\<close> sets up. The result: the names of the four files, the files and the messages.\<close>

definition ABCRebuild :: "'w abc \<Rightarrow> 'w \<Rightarrow> string list \<Rightarrow> files \<Rightarrow> (string list \<times> string list \<times> files \<times> string) res" where
  "ABCRebuild abc start file_name fs =
     rbind (vget file_name 0) (\<lambda>map_path. rbind (vget file_name 1) (\<lambda>f1. rbind (vget file_name 2) (\<lambda>f2.
     let del = map (del_out map_path) [1, 2]; out = map (abc_map_out map_path) [1, 2] in
     rbind (delete_names f1 (del ! 0) fs) (\<lambda>fs.
     rbind (delete_names f2 (del ! 1) fs) (\<lambda>fs.
     rbind (rfold (Cmd_CommandExecute abc) (map_commands (del ! 0) (out ! 0)) ((start, fs), '''')) (\<lambda>s.
     rbind (rfold (Cmd_CommandExecute abc) (map_commands (del ! 1) (out ! 1)) s) (\<lambda>((w, fs), msgs).
     Inr (del, out, fs, msgs))))))))"

section \<open>\<open>ABCSplitOutput\<close>\<close>

text \<open>The file that is written for an output, and the one that \<open>findFunctionalSupport\<close> opens for it.\<close>

definition split_path :: "string \<Rightarrow> int \<Rightarrow> string \<Rightarrow> string" where
  "split_path map_path n name = ''./split/'' @ map_path @ ''_'' @ to_string n @ ''_'' @ name @ ''.v''"

definition support_path :: "int \<Rightarrow> string \<Rightarrow> string" where
  "support_path n name = to_string n @ ''_'' @ name @ ''.v''"

definition ABCSplitOutput :: "'w abc \<Rightarrow> 'w \<Rightarrow> (addr \<Rightarrow> node) \<Rightarrow> module \<Rightarrow> string list \<Rightarrow> int \<Rightarrow> files \<Rightarrow> (files \<times> string) res" where
  "ABCSplitOutput abc start h m file_name n fs =
     rbind (vget file_name 0) (\<lambda>map_path.
     rbind (rfold (\<lambda>a. Cmd_CommandExecute abc
              (split_command (del_out map_path n) (n_name (h a)) (split_path map_path n (n_name (h a)))))
            (m_gate m OUTPUT) ((start, fs), '''')) (\<lambda>((w, fs), msgs). Inr (fs, msgs)))"

section \<open>The other calls\<close>

text \<open>The mapping of \<open>assign_ctrl_signal\<close>, and the CNF file of a miter, which CaDiCaL (\<open>sat\<close>) reads whether ABC failed or not.\<close>

definition ctrl_commands :: "string \<Rightarrow> string \<Rightarrow> string list" where
  "ctrl_commands v out = (read_command v @ '';'') # replicate 5 resync2 @ [write_command out]"

definition cnf_verdict :: "'w abc \<Rightarrow> 'w \<Rightarrow> (string option \<Rightarrow> int) \<Rightarrow> string \<Rightarrow> string \<Rightarrow> files \<Rightarrow> (int \<times> files \<times> string) res" where
  "cnf_verdict abc start sat v cnf fs =
     rbind (Cmd_CommandExecute abc (cnf_command v cnf) ((start, fs), '''')) (\<lambda>((w, fs), msgs). Inr (sat (fs cnf), fs, msgs))"

section \<open>What \<open>ABCRebuild\<close> leaves\<close>

text \<open>
  The contract of ABC for one circuit: after the three commands the file of the mapped netlist is the one of \<open>mapped\<close>
  for the text that was read, or it is not written, and nothing else changes.
\<close>

definition abc_state :: "'w abc \<Rightarrow> string list \<Rightarrow> 'w \<times> files \<Rightarrow> 'w \<times> files" where
  "abc_state abc cmds s = fold (\<lambda>cmd s. snd (abc cmd s)) cmds s"

definition maps_files :: "'w abc \<Rightarrow> files \<Rightarrow> string \<Rightarrow> string \<Rightarrow> bool" where
  "maps_files abc mapped v out \<longleftrightarrow>
     (\<forall>w fs t. fs v = Some t \<longrightarrow> snd (abc_state abc (map_commands v out) (w, fs)) = (case mapped t of None \<Rightarrow> fs | Some u \<Rightarrow> fs(out \<mapsto> u)))"

lemma commands_run:
  assumes "list_all (\<lambda>cmd. length cmd < 1000) cmds"
  shows "\<exists>out'. rfold (Cmd_CommandExecute abc) cmds (s, out) = Inr (abc_state abc cmds s, out')"
  using assms
proof (induction cmds arbitrary: s out)
  case Nil
  then show ?case by (simp add: abc_state_def)
next
  case (Cons cmd cmds)
  obtain out1 where "Cmd_CommandExecute abc cmd (s, out) = Inr (snd (abc cmd s), out1)"
    using Cons.prems by (cases "abc cmd s") (auto simp: Cmd_CommandExecute_def)
  then show ?case using Cons.IH [of "snd (abc cmd s)" out1] Cons.prems by (simp add: abc_state_def)
qed

lemma commands_overflow:
  assumes "\<not> list_all (\<lambda>cmd. length cmd < 1000) cmds"
  shows "rfold (Cmd_CommandExecute abc) cmds s = Inl Bad_Index"
  using assms
proof (induction cmds arbitrary: s)
  case (Cons cmd cmds)
  obtain w out where s: "s = (w, out)" by fastforce
  show ?case
  proof (cases "length cmd < 1000")
    case True
    obtain s' where "Cmd_CommandExecute abc cmd s = Inr s'" using True by (cases "abc cmd w") (auto simp: Cmd_CommandExecute_def s)
    then show ?thesis using Cons True by simp
  qed (simp add: s Cmd_CommandExecute_def)
qed simp


lemma case_files:
  "del_out ''case'' 1 = ''case_del_out1.v''" "del_out ''case'' 2 = ''case_del_out2.v''"
  "abc_map_out ''case'' 1 = ''case_abc_map_out1.v''" "abc_map_out ''case'' 2 = ''case_abc_map_out2.v''"
  by (simp_all add: del_out_def abc_map_out_def to_string_def nat_digits.simps digits_def)

lemma case_commands:
  "list_all (\<lambda>cmd. length cmd < 1000) (map_commands ''case_del_out1.v'' ''case_abc_map_out1.v'')"
  "list_all (\<lambda>cmd. length cmd < 1000) (map_commands ''case_del_out2.v'' ''case_abc_map_out2.v'')"
  by (simp_all add: map_commands_def read_command_def resync2_def write_command_def)

text \<open>Both mappings, one after the other.\<close>

lemma both_mapped:
  assumes "maps_files abc mapped d1 o1" "maps_files abc mapped d2 o2" "fs d1 = Some t1" "fs d2 = Some t2" "fs o1 = None" "fs o2 = None"
    and "distinct [d1, d2, o1, o2]"
  shows "\<exists>w' fs'. abc_state abc (map_commands d2 o2) (abc_state abc (map_commands d1 o1) (w, fs)) = (w', fs') \<and>
    map fs' [d1, d2] = [Some t1, Some t2] \<and> map fs' [o1, o2] = [mapped t1, mapped t2]"
proof -
  obtain w1 fs1 where 1: "abc_state abc (map_commands d1 o1) (w, fs) = (w1, fs1)" by fastforce
  then have fs1: "fs1 = (case mapped t1 of None \<Rightarrow> fs | Some u \<Rightarrow> fs(o1 \<mapsto> u))" using assms(1,3) unfolding maps_files_def by (metis snd_conv)
  obtain w2 fs2 where 2: "abc_state abc (map_commands d2 o2) (w1, fs1) = (w2, fs2)" by fastforce
  have "fs1 d2 = Some t2" using fs1 assms by (auto split: option.splits)
  then have "fs2 = (case mapped t2 of None \<Rightarrow> fs1 | Some u \<Rightarrow> fs1(o2 \<mapsto> u))" using 2 assms(2) unfolding maps_files_def by (metis snd_conv)
  then show ?thesis using 1 2 fs1 assms by (auto split: option.splits)
qed

text \<open>C21: \<open>ABCRebuild\<close> gives \<open>main\<close> the texts that \<open>main\<close> is modelled with. For the names \<open>ParseInput\<close> gives, no command
  overruns the buffer; the two netlists without gate names are those of \<open>circuit_text\<close>, the mapped ones are what ABC
  makes of them (or are missing), and the errors are the same. The input files must not be files the program writes, and no
  mapped netlist may be there from a run before.\<close>

theorem ABCRebuild_texts:
  fixes W :: world
  assumes "maps_files abc (w_map W) ''case_del_out1.v'' ''case_abc_map_out1.v''"
    and "maps_files abc (w_map W) ''case_del_out2.v'' ''case_abc_map_out2.v''"
    and "w_file W ''case_abc_map_out1.v'' = None" "w_file W ''case_abc_map_out2.v'' = None"
    and "f1 \<noteq> ''case_del_out1.v''" "f2 \<notin> {''case_del_out1.v'', ''case_del_out2.v''}"
  shows "rbind (ABCRebuild abc start [''case'', f1, f2] (w_file W)) (\<lambda>(del, out, fs, msgs). Inr (map fs del, map fs out)) =
    rbind (circuit_text W f1) (\<lambda>t1. rbind (circuit_text W f2) (\<lambda>t2.
      Inr ([Some t1, Some t2], [w_map W t1, w_map W t2])))"
proof -
  let ?d1 = "''case_del_out1.v''" and ?d2 = "''case_del_out2.v''" and ?o1 = "''case_abc_map_out1.v''" and ?o2 = "''case_abc_map_out2.v''"
  have f1: "text_of ((w_file W)(?d1 \<mapsto> '''')) f1 = text_of (w_file W) f1" using assms(5) by (simp add: text_of_def)
  have f2: "text_of ((w_file W)(?d1 \<mapsto> t, ?d2 \<mapsto> '''')) f2 = text_of (w_file W) f2" for t using assms(6) by (simp add: text_of_def)
  have run: "rbind (rfold (Cmd_CommandExecute abc) (map_commands ?d1 ?o1) ((start, fs), '''')) (\<lambda>s.
      rbind (rfold (Cmd_CommandExecute abc) (map_commands ?d2 ?o2) s) (\<lambda>((w, fs), msgs). Inr (map fs [?d1, ?d2], map fs [?o1, ?o2]))) =
      Inr ([Some t1, Some t2], [w_map W t1, w_map W t2])"
    if "fs = (w_file W)(?d1 \<mapsto> t1, ?d2 \<mapsto> t2)" for fs t1 t2
  proof -
    obtain out1 where r1: "rfold (Cmd_CommandExecute abc) (map_commands ?d1 ?o1) ((start, fs), '''') =
        Inr (abc_state abc (map_commands ?d1 ?o1) (start, fs), out1)"
      using commands_run [OF case_commands(1)] by blast
    obtain out2 where r2: "rfold (Cmd_CommandExecute abc) (map_commands ?d2 ?o2) (abc_state abc (map_commands ?d1 ?o1) (start, fs), out1) =
        Inr (abc_state abc (map_commands ?d2 ?o2) (abc_state abc (map_commands ?d1 ?o1) (start, fs)), out2)"
      using commands_run [OF case_commands(2)] by blast
    have "fs ?d1 = Some t1" "fs ?d2 = Some t2" "fs ?o1 = None" "fs ?o2 = None" "distinct [?d1, ?d2, ?o1, ?o2]"
      using that assms(3,4) by simp_all
    from both_mapped [OF assms(1,2) this, of start] show ?thesis using r1 r2 by auto
  qed
  show ?thesis
    using run by (simp add: ABCRebuild_def vget_def in_range_def Let_def case_files delete_names_def f1 f2 circuit_text_def
        text_of_def [symmetric] rbind_assoc split_def cong: rbind_cong)
qed


text \<open>The example: an ABC that keeps the text it reads and writes it again.\<close>

definition echo_abc :: "string option abc" where
  "echo_abc cmd = (\<lambda>(net, fs).
     if cmd = read_command ''case_del_out1.v'' then (0, fs ''case_del_out1.v'', fs)
     else if cmd = read_command ''case_del_out2.v'' then (0, fs ''case_del_out2.v'', fs)
     else if cmd = write_command ''case_abc_map_out1.v'' then (0, net, fs(''case_abc_map_out1.v'' := net))
     else if cmd = write_command ''case_abc_map_out2.v'' then (0, net, fs(''case_abc_map_out2.v'' := net))
     else (0, net, fs))"

lemma echo_maps:
  "maps_files echo_abc Some ''case_del_out1.v'' ''case_abc_map_out1.v''"
  "maps_files echo_abc Some ''case_del_out2.v'' ''case_abc_map_out2.v''"
  by (simp_all add: maps_files_def abc_state_def map_commands_def echo_abc_def read_command_def write_command_def resync2_def)

definition echo_world :: world where
  "echo_world = example_world
     [''a.v'' \<mapsto> print_circuit ''top'' (join [''x'', ''z'']) [Decl INPUT [''x''], Decl OUTPUT [''z''], Gate INV ''g1'' [''z'', ''x'']],
      ''b.v'' \<mapsto> print_circuit ''top'' (join [''y'', ''w'']) [Decl INPUT [''y''], Decl OUTPUT [''w''], Gate BUF ''g2'' [''w'', ''y'']]]
     Some (\<lambda>_. 20)"

theorem ABCRebuild_texts_witness:
  "rbind (ABCRebuild echo_abc None [''case'', ''a.v'', ''b.v''] (w_file echo_world)) (\<lambda>(del, out, fs, msgs). Inr (map fs del, map fs out)) =
    (let t1 = print_circuit ''top'' (join [''x'', ''z'']) [Decl INPUT [''x''], Decl OUTPUT [''z''], Gate INV '''' [''z'', ''x'']];
         t2 = print_circuit ''top'' (join [''y'', ''w'']) [Decl INPUT [''y''], Decl OUTPUT [''w''], Gate BUF '''' [''w'', ''y'']]
     in Inr ([Some t1, Some t2], [Some t1, Some t2]))"
proof -
  have files: "w_map echo_world = Some" "w_file echo_world ''case_abc_map_out1.v'' = None" "w_file echo_world ''case_abc_map_out2.v'' = None"
    "''a.v'' \<noteq> ''case_del_out1.v''" "''b.v'' \<notin> {''case_del_out1.v'', ''case_del_out2.v''}"
    by (simp_all add: echo_world_def example_world_def)
  have texts: "circuit_text echo_world ''a.v'' =
      Inr (print_circuit ''top'' (join [''x'', ''z'']) [Decl INPUT [''x''], Decl OUTPUT [''z''], Gate INV '''' [''z'', ''x'']])"
    "circuit_text echo_world ''b.v'' =
      Inr (print_circuit ''top'' (join [''y'', ''w'']) [Decl INPUT [''y''], Decl OUTPUT [''w''], Gate BUF '''' [''w'', ''y'']])"
    using DeleteGateName_print [of "''top''" "[''x'', ''z'']" "[Decl INPUT [''x''], Decl OUTPUT [''z''], Gate INV ''g1'' [''z'', ''x'']]"]
      DeleteGateName_print [of "''top''" "[''y'', ''w'']" "[Decl INPUT [''y''], Decl OUTPUT [''w''], Gate BUF ''g2'' [''w'', ''y'']]"]
    by (simp_all add: circuit_text_def echo_world_def example_world_def plain_def plain_char_def)
  show ?thesis
    using ABCRebuild_texts [of echo_abc echo_world "''a.v''" "''b.v''" None] echo_maps files
    unfolding texts Let_def rbind_Inr files(1) by blast
qed

section \<open>The files of single outputs\<close>

lemma to_string_first: "\<exists>c t. to_string i = c # t \<and> c \<noteq> CHR ''.''"
proof -
  have "\<exists>c t. nat_digits n = c # t \<and> c \<noteq> CHR ''.''" for n
  proof (induction n rule: nat_digits.induct)
    case (1 n)
    have "list_all (\<lambda>c. c \<noteq> CHR ''.'') digits" "length digits = 10" by (simp_all add: digits_def)
    then have "n < 10 \<Longrightarrow> digits ! n \<noteq> CHR ''.''" for n by (simp add: list_all_length)
    then show ?case using 1 by (subst nat_digits.simps) auto
  qed
  then show ?thesis by (simp add: to_string_def)
qed

text \<open>\<open>findFunctionalSupport\<close> never opens a file that \<open>ABCSplitOutput\<close> writes.\<close>

lemma split_file_not_read: "support_path n name \<noteq> split_path map_path n' name'"
  using to_string_first [of n] by (auto simp: support_path_def split_path_def)

end
