(* ===== verification/Show_Text.thy ===== *)
theory Show_Text
  imports Match_Gen Operation_Model Miter_Text
begin

text \<open>
  What the program shows of its data: \<open>printBT\<close>, \<open>showNode\<close>, \<open>showOp\<close> and \<open>Simulate\<close> of \<open>Netlist.h\<close>, \<open>printLock\<close> and the
  logs of the candidates of \<open>Matching.cpp\<close>, as the texts they write.
\<close>

section \<open>Netlists\<close>

text \<open>The tree below an output, one line per node; the first \<open>n_inv\<close> inputs are marked. The fuel is the stack.\<close>

fun printBT :: "nat \<Rightarrow> (addr \<Rightarrow> node) \<Rightarrow> string \<Rightarrow> addr \<Rightarrow> bool \<Rightarrow> bool \<Rightarrow> string res" where
  "printBT 0 h pre a isLast isINV = Inl Stack_Overflow"
| "printBT (Suc n) h pre a isLast isINV =
     rfold (\<lambda>(i, fi) s.
         rbind (printBT n h (pre @ (if isLast then ''    '' else ''|   '')) fi (Suc i = length (n_fi (h a))) (n_inv (h a) > i))
           (\<lambda>t. Inr (s @ t)))
       (zip [0..<length (n_fi (h a))] (n_fi (h a)))
       (pre @ (if isLast then ''|__'' else ''|--'') @ (if isINV then ''not-'' else '''') @ TypeID (n_type (h a)) @ '' '' @ n_name (h a) @ endl)"

text \<open>The file of a module: at most 27 outputs.\<close>

definition netlist_name :: "module \<Rightarrow> string" where
  "netlist_name m = ''netlist'' @ to_string (m_moduleIndex m) @ ''_bit'' @ to_string (m_cur_bit_place m) @ ''.txt''"

definition printBT_module :: "nat \<Rightarrow> (addr \<Rightarrow> node) \<Rightarrow> module \<Rightarrow> string res" where
  "printBT_module n h m =
     rfold (\<lambda>a s. rbind (printBT n h '''' a True False) (\<lambda>t. Inr (s @ t @ endl))) (take 27 (m_gate m OUTPUT)) ''''"

text \<open>A node with its inputs, those without a name shown inside, and its readers.\<close>

fun showNode :: "nat \<Rightarrow> (addr \<Rightarrow> node) \<Rightarrow> addr \<Rightarrow> string res" where
  "showNode 0 h a = Inl Stack_Overflow"
| "showNode (Suc n) h a =
     rbind (rfold (\<lambda>x s.
              let s = s @ n_name (h x) @ '' ''
              in if n_name (h x) = '''' then rbind (showNode n h x) (\<lambda>t. Inr (s @ t)) else Inr s)
       (n_fi (h a))
       (''Name: '' @ n_name (h a) @ endl @ ''Type: '' @ TypeID (n_type (h a)) @ endl @
        ''Signal: '' @ to_string (int (sig_val (n_signal (h a)))) @ endl @ ''FI('' @ to_string (int (length (n_fi (h a)))) @ ''): '')) (\<lambda>s.
     Inr (s @ endl @ ''FO('' @ to_string (int (length (n_fo (h a)))) @ ''): '' @
          concat (map (\<lambda>x. n_name (h x) @ ''('' @ TypeID (n_type (h x)) @ ''), '') (n_fo (h a))) @ endl @ endl))"

section \<open>Equations\<close>

text \<open>A product: its coefficient and its factors; the first factor is read without a test.\<close>

definition product_text :: "trm \<Rightarrow> string res" where
  "product_text t =
     rbind (vget (t_member t) 0) (\<lambda>b.
     Inr (to_string (t_coeff t) @ ''('' @ to_string b @ concat (map (\<lambda>b. ''*'' @ to_string b) (tl (t_member t))) @ '')''))"

definition showOp :: "(addr \<Rightarrow> node) \<Rightarrow> operation \<Rightarrow> string res" where
  "showOp h p =
     rbind (vget (o_output p) 0) (\<lambda>out.
     let s = ''out'' @ to_string (n_bus_idx (h out)) @ '' = '' @ n_name (h out) @
             concat (map (\<lambda>x. '', '' @ n_name (h x)) (tl (o_output p))) @ endl
     in case o_real_input p of
          [] \<Rightarrow> Inr (s @ [CHR 0x09] @ ''= 0'' @ endl)
        | t # ts \<Rightarrow>
            rbind (product_text t) (\<lambda>first.
            rbind (rfold (\<lambda>t s. rbind (product_text t) (\<lambda>x. Inr (s @ '' + '' @ x))) ts (s @ [CHR 0x09] @ ''= '' @ first)) (\<lambda>s.
            Inr (s @ endl))))"

section \<open>\<open>Simulate\<close>\<close>

text \<open>Every output of the bus is compared with the input below it; the pairs that differ are reported.\<close>

definition setw6 :: "string \<Rightarrow> string" where
  "setw6 s = replicate (6 - length s) CHR '' '' @ s"

definition first_input_of :: "(addr \<Rightarrow> node) \<Rightarrow> addr \<Rightarrow> addr res" where
  "first_input_of h out =
     rbind (vget (n_fi (h out)) 0) (\<lambda>g. rbind (vget (n_fi (h g)) 0) (\<lambda>a.
     if n_type (h a) = INPUT then Inr a else vget (n_fi (h g)) 1))"

definition compare_bit :: "nat \<Rightarrow> addr \<Rightarrow> (addr \<times> addr) list \<times> string \<times> (addr \<Rightarrow> node) \<Rightarrow> ((addr \<times> addr) list \<times> string \<times> (addr \<Rightarrow> node)) res" where
  "compare_bit n out = (\<lambda>(diff, s, h).
     rbind (OutputValue n out h) (\<lambda>h.
     rbind (first_input_of h out) (\<lambda>inp.
     Inr (if n_signal (h out) \<noteq> n_signal (h inp) then diff @ [(out, inp)] else diff,
          s @ setw6 (n_name (h out)) @ ''(OUTPUT) = '' @ to_string (int (sig_val (n_signal (h out)))) @ '', '' @
            setw6 (n_name (h inp)) @ ''(INPUT) = '' @ to_string (int (sig_val (n_signal (h inp)))) @ endl, h))))"

definition ruler :: string where
  "ruler = replicate 43 CHR ''='' @ endl"

definition Simulate :: "nat \<Rightarrow> module \<Rightarrow> (addr \<Rightarrow> node) \<Rightarrow> (string \<times> (addr \<Rightarrow> node)) res" where
  "Simulate n m h =
     rbind (vget (m_gate m OUTPUT) 0) (\<lambda>out. rbind (vget (m_bus_set m) (n_bus_idx (h out))) (\<lambda>bus.
     rbind (rfold (compare_bit n) bus ([], ruler, h)) (\<lambda>(diff, s, h).
     Inr (s @ ruler @
          (if diff \<noteq> [] then
             ''There are bit flip!'' @ endl @ concat (map (\<lambda>(a, b). ''('' @ n_name (h a) @ '','' @ n_name (h b) @ '') '') diff) @ endl
           else ''All output bis are the same as the input bits!'' @ endl), h))))"

section \<open>Locks and candidates\<close>

definition lock_text :: "(addr \<Rightarrow> node) \<Rightarrow> addr list \<Rightarrow> string \<Rightarrow> int \<times> bool \<Rightarrow> string res" where
  "lock_text h inputs1 name = (\<lambda>(c1, neg).
     let num = to_string (of_bool neg)
     in if c1 = -1 then Inr (name @ '': '' @ ''None'' @ '', '' @ num @ endl)
        else if c1 = CONST_VAL then Inr (name @ '': '' @ ''CONST '' @ num @ endl)
        else rbind (vget inputs1 c1) (\<lambda>a. Inr (name @ '': '' @ n_name (h a) @ '', '' @ num @ endl)))"

definition printLock :: "(addr \<Rightarrow> node) \<Rightarrow> addr list \<Rightarrow> addr list \<Rightarrow> (int \<times> bool) list \<Rightarrow> int list \<Rightarrow> string res" where
  "printLock h inputs1 inputs2 lock lockCount =
     rbind (rfold (\<lambda>(i, a) s. rbind (vget lock i) (\<lambda>l. rbind (lock_text h inputs1 (n_name (h a)) l) (\<lambda>t. Inr (s @ t))))
              (zip (map int [0..<length inputs2]) inputs2) (''Input Lock: '' @ endl)) (\<lambda>s.
     rfold (\<lambda>(i, a) s. rbind (vget lockCount i) (\<lambda>k. Inr (s @ n_name (h a) @ '': '' @ to_string k @ endl)))
       (zip (map int [0..<length inputs2]) inputs2) (s @ ''Input LockCount: '' @ endl))"

text \<open>One line of a log: a port with the size of its support and of its bus.\<close>

definition log_port :: "(addr \<Rightarrow> node) \<Rightarrow> addr list list \<Rightarrow> string \<Rightarrow> addr \<Rightarrow> string res" where
  "log_port h buses label a =
     rbind (vget buses (n_bus_idx (h a))) (\<lambda>bus.
     Inr (label @ n_name (h a) @ '', FuncSupp: '' @ to_string (n_supportVal (h a)) @ '', Bus size: '' @ to_string (int (length bus)) @ endl))"

definition log_ports :: "bool \<Rightarrow> (addr \<Rightarrow> node) \<Rightarrow> addr list list \<Rightarrow> string \<Rightarrow> addr list \<Rightarrow> string \<Rightarrow> string res" where
  "log_ports consts h buses label = rfold (\<lambda>a s.
     if consts \<and> n_type (h a) = CONSTANT then Inr (s @ label @ n_name (h a) @ endl)
     else rbind (log_port h buses label a) (\<lambda>t. Inr (s @ t)))"

text \<open>The candidates of the ports \<open>xs\<close> of circuit 2; among those of an input may be the constant.\<close>

definition candidate_log :: "bool \<Rightarrow> match_data \<Rightarrow> (addr \<Rightarrow> node) \<Rightarrow> string \<Rightarrow> addr list \<Rightarrow> addr list list \<Rightarrow> string res" where
  "candidate_log consts S h kind xs cand =
     rfold (\<lambda>x s.
       rbind (log_port h (s_bus2 S) (''c2 '' @ kind @ '' '') x) (\<lambda>t.
       rbind (vget cand (n_idx (h x))) (\<lambda>cs.
       log_ports consts h (s_bus1 S) ('' - c1 '' @ kind @ '' '') cs (s @ t)))) xs ''''"

definition output_candidate_log :: "match_data \<Rightarrow> (addr \<Rightarrow> node) \<Rightarrow> addr list list \<Rightarrow> addr list \<Rightarrow> string res" where
  "output_candidate_log S h cand order = candidate_log False S h ''output'' order cand"

definition input_candidate_log :: "match_data \<Rightarrow> (addr \<Rightarrow> node) \<Rightarrow> addr list list \<Rightarrow> string res" where
  "input_candidate_log S h cand = candidate_log True S h ''input'' (s_input2 S) cand"

text \<open>The logs of \<open>genInfo\<close>: the sorted supports of the outputs of circuit \<open>c\<close>.\<close>

definition info_log :: "string \<Rightarrow> (addr \<Rightarrow> node) \<Rightarrow> addr list list \<Rightarrow> addr list \<Rightarrow> addr list list \<Rightarrow> string res" where
  "info_log c h buses outs supp =
     rfold (\<lambda>out s. rbind (vget supp (n_idx (h out))) (\<lambda>xs.
       log_ports False h buses ('' - '' @ c @ '' support input: '') xs (s @ c @ '' output: '' @ n_name (h out) @ endl))) outs ''''"

end
