(* ===== verification/Flip_Check.thy ===== *)
theory Flip_Check
  imports Ctrl_Netlist Net_Sim Example_Net
begin

text \<open>
  The search for flipped input bits by simulation: \<open>InitToZeroBit\<close>, \<open>CheckMulBit\<close>, \<open>CheckCarry\<close> and \<open>CheckFlip\<close> of
  \<open>Netlist.h\<close>, which \<open>BusConfig\<close> no longer calls, and \<open>RenameVerilog\<close>. The buses that are added are given in the
  iteration order of their hash set, the terms that are multiplied in ascending order. ABC is the parameter \<open>abc\<close>.
  \<open>CheckFlip\<close> ends because the module of every call has a greater bit place, which the parser sets.
\<close>

section \<open>Zero up to a bit\<close>

text \<open>\<open>bus.size()-1 < bit\<close>: the size is unsigned, so an empty bus has no bit that is too high.\<close>

definition too_high :: "addr list \<Rightarrow> int \<Rightarrow> bool" where
  "too_high bus bp \<longleftrightarrow> to_size_t (int (length bus) - 1) < to_size_t bp"

definition low_bits :: "addr list \<Rightarrow> int \<Rightarrow> addr list" where
  "low_bits bus bp =
     (let msb = (if too_high bus bp then 0 else to_int32 (int (length bus) - 1 - bp))
      in if msb < 0 then [] else drop (nat msb) bus)"

definition zero_bus :: "module \<Rightarrow> int \<Rightarrow> int \<Rightarrow> (addr \<Rightarrow> node) \<Rightarrow> (addr \<Rightarrow> node) res" where
  "zero_bus m bp bus_idx h =
     rbind (vget (m_bus_set m) bus_idx) (\<lambda>bus. Inr (fold (\<lambda>x h. snd (AssignFlipValue x ZERO h)) (low_bits bus bp) h))"

definition InitToZeroBit :: "module \<Rightarrow> int \<Rightarrow> int list \<Rightarrow> int list list \<Rightarrow> (addr \<Rightarrow> node) \<Rightarrow> (addr \<Rightarrow> node) res" where
  "InitToZeroBit m bp ADDbus MULbus h =
     rbind (rfold (zero_bus m bp) ADDbus (InitInput m h)) (rfold (zero_bus m bp) (concat MULbus))"

section \<open>One bit of a product\<close>

text \<open>The output is simulated, and the flip of the target is set when both signals differ.\<close>

definition judge :: "nat \<Rightarrow> addr \<Rightarrow> addr \<Rightarrow> (addr \<Rightarrow> node) \<Rightarrow> (addr \<Rightarrow> node) res" where
  "judge n tar out h =
     rbind (OutputValue n out h) (\<lambda>h.
     let h = (if n_isFlip (h out) then upd out (set_signal (to_sig (of_bool (n_signal (h out) = ZERO)))) h else h)
     in Inr (upd tar (n_isFlip_update (\<lambda>_. n_signal (h tar) \<noteq> n_signal (h out))) h))"

definition last_equation :: "module \<Rightarrow> operation res" where
  "last_equation m = (if m_allEquation m = [] then Inl Bad_Index else Inr (last (m_allEquation m)))"

definition set_bit0 :: "module \<Rightarrow> int \<Rightarrow> int \<Rightarrow> (addr \<Rightarrow> node) \<Rightarrow> (addr \<Rightarrow> node) res" where
  "set_bit0 m tar_idx cmp_idx h =
     rbind (vget (m_bus_set m) cmp_idx) (\<lambda>bus. rbind (vget bus (int (length bus) - 1)) (\<lambda>cmp.
     Inr (snd (AssignFlipValue cmp (if cmp_idx = tar_idx then ZERO else ONE) h))))"

definition check_factor :: "nat \<Rightarrow> module \<Rightarrow> int \<Rightarrow> int list \<Rightarrow> int list list \<Rightarrow> int list \<Rightarrow> int \<Rightarrow> (addr \<Rightarrow> node) \<Rightarrow> (addr \<Rightarrow> node) res" where
  "check_factor n m bp ADDbus MULbus term tar_idx h =
     rbind (vget (m_bus_set m) tar_idx) (\<lambda>bus.
     if too_high bus bp then Inr h
     else
       rbind (InitToZeroBit m bp ADDbus MULbus h) (\<lambda>h.
       rbind (vget bus (int (length bus) - 1 - bp)) (\<lambda>tar.
       rbind (rfold (set_bit0 m tar_idx) term h) (\<lambda>h.
       rbind (last_equation m) (\<lambda>p.
       rbind (require (\<not> too_high (o_output p) bp) (Exit ''Get a negative index on an output bus.'')) (\<lambda>_.
       rbind (vget (o_output p) (int (length (o_output p)) - 1 - bp)) (\<lambda>out. judge n tar out h)))))))"

definition CheckMulBit :: "nat \<Rightarrow> module \<Rightarrow> int \<Rightarrow> int list \<Rightarrow> int list list \<Rightarrow> (addr \<Rightarrow> node) \<Rightarrow> (addr \<Rightarrow> node) res" where
  "CheckMulBit n m bp ADDbus MULbus h =
     (if bp = 0 then Inr h
      else rfold (\<lambda>term. rfold (check_factor n m bp ADDbus MULbus term) term) MULbus h)"

section \<open>Inverters in the adder\<close>

text \<open>
  The input \<open>now\<close> below the gate \<open>par\<close>: it is flipped when it is one of the inverted inputs of an AND or a carry. The
  node of the same name in the base module is the one that is marked.
\<close>

definition inverted_at :: "(addr \<Rightarrow> node) \<Rightarrow> addr \<Rightarrow> addr \<Rightarrow> bool res" where
  "inverted_at h now par =
     rbind (vget (n_fi (h par)) 0) (\<lambda>a.
     if a = now then Inr True
     else rbind (vget (n_fi (h par)) 1) (\<lambda>b. Inr (b = now \<and> n_inv (h par) = 2 \<or> n_inv (h par) = 3)))"

definition check_input :: "module \<Rightarrow> int list \<Rightarrow> addr \<Rightarrow> addr option \<Rightarrow> (addr \<Rightarrow> node) \<Rightarrow> (addr \<Rightarrow> node) res" where
  "check_input m ADDbus now par h =
     (case par of
        None \<Rightarrow> Inl Null_Deref
      | Some par \<Rightarrow>
          if n_inv (h par) > 0 \<and> (n_type (h par) = AND \<or> n_type (h par) = FACARRY) then
            (case m_name_to_node m (n_name (h now)) of
               None \<Rightarrow> Inl Null_Deref
             | Some base_now \<Rightarrow>
                 if n_bus_idx (h base_now) \<in> set ADDbus then
                   rbind (inverted_at h now par) (\<lambda>flip.
                   Inr (if flip then upd base_now (n_isFlip_update (\<lambda>_. True)) h else h))
                 else Inr h)
          else Inr h)"

fun CheckCarry :: "nat \<Rightarrow> module \<Rightarrow> int list \<Rightarrow> addr \<Rightarrow> addr option \<Rightarrow> (addr \<Rightarrow> node) \<Rightarrow> (addr \<Rightarrow> node) res" where
  "CheckCarry 0 m ADDbus now par h = Inl Stack_Overflow"
| "CheckCarry (Suc n) m ADDbus now par h =
     (if n_type (h now) = INPUT then check_input m ADDbus now par h
      else rfold (\<lambda>fi. CheckCarry n m ADDbus fi (Some now)) (n_fi (h now)) h)"

section \<open>The bits of one call\<close>

text \<open>The highest bit: the target is the bit of the largest bus that is added.\<close>

definition largest_bus :: "module \<Rightarrow> int list \<Rightarrow> int res" where
  "largest_bus m ADDbus =
     rfold (\<lambda>x b. rbind (vget (m_bus_set m) b) (\<lambda>old. rbind (vget (m_bus_set m) x) (\<lambda>new.
       Inr (if length old < length new then x else b)))) ADDbus (hd ADDbus)"

definition check_last :: "nat \<Rightarrow> module \<Rightarrow> operation \<Rightarrow> int \<Rightarrow> int list \<Rightarrow> int list list \<Rightarrow> (addr \<Rightarrow> node) \<Rightarrow> (addr \<Rightarrow> node) res" where
  "check_last n m p cur ADDbus MULbus h =
     rbind (require (\<not> too_high (o_output p) cur) (Exit ''Get a negative index on an output bus.'')) (\<lambda>_.
     rbind (largest_bus m ADDbus) (\<lambda>bus_idx. rbind (vget (m_bus_set m) bus_idx) (\<lambda>bus.
     if int (length bus) > to_size_t cur then
       rbind (vget (o_output p) (int (length (o_output p)) - 1 - cur)) (\<lambda>out.
       rbind (vget bus (int (length bus) - 1 - cur)) (\<lambda>tar.
       rbind (InitToZeroBit m cur ADDbus MULbus h) (judge n tar out)))
     else Inr h)))"

text \<open>The bits of the buses that are added become control signals with the value 0; the bits are those of the base module.\<close>

definition control_bit :: "module \<Rightarrow> int \<Rightarrow> int \<Rightarrow> addr list \<times> int list \<times> (addr \<Rightarrow> node) \<Rightarrow> (addr list \<times> int list \<times> (addr \<Rightarrow> node)) res" where
  "control_bit m cur bus_idx = (\<lambda>(ctrl, vals, h).
     rbind (vget (m_bus_set m) bus_idx) (\<lambda>bus.
     rbind (require (\<not> too_high bus cur) (Exit ''Ran out of bit length!'')) (\<lambda>_.
     rbind (vget bus (int (length bus) - 1 - cur)) (\<lambda>x.
     let (s, h) = AssignFlipValue x ZERO h in Inr (ctrl @ [x], vals @ [int (sig_val s)], h)))))"

section \<open>The bit place\<close>

text \<open>The parser gives its modules the bit place it is called with.\<close>

definition at_place :: "int \<Rightarrow> parse_state \<Rightarrow> bool" where
  "at_place bp s \<longleftrightarrow> (\<forall>m \<in> set (ps_modules s). m_cur_bit_place m = bp)"

definition keeps_place :: "(net \<Rightarrow> net res) \<Rightarrow> bool" where
  "keeps_place f \<longleftrightarrow> (\<forall>m h m' h'. f (m, h) = Inr (m', h') \<longrightarrow> m_cur_bit_place m' = m_cur_bit_place m)"

lemma on_net_place:
  assumes "keeps_place f" "on_net i f s = Inr s'" "at_place bp s"
  shows "at_place bp s'"
proof -
  obtain m m' h' where m: "vget (ps_modules s) (int i) = Inr m" "f (m, heap (ps_store s)) = Inr (m', h')" "ps_modules s' = (ps_modules s)[i := m']"
    using assms(2) by (auto simp: on_net_def res_simps)
  have "m \<in> set (ps_modules s)" using m(1) by (auto simp: vget_def in_range_def split: if_splits)
  moreover have "m_cur_bit_place m' = m_cur_bit_place m" using assms(1) m(2) unfolding keeps_place_def by blast
  ultimately have "m_cur_bit_place m' = bp" using assms(3) by (auto simp: at_place_def)
  then show ?thesis using assms(3) m(3) set_update_subset_insert [of "ps_modules s" i m'] by (auto simp: at_place_def)
qed

lemma AddNode_place: "keeps_place (\<lambda>mh. Inr (AddNode np mh))"
  by (auto simp: keeps_place_def AddNode_def Let_def split: if_splits)

lemma Connect_place: "keeps_place (Connect gate vs)"
  by (auto simp: keeps_place_def Connect_def Let_def res_simps split: list.splits option.splits)

lemma Simplification_place: "keeps_place Simplification"
  unfolding keeps_place_def
proof (intro allI impI)
  fix m h m' h'
  assume "Simplification (m, h) = Inr (m', h')"
  then obtain h2 where run: "rfold simplify_node (m_netlist m) (m\<lparr>m_netlist := []\<rparr>, h2) = Inr (m', h')"
    by (auto simp: Simplification_def res_simps)
  have "m_cur_bit_place (fst (m', h')) = m_cur_bit_place m"
    by (rule rfold_inv [where P = "\<lambda>mh. m_cur_bit_place (fst mh) = m_cur_bit_place m", OF run])
      (auto simp: simplify_node_def res_simps split: if_splits)
  then show "m_cur_bit_place m' = m_cur_bit_place m" by simp
qed

lemma TraceInputs_place: "keeps_place (TraceInputs k)"
  by (auto simp: keeps_place_def TraceInputs_def res_simps)

lemma new_and_add_place: "new_and_add i name t s = Inr (np, s') \<Longrightarrow> at_place bp s \<Longrightarrow> at_place bp s'"
  by (auto simp: new_and_add_def Let_def res_simps at_place_def split: prod.splits
      dest!: on_net_place [OF AddNode_place, where bp = bp])

lemma declare_name_place: "declare_name i t name s = Inr (b, s') \<Longrightarrow> at_place bp s \<Longrightarrow> at_place bp s'"
  by (auto simp: declare_name_def count_wire_def res_simps at_place_def split: if_splits dest!: new_and_add_place [where bp = bp])

lemma declare_item_place: "declare_item i t n m item s = Inr s' \<Longrightarrow> at_place bp s \<Longrightarrow> at_place bp s'"
  by (auto simp: declare_item_def Let_def res_simps split: if_splits prod.splits
      elim: declare_name_place search_keeps [where I = "at_place bp"])

lemma declare_items_place: "declare_items i t n m item ss s = Inr s' \<Longrightarrow> at_place bp s \<Longrightarrow> at_place bp s'"
proof (induction i t n m item ss s rule: declare_items.induct)
  case (1 i t n m item ss s)
  obtain ok item' ss' where g: "getline CHR '','' item ss = (ok, item', ss')" by (metis prod_cases3)
  obtain s1 where s1: "declare_item i t n m item s = Inr s1" "(if ok then declare_items i t n m item' ss' s1 else Inr s1) = Inr s'"
    using 1(2) by (auto simp: declare_items.simps [of i t n m item ss s] res_simps g)
  have "at_place bp s1" by (rule declare_item_place [OF s1(1) 1(3)])
  then show ?case using 1(1) [OF s1(1) g [symmetric] refl] s1(2) by (cases ok) auto
qed

lemma parse_gate_place: "parse_gate i op ss s = Inr s' \<Longrightarrow> at_place bp s \<Longrightarrow> at_place bp s'"
  by (auto simp: parse_gate_def add_gate_def Let_def res_simps split: prod.splits if_splits
      intro: on_net_place [OF Connect_place] dest!: new_and_add_place [where bp = bp]) (auto simp: at_place_def)

lemma new_module_place: "new_module name i bp st = (m, st') \<Longrightarrow> m_cur_bit_place m = bp"
  by (auto simp: new_module_def Let_def split: prod.splits)

lemma parse_declaration_place: "parse_declaration i op ss s = Inr s' \<Longrightarrow> at_place bp s \<Longrightarrow> at_place bp s'"
  by (cases "getline CHR '','' op ss") (auto simp: parse_declaration_def res_simps intro: declare_items_place)

lemma parse_statement_place:
  assumes "parse_statement i bp line s = Inr (fin, s')" "at_place bp s"
  shows "at_place bp s'"
proof -
  obtain op ss where next_item: "next_item (stream_of line) = Inr (op, ss)"
    using assms(1) unfolding parse_statement_def by (auto simp: res_simps)
  note run = assms(1) [unfolded parse_statement_def next_item rbind_Inr prod.case]
  show ?thesis
  proof (cases "op = ''module''")
    case True
    obtain ok name ss1 where g: "getline CHR ''('' op ss = (ok, name, ss1)" by (metis prod_cases3)
    obtain m st where m: "new_module name (int i) bp (ps_store s) = (m, st)" by fastforce
    have "s' = s\<lparr>ps_modules := ps_modules s @ [m], ps_store := st\<rparr>" using run by (simp only: if_P [OF True] g prod.case m Let_def) simp
    then show ?thesis using assms(2) new_module_place [OF m] by (auto simp: at_place_def)
  next
    case other: False
    show ?thesis
    proof (cases "op = ''wire'' \<or> op = ''input'' \<or> op = ''output''")
      case True
      have "parse_declaration i op ss s = Inr s'" using run by (simp only: if_not_P [OF other] if_P [OF True]) (simp add: res_simps)
      then show ?thesis using assms(2) by (rule parse_declaration_place)
    next
      case decl: False
      show ?thesis
      proof (cases "op = ''endmodule''")
        case True
        have "on_net i Simplification s = Inr s'"
          using run by (simp only: if_not_P [OF other] if_not_P [OF decl] if_P [OF True]) (simp add: res_simps)
        then show ?thesis using assms(2) by (rule on_net_place [OF Simplification_place])
      next
        case False
        have "parse_gate i op ss s = Inr s'"
          using run by (simp only: if_not_P [OF other] if_not_P [OF decl] if_not_P [OF False]) (simp add: res_simps)
        then show ?thesis using assms(2) by (rule parse_gate_place)
      qed
    qed
  qed
qed

lemma parse_loop_place: "parse_loop i bp line ifs s = Inr s' \<Longrightarrow> at_place bp s \<Longrightarrow> at_place bp s'"
proof (induction i bp line ifs s rule: parse_loop.induct)
  case (1 i bp line ifs s)
  obtain ok line1 ifs1 where g: "getline newline line ifs = (ok, line1, ifs1)" by (metis prod_cases3)
  show ?case
  proof (cases ok)
    case False
    then show ?thesis using 1 by (simp add: parse_loop.simps [of i bp line] g)
  next
    case True
    then obtain line2 ifs2 fin s1 where r: "MakeLine line1 ifs1 = Inr (line2, ifs2)" "parse_statement i bp line2 s = Inr (fin, s1)"
      "(if fin then Inr s1 else parse_loop i bp line2 ifs2 s1) = Inr s'"
      using 1(2) by (auto simp: parse_loop.simps [of i bp line] g res_simps)
    have "at_place bp s1" by (rule parse_statement_place [OF r(2) 1(3)])
    then show ?thesis using 1(1) [OF g [symmetric] refl _ r(1) refl r(2) refl] r(3) True by (cases fin) auto
  qed
qed

lemma Parser_place: "Parser k text i bp [] st = Inr (w, ms, st') \<Longrightarrow> vget ms j = Inr m \<Longrightarrow> m_cur_bit_place m = bp"
proof -
  assume p: "Parser k text i bp [] st = Inr (w, ms, st')" and m: "vget ms j = Inr m"
  let ?s0 = "\<lparr>ps_modules = [], ps_store = st, ps_gate_index = 0, ps_wires = 0\<rparr>"
  obtain s1 s2 where r: "parse_loop i bp '''' (stream_of text) ?s0 = Inr s1" "on_net i (TraceInputs k) s1 = Inr s2" "ms = ps_modules s2"
    using p by (auto simp: Parser_def res_simps)
  have "at_place bp ?s0" by (simp add: at_place_def)
  from on_net_place [OF TraceInputs_place r(2) parse_loop_place [OF r(1) this]]
  show ?thesis using m r(3) by (auto simp: at_place_def vget_def in_range_def split: if_splits)
qed

section \<open>\<open>CheckFlip\<close>\<close>

text \<open>
  \<open>base\<close> is the module whose bits are judged, \<open>m\<close> the remapped one of this call (the first call has both the same),
  \<open>text\<close> the file it was mapped from. Every call
  raises the bit place, so it ends.
\<close>

function CheckFlip :: "(string \<Rightarrow> string) \<Rightarrow> nat \<Rightarrow> nat \<Rightarrow> module \<Rightarrow> module \<Rightarrow> string \<Rightarrow> int list \<Rightarrow> int list list \<Rightarrow> store \<Rightarrow> (module \<times> store) res" where
  "CheckFlip abc n r base m text ADDbus MULbus st =
     rbind (last_equation base) (\<lambda>p.
     let cur = m_cur_bit_place m; offset = to_int32 (int (length (o_output p)) - 1)
     in if cur \<ge> offset then
          rbind (if ADDbus \<noteq> [] then check_last n base p cur ADDbus MULbus (heap st) else Inr (heap st)) (\<lambda>h.
          rbind (if MULbus \<noteq> [] then CheckMulBit n base cur ADDbus MULbus h else Inr h) (\<lambda>h. Inr (m, st\<lparr>heap := h\<rparr>)))
        else
          rbind (vget (o_output p) (offset - cur - 1)) (\<lambda>next.
          rbind (if ADDbus = [] then Inr (heap st)
                 else (case m_name_to_node m (n_name (heap st next)) of
                         None \<Rightarrow> Inl Null_Deref
                       | Some x \<Rightarrow> CheckCarry n base ADDbus x None (heap st))) (\<lambda>h.
          rbind (if MULbus \<noteq> [] then CheckMulBit n base cur ADDbus MULbus h else Inr h) (\<lambda>h.
          rbind (rfold (control_bit base cur) ADDbus (m_ctrl_signal m, [], h)) (\<lambda>(ctrl, vals, h).
          if ADDbus = [] then CheckFlip abc n r base (m\<lparr>m_cur_bit_place := cur + 1\<rparr>) text ADDbus MULbus (st\<lparr>heap := h\<rparr>)
          else if length vals < length ctrl then Inl Bad_Index
          else
            rbind (ctrl_lines r (zip (map (\<lambda>a. n_name (h a)) ctrl) vals) '''' (stream_of text)) (\<lambda>out.
            rbind (Parser n (abc out) 0 (cur + 1) [] (st\<lparr>heap := h\<rparr>)) (\<lambda>(wires, test, st).
            rbind (vget test 0) (\<lambda>t.
            rbind (CheckFlip abc n r base t out ADDbus MULbus st) (\<lambda>(_, st). Inr (m\<lparr>m_ctrl_signal := ctrl\<rparr>, st))))))))))"
  by pat_completeness auto
termination
  by (relation "measure (\<lambda>(abc, n, r, base, m, text, ADDbus, MULbus, st).
      nat (to_int32 (int (length (o_output (last (m_allEquation base)))) - 1) - m_cur_bit_place m))")
    (auto simp: last_equation_def split: if_splits dest!: Parser_place)

declare CheckFlip.simps [simp del]


section \<open>\<open>RenameVerilog\<close>\<close>

text \<open>
  Every bit of a bus is renamed to its port and index, unless a letter or digit follows, an index follows or it is part of
  a constant. The search goes on behind the first character of the new name; \<open>n\<close> is the fuel for the occurrences.
\<close>

definition port_name :: "node \<Rightarrow> string" where
  "port_name x =
     (if n_type x = INPUT then ''in'' else ''out'') @ to_string (n_bus_idx x) @
     (if n_bit_idx x = -1 then '''' else ''['' @ to_string (n_bit_idx x) @ '']'')"

definition rename_at :: "node \<Rightarrow> nat \<Rightarrow> string \<Rightarrow> string res" where
  "rename_at x found line =
     (let pos = found + length (n_name x) in
     rbind (char_at line pos) (\<lambda>c.
     if is_alnum c then Inr line
     else if pos < 3 then Inl Bad_Index
     else if line ! (pos - 3) = CHR 0x27 \<or> c = CHR ''['' then Inr line
     else Inr (take found line @ port_name x @ drop pos line)))"

fun rename_all :: "nat \<Rightarrow> node \<Rightarrow> nat \<Rightarrow> string \<Rightarrow> string res" where
  "rename_all 0 x start line = Inl Hang"
| "rename_all (Suc n) x start line =
     (case find_from (n_name x) line start of
        None \<Rightarrow> Inr line
      | Some found \<Rightarrow> rbind (rename_at x found line) (rename_all n x (Suc found)))"

function rename_lines :: "nat \<Rightarrow> node list \<Rightarrow> string \<Rightarrow> stream \<Rightarrow> string res" where
  "rename_lines n xs line ifs =
     (case getline newline line ifs of
        (ok, line, ifs1) \<Rightarrow>
          if \<not> ok then Inr ''''
          else rbind (rfold (\<lambda>x. rename_all n x 0) xs line) (\<lambda>out. rbind (rename_lines n xs line ifs1) (\<lambda>s. Inr (out @ endl @ s))))"
  by pat_completeness auto
termination
  by (relation "measure (\<lambda>(n, xs, line, ifs). length (rest ifs))") (auto dest!: getline_ok_shorter [OF sym])

declare rename_lines.simps [simp del]

definition RenameVerilog :: "nat \<Rightarrow> module \<Rightarrow> (addr \<Rightarrow> node) \<Rightarrow> string \<Rightarrow> (module \<times> string) res" where
  "RenameVerilog n m h text =
     (let m = m\<lparr>m_ctrl_signal := concat (m_bus_set m)\<rparr>
      in rbind (rename_lines n (map h (m_ctrl_signal m)) '''' (stream_of text)) (\<lambda>out. Inr (m, out)))"

section \<open>The flip that is found\<close>

text \<open>C38: \<open>judge\<close> decides the flip of an input. On a well-formed netlist driven by an assignment it returns, and the
  input is marked as flipped exactly when its value differs from the function of the output, taken with the flip of the
  output; no other flip changes.\<close>

theorem judge_exact:
  assumes wf: "net_wf h0 A r" and out: "out \<in> A" "r out < n" "n_type (h0 out) \<noteq> INPUT" and tar: "tar \<in> A" "n_type (h0 tar) = INPUT"
    and sig: "signals_ok h0 \<sigma> A h"
  shows "\<exists>h' b v. judge n tar out h = Inr h' \<and> evals h0 \<sigma> out b \<and> evals h0 \<sigma> tar v \<and>
    n_isFlip (h' tar) = (v \<noteq> (b \<noteq> n_isFlip (h0 out))) \<and> (\<forall>x. x \<noteq> tar \<longrightarrow> n_isFlip (h' x) = n_isFlip (h0 x))"
proof -
  obtain h1 b where run: "OutputValue n out h = Inr h1" "evals h0 \<sigma> out b" "n_signal (h1 out) = bool_sig b" and ok: "signals_ok h0 \<sigma> A h1"
    using OutputValue_correct_aux [OF wf out(1,2) sig] by (auto simp: ov_post_def)
  have same: "n_isFlip (h1 x) = n_isFlip (h0 x)" for x
    using ok by (cases "h1 x"; cases "h0 x") (auto simp: signals_ok_def same_but_signal_def set_signal_def dest: spec [of _ x])
  obtain v where v: "evals h0 \<sigma> tar v" "n_signal (h1 tar) = bool_sig v" using ok tar by (auto simp: signals_ok_def)
  have ne: "tar \<noteq> out" using out(3) tar(2) by auto
  show ?thesis
    by (intro exI conjI, simp add: judge_def run(1) Let_def, rule run(2), rule v(1))
      (use run(3) v(2) ne same in \<open>auto simp: upd_apply set_signal_def bool_sig_def to_sig_def\<close>)
qed

theorem judge_exact_witness:
  "\<exists>h' b v. judge 8 0 3 ex_driven = Inr h' \<and> evals ex_heap ex_asg 3 b \<and> evals ex_heap ex_asg 0 v \<and>
    n_isFlip (h' 0) = (v \<noteq> (b \<noteq> n_isFlip (ex_heap 3))) \<and> (\<forall>x. x \<noteq> 0 \<longrightarrow> n_isFlip (h' x) = n_isFlip (ex_heap x))"
  by (rule judge_exact [OF ex_net_wf _ _ _ _ _ ex_signals_ok]) (simp_all add: ex_nodes_def)

end
