(* ===== verification/Eq_Match.thy ===== *)
theory Eq_Match
  imports Match_Init "HOL-Library.Multiset"
begin

text \<open>
  \<open>setBusMatch\<close> and \<open>setEQMatch\<close> of class \<open>Match\<close>: the matching of ports by equations and, for benchmark 9, by a table of
  buses. The console output is modelled as far as it reads vectors. Every bit of a bus of circuit 2 gets one partner or
  one constant.
\<close>

section \<open>\<open>setBusMatch\<close>\<close>

text \<open>The matched inputs and the inputs that are set to constants.\<close>

type_synonym bus_pairs = "int list list \<times> (bool \<times> int) list"

text \<open>One bit goes to the given port of circuit 1, or to a constant.\<close>

definition to_port :: "(addr \<Rightarrow> node) \<Rightarrow> addr list \<Rightarrow> int \<Rightarrow> addr \<Rightarrow> bus_pairs \<Rightarrow> bus_pairs res" where
  "to_port h bus1 j x = (\<lambda>(ip, cm).
     rbind (vget bus1 j) (\<lambda>a. rbind (vpush ip (n_idx (h a)) (n_idx (h x))) (\<lambda>ip. Inr (ip, cm))))"

definition to_const :: "(addr \<Rightarrow> node) \<Rightarrow> bool \<Rightarrow> addr \<Rightarrow> bus_pairs \<Rightarrow> bus_pairs res" where
  "to_const h b x = (\<lambda>(ip, cm). Inr (ip, cm @ [(b, n_idx (h x))]))"

text \<open>The bits of bus 9: bit 4 is zero, all others go to the second bit.\<close>

definition bit_of_9 :: "(addr \<Rightarrow> node) \<Rightarrow> addr list \<Rightarrow> addr \<Rightarrow> bus_pairs \<Rightarrow> bus_pairs res" where
  "bit_of_9 h bus1 x = (if n_bit_idx (h x) = 4 then to_const h False x else to_port h bus1 1 x)"

text \<open>
  Buses 44 and 13: the bits that pass the test \<open>P\<close> of their place go to the bits of bus 1 in order, the others to
  bit \<open>d\<close>.
\<close>

definition bit_in_turn :: "(addr \<Rightarrow> node) \<Rightarrow> (int \<Rightarrow> bool) \<Rightarrow> int \<Rightarrow> addr list \<Rightarrow> addr \<Rightarrow> nat \<times> bus_pairs \<Rightarrow> (nat \<times> bus_pairs) res" where
  "bit_in_turn h P d bus1 x = (\<lambda>(j, ps).
     if P (n_bit_idx (h x)) then rbind (to_port h bus1 (int j) x ps) (\<lambda>ps. Inr (Suc j, ps))
     else rbind (to_port h bus1 d x ps) (\<lambda>ps. Inr (j, ps)))"

text \<open>Other buses: bit by bit, with the constant 0 for a bit above the present one of bus 1 and 1 behind its end.\<close>

definition bit_by_place :: "(addr \<Rightarrow> node) \<Rightarrow> addr list \<Rightarrow> addr \<Rightarrow> nat \<times> bus_pairs \<Rightarrow> (nat \<times> bus_pairs) res" where
  "bit_by_place h bus1 x = (\<lambda>(j, ps).
     if j \<ge> length bus1 then rbind (to_const h True x ps) (\<lambda>ps. Inr (j, ps))
     else if n_bit_idx (h (bus1 ! j)) < n_bit_idx (h x) then rbind (to_const h False x ps) (\<lambda>ps. Inr (j, ps))
     else rbind (require (in_range (fst ps) (n_idx (h (bus1 ! j)))) (Exit ''Wrong input index!'')) (\<lambda>_.
          rbind (to_port h bus1 (int j) x ps) (\<lambda>ps. Inr (Suc j, ps))))"

definition setBusMatch :: "(addr \<Rightarrow> node) \<Rightarrow> module \<Rightarrow> module \<Rightarrow> int \<Rightarrow> int \<Rightarrow> bus_pairs \<Rightarrow> bus_pairs res" where
  "setBusMatch h m1 m2 bus_idx1 bus_idx2 ps =
     rbind (vget (m_bus_set m2) bus_idx2) (\<lambda>bus2. rbind (vget (m_bus_set m1) bus_idx1) (\<lambda>bus1.
     if length bus2 < length bus1 then Inl (Exit ''Different bus size!'')
     else if bus_idx1 = 9 \<and> length bus1 = 2 then
       rbind (vget bus2 0) (\<lambda>x. rbind (to_port h bus1 0 x ps) (rfold (bit_of_9 h bus1) (drop 1 bus2)))
     else if bus_idx1 = 44 \<and> length bus1 = 5 then
       rbind (rfold (bit_in_turn h (\<lambda>b. b < 5) 0 bus1) bus2 (0, ps)) (\<lambda>(j, ps). Inr ps)
     else if bus_idx1 = 13 \<and> length bus1 = 7 then
       rbind (rfold (bit_in_turn h (\<lambda>b. b \<noteq> 6) 1 bus1) bus2 (0, ps)) (\<lambda>(j, ps). Inr ps)
     else rbind (rfold (bit_by_place h bus1) bus2 (0, ps)) (\<lambda>(j, ps). Inr ps)))"

section \<open>\<open>setEQMatch\<close>\<close>

text \<open>The bits of a pair of buses that an equation pairs.\<close>

definition pair_bit :: "(addr \<Rightarrow> node) \<Rightarrow> addr list \<Rightarrow> addr list \<Rightarrow> nat \<Rightarrow> int list list \<Rightarrow> int list list res" where
  "pair_bit h bus1 bus2 l ip =
     rbind (require (l < length bus2) (Exit ''Different bus size!'')) (\<lambda>_.
     let c1 = n_idx (h (bus1 ! l)); c2 = n_idx (h (bus2 ! l))
     in rbind (require (in_range ip c1) (Exit ''Wrong input index!'')) (\<lambda>_. vpush ip c1 c2))"

text \<open>A bus of a term: the report reads the last bits and the signatures of both buses.\<close>

definition pair_buses :: "(addr \<Rightarrow> node) \<Rightarrow> module \<Rightarrow> module \<Rightarrow> trm \<Rightarrow> trm \<Rightarrow> nat \<Rightarrow> int list list \<Rightarrow> int list list res" where
  "pair_buses h m1 m2 s t k ip =
     rbind (require (k < length (t_member t)) (Exit ''No corresponding term of the real input in module 1.'')) (\<lambda>_.
     let b1 = t_member s ! k; b2 = t_member t ! k
     in rbind (require (in_range (m_bus_set m1) b1) (Exit ''Wrong bus index'')) (\<lambda>_.
        rbind (require (in_range (m_bus_set m2) b2) (Exit ''Wrong bus index'')) (\<lambda>_.
        rbind (vget (m_bus_set m1) b1) (\<lambda>bus1. rbind (vget (m_bus_set m2) b2) (\<lambda>bus2.
        rbind (vget (m_bus_signature m1) b1) (\<lambda>_. rbind (vget (m_bus_signature m2) b2) (\<lambda>_.
        if bus1 = [] \<or> bus2 = [] then Inl Bad_Index
        else rfold (pair_bit h bus1 bus2) [0..<length bus1] ip)))))))"

definition pair_eq_term :: "(addr \<Rightarrow> node) \<Rightarrow> module \<Rightarrow> module \<Rightarrow> operation \<Rightarrow> operation \<Rightarrow> nat \<Rightarrow> int list list \<Rightarrow> int list list res" where
  "pair_eq_term h m1 m2 p q j ip =
     rbind (require (j < length (o_real_input q)) (Exit ''No corresponding real input in module 1.'')) (\<lambda>_.
     let s = o_real_input p ! j; t = o_real_input q ! j
     in rfold (pair_buses h m1 m2 s t) [0..<length (t_member s)] ip)"

definition pair_equation :: "int \<Rightarrow> (addr \<Rightarrow> node) \<Rightarrow> module \<Rightarrow> module \<Rightarrow> nat \<Rightarrow> int list list \<times> int list list \<Rightarrow> (int list list \<times> int list list) res" where
  "pair_equation caseID h m1 m2 i = (\<lambda>(mp, ip).
     let p = m_allEquation m1 ! i in
     rbind (vget (m_allEquation m2) (int i)) (\<lambda>q.
     rbind (rfold (pair_outputs h p q) [0..<length (o_output p)] mp) (\<lambda>mp.
     rbind (vget (o_output p) 0) (\<lambda>_. rbind (vget (o_output q) 0) (\<lambda>_.
     rbind (if caseID \<noteq> 9 then rfold (pair_eq_term h m1 m2 p q) [0..<length (o_real_input p)] ip else Inr ip) (\<lambda>ip.
     Inr (mp, ip)))))))"

definition bus1_table :: "int list" where
  "bus1_table = [27, 34, 41, 42, 2, 19, 35, 44, 0, 10, 37, 40, 36, 22, 39, 12, 21, 1, 46, 11, 15, 24, 45, 9, 13, 32, 33, 17, 6, 29, 14, 30]"

definition bus2_table :: "int list" where
  "bus2_table = [21, 24, 27, 36, 29, 40, 2, 30, 0, 46, 25, 41, 34, 15, 11, 12, 31, 26, 8, 44, 16, 35, 10, 38, 4, 43, 9, 32, 3, 39, 23, 14]"

definition setEQMatch :: "int \<Rightarrow> init_state \<Rightarrow> init_state res" where
  "setEQMatch caseID s =
     (let m1 = i_mod1 s; m2 = i_mod2 s; h = i_heap s;
          mp = resize (length (m_gate m1 OUTPUT)) [] (i_match_pair s); one = resize (length (m_gate m2 OUTPUT)) False (i_output_ne s);
          ip = resize (length (m_gate m1 INPUT)) [] (i_in_match_pair s); ine = resize (length (m_gate m2 INPUT)) False (i_input_ne s)
      in rbind (rfold (pair_equation caseID h m1 m2) [0..<length (m_allEquation m1)] (mp, ip)) (\<lambda>(mp, ip).
         rbind (if caseID = 9
                then rfold (\<lambda>(b1, b2). setBusMatch h m1 m2 b1 b2) (zip bus1_table bus2_table) (ip, i_const_match s)
                else Inr (ip, i_const_match s)) (\<lambda>(ip, cm).
         let mp = map Unique mp; ip = map Unique ip in
         rbind (set_negs h (m_gate m1 OUTPUT) (m_gate m2 OUTPUT) mp one) (\<lambda>one.
         rbind (set_negs h (m_gate m1 INPUT) (m_gate m2 INPUT) ip ine) (\<lambda>ine.
         Inr (s\<lparr>i_match_pair := mp, i_output_ne := one, i_in_match_pair := ip, i_input_ne := ine, i_const_match := cm\<rparr>))))))"

section \<open>Every bit has one partner\<close>

text \<open>The ports of circuit 2 that are matched or set to a constant, with their number.\<close>

definition partners2 :: "bus_pairs \<Rightarrow> int multiset" where
  "partners2 = (\<lambda>(ip, cm). mset (concat ip) + mset (map snd cm))"

lemma mset_vpush: "vpush xss i x = Inr yss \<Longrightarrow> mset (concat yss) = add_mset x (mset (concat xss)) \<and> length yss = length xss"
proof (unfold vpush_def, elim rbindE)
  fix xs
  assume g: "vget xss i = Inr xs" and s: "vset xss i (xs @ [x]) = Inr yss"
  then obtain as bs where "xss = as @ xs # bs" "nat i = length as"
    by (auto simp: vget_def in_range_def split: if_splits) (metis id_take_nth_drop length_take min.absorb4 nat_less_iff)
  then show ?thesis using s by (auto simp: vset_def list_update_append split: if_splits)
qed

definition gains :: "(addr \<Rightarrow> node) \<Rightarrow> addr \<Rightarrow> bus_pairs \<Rightarrow> bus_pairs \<Rightarrow> bool" where
  "gains h x ps ps' \<longleftrightarrow> partners2 ps' = add_mset (n_idx (h x)) (partners2 ps) \<and> length (fst ps') = length (fst ps)"

lemma to_port_gains: "to_port h bus1 j x ps = Inr ps' \<Longrightarrow> gains h x ps ps'"
  by (auto simp: to_port_def gains_def partners2_def res_simps split: prod.splits dest!: mset_vpush)

lemma to_const_gains: "to_const h b x ps = Inr ps' \<Longrightarrow> gains h x ps ps'"
  by (auto simp: to_const_def gains_def partners2_def split: prod.splits)

lemmas gains_intros = to_port_gains to_const_gains

lemma bits_gain:
  assumes "rfold f xs s = Inr t" "\<And>x u v. f x u = Inr v \<Longrightarrow> gains h x (g u) (g v)"
  shows "partners2 (g t) = image_mset (\<lambda>x. n_idx (h x)) (mset xs) + partners2 (g s) \<and> length (fst (g t)) = length (fst (g s))"
  using assms(1)
proof (induction xs arbitrary: s)
  case (Cons x xs)
  then obtain u where "f x s = Inr u" "rfold f xs u = Inr t" by (auto simp: res_simps)
  then show ?case using Cons.IH assms(2) [of x s u] by (auto simp: gains_def)
qed simp

lemma bit_of_9_gains: "bit_of_9 h bus1 x u = Inr v \<Longrightarrow> gains h x u v"
  by (auto simp: bit_of_9_def intro: gains_intros split: if_splits)

lemma bit_in_turn_gains: "bit_in_turn h P d bus1 x u = Inr v \<Longrightarrow> gains h x (snd u) (snd v)"
  by (auto simp: bit_in_turn_def res_simps intro: gains_intros split: if_splits prod.splits)

lemma bit_by_place_gains: "bit_by_place h bus1 x u = Inr v \<Longrightarrow> gains h x (snd u) (snd v)"
  by (auto simp: bit_by_place_def res_simps intro: gains_intros split: if_splits prod.splits)

lemma rfold_returns:
  assumes "I s" "\<And>x u. x \<in> set xs \<Longrightarrow> I u \<Longrightarrow> \<exists>v. f x u = Inr v \<and> I v"
  shows "\<exists>t. rfold f xs s = Inr t"
  using rfold_total [of I s xs f] assms by blast

lemma to_port_returns:
  assumes "in_range bus1 j" "\<forall>a \<in> set bus1. in_range (fst ps) (n_idx (h a))"
  shows "\<exists>ps'. to_port h bus1 j x ps = Inr ps' \<and> length (fst ps') = length (fst ps)"
proof -
  have "bus1 ! nat j \<in> set bus1" using assms(1) by (rule nth_in_range)
  then have "in_range (fst ps) (n_idx (h (bus1 ! nat j)))" using assms(2) by blast
  then show ?thesis using assms(1) by (cases ps) (auto simp: to_port_def vpush_def vget_def vset_def)
qed

lemma in_range_length: "length xs = length ys \<Longrightarrow> in_range xs i = in_range ys i"
  by (simp add: in_range_def)

lemma setBusMatch_gains:
  assumes "vget (m_bus_set m2) b2 = Inr bus2" "vget (m_bus_set m1) b1 = Inr bus1" and run: "setBusMatch h m1 m2 b1 b2 ps = Inr ps'"
  shows "partners2 ps' = image_mset (\<lambda>x. n_idx (h x)) (mset bus2) + partners2 ps \<and> length (fst ps') = length (fst ps)"
proof (cases "b1 = 9 \<and> length bus1 = 2")
  case True
  then obtain x u where x: "bus2 = x # drop 1 bus2" "to_port h bus1 0 x ps = Inr u" "rfold (bit_of_9 h bus1) (drop 1 bus2) u = Inr ps'"
    using run assms by (cases bus2) (auto simp: setBusMatch_def res_simps vget_def in_range_def split: if_splits)
  have "gains h x ps u" by (rule to_port_gains [OF x(2)])
  moreover have "mset bus2 = add_mset x (mset (drop 1 bus2))" using x(1) by (metis mset.simps(2))
  ultimately show ?thesis using bits_gain [OF x(3), where g = "\<lambda>u. u" and h = h] bit_of_9_gains by (simp add: gains_def)
next
  case False
  then obtain f j where "f = bit_in_turn h (\<lambda>b. b < 5) 0 bus1 \<or> f = bit_in_turn h (\<lambda>b. b \<noteq> 6) 1 bus1 \<or> f = bit_by_place h bus1"
    and r: "rfold f bus2 (0, ps) = Inr (j, ps')"
    using run assms by (auto simp: setBusMatch_def res_simps split: if_splits)
  then have "f x u = Inr v \<Longrightarrow> gains h x (snd u) (snd v)" for x u v
    using bit_in_turn_gains bit_by_place_gains by metis
  from bits_gain [OF r, where g = snd and h = h, OF this] show ?thesis by simp
qed

lemma setBusMatch_returns:
  assumes "vget (m_bus_set m2) b2 = Inr bus2" "vget (m_bus_set m1) b1 = Inr bus1"
    and len: "length bus1 \<le> length bus2" and b: "b1 \<notin> {13, 44}" and ports: "\<forall>a \<in> set bus1. in_range (fst ps) (n_idx (h a))"
  shows "\<exists>ps'. setBusMatch h m1 m2 b1 b2 ps = Inr ps'"
proof -
  let ?I = "\<lambda>ps'. length (fst ps') = length (fst ps)"
  have port: "\<exists>v. to_port h bus1 j x u = Inr v \<and> ?I v" if "?I u" "in_range bus1 j" for j x u
    using to_port_returns [OF that(2), of u h x] ports that(1) in_range_length [of "fst u" "fst ps"] by metis
  show "\<exists>ps'. setBusMatch h m1 m2 b1 b2 ps = Inr ps'"
  proof (cases "b1 = 9 \<and> length bus1 = 2")
    case True
    then obtain x xs where x: "bus2 = x # xs" using len by (cases bus2) auto
    have r: "in_range bus1 0" "in_range bus1 1" using True by (auto simp: in_range_def)
    obtain u where u: "to_port h bus1 0 x ps = Inr u" "?I u" using port [of ps 0 x] r by auto
    have "\<exists>v. bit_of_9 h bus1 y w = Inr v \<and> ?I v" if "?I w" for y w
      using port [OF that r(2), of y] that by (cases w) (auto simp: bit_of_9_def to_const_def)
    then obtain t where "rfold (bit_of_9 h bus1) xs u = Inr t" using rfold_returns [of ?I u xs] u(2) by blast
    then show ?thesis using assms True len u by (auto simp: setBusMatch_def x vget_def in_range_def split: if_splits)
  next
    case False
    have step: "\<exists>v. bit_by_place h bus1 y w = Inr v \<and> ?I (snd v)" if iw: "?I (snd w)" for y w
    proof (cases "fst w \<ge> length bus1")
      case True
      then show ?thesis using iw by (cases w) (auto simp: bit_by_place_def to_const_def split: prod.splits)
    next
      case small: False
      then have "in_range bus1 (int (fst w))" by (simp add: in_range_def)
      then obtain v where v: "to_port h bus1 (int (fst w)) y (snd w) = Inr v" "?I v" using port iw by blast
      have "bus1 ! fst w \<in> set bus1" using small by simp
      then have "in_range (fst (snd w)) (n_idx (h (bus1 ! fst w)))" using ports in_range_length [OF iw] by blast
      then show ?thesis using v small iw by (cases w; cases v) (auto simp: bit_by_place_def to_const_def require_def split: prod.splits)
    qed
    have "\<exists>t. rfold (bit_by_place h bus1) bus2 (0, ps) = Inr t"
      by (rule rfold_returns [where I = "\<lambda>u. ?I (snd u)"]) (simp, rule step)
    then obtain t where "rfold (bit_by_place h bus1) bus2 (0, ps) = Inr t" ..
    then show ?thesis using assms len b False by (cases t) (auto simp: setBusMatch_def)
  qed
qed

section \<open>Property\<close>

text \<open>C39: \<open>setBusMatch\<close> gives every bit one partner. Whenever it returns, it has added each bit of the bus of circuit 2
  exactly once, to the inputs matched to a bit of circuit 1 or to the constants, and nothing else; with ports in range it
  returns for every pair of buses of which that of circuit 1 is not the longer one, the two buses of benchmark 9 with a
  bit order of their own (13 and 44) excepted.\<close>

theorem setBusMatch_each_bit:
  assumes "vget (m_bus_set m2) b2 = Inr bus2" "vget (m_bus_set m1) b1 = Inr bus1"
  shows "(\<forall>ps'. setBusMatch h m1 m2 b1 b2 ps = Inr ps' \<longrightarrow>
        partners2 ps' = image_mset (\<lambda>x. n_idx (h x)) (mset bus2) + partners2 ps \<and> length (fst ps') = length (fst ps)) \<and>
     (length bus1 \<le> length bus2 \<longrightarrow> b1 \<notin> {13, 44} \<longrightarrow> (\<forall>a \<in> set bus1. in_range (fst ps) (n_idx (h a))) \<longrightarrow>
        (\<exists>ps'. setBusMatch h m1 m2 b1 b2 ps = Inr ps'))"
  using setBusMatch_gains [OF assms] setBusMatch_returns [OF assms] by blast

text \<open>The bits 2, 1, 0 of a bus against the bits 1, 0: the highest one becomes the constant 0.\<close>

definition eq_heap :: "addr \<Rightarrow> node" where
  "eq_heap a = (mk_node a ''x'' INPUT)\<lparr>n_idx := [0, 1, 0, 1, 2] ! a, n_bit_idx := [1, 0, 2, 1, 0] ! a\<rparr>"

definition eq_module :: "addr list \<Rightarrow> module" where
  "eq_module bus = (fst (new_module ''top'' 0 0 \<lparr>heap = eq_heap, next_addr = 5\<rparr>))\<lparr>m_bus_set := [bus]\<rparr>"

lemma eq_module_bus [simp]: "m_bus_set (eq_module bus) = [bus]"
  by (simp add: eq_module_def)

theorem setBusMatch_each_bit_witness:
  "\<exists>ps'. setBusMatch eq_heap (eq_module [0, 1]) (eq_module [2, 3, 4]) 0 0 ([[], []], []) = Inr ps' \<and> partners2 ps' = {#0, 1, 2#} \<and>
     ps' = ([[1], [2]], [(False, 0)])"
proof -
  have v: "vget (m_bus_set (eq_module bus)) 0 = Inr bus" for bus by (simp add: vget_def in_range_def)
  have run: "setBusMatch eq_heap (eq_module [0, 1]) (eq_module [2, 3, 4]) 0 0 ([[], []], []) = Inr ([[1], [2]], [(False, 0)])"
    by code_simp
  have "partners2 ([[1], [2]], [(False, 0)]) = image_mset (\<lambda>x. n_idx (eq_heap x)) (mset [2, 3, 4]) + partners2 ([[], []], [])"
    using setBusMatch_each_bit [OF v [of "[2, 3, 4]"] v [of "[0, 1]"], of eq_heap "([[], []], [])"] run by blast
  then show ?thesis using run by (simp add: partners2_def eq_heap_def mk_node_def)
qed

end
