(* ===== verification/Comb_Random.thy ===== *)
theory Comb_Random
  imports Net_Sim "HOL-Library.Sublist"
begin

text \<open>
  The helpers of \<open>Matching.cpp\<close> and \<open>miter.cpp\<close> that stand beside the search: \<open>getComb\<close> (the selections of \<open>K\<close> elements),
  \<open>factor\<close> (the factorial in 64 bits), \<open>SimTest\<close>, and \<open>randint\<close>, which draws a number below \<open>n\<close> from \<open>rand\<close>. The
  selections are shown to be those of the textbook recursion, and \<open>randint\<close> to be uniform.
\<close>

section \<open>Selections\<close>

text \<open>
  \<open>prev_permutation\<close> on a string of the characters 1 and 0: the rightmost 1 with a 0 behind it changes places with the
  last 0, and what follows is reversed; without one the result is false.
\<close>

fun prev_mask :: "bool list \<Rightarrow> bool list option" where
  "prev_mask [] = None"
| "prev_mask (b # bs) =
     (case prev_mask bs of
        Some cs \<Rightarrow> Some (b # cs)
      | None \<Rightarrow> if b \<and> False \<in> set bs then Some (False # rev (bs[length (takeWhile Not bs) - 1 := True])) else None)"

fun mask_val :: "bool list \<Rightarrow> nat" where
  "mask_val [] = 0"
| "mask_val (b # bs) = of_bool b * 2 ^ length bs + mask_val bs"

lemma mask_val_less: "mask_val bs < 2 ^ length bs"
  by (induction bs) auto

lemma prev_mask_length: "prev_mask bs = Some cs \<Longrightarrow> length cs = length bs"
  by (induction bs arbitrary: cs) (auto split: option.splits if_splits)

lemma prev_mask_val: "prev_mask bs = Some cs \<Longrightarrow> mask_val cs < mask_val bs"
proof (induction bs arbitrary: cs)
  case (Cons b bs)
  show ?case
  proof (cases "prev_mask bs")
    case None
    have "mask_val (rev (bs[k := True])) < 2 ^ length bs" for k
      using mask_val_less [of "rev (bs[k := True])"] by simp
    then show ?thesis using Cons.prems None by (auto split: if_splits intro: trans_less_add1)
  next
    case (Some ds)
    then show ?thesis using Cons by (auto simp: prev_mask_length)
  qed
qed simp

text \<open>The elements at which the mask is 1; both have the same length.\<close>

fun pick_mask :: "bool list \<Rightarrow> 'a list \<Rightarrow> 'a list" where
  "pick_mask (b # bs) (x # xs) = (if b then x # pick_mask bs xs else pick_mask bs xs)"
| "pick_mask _ _ = []"

function comb_loop :: "'a list \<Rightarrow> bool list \<Rightarrow> 'a list list" where
  "comb_loop N bitmask =
     pick_mask bitmask N # (case prev_mask bitmask of None \<Rightarrow> [] | Some bitmask \<Rightarrow> comb_loop N bitmask)"
  by pat_completeness auto
termination
  by (relation "measure (\<lambda>(N, bitmask). mask_val bitmask)") (auto dest: prev_mask_val)

declare comb_loop.simps [simp del]

text \<open>\<open>resize\<close> cuts the mask when \<open>K\<close> is greater than the number of elements; a negative \<open>K\<close> is a huge length.\<close>

definition getComb :: "'a list \<Rightarrow> int \<Rightarrow> 'a list list res" where
  "getComb N K =
     (if K < 0 then Inl (Throw ''length_error'')
      else Inr (comb_loop N (take (length N) (replicate (nat K) True @ replicate (length N - nat K) False))))"

text \<open>The reference: the selections of \<open>k\<close> elements, those with the first element before those without it.\<close>

fun combs :: "nat \<Rightarrow> 'a list \<Rightarrow> 'a list list" where
  "combs 0 xs = [[]]"
| "combs (Suc k) [] = []"
| "combs (Suc k) (x # xs) = map ((#) x) (combs k xs) @ combs (Suc k) xs"

text \<open>The masks of a loop, and those of the reference.\<close>

function mask_loop :: "bool list \<Rightarrow> bool list list" where
  "mask_loop bs = bs # (case prev_mask bs of None \<Rightarrow> [] | Some cs \<Rightarrow> mask_loop cs)"
  by pat_completeness auto
termination
  by (relation "measure mask_val") (auto dest: prev_mask_val)

declare mask_loop.simps [simp del]

lemma comb_loop_masks: "comb_loop N bs = map (\<lambda>m. pick_mask m N) (mask_loop bs)"
proof (induction bs rule: mask_loop.induct)
  case (1 bs)
  then show ?case by (simp add: comb_loop.simps [of N bs] mask_loop.simps [of bs] split: option.split)
qed

fun masks :: "nat \<Rightarrow> nat \<Rightarrow> bool list list" where
  "masks 0 n = [replicate n False]"
| "masks (Suc k) 0 = []"
| "masks (Suc k) (Suc n) = map ((#) True) (masks k n) @ map ((#) False) (masks (Suc k) n)"

lemma pick_masks: "map (\<lambda>m. pick_mask m xs) (masks k (length xs)) = combs k xs"
proof (induction k xs rule: combs.induct)
  case (1 xs)
  have "pick_mask (replicate (length xs) False) xs = []" by (induction xs) simp_all
  then show ?case by simp
next
  case (3 k x xs)
  then show ?case by (simp add: o_def flip: 3(1))
qed simp

definition top_mask :: "nat \<Rightarrow> nat \<Rightarrow> bool list" where
  "top_mask k n = replicate k True @ replicate (n - k) False"

definition low_mask :: "nat \<Rightarrow> nat \<Rightarrow> bool list" where
  "low_mask k n = replicate (n - k) False @ replicate k True"

text \<open>Behind an unchanged first character the loop runs through the masks of the rest.\<close>

lemma mask_loop_Cons:
  "mask_loop (b # bs) = map ((#) b) (mask_loop bs) @
     (let cs = last (mask_loop bs) in if b \<and> False \<in> set cs then mask_loop (False # rev (cs[length (takeWhile Not cs) - 1 := True])) else [])"
proof (induction bs rule: mask_loop.induct)
  case (1 bs)
  show ?case
  proof (cases "prev_mask bs")
    case None
    then show ?thesis by (simp add: mask_loop.simps [of "b # bs"] mask_loop.simps [of bs])
  next
    case (Some cs)
    have "mask_loop cs \<noteq> []" by (simp add: mask_loop.simps [of cs])
    then show ?thesis using 1 [OF Some] Some by (simp add: mask_loop.simps [of "b # bs"] mask_loop.simps [of bs])
  qed
qed

lemma masks_empty: "n < k \<Longrightarrow> masks k n = []"
  by (induction k n rule: masks.induct) auto

lemma masks_nonempty: "k \<le> n \<Longrightarrow> masks k n \<noteq> []"
  by (induction k n rule: masks.induct) auto

lemma last_masks: "k \<le> n \<Longrightarrow> last (masks k n) = low_mask k n"
proof (induction k n rule: masks.induct)
  case (3 k n)
  show ?case
  proof (cases "Suc k \<le> n")
    case True
    then show ?thesis using 3 by (simp add: last_map masks_nonempty low_mask_def Suc_diff_Suc [symmetric])
  next
    case False
    then show ?thesis using 3 by (simp add: masks_empty last_map masks_nonempty low_mask_def)
  qed
qed (simp_all add: low_mask_def)

lemma low_next:
  assumes "k < n"
  shows "rev ((low_mask k n)[length (takeWhile Not (low_mask k n)) - 1 := True]) = top_mask (Suc k) n"
proof -
  obtain d where n: "n = Suc (k + d)" using assms less_iff_Suc_add by auto
  have "takeWhile Not (replicate m False @ replicate k True) = replicate m False" for m
    by (induction m) (cases k, simp_all)
  then have "takeWhile Not (low_mask k n) = replicate (n - k) False" by (simp add: low_mask_def)
  moreover have "(replicate (Suc d) False @ xs)[d := True] = replicate d False @ True # xs" for xs
    by (induction d) simp_all
  ultimately show ?thesis
    by (simp add: low_mask_def top_mask_def n replicate_append_same del: replicate_Suc) (simp add: replicate_append_same)
qed

lemma mask_loop_top: "k \<le> n \<Longrightarrow> mask_loop (top_mask k n) = masks k n"
proof (induction k n rule: masks.induct)
  case (1 n)
  have "prev_mask (replicate n False) = None" by (induction n) simp_all
  then show ?case by (simp add: top_mask_def mask_loop.simps [of "replicate n False"])
next
  case (3 k n)
  have top: "top_mask (Suc k) (Suc n) = True # top_mask k n" by (simp add: top_mask_def)
  have IH: "mask_loop (top_mask k n) = masks k n" using 3 by simp
  have f: "False \<in> set (low_mask k n) \<longleftrightarrow> k < n" using 3 by (auto simp: low_mask_def)
  show ?case
  proof (cases "k < n")
    case True
    then have "mask_loop (top_mask (Suc k) n) = masks (Suc k) n" using 3 by simp
    then show ?thesis using True 3(3) f low_next [OF True]
      by (simp add: top mask_loop_Cons [of True] mask_loop_Cons [of False] IH last_masks Let_def)
  next
    case False
    then show ?thesis unfolding top mask_loop_Cons [of True] IH using 3(3) f by (simp add: last_masks masks_empty Let_def)
  qed
qed simp

lemma getComb_combs:
  assumes "0 \<le> K"
  shows "getComb N K = Inr (if K \<le> int (length N) then combs (nat K) N else [N])"
proof (cases "K \<le> int (length N)")
  case True
  then have "take (length N) (replicate (nat K) True @ replicate (length N - nat K) False) = top_mask (nat K) (length N)"
    using True by (simp add: top_mask_def)
  moreover have "nat K \<le> length N" using True by simp
  ultimately show ?thesis using assms True by (simp only: getComb_def comb_loop_masks mask_loop_top pick_masks not_less if_True) simp
next
  case False
  then have m: "take (length N) (replicate (nat K) True @ replicate (length N - nat K) False) = replicate (length N) True"
    by simp
  have "prev_mask (replicate n True) = None" for n by (induction n) auto
  moreover have "pick_mask (replicate (length N) True) N = N" by (induction N) simp_all
  ultimately show ?thesis using assms False by (simp add: getComb_def comb_loop.simps [of N "replicate (length N) True"] m)
qed

text \<open>What the reference enumerates.\<close>

lemma combs_subseqs: "set (combs k xs) = {ys. subseq ys xs \<and> length ys = k}"
proof (induction k xs rule: combs.induct)
  case (3 k x xs)
  show ?case unfolding combs.simps set_append set_map 3
    by (auto simp: subseq_Cons2_iff image_iff length_Suc_conv elim: list_emb.cases)
qed auto

lemma length_combs: "length (combs k xs) = length xs choose k"
  by (induction k xs rule: combs.induct) simp_all

lemma distinct_combs: "distinct xs \<Longrightarrow> distinct (combs k xs)"
proof (induction k xs rule: combs.induct)
  case (3 k x xs)
  have "x \<notin> set ys" if "ys \<in> set (combs (Suc k) xs)" for ys
    using that 3(3) list_emb_set [of "(=)" ys xs x] by (auto simp: combs_subseqs)
  then have "set (map ((#) x) (combs k xs)) \<inter> set (combs (Suc k) xs) = {}" by force
  then show ?case using 3 by (simp add: distinct_map inj_on_def)
qed simp_all

section \<open>The factorial\<close>

text \<open>The product wraps in 64 bits; the recursion ends at the first argument that is not positive.\<close>

function factor :: "int \<Rightarrow> int" where
  "factor n = (if n > 0 then signed_take_bit 63 (n * factor (n - 1)) else 1)"
  by pat_completeness auto
termination
  by (relation "measure nat") auto

declare factor.simps [simp del]

lemma signed_64: "- (2 ^ 63) \<le> k \<Longrightarrow> k < 2 ^ 63 \<Longrightarrow> signed_take_bit 63 k = (k :: int)"
  by (simp add: signed_take_bit_int_eq_self)

lemma factor_fact: "n \<le> 20 \<Longrightarrow> factor (int n) = fact n"
proof (induction n)
  case 0
  then show ?case by (simp add: factor.simps)
next
  case (Suc n)
  have "fact (Suc n) \<le> (fact 20 :: int)" using Suc.prems by (intro fact_mono) simp_all
  also have "\<dots> < 2 ^ 63" by (simp add: fact_numeral)
  finally have small: "fact (Suc n) < (2 ^ 63 :: int)" .
  moreover have "- (2 ^ 63) \<le> (fact (Suc n) :: int)" by (rule order.trans [OF _ fact_ge_zero]) simp
  ultimately have "signed_take_bit 63 (fact (Suc n)) = (fact (Suc n) :: int)" by (simp only: signed_64)
  moreover have "int (Suc n) * factor (int n) = fact (Suc n)" using Suc by simp
  ultimately show ?case by (subst factor.simps) simp
qed

section \<open>\<open>SimTest\<close>\<close>

text \<open>The value of the signal that is printed, and the netlist afterwards.\<close>

definition SimTest :: "nat \<Rightarrow> module \<Rightarrow> (addr \<Rightarrow> node) \<Rightarrow> (signal \<times> (addr \<Rightarrow> node)) res" where
  "SimTest n m h =
     (if length (m_bus_set m) < 3 then Inl Bad_Index
      else
        rbind (AssignBus m [DONTCARE, ZERO, ONE, ONE] 0 (InitInput m h)) (\<lambda>h.
        rbind (AssignBus m [DONTCARE, ZERO, ONE, ZERO] 1 h) (\<lambda>h.
        rbind (AssignBus m [DONTCARE, ZERO, ONE, ONE] 2 h) (getSignal n m ''n34''))))"

section \<open>Random numbers below a bound\<close>

text \<open>
  \<open>rand\<close> is the sequence \<open>rnd\<close>, of which \<open>k\<close> numbers have been drawn; \<open>rmax\<close> is \<open>RAND_MAX\<close>. Numbers from \<open>end\<close>
  on are drawn again, which may never stop.
\<close>

partial_function (option) draw :: "int \<Rightarrow> (nat \<Rightarrow> int) \<Rightarrow> nat \<Rightarrow> (int \<times> nat) option" where
  "draw e rnd k = (if rnd k \<ge> e then draw e rnd (Suc k) else Some (rnd k, Suc k))"

definition randint :: "int \<Rightarrow> (nat \<Rightarrow> int) \<Rightarrow> int \<Rightarrow> nat \<Rightarrow> (int \<times> nat) res option" where
  "randint rmax rnd n k =
     (if n - 1 = rmax then Some (Inr (rnd k, Suc k))
      else if n = 0 then Some (Inl (Exit ''division by zero''))
      else let e = rmax div n
           in if \<not> e > 0 then Some (Inl (Exit ''assertion failed''))
              else map_option (\<lambda>(r, k). Inr (r mod n, k)) (draw (e * n) rnd k))"

lemma draw_Some:
  assumes "draw e rnd k = Some r"
  shows "\<exists>j \<ge> k. rnd j < e"
proof (rule draw.raw_induct [where P = "\<lambda>e rnd k r. \<exists>j \<ge> k. rnd j < e", OF _ assms])
  fix draw :: "int \<Rightarrow> (nat \<Rightarrow> int) \<Rightarrow> nat \<Rightarrow> (int \<times> nat) option" and e rnd k r
  assume IH: "\<And>e rnd k r. draw e rnd k = Some r \<Longrightarrow> \<exists>j \<ge> k. rnd j < e"
    and eq: "(if rnd k \<ge> e then draw e rnd (Suc k) else Some (rnd k, Suc k)) = Some r"
  show "\<exists>j \<ge> k. rnd j < e"
  proof (cases "rnd k \<ge> e")
    case True
    then have "draw e rnd (Suc k) = Some r" using eq by simp
    from IH [OF this] show ?thesis using Suc_leD by blast
  next
    case False
    then show ?thesis by (intro exI [of _ k]) simp
  qed
qed

lemma draw_first:
  assumes "rnd (k + d) < e" "\<forall>i < d. rnd (k + i) \<ge> e"
  shows "draw e rnd k = Some (rnd (k + d), Suc (k + d))"
  using assms
proof (induction d arbitrary: k)
  case (Suc d)
  have "rnd k \<ge> e" "\<forall>i < d. rnd (Suc k + i) \<ge> e" using Suc.prems(2) by (auto dest: spec [of _ 0] spec [of _ "Suc _"])
  then show ?case using Suc.IH [of "Suc k"] Suc.prems(1) by (simp add: draw.simps [of e rnd k])
qed (simp add: draw.simps [of e rnd])

text \<open>Each number below \<open>n\<close> stands for as many of the accepted numbers.\<close>

lemma residues_card:
  assumes "0 < n" "0 \<le> r" "r < n" "0 \<le> q"
  shows "card {x :: int. 0 \<le> x \<and> x < q * n \<and> x mod n = r} = nat q"
proof -
  have "{x. 0 \<le> x \<and> x < q * n \<and> x mod n = r} = (\<lambda>i. i * n + r) ` {0..<q}"
  proof (rule set_eqI)
    fix x
    have "x \<in> (\<lambda>i. i * n + r) ` {0..<q}" if x: "0 \<le> x" "x < q * n" "x mod n = r"
    proof (rule image_eqI)
      show "x = x div n * n + r" using x(3) by (metis div_mult_mod_eq)
      have "x div n * n \<le> x" using assms(1) x(3) assms(2) by (metis div_mult_mod_eq le_add_same_cancel1)
      then have "x div n * n < q * n" using x(2) by simp
      then show "x div n \<in> {0..<q}" using x assms by (simp add: pos_imp_zdiv_nonneg_iff)
    qed
    moreover have "0 \<le> i * n + r \<and> i * n + r < q * n \<and> (i * n + r) mod n = r" if "0 \<le> i" "i < q" for i
    proof -
      have "(i + 1) * n \<le> q * n" using that assms by (intro mult_right_mono) auto
      then show ?thesis using that assms by (simp add: algebra_simps)
    qed
    ultimately show "x \<in> {x. 0 \<le> x \<and> x < q * n \<and> x mod n = r} \<longleftrightarrow> x \<in> (\<lambda>i. i * n + r) ` {0..<q}" by auto
  qed
  moreover have "inj_on (\<lambda>i. i * n + r) {0..<q}" using assms(1) by (auto simp: inj_on_def)
  ultimately show ?thesis by (simp add: card_image)
qed

section \<open>Properties\<close>

text \<open>C40: \<open>getComb\<close> enumerates exactly the selections. For \<open>K\<close> between 0 and the number of elements the loop over
  \<open>prev_permutation\<close> ends, and gives the selections of the textbook recursion in its order: every subsequence of \<open>K\<close>
  elements, as many as the binomial coefficient, and none twice when the elements are distinct.\<close>

theorem getComb_exact:
  assumes "0 \<le> K" "K \<le> int (length N)"
  shows "getComb N K = Inr (combs (nat K) N) \<and> set (combs (nat K) N) = {ys. subseq ys N \<and> length ys = nat K} \<and>
    length (combs (nat K) N) = length N choose nat K \<and> (distinct N \<longrightarrow> distinct (combs (nat K) N))"
  using assms by (simp add: getComb_combs combs_subseqs length_combs distinct_combs)

theorem getComb_exact_witness:
  "getComb [1, 2, 3 :: int] 2 = Inr [[1, 2], [1, 3], [2, 3]] \<and> length (combs 2 [1, 2, 3 :: int]) = 3 choose 2"
  using getComb_exact [of 2 "[1, 2, 3 :: int]"] by (simp add: numeral_eq_Suc)

text \<open>\<open>randint\<close> is uniform. For \<open>0 < n \<le> RAND_MAX\<close> it returns exactly when a number below the greatest multiple of
  \<open>n\<close> up to \<open>RAND_MAX\<close> is still to come; then it is the remainder of the first of them, below \<open>n\<close>, and each remainder
  stands for equally many of the numbers that are accepted.\<close>

theorem randint_uniform:
  assumes "0 < n" "n \<le> rmax"
  shows "(randint rmax rnd n k = None \<longleftrightarrow> (\<forall>j \<ge> k. rnd j \<ge> rmax div n * n)) \<and>
    (\<forall>d. rnd (k + d) < rmax div n * n \<longrightarrow> (\<forall>i < d. rnd (k + i) \<ge> rmax div n * n) \<longrightarrow>
       randint rmax rnd n k = Some (Inr (rnd (k + d) mod n, Suc (k + d))) \<and> 0 \<le> rnd (k + d) mod n \<and> rnd (k + d) mod n < n) \<and>
    (\<forall>r. 0 \<le> r \<longrightarrow> r < n \<longrightarrow> card {x. 0 \<le> x \<and> x < rmax div n * n \<and> x mod n = r} = nat (rmax div n))"
proof -
  let ?e = "rmax div n * n"
  have q: "rmax div n > 0" using assms by (simp add: pos_imp_zdiv_pos_iff)
  then have run: "randint rmax rnd n k = map_option (\<lambda>(r, k). Inr (r mod n, k)) (draw ?e rnd k)"
    using assms by (simp add: randint_def)
  have some: "randint rmax rnd n k = Some (Inr (rnd (k + d) mod n, Suc (k + d)))"
    if "rnd (k + d) < ?e" "\<forall>i < d. rnd (k + i) \<ge> ?e" for d
    using draw_first [OF that] by (simp add: run)
  have "randint rmax rnd n k \<noteq> None" if "j \<ge> k" "rnd j < ?e" for j
  proof -
    define d where "d = (LEAST d. rnd (k + d) < ?e)"
    have "rnd (k + (j - k)) < ?e" using that by simp
    then have "rnd (k + d) < ?e" "\<forall>i < d. rnd (k + i) \<ge> ?e"
      unfolding d_def using LeastI [of "\<lambda>d. rnd (k + d) < ?e"] not_less_Least not_le by blast+
    then show ?thesis using some by simp
  qed
  moreover have "\<exists>j \<ge> k. rnd j < ?e" if "randint rmax rnd n k \<noteq> None"
    using that draw_Some [of ?e rnd k] by (auto simp: run)
  ultimately have "randint rmax rnd n k = None \<longleftrightarrow> (\<forall>j \<ge> k. rnd j \<ge> ?e)" by (meson not_le)
  then show ?thesis using some residues_card [OF assms(1)] q assms(1) by simp
qed

theorem randint_uniform_witness:
  "randint 7 (\<lambda>k. if k = 0 then 6 else 4) 3 0 = Some (Inr (1, 2)) \<and> card {x :: int. 0 \<le> x \<and> x < 7 div 3 * 3 \<and> x mod 3 = 2} = 2"
  using randint_uniform [of 3 7 "\<lambda>k. if k = 0 then 6 else 4" 0] by (auto dest!: spec [of _ "1 :: nat"])


section \<open>The time limit\<close>

text \<open>\<open>isInTime\<close>, which nothing calls: the clock in whole seconds against 30. The clock and its rate are positive.\<close>

definition isInTime :: "int \<Rightarrow> int \<Rightarrow> bool" where
  "isInTime clock per_sec \<longleftrightarrow> clock div per_sec < 30"

end
