(* ===== verification/Group_Match.thy ===== *)
theory Group_Match
  imports Match_Init Example_Net
begin

text \<open>
  What \<open>setGroupMatch\<close> of class \<open>Match\<close> pairs: the outputs of the groups of both modules place by place, the
  first three members of their terms with coefficient 0, and the negations from the flips of the pairs. It returns exactly
  on groups that fit together; otherwise it stops with an error.
\<close>

section \<open>The pairs\<close>

definition term_pairs :: "trm \<Rightarrow> trm \<Rightarrow> (int \<times> int) list" where
  "term_pairs s t = (if t_coeff s = 0 then zip (take 3 (t_member s)) (t_member t) else [])"

definition group_outs :: "(addr \<Rightarrow> node) \<Rightarrow> operation \<Rightarrow> operation \<Rightarrow> (int \<times> int) list" where
  "group_outs h p q = map (\<lambda>(a, b). (n_idx (h a), n_idx (h b))) (zip (o_output p) (o_output q))"

definition group_ins :: "operation \<Rightarrow> operation \<Rightarrow> (int \<times> int) list" where
  "group_ins p q = concat (map (\<lambda>(s, t). term_pairs s t) (zip (o_real_input p) (o_real_input q)))"

definition over_groups :: "(operation \<Rightarrow> operation \<Rightarrow> (int \<times> int) list) \<Rightarrow> module \<Rightarrow> module \<Rightarrow> (int \<times> int) list" where
  "over_groups f m1 m2 = concat (map (\<lambda>(p, q). f p q) (zip (m_group m1) (m_group m2)))"

definition term_fits :: "trm \<Rightarrow> trm \<Rightarrow> bool" where
  "term_fits s t \<longleftrightarrow> (t_coeff s = 0 \<longrightarrow> min (length (t_member s)) 3 \<le> length (t_member t))"

definition group_fits :: "operation \<Rightarrow> operation \<Rightarrow> bool" where
  "group_fits p q \<longleftrightarrow> o_output p \<noteq> [] \<and> length (o_output p) \<le> length (o_output q) \<and>
     length (o_real_input p) \<le> length (o_real_input q) \<and> (\<forall>(s, t) \<in> set (zip (o_real_input p) (o_real_input q)). term_fits s t)"

text \<open>The partners a port has before, and whether all pairs lie in the tables of both circuits.\<close>

definition old_row :: "'a list list \<Rightarrow> nat \<Rightarrow> 'a list" where
  "old_row xss i = (if i < length xss then xss ! i else [])"

definition pairs_fit :: "nat \<Rightarrow> nat \<Rightarrow> int list list \<Rightarrow> (int \<times> int) list \<Rightarrow> bool" where
  "pairs_fit n1 n2 old ps \<longleftrightarrow> (\<forall>(x, y) \<in> set ps. 0 \<le> x \<and> x < int n1 \<and> 0 \<le> y \<and> y < int n2) \<and>
     (\<forall>i < n1. \<forall>y \<in> set (old_row old i). 0 \<le> y \<and> y < int n2)"

definition groups_fit :: "init_state \<Rightarrow> bool" where
  "groups_fit s \<longleftrightarrow> (let m1 = i_mod1 s; m2 = i_mod2 s in
     length (m_group m1) \<le> length (m_group m2) \<and> (\<forall>(p, q) \<in> set (zip (m_group m1) (m_group m2)). group_fits p q) \<and>
     pairs_fit (length (m_gate m1 OUTPUT)) (length (m_gate m2 OUTPUT)) (i_match_pair s) (over_groups (group_outs (i_heap s)) m1 m2) \<and>
     pairs_fit (length (m_gate m1 INPUT)) (length (m_gate m2 INPUT)) (i_in_match_pair s) (over_groups group_ins m1 m2))"

section \<open>Appending to the rows\<close>

definition pushes :: "int list list \<Rightarrow> (int \<times> int) list \<Rightarrow> int list list" where
  "pushes xss ps = fold (\<lambda>(x, y) xss. xss[nat x := xss ! nat x @ [y]]) ps xss"

definition firsts_in :: "nat \<Rightarrow> (int \<times> int) list \<Rightarrow> bool" where
  "firsts_in n ps \<longleftrightarrow> (\<forall>(x, y) \<in> set ps. 0 \<le> x \<and> x < int n)"

lemma firsts_in_append [simp]: "firsts_in n (ps @ qs) \<longleftrightarrow> firsts_in n ps \<and> firsts_in n qs"
  by (auto simp: firsts_in_def)

lemma pushes_append [simp]: "pushes xss (ps @ qs) = pushes (pushes xss ps) qs"
  by (simp add: pushes_def)

lemma length_pushes [simp]: "length (pushes xss ps) = length xss"
  unfolding pushes_def by (induction ps arbitrary: xss) (auto simp: case_prod_unfold)

lemma pushes_one: "pushes xss [(x, y)] = xss[nat x := xss ! nat x @ [y]]"
  by (simp add: pushes_def)

lemma pushes_row:
  assumes "firsts_in (length xss) ps" "i < length xss"
  shows "set (pushes xss ps ! i) = set (xss ! i) \<union> {y. (int i, y) \<in> set ps}"
  using assms
proof (induction ps rule: rev_induct)
  case Nil
  then show ?case by (simp add: pushes_def)
next
  case (snoc p ps)
  obtain x y where p: "p = (x, y)" by (cases p)
  have x: "0 \<le> x" "x < int (length xss)" using snoc.prems by (simp_all add: p firsts_in_def)
  have "pushes xss (ps @ [p]) ! i = (if nat x = i then pushes xss ps ! i @ [y] else pushes xss ps ! i)"
    using snoc.prems(2) by (simp add: p pushes_one)
  moreover have "nat x = i \<longleftrightarrow> x = int i" using x by auto
  ultimately show ?case using snoc by (auto simp: p)
qed

text \<open>A loop over places whose body appends some pairs when its test holds.\<close>

lemma push_loop:
  assumes "\<And>k xss r. k < n \<Longrightarrow> f k xss = Inr r \<longleftrightarrow> ok k \<and> firsts_in (length xss) (ps k) \<and> r = pushes xss (ps k)"
  shows "rfold f [0..<n] xss = Inr r \<longleftrightarrow> (\<forall>k < n. ok k) \<and> firsts_in (length xss) (concat (map ps [0..<n])) \<and> r = pushes xss (concat (map ps [0..<n]))"
  using assms
proof (induction n arbitrary: r)
  case 0
  then show ?case by (auto simp: pushes_def firsts_in_def)
next
  case (Suc n)
  have "rfold f [0..<Suc n] xss = Inr r \<longleftrightarrow> (\<exists>u. rfold f [0..<n] xss = Inr u \<and> f n u = Inr r)"
    by (auto simp: rfold_append res_simps)
  also have "\<dots> \<longleftrightarrow> (\<forall>k < n. ok k) \<and> firsts_in (length xss) (concat (map ps [0..<n])) \<and>
      f n (pushes xss (concat (map ps [0..<n]))) = Inr r" using Suc by auto
  also have "\<dots> \<longleftrightarrow> (\<forall>k < Suc n. ok k) \<and> firsts_in (length xss) (concat (map ps [0..<Suc n])) \<and> r = pushes xss (concat (map ps [0..<Suc n]))"
    using Suc.prems [of n] by (auto simp: less_Suc_eq)
  finally show ?case .
qed

lemma push_loop_upto:
  assumes step: "\<And>k xss r. k < n \<Longrightarrow> f k xss = Inr r \<longleftrightarrow> k < m \<and> firsts_in (length xss) (ps k) \<and> r = pushes xss (ps k)"
    and all: "n \<le> m \<Longrightarrow> concat (map ps [0..<n]) = qs"
  shows "rfold f [0..<n] xss = Inr r \<longleftrightarrow> n \<le> m \<and> firsts_in (length xss) qs \<and> r = pushes xss qs"
proof (cases "n \<le> m")
  case True
  then show ?thesis using push_loop [where ok = "\<lambda>k. k < m" and ps = ps, OF step] all by auto
next
  case False
  then have "m < n" by simp
  then show ?thesis using push_loop [where ok = "\<lambda>k. k < m" and ps = ps, OF step] False by blast
qed

lemma map_nth_zip: "length xs \<le> length ys \<Longrightarrow> map (\<lambda>k. (xs ! k, ys ! k)) [0..<length xs] = zip xs ys"
  by (rule nth_equalityI) simp_all

lemma concat_singles: "concat (map (\<lambda>k. [f k]) xs) = map f xs"
  by (induction xs) simp_all

lemma vpush_push: "vpush xss x y = Inr r \<longleftrightarrow> firsts_in (length xss) [(x, y)] \<and> r = pushes xss [(x, y)]"
  by (auto simp: vpush_def res_simps firsts_in_def pushes_def in_range_def)

section \<open>The loops\<close>

lemma pair_outputs_loop:
  "rfold (pair_outputs h p q) [0..<length (o_output p)] mp = Inr r \<longleftrightarrow> length (o_output p) \<le> length (o_output q) \<and>
     firsts_in (length mp) (group_outs h p q) \<and> r = pushes mp (group_outs h p q)"
proof -
  let ?ps = "\<lambda>k. [(n_idx (h (o_output p ! k)), n_idx (h (o_output q ! k)))]"
  have "pair_outputs h p q k xss = Inr r \<longleftrightarrow> k < length (o_output q) \<and> firsts_in (length xss) (?ps k) \<and> r = pushes xss (?ps k)"
    if "k < length (o_output p)" for k xss r
    using that by (auto simp: pair_outputs_def res_simps vpush_push firsts_in_def in_range_def)
  moreover have "concat (map ?ps [0..<length (o_output p)]) = group_outs h p q" if "length (o_output p) \<le> length (o_output q)"
    unfolding group_outs_def map_nth_zip [OF that, symmetric] by (simp add: concat_singles o_def)
  ultimately show ?thesis by (rule push_loop_upto)
qed

lemma pair_members_loop:
  "rfold (pair_member s t) [0..<min (length (t_member s)) 3] ip = Inr r \<longleftrightarrow> min (length (t_member s)) 3 \<le> length (t_member t) \<and>
     firsts_in (length ip) (zip (take 3 (t_member s)) (t_member t)) \<and> r = pushes ip (zip (take 3 (t_member s)) (t_member t))"
proof -
  let ?n = "min (length (t_member s)) 3" and ?ps = "\<lambda>k. [(t_member s ! k, t_member t ! k)]"
  have "pair_member s t k xss = Inr r \<longleftrightarrow> k < length (t_member t) \<and> firsts_in (length xss) (?ps k) \<and> r = pushes xss (?ps k)" for k xss r
    by (auto simp: pair_member_def res_simps vpush_push)
  moreover have "concat (map ?ps [0..<?n]) = zip (take 3 (t_member s)) (t_member t)" if n: "?n \<le> length (t_member t)"
    unfolding concat_singles
  proof (rule nth_equalityI)
    fix i assume "i < length (map (\<lambda>k. (t_member s ! k, t_member t ! k)) [0..<?n])"
    then have i: "i < ?n" by simp
    have "i < length (t_member t)" by (rule less_le_trans [OF i n])
    then show "map (\<lambda>k. (t_member s ! k, t_member t ! k)) [0..<?n] ! i = zip (take 3 (t_member s)) (t_member t) ! i" using i by simp
  qed (use n in simp)
  ultimately show ?thesis by (rule push_loop_upto)
qed

lemma pair_terms_loop:
  "rfold (pair_term p q) [0..<length (o_real_input p)] ip = Inr r \<longleftrightarrow> length (o_real_input p) \<le> length (o_real_input q) \<and>
     (\<forall>(s, t) \<in> set (zip (o_real_input p) (o_real_input q)). term_fits s t) \<and>
     firsts_in (length ip) (group_ins p q) \<and> r = pushes ip (group_ins p q)"
proof -
  let ?n = "length (o_real_input p)" and ?m = "length (o_real_input q)"
  let ?s = "\<lambda>k. o_real_input p ! k" and ?t = "\<lambda>k. o_real_input q ! k"
  let ?ps = "\<lambda>k. term_pairs (?s k) (?t k)"
  have "pair_term p q k xss = Inr r \<longleftrightarrow> (k < ?m \<and> term_fits (?s k) (?t k)) \<and> firsts_in (length xss) (?ps k) \<and> r = pushes xss (?ps k)" for k xss r
    by (auto simp: pair_term_def Let_def res_simps pair_members_loop term_pairs_def term_fits_def firsts_in_def pushes_def)
  from push_loop [where ok = "\<lambda>k. k < ?m \<and> term_fits (?s k) (?t k)" and ps = ?ps, OF this]
  have loop: "rfold (pair_term p q) [0..<?n] ip = Inr r \<longleftrightarrow> (\<forall>k < ?n. k < ?m \<and> term_fits (?s k) (?t k)) \<and>
    firsts_in (length ip) (concat (map ?ps [0..<?n])) \<and> r = pushes ip (concat (map ?ps [0..<?n]))" by blast
  show ?thesis
  proof (cases "?n \<le> ?m")
    case True
    have "group_ins p q = concat (map ?ps [0..<?n])" unfolding group_ins_def map_nth_zip [OF True, symmetric] by (simp add: o_def)
    moreover have "(\<forall>(s, t) \<in> set (zip (o_real_input p) (o_real_input q)). term_fits s t) \<longleftrightarrow> (\<forall>k < ?n. term_fits (?s k) (?t k))"
      unfolding map_nth_zip [OF True, symmetric] by auto
    ultimately show ?thesis using loop True by auto
  next
    case False
    then have "?m < ?n" by simp
    then show ?thesis using loop False by blast
  qed
qed

lemma pair_group_run:
  "pair_group h gs1 gs2 i (mp, ip) = Inr (r1, r2) \<longleftrightarrow> i < length gs2 \<and> group_fits (gs1 ! i) (gs2 ! i) \<and>
     firsts_in (length mp) (group_outs h (gs1 ! i) (gs2 ! i)) \<and> firsts_in (length ip) (group_ins (gs1 ! i) (gs2 ! i)) \<and>
     r1 = pushes mp (group_outs h (gs1 ! i) (gs2 ! i)) \<and> r2 = pushes ip (group_ins (gs1 ! i) (gs2 ! i))"
  unfolding pair_group_def prod.case Let_def rbind_eq_Inr pair_outputs_loop pair_terms_loop
  by (auto simp: res_simps group_fits_def in_range_def)

lemma pair_groups_run:
  "n \<le> length gs1 \<Longrightarrow> rfold (pair_group h gs1 gs2) [0..<n] (mp, ip) = Inr (r1, r2) \<longleftrightarrow>
     (let fs = \<lambda>i. group_outs h (gs1 ! i) (gs2 ! i); gs = \<lambda>i. group_ins (gs1 ! i) (gs2 ! i) in
      (\<forall>i < n. i < length gs2 \<and> group_fits (gs1 ! i) (gs2 ! i)) \<and>
      firsts_in (length mp) (concat (map fs [0..<n])) \<and> firsts_in (length ip) (concat (map gs [0..<n])) \<and>
      r1 = pushes mp (concat (map fs [0..<n])) \<and> r2 = pushes ip (concat (map gs [0..<n])))"
proof (induction n arbitrary: r1 r2)
  case 0
  then show ?case by (auto simp: pushes_def firsts_in_def)
next
  case (Suc n)
  have "rfold (pair_group h gs1 gs2) [0..<Suc n] (mp, ip) = Inr (r1, r2) \<longleftrightarrow>
      (\<exists>u1 u2. rfold (pair_group h gs1 gs2) [0..<n] (mp, ip) = Inr (u1, u2) \<and> pair_group h gs1 gs2 n (u1, u2) = Inr (r1, r2))"
    by (auto simp: rfold_append res_simps)
  then show ?case using Suc unfolding pair_group_run Let_def by (auto simp: less_Suc_eq)
qed

lemma pair_groups_all:
  "rfold (pair_group h (m_group m1) (m_group m2)) [0..<length (m_group m1)] (mp, ip) = Inr (r1, r2) \<longleftrightarrow>
     length (m_group m1) \<le> length (m_group m2) \<and> (\<forall>(p, q) \<in> set (zip (m_group m1) (m_group m2)). group_fits p q) \<and>
     firsts_in (length mp) (over_groups (group_outs h) m1 m2) \<and> firsts_in (length ip) (over_groups group_ins m1 m2) \<and>
     r1 = pushes mp (over_groups (group_outs h) m1 m2) \<and> r2 = pushes ip (over_groups group_ins m1 m2)"
proof (cases "length (m_group m1) \<le> length (m_group m2)")
  case True
  have over: "over_groups f m1 m2 = concat (map (\<lambda>i. f (m_group m1 ! i) (m_group m2 ! i)) [0..<length (m_group m1)])" for f
    unfolding over_groups_def map_nth_zip [OF True, symmetric] by (simp add: o_def)
  have fit: "(\<forall>(p, q) \<in> set (zip (m_group m1) (m_group m2)). group_fits p q) \<longleftrightarrow> (\<forall>i < length (m_group m1). group_fits (m_group m1 ! i) (m_group m2 ! i))"
    unfolding map_nth_zip [OF True, symmetric] by auto
  show ?thesis unfolding pair_groups_run [OF order_refl] Let_def over fit using True by auto
next
  case False
  then have "length (m_group m2) < length (m_group m1)" by simp
  then show ?thesis unfolding pair_groups_run [OF order_refl] Let_def using False by blast
qed

section \<open>The negations\<close>

text \<open>The negation of a port is written by the last row that holds it.\<close>

definition last_row :: "int list list \<Rightarrow> nat \<Rightarrow> int \<Rightarrow> nat" where
  "last_row rows n y = Max {i. i < n \<and> y \<in> set (rows ! i)}"

definition negs_of :: "(addr \<Rightarrow> node) \<Rightarrow> addr list \<Rightarrow> addr list \<Rightarrow> int list list \<Rightarrow> nat \<Rightarrow> bool list \<Rightarrow> bool list" where
  "negs_of h ports1 ports2 rows n ne =
     map (\<lambda>y. if \<exists>i < n. int y \<in> set (rows ! i) then n_isFlip (h (ports1 ! last_row rows n (int y))) \<noteq> n_isFlip (h (ports2 ! y)) else ne ! y)
       [0..<length ne]"

definition neg_row :: "(addr \<Rightarrow> node) \<Rightarrow> addr list \<Rightarrow> addr list \<Rightarrow> nat \<Rightarrow> bool list \<Rightarrow> int list \<Rightarrow> bool list" where
  "neg_row h ports1 ports2 i ne ys =
     map (\<lambda>y. if int y \<in> set ys then n_isFlip (h (ports1 ! i)) \<noteq> n_isFlip (h (ports2 ! y)) else ne ! y) [0..<length ne]"

lemma neg_row_snoc:
  assumes "in_range ne z"
  shows "(neg_row h ports1 ports2 i ne ys)[nat z := n_isFlip (h (ports1 ! i)) \<noteq> n_isFlip (h (ports2 ! nat z))] =
    neg_row h ports1 ports2 i ne (ys @ [z])"
proof (rule nth_equalityI)
  fix y assume "y < length ((neg_row h ports1 ports2 i ne ys)[nat z := n_isFlip (h (ports1 ! i)) \<noteq> n_isFlip (h (ports2 ! nat z))])"
  then have y: "y < length ne" by (simp add: neg_row_def)
  have "nat z = y \<longleftrightarrow> int y = z" using assms by (auto simp: in_range_def)
  then show "(neg_row h ports1 ports2 i ne ys)[nat z := n_isFlip (h (ports1 ! i)) \<noteq> n_isFlip (h (ports2 ! nat z))] ! y =
    neg_row h ports1 ports2 i ne (ys @ [z]) ! y"
    using y by (cases "int y = z") (simp_all add: neg_row_def nth_list_update)
qed (simp add: neg_row_def)

lemma set_neg_row:
  assumes "i < length ports1" "length ports2 = length ne"
  shows "rfold (set_neg h ports1 ports2 i) ys ne = Inr r \<longleftrightarrow> (\<forall>y \<in> set ys. in_range ne y) \<and> r = neg_row h ports1 ports2 i ne ys"
proof (induction ys arbitrary: r rule: rev_induct)
  case Nil
  then show ?case by (auto simp: neg_row_def map_nth)
next
  case (snoc z ys)
  let ?v = "n_isFlip (h (ports1 ! i)) \<noteq> n_isFlip (h (ports2 ! nat z))"
  have len: "length (neg_row h ports1 ports2 i ne ys) = length ne" by (simp add: neg_row_def)
  have "rfold (set_neg h ports1 ports2 i) (ys @ [z]) ne = Inr r \<longleftrightarrow>
      (\<forall>y \<in> set ys. in_range ne y) \<and> set_neg h ports1 ports2 i z (neg_row h ports1 ports2 i ne ys) = Inr r"
    by (auto simp: rfold_append res_simps snoc.IH)
  also have "\<dots> \<longleftrightarrow> (\<forall>y \<in> set ys. in_range ne y) \<and> in_range ne z \<and> r = (neg_row h ports1 ports2 i ne ys)[nat z := ?v]"
    using assms len by (simp add: set_neg_def res_simps in_range_def) blast
  finally show ?case using neg_row_snoc [of ne z h ports1 ports2 i ys] by auto
qed

lemma last_row_Suc: "y \<in> set (rows ! n) \<Longrightarrow> last_row rows (Suc n) y = n"
  unfolding last_row_def by (rule Max_eqI) auto

lemma last_row_skip: "y \<notin> set (rows ! n) \<Longrightarrow> last_row rows (Suc n) y = last_row rows n y"
  unfolding last_row_def by (rule arg_cong [where f = Max]) (auto simp: less_Suc_eq)

lemma set_negs_run:
  assumes len: "length ports2 = length ne"
  shows "n \<le> length rows \<Longrightarrow> length rows \<le> length ports1 \<Longrightarrow> rfold (\<lambda>i. rfold (set_neg h ports1 ports2 i) (rows ! i)) [0..<n] ne = Inr r \<longleftrightarrow>
     (\<forall>i < n. \<forall>y \<in> set (rows ! i). in_range ne y) \<and> r = negs_of h ports1 ports2 rows n ne"
proof (induction n arbitrary: r)
  case 0
  then show ?case by (auto simp: negs_of_def map_nth)
next
  case (Suc n)
  let ?u = "negs_of h ports1 ports2 rows n ne"
  have u: "length ?u = length ne" by (simp add: negs_of_def)
  have step: "neg_row h ports1 ports2 n ?u (rows ! n) = negs_of h ports1 ports2 rows (Suc n) ne"
  proof (rule nth_equalityI)
    fix y assume "y < length (neg_row h ports1 ports2 n ?u (rows ! n))"
    then have y: "y < length ne" using u by (simp add: neg_row_def)
    have "(\<exists>i < Suc n. int y \<in> set (rows ! i)) \<longleftrightarrow> int y \<in> set (rows ! n) \<or> (\<exists>i < n. int y \<in> set (rows ! i))" by (auto simp: less_Suc_eq)
    then show "neg_row h ports1 ports2 n ?u (rows ! n) ! y = negs_of h ports1 ports2 rows (Suc n) ne ! y"
      using y by (cases "int y \<in> set (rows ! n)") (simp_all add: neg_row_def negs_of_def last_row_Suc last_row_skip, blast)
  qed (simp add: neg_row_def negs_of_def)
  have "rfold (\<lambda>i. rfold (set_neg h ports1 ports2 i) (rows ! i)) [0..<Suc n] ne = Inr r \<longleftrightarrow>
      (\<forall>i < n. \<forall>y \<in> set (rows ! i). in_range ne y) \<and> rfold (set_neg h ports1 ports2 n) (rows ! n) ?u = Inr r"
    using Suc by (auto simp: rfold_append res_simps)
  also have "\<dots> \<longleftrightarrow> (\<forall>i < n. \<forall>y \<in> set (rows ! i). in_range ne y) \<and> (\<forall>y \<in> set (rows ! n). in_range ne y) \<and> r = negs_of h ports1 ports2 rows (Suc n) ne"
    using set_neg_row [of n ports1 ports2 ?u h "rows ! n" r] Suc.prems len u step by (simp add: in_range_def)
  finally show ?case by (auto simp: less_Suc_eq)
qed

section \<open>\<open>setGroupMatch\<close>\<close>

lemma resize_row: "i < n \<Longrightarrow> resize n [] xss ! i = old_row xss i"
  by (auto simp: resize_def old_row_def nth_append)

lemma resize_flag: "y < n \<Longrightarrow> resize n False ne ! y = (y < length ne \<and> ne ! y)"
  by (auto simp: resize_def nth_append)

lemma length_resize [simp]: "length (resize n x xs) = n"
  by (simp add: resize_def min_def)

text \<open>The tables: every row is the sorted list, without repetition, of the old partners and of the paired ones.\<close>

definition paired_rows :: "nat \<Rightarrow> int list list \<Rightarrow> (int \<times> int) list \<Rightarrow> int list list" where
  "paired_rows n old ps = map Unique (pushes (resize n [] old) ps)"

lemma paired_rows_set:
  assumes "firsts_in n ps" "i < n"
  shows "set (paired_rows n old ps ! i) = set (old_row old i) \<union> {y. (int i, y) \<in> set ps}"
  using pushes_row [of "resize n [] old" ps i] assms by (simp add: paired_rows_def resize_row)

lemma paired_rows_fit:
  assumes "length (ne :: bool list) = n2"
  shows "pairs_fit n1 n2 old ps \<longleftrightarrow> firsts_in n1 ps \<and> (\<forall>i < n1. \<forall>y \<in> set (paired_rows n1 old ps ! i). in_range ne y)"
proof (cases "firsts_in n1 ps")
  case True
  have rows: "y \<in> set (paired_rows n1 old ps ! i) \<longleftrightarrow> y \<in> set (old_row old i) \<or> (int i, y) \<in> set ps" if "i < n1" for i y
    using paired_rows_set [OF True that] by auto
  show ?thesis
  proof
    assume "pairs_fit n1 n2 old ps"
    then show "firsts_in n1 ps \<and> (\<forall>i < n1. \<forall>y \<in> set (paired_rows n1 old ps ! i). in_range ne y)"
      using True rows assms by (fastforce simp: pairs_fit_def in_range_def)
  next
    assume r: "firsts_in n1 ps \<and> (\<forall>i < n1. \<forall>y \<in> set (paired_rows n1 old ps ! i). in_range ne y)"
    have "0 \<le> x \<and> x < int n1 \<and> 0 \<le> y \<and> y < int n2" if xy: "(x, y) \<in> set ps" for x y
    proof -
      have x: "0 \<le> x" "x < int n1" using True xy by (auto simp: firsts_in_def)
      then have "nat x < n1" "int (nat x) = x" by auto
      then have "in_range ne y" using r rows [of "nat x" y] xy by auto
      then show ?thesis using x assms by (simp add: in_range_def)
    qed
    moreover have "0 \<le> y \<and> y < int n2" if "i < n1" "y \<in> set (old_row old i)" for i y
      using r rows [OF that(1)] that assms by (auto simp: in_range_def)
    ultimately show "pairs_fit n1 n2 old ps" by (auto simp: pairs_fit_def)
  qed
next
  case False
  then show ?thesis by (auto simp: pairs_fit_def firsts_in_def)
qed

lemma set_negs_all:
  assumes "length ports2 = length ne" "length rows = length ports1"
  shows "set_negs h ports1 ports2 rows ne = Inr r \<longleftrightarrow>
     (\<forall>i < length ports1. \<forall>y \<in> set (rows ! i). in_range ne y) \<and> r = negs_of h ports1 ports2 rows (length ports1) ne"
  using set_negs_run [OF assms(1), of "length rows" rows ports1 h r] assms(2) by (simp add: set_negs_def)

definition grouped :: "init_state \<Rightarrow> init_state" where
  "grouped s = (let m1 = i_mod1 s; m2 = i_mod2 s; h = i_heap s; out1 = m_gate m1 OUTPUT; out2 = m_gate m2 OUTPUT;
     in1 = m_gate m1 INPUT; in2 = m_gate m2 INPUT;
     mp = paired_rows (length out1) (i_match_pair s) (over_groups (group_outs h) m1 m2);
     ip = paired_rows (length in1) (i_in_match_pair s) (over_groups group_ins m1 m2)
   in s\<lparr>i_match_pair := mp, i_output_ne := negs_of h out1 out2 mp (length out1) (resize (length out2) False (i_output_ne s)),
        i_in_match_pair := ip, i_input_ne := negs_of h in1 in2 ip (length in1) (resize (length in2) False (i_input_ne s))\<rparr>)"

lemma setGroupMatch_run: "setGroupMatch s = Inr s' \<longleftrightarrow> groups_fit s \<and> s' = grouped s"
proof -
  let ?m1 = "i_mod1 s" and ?m2 = "i_mod2 s" and ?h = "i_heap s"
  let ?out1 = "m_gate ?m1 OUTPUT" and ?out2 = "m_gate ?m2 OUTPUT" and ?in1 = "m_gate ?m1 INPUT" and ?in2 = "m_gate ?m2 INPUT"
  let ?os = "over_groups (group_outs ?h) ?m1 ?m2" and ?is = "over_groups group_ins ?m1 ?m2"
  let ?mp = "paired_rows (length ?out1) (i_match_pair s) ?os" and ?ip = "paired_rows (length ?in1) (i_in_match_pair s) ?is"
  let ?one = "resize (length ?out2) False (i_output_ne s)" and ?ine = "resize (length ?in2) False (i_input_ne s)"
  have len: "length ?out2 = length ?one" "length ?mp = length ?out1" "length ?in2 = length ?ine" "length ?ip = length ?in1"
    by (simp_all add: paired_rows_def)
  note run = set_negs_all [OF len(1,2), of ?h] set_negs_all [OF len(3,4), of ?h]
  have "setGroupMatch s = Inr s' \<longleftrightarrow>
    length (m_group ?m1) \<le> length (m_group ?m2) \<and> (\<forall>(p, q) \<in> set (zip (m_group ?m1) (m_group ?m2)). group_fits p q) \<and>
    firsts_in (length ?out1) ?os \<and> firsts_in (length ?in1) ?is \<and>
    (\<forall>i < length ?out1. \<forall>y \<in> set (?mp ! i). in_range ?one y) \<and> (\<forall>i < length ?in1. \<forall>y \<in> set (?ip ! i). in_range ?ine y) \<and> s' = grouped s"
    unfolding setGroupMatch_def Let_def rbind_eq_Inr split_paired_Ex prod.case pair_groups_all length_resize
      grouped_def sum.inject
    by (auto simp: paired_rows_def [symmetric] run)
  then show ?thesis
    unfolding groups_fit_def Let_def paired_rows_fit [OF len(1) [symmetric]] paired_rows_fit [OF len(3) [symmetric]] by blast
qed

definition rows_paired :: "nat \<Rightarrow> int list list \<Rightarrow> (int \<times> int) list \<Rightarrow> int list list \<Rightarrow> bool" where
  "rows_paired n old ps rows \<longleftrightarrow> length rows = n \<and>
     (\<forall>i < n. sorted (rows ! i) \<and> distinct (rows ! i) \<and> set (rows ! i) = set (old_row old i) \<union> {y. (int i, y) \<in> set ps})"

definition negs_exact :: "(addr \<Rightarrow> node) \<Rightarrow> addr list \<Rightarrow> addr list \<Rightarrow> int list list \<Rightarrow> bool list \<Rightarrow> bool list \<Rightarrow> bool" where
  "negs_exact h ports1 ports2 rows ne ne' \<longleftrightarrow> length ne' = length ports2 \<and>
     (\<forall>y < length ports2. ne' ! y = (if \<exists>i < length ports1. int y \<in> set (rows ! i)
        then n_isFlip (h (ports1 ! last_row rows (length ports1) (int y))) \<noteq> n_isFlip (h (ports2 ! y)) else y < length ne \<and> ne ! y))"

lemma paired_rows_paired: "firsts_in n ps \<Longrightarrow> rows_paired n old ps (paired_rows n old ps)"
  unfolding rows_paired_def by (simp add: paired_rows_set) (simp add: paired_rows_def)

lemma negs_of_exact: "negs_exact h ports1 ports2 rows ne (negs_of h ports1 ports2 rows (length ports1) (resize (length ports2) False ne))"
  unfolding negs_exact_def by (simp add: negs_of_def resize_flag, blast)

text \<open>C33: \<open>setGroupMatch\<close> pairs exactly the members of the groups. It returns exactly when the groups of circuit 1 have
  partners in circuit 2 with enough outputs, terms and members, every group of circuit 1 has an output, and all
  partners are in range; otherwise it stops with an error. Then every row of the partners is sorted, without repetition, and
  holds the old partners and the paired ones and nothing else: the outputs of groups of the same place, and the first three members
  of terms with coefficient 0; a paired port is negated exactly when one of it and its last partner is flipped, other
  negations are kept, and nothing else changes.\<close>

theorem setGroupMatch_exact:
  "if groups_fit s then \<exists>s'. setGroupMatch s = Inr s' \<and>
     rows_paired (length (m_gate (i_mod1 s) OUTPUT)) (i_match_pair s) (over_groups (group_outs (i_heap s)) (i_mod1 s) (i_mod2 s)) (i_match_pair s') \<and>
     rows_paired (length (m_gate (i_mod1 s) INPUT)) (i_in_match_pair s) (over_groups group_ins (i_mod1 s) (i_mod2 s)) (i_in_match_pair s') \<and>
     negs_exact (i_heap s) (m_gate (i_mod1 s) OUTPUT) (m_gate (i_mod2 s) OUTPUT) (i_match_pair s') (i_output_ne s) (i_output_ne s') \<and>
     negs_exact (i_heap s) (m_gate (i_mod1 s) INPUT) (m_gate (i_mod2 s) INPUT) (i_in_match_pair s') (i_input_ne s) (i_input_ne s') \<and>
     s' = s\<lparr>i_match_pair := i_match_pair s', i_output_ne := i_output_ne s', i_in_match_pair := i_in_match_pair s', i_input_ne := i_input_ne s'\<rparr>
   else \<exists>e. setGroupMatch s = Inl e"
proof (cases "groups_fit s")
  case True
  then have run: "setGroupMatch s = Inr (grouped s)" by (simp add: setGroupMatch_run)
  have first: "firsts_in (length (m_gate (i_mod1 s) OUTPUT)) (over_groups (group_outs (i_heap s)) (i_mod1 s) (i_mod2 s))"
    "firsts_in (length (m_gate (i_mod1 s) INPUT)) (over_groups group_ins (i_mod1 s) (i_mod2 s))"
    using True unfolding groups_fit_def Let_def pairs_fit_def firsts_in_def by blast+
  show ?thesis unfolding if_P [OF True]
    by (rule exI [of _ "grouped s"]) (simp add: run grouped_def Let_def paired_rows_paired [OF first(1)] paired_rows_paired [OF first(2)] negs_of_exact)
next
  case False
  then have "\<not> (\<exists>s'. setGroupMatch s = Inr s')" by (simp add: setGroupMatch_run)
  then show ?thesis using False by (cases "setGroupMatch s") simp_all
qed

text \<open>One group each: the inputs 0 and 1 of circuit 1 go with the inputs 1 and 0 of circuit 2.\<close>

definition ex_op :: "addr \<Rightarrow> int list \<Rightarrow> operation" where
  "ex_op out ms = \<lparr>o_input = [], o_output = [out], o_real_input = [\<lparr>t_member = ms, t_coeff = 0\<rparr>], o_const = 0, o_relation = EQ\<rparr>"

definition ex_groups :: init_state where
  "ex_groups = init_start (ex_module\<lparr>m_group := [ex_op 3 [0, 1]]\<rparr>)
     (ex_module\<lparr>m_gate := (\<lambda>t. if t = INPUT then [4, 5] else if t = OUTPUT then [7] else []), m_group := [ex_op 7 [1, 0]]\<rparr>)
     \<lparr>heap = ex_heap(5 := (ex_heap 5)\<lparr>n_isFlip := True\<rparr>), next_addr = 9\<rparr>"

lemma ex_groups_fit: "groups_fit ex_groups"
  by (simp add: groups_fit_def Let_def pairs_fit_def group_fits_def term_fits_def over_groups_def group_outs_def group_ins_def term_pairs_def
      ex_groups_def init_start_def ex_op_def ex_module_def old_row_def)

theorem setGroupMatch_exact_witness:
  "\<exists>s'. setGroupMatch ex_groups = Inr s' \<and> length (i_in_match_pair s') = 2 \<and> set (i_in_match_pair s' ! 0) = {1} \<and>
     set (i_in_match_pair s' ! 1) = {0} \<and> set (i_match_pair s' ! 0) = {0}"
proof -
  obtain s' where run: "setGroupMatch ex_groups = Inr s'"
    and outs: "rows_paired (length (m_gate (i_mod1 ex_groups) OUTPUT)) (i_match_pair ex_groups)
      (over_groups (group_outs (i_heap ex_groups)) (i_mod1 ex_groups) (i_mod2 ex_groups)) (i_match_pair s')"
    and ins: "rows_paired (length (m_gate (i_mod1 ex_groups) INPUT)) (i_in_match_pair ex_groups)
      (over_groups group_ins (i_mod1 ex_groups) (i_mod2 ex_groups)) (i_in_match_pair s')"
    using setGroupMatch_exact [of ex_groups, unfolded if_P [OF ex_groups_fit]] by blast
  have "over_groups (group_outs (i_heap ex_groups)) (i_mod1 ex_groups) (i_mod2 ex_groups) = [(0, 0)]"
    "over_groups group_ins (i_mod1 ex_groups) (i_mod2 ex_groups) = [(0, 1), (1, 0)]"
    by code_simp+
  moreover have "length (m_gate (i_mod1 ex_groups) OUTPUT) = 1" "length (m_gate (i_mod1 ex_groups) INPUT) = 2" "i_match_pair ex_groups = []"
    "i_in_match_pair ex_groups = []" by (simp_all add: ex_groups_def init_start_def ex_module_def)
  ultimately have "rows_paired 1 [] [(0, 0)] (i_match_pair s')" "rows_paired 2 [] [(0, 1), (1, 0)] (i_in_match_pair s')"
    using outs ins by (simp_all only:)
  then show ?thesis using run by (auto simp: rows_paired_def old_row_def)
qed

end
