(* ===== verification/Spec2Isabelle.thy ===== *)
theory Spec2Isabelle
  imports Sim_Props Start_Props Bus_Props Build_Props Trace_Props File_Props Init_Props Main_Props Support_Props
    Verdict_Props Miter_Single Abc_Commands Show_Text Flip_Check Eq_Match Comb_Random Group_Match
begin

text \<open>
  A verification development of the multi-bit Boolean matcher under \<open>src/src\<close>: \<open>Netlist.h\<close>, \<open>Parser.cpp\<close>,
  \<open>Matching.cpp\<close>, \<open>miter.cpp\<close>, \<open>Output.h\<close> and \<open>main.cpp\<close>.

  \<^bold>\<open>The program.\<close> It gets two combinational netlists with the buses of their ports and looks for a matching: for each
  output of circuit 2 an output of circuit 1, for each input of circuit 2 an input of circuit 1 or a constant, both up to
  negation, such that matched outputs compute the same function. \<open>main\<close> reads the input file (\<open>ParseInput\<close>), lets ABC map
  both netlists to simple gates, parses them (\<open>Parser\<close>) into two objects of class \<open>Module\<close> over a common heap of nodes,
  and groups their ports into buses (\<open>setBus\<close>). \<open>MatchAlgo\<close> analyses both modules and prepares initial partners for
  the benchmarks it knows by their numbers of wires. When the circuits have different numbers of inputs, \<open>match_bus\<close>
  finds which sizes of buses may be matched. \<open>readFunctionSupport\<close> loads the inputs each output depends on, which
  \<open>findFunctionalSupport\<close> had computed. \<open>new_boolean_match\<close> collects candidates and runs a backtracking search
  (\<open>match_output\<close>, \<open>match_input\<close>), which asks \<open>miterOneOutputRandom\<close> whether a pair of outputs agrees, and writes
  every better answer (\<open>writePartialAns\<close>, \<open>writeOutput\<close>). At the end \<open>verifyResult\<close> and \<open>miter\<close> check the answer.

  \<^bold>\<open>Conventions.\<close> \<open>Cpp_Prelude\<close> and \<open>Cpp_Text\<close> hold the C++ the rest is written in: a computation that may fail is of
  type \<open>'a res\<close>, with the errors \<open>Exit\<close> (the macro \<open>err\<close>), \<open>Bad_Index\<close>, \<open>Null_Deref\<close> and \<open>Int_Overflow\<close> (undefined behaviour),
  \<open>Stack_Overflow\<close> (recursion out of fuel), \<open>Throw\<close> and \<open>Hang\<close>; \<open>vget\<close> and \<open>vset\<close> are the checked accesses to a vector; \<open>rfold\<close> and
  \<open>search\<close> are the loops; streams carry the rest of their text and their state bits. A \<open>Node*\<close> is an address, the heap
  a map from addresses to records \<open>node\<close>, a \<open>Module\<close> a record; operations that change them return them. The 8192-bit
  words of the parallel simulators are \<open>8192 word\<close>s; numbers the program only counts with are \<open>int\<close> or \<open>nat\<close>, with the bounds below.

  \<^bold>\<open>Theories and code.\<close>
  \<^item> \<open>Net_Types\<close>: the enumerations, \<open>Node\<close>, \<open>Operation\<close> and \<open>Module\<close> of \<open>Netlist.h\<close>.
  \<^item> \<open>Net_Sim\<close>, \<open>Net_Words\<close>: the simulators \<open>OutputValue\<close>, \<open>getResult\<close>, \<open>miterGetResult\<close>, \<open>miterRandomSimulate\<close>.
    The relation \<open>evals\<close> is the Boolean function of a node; the scalar simulator and every lane of the parallel ones are
    shown to compute it, with the parallel descent proved once in the locale \<open>lane_simulator\<close>.
  \<^item> \<open>Truth_Table\<close>, \<open>Truth_Words\<close>: \<open>truthTable\<close> and \<open>truthTable_new\<close>, and that they agree.
  \<^item> \<open>Miter_Random\<close>, \<open>Miter_Correct\<close>: \<open>miterOneOutputRandom\<close>, exact below 18 inputs, never rejecting a correct pair.
  \<^item> \<open>Miter_Text\<close>, \<open>Port_Text\<close>, \<open>Miter_Verilog\<close>, \<open>Miter_Single\<close>: \<open>miter\<close> and \<open>miterOneOutput\<close>, which write Verilog.
    The text of \<open>miter\<close> is shown to render an abstract miter, whose models are the assignments on which outputs differ.
  \<^item> \<open>Net_Build\<close>, \<open>Build_Inv\<close>, \<open>Net_Simplify\<close>: constructor, \<open>AddNode\<close>, \<open>Connect\<close>, \<open>setBus\<close>, \<open>Link\<close> and
    \<open>Simplification\<close>; the invariants they keep, and that \<open>Simplification\<close> keeps the functions.
  \<^item> \<open>Net_Parser\<close>, \<open>Parse_Correct\<close>, \<open>Input_Files\<close>: \<open>RemoveSpace\<close>, \<open>MakeLine\<close>, \<open>Parser\<close>, \<open>ParseInput\<close>, \<open>DeleteGateName\<close>
    on texts, and that printed files are read back.
  \<^item> \<open>Net_Trace\<close>, \<open>Trace_Correct\<close>: \<open>CollectPI\<close>, \<open>TraceInputs\<close>, \<open>CountGate\<close>, \<open>countInvForXORTree\<close>, \<open>findXORTreeRoot\<close>.
  \<^item> \<open>Operation_Model\<close>, \<open>Operation_Correct\<close>: class \<open>Operation\<close>, \<open>ComputeNOTEncode\<close>, \<open>PartitionGroup\<close>, \<open>showGroup\<close>.
  \<^item> \<open>Bus_Config\<close>, \<open>Ctrl_Netlist\<close>: \<open>TraceXOR\<close>, \<open>TraceTerm\<close>, \<open>CombineTerm\<close>, \<open>BusConfig\<close>, \<open>OutputConfig\<close>;
    \<open>assign_ctrl_signal\<close>, \<open>ForkCtrlNetlist\<close>, \<open>getBus4Encode\<close>.
  \<^item> \<open>Func_Support\<close>, \<open>Support_Miter\<close>, \<open>Support_Files\<close>: \<open>findFunctionalSupport\<close>, whose small miters are shown to render
    netlists that have a model exactly when the output changes with the input; \<open>storeFunctionSupport\<close>, \<open>readFunctionSupport\<close>.
  \<^item> \<open>Match_Init\<close>, \<open>Init_Inv\<close>, \<open>Group_Match\<close>: \<open>MatchAlgo\<close>, \<open>setGroupMatch\<close>, \<open>setInitSolution\<close>, what they keep, and exactly which
    ports \<open>setGroupMatch\<close> pairs.
  \<^item> \<open>Match_Bus\<close>: \<open>getBusSet\<close>, \<open>recur_match_bus\<close>, \<open>match_bus\<close>.
  \<^item> \<open>Match_Search\<close>: the search of class \<open>Match\<close> with its lock vectors, counters and bus maps. \<open>Match_Inv\<close>,
    \<open>Match_Steps\<close>, \<open>Match_Quota\<close>, \<open>Match_Moves\<close>, \<open>Match_Correct\<close>, \<open>Match_Sound\<close> prove that each step keeps the
    invariant and is undone, that the search decides the specification \<open>out_step\<close> (in the locale \<open>output_search\<close>, the
    contract of the recursion through \<open>match_input\<close>), and that recorded answers are right.
  \<^item> \<open>Match_Gen\<close>, \<open>Match_Ready\<close>, \<open>Match_Start\<close>: \<open>assignFuncSupp\<close>, \<open>genPIinPO\<close>, \<open>genOutputMatch\<close>, \<open>genInputMatch\<close>,
    \<open>genInfo\<close>, \<open>new_boolean_match\<close>, and that they establish what the search assumes.
  \<^item> \<open>Output_Writer\<close>: \<open>writeOutput\<close> and the tables of an answer. \<open>Main_Program\<close>: \<open>verifyResult\<close> and \<open>main\<close>.
  \<^item> \<open>Abc_Commands\<close>: \<open>ABCRebuild\<close>, \<open>ABCSplitOutput\<close> and the commands of the other calls of ABC.
  \<^item> \<open>Show_Text\<close>: what \<open>printBT\<close>, \<open>showNode\<close>, \<open>showOp\<close>, \<open>Simulate\<close>, \<open>printLock\<close> and the logs write.
  \<^item> Code nothing calls: \<open>Flip_Check\<close> (\<open>InitToZeroBit\<close>, \<open>CheckMulBit\<close>, \<open>CheckCarry\<close>, \<open>CheckFlip\<close>, \<open>RenameVerilog\<close>),
    \<open>Eq_Match\<close> (\<open>setBusMatch\<close>, \<open>setEQMatch\<close>), \<open>Comb_Random\<close> (\<open>getComb\<close>, \<open>factor\<close>, \<open>SimTest\<close>, \<open>isInTime\<close>, \<open>randint\<close>).
    \<open>CheckFlip\<close> is shown to end, \<open>getComb\<close> to enumerate the selections, \<open>randint\<close> to be uniform.
  \<^item> \<open>Example_Net\<close>, \<open>Example_Run\<close>: two small circuits and a search on them that succeeds. The properties, with the concrete inputs that show their hypotheses can hold, are in
    \<open>Sim_Props\<close>, \<open>Match_Props\<close>, \<open>Start_Props\<close>, \<open>Bus_Props\<close>, \<open>Build_Props\<close>, \<open>Trace_Props\<close>, \<open>File_Props\<close>,
    \<open>Init_Props\<close>, \<open>Main_Props\<close>, \<open>Support_Props\<close>, \<open>Verdict_Props\<close>, and at the end of \<open>Group_Match\<close>, of the theories of unused code and of \<open>Abc_Commands\<close>.

  \<^bold>\<open>How the theorems compose.\<close> A module the parser builds satisfies the module invariant; \<open>setBus\<close> establishes the
  typing of ports and buses; \<open>MatchAlgo\<close> keeps both; \<open>findFunctionalSupport\<close> finds the exact supports and the support files
  give them back. From these \<open>new_boolean_match\<close> returns, and each output in the recorded answer with fewer than 18 inputs in its
  support computes the function of the output it is matched to. The tables \<open>main\<close> makes of the answer are in range, are written as the file the search
  wrote, and meet the premises under which the final \<open>miter\<close> is exact when every input of circuit 2 is locked.
  \<open>main_reports_eq\<close> joins these parts: on true supports of fewer than 18 inputs that need every input of circuit 2, a search that succeeds gives an
  answer for which no assignment makes two matched outputs differ, and \<open>main\<close> writes the last answer file and reports
  equality. \<open>ABCRebuild_texts\<close> shows that the files \<open>main\<close> goes on with are those \<open>main\<close> is modelled with.

  \<^bold>\<open>What the correctness theorems leave out.\<close> An output with 18 or more inputs is only simulated on random patterns, so the search
  may record a wrong partner for it. The word formulas of \<open>ONEBUF\<close> and of \<open>NAND\<close> and \<open>NOR\<close> with inverted inputs are wrong
  (\<open>word_formulas_wrong\<close>), so the theorems on the parallel simulators, and with them those on the search, assume the netlists to be without
  such gates. The search theorems assume the ranges of the two reads the code makes without a test (\<open>unchecked_ok\<close>; \<open>unchecked_reads\<close> shows
  they can fail), and no initial input partners where they speak of functions. The text of \<open>miter\<close> is right when no port
  name is a suffix of another (\<open>connect_port_suffix\<close>) and every input of circuit 2 has a partner or a constant; the text of a small miter
  of \<open>findFunctionalSupport\<close> is Verilog when the cone does not have exactly one input (\<open>support_text_one_input\<close>).

  \<^bold>\<open>Interfaces.\<close> Three locales: \<open>lane_simulator\<close> (a table of gate formulas), interpreted for \<open>getResult\<close> and
  \<open>miterGetResult\<close>; \<open>output_search\<close> (the continuation of \<open>match_input\<close>), interpreted for \<open>match_output\<close>;
  \<open>kept\<close> (a relation that steps keep, with the rules for loops), interpreted for the netlist, the module and the
  state of \<open>MatchAlgo\<close>.

  \<^bold>\<open>Bounds and fuel.\<close> Recursion along the fan-in has fuel; a rank function of the acyclic netlist (\<open>net_wf\<close>) bounds the
  depth, and the theorems show that fuel above the rank is enough. The queue of \<open>CountGate\<close> has fuel for the nodes taken
  from it, and enough of it is shown to empty the queue. The recursion of the search has as its measure the outputs
  still to match. Loops over streams terminate because the text gets shorter; \<open>MakeLine\<close>, which reads on for ever without a
  semicolon, returns \<open>Hang\<close>, exactly then. The replacements of \<open>assign_ctrl_signal\<close> have fuel for their number. The number of
  patterns of \<open>truthTable\<close> is counted in \<open>nat\<close>, which is the code for at most 30 inputs; the code of a group is proved to
  fit its \<open>int\<close> for at most 31 terms. The path counts of \<open>CountGate\<close>, which grow exponentially with reconvergence, are checked \<open>int\<close>s: the
  theorem says when they overflow. Other counts stay far below the range of \<open>int\<close> and are unbounded in the model: the signature of a bus, a sum of
  powers of 13 up to \<open>13 ^ 5\<close>, needs thousands of products of six buses to leave it; the difference of an \<open>int\<close> and a \<open>size_t\<close>
  under \<open>abs\<close> in the candidates of the search is converted back to a signed number, so it is the absolute difference.

  \<^bold>\<open>Parameters.\<close> ABC is a function from the text it reads to the text it writes (in \<open>Abc_Commands\<close> from a
  command and the files to the files, with a contract that gives the first form); ABC and CaDiCaL together are a function
  \<open>solve\<close> from a Verilog text to the result code, and the theorems that need it assume it is 10 exactly for
  satisfiable miters. What the standard leaves open is a parameter and arbitrary in the theorems: the iteration orders of
  hash sets and of containers keyed by addresses, the order of equal elements after \<open>std::sort\<close>, the random numbers.

  \<^bold>\<open>Not modelled.\<close>
  \<^item> \<open>src/cadical-master\<close>, the vendored solver, and ABC itself: third-party code.
  \<^item> The messages on the console other than those of \<open>Show_Text\<close>. Where a print statement reads a vector that may be too
    short, the read is modelled.
  \<^item> The storage of the nodes \<open>Simplification\<close> deletes: the model drops them from the netlist and leaves their records in the heap, which nothing
    refers to any more on the netlists of \<open>Simplification_preserves\<close>.
  \<^item> The search has no time limit in the program: nothing calls \<open>isInTime\<close>.
\<close>

end
